(* ===== verification/Prelude.thy ===== *)
theory Prelude
  imports Main "HOL-Library.Word" "HOL-Library.Sublist"
begin

text \<open>
  Shared vocabulary of the development: the standard-library string operations the Rust code
  uses (on \<open>str\<close>, modelled as a list of \<open>char\<close>: one list element per Rust \<open>char\<close>, for text in
  the Latin-1 range of Unicode), decimal printing and parsing of unsigned integers, SQLite
  tables as lists of rows with the statement forms the code issues, HTTP error values, and the
  generic locales (invariants of step relations, first-fit search) the components interpret.
\<close>

named_theorems str_simps \<open>evaluation rules of the string operations\<close>
named_theorems sql_simps \<open>rules for tables and the statements on them\<close>

section \<open>Strings\<close>

subsection \<open>White space and trimming\<close>

text \<open>\<open>char::is_whitespace\<close> on the Latin-1 range.\<close>

definition is_ws :: "char \<Rightarrow> bool" where
  "is_ws c = (let n = (of_char c :: nat) in (9 \<le> n \<and> n \<le> 13) \<or> n = 32 \<or> n = 133 \<or> n = 160)"

definition trim_start :: "string \<Rightarrow> string" where
  "trim_start s = dropWhile is_ws s"

definition trim_end :: "string \<Rightarrow> string" where
  "trim_end s = rev (dropWhile is_ws (rev s))"

definition trim :: "string \<Rightarrow> string" where
  "trim s = trim_end (trim_start s)"

definition trim_chars_start :: "(char \<Rightarrow> bool) \<Rightarrow> string \<Rightarrow> string" where
  "trim_chars_start P s = dropWhile P s"

definition trim_chars_end :: "(char \<Rightarrow> bool) \<Rightarrow> string \<Rightarrow> string" where
  "trim_chars_end P s = rev (dropWhile P (rev s))"

text \<open>\<open>str::trim_matches(c)\<close>\<close>

definition trim_matches :: "char \<Rightarrow> string \<Rightarrow> string" where
  "trim_matches c s = trim_chars_end (\<lambda>x. x = c) (trim_chars_start (\<lambda>x. x = c) s)"

lemma is_ws_newline [simp]: "is_ws (CHR 0x0A)"
  by (simp add: is_ws_def)

lemma trim_Nil [simp]: "trim [] = []"
  by (simp add: trim_def trim_start_def trim_end_def)

text \<open>A string with no white space at either end is its own trimming.\<close>

lemma trim_end_id: "s = [] \<or> \<not> is_ws (last s) \<Longrightarrow> trim_end s = s"
proof (cases s rule: rev_cases)
  case (snoc ys y)
  moreover assume "s = [] \<or> \<not> is_ws (last s)"
  ultimately show ?thesis by (simp add: trim_end_def)
qed (simp add: trim_end_def)

lemma trim_start_id: "s = [] \<or> \<not> is_ws (hd s) \<Longrightarrow> trim_start s = s"
  by (cases s) (auto simp: trim_start_def)

lemma trim_id: "s = [] \<or> (\<not> is_ws (hd s) \<and> \<not> is_ws (last s)) \<Longrightarrow> trim s = s"
  by (auto simp: trim_def trim_start_id trim_end_id)

lemma trim_end_append_nonws:
  "\<not> is_ws c \<Longrightarrow> trim_end (xs @ [c] @ ys) = xs @ [c] @ trim_end ys"
  by (simp add: trim_end_def dropWhile_append)

lemma trim_end_Cons_nonws: "\<not> is_ws c \<Longrightarrow> trim_end (c # ys) = c # trim_end ys"
  using trim_end_append_nonws [of c "[]" ys] by simp

lemma trim_Cons_nonws: "\<not> is_ws c \<Longrightarrow> trim (c # ys) = c # trim_end ys"
  by (simp add: trim_def trim_start_def trim_end_Cons_nonws)

lemma trim_end_nonempty: "trim_end s \<noteq> [] \<Longrightarrow> \<not> is_ws (last (trim_end s))"
proof -
  assume ne: "trim_end s \<noteq> []"
  then have "dropWhile is_ws (rev s) \<noteq> []" by (simp add: trim_end_def)
  then show ?thesis using hd_dropWhile [of is_ws "rev s"] by (simp add: trim_end_def last_rev)
qed

lemma set_trim_end: "set (trim_end s) \<subseteq> set s"
  using set_dropWhileD by (fastforce simp: trim_end_def)

lemma set_trim_start: "set (trim_start s) \<subseteq> set s"
  using set_dropWhileD by (fastforce simp: trim_start_def)

lemma set_trim: "set (trim s) \<subseteq> set s"
  using set_trim_end set_trim_start by (fastforce simp: trim_def)

lemma trim_end_eq_Nil: "trim_end s = [] \<longleftrightarrow> (\<forall>c \<in> set s. is_ws c)"
  by (simp add: trim_end_def)

lemma trim_start_eq_Nil: "trim_start s = [] \<longleftrightarrow> (\<forall>c \<in> set s. is_ws c)"
  by (simp add: trim_start_def)

lemma trim_start_hd: "trim_start s \<noteq> [] \<Longrightarrow> \<not> is_ws (hd (trim_start s))"
  using hd_dropWhile [of is_ws s] by (simp add: trim_start_def)

lemma trim_eq_Nil: "trim s = [] \<longleftrightarrow> (\<forall>c \<in> set s. is_ws c)"
proof
  assume "trim s = []"
  then have "\<forall>c \<in> set (trim_start s). is_ws c" by (simp add: trim_def trim_end_eq_Nil)
  then have "trim_start s = []"
    using trim_start_hd [of s] hd_in_set [of "trim_start s"] by blast
  then show "\<forall>c \<in> set s. is_ws c" by (simp add: trim_start_eq_Nil)
qed (use set_trim_start trim_end_eq_Nil in \<open>fastforce simp: trim_def\<close>)

lemma trim_end_idem: "trim_end (trim_end s) = trim_end s"
  using trim_end_id trim_end_nonempty by blast

lemma trim_start_trim_end_id: "trim_start s = s \<Longrightarrow> trim_start (trim_end s) = trim_end s"
proof (cases s)
  case (Cons c cs)
  assume "trim_start s = s"
  then have "\<not> is_ws c" using trim_start_hd [of s] Cons by simp
  then show ?thesis by (simp add: Cons trim_end_Cons_nonws trim_start_def)
qed (simp add: trim_end_def trim_start_def)

lemma trim_idem: "trim (trim s) = trim s"
proof -
  have "trim_start (trim_start s) = trim_start s"
    using trim_start_id trim_start_hd by blast
  then show ?thesis using trim_start_trim_end_id trim_end_idem by (simp add: trim_def)
qed

subsection \<open>Prefixes, suffixes and splitting\<close>

definition starts_with :: "string \<Rightarrow> string \<Rightarrow> bool" where
  "starts_with s p = (take (length p) s = p)"

definition ends_with :: "string \<Rightarrow> string \<Rightarrow> bool" where
  "ends_with s p = (length p \<le> length s \<and> drop (length s - length p) s = p)"

definition strip_prefix :: "string \<Rightarrow> string \<Rightarrow> string option" where
  "strip_prefix s p = (if starts_with s p then Some (drop (length p) s) else None)"

definition strip_suffix :: "string \<Rightarrow> string \<Rightarrow> string option" where
  "strip_suffix s p = (if ends_with s p then Some (take (length s - length p) s) else None)"

lemma starts_with_append [simp]: "starts_with (p @ s) p"
  by (simp add: starts_with_def)

text \<open>\<open>str::split(c)\<close>, \<open>str::split_once(c)\<close> and \<open>str::rsplit_once(c)\<close>.\<close>

fun split_on :: "char \<Rightarrow> string \<Rightarrow> string list" where
  "split_on c [] = [[]]"
| "split_on c (x # xs) =
     (if x = c then [] # split_on c xs
      else (case split_on c xs of [] \<Rightarrow> [[x]] | w # ws \<Rightarrow> (x # w) # ws))"

fun split_once :: "char \<Rightarrow> string \<Rightarrow> (string \<times> string) option" where
  "split_once c [] = None"
| "split_once c (x # xs) =
     (if x = c then Some ([], xs)
      else (case split_once c xs of None \<Rightarrow> None | Some (a, b) \<Rightarrow> Some (x # a, b)))"

definition rsplit_once :: "char \<Rightarrow> string \<Rightarrow> (string \<times> string) option" where
  "rsplit_once c s =
     (case split_once c (rev s) of None \<Rightarrow> None | Some (a, b) \<Rightarrow> Some (rev b, rev a))"

lemma split_once_notin: "c \<notin> set a \<Longrightarrow> split_once c (a @ c # b) = Some (a, b)"
  by (induction a) auto

lemma split_once_None: "split_once c s = None \<longleftrightarrow> c \<notin> set s"
  by (induction s) (auto split: option.splits)

lemma split_once_Some: "split_once c s = Some (a, b) \<Longrightarrow> s = a @ c # b \<and> c \<notin> set a"
  by (induction s arbitrary: a) (auto split: option.splits if_splits)

lemma split_on_ne [simp]: "split_on c s \<noteq> []"
  by (induction s) (auto split: list.splits)

lemma split_on_notin: "c \<notin> set s \<Longrightarrow> split_on c s = [s]"
  by (induction s) auto

lemma split_on_append: "c \<notin> set a \<Longrightarrow> split_on c (a @ c # b) = a # split_on c b"
  by (induction a) auto

text \<open>\<open>str::contains(&str)\<close> and \<open>str::find(&str)\<close>.\<close>

fun find_str :: "string \<Rightarrow> string \<Rightarrow> nat option" where
  "find_str p [] = (if p = [] then Some 0 else None)"
| "find_str p (x # xs) =
     (if starts_with (x # xs) p then Some 0 else map_option Suc (find_str p xs))"

definition contains_str :: "string \<Rightarrow> string \<Rightarrow> bool" where
  "contains_str s p = (find_str p s \<noteq> None)"

subsection \<open>Lines\<close>

text \<open>
  \<open>str::lines\<close>: split after each newline; a terminated line loses its newline and one
  carriage return before it; an unterminated last line is kept as it is when it is not empty.
\<close>

abbreviation NL :: char where "NL \<equiv> CHR 0x0A"
abbreviation CR :: char where "CR \<equiv> CHR 0x0D"

definition chomp_cr :: "string \<Rightarrow> string" where
  "chomp_cr l = (if l \<noteq> [] \<and> last l = CR then butlast l else l)"

fun lines_acc :: "string \<Rightarrow> string \<Rightarrow> string list" where
  "lines_acc acc [] = (if acc = [] then [] else [rev acc])"
| "lines_acc acc (c # cs) =
     (if c = NL then chomp_cr (rev acc) # lines_acc [] cs else lines_acc (c # acc) cs)"

definition lines :: "string \<Rightarrow> string list" where
  "lines s = lines_acc [] s"

text \<open>Every line with its newline: what a loop of \<open>push_str(line); push('\n')\<close> builds.\<close>

definition unlines :: "string list \<Rightarrow> string" where
  "unlines ls = concat (map (\<lambda>l. l @ [NL]) ls)"

text \<open>A line that \<open>lines\<close> gives back unchanged.\<close>

definition clean_line :: "string \<Rightarrow> bool" where
  "clean_line l = (NL \<notin> set l \<and> (l = [] \<or> last l \<noteq> CR))"

lemma lines_acc_line:
  "NL \<notin> set l \<Longrightarrow> lines_acc acc (l @ NL # s) = chomp_cr (rev acc @ l) # lines_acc [] s"
  by (induction l arbitrary: acc) auto

lemma lines_line: "clean_line l \<Longrightarrow> lines (l @ NL # s) = l # lines s"
  using lines_acc_line [of l "[]" s] by (auto simp: lines_def clean_line_def chomp_cr_def)

lemma lines_unlines_append:
  "list_all clean_line ls \<Longrightarrow> lines (unlines ls @ s) = ls @ lines s"
  by (induction ls) (auto simp: unlines_def lines_line)

lemma lines_Nil [simp]: "lines [] = []"
  by (simp add: lines_def)

lemma lines_unlines: "list_all clean_line ls \<Longrightarrow> lines (unlines ls) = ls"
  using lines_unlines_append [of ls "[]"] by simp

lemma unlines_append: "unlines (a @ b) = unlines a @ unlines b"
  by (simp add: unlines_def)

lemma unlines_Cons: "unlines (l # ls) = l @ NL # unlines ls"
  by (simp add: unlines_def)

lemma unlines_Nil [simp]: "unlines [] = []"
  by (simp add: unlines_def)

lemma set_chomp_cr: "set (chomp_cr l) \<subseteq> set l"
  by (auto simp: chomp_cr_def dest: in_set_butlastD)

lemma lines_acc_no_newline: "l \<in> set (lines_acc acc s) \<Longrightarrow> NL \<notin> set acc \<Longrightarrow> NL \<notin> set l"
proof (induction acc s rule: lines_acc.induct)
  case (2 acc c cs)
  then show ?case using set_chomp_cr [of "rev acc"] by (auto split: if_splits)
qed (auto split: if_splits)

lemma lines_no_newline: "l \<in> set (lines s) \<Longrightarrow> NL \<notin> set l"
  using lines_acc_no_newline [of l "[]" s] by (simp add: lines_def)

text \<open>\<open>str::split_whitespace\<close>: the maximal runs of characters that are not white space.\<close>

fun split_ws_acc :: "string \<Rightarrow> string \<Rightarrow> string list" where
  "split_ws_acc acc [] = (if acc = [] then [] else [rev acc])"
| "split_ws_acc acc (c # cs) =
     (if is_ws c then (if acc = [] then split_ws_acc [] cs else rev acc # split_ws_acc [] cs)
      else split_ws_acc (c # acc) cs)"

definition split_whitespace :: "string \<Rightarrow> string list" where
  "split_whitespace s = split_ws_acc [] s"

subsection \<open>ASCII case and classes\<close>

definition is_digit :: "char \<Rightarrow> bool" where
  "is_digit c = (let n = (of_char c :: nat) in 48 \<le> n \<and> n \<le> 57)"

definition is_alpha :: "char \<Rightarrow> bool" where
  "is_alpha c = (let n = (of_char c :: nat) in (65 \<le> n \<and> n \<le> 90) \<or> (97 \<le> n \<and> n \<le> 122))"

text \<open>\<open>char::to_ascii_lowercase\<close> and \<open>str::to_ascii_lowercase\<close>.\<close>

definition lower_char :: "char \<Rightarrow> char" where
  "lower_char c = (let n = (of_char c :: nat) in if 65 \<le> n \<and> n \<le> 90 then char_of (n + 32) else c)"

definition lower :: "string \<Rightarrow> string" where
  "lower s = map lower_char s"

lemma lower_char_idem [simp]: "lower_char (lower_char c) = lower_char c"
  by (auto simp: lower_char_def Let_def)

lemma lower_idem [simp]: "lower (lower s) = lower s"
  by (simp add: lower_def)

subsection \<open>Decimal numbers\<close>

definition digit_char :: "nat \<Rightarrow> char" where
  "digit_char d = char_of (48 + d)"

definition digit_val :: "char \<Rightarrow> nat" where
  "digit_val c = of_char c - 48"

text \<open>The \<open>Display\<close> of an unsigned integer.\<close>

fun dec :: "nat \<Rightarrow> string" where
  "dec n = (if n < 10 then [digit_char n] else dec (n div 10) @ [digit_char (n mod 10)])"

declare dec.simps [simp del]

definition show_int :: "int \<Rightarrow> string" where
  "show_int i = (if i < 0 then CHR ''-'' # dec (nat (- i)) else dec (nat i))"

definition dec_val :: "string \<Rightarrow> nat" where
  "dec_val s = foldl (\<lambda>a c. 10 * a + digit_val c) 0 s"

text \<open>\<open>str::parse\<close> at an unsigned type with the given maximum: one optional \<open>+\<close>, at least one
  digit, only digits, no overflow.\<close>

definition parse_uint :: "nat \<Rightarrow> string \<Rightarrow> nat option" where
  "parse_uint mx s =
     (let ds = (case strip_prefix s ''+'' of None \<Rightarrow> s | Some r \<Rightarrow> r)
      in if ds \<noteq> [] \<and> list_all is_digit ds \<and> dec_val ds \<le> mx then Some (dec_val ds) else None)"

lemma digit_char_digit [simp]: "d < 10 \<Longrightarrow> is_digit (digit_char d)"
  by (simp add: is_digit_def digit_char_def Let_def)

lemma digit_val_char [simp]: "d < 10 \<Longrightarrow> digit_val (digit_char d) = d"
  by (simp add: digit_val_def digit_char_def)

lemma dec_ne [simp]: "dec n \<noteq> []"
  by (subst dec.simps) simp

lemma dec_digits [simp]: "list_all is_digit (dec n)"
proof (induction n rule: dec.induct)
  case (1 n)
  then show ?case by (subst dec.simps) simp
qed

lemma dec_val_dec [simp]: "dec_val (dec n) = n"
proof (induction n rule: dec.induct)
  case (1 n)
  then show ?case by (subst dec.simps) (simp add: dec_val_def)
qed

lemma plus_not_digit [simp]: "\<not> is_digit (CHR ''+'')"
  by (simp add: is_digit_def)

lemma digits_no_plus: "list_all is_digit s \<Longrightarrow> s \<noteq> [] \<Longrightarrow> strip_prefix s ''+'' = None"
  by (cases s) (auto simp: strip_prefix_def starts_with_def)

lemma parse_dec: "n \<le> mx \<Longrightarrow> parse_uint mx (dec n) = Some n"
  by (simp add: parse_uint_def digits_no_plus)

lemma parse_uint_bound: "parse_uint mx s = Some n \<Longrightarrow> n \<le> mx"
  by (auto simp: parse_uint_def Let_def split: if_splits)

lemma dec_inj: "dec m = dec n \<longleftrightarrow> m = n"
  by (metis dec_val_dec)

lemma digit_not_ws: "is_digit c \<Longrightarrow> \<not> is_ws c"
  by (auto simp: is_digit_def is_ws_def Let_def)

lemma dec_set: "c \<in> set (dec n) \<Longrightarrow> is_digit c"
  using dec_digits [of n] by (simp add: list_all_iff)

section \<open>SQLite tables\<close>

text \<open>
  A table is the list of its rows in rowid order. A statement that names a row by key is the
  list operation with the key test as its predicate; the number of rows it changed, which
  \<open>execute\<close> returns, is \<open>sql_count\<close> of that predicate.
\<close>

definition sql_update :: "('r \<Rightarrow> bool) \<Rightarrow> ('r \<Rightarrow> 'r) \<Rightarrow> 'r list \<Rightarrow> 'r list" where
  "sql_update P f t = map (\<lambda>r. if P r then f r else r) t"

definition sql_delete :: "('r \<Rightarrow> bool) \<Rightarrow> 'r list \<Rightarrow> 'r list" where
  "sql_delete P t = filter (\<lambda>r. \<not> P r) t"

definition sql_count :: "('r \<Rightarrow> bool) \<Rightarrow> 'r list \<Rightarrow> nat" where
  "sql_count P t = length (filter P t)"

definition sql_first :: "('r \<Rightarrow> bool) \<Rightarrow> 'r list \<Rightarrow> 'r option" where
  "sql_first P t = find P t"

lemma sql_update_Nil [sql_simps]: "sql_update P f [] = []"
  by (simp add: sql_update_def)

lemma sql_update_Cons [sql_simps]:
  "sql_update P f (r # t) = (if P r then f r else r) # sql_update P f t"
  by (simp add: sql_update_def)

lemma sql_delete_Nil [sql_simps]: "sql_delete P [] = []"
  by (simp add: sql_delete_def)

lemma sql_delete_Cons [sql_simps]:
  "sql_delete P (r # t) = (if P r then sql_delete P t else r # sql_delete P t)"
  by (simp add: sql_delete_def)

lemma sql_count_Nil [sql_simps]: "sql_count P [] = 0"
  by (simp add: sql_count_def)

lemma sql_count_Cons [sql_simps]: "sql_count P (r # t) = (if P r then 1 else 0) + sql_count P t"
  by (simp add: sql_count_def)

lemma sql_count_append: "sql_count P (s @ t) = sql_count P s + sql_count P t"
  by (simp add: sql_count_def)

lemma set_sql_delete: "set (sql_delete P t) = {r \<in> set t. \<not> P r}"
  by (auto simp: sql_delete_def)

lemma set_sql_update: "set (sql_update P f t) = (\<lambda>r. if P r then f r else r) ` set t"
  by (simp add: sql_update_def)

lemma sql_first_Some: "sql_first P t = Some r \<Longrightarrow> r \<in> set t \<and> P r"
  by (auto simp: sql_first_def find_Some_iff)

lemma sql_first_None: "sql_first P t = None \<longleftrightarrow> (\<forall>r \<in> set t. \<not> P r)"
  by (auto simp: sql_first_def find_None_iff)

lemma sql_first_Nil [sql_simps]: "sql_first P [] = None"
  by (simp add: sql_first_def)

lemma sql_first_Cons [sql_simps]: "sql_first P (r # t) = (if P r then Some r else sql_first P t)"
  by (simp add: sql_first_def)

lemma sql_first_append:
  "sql_first P (s @ t) = (case sql_first P s of None \<Rightarrow> sql_first P t | Some r \<Rightarrow> Some r)"
  by (induction s) (simp_all add: sql_simps)

lemma sql_first_update_key:
  "(\<And>r. P (g r) = P r) \<Longrightarrow> sql_first P (sql_update P g t) = map_option g (sql_first P t)"
  by (induction t) (auto simp: sql_simps)

lemma distinct_map_sql_delete: "distinct (map f xs) \<Longrightarrow> distinct (map f (sql_delete P xs))"
  by (simp add: sql_delete_def distinct_map_filter)

lemma in_sql_update:
  "r \<in> set (sql_update P f t) \<Longrightarrow> (\<exists>x \<in> set t. P x \<and> r = f x) \<or> (r \<in> set t \<and> \<not> P r)"
  by (auto simp: sql_update_def)

lemma sql_count_pos: "0 < sql_count P t \<longleftrightarrow> (\<exists>r \<in> set t. P r)"
  by (auto simp: sql_count_def filter_empty_conv)

lemma sql_count_zero: "sql_count P t = 0 \<longleftrightarrow> (\<forall>r \<in> set t. \<not> P r)"
  by (auto simp: sql_count_def filter_empty_conv)

lemma map_sql_update: "(\<And>r. P r \<Longrightarrow> g (f r) = g r) \<Longrightarrow> map g (sql_update P f t) = map g t"
  by (simp add: sql_update_def)

lemma sql_count_update:
  "(\<And>r. r \<in> set t \<Longrightarrow> P r \<Longrightarrow> Q (f r) = Q r) \<Longrightarrow> sql_count Q (sql_update P f t) = sql_count Q t"
  by (induction t) (auto simp: sql_simps)

lemma length_sql_update [simp]: "length (sql_update P f t) = length t"
  by (simp add: sql_update_def)

text \<open>A statement on one key changes a count by at most one.\<close>

lemma sql_count_delete_key:
  "distinct (map key t) \<Longrightarrow> sql_count Q t \<le> Suc (sql_count Q (sql_delete (\<lambda>r. key r = k) t))"
proof (induction t)
  case (Cons r t)
  show ?case
  proof (cases "key r = k")
    case True
    then have "sql_delete (\<lambda>r. key r = k) t = t"
      using Cons.prems by (auto simp: sql_delete_def filter_id_conv image_iff)
    then show ?thesis using True by (simp add: sql_simps)
  qed (use Cons in \<open>auto simp: sql_simps\<close>)
qed (simp add: sql_simps)

lemma sql_count_update_key:
  "distinct (map key t) \<Longrightarrow> sql_count Q t \<le> Suc (sql_count Q (sql_update (\<lambda>r. key r = k) f t))"
proof (induction t)
  case (Cons r t)
  show ?case
  proof (cases "key r = k")
    case True
    then have "sql_update (\<lambda>r. key r = k) f t = t"
      using Cons.prems by (auto simp: sql_update_def image_iff intro!: map_idI)
    then show ?thesis using True by (simp add: sql_simps)
  qed (use Cons in \<open>auto simp: sql_simps\<close>)
qed (simp add: sql_simps)

section \<open>Errors\<close>

text \<open>
  \<open>AppError\<close> (error.rs). A message is the translation key with its arguments, or a literal
  text; the payload of a Docker, database or internal error is its text.
\<close>

datatype msg = Te string "(string \<times> string) list" | Lit string

datatype app_error =
    NotFound msg
  | Unauthorized
  | Forbidden msg
  | BadRequest msg
  | Conflict msg
  | ResourceNameConflict string string
  | DomainsRequireConfirmation "string list"
  | DockerError string
  | DatabaseError string
  | OperationFailed string
  | Internal string

abbreviation te :: "string \<Rightarrow> msg" where "te k \<equiv> Te k []"

text \<open>The status code of \<open>AppError::into_response\<close>.\<close>

fun status_code :: "app_error \<Rightarrow> nat" where
  "status_code (NotFound _) = 404"
| "status_code Unauthorized = 401"
| "status_code (Forbidden _) = 403"
| "status_code (BadRequest _) = 400"
| "status_code (Conflict _) = 409"
| "status_code (ResourceNameConflict _ _) = 409"
| "status_code (DomainsRequireConfirmation _) = 409"
| "status_code (DockerError _) = 500"
| "status_code (DatabaseError _) = 500"
| "status_code (OperationFailed _) = 500"
| "status_code (Internal _) = 500"

type_synonym time = int

section \<open>Interfaces shared by the components\<close>

text \<open>A transition system with an invariant: what holds of a state holds along every run.\<close>

locale invariant_system =
  fixes step :: "'s \<Rightarrow> 's \<Rightarrow> bool"
    and inv :: "'s \<Rightarrow> bool"
  assumes step_inv: "step s t \<Longrightarrow> inv s \<Longrightarrow> inv t"
begin

lemma run_inv: "step\<^sup>*\<^sup>* s t \<Longrightarrow> inv s \<Longrightarrow> inv t"
  by (induction rule: rtranclp_induct) (auto intro: step_inv)

end

text \<open>
  A table that must always hold a row of a given kind (an owner, a project administrator).
  \<open>key\<close> identifies rows, \<open>held\<close> says which rows count.
\<close>

locale quorum_table =
  fixes key :: "'r \<Rightarrow> 'k"
    and held :: "'r \<Rightarrow> bool"
    and wf :: "'r list \<Rightarrow> bool"
  assumes wf_distinct: "wf t \<Longrightarrow> distinct (map key t)"
begin

lemma delete_keeps_one:
  "wf t \<Longrightarrow> 2 \<le> sql_count held t \<Longrightarrow> 0 < sql_count held (sql_delete (\<lambda>r. key r = k) t)"
  using sql_count_delete_key [of key t held k] wf_distinct [of t] by linarith

lemma update_keeps_one:
  "wf t \<Longrightarrow> 2 \<le> sql_count held t \<Longrightarrow> 0 < sql_count held (sql_update (\<lambda>r. key r = k) f t)"
  using sql_count_update_key [of key t held k f] wf_distinct [of t] by linarith

lemma delete_other_keeps:
  "0 < sql_count held t \<Longrightarrow> (\<And>r. r \<in> set t \<Longrightarrow> key r = k \<Longrightarrow> \<not> held r)
   \<Longrightarrow> 0 < sql_count held (sql_delete (\<lambda>r. key r = k) t)"
  by (auto simp: sql_count_pos set_sql_delete)

lemma update_other_keeps:
  "0 < sql_count held t \<Longrightarrow> (\<And>r. r \<in> set t \<Longrightarrow> key r = k \<Longrightarrow> \<not> held r \<or> held (f r))
   \<Longrightarrow> 0 < sql_count held (sql_update (\<lambda>r. key r = k) f t)"
proof -
  assume "0 < sql_count held t" and keep: "\<And>r. r \<in> set t \<Longrightarrow> key r = k \<Longrightarrow> \<not> held r \<or> held (f r)"
  then obtain r where "r \<in> set t" "held r" by (auto simp: sql_count_pos)
  with keep [of r] have "held (if key r = k then f r else r)" by auto
  with \<open>r \<in> set t\<close> show ?thesis
    unfolding sql_count_pos set_sql_update by blast
qed

lemma append_keeps: "0 < sql_count held t \<Longrightarrow> 0 < sql_count held (t @ rows)"
  by (simp add: sql_count_append)

end

text \<open>Search of the first acceptable candidate in a pool tried in order.\<close>

locale first_fit =
  fixes valid :: "'c \<Rightarrow> bool"
    and search :: "'c \<Rightarrow> 'a option"
    and pool :: "'c \<Rightarrow> 'a list"
    and free :: "'c \<Rightarrow> 'a \<Rightarrow> bool"
  assumes search_find: "valid c \<Longrightarrow> search c = find (free c) (pool c)"
begin

lemma found_free: "valid c \<Longrightarrow> search c = Some a \<Longrightarrow> free c a"
  by (auto simp: search_find find_Some_iff)

lemma found_pool: "valid c \<Longrightarrow> search c = Some a \<Longrightarrow> a \<in> set (pool c)"
  by (auto simp: search_find find_Some_iff)

lemma none_iff: "valid c \<Longrightarrow> search c = None \<longleftrightarrow> (\<forall>a \<in> set (pool c). \<not> free c a)"
  by (auto simp: search_find find_None_iff)

lemma found_first:
  assumes "valid c" "search c = Some a" and sorted: "sorted_wrt lt (pool c)"
    and b: "b \<in> set (pool c)" "free c b"
  shows "b = a \<or> lt a b"
proof -
  from assms(1,2) obtain i where i: "i < length (pool c)" "a = pool c ! i"
    "\<And>j. j < i \<Longrightarrow> \<not> free c (pool c ! j)"
    by (auto simp: search_find find_Some_iff)
  from b obtain k where k: "k < length (pool c)" "b = pool c ! k"
    by (auto simp: in_set_conv_nth)
  with b i have "i \<le> k" by (meson not_le_imp_less)
  then show ?thesis
    using i k sorted by (cases "i = k") (auto simp: sorted_wrt_iff_nth_less)
qed

end

text \<open>A finite hierarchy of levels with an injective rank and a printed name.\<close>

locale role_order =
  fixes rank :: "'r \<Rightarrow> nat"
    and at_least :: "'r \<Rightarrow> 'r \<Rightarrow> bool"
    and as_str :: "'r \<Rightarrow> string"
    and parse :: "string \<Rightarrow> 'r option"
  assumes at_least_rank: "at_least a b \<longleftrightarrow> rank b \<le> rank a"
    and rank_inj: "rank a = rank b \<Longrightarrow> a = b"
    and parse_as_str: "parse (as_str a) = Some a"
    and as_str_parse: "parse s = Some a \<Longrightarrow> as_str a = s"
begin

lemma refl: "at_least a a"
  by (simp add: at_least_rank)

lemma trans: "at_least a b \<Longrightarrow> at_least b c \<Longrightarrow> at_least a c"
  by (simp add: at_least_rank)

lemma antisym: "at_least a b \<Longrightarrow> at_least b a \<Longrightarrow> a = b"
  by (simp add: at_least_rank rank_inj)

lemma total: "at_least a b \<or> at_least b a"
  by (auto simp: at_least_rank)

lemma as_str_inj: "as_str a = as_str b \<longleftrightarrow> a = b"
  using parse_as_str by (metis option.inject)

lemma parse_iff: "parse s = Some a \<longleftrightarrow> s = as_str a"
  using as_str_parse parse_as_str by metis

end

end
