(* ===== verification/AuthDb.thy ===== *)
theory AuthDb
  imports Prelude
begin

text \<open>
  The tables of the SQLite database the authentication and membership code works on
  (db/schema.rs): users, sessions, API tokens, invitations, project members, the services and
  projects they refer to, and the peer grants of federation. Columns keep the type they have in
  the schema (a role is stored as text and parsed when it is read); times are seconds.
  The constraints the handlers rely on (primary keys, \<open>UNIQUE\<close>, foreign keys with
  \<open>ON DELETE CASCADE\<close>, which are switched on in db/mod.rs) are \<open>db_ok\<close> and \<open>delete_user\<close>.
\<close>

section \<open>Tables\<close>

record user_row =
  u_id :: string
  u_name :: string
  u_email :: string
  u_password :: string
  u_role :: string
  u_global_role :: string
  u_active :: bool
  u_created :: time
  u_updated :: time
  u_totp_enabled :: "time option"
  u_totp_secret :: "string option"
  u_recovery :: "string option"

record session_row =
  s_id :: string
  s_user :: string
  s_ip :: "string option"
  s_agent :: "string option"
  s_expires :: time
  s_created :: time

record token_row =
  t_id :: string
  t_user :: string
  t_name :: string
  t_hash :: string
  t_prefix :: string
  t_last_used :: "time option"
  t_created :: time
  t_revoked :: "time option"

record invitation_row =
  i_id :: string
  i_email :: string
  i_hash :: string
  i_role :: string
  i_invited_by :: "string option"
  i_expires :: time
  i_accepted :: "time option"
  i_accepted_user :: "string option"

record member_row =
  m_id :: string
  m_project :: string
  m_user :: string
  m_role :: string
  m_added :: time
  m_added_by :: "string option"

record service_row =
  sv_id :: string
  sv_project :: "string option"

record grant_row =
  g_id :: string
  g_name :: string
  g_token :: string
  g_active :: bool
  g_last_used :: "time option"

record auth_db =
  users :: "user_row list"
  sessions :: "session_row list"
  api_tokens :: "token_row list"
  invitations :: "invitation_row list"
  members :: "member_row list"
  services :: "service_row list"
  projects :: "string list"
  peer_grants :: "grant_row list"
  settings :: "string \<rightharpoonup> string"

section \<open>Lookups by key\<close>

definition user_by_id :: "auth_db \<Rightarrow> string \<Rightarrow> user_row option" where
  "user_by_id db uid = sql_first (\<lambda>u. u_id u = uid) (users db)"

definition membership_row :: "auth_db \<Rightarrow> string \<Rightarrow> string \<Rightarrow> member_row option" where
  "membership_row db pid uid = sql_first (\<lambda>m. m_project m = pid \<and> m_user m = uid) (members db)"

section \<open>Constraints\<close>

definition db_ok :: "auth_db \<Rightarrow> bool" where
  "db_ok db \<longleftrightarrow>
     distinct (map u_id (users db)) \<and> distinct (map u_name (users db)) \<and>
     distinct (map u_email (users db)) \<and>
     distinct (map (\<lambda>m. (m_project m, m_user m)) (members db)) \<and>
     distinct (map i_id (invitations db)) \<and> distinct (map i_hash (invitations db)) \<and>
     (\<forall>s \<in> set (sessions db). s_user s \<in> u_id ` set (users db)) \<and>
     (\<forall>t \<in> set (api_tokens db). t_user t \<in> u_id ` set (users db)) \<and>
     (\<forall>m \<in> set (members db). m_user m \<in> u_id ` set (users db) \<and> m_project m \<in> set (projects db))"

text \<open>
  \<open>DELETE FROM users WHERE id = ?\<close> with the actions of the foreign keys: the user's sessions,
  tokens and memberships go with the row, references by \<open>added_by\<close>, \<open>invited_by\<close> and
  \<open>accepted_user_id\<close> become NULL.
\<close>

definition null_ref :: "string \<Rightarrow> string option \<Rightarrow> string option" where
  "null_ref uid r = (if r = Some uid then None else r)"

definition delete_user :: "string \<Rightarrow> auth_db \<Rightarrow> auth_db" where
  "delete_user uid db = db\<lparr>
     users := sql_delete (\<lambda>u. u_id u = uid) (users db),
     sessions := sql_delete (\<lambda>s. s_user s = uid) (sessions db),
     api_tokens := sql_delete (\<lambda>t. t_user t = uid) (api_tokens db),
     members := map (\<lambda>m. m\<lparr>m_added_by := null_ref uid (m_added_by m)\<rparr>)
                    (sql_delete (\<lambda>m. m_user m = uid) (members db)),
     invitations := map (\<lambda>i. i\<lparr>i_invited_by := null_ref uid (i_invited_by i),
                                i_accepted_user := null_ref uid (i_accepted_user i)\<rparr>)
                        (invitations db)\<rparr>"

definition upd_user :: "string \<Rightarrow> (user_row \<Rightarrow> user_row) \<Rightarrow> auth_db \<Rightarrow> auth_db" where
  "upd_user uid f db = db\<lparr>users := sql_update (\<lambda>u. u_id u = uid) f (users db)\<rparr>"

section \<open>Lemmas\<close>

lemma user_by_id_Some: "user_by_id db uid = Some u \<Longrightarrow> u \<in> set (users db) \<and> u_id u = uid"
  by (auto simp: user_by_id_def dest: sql_first_Some)

lemma user_by_id_None: "user_by_id db uid = None \<longleftrightarrow> uid \<notin> u_id ` set (users db)"
  by (auto simp: user_by_id_def sql_first_None)

lemma membership_row_Some:
  "membership_row db pid uid = Some m \<Longrightarrow> m \<in> set (members db) \<and> m_project m = pid \<and> m_user m = uid"
  by (auto simp: membership_row_def dest: sql_first_Some)

lemma membership_row_None:
  "membership_row db pid uid = None \<longleftrightarrow> (\<forall>m \<in> set (members db). \<not> (m_project m = pid \<and> m_user m = uid))"
  by (auto simp: membership_row_def sql_first_None)

lemma distinct_key_unique:
  "distinct (map f xs) \<Longrightarrow> x \<in> set xs \<Longrightarrow> y \<in> set xs \<Longrightarrow> f x = f y \<Longrightarrow> x = y"
  by (auto simp: distinct_map inj_on_def)

lemma user_by_id_in:
  "db_ok db \<Longrightarrow> u \<in> set (users db) \<Longrightarrow> user_by_id db (u_id u) = Some u"
proof -
  assume ok: "db_ok db" and u: "u \<in> set (users db)"
  then have "user_by_id db (u_id u) \<noteq> None" by (auto simp: user_by_id_None)
  then obtain v where v: "user_by_id db (u_id u) = Some v" by auto
  then have "v = u"
    using distinct_key_unique [of u_id "users db" v u] ok u user_by_id_Some [OF v]
    by (auto simp: db_ok_def)
  with v show ?thesis by simp
qed

lemma distinct_map_filter_key: "distinct (map f xs) \<Longrightarrow> distinct (map f (filter P xs))"
  by (simp add: distinct_map_filter)

lemma delete_user_db_ok: "db_ok db \<Longrightarrow> db_ok (delete_user uid db)"
  by (auto simp: db_ok_def delete_user_def sql_delete_def distinct_map_filter comp_def)

lemma upd_user_keys:
  "(\<And>u. g (f u) = g u) \<Longrightarrow> map g (users (upd_user uid f db)) = map g (users db)"
  by (simp add: upd_user_def map_sql_update)

lemma upd_user_ids:
  "(\<And>u. u_id (f u) = u_id u) \<Longrightarrow> u_id ` set (users (upd_user uid f db)) = u_id ` set (users db)"
  using upd_user_keys [of u_id f uid db] by (metis list.set_map)

lemma upd_user_fields [simp]:
  "sessions (upd_user uid f db) = sessions db"
  "api_tokens (upd_user uid f db) = api_tokens db"
  "invitations (upd_user uid f db) = invitations db"
  "members (upd_user uid f db) = members db"
  "services (upd_user uid f db) = services db"
  "projects (upd_user uid f db) = projects db"
  "peer_grants (upd_user uid f db) = peer_grants db"
  "users (upd_user uid f db) = sql_update (\<lambda>u. u_id u = uid) f (users db)"
  by (simp_all add: upd_user_def)

lemma upd_user_db_ok:
  assumes "db_ok db" "\<And>u. u_id (f u) = u_id u" "distinct (map u_name (users (upd_user uid f db)))"
    "distinct (map u_email (users (upd_user uid f db)))"
  shows "db_ok (upd_user uid f db)"
  using assms upd_user_keys [of u_id f uid db] upd_user_ids [of f uid db]
  unfolding db_ok_def by (simp del: upd_user_fields(8))

lemma delete_user_fields [simp]:
  "users (delete_user uid db) = sql_delete (\<lambda>u. u_id u = uid) (users db)"
  "sessions (delete_user uid db) = sql_delete (\<lambda>s. s_user s = uid) (sessions db)"
  "api_tokens (delete_user uid db) = sql_delete (\<lambda>t. t_user t = uid) (api_tokens db)"
  "services (delete_user uid db) = services db"
  "projects (delete_user uid db) = projects db"
  by (simp_all add: delete_user_def)

end
