(* ===== verification/Rbac.thy ===== *)
theory Rbac
  imports AuthDb "HOL-Library.Product_Lexorder"
begin

text \<open>
  Role-based access control (auth/rbac): the two role hierarchies (roles.rs), the membership
  queries (membership.rs), the permission policy \<open>can\<close> (policy.rs) and the guards the routes and
  handlers call (guards.rs). The lemmas show that the hierarchies are linear orders whose names
  round-trip, that the guards and the policy decide alike, and what each guard admits.
\<close>

section \<open>Roles\<close>

datatype global_role = Owner | Admin | User

datatype project_role = ProjectAdmin | Editor | Viewer

fun global_rank :: "global_role \<Rightarrow> nat" where
  "global_rank Owner = 3"
| "global_rank Admin = 2"
| "global_rank User = 1"

definition global_at_least :: "global_role \<Rightarrow> global_role \<Rightarrow> bool" where
  "global_at_least r other = (global_rank r \<ge> global_rank other)"

definition global_parse :: "string \<Rightarrow> global_role option" where
  "global_parse s =
     (if s = ''owner'' then Some Owner else if s = ''admin'' then Some Admin
      else if s = ''user'' then Some User else None)"

fun global_as_str :: "global_role \<Rightarrow> string" where
  "global_as_str Owner = ''owner''"
| "global_as_str Admin = ''admin''"
| "global_as_str User = ''user''"

fun project_rank :: "project_role \<Rightarrow> nat" where
  "project_rank ProjectAdmin = 3"
| "project_rank Editor = 2"
| "project_rank Viewer = 1"

definition project_at_least :: "project_role \<Rightarrow> project_role \<Rightarrow> bool" where
  "project_at_least r other = (project_rank r \<ge> project_rank other)"

definition project_parse :: "string \<Rightarrow> project_role option" where
  "project_parse s =
     (if s = ''admin'' then Some ProjectAdmin else if s = ''editor'' then Some Editor
      else if s = ''viewer'' then Some Viewer else None)"

fun project_as_str :: "project_role \<Rightarrow> string" where
  "project_as_str ProjectAdmin = ''admin''"
| "project_as_str Editor = ''editor''"
| "project_as_str Viewer = ''viewer''"

interpretation gr: role_order global_rank global_at_least global_as_str global_parse
proof
  fix a b :: global_role
  show "global_at_least a b \<longleftrightarrow> global_rank b \<le> global_rank a" by (simp add: global_at_least_def)
  show "global_rank a = global_rank b \<Longrightarrow> a = b" by (cases a; cases b) auto
  show "global_parse (global_as_str a) = Some a" by (cases a) (auto simp: global_parse_def)
next
  fix s a show "global_parse s = Some a \<Longrightarrow> global_as_str a = s"
    by (auto simp: global_parse_def split: if_splits)
qed

interpretation pr: role_order project_rank project_at_least project_as_str project_parse
proof
  fix a b :: project_role
  show "project_at_least a b \<longleftrightarrow> project_rank b \<le> project_rank a" by (simp add: project_at_least_def)
  show "project_rank a = project_rank b \<Longrightarrow> a = b" by (cases a; cases b) auto
  show "project_parse (project_as_str a) = Some a" by (cases a) (auto simp: project_parse_def)
next
  fix s a show "project_parse s = Some a \<Longrightarrow> project_as_str a = s"
    by (auto simp: project_parse_def split: if_splits)
qed

instantiation project_role :: linorder
begin

definition less_eq_project_role :: "project_role \<Rightarrow> project_role \<Rightarrow> bool" where
  "less_eq_project_role a b = project_at_least b a"

definition less_project_role :: "project_role \<Rightarrow> project_role \<Rightarrow> bool" where
  "less_project_role a b = (project_at_least b a \<and> \<not> project_at_least a b)"

instance
proof
  fix x y z :: project_role
  show "(x < y) = (x \<le> y \<and> \<not> y \<le> x)" by (simp add: less_eq_project_role_def less_project_role_def)
  show "x \<le> x" by (simp add: less_eq_project_role_def pr.refl)
  show "x \<le> y \<Longrightarrow> y \<le> z \<Longrightarrow> x \<le> z" using pr.trans by (auto simp: less_eq_project_role_def)
  show "x \<le> y \<Longrightarrow> y \<le> x \<Longrightarrow> x = y" using pr.antisym by (auto simp: less_eq_project_role_def)
  show "x \<le> y \<or> y \<le> x" using pr.total by (auto simp: less_eq_project_role_def)
qed

end

section \<open>Authenticated users\<close>

record auth_user =
  au_id :: string
  au_username :: string
  au_role :: string
  au_global :: global_role
  au_session :: string
  is_peer :: bool

section \<open>Membership queries\<close>

record project_member =
  pm_project :: string
  pm_user :: string
  pm_role :: project_role

definition role_for :: "auth_db \<Rightarrow> string \<Rightarrow> string \<Rightarrow> project_role option" where
  "role_for db uid pid =
     (case membership_row db pid uid of None \<Rightarrow> None | Some m \<Rightarrow> project_parse (m_role m))"

definition list_for_user :: "auth_db \<Rightarrow> string \<Rightarrow> project_member list" where
  "list_for_user db uid =
     List.map_filter (\<lambda>m. map_option (\<lambda>r. \<lparr>pm_project = m_project m, pm_user = uid, pm_role = r\<rparr>)
                                     (project_parse (m_role m)))
       (filter (\<lambda>m. m_user m = uid) (members db))"

text \<open>\<open>ORDER BY CASE project_role \<dots> END, added_at ASC\<close>\<close>

definition role_order_col :: "string \<Rightarrow> nat" where
  "role_order_col s = (if s = ''admin'' then 0 else if s = ''editor'' then 1
                       else if s = ''viewer'' then 2 else 3)"

definition list_for_project :: "auth_db \<Rightarrow> string \<Rightarrow> project_member list" where
  "list_for_project db pid =
     List.map_filter (\<lambda>m. map_option (\<lambda>r. \<lparr>pm_project = pid, pm_user = m_user m, pm_role = r\<rparr>)
                                     (project_parse (m_role m)))
       (sort_key (\<lambda>m. (role_order_col (m_role m), m_added m))
         (filter (\<lambda>m. m_project m = pid) (members db)))"

text \<open>\<open>COUNT(*)\<close> is read as \<open>i64\<close> and cast to \<open>u32\<close>.\<close>

definition admin_row :: "string \<Rightarrow> member_row \<Rightarrow> bool" where
  "admin_row pid m = (m_project m = pid \<and> m_role m = ''admin'')"

definition count_admins :: "auth_db \<Rightarrow> string \<Rightarrow> 32 word" where
  "count_admins db pid = of_nat (sql_count (admin_row pid) (members db))"

definition project_for_resource :: "auth_db \<Rightarrow> string \<Rightarrow> string option" where
  "project_for_resource db rid =
     (case sql_first (\<lambda>s. sv_id s = rid) (services db) of None \<Rightarrow> None | Some s \<Rightarrow> sv_project s)"

section \<open>Policy\<close>

datatype permission =
    ManageUsers
  | ChangeGlobalRoles
  | ManageServers
  | ViewSystem
  | CreateProjects
  | ViewProject string
  | EditProject string
  | AdminProject string
  | ManageFederation

definition role_at_least :: "project_role option \<Rightarrow> project_role \<Rightarrow> bool" where
  "role_at_least r mn = (case r of None \<Rightarrow> False | Some x \<Rightarrow> project_at_least x mn)"

definition can :: "auth_user \<Rightarrow> permission \<Rightarrow> auth_db \<Rightarrow> bool" where
  "can user perm db =
     (if is_peer user then
        (case perm of ViewSystem \<Rightarrow> True | ViewProject _ \<Rightarrow> True | EditProject _ \<Rightarrow> True
         | AdminProject _ \<Rightarrow> True | CreateProjects \<Rightarrow> True | ManageServers \<Rightarrow> True | _ \<Rightarrow> False)
      else
        (case perm of
           ChangeGlobalRoles \<Rightarrow> au_global user = Owner
         | ManageFederation \<Rightarrow> au_global user = Owner
         | ManageUsers \<Rightarrow> global_at_least (au_global user) Admin
         | ManageServers \<Rightarrow> global_at_least (au_global user) Admin
         | ViewSystem \<Rightarrow> global_at_least (au_global user) Admin
         | CreateProjects \<Rightarrow> global_at_least (au_global user) Admin
         | ViewProject pid \<Rightarrow>
             if global_at_least (au_global user) Admin then True
             else role_at_least (role_for db (au_id user) pid) Viewer
         | EditProject pid \<Rightarrow>
             if global_at_least (au_global user) Admin then True
             else role_at_least (role_for db (au_id user) pid) Editor
         | AdminProject pid \<Rightarrow>
             if global_at_least (au_global user) Admin then True
             else role_at_least (role_for db (au_id user) pid) ProjectAdmin))"

section \<open>Guards\<close>

record project_membership =
  pmb_project :: string
  pmb_user :: string
  pmb_role :: project_role
  via_global_admin :: bool

text \<open>The request carries the authenticated user in its extensions, if any; \<open>next\<close> is the
  response of the guarded handler.\<close>

definition require_global_role :: "global_role \<Rightarrow> auth_user option \<Rightarrow> 'r \<Rightarrow> app_error + 'r" where
  "require_global_role mn req next =
     (case req of
        None \<Rightarrow> Inl Unauthorized
      | Some user \<Rightarrow>
          if is_peer user \<and> mn = Owner then
            Inl (Forbidden (te ''errors.rbac.owner_only_peer_token''))
          else if \<not> global_at_least (au_global user) mn then
            Inl (Forbidden (Te ''errors.rbac.requires_global_role'' [(''v'', global_as_str mn)]))
          else Inr next)"

definition require_global_admin :: "auth_user option \<Rightarrow> 'r \<Rightarrow> app_error + 'r" where
  "require_global_admin req next = require_global_role Admin req next"

definition require_global_owner :: "auth_user option \<Rightarrow> 'r \<Rightarrow> app_error + 'r" where
  "require_global_owner req next = require_global_role Owner req next"

definition require_global_user :: "auth_user option \<Rightarrow> 'r \<Rightarrow> app_error + 'r" where
  "require_global_user req next = require_global_role User req next"

definition enforce_project_role ::
  "auth_user \<Rightarrow> string \<Rightarrow> project_role \<Rightarrow> auth_db \<Rightarrow> app_error + project_membership" where
  "enforce_project_role user pid mn db =
     (if is_peer user \<or> global_at_least (au_global user) Admin then
        Inr \<lparr>pmb_project = pid, pmb_user = au_id user, pmb_role = ProjectAdmin, via_global_admin = True\<rparr>
      else
        (case role_for db (au_id user) pid of
           None \<Rightarrow> Inl (Forbidden (Te ''errors.rbac.not_project_member'' [(''v'', pid)]))
         | Some role \<Rightarrow>
             if \<not> project_at_least role mn then
               Inl (Forbidden (Te ''errors.rbac.requires_project_role'' [(''v'', project_as_str mn)]))
             else
               Inr \<lparr>pmb_project = pid, pmb_user = au_id user, pmb_role = role, via_global_admin = False\<rparr>))"

definition enforce_resource_role ::
  "auth_db \<Rightarrow> auth_user \<Rightarrow> string \<Rightarrow> project_role \<Rightarrow> app_error + project_membership" where
  "enforce_resource_role db user rid mn =
     (if is_peer user \<or> global_at_least (au_global user) Admin then
        Inr \<lparr>pmb_project = [], pmb_user = au_id user, pmb_role = ProjectAdmin, via_global_admin = True\<rparr>
      else
        (case project_for_resource db rid of
           None \<Rightarrow> Inl (Forbidden (te ''errors.rbac.resource_not_bound''))
         | Some pid \<Rightarrow> enforce_project_role user pid mn db))"

section \<open>Lemmas\<close>

definition project_permission :: "project_role \<Rightarrow> string \<Rightarrow> permission" where
  "project_permission r pid =
     (case r of Viewer \<Rightarrow> ViewProject pid | Editor \<Rightarrow> EditProject pid | ProjectAdmin \<Rightarrow> AdminProject pid)"

lemma global_at_least_simps [simp]:
  "global_at_least r User" "global_at_least Owner r"
  "global_at_least r Owner \<longleftrightarrow> r = Owner" "global_at_least User r \<longleftrightarrow> r = User"
  by (cases r; simp add: global_at_least_def)+

lemma project_at_least_simps [simp]:
  "project_at_least r Viewer" "project_at_least ProjectAdmin r"
  "project_at_least r ProjectAdmin \<longleftrightarrow> r = ProjectAdmin"
  by (cases r; simp add: project_at_least_def)+

lemma global_admin_cases: "global_at_least r Admin \<longleftrightarrow> r \<noteq> User"
  by (cases r) (simp_all add: global_at_least_def)

lemma role_for_member:
  "role_for db uid pid = Some r \<Longrightarrow>
   \<exists>m \<in> set (members db). m_project m = pid \<and> m_user m = uid \<and> m_role m = project_as_str r"
  using membership_row_Some pr.as_str_parse
  by (fastforce simp: role_for_def split: option.splits)

lemma project_role_exhaust3: "(\<forall>r. P r) \<longleftrightarrow> P ProjectAdmin \<and> P Editor \<and> P Viewer"
  by (metis project_role.exhaust)

text \<open>What the project guard admits, and with which role.\<close>

lemma enforce_project_role_Inr:
  "enforce_project_role user pid mn db = Inr m \<longleftrightarrow>
     (if is_peer user \<or> au_global user \<noteq> User then
        m = \<lparr>pmb_project = pid, pmb_user = au_id user, pmb_role = ProjectAdmin, via_global_admin = True\<rparr>
      else \<exists>r. role_for db (au_id user) pid = Some r \<and> project_at_least r mn \<and>
        m = \<lparr>pmb_project = pid, pmb_user = au_id user, pmb_role = r, via_global_admin = False\<rparr>)"
  by (auto simp: enforce_project_role_def global_admin_cases split: option.splits)

lemma enforce_granted_role:
  "enforce_project_role user pid mn db = Inr m \<Longrightarrow> project_at_least (pmb_role m) mn"
  by (auto simp: enforce_project_role_Inr split: if_splits)

lemma enforce_project_role_Inl:
  "enforce_project_role user pid mn db = Inl e \<Longrightarrow> status_code e = 403"
  by (auto simp: enforce_project_role_def split: option.splits if_splits)

lemma role_order_col_parse:
  "project_parse s = Some r \<Longrightarrow> role_order_col s + project_rank r = 3"
  by (auto simp: project_parse_def role_order_col_def split: if_splits)

lemma sorted_map_filter:
  "sorted_wrt R xs \<Longrightarrow> (\<And>x y a b. R x y \<Longrightarrow> f x = Some a \<Longrightarrow> f y = Some b \<Longrightarrow> Q a b) \<Longrightarrow>
   sorted_wrt Q (List.map_filter f xs)"
  by (induction xs) (force simp: List.map_filter_def)+

lemma set_map_filter: "set (List.map_filter f xs) = {b. \<exists>x \<in> set xs. f x = Some b}"
  by (force simp: List.map_filter_def)

lemma guard_agrees_project:
  "(\<exists>m. enforce_project_role user pid r db = Inr m) \<longleftrightarrow> can user (project_permission r pid) db"
  by (cases r) (auto simp: enforce_project_role_Inr can_def project_permission_def role_at_least_def
      global_admin_cases split: option.splits)

section \<open>Properties\<close>

text \<open>C26: The project guard and the permission policy decide alike: a handler gated at a project
  role admits a caller exactly when the policy grants the permission of that role.\<close>

theorem guard_agrees_with_policy:
  "(\<exists>m. enforce_project_role user pid r db = Inr m) \<longleftrightarrow> can user (project_permission r pid) db"
  by (rule guard_agrees_project)

text \<open>The resource guard admits global administrators and peers for any resource, even one bound
  to no project, and everyone else exactly through the project the resource belongs to.\<close>

theorem resource_guard:
  "(\<exists>m. enforce_resource_role db user rid r = Inr m) \<longleftrightarrow>
     is_peer user \<or> global_at_least (au_global user) Admin \<or>
     (\<exists>pid. project_for_resource db rid = Some pid \<and> can user (project_permission r pid) db)"
  unfolding guard_agrees_project [symmetric]
  by (auto simp: enforce_resource_role_def split: option.splits)

text \<open>Access is monotone in the role: who passes a gate passes every lower one, with the same
  effective role, and that role is at least the one the gate asked for.\<close>

theorem guard_monotone:
  assumes "enforce_project_role user pid hi db = Inr m" "project_at_least hi lo"
  shows "enforce_project_role user pid lo db = Inr m \<and> project_at_least (pmb_role m) hi"
  using assms pr.trans enforce_granted_role [OF assms(1)]
  by (fastforce simp: enforce_project_role_Inr split: if_splits)

text \<open>The member list of a project is sorted by descending role and lists exactly the users the
  membership lookup of the guards knows, with the same roles.\<close>

theorem list_for_project_members:
  assumes "distinct (map (\<lambda>m. (m_project m, m_user m)) (members db))"
  shows "sorted_wrt (\<lambda>a b. project_at_least (pm_role a) (pm_role b)) (list_for_project db pid) \<and>
    (\<lparr>pm_project = pid, pm_user = uid, pm_role = r\<rparr> \<in> set (list_for_project db pid) \<longleftrightarrow>
     role_for db uid pid = Some r)"
proof (rule conjI)
  let ?k = "\<lambda>m. (role_order_col (m_role m), m_added m)"
  let ?f = "\<lambda>m. map_option (\<lambda>r. \<lparr>pm_project = pid, pm_user = m_user m, pm_role = r\<rparr>) (project_parse (m_role m))"
  let ?ms = "filter (\<lambda>m. m_project m = pid) (members db)"
  have "sorted_wrt (\<lambda>a b. ?k a \<le> ?k b) (sort_key ?k ?ms)"
    using sorted_sort_key [of ?k ?ms] by (simp add: sorted_map)
  then show "sorted_wrt (\<lambda>a b. project_at_least (pm_role a) (pm_role b)) (list_for_project db pid)"
    unfolding list_for_project_def
  proof (rule sorted_map_filter)
    fix x y a b assume k: "?k x \<le> ?k y" and a: "?f x = Some a" and b: "?f y = Some b"
    from k have "role_order_col (m_role x) \<le> role_order_col (m_role y)" by auto
    moreover obtain ra rb where "project_parse (m_role x) = Some ra" "pm_role a = ra"
      "project_parse (m_role y) = Some rb" "pm_role b = rb" using a b by auto
    ultimately show "project_at_least (pm_role a) (pm_role b)"
      using role_order_col_parse [of "m_role x" ra] role_order_col_parse [of "m_role y" rb]
      by (simp add: project_at_least_def)
  qed
  have one: "membership_row db pid uid = Some m \<longleftrightarrow> m \<in> set (members db) \<and> m_project m = pid \<and> m_user m = uid" for m
  proof
    assume m: "m \<in> set (members db) \<and> m_project m = pid \<and> m_user m = uid"
    then obtain n where n: "membership_row db pid uid = Some n"
      using membership_row_None [of db pid uid] by (cases "membership_row db pid uid") auto
    then have "n = m"
      using distinct_key_unique [OF assms, of n m] m membership_row_Some [OF n] by auto
    with n show "membership_row db pid uid = Some m" by simp
  qed (rule membership_row_Some)
  show "\<lparr>pm_project = pid, pm_user = uid, pm_role = r\<rparr> \<in> set (list_for_project db pid) \<longleftrightarrow>
     role_for db uid pid = Some r"
  proof (cases "membership_row db pid uid")
    case None
    then have "\<forall>m \<in> set (members db). \<not> (m_project m = pid \<and> m_user m = uid)"
      by (simp add: membership_row_None)
    with None show ?thesis
      by (auto simp: list_for_project_def set_map_filter role_for_def)
  next
    case (Some n)
    then have "m = n" if "m \<in> set (members db)" "m_project m = pid" "m_user m = uid" for m
      using one [of m] that by simp
    then show ?thesis
      using Some membership_row_Some [OF Some]
      by (auto simp: list_for_project_def set_map_filter role_for_def)
  qed
qed

section \<open>Witnesses\<close>

definition sample_member :: "string \<Rightarrow> string \<Rightarrow> string \<Rightarrow> member_row" where
  "sample_member pid uid role = \<lparr>m_id = uid, m_project = pid, m_user = uid, m_role = role,
                                 m_added = 0, m_added_by = None\<rparr>"

definition member_db :: auth_db where
  "member_db = \<lparr>users = [], sessions = [], api_tokens = [], invitations = [],
     members = [sample_member ''p'' ''bob'' ''viewer'', sample_member ''p'' ''eve'' ''editor''],
     services = [], projects = [''p''], peer_grants = [], settings = (\<lambda>_. None)\<rparr>"

definition eve :: auth_user where
  "eve = \<lparr>au_id = ''eve'', au_username = ''eve'', au_role = ''user'', au_global = User,
          au_session = [], is_peer = False\<rparr>"

lemma member_db_eval: "role_for member_db ''eve'' ''p'' = Some Editor"
  by (simp add: role_for_def membership_row_def member_db_def sample_member_def sql_simps project_parse_def)

lemma guard_monotone_witness: "\<exists>m. enforce_project_role eve ''p'' Viewer member_db = Inr m"
proof -
  have "\<exists>m. enforce_project_role eve ''p'' Editor member_db = Inr m"
    using member_db_eval by (auto simp: enforce_project_role_Inr eve_def pr.refl)
  then obtain m where "enforce_project_role eve ''p'' Editor member_db = Inr m" by blast
  from guard_monotone [OF this, of Viewer] show ?thesis by auto
qed

lemma list_for_project_members_witness:
  "\<lparr>pm_project = ''p'', pm_user = ''eve'', pm_role = Editor\<rparr> \<in> set (list_for_project member_db ''p'')"
proof -
  have "distinct (map (\<lambda>m. (m_project m, m_user m)) (members member_db))"
    by (simp add: member_db_def sample_member_def)
  from list_for_project_members [OF this] member_db_eval show ?thesis by blast
qed

end
