(* ===== verification/Tokens.thy ===== *)
theory Tokens
  imports Prelude
begin

text \<open>
  The short-lived secrets of authentication: the one-shot setup token (auth/setup_token.rs),
  the partial tokens between the password and the second factor (auth/partial_token.rs), the
  recovery codes (auth/totp.rs), the session cookie strings (auth/cookie.rs) and the password
  rules (auth/password.rs). SHA-256, serde_json, zxcvbn and bcrypt are parameters; random bytes
  and clock readings are arguments.
\<close>

section \<open>Hexadecimal\<close>

definition hex_digit :: "nat \<Rightarrow> char" where
  "hex_digit n = (if n < 10 then char_of (48 + n) else char_of (87 + n))"

definition hex_byte :: "8 word \<Rightarrow> string" where
  "hex_byte b = [hex_digit (unat b div 16), hex_digit (unat b mod 16)]"

definition hex_encode :: "8 word list \<Rightarrow> string" where
  "hex_encode bs = concat (map hex_byte bs)"

lemma hex_digit_inj: "m < 16 \<Longrightarrow> n < 16 \<Longrightarrow> hex_digit m = hex_digit n \<longleftrightarrow> m = n"
proof -
  assume b: "m < 16" "n < 16"
  have v: "(of_char (hex_digit k) :: nat) = (if k < 10 then 48 + k else 87 + k)" if "k < 16" for k
    using that by (simp add: hex_digit_def)
  show ?thesis
  proof
    assume "hex_digit m = hex_digit n"
    then have "(of_char (hex_digit m) :: nat) = of_char (hex_digit n)" by simp
    then show "m = n" using v [OF b(1)] v [OF b(2)] b by (simp split: if_splits)
  qed simp
qed

lemma hex_byte_inj: "hex_byte a = hex_byte b \<longleftrightarrow> a = b"
proof
  assume h: "hex_byte a = hex_byte b"
  have bnd: "unat a < 256" "unat b < 256" using unsigned_less [of a, where ?'a = nat] unsigned_less [of b, where ?'a = nat] by simp_all
  have "unat a div 16 = unat b div 16" "unat a mod 16 = unat b mod 16"
    using h bnd by (auto simp: hex_byte_def hex_digit_inj)
  then have "unat a = unat b" by (metis div_mult_mod_eq)
  then show "a = b" by (simp add: word_unat_eq_iff)
qed simp

lemma hex_encode_Cons: "hex_encode (b # bs) = hex_byte b @ hex_encode bs"
  by (simp add: hex_encode_def)

lemma hex_encode_Nil [simp]: "hex_encode [] = []"
  by (simp add: hex_encode_def)

lemma length_hex_encode [simp]: "length (hex_encode bs) = 2 * length bs"
  by (induction bs) (simp_all add: hex_encode_Cons hex_byte_def)

lemma hex_encode_inj: "hex_encode a = hex_encode b \<longleftrightarrow> a = b"
proof
  show "hex_encode a = hex_encode b \<Longrightarrow> a = b"
  proof (induction a arbitrary: b)
    case Nil
    then show ?case using length_hex_encode [of b] by (cases b) (simp_all add: hex_encode_Cons hex_byte_def)
  next
    case (Cons x a)
    then obtain y b' where b: "b = y # b'"
      using length_hex_encode [of b] by (cases b) (auto simp: hex_encode_Cons hex_byte_def)
    with Cons.prems have "hex_byte x = hex_byte y \<and> hex_encode a = hex_encode b'"
      by (simp add: hex_encode_Cons hex_byte_def)
    then show ?case using Cons.IH b by (simp add: hex_byte_inj)
  qed
qed simp

section \<open>Setup token\<close>

text \<open>The store: the contents of the token file (absent or a text) and the copy in memory.\<close>

record setup_store =
  token_file :: "string option"
  token_mem :: "string option"

definition setup_load :: "string option \<Rightarrow> bool \<Rightarrow> setup_store" where
  "setup_load file users_exist =
     (if users_exist then \<lparr>token_file = None, token_mem = None\<rparr>
      else
        (let token = (case map_option trim file of
                        None \<Rightarrow> None
                      | Some s \<Rightarrow> if s \<noteq> [] then Some s else None)
         in \<lparr>token_file = file, token_mem = token\<rparr>))"

definition setup_is_required :: "setup_store \<Rightarrow> bool" where
  "setup_is_required st = (token_mem st \<noteq> None)"

definition setup_matches :: "setup_store \<Rightarrow> string \<Rightarrow> bool" where
  "setup_matches st provided =
     (case token_mem st of None \<Rightarrow> False | Some stored \<Rightarrow> stored = provided)"

definition setup_consume :: "setup_store \<Rightarrow> setup_store" where
  "setup_consume st = st\<lparr>token_file := None, token_mem := None\<rparr>"

section \<open>Partial tokens\<close>

definition partial_ttl_secs :: time where
  "partial_ttl_secs = 300"

record partial_entry =
  pe_user :: string
  pe_expires :: time
  pe_ip :: "string option"

type_synonym partial_store = "string \<rightharpoonup> partial_entry"

definition evict_expired :: "time \<Rightarrow> partial_store \<Rightarrow> partial_store" where
  "evict_expired now g =
     (\<lambda>k. case g k of None \<Rightarrow> None | Some e \<Rightarrow> if pe_expires e > now then Some e else None)"

definition partial_issue ::
  "8 word list \<Rightarrow> time \<Rightarrow> string \<Rightarrow> string option \<Rightarrow> partial_store \<Rightarrow> string \<times> partial_store" where
  "partial_issue bytes now user ip g =
     (let token = hex_encode bytes;
          entry = \<lparr>pe_user = user, pe_expires = now + partial_ttl_secs, pe_ip = ip\<rparr>
      in (token, (evict_expired now g)(token \<mapsto> entry)))"

definition partial_consume ::
  "string \<Rightarrow> string option \<Rightarrow> time \<Rightarrow> partial_store \<Rightarrow> string option \<times> partial_store" where
  "partial_consume token ip now g0 =
     (let g = evict_expired now g0
      in case g token of
           None \<Rightarrow> (None, g)
         | Some entry \<Rightarrow>
             (case pe_ip entry of
                Some bound \<Rightarrow>
                  (case ip of
                     Some now_ip \<Rightarrow> if now_ip = bound then Some (pe_user entry) else None
                   | None \<Rightarrow> None)
              | None \<Rightarrow> Some (pe_user entry),
              g(token := None)))"

lemma partial_consume_gone: "snd (partial_consume token ip now g) token = None"
  by (auto simp: partial_consume_def Let_def evict_expired_def split: option.splits)

lemma partial_consume_other:
  "k \<noteq> token \<Longrightarrow> snd (partial_consume token ip now g) k = evict_expired now g k"
  by (auto simp: partial_consume_def Let_def split: option.splits)

lemma partial_consume_Some:
  "fst (partial_consume token ip now g) = Some u \<Longrightarrow>
   \<exists>e. g token = Some e \<and> pe_user e = u \<and> now < pe_expires e \<and> (pe_ip e = None \<or> pe_ip e = ip)"
  by (auto simp: partial_consume_def Let_def evict_expired_def split: option.splits if_splits)

section \<open>Recovery codes\<close>

text \<open>\<open>is_ascii_alphanumeric\<close> and \<open>to_ascii_uppercase\<close>.\<close>

definition is_alnum :: "char \<Rightarrow> bool" where
  "is_alnum c = (is_digit c \<or> is_alpha c)"

definition upper_char :: "char \<Rightarrow> char" where
  "upper_char c = (let n = (of_char c :: nat) in if 97 \<le> n \<and> n \<le> 122 then char_of (n - 32) else c)"

definition recovery_alpha :: string where
  "recovery_alpha = ''ABCDEFGHJKLMNPQRSTUVWXYZ23456789''"

text \<open>One code from its twelve random bytes; the low five bits of a byte pick the character.\<close>

definition recovery_code :: "8 word list \<Rightarrow> string" where
  "recovery_code rs =
     (let cs = map (\<lambda>r. recovery_alpha ! unat (and r 0x1f)) rs
      in take 4 cs @ ''-'' @ take 4 (drop 4 cs) @ ''-'' @ take 4 (drop 8 cs))"

definition generate_recovery_codes :: "8 word list list \<Rightarrow> string list" where
  "generate_recovery_codes rss = map recovery_code rss"

definition normalise_code :: "string \<Rightarrow> string" where
  "normalise_code code = map upper_char (filter is_alnum code)"

definition hash_recovery_code :: "(string \<Rightarrow> string) \<Rightarrow> string \<Rightarrow> string" where
  "hash_recovery_code sha256 code = sha256 (normalise_code code)"

text \<open>\<open>json_parse\<close> and \<open>json_print\<close> are serde_json at a list of strings.\<close>

definition consume_recovery_code ::
  "(string \<Rightarrow> string list option) \<Rightarrow> (string list \<Rightarrow> string) \<Rightarrow> (string \<Rightarrow> string) \<Rightarrow>
   string \<Rightarrow> string \<Rightarrow> string option" where
  "consume_recovery_code json_parse json_print sha256 stored provided =
     (case json_parse stored of
        None \<Rightarrow> None
      | Some hashes \<Rightarrow>
          (let target = hash_recovery_code sha256 provided
           in if \<not> list_ex (\<lambda>h. h = target) hashes then None
              else Some (json_print (filter (\<lambda>h. h \<noteq> target) hashes))))"

lemma recovery_alpha_length [simp]: "length recovery_alpha = 32"
  by (simp add: recovery_alpha_def)

lemma low_bits_bound: "unat (and (r :: 8 word) 0x1f) < 32"
proof -
  have "unat (and r 0x1f) = and (unat r) (mask 5)"
    by (simp add: unsigned_and_eq mask_eq_exp_minus_1)
  also have "\<dots> = take_bit 5 (unat r)" by (simp only: take_bit_eq_mask)
  also have "\<dots> < 32" using take_bit_nat_less_exp [of 5 "unat r"] by simp
  finally show ?thesis .
qed

lemma recovery_alpha_canonical: "list_all (\<lambda>c. is_alnum c \<and> upper_char c = c) recovery_alpha"
  by (simp add: recovery_alpha_def is_alnum_def is_digit_def is_alpha_def upper_char_def)

lemma recovery_pick_canonical:
  "is_alnum (recovery_alpha ! unat (and (r :: 8 word) 0x1f)) \<and>
   upper_char (recovery_alpha ! unat (and r 0x1f)) = recovery_alpha ! unat (and r 0x1f)"
  using recovery_alpha_canonical low_bits_bound [of r] by (simp add: list_all_length)

lemma dash_not_alnum [simp]: "\<not> is_alnum (CHR ''-'')"
  by (simp add: is_alnum_def is_digit_def is_alpha_def)

lemma normalise_append: "normalise_code (a @ b) = normalise_code a @ normalise_code b"
  by (simp add: normalise_code_def)

lemma normalise_canonical:
  "list_all (\<lambda>c. is_alnum c \<and> upper_char c = c) s \<Longrightarrow> normalise_code s = s"
  by (induction s) (simp_all add: normalise_code_def)

text \<open>Dashes, spaces and letter case of an entered code do not matter.\<close>

lemma normalise_recovery_code:
  "length rs = 12 \<Longrightarrow>
   normalise_code (recovery_code rs) = map (\<lambda>r. recovery_alpha ! unat (and r 0x1f)) rs"
proof -
  assume len: "length rs = 12"
  let ?cs = "map (\<lambda>r. recovery_alpha ! unat (and r 0x1f)) rs"
  have can: "list_all (\<lambda>c. is_alnum c \<and> upper_char c = c) ?cs"
    using recovery_pick_canonical by (simp add: list_all_iff)
  have dash: "normalise_code ''-'' = []" by (simp add: normalise_code_def)
  have parts: "normalise_code (take 4 ?cs) = take 4 ?cs"
    "normalise_code (take 4 (drop 4 ?cs)) = take 4 (drop 4 ?cs)"
    "normalise_code (take 4 (drop 8 ?cs)) = take 4 (drop 8 ?cs)"
    using can by (auto intro!: normalise_canonical simp: list_all_iff dest!: in_set_takeD in_set_dropD)
  have "take 4 (drop 8 ?cs) = drop 8 ?cs" using len by simp
  moreover have "take 4 ?cs @ take 4 (drop 4 ?cs) @ drop 8 ?cs = ?cs"
    using append_take_drop_id [of 4 "drop 4 ?cs"] append_take_drop_id [of 4 ?cs] by simp
  ultimately show ?thesis
    unfolding recovery_code_def Let_def normalise_append dash parts by simp
qed

lemma consume_recovery_Some:
  "consume_recovery_code jp jpr sha stored code = Some rest \<Longrightarrow>
   \<exists>hs. jp stored = Some hs \<and> hash_recovery_code sha code \<in> set hs \<and>
        rest = jpr (filter (\<lambda>h. h \<noteq> hash_recovery_code sha code) hs)"
  by (auto simp: consume_recovery_code_def Let_def list_ex_iff split: option.splits if_splits)

section \<open>Cookies\<close>

definition build_session_cookie :: "string \<Rightarrow> string \<Rightarrow> int \<Rightarrow> bool \<Rightarrow> string" where
  "build_session_cookie name value max_age tls_off =
     (let force_secure = starts_with name ''__Host-'';
          secure = (if tls_off \<and> \<not> force_secure then [] else ''Secure; '')
      in name @ ''='' @ value @ ''; Path=/; HttpOnly; '' @ secure @ ''SameSite=Lax; Max-Age='' @
         (if max_age < 0 then ''-'' @ dec (nat (- max_age)) else dec (nat max_age)))"

definition clear_session_cookies :: "string \<Rightarrow> bool \<Rightarrow> string list" where
  "clear_session_cookies name tls_off =
     (let primary = build_session_cookie name [] 0 tls_off
      in if tls_off \<or> starts_with name ''__Host-'' then [primary]
         else [primary, name @ ''=; Path=/; HttpOnly; SameSite=Lax; Max-Age=0''])"

section \<open>Passwords\<close>

text \<open>\<open>str::len\<close> counts UTF-8 bytes: one for ASCII, two for the rest of Latin-1.\<close>

definition utf8_len :: "string \<Rightarrow> nat" where
  "utf8_len s = sum_list (map (\<lambda>c. if (of_char c :: nat) < 128 then 1 else 2) s)"

definition min_password_len :: nat where
  "min_password_len = 12"

definition validate_password_strength ::
  "(string \<Rightarrow> string list \<Rightarrow> nat) \<Rightarrow> string \<Rightarrow> string list \<Rightarrow> msg + unit" where
  "validate_password_strength zxcvbn password user_inputs =
     (if utf8_len password < min_password_len then
        Inl (Lit (''Password must be at least '' @ dec min_password_len @ '' characters''))
      else if zxcvbn password user_inputs < 3 then Inl (Lit ''Password is too weak'')
      else Inr ())"

end
