(* ===== verification/Auth.thy ===== *)
theory Auth
  imports Rbac Tokens
begin

text \<open>
  Request authentication: the middleware \<open>require_auth\<close> with its header parsers and the session
  sweep (auth/middleware.rs), API tokens (auth/api_token.rs), and the first-admin setup, login,
  second factor, logout and session creation (auth/handlers.rs). The third-party functions
  (SHA-256, bcrypt, zxcvbn, TOTP, decryption, base64, URL encoding, JSON) are the fields of
  \<open>auth_env\<close>. The lemmas show which identities a request can obtain and what each operation
  does to the session and token tables.
\<close>

record auth_env =
  sha256 :: "string \<Rightarrow> string"
  bcrypt_verify :: "string \<Rightarrow> string \<Rightarrow> bool option"
  bcrypt_hash :: "string \<Rightarrow> string option"
  zxcvbn :: "string \<Rightarrow> string list \<Rightarrow> nat"
  totp_check :: "string \<Rightarrow> string \<Rightarrow> string \<Rightarrow> bool option"
  decrypt :: "string \<Rightarrow> string option"
  b64_decode :: "string \<Rightarrow> string option"
  url_encode :: "string \<Rightarrow> string"
  json_parse :: "string \<Rightarrow> string list option"
  json_print :: "string list \<Rightarrow> string"

record auth_config =
  session_cookie :: string
  tls_off :: bool
  session_ttl_hours :: nat
  session_abs_max_hours :: nat

section \<open>Headers and paths\<close>

definition is_api_path :: "string \<Rightarrow> bool" where
  "is_api_path p = (starts_with p ''/api/'' \<or> starts_with p ''/registry/'')"

definition parse_bearer :: "string \<Rightarrow> string option" where
  "parse_bearer header =
     (let trimmed = trim header
      in case (case strip_prefix trimmed ''Bearer '' of
                 Some s \<Rightarrow> Some s | None \<Rightarrow> strip_prefix trimmed ''bearer '') of
           None \<Rightarrow> None
         | Some stripped \<Rightarrow> (let value = trim stripped in if value = [] then None else Some value))"

definition parse_basic :: "auth_env \<Rightarrow> string \<Rightarrow> (string \<times> string) option" where
  "parse_basic env header =
     (let trimmed = trim header
      in case (case strip_prefix trimmed ''Basic '' of
                 Some s \<Rightarrow> Some s | None \<Rightarrow> strip_prefix trimmed ''basic '') of
           None \<Rightarrow> None
         | Some stripped \<Rightarrow>
             (case b64_decode env (trim stripped) of
                None \<Rightarrow> None
              | Some decoded \<Rightarrow>
                  (case split_once (CHR '':'') decoded of
                     None \<Rightarrow> None
                   | Some (user, pass) \<Rightarrow> if user = [] then None else Some (user, pass))))"

definition cookie_step :: "string \<Rightarrow> string list \<Rightarrow> string \<Rightarrow> string list" where
  "cookie_step pfx out part =
     (case strip_prefix (trim part) pfx of
        None \<Rightarrow> out
      | Some v \<Rightarrow> if v \<noteq> [] \<and> v \<notin> set out then out @ [v] else out)"

definition session_cookie_values :: "string \<Rightarrow> string \<Rightarrow> string list" where
  "session_cookie_values header name =
     foldl (cookie_step (name @ ''='')) [] (split_on (CHR '';'') header)"

text \<open>The loop over the characters keeps the text written so far and \<open>prev_space\<close>.\<close>

fun ua_loop :: "string \<Rightarrow> bool \<Rightarrow> string \<Rightarrow> string" where
  "ua_loop out prev_space [] = out"
| "ua_loop out prev_space (c # cs) =
     (if is_digit c \<or> c = CHR ''.'' then ua_loop out prev_space cs
      else if is_ws c then
        (if \<not> prev_space \<and> out \<noteq> [] then ua_loop (out @ '' '') True cs
         else ua_loop out prev_space cs)
      else ua_loop (out @ [lower_char c]) False cs)"

definition ua_fingerprint :: "string \<Rightarrow> string" where
  "ua_fingerprint ua = trim_end (ua_loop [] False ua)"

definition login_redirect_for_path :: "auth_env \<Rightarrow> string \<Rightarrow> string" where
  "login_redirect_for_path env p =
     (if \<not> starts_with p ''/'' \<or> starts_with p ''//'' \<or> contains_str p ''://'' \<or> CHR 0x5C \<in> set p
      then ''/login''
      else if p = ''/login'' \<or> starts_with p ''/login?'' then ''/login''
      else ''/login?return_to='' @ url_encode env p)"

section \<open>API tokens\<close>

definition token_prefix :: string where
  "token_prefix = ''pier_npm_''"

record issued_token =
  it_id :: string
  it_plaintext :: string
  it_prefix :: string

definition token_generate :: "8 word list \<Rightarrow> string \<Rightarrow> issued_token" where
  "token_generate bytes uuid =
     (let plaintext = token_prefix @ hex_encode bytes
      in \<lparr>it_id = uuid, it_plaintext = plaintext, it_prefix = take 16 plaintext\<rparr>)"

text \<open>\<open>INSERT INTO api_tokens\<close>: a constraint violation (duplicate id or hash, unknown user) is the
  error.\<close>

definition token_store ::
  "auth_env \<Rightarrow> time \<Rightarrow> issued_token \<Rightarrow> string \<Rightarrow> string \<Rightarrow> auth_db \<Rightarrow> string + auth_db" where
  "token_store env now tok uid name db =
     (let h = sha256 env (it_plaintext tok)
      in if list_ex (\<lambda>t. t_id t = it_id tok \<or> t_hash t = h) (api_tokens db) then
           Inl ''UNIQUE constraint failed''
         else if user_by_id db uid = None then Inl ''FOREIGN KEY constraint failed''
         else Inr (db\<lparr>api_tokens := api_tokens db @
                [\<lparr>t_id = it_id tok, t_user = uid, t_name = name, t_hash = h, t_prefix = it_prefix tok,
                  t_last_used = None, t_created = now, t_revoked = None\<rparr>]\<rparr>))"

definition local_user :: "user_row \<Rightarrow> string \<Rightarrow> auth_user" where
  "local_user u sid =
     \<lparr>au_id = u_id u, au_username = u_name u, au_role = u_role u,
      au_global = (case global_parse (u_global_role u) of None \<Rightarrow> User | Some r \<Rightarrow> r),
      au_session = sid, is_peer = False\<rparr>"

definition active_user :: "auth_db \<Rightarrow> string \<Rightarrow> user_row option" where
  "active_user db uid = sql_first (\<lambda>u. u_id u = uid \<and> u_active u) (users db)"

text \<open>The join of \<open>lookup\<close>: a token by hash, not revoked, whose user is active.\<close>

definition token_lookup :: "auth_env \<Rightarrow> time \<Rightarrow> string \<Rightarrow> auth_db \<Rightarrow> auth_user option \<times> auth_db" where
  "token_lookup env now plaintext db =
     (if \<not> starts_with plaintext token_prefix then (None, db)
      else
        (let h = sha256 env plaintext
         in case sql_first (\<lambda>t. t_hash t = h \<and> t_revoked t = None \<and>
                                active_user db (t_user t) \<noteq> None) (api_tokens db) of
              None \<Rightarrow> (None, db)
            | Some t \<Rightarrow>
                (map_option (\<lambda>u. local_user u []) (active_user db (t_user t)),
                 db\<lparr>api_tokens := sql_update (\<lambda>r. t_id r = t_id t)
                      (\<lambda>r. r\<lparr>t_last_used := Some now\<rparr>) (api_tokens db)\<rparr>)))"

definition token_revoke :: "time \<Rightarrow> string \<Rightarrow> string \<Rightarrow> auth_db \<Rightarrow> (string + unit) \<times> auth_db" where
  "token_revoke now tid uid db =
     (let P = (\<lambda>t. t_id t = tid \<and> t_user t = uid \<and> t_revoked t = None);
          db' = db\<lparr>api_tokens := sql_update P (\<lambda>t. t\<lparr>t_revoked := Some now\<rparr>) (api_tokens db)\<rparr>
      in if sql_count P (api_tokens db) = 0 then
           (if \<not> list_ex (\<lambda>t. t_id t = tid \<and> t_user t = uid) (api_tokens db')
            then (Inl ''token not found'', db') else (Inr (), db'))
         else (Inr (), db'))"

section \<open>The middleware\<close>

record request =
  rq_path :: string
  rq_path_and_query :: string
  rq_peer_token :: "string option"
  rq_authorization :: "string option"
  rq_cookie :: "string option"
  rq_agent :: "string option"

text \<open>What the middleware does with a request: run the handler as a user, with the cookie it
  re-issues if any; refuse it; or redirect it to the login page with cookies to clear.\<close>

datatype auth_outcome =
    Authenticated auth_user "string option"
  | Refused app_error "string list"
  | ToLogin string "string list"

definition hours :: "nat \<Rightarrow> time" where
  "hours n = 3600 * int n"

definition session_live :: "time \<Rightarrow> nat \<Rightarrow> session_row \<Rightarrow> bool" where
  "session_live now abs_max s = (s_expires s > now \<and> s_created s > now - hours abs_max)"

fun find_session ::
  "time \<Rightarrow> nat \<Rightarrow> string \<Rightarrow> auth_db \<Rightarrow> string list \<Rightarrow> auth_user option \<times> auth_db" where
  "find_session now abs_max req_fp db [] = (None, db)"
| "find_session now abs_max req_fp db (sid # rest) =
     (case sql_first (\<lambda>s. s_id s = sid \<and> session_live now abs_max s \<and>
                          active_user db (s_user s) \<noteq> None) (sessions db) of
        None \<Rightarrow> find_session now abs_max req_fp db rest
      | Some s \<Rightarrow>
          (let stored_fp = (case s_agent s of None \<Rightarrow> [] | Some ua \<Rightarrow> ua_fingerprint ua)
           in if req_fp \<noteq> [] \<and> stored_fp \<noteq> [] \<and> stored_fp \<noteq> req_fp then
                (None, db\<lparr>sessions := sql_delete (\<lambda>r. s_id r = sid) (sessions db)\<rparr>)
              else (map_option (\<lambda>u. local_user u sid) (active_user db (s_user s)), db)))"

definition slide_session ::
  "auth_config \<Rightarrow> time \<Rightarrow> nat \<Rightarrow> string \<Rightarrow> auth_db \<Rightarrow> bool \<times> auth_db" where
  "slide_session cfg now abs_max sid db =
     (let ttl = max (session_ttl_hours cfg) 1;
          half_ttl_min = (ttl * 60) div 2;
          P = (\<lambda>s. s_id s = sid \<and> s_expires s < now + 60 * int half_ttl_min \<and>
                   s_created s > now - hours abs_max)
      in (0 < sql_count P (sessions db),
          db\<lparr>sessions := sql_update P (\<lambda>s. s\<lparr>s_expires := now + hours ttl\<rparr>) (sessions db)\<rparr>))"

definition session_auth ::
  "auth_env \<Rightarrow> auth_config \<Rightarrow> time \<Rightarrow> request \<Rightarrow> bool \<Rightarrow> auth_db \<Rightarrow> auth_outcome \<times> auth_db" where
  "session_auth env cfg now req is_api db =
     (let candidates = session_cookie_values (case rq_cookie req of None \<Rightarrow> [] | Some c \<Rightarrow> c)
                         (session_cookie cfg)
      in if candidates = [] then
           (if is_api then Refused Unauthorized []
            else ToLogin (login_redirect_for_path env (rq_path_and_query req)) [], db)
         else
           (let abs_max = max (session_abs_max_hours cfg) 1;
                req_fp = ua_fingerprint (case rq_agent req of None \<Rightarrow> [] | Some a \<Rightarrow> a)
            in case find_session now abs_max req_fp db candidates of
                 (Some user, db1) \<Rightarrow>
                   (let (extended, db2) = slide_session cfg now abs_max (au_session user) db1;
                        ttl = max (session_ttl_hours cfg) 1
                    in (Authenticated user
                          (if extended then Some (build_session_cookie (session_cookie cfg)
                             (au_session user) (int ttl * 3600) (tls_off cfg)) else None), db2))
               | (None, db1) \<Rightarrow>
                   (let db2 = db1\<lparr>sessions := sql_delete
                                (\<lambda>s. s_id s \<in> set candidates \<and>
                                     (s_expires s \<le> now \<or> s_created s \<le> now - hours abs_max))
                                (sessions db1)\<rparr>;
                        clear = clear_session_cookies (session_cookie cfg) (tls_off cfg)
                    in (if is_api then Refused Unauthorized clear
                        else ToLogin (login_redirect_for_path env (rq_path_and_query req)) clear,
                        db2))))"

definition basic_auth :: "auth_env \<Rightarrow> string \<Rightarrow> string \<Rightarrow> auth_db \<Rightarrow> auth_user option" where
  "basic_auth env user pass db =
     (case sql_first (\<lambda>u. (u_name u = user \<or> u_email u = user) \<and> u_active u) (users db) of
        None \<Rightarrow> None
      | Some u \<Rightarrow> (case bcrypt_verify env pass (u_password u) of
                    Some True \<Rightarrow> Some (local_user u []) | _ \<Rightarrow> None))"

definition peer_user :: "grant_row \<Rightarrow> auth_user" where
  "peer_user g = \<lparr>au_id = ''peer:'' @ g_id g, au_username = ''peer:'' @ g_name g,
                  au_role = ''peer_admin'', au_global = Admin, au_session = [], is_peer = True\<rparr>"

definition require_auth ::
  "auth_env \<Rightarrow> auth_config \<Rightarrow> time \<Rightarrow> request \<Rightarrow> auth_db \<Rightarrow> auth_outcome \<times> auth_db" where
  "require_auth env cfg now req db =
     (let is_api = is_api_path (rq_path req)
      in case (if is_api then rq_peer_token req else None) of
           Some token \<Rightarrow>
             (case sql_first (\<lambda>g. g_token g = token \<and> g_active g) (peer_grants db) of
                Some g \<Rightarrow>
                  (Authenticated (peer_user g) None,
                   db\<lparr>peer_grants := sql_update (\<lambda>r. g_id r = g_id g)
                        (\<lambda>r. r\<lparr>g_last_used := Some now\<rparr>) (peer_grants db)\<rparr>)
              | None \<Rightarrow> (Refused Unauthorized [], db))
         | None \<Rightarrow>
             (case Option.bind (rq_authorization req) parse_bearer of
                Some plaintext \<Rightarrow>
                  (case token_lookup env now plaintext db of
                     (Some user, db') \<Rightarrow> (Authenticated user None, db')
                   | (None, db') \<Rightarrow> (Refused Unauthorized [], db'))
              | None \<Rightarrow>
                  (case (if starts_with (rq_path req) ''/registry/''
                         then Option.bind (rq_authorization req) (parse_basic env) else None) of
                     Some (user, pass) \<Rightarrow>
                       (case basic_auth env user pass db of
                          Some u \<Rightarrow> (Authenticated u None, db)
                        | None \<Rightarrow> (Refused Unauthorized [], db))
                   | None \<Rightarrow> session_auth env cfg now req is_api db)))"

definition session_gc_once :: "auth_config \<Rightarrow> time \<Rightarrow> auth_db \<Rightarrow> auth_db" where
  "session_gc_once cfg now db =
     (let enabled = (case settings db ''session.gc_enabled'' of
                       None \<Rightarrow> True | Some v \<Rightarrow> v \<noteq> ''false'' \<and> v \<noteq> ''0'')
      in if \<not> enabled then db
         else (let abs_max = max (session_abs_max_hours cfg) 1
               in db\<lparr>sessions := sql_delete
                    (\<lambda>s. s_expires s \<le> now \<or> s_created s \<le> now - hours abs_max) (sessions db)\<rparr>))"

section \<open>Setup, login and logout\<close>

record auth_state =
  st_db :: auth_db
  st_partial :: partial_store
  st_setup :: setup_store

record setup_request =
  su_username :: string
  su_email :: string
  su_password :: string
  su_token :: "string option"

definition fresh_owner :: "string \<Rightarrow> string \<Rightarrow> string \<Rightarrow> string \<Rightarrow> time \<Rightarrow> user_row" where
  "fresh_owner uid name email hash now =
     \<lparr>u_id = uid, u_name = name, u_email = email, u_password = hash, u_role = ''admin'',
      u_global_role = ''owner'', u_active = True, u_created = now, u_updated = now,
      u_totp_enabled = None, u_totp_secret = None, u_recovery = None\<rparr>"

definition setup_user ::
  "auth_env \<Rightarrow> time \<Rightarrow> string \<Rightarrow> setup_request \<Rightarrow> auth_state \<Rightarrow> (app_error + unit) \<times> auth_state" where
  "setup_user env now uuid body st =
     (if setup_is_required (st_setup st) \<and>
         \<not> setup_matches (st_setup st) (case su_token body of None \<Rightarrow> [] | Some t \<Rightarrow> t) then
        (Inl (NotFound (te ''errors.auth.setup_not_found'')), st)
      else
        (let username = trim (su_username body); email = trim (su_email body)
         in if username = [] then (Inl (BadRequest (te ''errors.auth.username_required'')), st)
            else case validate_password_strength (zxcvbn env) (su_password body) [username, email] of
              Inl m \<Rightarrow> (Inl (BadRequest m), st)
            | Inr _ \<Rightarrow>
                (case bcrypt_hash env (su_password body) of
                   None \<Rightarrow> (Inl (Internal ''bcrypt hash error''), st)
                 | Some hash \<Rightarrow>
                     (if users (st_db st) \<noteq> [] then
                        (Inl (Conflict (te ''errors.auth.setup_already_completed'')), st)
                      else
                        (let s = settings (st_db st);
                             s' = (case s ''proxy.acme_email'' of
                                     None \<Rightarrow> s(''proxy.acme_email'' \<mapsto> email) | Some _ \<Rightarrow> s);
                             db' = (st_db st)\<lparr>users := [fresh_owner uuid username email hash now],
                                           settings := s'\<rparr>
                         in (Inr (), st\<lparr>st_db := db', st_setup := setup_consume (st_setup st)\<rparr>))))))"

text \<open>A session id is 32 random bytes; the insert fails on a duplicate id or an unknown user.\<close>

definition issue_session ::
  "auth_config \<Rightarrow> time \<Rightarrow> 8 word list \<Rightarrow> string \<Rightarrow> string option \<Rightarrow> string option \<Rightarrow> auth_db \<Rightarrow>
   (app_error + string) \<times> auth_db" where
  "issue_session cfg now bytes uid ip ua db =
     (let sid = hex_encode bytes; ttl = session_ttl_hours cfg
      in if list_ex (\<lambda>s. s_id s = sid) (sessions db) then
           (Inl (DatabaseError ''UNIQUE constraint failed''), db)
         else if user_by_id db uid = None then
           (Inl (DatabaseError ''FOREIGN KEY constraint failed''), db)
         else
           (Inr (build_session_cookie (session_cookie cfg) sid (int ttl * 3600) (tls_off cfg)),
            db\<lparr>sessions := sessions db @
                 [\<lparr>s_id = sid, s_user = uid, s_ip = ip, s_agent = ua, s_expires = now + hours ttl,
                   s_created = now\<rparr>]\<rparr>))"

datatype login_reply = LoggedIn string | RequiresTotp string

definition login ::
  "auth_env \<Rightarrow> auth_config \<Rightarrow> time \<Rightarrow> 8 word list \<Rightarrow> string \<Rightarrow> string option \<Rightarrow> string \<Rightarrow> string \<Rightarrow>
   auth_state \<Rightarrow> (app_error + login_reply) \<times> auth_state" where
  "login env cfg now bytes ip ua username password st =
     (case sql_first (\<lambda>u. (u_name u = username \<or> u_email u = username) \<and> u_active u)
             (users (st_db st)) of
        None \<Rightarrow> (Inl (BadRequest (te ''errors.auth.invalid_credentials'')), st)
      | Some u \<Rightarrow>
          (case bcrypt_verify env password (u_password u) of
             None \<Rightarrow> (Inl (Internal ''bcrypt verify error''), st)
           | Some False \<Rightarrow> (Inl (BadRequest (te ''errors.auth.invalid_credentials'')), st)
           | Some True \<Rightarrow>
               (if u_totp_secret u \<noteq> None then
                  (let (tok, p) = partial_issue bytes now (u_id u) (Some ip) (st_partial st)
                   in (Inr (RequiresTotp tok), st\<lparr>st_partial := p\<rparr>))
                else
                  (case issue_session cfg now bytes (u_id u) (Some ip) ua (st_db st) of
                     (Inl e, d) \<Rightarrow> (Inl e, st\<lparr>st_db := d\<rparr>)
                   | (Inr cookie, d) \<Rightarrow> (Inr (LoggedIn cookie), st\<lparr>st_db := d\<rparr>)))))"

text \<open>
  \<open>login_2fa\<close> takes the database lock four times. \<open>login_2fa_read\<close> is the part up to the read of
  the user's secrets, \<open>login_2fa_finish\<close> the part that writes with the values read; other
  requests may run between the two.
\<close>

record totp_row =
  tr_user :: string
  tr_name :: string
  tr_secret :: "string option"
  tr_recovery :: "string option"

definition login_2fa_read ::
  "time \<Rightarrow> string \<Rightarrow> string \<Rightarrow> auth_state \<Rightarrow> (app_error + totp_row) \<times> auth_state" where
  "login_2fa_read now ip partial_token st =
     (let (who, p) = partial_consume partial_token (Some ip) now (st_partial st);
          st = st\<lparr>st_partial := p\<rparr>
      in case who of
           None \<Rightarrow> (Inl Unauthorized, st)
         | Some uid \<Rightarrow>
             (case active_user (st_db st) uid of
                None \<Rightarrow> (Inl (DatabaseError ''Query returned no rows''), st)
              | Some u \<Rightarrow> (Inr \<lparr>tr_user = uid, tr_name = u_name u, tr_secret = u_totp_secret u,
                              tr_recovery = u_recovery u\<rparr>, st)))"

definition login_2fa_finish ::
  "auth_env \<Rightarrow> auth_config \<Rightarrow> time \<Rightarrow> 8 word list \<Rightarrow> string \<Rightarrow> string option \<Rightarrow> string \<Rightarrow> totp_row \<Rightarrow>
   auth_state \<Rightarrow> (app_error + string) \<times> auth_state" where
  "login_2fa_finish env cfg now bytes ip ua code0 row st =
     (case tr_secret row of
        None \<Rightarrow> (Inl Unauthorized, st)
      | Some enc \<Rightarrow>
          (case decrypt env enc of
             None \<Rightarrow> (Inl (Internal ''totp decrypt''), st)
           | Some secret \<Rightarrow>
               (let code = trim code0
                in if totp_check env secret (tr_name row) code = Some True then
                     (case issue_session cfg now bytes (tr_user row) (Some ip) ua (st_db st) of
                        (r, d) \<Rightarrow> (r, st\<lparr>st_db := d\<rparr>))
                   else
                     (case Option.bind (tr_recovery row)
                             (\<lambda>j. consume_recovery_code (json_parse env) (json_print env)
                                    (sha256 env) j code) of
                        None \<Rightarrow> (Inl Unauthorized, st)
                      | Some remaining \<Rightarrow>
                          (let d1 = upd_user (tr_user row) (\<lambda>u. u\<lparr>u_recovery := Some remaining\<rparr>) (st_db st)
                           in case issue_session cfg now bytes (tr_user row) (Some ip) ua d1 of
                                (r, d) \<Rightarrow> (r, st\<lparr>st_db := d\<rparr>))))))"

definition login_2fa ::
  "auth_env \<Rightarrow> auth_config \<Rightarrow> time \<Rightarrow> 8 word list \<Rightarrow> string \<Rightarrow> string option \<Rightarrow> string \<Rightarrow> string \<Rightarrow>
   auth_state \<Rightarrow> (app_error + string) \<times> auth_state" where
  "login_2fa env cfg now bytes ip ua partial_token code st =
     (case login_2fa_read now ip partial_token st of
        (Inl e, st') \<Rightarrow> (Inl e, st')
      | (Inr row, st') \<Rightarrow> login_2fa_finish env cfg now bytes ip ua code row st')"

definition logout ::
  "auth_config \<Rightarrow> auth_user option \<Rightarrow> auth_state \<Rightarrow> string \<times> auth_state" where
  "logout cfg user st =
     (build_session_cookie (session_cookie cfg) [] 0 (tls_off cfg),
      case user of
        None \<Rightarrow> st
      | Some u \<Rightarrow>
          (if au_session u \<noteq> [] then
             st\<lparr>st_db := (st_db st)\<lparr>sessions := sql_delete (\<lambda>s. s_id s = au_session u) (sessions (st_db st))\<rparr>\<rparr>
           else st))"

section \<open>Lemmas\<close>

lemma active_user_Some:
  "active_user db uid = Some u \<Longrightarrow> u \<in> set (users db) \<and> u_id u = uid \<and> u_active u"
  by (auto simp: active_user_def dest: sql_first_Some)

lemma local_user_simps [simp]:
  "au_id (local_user u sid) = u_id u" "au_session (local_user u sid) = sid"
  "\<not> is_peer (local_user u sid)"
  "au_global (local_user u sid) = (case global_parse (u_global_role u) of None \<Rightarrow> User | Some r \<Rightarrow> r)"
  by (simp_all add: local_user_def)

lemma peer_user_simps [simp]:
  "is_peer (peer_user g)" "au_global (peer_user g) = Admin" "au_session (peer_user g) = []"
  "au_id (peer_user g) = ''peer:'' @ g_id g"
  by (simp_all add: peer_user_def)

text \<open>An identity the database still backs: an active local user, or an active grant.\<close>

definition auth_current :: "auth_db \<Rightarrow> auth_user \<Rightarrow> bool" where
  "auth_current db a =
     (if is_peer a then list_ex (\<lambda>g. g_active g \<and> a = peer_user g) (peer_grants db)
      else list_ex (\<lambda>u. u_active u \<and> a = local_user u (au_session a)) (users db))"

lemma auth_current_local:
  "auth_current db a \<Longrightarrow> \<not> is_peer a \<Longrightarrow>
   \<exists>u \<in> set (users db). u_active u \<and> a = local_user u (au_session a)"
  by (auto simp: auth_current_def list_ex_iff)

lemma active_user_local:
  "active_user db uid = Some u \<Longrightarrow> auth_current db (local_user u sid)"
  by (force simp: auth_current_def list_ex_iff dest: active_user_Some)

lemma token_lookup_Some:
  "token_lookup env now p db = (Some a, db') \<Longrightarrow>
   \<exists>t u. t \<in> set (api_tokens db) \<and> t_hash t = sha256 env p \<and> t_revoked t = None \<and>
         active_user db (t_user t) = Some u \<and> a = local_user u []"
  by (auto simp: token_lookup_def Let_def split: if_splits option.splits dest!: sql_first_Some)

lemma token_lookup_tables:
  "users (snd (token_lookup env now p db)) = users db"
  "sessions (snd (token_lookup env now p db)) = sessions db"
  "peer_grants (snd (token_lookup env now p db)) = peer_grants db"
  by (auto simp: token_lookup_def Let_def split: option.splits)

lemma find_session_Some:
  "find_session now m fp db sids = (Some a, db') \<Longrightarrow>
   db' = db \<and> au_session a \<in> set sids \<and>
   (\<exists>s u. s \<in> set (sessions db) \<and> s_id s = au_session a \<and> session_live now m s \<and>
          active_user db (s_user s) = Some u \<and> a = local_user u (au_session a))"
proof (induction sids)
  case (Cons sid rest)
  show ?case
  proof (cases "sql_first (\<lambda>s. s_id s = sid \<and> session_live now m s \<and>
                               active_user db (s_user s) \<noteq> None) (sessions db)")
    case None
    with Cons show ?thesis by auto
  next
    case (Some s)
    from sql_first_Some [OF this] obtain u where
      s: "s \<in> set (sessions db)" "s_id s = sid" "session_live now m s" "active_user db (s_user s) = Some u"
      by auto
    then show ?thesis using Cons.prems Some by (auto simp: Let_def split: if_splits)
  qed
qed simp

lemma find_session_tables:
  "users (snd (find_session now m fp db sids)) = users db"
  "peer_grants (snd (find_session now m fp db sids)) = peer_grants db"
  "api_tokens (snd (find_session now m fp db sids)) = api_tokens db"
  "set (sessions (snd (find_session now m fp db sids))) \<subseteq> set (sessions db)"
  by (induction sids) (auto simp: Let_def set_sql_delete split: option.splits)

lemma slide_session_tables:
  "users (snd (slide_session cfg now m sid db)) = users db"
  "peer_grants (snd (slide_session cfg now m sid db)) = peer_grants db"
  "api_tokens (snd (slide_session cfg now m sid db)) = api_tokens db"
  by (auto simp: slide_session_def Let_def)

lemma session_auth_Authenticated:
  assumes "session_auth env cfg now req api db = (Authenticated a c, db')"
  shows "\<exists>s u. s \<in> set (sessions db) \<and> s_id s = au_session a \<and>
           session_live now (max (session_abs_max_hours cfg) 1) s \<and>
           active_user db (s_user s) = Some u \<and> a = local_user u (au_session a)"
    and "users db' = users db"
proof -
  let ?cands = "session_cookie_values (case rq_cookie req of None \<Rightarrow> [] | Some c \<Rightarrow> c) (session_cookie cfg)"
  let ?m = "max (session_abs_max_hours cfg) 1"
  let ?fp = "ua_fingerprint (case rq_agent req of None \<Rightarrow> [] | Some a \<Rightarrow> a)"
  obtain r d where f: "find_session now ?m ?fp db ?cands = (r, d)" by fastforce
  have ne: "?cands \<noteq> []" using assms by (auto simp: session_auth_def Let_def split: if_splits)
  obtain x where r: "r = Some x"
    using assms f ne by (auto simp: session_auth_def Let_def split: if_splits option.splits)
  have a: "a = x" and d': "db' = snd (slide_session cfg now ?m (au_session x) d)"
    using assms f ne r by (auto simp: session_auth_def Let_def split: prod.splits)
  show "\<exists>s u. s \<in> set (sessions db) \<and> s_id s = au_session a \<and> session_live now ?m s \<and>
           active_user db (s_user s) = Some u \<and> a = local_user u (au_session a)"
    using find_session_Some [OF f [unfolded r]] a by auto
  show "users db' = users db"
    using d' find_session_Some [OF f [unfolded r]] by (simp add: slide_session_tables)
qed

lemma basic_auth_Some:
  "basic_auth env user pass db = Some a \<Longrightarrow>
   \<exists>u \<in> set (users db). u_active u \<and> a = local_user u []"
  by (auto simp: basic_auth_def split: option.splits bool.splits dest!: sql_first_Some)

lemma basic_auth_current: "basic_auth env user pass db = Some a \<Longrightarrow> auth_current db a \<and> au_session a = []"
  using basic_auth_Some by (force simp: auth_current_def list_ex_iff)

text \<open>How a request was authenticated: by exactly one of four means.\<close>

lemma require_auth_cases:
  assumes "require_auth env cfg now req db = (Authenticated a c, db')"
  obtains (peer) tok g where "is_api_path (rq_path req)" "rq_peer_token req = Some tok"
      "g \<in> set (peer_grants db)" "g_token g = tok" "g_active g" "a = peer_user g"
      "db' = db\<lparr>peer_grants := sql_update (\<lambda>r. g_id r = g_id g)
                 (\<lambda>r. r\<lparr>g_last_used := Some now\<rparr>) (peer_grants db)\<rparr>"
  | (token) p where "token_lookup env now p db = (Some a, db')"
  | (basic) user pass where "basic_auth env user pass db = Some a" "db' = db"
  | (session) "session_auth env cfg now req (is_api_path (rq_path req)) db = (Authenticated a c, db')"
proof -
  let ?peer = "if is_api_path (rq_path req) then rq_peer_token req else None"
  let ?bearer = "Option.bind (rq_authorization req) parse_bearer"
  let ?basic = "if starts_with (rq_path req) ''/registry/''
                then Option.bind (rq_authorization req) (parse_basic env) else None"
  show ?thesis
  proof (cases ?peer)
    case (Some tok)
    then have "is_api_path (rq_path req)" "rq_peer_token req = Some tok" by (auto split: if_splits)
    moreover obtain g where "sql_first (\<lambda>g. g_token g = tok \<and> g_active g) (peer_grants db) = Some g"
      using assms Some by (auto simp: require_auth_def Let_def split: option.splits)
    ultimately show ?thesis
      using peer [of tok g] assms by (auto simp: require_auth_def Let_def dest: sql_first_Some)
  next
    case None
    show ?thesis
    proof (cases ?bearer)
      case (Some p)
      with None assms show ?thesis
        using token [of p] by (auto simp: require_auth_def Let_def split: option.splits prod.splits)
    next
      case bearer: None
      show ?thesis
      proof (cases ?basic)
        case (Some up)
        with None bearer assms show ?thesis
          using basic [of "fst up" "snd up"]
          by (auto simp: require_auth_def Let_def split: option.splits prod.splits)
      next
        case basic: None
        with None bearer assms show ?thesis
          using session by (simp add: require_auth_def Let_def)
      qed
    qed
  qed
qed

lemma auth_current_cong:
  "users db' = users db \<Longrightarrow> peer_grants db' = peer_grants db \<Longrightarrow> auth_current db' a = auth_current db a"
  by (simp add: auth_current_def)

lemma consume_then_none:
  "consume_recovery_code jp jpr sha stored code = Some rest \<Longrightarrow> (\<And>xs. jp (jpr xs) = Some xs) \<Longrightarrow>
   consume_recovery_code jp jpr sha rest code = None"
  by (drule consume_recovery_Some) (auto simp: consume_recovery_code_def Let_def list_ex_iff)

lemma login_2fa_read_partial:
  "st_partial (snd (login_2fa_read now ip tok st)) tok = None"
  using partial_consume_gone [of tok "Some ip" now "st_partial st"]
  by (auto simp: login_2fa_read_def Let_def split: prod.splits option.splits)

lemma login_2fa_finish_partial:
  "st_partial (snd (login_2fa_finish env cfg now bytes ip ua code row st)) = st_partial st"
  by (auto simp: login_2fa_finish_def Let_def split: prod.splits option.splits)

lemma login_2fa_partial_gone:
  "st_partial (snd (login_2fa env cfg now bytes ip ua tok code st)) tok = None"
  using login_2fa_read_partial [of now ip tok st]
  by (auto simp: login_2fa_def login_2fa_finish_partial [unfolded surjective_pairing]
      split: prod.splits sum.splits)

lemma login_2fa_no_token:
  "st_partial st tok = None \<Longrightarrow> fst (login_2fa env cfg now bytes ip ua tok code st) = Inl Unauthorized"
  by (simp add: login_2fa_def login_2fa_read_def Let_def partial_consume_def evict_expired_def)

lemma sessions_slide:
  "s' \<in> set (sessions (snd (slide_session cfg now m sid db))) \<Longrightarrow>
   \<exists>s \<in> set (sessions db). s_id s' = s_id s \<and> s_user s' = s_user s \<and> s_created s' = s_created s \<and>
      (s' = s \<or> (s_id s = sid \<and> s_created s > now - hours m \<and>
                 s_expires s' = now + hours (max (session_ttl_hours cfg) 1)))"
  by (fastforce simp: slide_session_def Let_def set_sql_update)

section \<open>Properties\<close>

text \<open>C2: Authentication only ever yields identities the database backs at that moment: a local
  user is the current row of an active account (so a deactivated account cannot authenticate by
  session, API token or password), a peer holds an active grant and comes through an API path;
  no account is changed on the way.\<close>

theorem require_auth_identity:
  assumes "require_auth env cfg now req db = (Authenticated a c, db')"
  shows "auth_current db a \<and> users db' = users db \<and> (is_peer a \<longrightarrow> is_api_path (rq_path req))"
  using assms
proof (cases rule: require_auth_cases)
  case peer
  then show ?thesis by (auto simp: auth_current_def list_ex_iff)
next
  case (token p)
  then show ?thesis
    using token_lookup_Some [OF token] token_lookup_tables(1) [of env now p db]
    by (auto simp: active_user_local)
next
  case (basic user pass)
  then show ?thesis using basic_auth_Some [of env user pass db a] basic_auth_current by auto
next
  case session
  from session_auth_Authenticated [OF this] show ?thesis
    by (metis active_user_local local_user_simps(3))
qed

text \<open>A request authenticated by a session cookie has a session row of its own user that is
  unexpired and younger than the absolute lifetime, however often it was slid forward.\<close>

theorem session_absolute_lifetime:
  assumes "require_auth env cfg now req db = (Authenticated a c, db')" and "au_session a \<noteq> []"
  shows "\<exists>s \<in> set (sessions db). s_id s = au_session a \<and> s_user s = au_id a \<and> now < s_expires s \<and>
           now < s_created s + hours (max (session_abs_max_hours cfg) 1)"
  using assms(1)
proof (cases rule: require_auth_cases)
  case token
  from token_lookup_Some [OF token] assms(2) show ?thesis by auto
next
  case basic
  then show ?thesis using basic_auth_current assms(2) by blast
next
  case session
  from session_auth_Authenticated(1) [OF this] obtain s u where
    s: "s \<in> set (sessions db)" "s_id s = au_session a"
       "session_live now (max (session_abs_max_hours cfg) 1) s"
       "active_user db (s_user s) = Some u" "a = local_user u (au_session a)"
    by blast
  then have "au_id a = s_user s" by (metis active_user_Some local_user_simps(1))
  with s show ?thesis by (auto simp: session_live_def algebra_simps)
qed (use assms(2) in auto)

text \<open>The middleware never creates a session: every session row afterwards is one from before
  with the same id, user and creation time, and its expiry is the old one or, for a row within
  its absolute lifetime, now plus the idle lifetime.\<close>

theorem require_auth_sessions:
  assumes "s' \<in> set (sessions (snd (require_auth env cfg now req db)))"
  shows "\<exists>s \<in> set (sessions db). s_id s' = s_id s \<and> s_user s' = s_user s \<and> s_created s' = s_created s \<and>
           (s_expires s' = s_expires s \<or>
            (s_created s > now - hours (max (session_abs_max_hours cfg) 1) \<and>
             s_expires s' = now + hours (max (session_ttl_hours cfg) 1)))"
proof (cases "sessions (snd (require_auth env cfg now req db)) = sessions db")
  case True
  with assms show ?thesis by auto
next
  case False
  let ?api = "is_api_path (rq_path req)"
  let ?cands = "session_cookie_values (case rq_cookie req of None \<Rightarrow> [] | Some c \<Rightarrow> c) (session_cookie cfg)"
  let ?m = "max (session_abs_max_hours cfg) 1"
  let ?fp = "ua_fingerprint (case rq_agent req of None \<Rightarrow> [] | Some a \<Rightarrow> a)"
  have eq: "require_auth env cfg now req db = session_auth env cfg now req ?api db"
    using False
    by (auto simp: require_auth_def Let_def split: option.splits prod.splits if_splits)
       (metis snd_conv token_lookup_tables(2))+
  obtain r d where f: "find_session now ?m ?fp db ?cands = (r, d)" by fastforce
  have d: "set (sessions d) \<subseteq> set (sessions db)"
    using find_session_tables(4) [of now ?m ?fp db ?cands] f by simp
  show ?thesis
  proof (cases r)
    case None
    then have "set (sessions (snd (session_auth env cfg now req ?api db))) \<subseteq> set (sessions db)"
      using f d by (auto simp: session_auth_def Let_def set_sql_delete)
    then show ?thesis using assms eq by auto
  next
    case (Some a)
    then have "s' \<in> set (sessions (snd (slide_session cfg now ?m (au_session a) d))) \<or> s' \<in> set (sessions db)"
      using f assms eq by (auto simp: session_auth_def Let_def split: prod.splits if_splits)
    then show ?thesis using sessions_slide [of s' cfg now ?m "au_session a" d] d by blast
  qed
qed

text \<open>First-admin setup succeeds only on an empty user table, leaves exactly one user, an
  active owner, consumes the bootstrap token, and can never succeed or change anything again.\<close>

theorem setup_once:
  assumes "setup_user env now uuid body st = (Inr (), st')"
  shows "users (st_db st) = [] \<and>
    (\<exists>u. users (st_db st') = [u] \<and> u_global_role u = ''owner'' \<and> u_active u) \<and>
    \<not> setup_is_required (st_setup st') \<and> token_file (st_setup st') = None \<and>
    snd (setup_user env2 now2 uuid2 body2 st') = st' \<and> fst (setup_user env2 now2 uuid2 body2 st') \<noteq> Inr ()"
proof -
  have u: "users (st_db st) = []" and
    st': "\<exists>u. users (st_db st') = [u] \<and> u_global_role u = ''owner'' \<and> u_active u"
         "st_setup st' = setup_consume (st_setup st)"
    using assms
    by (auto simp: setup_user_def Let_def fresh_owner_def split: if_splits sum.splits option.splits)
  then have ne: "users (st_db st') \<noteq> []" by auto
  have "snd (setup_user env2 now2 uuid2 body2 st') = st' \<and> fst (setup_user env2 now2 uuid2 body2 st') \<noteq> Inr ()"
    using ne by (auto simp: setup_user_def Let_def split: sum.splits option.splits)
  with u st' show ?thesis by (auto simp: setup_is_required_def setup_consume_def)
qed

text \<open>A partial token opens the second factor at most once: whatever the first attempt
  answered, the same token is refused from then on.\<close>

theorem partial_token_one_shot:
  "fst (login_2fa env2 cfg2 now2 bytes2 ip2 ua2 tok code2
          (snd (login_2fa env cfg now bytes ip ua tok code st))) = Inl Unauthorized"
  by (rule login_2fa_no_token) (rule login_2fa_partial_gone)

section \<open>Sample values\<close>

definition sample_env :: auth_env where
  "sample_env = \<lparr>sha256 = (\<lambda>s. s), bcrypt_verify = (\<lambda>p h. Some (p = h)), bcrypt_hash = Some,
     zxcvbn = (\<lambda>_ _. 4), totp_check = (\<lambda>_ _ c. Some (c = ''123456'')), decrypt = Some,
     b64_decode = Some, url_encode = (\<lambda>s. s), json_parse = (\<lambda>s. Some (split_on (CHR '','') s)),
     json_print = (\<lambda>xs. concat (map (\<lambda>x. x @ '','') xs))\<rparr>"

definition sample_cfg :: auth_config where
  "sample_cfg = \<lparr>session_cookie = ''sid'', tls_off = False, session_ttl_hours = 24,
                 session_abs_max_hours = 72\<rparr>"

definition sample_user :: "string \<Rightarrow> string \<Rightarrow> user_row" where
  "sample_user uid role = \<lparr>u_id = uid, u_name = uid, u_email = uid @ ''@x'', u_password = ''pw'',
     u_role = role, u_global_role = role, u_active = True, u_created = 0, u_updated = 0,
     u_totp_enabled = None, u_totp_secret = None, u_recovery = None\<rparr>"

definition sample_db :: auth_db where
  "sample_db = \<lparr>users = [sample_user ''ann'' ''owner'', sample_user ''bob'' ''user''],
     sessions = [\<lparr>s_id = ''s1'', s_user = ''bob'', s_ip = None, s_agent = Some ''Firefox/120.0'',
                  s_expires = 4000, s_created = 100\<rparr>],
     api_tokens = [], invitations = [], members = [], services = [], projects = [''p1''],
     peer_grants = [\<lparr>g_id = ''g1'', g_name = ''core2'', g_token = ''tok'', g_active = True,
                     g_last_used = None\<rparr>],
     settings = (\<lambda>_. None)\<rparr>"

definition sample_request :: request where
  "sample_request = \<lparr>rq_path = ''/api/v1/me'', rq_path_and_query = ''/api/v1/me'',
     rq_peer_token = None, rq_authorization = None, rq_cookie = Some ''a=b; sid=s1'',
     rq_agent = Some ''Firefox/121.0''\<rparr>"

lemma sample_fp:
  "ua_fingerprint ''Firefox/121.0'' = ''firefox/''" "ua_fingerprint ''Firefox/120.0'' = ''firefox/''"
  by code_simp+

lemma sample_cookies: "session_cookie_values ''a=b; sid=s1'' ''sid'' = [''s1'']"
  by code_simp

lemma sample_paths: "is_api_path ''/api/v1/me''" "\<not> starts_with ''/api/v1/me'' ''/registry/''"
  by code_simp+

lemmas sample_simps = sample_fp sample_cookies sample_paths sample_db_def sample_user_def
  sample_cfg_def sample_request_def

lemma sample_find:
  "find_session 1000 72 ''firefox/'' sample_db [''s1''] =
     (Some (local_user (sample_user ''bob'' ''user'') ''s1''), sample_db)"
  by (simp add: sample_simps sql_first_def session_live_def hours_def active_user_def)

lemma sample_authenticated:
  "\<exists>c d. require_auth sample_env sample_cfg 1000 sample_request sample_db =
     (Authenticated (local_user (sample_user ''bob'' ''user'') ''s1'') c, d) \<and>
     map s_expires (sessions d) = [87400]"
  using sample_find
  by (simp add: require_auth_def session_auth_def slide_session_def hours_def sql_count_def
      sql_update_def sample_simps)

text \<open>The sample request authenticates.\<close>

lemma require_auth_identity_witness:
  "\<exists>c d. require_auth sample_env sample_cfg 1000 sample_request sample_db =
     (Authenticated (local_user (sample_user ''bob'' ''user'') ''s1'') c, d) \<and>
     auth_current sample_db (local_user (sample_user ''bob'' ''user'') ''s1'')"
  using sample_authenticated require_auth_identity by blast

lemma session_absolute_lifetime_witness:
  "\<exists>s \<in> set (sessions sample_db). s_id s = ''s1'' \<and> s_user s = ''bob'' \<and> (1000 :: int) < s_created s + hours 72"
proof -
  obtain c d where r: "require_auth sample_env sample_cfg 1000 sample_request sample_db =
     (Authenticated (local_user (sample_user ''bob'' ''user'') ''s1'') c, d)"
    using sample_authenticated by blast
  have "au_session (local_user (sample_user ''bob'' ''user'') ''s1'') \<noteq> []" by simp
  from session_absolute_lifetime [OF r this] show ?thesis
    by (auto simp: sample_cfg_def sample_user_def)
qed

lemma require_auth_sessions_witness:
  "\<exists>s' :: session_row. s_expires s' = 87400 \<and> (\<exists>s \<in> set (sessions sample_db). s_id s' = s_id s \<and> s_user s' = s_user s)"
proof -
  obtain c d where r: "require_auth sample_env sample_cfg 1000 sample_request sample_db =
     (Authenticated (local_user (sample_user ''bob'' ''user'') ''s1'') c, d)"
    and e: "map s_expires (sessions d) = [87400]"
    using sample_authenticated by (elim exE conjE)
  from e obtain s' where "s' \<in> set (sessions d)" "s_expires s' = 87400" by auto
  moreover from this have "\<exists>s \<in> set (sessions sample_db). s_id s' = s_id s \<and> s_user s' = s_user s"
    using require_auth_sessions [of s' sample_env sample_cfg 1000 sample_request sample_db] r by auto
  ultimately show ?thesis by blast
qed

definition sample_setup :: setup_request where
  "sample_setup = \<lparr>su_username = ''ann'', su_email = ''ann@x'', su_password = ''correct horse battery'',
                   su_token = Some ''boot''\<rparr>"

definition sample_state :: auth_state where
  "sample_state = \<lparr>st_db = sample_db\<lparr>users := [], sessions := []\<rparr>, st_partial = (\<lambda>_. None),
                   st_setup = setup_load (Some ''boot'') False\<rparr>"

lemma sample_setup_values:
  "trim ''ann'' = ''ann''" "trim ''ann@x'' = ''ann@x''" "trim ''boot'' = ''boot''"
  "\<not> utf8_len ''correct horse battery'' < 12"
  by code_simp+

lemma setup_once_witness:
  "\<exists>st. setup_user sample_env 5 ''id1'' sample_setup sample_state = (Inr (), st) \<and>
        snd (setup_user sample_env 6 ''id2'' sample_setup st) = st"
proof -
  have "\<exists>st. setup_user sample_env 5 ''id1'' sample_setup sample_state = (Inr (), st)"
    by (simp add: setup_user_def Let_def sample_setup_def sample_state_def setup_load_def setup_matches_def
        sample_setup_values validate_password_strength_def min_password_len_def sample_env_def)
  then show ?thesis using setup_once by blast
qed

end
