(* ===== verification/Users.thy ===== *)
theory Users
  imports Auth
begin

text \<open>
  User management (api/users.rs) and invitation acceptance (api/invitations.rs), with the guards
  the router puts before them (api/mod.rs). Every handler is a function from the request and the
  database to its answer and the new database. The step relation \<open>user_step\<close> runs one request
  after another; its invariant is that an active owner remains. Random bytes, UUIDs and the clock
  are arguments.
\<close>

section \<open>Invitations\<close>

record invite_request =
  iv_email :: string
  iv_global_role :: "string option"
  iv_ttl_hours :: "int option"

record invite_reply =
  ir_id :: string
  ir_email :: string
  ir_role :: string
  ir_token :: string
  ir_url :: string
  ir_ttl :: int

definition clamp :: "int \<Rightarrow> int \<Rightarrow> int \<Rightarrow> int" where
  "clamp lo hi x = (if x < lo then lo else if x > hi then hi else x)"

definition pending :: "time \<Rightarrow> invitation_row \<Rightarrow> bool" where
  "pending now i = (i_accepted i = None \<and> i_expires i > now)"

definition invite_role :: "string option \<Rightarrow> app_error + string" where
  "invite_role r =
     (case r of
        None \<Rightarrow> Inr ''user''
      | Some other \<Rightarrow>
          if other = ''user'' then Inr ''user''
          else if other = ''admin'' then Inr ''admin''
          else if other = ''owner'' then
            Inl (BadRequest (te ''errors.users.owner_role_not_via_invitation''))
          else Inl (BadRequest (Te ''errors.users.unknown_role'' [(''name'', other)])))"

definition invitation_row ::
  "string \<Rightarrow> string \<Rightarrow> string \<Rightarrow> string \<Rightarrow> string \<Rightarrow> time \<Rightarrow> invitation_row" where
  "invitation_row uuid email h role actor expires =
     \<lparr>i_id = uuid, i_email = email, i_hash = h, i_role = role, i_invited_by = Some actor,
      i_expires = expires, i_accepted = None, i_accepted_user = None\<rparr>"

definition invite ::
  "auth_env \<Rightarrow> time \<Rightarrow> 8 word list \<Rightarrow> string \<Rightarrow> auth_user \<Rightarrow> invite_request \<Rightarrow> auth_db \<Rightarrow>
   (app_error + invite_reply) \<times> auth_db" where
  "invite env now bytes uuid actor body db =
     (let email = lower (trim (iv_email body))
      in if email = [] \<or> CHR ''@'' \<notin> set email then
           (Inl (BadRequest (te ''errors.users.valid_email_required'')), db)
         else
           (case invite_role (iv_global_role body) of
              Inl e \<Rightarrow> (Inl e, db)
            | Inr role \<Rightarrow>
                if role = ''admin'' \<and> au_global actor \<noteq> Owner then
                  (Inl (Forbidden (te ''errors.users.only_owner_can_invite_admins'')), db)
                else
                  (let ttl = clamp 1 168 (case iv_ttl_hours body of None \<Rightarrow> 48 | Some h \<Rightarrow> h);
                       plaintext = ''pier_invite_'' @ hex_encode bytes;
                       h = sha256 env plaintext
                   in if list_ex (\<lambda>i. i_email i = email \<and> pending now i) (invitations db) then
                        (Inl (Conflict (te ''errors.users.active_invitation_exists'')), db)
                      else if list_ex (\<lambda>i. i_id i = uuid \<or> i_hash i = h) (invitations db) then
                        (Inl (DatabaseError ''UNIQUE constraint failed''), db)
                      else if user_by_id db (au_id actor) = None then
                        (Inl (DatabaseError ''FOREIGN KEY constraint failed''), db)
                      else
                        (Inr \<lparr>ir_id = uuid, ir_email = email, ir_role = role, ir_token = plaintext,
                              ir_url = ''/invitations/'' @ plaintext, ir_ttl = ttl\<rparr>,
                         db\<lparr>invitations := invitations db @
                              [invitation_row uuid email h role (au_id actor) (now + 3600 * ttl)]\<rparr>))))"

definition invitation_get ::
  "auth_env \<Rightarrow> time \<Rightarrow> string \<Rightarrow> auth_db \<Rightarrow> app_error + (string \<times> string \<times> time)" where
  "invitation_get env now token db =
     (case sql_first (\<lambda>i. i_hash i = sha256 env token \<and> pending now i) (invitations db) of
        None \<Rightarrow> Inl (NotFound (te ''errors.invitations.not_found''))
      | Some i \<Rightarrow> Inr (i_email i, i_role i, i_expires i))"

definition invited_user ::
  "string \<Rightarrow> string \<Rightarrow> string \<Rightarrow> string \<Rightarrow> string \<Rightarrow> time \<Rightarrow> user_row" where
  "invited_user uid name email hash role now =
     \<lparr>u_id = uid, u_name = name, u_email = email, u_password = hash, u_role = ''user'',
      u_global_role = role, u_active = True, u_created = now, u_updated = now,
      u_totp_enabled = None, u_totp_secret = None, u_recovery = None\<rparr>"

definition insert_user :: "user_row \<Rightarrow> auth_db \<Rightarrow> string + auth_db" where
  "insert_user u db =
     (if list_ex (\<lambda>v. u_id v = u_id u \<or> u_name v = u_name u \<or> u_email v = u_email u) (users db)
      then Inl ''UNIQUE constraint failed''
      else Inr (db\<lparr>users := users db @ [u]\<rparr>))"

definition invitation_accept ::
  "auth_env \<Rightarrow> time \<Rightarrow> string \<Rightarrow> string \<Rightarrow> string \<Rightarrow> string \<Rightarrow> auth_db \<Rightarrow> (app_error + string) \<times> auth_db" where
  "invitation_accept env now new_id token username0 password db =
     (let h = sha256 env token; username = trim username0
      in if username = [] then (Inl (BadRequest (te ''errors.invitations.username_required'')), db)
         else
           (case sql_first (\<lambda>i. i_hash i = h \<and> pending now i) (invitations db) of
              None \<Rightarrow> (Inl (NotFound (te ''errors.invitations.not_found'')), db)
            | Some iv \<Rightarrow>
                (case validate_password_strength (zxcvbn env) password [username, i_email iv] of
                   Inl m \<Rightarrow> (Inl (BadRequest m), db)
                 | Inr _ \<Rightarrow>
                     (case bcrypt_hash env password of
                        None \<Rightarrow> (Inl (Internal ''hash password''), db)
                      | Some pw_hash \<Rightarrow>
                          (case insert_user
                                  (invited_user new_id username (i_email iv) pw_hash (i_role iv) now) db of
                             Inl e \<Rightarrow> (Inl (DatabaseError e), db)
                           | Inr db' \<Rightarrow>
                               (Inr new_id,
                                db'\<lparr>invitations := sql_update (\<lambda>i. i_id i = i_id iv)
                                     (\<lambda>i. i\<lparr>i_accepted := Some now, i_accepted_user := Some new_id\<rparr>)
                                     (invitations db')\<rparr>))))))"

section \<open>Updating, deleting, changing roles\<close>

record update_request =
  up_username :: "string option"
  up_email :: "string option"
  up_active :: "bool option"

definition stored_role :: "user_row \<Rightarrow> global_role" where
  "stored_role u = (case global_parse (u_global_role u) of None \<Rightarrow> User | Some r \<Rightarrow> r)"

text \<open>\<open>UPDATE users SET username = \<dots>\<close> and \<open>email = \<dots>\<close>, which a duplicate makes fail.\<close>

definition set_username :: "time \<Rightarrow> string \<Rightarrow> string \<Rightarrow> auth_db \<Rightarrow> string + auth_db" where
  "set_username now uid name db =
     (if list_ex (\<lambda>v. u_id v \<noteq> uid \<and> u_name v = name) (users db) then Inl ''UNIQUE constraint failed''
      else Inr (upd_user uid (\<lambda>u. u\<lparr>u_name := name, u_updated := now\<rparr>) db))"

definition set_email :: "time \<Rightarrow> string \<Rightarrow> string \<Rightarrow> auth_db \<Rightarrow> string + auth_db" where
  "set_email now uid email db =
     (if list_ex (\<lambda>v. u_id v \<noteq> uid \<and> u_email v = email) (users db) then Inl ''UNIQUE constraint failed''
      else Inr (upd_user uid (\<lambda>u. u\<lparr>u_email := email, u_updated := now\<rparr>) db))"

definition set_active :: "time \<Rightarrow> string \<Rightarrow> bool \<Rightarrow> auth_db \<Rightarrow> auth_db" where
  "set_active now uid active db =
     (let db1 = upd_user uid (\<lambda>u. u\<lparr>u_active := active, u_updated := now\<rparr>) db
      in if \<not> active then
           db1\<lparr>sessions := sql_delete (\<lambda>s. s_user s = uid) (sessions db1),
               api_tokens := sql_update (\<lambda>t. t_user t = uid \<and> t_revoked t = None)
                               (\<lambda>t. t\<lparr>t_revoked := Some now\<rparr>) (api_tokens db1)\<rparr>
         else db1)"

definition update_fields ::
  "time \<Rightarrow> string \<Rightarrow> update_request \<Rightarrow> auth_db \<Rightarrow> (app_error + unit) \<times> auth_db" where
  "update_fields now uid body db =
     (case (case up_username body of None \<Rightarrow> Inr db | Some n \<Rightarrow> set_username now uid n db) of
        Inl e \<Rightarrow> (Inl (DatabaseError e), db)
      | Inr db1 \<Rightarrow>
          (case (case up_email body of None \<Rightarrow> Inr db1 | Some m \<Rightarrow> set_email now uid (lower m) db1) of
             Inl e \<Rightarrow> (Inl (DatabaseError e), db1)
           | Inr db2 \<Rightarrow>
               (Inr (), case up_active body of None \<Rightarrow> db2 | Some a \<Rightarrow> set_active now uid a db2)))"

definition user_update ::
  "time \<Rightarrow> auth_user \<Rightarrow> string \<Rightarrow> update_request \<Rightarrow> auth_db \<Rightarrow> (app_error + unit) \<times> auth_db" where
  "user_update now actor target body db =
     (if target = au_id actor then
        (Inl (BadRequest (te ''errors.users.use_account_endpoints'')), db)
      else
        (case user_by_id db target of
           None \<Rightarrow> (Inl (NotFound (te ''errors.users.user_not_found'')), db)
         | Some u \<Rightarrow>
             if stored_role u = Owner \<and> au_global actor \<noteq> Owner then
               (Inl (Forbidden (te ''errors.users.only_owner_can_edit_owner'')), db)
             else update_fields now target body db))"

definition active_owner :: "user_row \<Rightarrow> bool" where
  "active_owner u = (u_global_role u = ''owner'' \<and> u_active u)"

definition owner_count :: "auth_db \<Rightarrow> nat" where
  "owner_count db = sql_count active_owner (users db)"

definition user_remove :: "auth_user \<Rightarrow> string \<Rightarrow> auth_db \<Rightarrow> (app_error + unit) \<times> auth_db" where
  "user_remove actor target db =
     (if target = au_id actor then
        (Inl (BadRequest (te ''errors.users.cannot_delete_yourself'')), db)
      else
        (case user_by_id db target of
           None \<Rightarrow> (Inl (NotFound (te ''errors.users.user_not_found'')), db)
         | Some u \<Rightarrow>
             if stored_role u = Owner \<and> owner_count db \<le> 1 then
               (Inl (Conflict (te ''errors.users.cannot_delete_last_owner'')), db)
             else if stored_role u = Owner \<and> au_global actor \<noteq> Owner then
               (Inl (Forbidden (te ''errors.users.only_owner_can_delete_owner'')), db)
             else if stored_role u = Admin \<and> au_global actor \<noteq> Owner then
               (Inl (Forbidden (te ''errors.users.only_owner_can_delete_admins'')), db)
             else (Inr (), delete_user target db)))"

text \<open>The answer of \<open>change_role\<close>: whether the role was unchanged, and the role.\<close>

definition user_change_role ::
  "time \<Rightarrow> string \<Rightarrow> string \<Rightarrow> auth_db \<Rightarrow> (app_error + bool \<times> string) \<times> auth_db" where
  "user_change_role now target role_s db =
     (case global_parse role_s of
        None \<Rightarrow> (Inl (BadRequest (Te ''errors.users.unknown_role'' [(''name'', role_s)])), db)
      | Some new_role \<Rightarrow>
          (case user_by_id db target of
             None \<Rightarrow> (Inl (NotFound (te ''errors.users.user_not_found'')), db)
           | Some u \<Rightarrow>
               if stored_role u = new_role then (Inr (True, global_as_str new_role), db)
               else if stored_role u = Owner \<and> owner_count db \<le> 1 then
                 (Inl (Conflict (te ''errors.users.cannot_demote_last_owner'')), db)
               else
                 (Inr (False, global_as_str new_role),
                  upd_user target (\<lambda>u. u\<lparr>u_global_role := global_as_str new_role, u_updated := now\<rparr>) db)))"

section \<open>Routes and runs\<close>

datatype user_request =
    ReqInvite "8 word list" string invite_request
  | ReqUpdate string update_request
  | ReqRemove string
  | ReqChangeRole string string

text \<open>The router: the first three sit behind \<open>require_global_admin\<close>, the last behind
  \<open>require_global_owner\<close>. A refused request changes nothing.\<close>

definition guarded :: "(app_error + (app_error + unit) \<times> auth_db) \<Rightarrow> auth_db \<Rightarrow> (app_error + unit) \<times> auth_db" where
  "guarded r db = (case r of Inl e \<Rightarrow> (Inl e, db) | Inr x \<Rightarrow> x)"

definition void :: "(app_error + 'a) \<times> auth_db \<Rightarrow> (app_error + unit) \<times> auth_db" where
  "void r = (case r of (Inl e, d) \<Rightarrow> (Inl e, d) | (Inr _, d) \<Rightarrow> (Inr (), d))"

fun user_api ::
  "auth_env \<Rightarrow> time \<Rightarrow> auth_user \<Rightarrow> user_request \<Rightarrow> auth_db \<Rightarrow> (app_error + unit) \<times> auth_db" where
  "user_api env now actor (ReqInvite bytes uuid body) db =
     guarded (require_global_admin (Some actor) (void (invite env now bytes uuid actor body db))) db"
| "user_api env now actor (ReqUpdate target body) db =
     guarded (require_global_admin (Some actor) (user_update now actor target body db)) db"
| "user_api env now actor (ReqRemove target) db =
     guarded (require_global_admin (Some actor) (user_remove actor target db)) db"
| "user_api env now actor (ReqChangeRole target role) db =
     guarded (require_global_owner (Some actor) (void (user_change_role now target role db))) db"

text \<open>One request at a time: authenticated against the database it runs on, or anonymous.\<close>

inductive user_step :: "auth_env \<Rightarrow> auth_db \<Rightarrow> auth_db \<Rightarrow> bool" for env :: auth_env where
  managed: "auth_current db actor \<Longrightarrow> user_step env db (snd (user_api env now actor rq db))"
| accepted: "user_step env db (snd (invitation_accept env now uid token name pw db))"
| authenticated: "user_step env db (snd (require_auth env cfg now req db))"
| swept: "user_step env db (session_gc_once cfg now db)"

inductive_simps user_step_simps: "user_step env db db'"

section \<open>Lemmas\<close>

interpretation owners: quorum_table u_id active_owner "\<lambda>t. distinct (map u_id t)"
  by unfold_locales

lemma stored_role_Owner: "stored_role u = Owner \<longleftrightarrow> u_global_role u = ''owner''"
  by (auto simp: stored_role_def global_parse_def)

lemma au_global_local: "au_global (local_user u sid) = stored_role u"
  by (simp add: stored_role_def)

lemma db_ok_ids: "db_ok db \<Longrightarrow> distinct (map u_id (users db))"
  by (simp add: db_ok_def)

lemma user_by_id_unique:
  "db_ok db \<Longrightarrow> user_by_id db uid = Some u \<Longrightarrow> v \<in> set (users db) \<Longrightarrow> u_id v = uid \<Longrightarrow> v = u"
  using user_by_id_in by fastforce

text \<open>What the invariant needs of a row. The rows of the other users keep it under every update.\<close>

definition role_view :: "user_row \<Rightarrow> string \<times> string \<times> bool" where
  "role_view u = (u_id u, u_global_role u, u_active u)"

lemma set_username_view:
  "set_username now uid n db = Inr db' \<Longrightarrow> map role_view (users db') = map role_view (users db)"
  by (auto simp: set_username_def map_sql_update role_view_def split: if_splits)

lemma set_email_view:
  "set_email now uid n db = Inr db' \<Longrightarrow> map role_view (users db') = map role_view (users db)"
  by (auto simp: set_email_def map_sql_update role_view_def split: if_splits)

definition view_active :: "string \<Rightarrow> bool \<Rightarrow> string \<times> string \<times> bool \<Rightarrow> string \<times> string \<times> bool" where
  "view_active uid a v = (if fst v = uid then (fst v, fst (snd v), a) else v)"

lemma set_active_view:
  "map role_view (users (set_active now uid a db)) = map (view_active uid a) (map role_view (users db))"
  by (simp add: set_active_def Let_def role_view_def sql_update_def view_active_def)

lemma update_fields_view:
  "map role_view (users (snd (update_fields now uid body db))) = map role_view (users db) \<or>
   (\<exists>a. map role_view (users (snd (update_fields now uid body db))) =
         map (view_active uid a) (map role_view (users db)))"
proof (cases "case up_username body of None \<Rightarrow> Inr db | Some n \<Rightarrow> set_username now uid n db")
  case (Inl e)
  then show ?thesis by (simp add: update_fields_def)
next
  case (Inr db1)
  then have v1: "map role_view (users db1) = map role_view (users db)"
    using set_username_view by (auto split: option.splits)
  show ?thesis
  proof (cases "case up_email body of None \<Rightarrow> Inr db1 | Some m \<Rightarrow> set_email now uid (lower m) db1")
    case (Inl e)
    then show ?thesis using Inr v1 by (simp add: update_fields_def)
  next
    case i2: (Inr db2)
    then have "map role_view (users db2) = map role_view (users db)"
      using set_email_view v1 by (auto split: option.splits)
    then show ?thesis
      using Inr i2 set_active_view by (cases "up_active body") (auto simp: update_fields_def simp del: map_map)
  qed
qed

lemma owner_count_pos:
  "0 < owner_count db \<longleftrightarrow> (\<exists>u \<in> set (users db). u_global_role u = ''owner'' \<and> u_active u)"
  by (simp add: owner_count_def sql_count_pos active_owner_def)

lemma owner_view:
  "u \<in> set (users db) \<Longrightarrow> u_global_role u = ''owner'' \<Longrightarrow> u_active u \<Longrightarrow>
   (u_id u, ''owner'', True) \<in> set (map role_view (users db))"
  by (force simp: role_view_def)

lemma owner_view_count: "(i, ''owner'', True) \<in> set (map role_view (users db)) \<Longrightarrow> 0 < owner_count db"
  by (auto simp: role_view_def owner_count_pos)

text \<open>An update keeps every active owner other than its target.\<close>

lemma update_fields_keeps_owner:
  assumes "(i, ''owner'', True) \<in> set (map role_view (users db))" "i \<noteq> uid"
  shows "(i, ''owner'', True) \<in> set (map role_view (users (snd (update_fields now uid body db))))"
proof -
  have "view_active uid a (i, ''owner'', True) = (i, ''owner'', True)" for a
    using assms(2) by (simp add: view_active_def)
  then have "(i, ''owner'', True) \<in> view_active uid a ` set (map role_view (users db))" for a
    using assms(1) by (metis imageI)
  then show ?thesis
    using update_fields_view [of now uid body db] assms(1) by (metis list.set_map)
qed

lemma ids_of_view: "map u_id us = map fst (map role_view us)"
  by (simp add: role_view_def comp_def)

lemma update_fields_ids: "map u_id (users (snd (update_fields now uid body db))) = map u_id (users db)"
proof -
  have "map fst (map (view_active uid a) vs) = map fst vs" for a vs
    by (simp add: view_active_def)
  then show ?thesis
    using update_fields_view [of now uid body db] unfolding ids_of_view by metis
qed

lemma require_auth_users: "users (snd (require_auth env cfg now req db)) = users db"
proof -
  have s: "users (snd (session_auth env cfg now req api db)) = users db" for api
  proof -
    let ?cands = "session_cookie_values (case rq_cookie req of None \<Rightarrow> [] | Some c \<Rightarrow> c) (session_cookie cfg)"
    obtain r d where f: "find_session now (max (session_abs_max_hours cfg) 1)
        (ua_fingerprint (case rq_agent req of None \<Rightarrow> [] | Some a \<Rightarrow> a)) db ?cands = (r, d)" by fastforce
    then have "users d = users db" using find_session_tables(1) by (metis snd_conv)
    then show ?thesis
      using f by (auto simp: session_auth_def Let_def slide_session_def split: option.splits)
  qed
  show ?thesis
    using s token_lookup_tables(1) [of env now _ db]
    by (auto simp: require_auth_def Let_def split: option.splits prod.splits) (metis snd_conv)+
qed

lemma session_gc_users [simp]: "users (session_gc_once cfg now db) = users db"
  by (simp add: session_gc_once_def Let_def)

lemma guarded_snd: "snd (guarded r db) = (case r of Inl e \<Rightarrow> db | Inr x \<Rightarrow> snd x)"
  by (simp add: guarded_def split: sum.splits)

lemma void_snd [simp]: "snd (void r) = snd r"
  by (simp add: void_def split: prod.splits sum.splits)

lemma void_fst: "fst (void r) = Inr () \<longleftrightarrow> (\<exists>x. fst r = Inr x)"
  by (auto simp: void_def split: prod.splits sum.splits)

lemma require_global_role_cases:
  "require_global_role r q x = Inr y \<Longrightarrow> y = x \<and> (\<exists>a. q = Some a \<and> global_at_least (au_global a) r \<and> \<not> (is_peer a \<and> r = Owner))"
  by (auto simp: require_global_role_def split: option.splits if_splits)

lemma invite_users: "users (snd (invite env now bytes uuid actor body db)) = users db"
  by (auto simp: invite_def Let_def split: sum.splits option.splits)

lemma invitation_accept_users:
  "users (snd (invitation_accept env now uid tok n p db)) = users db \<or>
   (\<exists>u. u_id u = uid \<and> uid \<notin> u_id ` set (users db) \<and>
        users (snd (invitation_accept env now uid tok n p db)) = users db @ [u])"
  by (auto simp: invitation_accept_def insert_user_def invited_user_def Let_def list_ex_iff image_iff
      split: sum.splits option.splits if_splits)

definition user_inv :: "auth_db \<Rightarrow> bool" where
  "user_inv db \<longleftrightarrow> distinct (map u_id (users db)) \<and> 0 < owner_count db"

lemma user_inv_users: "users db' = users db \<Longrightarrow> user_inv db \<Longrightarrow> user_inv db'"
  by (simp add: user_inv_def owner_count_def)

lemma user_by_id_unique':
  "distinct (map u_id (users db)) \<Longrightarrow> user_by_id db uid = Some u \<Longrightarrow> v \<in> set (users db) \<Longrightarrow>
   u_id v = uid \<Longrightarrow> v = u"
  using user_by_id_Some distinct_key_unique by metis

lemma user_update_inv:
  assumes iv: "user_inv db" and cur: "auth_current db actor"
  shows "user_inv (snd (user_update now actor target body db))"
proof (cases "snd (user_update now actor target body db) = db")
  case False
  then obtain u where ne: "target \<noteq> au_id actor" and u: "user_by_id db target = Some u"
    and own: "stored_role u = Owner \<longrightarrow> au_global actor = Owner"
    and r: "user_update now actor target body db = update_fields now target body db"
    by (auto simp: user_update_def split: option.splits if_splits)
  have "\<exists>i. i \<noteq> target \<and> (i, ''owner'', True) \<in> set (map role_view (users db))"
  proof (cases "au_global actor = Owner")
    case True
    have "\<not> is_peer actor"
      using cur True by (auto simp: auth_current_def list_ex_iff)
    then obtain a where a: "a \<in> set (users db)" "u_active a" "actor = local_user a (au_session actor)"
      using auth_current_local cur by blast
    then have "au_id actor = u_id a" "stored_role a = Owner"
      using True by (metis local_user_simps(1), metis au_global_local)
    with a ne show ?thesis using owner_view [of a db] by (auto simp: stored_role_Owner)
  next
    case False
    with own have "u_global_role u \<noteq> ''owner''" by (simp add: stored_role_Owner)
    moreover obtain v where v: "v \<in> set (users db)" "u_global_role v = ''owner''" "u_active v"
      using iv by (auto simp: user_inv_def owner_count_pos)
    ultimately have "u_id v \<noteq> target" using user_by_id_unique' [OF _ u v(1)] iv by (auto simp: user_inv_def)
    with v show ?thesis using owner_view by blast
  qed
  then obtain i where i: "i \<noteq> target" "(i, ''owner'', True) \<in> set (map role_view (users db))" by blast
  from owner_view_count [OF update_fields_keeps_owner [OF i(2,1)]] show ?thesis
    using iv by (simp add: r user_inv_def update_fields_ids)
qed (use iv in simp)

lemma user_remove_inv:
  assumes iv: "user_inv db"
  shows "user_inv (snd (user_remove actor target db))"
proof (cases "snd (user_remove actor target db) = db")
  case False
  then obtain u where u: "user_by_id db target = Some u"
    and two: "stored_role u = Owner \<longrightarrow> 2 \<le> owner_count db"
    and r: "snd (user_remove actor target db) = delete_user target db"
    by (auto simp: user_remove_def split: option.splits if_splits)
  have d: "distinct (map u_id (users db))" using iv by (simp add: user_inv_def)
  have "0 < sql_count active_owner (sql_delete (\<lambda>r. u_id r = target) (users db))"
  proof (cases "stored_role u = Owner")
    case True
    then show ?thesis using owners.delete_keeps_one [OF d] two by (simp add: owner_count_def)
  next
    case False
    have "\<not> active_owner v" if "v \<in> set (users db)" "u_id v = target" for v
      using user_by_id_unique' [OF d u that] False by (simp add: active_owner_def stored_role_Owner)
    then show ?thesis
      using owners.delete_other_keeps [of "users db" target] iv by (simp add: user_inv_def owner_count_def)
  qed
  then show ?thesis
    using d by (simp add: r user_inv_def owner_count_def sql_delete_def distinct_map_filter)
qed (use iv in simp)

lemma user_change_role_inv:
  assumes iv: "user_inv db"
  shows "user_inv (snd (user_change_role now target s db))"
proof (cases "snd (user_change_role now target s db) = db")
  case False
  then obtain u new where u: "user_by_id db target = Some u"
    and two: "stored_role u = Owner \<longrightarrow> 2 \<le> owner_count db"
    and r: "snd (user_change_role now target s db) =
            upd_user target (\<lambda>u. u\<lparr>u_global_role := global_as_str new, u_updated := now\<rparr>) db"
    by (auto simp: user_change_role_def split: option.splits if_splits)
  have d: "distinct (map u_id (users db))" using iv by (simp add: user_inv_def)
  let ?f = "\<lambda>u :: user_row. u\<lparr>u_global_role := global_as_str new, u_updated := now\<rparr>"
  have "0 < sql_count active_owner (sql_update (\<lambda>r. u_id r = target) ?f (users db))"
  proof (cases "stored_role u = Owner")
    case True
    then show ?thesis using owners.update_keeps_one [OF d] two by (simp add: owner_count_def)
  next
    case False
    have "\<not> active_owner v" if "v \<in> set (users db)" "u_id v = target" for v
      using user_by_id_unique' [OF d u that] False by (simp add: active_owner_def stored_role_Owner)
    then show ?thesis
      using owners.update_other_keeps [of "users db" target ?f] iv by (simp add: user_inv_def owner_count_def)
  qed
  then show ?thesis
    using d by (simp add: r user_inv_def owner_count_def map_sql_update)
qed (use iv in simp)

lemma guarded_require:
  "snd (guarded (require_global_role r q x) db) = db \<or> snd (guarded (require_global_role r q x) db) = snd x"
  by (auto simp: guarded_def require_global_role_def split: option.splits)

lemma user_api_inv:
  assumes iv: "user_inv db" and cur: "auth_current db actor"
  shows "user_inv (snd (user_api env now actor rq db))"
proof -
  have h: "user_inv (snd (guarded (require_global_role r q x) db))" if "user_inv (snd x)" for r q x
    using guarded_require [of r q x db] that iv by auto
  show ?thesis
  proof (cases rq)
    case (ReqInvite bytes uuid body)
    then show ?thesis by (simp add: require_global_admin_def h user_inv_users [OF invite_users iv])
  next
    case (ReqUpdate target body)
    then show ?thesis by (simp add: require_global_admin_def h user_update_inv [OF iv cur])
  next
    case (ReqRemove target)
    then show ?thesis by (simp add: require_global_admin_def h user_remove_inv [OF iv])
  next
    case (ReqChangeRole target role)
    then show ?thesis by (simp add: require_global_owner_def h user_change_role_inv [OF iv])
  qed
qed

interpretation user_runs: invariant_system "user_step env" user_inv for env
proof
  fix db db' assume "user_step env db db'" "user_inv db"
  then show "user_inv db'"
  proof cases
    case (accepted now uid token name pw)
    then show ?thesis
      using \<open>user_inv db\<close> invitation_accept_users [of env now uid token name pw db] user_inv_users
      by (auto simp: user_inv_def owner_count_def intro: owners.append_keeps)
  qed (use \<open>user_inv db\<close> user_api_inv user_inv_users [OF require_auth_users] user_inv_users [of "session_gc_once _ _ db" db] in auto)
qed

text \<open>Deactivation and the tables it clears.\<close>

lemma set_active_off_user:
  assumes "u \<in> set (users (set_active now uid False db))" "u_id u = uid"
  shows "\<not> u_active u"
proof -
  have "u \<in> set (sql_update (\<lambda>u. u_id u = uid) (\<lambda>u. u\<lparr>u_active := False, u_updated := now\<rparr>) (users db))"
    using assms(1) by (simp add: set_active_def Let_def)
  from in_sql_update [OF this] show ?thesis
  proof (elim disjE bexE conjE)
    fix x assume "u = x\<lparr>u_active := False, u_updated := now\<rparr>"
    then show ?thesis by simp
  qed (use assms in simp)
qed

lemma set_active_off_session: "s \<in> set (sessions (set_active now uid False db)) \<Longrightarrow> s_user s \<noteq> uid"
  by (simp add: set_active_def Let_def set_sql_delete)

lemma set_active_off_token:
  assumes "t \<in> set (api_tokens (set_active now uid False db))" "t_user t = uid"
  shows "t_revoked t \<noteq> None"
proof -
  have "t \<in> set (sql_update (\<lambda>t. t_user t = uid \<and> t_revoked t = None)
                 (\<lambda>t. t\<lparr>t_revoked := Some now\<rparr>) (api_tokens db))"
    using assms(1) by (simp add: set_active_def Let_def)
  from in_sql_update [OF this] show ?thesis
  proof (elim disjE bexE conjE)
    fix x assume "t = x\<lparr>t_revoked := Some now\<rparr>"
    then show ?thesis by simp
  qed (use assms in simp)
qed

lemma invite_role_Inr: "invite_role r = Inr role \<Longrightarrow> role = ''user'' \<or> role = ''admin''"
  by (auto simp: invite_role_def split: option.splits if_splits)

lemma clamp_bounds: "lo \<le> hi \<Longrightarrow> lo \<le> clamp lo hi x \<and> clamp lo hi x \<le> hi"
  by (simp add: clamp_def)

lemma invite_Inr:
  "invite env now bytes uuid actor body db = (Inr r, db') \<Longrightarrow>
   invite_role (iv_global_role body) = Inr (ir_role r) \<and>
   (ir_role r = ''admin'' \<longrightarrow> au_global actor = Owner) \<and> 1 \<le> ir_ttl r \<and> ir_ttl r \<le> 168 \<and>
   \<not> list_ex (\<lambda>i. i_hash i = sha256 env (ir_token r)) (invitations db) \<and>
   db' = db\<lparr>invitations := invitations db @
     [invitation_row uuid (ir_email r) (sha256 env (ir_token r)) (ir_role r) (au_id actor)
       (now + 3600 * ir_ttl r)]\<rparr>"
  by (auto simp: invite_def Let_def list_ex_iff clamp_bounds split: if_splits sum.splits)

lemma user_update_deactivates:
  "user_update now actor target body db = (Inr (), db') \<Longrightarrow> up_active body = Some False \<Longrightarrow>
   \<exists>d. db' = set_active now target False d"
  by (auto simp: user_update_def update_fields_def split: option.splits if_splits sum.splits)

lemma no_active_row:
  "auth_current db a \<Longrightarrow> \<not> is_peer a \<Longrightarrow> \<exists>u \<in> set (users db). u_id u = au_id a \<and> u_active u"
  using auth_current_local by (metis local_user_simps(1))

text \<open>Roles an invitation may carry; kept by every step.\<close>

definition invitable :: "auth_db \<Rightarrow> bool" where
  "invitable db = list_all (\<lambda>i. i_role i = ''user'' \<or> i_role i = ''admin'') (invitations db)"

lemma invite_invitable: "invitable db \<Longrightarrow> invitable (snd (invite env now bytes uuid actor body db))"
  by (auto simp: invitable_def invite_def Let_def invitation_row_def dest: invite_role_Inr split: sum.splits)

lemma update_fields_invitations: "invitations (snd (update_fields now uid body db)) = invitations db"
  by (auto simp: update_fields_def set_username_def set_email_def set_active_def Let_def
      split: sum.splits option.splits if_splits)

lemma user_update_invitations: "invitations (snd (user_update now actor target body db)) = invitations db"
  by (auto simp: user_update_def update_fields_invitations split: option.splits)

lemma user_remove_invitable: "invitable db \<Longrightarrow> invitable (snd (user_remove actor target db))"
  by (auto simp: user_remove_def invitable_def delete_user_def list_all_iff split: option.splits)

lemma user_change_role_invitations: "invitations (snd (user_change_role now target r db)) = invitations db"
  by (auto simp: user_change_role_def split: option.splits)

lemma invitation_accept_invitable:
  "invitable db \<Longrightarrow> invitable (snd (invitation_accept env now uid tok n p db))"
  by (auto simp: invitation_accept_def insert_user_def Let_def invitable_def list_all_iff set_sql_update
      split: option.splits sum.splits if_splits)

lemma require_auth_invitations: "invitations (snd (require_auth env cfg now req db)) = invitations db"
proof -
  have t: "invitations (snd (token_lookup env now p db)) = invitations db" for p
    by (auto simp: token_lookup_def Let_def split: option.splits)
  have f: "invitations (snd (find_session now m fp db sids)) = invitations db" for m fp sids
    by (induction sids) (auto simp: Let_def split: option.splits)
  have s: "invitations (snd (session_auth env cfg now req api db)) = invitations db" for api
  proof -
    let ?cands = "session_cookie_values (case rq_cookie req of None \<Rightarrow> [] | Some c \<Rightarrow> c) (session_cookie cfg)"
    obtain r d where r: "find_session now (max (session_abs_max_hours cfg) 1)
        (ua_fingerprint (case rq_agent req of None \<Rightarrow> [] | Some a \<Rightarrow> a)) db ?cands = (r, d)" by fastforce
    then have "invitations d = invitations db" using f by (metis snd_conv)
    then show ?thesis
      using r by (auto simp: session_auth_def Let_def slide_session_def split: option.splits)
  qed
  show ?thesis
    using s t by (auto simp: require_auth_def Let_def split: option.splits prod.splits) (metis snd_conv)+
qed

interpretation invite_runs: invariant_system "user_step env" invitable for env
proof
  fix db db' assume "user_step env db db'" and iv: "invitable db"
  then show "invitable db'"
  proof cases
    case (managed actor now rq)
    have h: "invitable (snd (guarded (require_global_role r q x) db))" if "invitable (snd x)" for r q x
      using guarded_require [of r q x db] that iv by auto
    have eq: "invitable d" if "invitations d = invitations db" for d
      using that iv by (simp add: invitable_def)
    show ?thesis
      unfolding managed
      by (cases rq) (simp_all add: require_global_admin_def require_global_owner_def h
          invite_invitable [OF iv] user_remove_invitable [OF iv] eq [OF user_update_invitations]
          eq [OF user_change_role_invitations])
  next
    case authenticated
    then show ?thesis using iv by (simp add: invitable_def require_auth_invitations)
  next
    case swept
    then show ?thesis using iv by (simp add: invitable_def session_gc_once_def Let_def)
  qed (use iv invitation_accept_invitable in auto)
qed

section \<open>Properties\<close>

text \<open>C1: Along every run of requests (each authenticated against the database it runs on),
  session checks and sweeps, an active owner remains: no sequence of updates, deactivations,
  deletions and role changes locks the instance out.\<close>

theorem active_owner_remains:
  assumes "(user_step env)\<^sup>*\<^sup>* db db'" "distinct (map u_id (users db))" "0 < owner_count db"
  shows "0 < owner_count db'"
  using user_runs.run_inv [OF assms(1)] assms(2,3) by (simp add: user_inv_def)

text \<open>The guarantee needs the authentication to be current: two owners whose requests were both
  authenticated before either ran deactivate each other, and no active owner is left.\<close>

theorem crossing_deactivations_leave_no_owner:
  "\<exists>db a b. auth_current db a \<and> auth_current db b \<and> owner_count db = 2 \<and>
     (let off = \<lparr>up_username = None, up_email = None, up_active = Some False\<rparr>;
          r1 = user_api env now a (ReqUpdate (au_id b) off) db;
          r2 = user_api env now b (ReqUpdate (au_id a) off) (snd r1)
      in fst r1 = Inr () \<and> fst r2 = Inr () \<and> owner_count (snd r2) = 0)"
proof -
  let ?db = "sample_db\<lparr>users := [sample_user ''ann'' ''owner'', sample_user ''eve'' ''owner'']\<rparr>"
  let ?a = "local_user (sample_user ''ann'' ''owner'') ''s1''"
  let ?b = "local_user (sample_user ''eve'' ''owner'') ''s2''"
  have "auth_current ?db ?a" "auth_current ?db ?b" "owner_count ?db = 2"
    by (simp_all add: auth_current_def owner_count_def sql_count_def active_owner_def sample_user_def)
  then show ?thesis
    by (intro exI [of _ ?db] exI [of _ ?a] exI [of _ ?b])
       (simp add: guarded_def require_global_admin_def require_global_role_def user_update_def
          user_by_id_def sql_first_def sample_user_def stored_role_def global_parse_def
          update_fields_def set_active_def owner_count_def active_owner_def sql_simps)
qed

text \<open>Deactivating an account cuts it off at once: it keeps no session and no live API token,
  and no later request authenticates as it.\<close>

theorem deactivated_locked_out:
  assumes "user_update now actor target body db = (Inr (), db')" "up_active body = Some False"
    and "require_auth env cfg now2 req db' = (Authenticated a c, db2)" "\<not> is_peer a"
  shows "au_id a \<noteq> target \<and> target \<notin> s_user ` set (sessions db') \<and>
         list_all (\<lambda>t. t_user t \<noteq> target \<or> t_revoked t \<noteq> None) (api_tokens db')"
proof -
  obtain d where d: "db' = set_active now target False d"
    using user_update_deactivates assms(1,2) by blast
  have "auth_current db' a" using require_auth_identity [OF assms(3)] by blast
  then obtain u where "u \<in> set (users db')" "u_id u = au_id a" "u_active u"
    using no_active_row assms(4) by blast
  then have "au_id a \<noteq> target" using set_active_off_user d by blast
  moreover have "target \<notin> s_user ` set (sessions db')" using set_active_off_session d by blast
  moreover have "list_all (\<lambda>t. t_user t \<noteq> target \<or> t_revoked t \<noteq> None) (api_tokens db')"
    using set_active_off_token d by (auto simp: list_all_iff)
  ultimately show ?thesis by blast
qed

text \<open>A peer core, which the policy denies user management, passes the guard of the user routes
  and deletes any plain user: the guard only looks at the synthetic admin role.\<close>

theorem peer_deletes_users:
  assumes "user_by_id db target = Some u" "stored_role u = User" "target \<noteq> ''peer:'' @ g_id g"
  shows "\<not> can (peer_user g) ManageUsers db \<and>
         user_api env now (peer_user g) (ReqRemove target) db = (Inr (), delete_user target db) \<and>
         user_by_id (delete_user target db) target = None"
  using assms
  by (auto simp: can_def guarded_def require_global_admin_def require_global_role_def
      global_at_least_def user_remove_def user_by_id_None set_sql_delete)

text \<open>An invitation is redeemable with exactly its email and role until its expiry, and the
  lifetime lies between one hour and seven days whatever was asked for.\<close>

theorem invite_lookup:
  assumes "invite env now bytes uuid actor body db = (Inr r, db')"
  shows "invitation_get env t (ir_token r) db' =
           (if t < now + 3600 * ir_ttl r then Inr (ir_email r, ir_role r, now + 3600 * ir_ttl r)
            else Inl (NotFound (te ''errors.invitations.not_found''))) \<and>
         1 \<le> ir_ttl r \<and> ir_ttl r \<le> 168 \<and> (ir_role r = ''admin'' \<longrightarrow> au_global actor = Owner)"
proof -
  let ?h = "sha256 env (ir_token r)"
  note r = invite_Inr [OF assms]
  then have n: "\<not> list_ex (\<lambda>i. i_hash i = ?h) (invitations db)"
    and d: "invitations db' = invitations db @ [invitation_row uuid (ir_email r) ?h (ir_role r)
        (au_id actor) (now + 3600 * ir_ttl r)]"
    by simp_all
  have "sql_first (\<lambda>i. i_hash i = ?h \<and> pending t i) (invitations db') =
        (if t < now + 3600 * ir_ttl r then Some (last (invitations db')) else None)"
    using n unfolding d
    by (auto simp: sql_first_append pending_def list_ex_iff sql_simps invitation_row_def
        split: option.splits dest: sql_first_Some)
  then show ?thesis using d r by (simp add: invitation_get_def invitation_row_def)
qed

text \<open>An invitation is single-use and never makes an owner: after an acceptance the same token is
  refused and changes nothing, and in a database reached from one whose invitations carry only the
  user and admin roles the new account has one of these.\<close>

theorem accept_single_use:
  assumes "(user_step env)\<^sup>*\<^sup>* db0 db" "invitable db0" "distinct (map i_hash (invitations db))"
    and "invitation_accept env now uid tok name pw db = (Inr r, db')"
  shows "(\<forall>u. u \<in> set (users db') \<and> u \<notin> set (users db) \<longrightarrow>
            u_id u = r \<and> (u_global_role u = ''user'' \<or> u_global_role u = ''admin'')) \<and>
         snd (invitation_accept env now2 uid2 tok name2 pw2 db') = db' \<and>
         status_code (projl (fst (invitation_accept env now2 uid2 tok name2 pw2 db'))) \<in> {400, 404}"
proof -
  obtain iv n' h where iv: "sql_first (\<lambda>i. i_hash i = sha256 env tok \<and> pending now i) (invitations db) = Some iv"
    and r: "r = uid" and u: "users db' = users db @ [invited_user uid n' (i_email iv) h (i_role iv) now]"
    and i: "invitations db' = sql_update (\<lambda>i. i_id i = i_id iv)
          (\<lambda>i. i\<lparr>i_accepted := Some now, i_accepted_user := Some uid\<rparr>) (invitations db)"
    using assms(4) by (auto simp: invitation_accept_def Let_def insert_user_def
        split: if_splits option.splits sum.splits)
  have role: "i_role iv = ''user'' \<or> i_role iv = ''admin''"
    using invite_runs.run_inv [OF assms(1,2)] sql_first_Some [OF iv] by (auto simp: invitable_def list_all_iff)
  have "\<not> pending t i" if "i \<in> set (invitations db')" "i_hash i = sha256 env tok" for i t
  proof -
    obtain j where j: "j \<in> set (invitations db)" "i_hash j = i_hash i"
      "i = (if i_id j = i_id iv then j\<lparr>i_accepted := Some now, i_accepted_user := Some uid\<rparr> else j)"
      using \<open>i \<in> set (invitations db')\<close> by (force simp: i set_sql_update)
    then have "j = iv"
      using distinct_key_unique [OF assms(3), of j iv] sql_first_Some [OF iv] that by auto
    with j show ?thesis by (simp add: pending_def)
  qed
  then have none: "sql_first (\<lambda>i. i_hash i = sha256 env tok \<and> pending t i) (invitations db') = None" for t
    by (auto simp: sql_first_None)
  show ?thesis
    using u role r by (auto simp: invited_user_def invitation_accept_def Let_def none)
qed

section \<open>Witnesses\<close>

definition ann_user :: auth_user where
  "ann_user = local_user (sample_user ''ann'' ''owner'') ''s1''"

definition off_request :: update_request where
  "off_request = \<lparr>up_username = None, up_email = None, up_active = Some False\<rparr>"

definition ann_db :: auth_db where
  "ann_db = sample_db\<lparr>sessions := [\<lparr>s_id = ''s1'', s_user = ''ann'', s_ip = None, s_agent = None,
                                    s_expires = 4000, s_created = 100\<rparr>]\<rparr>"

definition bob_off_db :: auth_db where
  "bob_off_db = snd (user_update 900 ann_user ''bob'' off_request ann_db)"

lemma ann_current: "auth_current ann_db ann_user"
  by (simp add: auth_current_def ann_user_def ann_db_def sample_db_def) (simp add: sample_user_def)

lemma bob_off: "user_update 900 ann_user ''bob'' off_request ann_db = (Inr (), bob_off_db)"
  by (simp add: bob_off_db_def user_update_def ann_user_def ann_db_def sample_db_def user_by_id_def
      sql_first_def sample_user_def stored_role_def global_parse_def update_fields_def off_request_def)

lemma bob_off_tables:
  "sessions bob_off_db = sessions ann_db" "users bob_off_db = [sample_user ''ann'' ''owner'',
     (sample_user ''bob'' ''user'')\<lparr>u_active := False, u_updated := 900\<rparr>]"
  by (simp_all add: bob_off_db_def user_update_def ann_user_def ann_db_def sample_db_def user_by_id_def
      sql_first_def sample_user_def stored_role_def global_parse_def update_fields_def off_request_def
      set_active_def sql_simps)

lemma ann_authenticated:
  "\<exists>c d. require_auth sample_env sample_cfg 1000 sample_request bob_off_db = (Authenticated ann_user c, d)"
proof -
  have "find_session 1000 72 ''firefox/'' bob_off_db [''s1''] = (Some ann_user, bob_off_db)"
    by (simp add: bob_off_tables ann_db_def ann_user_def sample_user_def sql_first_def session_live_def
        hours_def active_user_def)
  then show ?thesis
    by (simp add: require_auth_def session_auth_def sample_simps split: prod.split)
qed

lemma active_owner_remains_witness: "0 < owner_count (snd (user_api sample_env 5 ann_user (ReqRemove ''bob'') ann_db))"
proof (rule active_owner_remains)
  show "(user_step sample_env)\<^sup>*\<^sup>* ann_db (snd (user_api sample_env 5 ann_user (ReqRemove ''bob'') ann_db))"
    using user_step.managed [OF ann_current] by (rule r_into_rtranclp)
qed (simp_all add: ann_db_def sample_db_def sample_user_def owner_count_pos)

lemma deactivated_locked_out_witness: "au_id ann_user \<noteq> ''bob'' \<and> ''bob'' \<notin> s_user ` set (sessions bob_off_db)"
proof -
  obtain c d where "require_auth sample_env sample_cfg 1000 sample_request bob_off_db =
      (Authenticated ann_user c, d)"
    using ann_authenticated by blast
  moreover have "up_active off_request = Some False" "\<not> is_peer ann_user"
    by (simp_all add: off_request_def ann_user_def)
  ultimately show ?thesis using deactivated_locked_out [OF bob_off] by blast
qed

lemma peer_deletes_users_witness:
  "user_api sample_env 5 (peer_user (hd (peer_grants sample_db))) (ReqRemove ''bob'') sample_db =
     (Inr (), delete_user ''bob'' sample_db)"
proof -
  have "user_by_id sample_db ''bob'' = Some (sample_user ''bob'' ''user'')"
    "stored_role (sample_user ''bob'' ''user'') = User"
    "''bob'' \<noteq> ''peer:'' @ g_id (hd (peer_grants sample_db))"
    by (simp_all add: sample_db_def user_by_id_def sql_first_def sample_user_def stored_role_def
        global_parse_def)
  from peer_deletes_users [OF this] show ?thesis by blast
qed

definition sample_invite :: invite_request where
  "sample_invite = \<lparr>iv_email = ''Zoe@x'', iv_global_role = Some ''admin'', iv_ttl_hours = Some 900\<rparr>"

definition invited_db :: auth_db where
  "invited_db = snd (invite sample_env 1000 [1, 2] ''i1'' ann_user sample_invite ann_db)"

lemma sample_email: "lower (trim ''Zoe@x'') = ''zoe@x''" "trim ''zoe'' = ''zoe''" "\<not> utf8_len ''correct horse battery'' < 12"
  by code_simp+

lemma sample_invited:
  "invite sample_env 1000 [1, 2] ''i1'' ann_user sample_invite ann_db =
     (Inr \<lparr>ir_id = ''i1'', ir_email = ''zoe@x'', ir_role = ''admin'',
           ir_token = ''pier_invite_'' @ hex_encode [1, 2],
           ir_url = ''/invitations/'' @ ''pier_invite_'' @ hex_encode [1, 2], ir_ttl = 168\<rparr>, invited_db)"
  by (simp add: invited_db_def invite_def Let_def sample_invite_def sample_email invite_role_def ann_user_def
      ann_db_def sample_db_def sample_user_def global_parse_def user_by_id_def sql_first_def clamp_def)

lemma invited_rows:
  "invitations invited_db = [invitation_row ''i1'' ''zoe@x'' (''pier_invite_'' @ hex_encode [1, 2]) ''admin''
     ''ann'' (1000 + 3600 * 168)]"
proof -
  note r = invite_Inr [OF sample_invited]
  have "invitations invited_db = invitations ann_db @ [invitation_row ''i1'' ''zoe@x''
     (sha256 sample_env (''pier_invite_'' @ hex_encode [1, 2])) ''admin'' ''ann'' (1000 + 3600 * 168)]"
    by (subst r [THEN conjunct2, THEN conjunct2, THEN conjunct2, THEN conjunct2, THEN conjunct2])
       (simp add: ann_user_def sample_user_def)
  then show ?thesis by (simp add: ann_db_def sample_db_def sample_env_def)
qed

lemma invited_users: "users invited_db = [sample_user ''ann'' ''owner'', sample_user ''bob'' ''user'']"
  unfolding invited_db_def invite_users by (simp add: ann_db_def sample_db_def)

lemma invite_lookup_witness:
  "invitation_get sample_env 2000 (''pier_invite_'' @ hex_encode [1, 2]) invited_db =
     Inr (''zoe@x'', ''admin'', 605800)"
  using invite_lookup [OF sample_invited, of 2000] by simp

lemma accept_single_use_witness:
  "\<exists>db'. invitation_accept sample_env 2000 ''u9'' (''pier_invite_'' @ hex_encode [1, 2]) ''zoe''
            ''correct horse battery'' invited_db = (Inr ''u9'', db') \<and>
         snd (invitation_accept sample_env 2001 ''u10'' (''pier_invite_'' @ hex_encode [1, 2]) ''zed''
            ''correct horse battery'' db') = db'"
proof -
  have "\<exists>db'. invitation_accept sample_env 2000 ''u9'' (''pier_invite_'' @ hex_encode [1, 2]) ''zoe''
            ''correct horse battery'' invited_db = (Inr ''u9'', db')"
    by (simp add: invitation_accept_def Let_def sample_email invited_rows invited_users invitation_row_def sql_first_def pending_def
        validate_password_strength_def min_password_len_def sample_env_def insert_user_def invited_user_def
        ann_db_def sample_db_def sample_user_def)
  then obtain db' where a: "invitation_accept sample_env 2000 ''u9'' (''pier_invite_'' @ hex_encode [1, 2])
     ''zoe'' ''correct horse battery'' invited_db = (Inr ''u9'', db')" by blast
  have "invitable invited_db" "distinct (map i_hash (invitations invited_db))"
    by (simp_all add: invitable_def invited_rows invitation_row_def)
  from accept_single_use [OF rtranclp.rtrancl_refl this a] a show ?thesis by blast
qed

end
