(* ===== verification/Members.thy ===== *)
theory Members
  imports Users
begin

text \<open>
  Membership of projects (api/project_members.rs): list, add, change role and remove, each behind
  the project guard. \<open>member_step\<close> runs these handlers; its invariant for a project is that a
  project administrator remains. Deleting a user account is outside that relation: the cascade on
  \<open>project_members\<close> is shown to break the guarantee.
\<close>

section \<open>Handlers\<close>

record member_view =
  mv_id :: string
  mv_user :: string
  mv_username :: string
  mv_email :: string
  mv_role :: string
  mv_added :: time
  mv_added_by :: "string option"

definition members_list :: "auth_db \<Rightarrow> auth_user \<Rightarrow> string \<Rightarrow> app_error + member_view list" where
  "members_list db actor pid =
     (case enforce_project_role actor pid Viewer db of
        Inl e \<Rightarrow> Inl e
      | Inr _ \<Rightarrow>
          Inr (List.map_filter
            (\<lambda>m. map_option (\<lambda>u. \<lparr>mv_id = m_id m, mv_user = m_user m, mv_username = u_name u,
                    mv_email = u_email u, mv_role = m_role m, mv_added = m_added m,
                    mv_added_by = m_added_by m\<rparr>) (user_by_id db (m_user m)))
            (sort_key (\<lambda>m. (role_order_col (m_role m), m_added m))
              (filter (\<lambda>m. m_project m = pid) (members db)))))"

record add_request =
  ar_user_id :: "string option"
  ar_email :: "string option"
  ar_role :: string

text \<open>The first lock window of \<open>add\<close>: the guard and the resolution of the user.\<close>

definition member_resolve ::
  "auth_user \<Rightarrow> string \<Rightarrow> add_request \<Rightarrow> auth_db \<Rightarrow> app_error + (project_role \<times> string)" where
  "member_resolve actor pid body db =
     (case project_parse (ar_role body) of
        None \<Rightarrow> Inl (BadRequest (Te ''errors.project_members.unknown_project_role'' [(''v'', ar_role body)]))
      | Some role \<Rightarrow>
          (case enforce_project_role actor pid ProjectAdmin db of
             Inl e \<Rightarrow> Inl e
           | Inr _ \<Rightarrow>
               (case ar_user_id body of
                  Some uid \<Rightarrow>
                    (case user_by_id db uid of
                       None \<Rightarrow> Inl (NotFound (te ''errors.project_members.user_not_found''))
                     | Some u \<Rightarrow> Inr (role, u_id u))
                | None \<Rightarrow>
                    (case ar_email body of
                       Some email \<Rightarrow>
                         (case sql_first (\<lambda>u. lower (u_email u) = lower email) (users db) of
                            None \<Rightarrow> Inl (NotFound (te ''errors.project_members.user_with_email_not_found''))
                          | Some u \<Rightarrow> Inr (role, u_id u))
                     | None \<Rightarrow> Inl (BadRequest (te ''errors.project_members.user_id_or_email_required''))))))"

text \<open>The second lock window: \<open>INSERT OR IGNORE\<close>. A uniqueness conflict inserts nothing; a foreign
  key that does not resolve (project, member or the adder) is an error.\<close>

definition member_insert ::
  "time \<Rightarrow> string \<Rightarrow> string \<Rightarrow> string \<Rightarrow> project_role \<Rightarrow> string \<Rightarrow> auth_db \<Rightarrow> (app_error + string) \<times> auth_db" where
  "member_insert now mid actor_id pid role uid db =
     (if list_ex (\<lambda>m. m_id m = mid \<or> (m_project m = pid \<and> m_user m = uid)) (members db) then
        (Inl (Conflict (te ''errors.project_members.already_member'')), db)
      else if pid \<notin> set (projects db) \<or> user_by_id db uid = None \<or> user_by_id db actor_id = None then
        (Inl (DatabaseError ''FOREIGN KEY constraint failed''), db)
      else
        (Inr uid, db\<lparr>members := members db @
           [\<lparr>m_id = mid, m_project = pid, m_user = uid, m_role = project_as_str role, m_added = now,
             m_added_by = Some actor_id\<rparr>]\<rparr>))"

definition member_add ::
  "time \<Rightarrow> string \<Rightarrow> auth_user \<Rightarrow> string \<Rightarrow> add_request \<Rightarrow> auth_db \<Rightarrow> (app_error + string) \<times> auth_db" where
  "member_add now mid actor pid body db =
     (case member_resolve actor pid body db of
        Inl e \<Rightarrow> (Inl e, db)
      | Inr (role, uid) \<Rightarrow> member_insert now mid (au_id actor) pid role uid db)"

definition member_role :: "member_row \<Rightarrow> project_role" where
  "member_role m = (case project_parse (m_role m) of None \<Rightarrow> Viewer | Some r \<Rightarrow> r)"

definition member_update_role ::
  "auth_user \<Rightarrow> string \<Rightarrow> string \<Rightarrow> string \<Rightarrow> auth_db \<Rightarrow> (app_error + string) \<times> auth_db" where
  "member_update_role actor pid target role_s db =
     (case project_parse role_s of
        None \<Rightarrow> (Inl (BadRequest (Te ''errors.project_members.unknown_project_role'' [(''v'', role_s)])), db)
      | Some new_role \<Rightarrow>
          (case enforce_project_role actor pid ProjectAdmin db of
             Inl e \<Rightarrow> (Inl e, db)
           | Inr _ \<Rightarrow>
               (case membership_row db pid target of
                  None \<Rightarrow> (Inl (NotFound (te ''errors.project_members.membership_not_found'')), db)
                | Some m \<Rightarrow>
                    if member_role m = ProjectAdmin \<and> new_role \<noteq> ProjectAdmin \<and> count_admins db pid \<le> 1 then
                      (Inl (Conflict (te ''errors.project_members.cannot_demote_last_admin'')), db)
                    else
                      (Inr (project_as_str new_role),
                       db\<lparr>members := sql_update (\<lambda>m. m_project m = pid \<and> m_user m = target)
                            (\<lambda>m. m\<lparr>m_role := project_as_str new_role\<rparr>) (members db)\<rparr>))))"

definition member_remove ::
  "auth_user \<Rightarrow> string \<Rightarrow> string \<Rightarrow> auth_db \<Rightarrow> (app_error + unit) \<times> auth_db" where
  "member_remove actor pid target db =
     (case enforce_project_role actor pid ProjectAdmin db of
        Inl e \<Rightarrow> (Inl e, db)
      | Inr _ \<Rightarrow>
          (case membership_row db pid target of
             None \<Rightarrow> (Inl (NotFound (te ''errors.project_members.membership_not_found'')), db)
           | Some m \<Rightarrow>
               if member_role m = ProjectAdmin \<and> count_admins db pid \<le> 1 then
                 (Inl (Conflict (te ''errors.project_members.cannot_remove_last_admin'')), db)
               else
                 (Inr (), db\<lparr>members := sql_delete (\<lambda>m. m_project m = pid \<and> m_user m = target)
                                (members db)\<rparr>)))"

section \<open>Runs\<close>

text \<open>Requests on any project by any caller; an addition may insert long after it resolved.\<close>

inductive member_step :: "auth_db \<Rightarrow> auth_db \<Rightarrow> bool" where
  added: "member_step db (snd (member_insert now mid aid pid role uid db))"
| changed: "member_step db (snd (member_update_role actor pid target role_s db))"
| removed: "member_step db (snd (member_remove actor pid target db))"

inductive_cases member_stepE: "member_step db db'"

definition member_key :: "member_row \<Rightarrow> string \<times> string" where
  "member_key m = (m_project m, m_user m)"

definition member_inv :: "string \<Rightarrow> auth_db \<Rightarrow> bool" where
  "member_inv pid db \<longleftrightarrow> distinct (map member_key (members db)) \<and> 0 < sql_count (admin_row pid) (members db)"

interpretation pm: quorum_table member_key "admin_row pid" "\<lambda>t. distinct (map member_key t)" for pid
  by unfold_locales

section \<open>Lemmas\<close>

lemma key_predicate: "(\<lambda>m. m_project m = pid \<and> m_user m = uid) = (\<lambda>m. member_key m = (pid, uid))"
  by (auto simp: member_key_def)

lemma count_admins_two: "\<not> count_admins db pid \<le> 1 \<Longrightarrow> 2 \<le> sql_count (admin_row pid) (members db)"
proof -
  assume "\<not> count_admins db pid \<le> 1"
  then have "1 < unat (count_admins db pid)" by (simp add: word_le_nat_alt)
  also have "unat (count_admins db pid) \<le> sql_count (admin_row pid) (members db)"
    by (simp add: count_admins_def unat_of_nat)
  finally show ?thesis by simp
qed

lemma member_role_Admin: "member_role m = ProjectAdmin \<longleftrightarrow> m_role m = ''admin''"
  by (auto simp: member_role_def project_parse_def)

lemma membership_row_unique:
  "distinct (map member_key (members db)) \<Longrightarrow> membership_row db pid uid = Some m \<Longrightarrow>
   n \<in> set (members db) \<Longrightarrow> member_key n = (pid, uid) \<Longrightarrow> n = m"
  using membership_row_Some distinct_key_unique [of member_key "members db" n m]
  by (auto simp: member_key_def)

lemma member_insert_inv: "member_inv p db \<Longrightarrow> member_inv p (snd (member_insert now mid aid pid role uid db))"
  by (auto simp: member_inv_def member_insert_def member_key_def list_ex_iff intro: pm.append_keeps)

lemma member_update_inv:
  assumes iv: "member_inv p db"
  shows "member_inv p (snd (member_update_role actor pid target role_s db))"
proof (cases "snd (member_update_role actor pid target role_s db) = db")
  case False
  then obtain new m x where p: "project_parse role_s = Some new"
    and g: "enforce_project_role actor pid ProjectAdmin db = Inr x"
    and m: "membership_row db pid target = Some m"
    and n: "\<not> (member_role m = ProjectAdmin \<and> new \<noteq> ProjectAdmin \<and> count_admins db pid \<le> 1)"
    by (simp add: member_update_role_def split: option.splits sum.splits if_splits)
  then have two: "m_role m = ''admin'' \<longrightarrow> new = ProjectAdmin \<or> 2 \<le> sql_count (admin_row pid) (members db)"
    by (auto simp: member_role_Admin dest: count_admins_two)
  have r: "snd (member_update_role actor pid target role_s db) =
      db\<lparr>members := sql_update (\<lambda>m. member_key m = (pid, target)) (\<lambda>m. m\<lparr>m_role := project_as_str new\<rparr>) (members db)\<rparr>"
    using p g m n by (auto simp: member_update_role_def key_predicate)
  let ?f = "\<lambda>m :: member_row. m\<lparr>m_role := project_as_str new\<rparr>"
  have d: "distinct (map member_key (members db))" and c: "0 < sql_count (admin_row p) (members db)"
    using iv by (simp_all add: member_inv_def)
  have "0 < sql_count (admin_row p) (sql_update (\<lambda>m. member_key m = (pid, target)) ?f (members db))"
  proof (cases "p = pid \<and> m_role m = ''admin'' \<and> new \<noteq> ProjectAdmin")
    case True
    then show ?thesis using pm.update_keeps_one [OF d] two by simp
  next
    case False
    show ?thesis
    proof (rule pm.update_other_keeps [OF c])
      fix n assume "n \<in> set (members db)" "member_key n = (pid, target)"
      then have "n = m" using membership_row_unique [OF d m] by blast
      then show "\<not> admin_row p n \<or> admin_row p (?f n)"
        using False membership_row_Some [OF m] by (auto simp: admin_row_def)
    qed
  qed
  then show ?thesis using d by (simp add: r member_inv_def map_sql_update member_key_def)
qed (use iv in simp)

lemma member_remove_inv:
  assumes iv: "member_inv p db"
  shows "member_inv p (snd (member_remove actor pid target db))"
proof (cases "snd (member_remove actor pid target db) = db")
  case False
  then obtain m where m: "membership_row db pid target = Some m"
    and two: "m_role m = ''admin'' \<longrightarrow> 2 \<le> sql_count (admin_row pid) (members db)"
    and r: "snd (member_remove actor pid target db) =
      db\<lparr>members := sql_delete (\<lambda>m. member_key m = (pid, target)) (members db)\<rparr>"
    by (auto simp: member_remove_def member_role_Admin key_predicate
        split: option.splits sum.splits if_splits dest: count_admins_two)
  have d: "distinct (map member_key (members db))" and c: "0 < sql_count (admin_row p) (members db)"
    using iv by (simp_all add: member_inv_def)
  have "0 < sql_count (admin_row p) (sql_delete (\<lambda>m. member_key m = (pid, target)) (members db))"
  proof (cases "p = pid \<and> m_role m = ''admin''")
    case True
    then show ?thesis using pm.delete_keeps_one [OF d] two by simp
  next
    case False
    show ?thesis
    proof (rule pm.delete_other_keeps [OF c])
      fix n assume "n \<in> set (members db)" "member_key n = (pid, target)"
      then have "n = m" using membership_row_unique [OF d m] by blast
      then show "\<not> admin_row p n"
        using False membership_row_Some [OF m] by (auto simp: admin_row_def)
    qed
  qed
  then show ?thesis using d by (simp add: r member_inv_def sql_delete_def distinct_map_filter)
qed (use iv in simp)

interpretation member_runs: invariant_system member_step "member_inv pid" for pid
  by unfold_locales
     (auto elim!: member_stepE intro: member_insert_inv member_update_inv member_remove_inv)

section \<open>Properties\<close>

text \<open>C27: No run of the membership handlers, on any projects and by any callers, takes the last
  project administrator away from a project that has one.\<close>

theorem project_admin_remains:
  assumes "member_step\<^sup>*\<^sup>* db db'" "distinct (map (\<lambda>m. (m_project m, m_user m)) (members db))"
    and "0 < sql_count (admin_row pid) (members db)"
  shows "0 < sql_count (admin_row pid) (members db')"
  using member_runs.run_inv [OF assms(1), of pid] assms(2,3)
  by (simp add: member_inv_def member_key_def [abs_def])

text \<open>Deleting a user account does take it away: the foreign key cascades over the memberships
  and nothing checks the projects the user was the only administrator of.\<close>

theorem user_deletion_orphans_project:
  "\<exists>db. db_ok db \<and> sql_count (admin_row ''p1'') (members db) = 1 \<and>
     (let r = user_api env now ann_user (ReqRemove ''bob'') db
      in fst r = Inr () \<and> projects (snd r) = projects db \<and>
         sql_count (admin_row ''p1'') (members (snd r)) = 0)"
proof -
  let ?db = "\<lparr>users = [sample_user ''ann'' ''owner'', sample_user ''bob'' ''user''], sessions = [],
     api_tokens = [], invitations = [], members = [sample_member ''p1'' ''bob'' ''admin''],
     services = [], projects = [''p1''], peer_grants = [], settings = (\<lambda>_. None)\<rparr>"
  have "db_ok ?db \<and> sql_count (admin_row ''p1'') (members ?db) = 1"
    by (simp add: db_ok_def sample_user_def sample_member_def sql_simps admin_row_def)
  then show ?thesis
    by (intro exI [of _ ?db])
       (simp add: guarded_def require_global_admin_def require_global_role_def user_remove_def
          user_by_id_def sql_first_def sample_user_def stored_role_def global_parse_def ann_user_def
          delete_user_def sql_simps sample_member_def)
qed

text \<open>A peer core passes the project guard at administrator level but can never add a member: the
  row names the caller as \<open>added_by\<close>, and a peer's identity is no user.\<close>

theorem peer_cannot_add_member:
  assumes "\<And>u. u \<in> set (users db) \<Longrightarrow> \<not> starts_with (u_id u) ''peer:''"
  shows "can (peer_user g) (AdminProject pid) db \<and>
         (\<forall>x. fst (member_add now mid (peer_user g) pid body db) \<noteq> Inr x) \<and>
         snd (member_add now mid (peer_user g) pid body db) = db"
proof -
  have "user_by_id db (''peer:'' @ g_id g) = None"
    unfolding user_by_id_None
  proof (rule notI, erule imageE)
    fix u assume "''peer:'' @ g_id g = u_id u" "u \<in> set (users db)"
    then have "\<not> starts_with (''peer:'' @ g_id g) ''peer:''" using assms by (simp only: simp_thms)
    then show False by (simp only: starts_with_append simp_thms)
  qed
  then have "\<exists>e. member_add now mid (peer_user g) pid body db = (Inl e, db)"
    by (cases "member_resolve (peer_user g) pid body db") (auto simp: member_add_def member_insert_def)
  then show ?thesis by (auto simp: can_def)
qed

section \<open>Witnesses\<close>

lemma project_admin_remains_witness:
  "0 < sql_count (admin_row ''p'') (members (snd (member_remove ann_user ''p'' ''bob''
     (member_db\<lparr>members := [sample_member ''p'' ''bob'' ''viewer'', sample_member ''p'' ''eve'' ''admin'']\<rparr>))))"
  by (rule project_admin_remains, rule r_into_rtranclp, rule member_step.removed)
     (simp_all add: sample_member_def sql_simps admin_row_def)

lemma peer_cannot_add_member_witness:
  "can (peer_user (hd (peer_grants sample_db))) (AdminProject ''p1'') sample_db"
proof -
  have "\<not> starts_with (u_id u) ''peer:''" if "u \<in> set (users sample_db)" for u
    using that by (auto simp: sample_db_def sample_user_def starts_with_def)
  from peer_cannot_add_member [OF this] show ?thesis by blast
qed

end
