(* ===== verification/WgConfig.thy ===== *)
theory WgConfig
  imports Prelude
begin

text \<open>
  The whitelist the privileged helper puts on WireGuard configurations
  (pier-net-helper/src/protocol.rs): \<open>validate_wg_config_inner\<close> with its two entry points, and the
  injection of the node-local private key. A declarative reading of a configuration, line by line
  with the section in force, is given beside the loop; the lemmas show the loop decides exactly
  that reading, reports the first offending line, and that injection keeps a configuration valid.
\<close>

section \<open>The validator\<close>

datatype wg_section = NoSection | Interface | Peer

definition allowed_interface :: "string list" where
  "allowed_interface = [''PrivateKey'', ''Address'', ''ListenPort'', ''DNS'', ''MTU'', ''Table'']"

definition allowed_peer :: "string list" where
  "allowed_peer = [''PublicKey'', ''PresharedKey'', ''AllowedIPs'', ''Endpoint'', ''PersistentKeepalive'']"

text \<open>The error messages, each with its line number.\<close>

datatype wg_error =
    UnknownSection nat string
  | NotKeyValue nat
  | PrivateKeySupplied nat
  | OutsideSection nat
  | NotAllowed nat string

fun error_line :: "wg_error \<Rightarrow> nat" where
  "error_line (UnknownSection n _) = n"
| "error_line (NotKeyValue n) = n"
| "error_line (PrivateKeySupplied n) = n"
| "error_line (OutsideSection n) = n"
| "error_line (NotAllowed n _) = n"

text \<open>One iteration of the loop: an error, or the section for the next line.\<close>

definition validate_line :: "bool \<Rightarrow> wg_section \<Rightarrow> nat \<Rightarrow> string \<Rightarrow> wg_error + wg_section" where
  "validate_line forbid sec n raw =
     (let line = trim raw
      in if line = [] \<or> starts_with line ''#'' then Inr sec
         else if starts_with line ''['' \<and> ends_with line '']'' then
           (let name = take (length line - 2) (drop 1 line)
            in if name = ''Interface'' then Inr Interface
               else if name = ''Peer'' then Inr Peer
               else Inl (UnknownSection n name))
         else
           (case split_once (CHR ''='') line of
              None \<Rightarrow> Inl (NotKeyValue n)
            | Some (k, _) \<Rightarrow>
                (let key = trim k
                 in if forbid \<and> sec = Interface \<and> key = ''PrivateKey'' then Inl (PrivateKeySupplied n)
                    else (case sec of
                            NoSection \<Rightarrow> Inl (OutsideSection n)
                          | Interface \<Rightarrow>
                              if key \<notin> set allowed_interface then Inl (NotAllowed n key) else Inr sec
                          | Peer \<Rightarrow>
                              if key \<notin> set allowed_peer then Inl (NotAllowed n key) else Inr sec))))"

fun validate_loop :: "bool \<Rightarrow> wg_section \<Rightarrow> nat \<Rightarrow> string list \<Rightarrow> wg_error + unit" where
  "validate_loop forbid sec n [] = Inr ()"
| "validate_loop forbid sec n (raw # rest) =
     (case validate_line forbid sec n raw of
        Inl e \<Rightarrow> Inl e
      | Inr sec' \<Rightarrow> validate_loop forbid sec' (Suc n) rest)"

definition validate_wg_config_inner :: "string \<Rightarrow> bool \<Rightarrow> wg_error + unit" where
  "validate_wg_config_inner content forbid_private_key =
     validate_loop forbid_private_key NoSection 1 (lines content)"

definition validate_wg_config :: "string \<Rightarrow> wg_error + unit" where
  "validate_wg_config content = validate_wg_config_inner content False"

definition validate_wg_config_no_privkey :: "string \<Rightarrow> wg_error + unit" where
  "validate_wg_config_no_privkey content = validate_wg_config_inner content True"

section \<open>Injection of the private key\<close>

text \<open>The loop over the lines; the flag is \<open>injected\<close>, the result the text written.\<close>

fun inject_loop :: "string \<Rightarrow> bool \<Rightarrow> string list \<Rightarrow> string \<times> bool" where
  "inject_loop key injected [] = ([], injected)"
| "inject_loop key injected (line # rest) =
     (if \<not> injected \<and> trim line = ''[Interface]'' then
        (let (out, i) = inject_loop key True rest
         in (line @ [NL] @ ''PrivateKey = '' @ key @ [NL] @ out, i))
      else
        (let (out, i) = inject_loop key injected rest in (line @ [NL] @ out, i)))"

definition inject_private_key :: "string \<Rightarrow> string \<Rightarrow> string + string" where
  "inject_private_key content private_key =
     (let (out, injected) = inject_loop private_key False (lines content)
      in if \<not> injected then Inl ''config has no [Interface] section to inject PrivateKey into''
         else Inr out)"

section \<open>Declarative reading\<close>

text \<open>What a line is, from its trimmed text.\<close>

datatype line_kind = Blank | Header string | Directive string string | Garbage

definition line_kind :: "string \<Rightarrow> line_kind" where
  "line_kind raw =
     (let line = trim raw
      in if line = [] \<or> starts_with line ''#'' then Blank
         else if starts_with line ''['' \<and> ends_with line '']'' then Header (take (length line - 2) (drop 1 line))
         else (case split_once (CHR ''='') line of None \<Rightarrow> Garbage | Some (k, v) \<Rightarrow> Directive (trim k) (trim v)))"

fun header_section :: "line_kind \<Rightarrow> wg_section \<Rightarrow> wg_section" where
  "header_section (Header h) sec = (if h = ''Interface'' then Interface else if h = ''Peer'' then Peer else sec)"
| "header_section _ sec = sec"

definition whitelist :: "bool \<Rightarrow> wg_section \<Rightarrow> string set" where
  "whitelist forbid sec =
     (case sec of NoSection \<Rightarrow> {}
      | Interface \<Rightarrow> set allowed_interface - (if forbid then {''PrivateKey''} else {})
      | Peer \<Rightarrow> set allowed_peer)"

fun kind_ok :: "bool \<Rightarrow> wg_section \<Rightarrow> line_kind \<Rightarrow> bool" where
  "kind_ok forbid sec Blank = True"
| "kind_ok forbid sec (Header h) = (h = ''Interface'' \<or> h = ''Peer'')"
| "kind_ok forbid sec (Directive k v) = (k \<in> whitelist forbid sec)"
| "kind_ok forbid sec Garbage = False"

text \<open>The section in force before line \<open>i\<close> (from 0).\<close>

definition section_at :: "wg_section \<Rightarrow> string list \<Rightarrow> nat \<Rightarrow> wg_section" where
  "section_at sec ls i = foldl (\<lambda>s l. header_section (line_kind l) s) sec (take i ls)"

text \<open>The directives of a configuration with their sections, in order.\<close>

fun directives :: "wg_section \<Rightarrow> string list \<Rightarrow> (wg_section \<times> string \<times> string) list" where
  "directives sec [] = []"
| "directives sec (l # ls) =
     (case line_kind l of Directive k v \<Rightarrow> [(sec, k, v)] | _ \<Rightarrow> []) @
     directives (header_section (line_kind l) sec) ls"

section \<open>Lemmas\<close>

lemma validate_line_kind:
  "validate_line forbid sec n raw = Inr sec' \<longleftrightarrow>
     kind_ok forbid sec (line_kind raw) \<and> sec' = header_section (line_kind raw) sec"
  by (cases sec)
     (auto simp: validate_line_def line_kind_def Let_def whitelist_def split: option.splits)

lemma validate_line_error:
  "validate_line forbid sec n raw = Inl e \<Longrightarrow> error_line e = n"
  by (auto simp: validate_line_def Let_def split: if_splits option.splits wg_section.splits)

lemma section_at_0 [simp]: "section_at sec ls 0 = sec"
  by (simp add: section_at_def)

lemma section_at_Cons_Suc:
  "section_at sec (l # ls) (Suc i) = section_at (header_section (line_kind l) sec) ls i"
  by (simp add: section_at_def)

lemma all_less_Suc_shift: "(\<forall>i < Suc n. P i) \<longleftrightarrow> P 0 \<and> (\<forall>i < n. P (Suc i))"
  using All_less_Suc2 by blast

lemma validate_loop_ok:
  "validate_loop forbid sec n ls = Inr () \<longleftrightarrow>
     (\<forall>i < length ls. kind_ok forbid (section_at sec ls i) (line_kind (ls ! i)))"
proof (induction ls arbitrary: sec n)
  case (Cons l ls)
  show ?case
  proof (cases "validate_line forbid sec n l")
    case (Inl e)
    then have "\<not> kind_ok forbid sec (line_kind l)"
      using validate_line_kind [of forbid sec n l] by (metis sum.distinct(1))
    with Inl show ?thesis by (auto intro: exI [of _ 0])
  next
    case (Inr s)
    with validate_line_kind [of forbid sec n l s] show ?thesis
      by (simp add: Cons.IH all_less_Suc_shift section_at_Cons_Suc)
  qed
qed simp

lemma validate_loop_first_error:
  "validate_loop forbid sec n ls = Inl e \<Longrightarrow>
   \<exists>i < length ls. error_line e = n + i \<and> \<not> kind_ok forbid (section_at sec ls i) (line_kind (ls ! i)) \<and>
     (\<forall>j < i. kind_ok forbid (section_at sec ls j) (line_kind (ls ! j)))"
proof (induction ls arbitrary: sec n)
  case (Cons l ls)
  show ?case
  proof (cases "validate_line forbid sec n l")
    case (Inl e')
    then have "\<not> kind_ok forbid sec (line_kind l)"
      using validate_line_kind [of forbid sec n l] by (metis sum.distinct(1))
    with Inl Cons.prems show ?thesis using validate_line_error by (intro exI [of _ 0]) auto
  next
    case (Inr s)
    with Cons.prems have "validate_loop forbid s (Suc n) ls = Inl e" by simp
    from Cons.IH [OF this] obtain i where
      i: "i < length ls" "error_line e = Suc n + i"
         "\<not> kind_ok forbid (section_at s ls i) (line_kind (ls ! i))"
         "\<forall>j < i. kind_ok forbid (section_at s ls j) (line_kind (ls ! j))" by blast
    with Inr validate_line_kind [of forbid sec n l s] show ?thesis
      by (intro exI [of _ "Suc i"]) (simp add: section_at_Cons_Suc all_less_Suc_shift)
  qed
qed simp

text \<open>Only the trimmed lines matter.\<close>

lemma line_kind_trim: "trim a = trim b \<Longrightarrow> line_kind a = line_kind b"
  by (simp add: line_kind_def)

lemma validate_line_trim: "trim a = trim b \<Longrightarrow> validate_line forbid sec n a = validate_line forbid sec n b"
  by (simp add: validate_line_def)

lemma validate_loop_trim:
  "map trim ls = map trim ms \<Longrightarrow> validate_loop forbid sec n ls = validate_loop forbid sec n ms"
proof (induction ls arbitrary: ms sec n)
  case (Cons l ls)
  then obtain m ms' where "ms = m # ms'" "trim l = trim m" "map trim ls = map trim ms'" by (cases ms) auto
  with Cons.IH show ?case by (auto simp: validate_line_trim [of l m] split: sum.splits)
qed simp

lemma directives_trim: "map trim ls = map trim ms \<Longrightarrow> directives sec ls = directives sec ms"
proof (induction ls arbitrary: ms sec)
  case (Cons l ls)
  then obtain m ms' where "ms = m # ms'" "trim l = trim m" "map trim ls = map trim ms'" by (cases ms) auto
  with Cons.IH show ?case by (simp add: line_kind_trim [of l m])
qed simp

lemma trim_end_snoc_ws: "is_ws c \<Longrightarrow> trim_end (s @ [c]) = trim_end s"
  by (simp add: trim_end_def)

lemma trim_snoc_ws: "is_ws c \<Longrightarrow> trim (s @ [c]) = trim s"
proof -
  assume c: "is_ws c"
  show ?thesis
  proof (cases "trim_start s = []")
    case True
    then have "\<forall>x \<in> set s. is_ws x" by (simp add: trim_start_eq_Nil)
    then have "\<forall>x \<in> set (s @ [c]). is_ws x" using c by simp
    then show ?thesis using \<open>\<forall>x \<in> set s. is_ws x\<close> by (simp only: trim_eq_Nil [THEN iffD2])
  next
    case False
    then have "dropWhile is_ws (s @ [c]) = dropWhile is_ws s @ [c]"
      by (simp add: trim_start_def dropWhile_append)
    then show ?thesis using c by (simp add: trim_def trim_start_def trim_end_snoc_ws)
  qed
qed

lemma trim_chomp_cr: "trim (chomp_cr l) = trim l"
proof (cases "l \<noteq> [] \<and> last l = CR")
  case True
  then have "l = butlast l @ [CR]" by (metis append_butlast_last_id)
  moreover have "is_ws CR" by (simp add: is_ws_def)
  ultimately show ?thesis using True trim_snoc_ws [of CR "butlast l"] by (simp add: chomp_cr_def)
qed (auto simp: chomp_cr_def)

lemma lines_line_chomp: "NL \<notin> set l \<Longrightarrow> lines (l @ NL # s) = chomp_cr l # lines s"
  using lines_acc_line [of l "[]" s] by (simp add: lines_def)

lemma trim_lines_unlines:
  "list_all (\<lambda>l. NL \<notin> set l) ls \<Longrightarrow> map trim (lines (unlines ls)) = map trim ls"
  by (induction ls) (simp_all add: unlines_Cons lines_line_chomp trim_chomp_cr)

text \<open>The injected text as a list of lines.\<close>

fun inject_lines :: "string \<Rightarrow> bool \<Rightarrow> string list \<Rightarrow> string list" where
  "inject_lines key injected [] = []"
| "inject_lines key injected (l # ls) =
     (if \<not> injected \<and> trim l = ''[Interface]'' then l # (''PrivateKey = '' @ key) # inject_lines key True ls
      else l # inject_lines key injected ls)"

lemma inject_loop_lines:
  "inject_loop key injected ls =
     (unlines (inject_lines key injected ls), injected \<or> ''[Interface]'' \<in> trim ` set ls)"
  by (induction ls arbitrary: injected) (auto simp: unlines_Cons Let_def)

lemma inject_private_key_Inr:
  "inject_private_key content key = Inr out \<longleftrightarrow>
     ''[Interface]'' \<in> trim ` set (lines content) \<and> out = unlines (inject_lines key False (lines content))"
  by (auto simp: inject_private_key_def inject_loop_lines)

lemma inject_lines_done: "inject_lines key True ls = ls"
  by (induction ls) simp_all

lemma inject_lines_newline:
  "list_all (\<lambda>l. NL \<notin> set l) ls \<Longrightarrow> NL \<notin> set key \<Longrightarrow> list_all (\<lambda>l. NL \<notin> set l) (inject_lines key i ls)"
  by (induction ls arbitrary: i) auto

lemma lines_newline: "list_all (\<lambda>l. NL \<notin> set l) (lines s)"
  using lines_no_newline by (auto simp: list_all_iff)

lemma interface_line_kind: "trim l = ''[Interface]'' \<Longrightarrow> line_kind l = Header ''Interface''"
  by (simp add: line_kind_def starts_with_def ends_with_def)

lemma trim_append_end:
  "s \<noteq> [] \<Longrightarrow> \<not> is_ws (last s) \<Longrightarrow> trim_end (r @ s) = r @ s"
  using trim_end_id [of "r @ s"] by simp

lemma trimmed_ends: "trim s = s \<Longrightarrow> s \<noteq> [] \<Longrightarrow> \<not> is_ws (hd s) \<and> \<not> is_ws (last s)"
proof -
  assume t: "trim s = s" and ne: "s \<noteq> []"
  have "\<not> is_ws (last s)" using trim_end_nonempty [of "trim_start s"] t ne by (simp add: trim_def)
  moreover have "\<not> is_ws (hd s)"
  proof (cases s)
    case (Cons c cs)
    show ?thesis
    proof
      assume "is_ws (hd s)"
      then have "length (trim_start s) \<le> length cs"
        using Cons by (simp add: trim_start_def length_dropWhile_le)
      moreover have "length (trim_end x) \<le> length x" for x
        using length_dropWhile_le [of is_ws "rev x"] by (simp add: trim_end_def)
      ultimately have "length (trim s) \<le> length cs" unfolding trim_def using le_trans by blast
      with t Cons show False by simp
    qed
  qed (use ne in simp)
  ultimately show ?thesis by blast
qed

lemma privkey_line_kind:
  assumes "trim key = key" "key \<noteq> []"
  shows "line_kind (''PrivateKey = '' @ key) = Directive ''PrivateKey'' key"
proof -
  have ends: "\<not> is_ws (hd key)" "\<not> is_ws (last key)" using trimmed_ends assms by auto
  have t: "trim (''PrivateKey = '' @ key) = ''PrivateKey = '' @ key"
    by (rule trim_id) (use assms ends in \<open>simp add: is_ws_def\<close>)
  have s: "split_once (CHR ''='') (''PrivateKey = '' @ key) = Some (''PrivateKey '', '' '' @ key)"
    by simp
  have k: "trim ''PrivateKey '' = ''PrivateKey''"
    using trim_snoc_ws [of "CHR '' ''" "''PrivateKey''"] trim_id [of "''PrivateKey''"] by (simp add: is_ws_def)
  have v: "trim ('' '' @ key) = key"
    using assms by (simp add: trim_def trim_start_def is_ws_def)
  show ?thesis
    unfolding line_kind_def Let_def t s by (simp add: starts_with_def k v [simplified])
qed

lemma validate_loop_Cons:
  "validate_loop forbid sec n (l # ls) = Inr () \<longleftrightarrow>
     kind_ok forbid sec (line_kind l) \<and>
     validate_loop forbid (header_section (line_kind l) sec) (Suc n) ls = Inr ()"
proof (cases "validate_line forbid sec n l")
  case (Inl e)
  then show ?thesis using validate_line_kind [of forbid sec n l] by auto
next
  case (Inr s)
  then show ?thesis using validate_line_kind [of forbid sec n l s] by auto
qed

lemma validate_loop_number: "validate_loop f sec n ls = Inr () \<longleftrightarrow> validate_loop f sec m ls = Inr ()"
  by (simp add: validate_loop_ok)

lemma validate_loop_Cons0:
  "validate_loop forbid sec 0 (l # ls) = Inr () \<longleftrightarrow>
     kind_ok forbid sec (line_kind l) \<and>
     validate_loop forbid (header_section (line_kind l) sec) 0 ls = Inr ()"
  using validate_loop_Cons [of forbid sec 0 l ls]
    validate_loop_number [of forbid "header_section (line_kind l) sec" "Suc 0" ls 0] by simp

lemma kind_ok_weaken: "kind_ok True sec k \<Longrightarrow> kind_ok False sec k"
  by (cases k; cases sec) (auto simp: whitelist_def)

lemma validate_loop_weaken: "validate_loop True sec n ls = Inr () \<Longrightarrow> validate_loop False sec n ls = Inr ()"
  by (auto simp: validate_loop_ok intro: kind_ok_weaken)

lemma whitelist_privkey: "''PrivateKey'' \<in> whitelist f sec \<longleftrightarrow> \<not> f \<and> sec = Interface"
  by (cases sec) (auto simp: whitelist_def allowed_interface_def allowed_peer_def)

lemma inject_lines_valid:
  "validate_loop True sec 0 ls = Inr () \<Longrightarrow> trim key = key \<Longrightarrow> key \<noteq> [] \<Longrightarrow>
   validate_loop False sec 0 (inject_lines key i ls) = Inr ()"
proof (induction ls arbitrary: sec i)
  case (Cons l ls)
  from Cons.prems(1) have l: "kind_ok True sec (line_kind l)"
    and ls: "validate_loop True (header_section (line_kind l) sec) 0 ls = Inr ()"
    by (simp_all only: validate_loop_Cons0)
  note IH = Cons.IH [OF ls Cons.prems(2,3)]
  show ?case
  proof (cases "\<not> i \<and> trim l = ''[Interface]''")
    case True
    then have k: "line_kind l = Header ''Interface''" using interface_line_kind by blast
    show ?thesis
      using True IH [of True] privkey_line_kind [OF Cons.prems(2,3)]
      by (simp add: validate_loop_Cons0 k whitelist_privkey del: validate_loop.simps)
  next
    case False
    then have "inject_lines key i (l # ls) = l # inject_lines key i ls" by auto
    then show ?thesis
      using IH [of i] kind_ok_weaken [OF l] by (simp add: validate_loop_Cons0 del: validate_loop.simps)
  qed
qed simp

definition is_privkey :: "wg_section \<times> string \<times> string \<Rightarrow> bool" where
  "is_privkey d = (fst (snd d) = ''PrivateKey'')"

lemma valid_no_privkey:
  "validate_loop True sec 0 ls = Inr () \<Longrightarrow> filter is_privkey (directives sec ls) = []"
proof (induction ls arbitrary: sec)
  case (Cons l ls)
  then show ?case
    by (cases "line_kind l")
       (auto simp: validate_loop_Cons0 is_privkey_def whitelist_privkey simp del: validate_loop.simps)
qed simp

lemma inject_lines_directives:
  "validate_loop True sec 0 ls = Inr () \<Longrightarrow> trim key = key \<Longrightarrow> key \<noteq> [] \<Longrightarrow>
   ''[Interface]'' \<in> trim ` set ls \<Longrightarrow>
   filter is_privkey (directives sec (inject_lines key False ls)) = [(Interface, ''PrivateKey'', key)] \<and>
   filter (\<lambda>d. \<not> is_privkey d) (directives sec (inject_lines key False ls)) = directives sec ls"
proof (induction ls arbitrary: sec)
  case (Cons l ls)
  from Cons.prems(1) have l: "kind_ok True sec (line_kind l)"
    and ls: "validate_loop True (header_section (line_kind l) sec) 0 ls = Inr ()"
    by (simp_all only: validate_loop_Cons0)
  have rest: "filter is_privkey (directives s ms) = [] \<Longrightarrow> filter (\<lambda>d. \<not> is_privkey d) (directives s ms) = directives s ms" for s ms
    by (simp add: filter_empty_conv)
  show ?case
  proof (cases "trim l = ''[Interface]''")
    case True
    then have k: "line_kind l = Header ''Interface''" using interface_line_kind by blast
    have "filter is_privkey (directives Interface ls) = []" using valid_no_privkey ls k by simp
    then show ?thesis
      using True rest privkey_line_kind [OF Cons.prems(2,3)] by (auto simp: k inject_lines_done is_privkey_def [of "(_, ''PrivateKey'', _)"])
  next
    case False
    then have "''[Interface]'' \<in> trim ` set ls" using Cons.prems(4) by auto
    note IH = Cons.IH [OF ls Cons.prems(2,3) this]
    have "inject_lines key False (l # ls) = l # inject_lines key False ls" using False by simp
    moreover have "\<not> is_privkey (sec, k, v)" if "line_kind l = Directive k v" for k v
      using l that by (auto simp: is_privkey_def whitelist_privkey)
    ultimately show ?thesis using IH by (simp split: line_kind.split)
  qed
qed simp

lemma injection_facts:
  assumes "validate_wg_config_no_privkey content = Inr ()" "inject_private_key content key = Inr out"
    and "trim key = key" "key \<noteq> []" "NL \<notin> set key"
  shows "validate_wg_config out = Inr () \<and>
    filter is_privkey (directives NoSection (lines out)) = [(Interface, ''PrivateKey'', key)] \<and>
    filter (\<lambda>d. \<not> is_privkey d) (directives NoSection (lines out)) = directives NoSection (lines content)"
proof -
  let ?ls = "lines content" and ?ms = "inject_lines key False (lines content)"
  have out: "out = unlines ?ms" and iface: "''[Interface]'' \<in> trim ` set ?ls"
    using assms(2) by (simp_all add: inject_private_key_Inr)
  have "list_all (\<lambda>l. NL \<notin> set l) ?ms" by (rule inject_lines_newline [OF lines_newline assms(5)])
  then have t: "map trim (lines out) = map trim ?ms" using out trim_lines_unlines by simp
  have v: "validate_loop True NoSection 0 ?ls = Inr ()"
    using assms(1) validate_loop_number [of True NoSection 1 ?ls 0]
    by (simp add: validate_wg_config_no_privkey_def validate_wg_config_inner_def)
  have "validate_wg_config out = Inr ()"
    using inject_lines_valid [OF v assms(3,4), of False] validate_loop_trim [OF t, of False NoSection 1]
      validate_loop_number [of False NoSection 0 ?ms 1]
    by (simp add: validate_wg_config_def validate_wg_config_inner_def)
  then show ?thesis
    using inject_lines_directives [OF v assms(3,4) iface] directives_trim [OF t, of NoSection] by simp
qed

section \<open>Properties\<close>

text \<open>C28: The validator accepts a configuration exactly when every line is blank, a comment, one of
  the two section headers, or a directive whose name is whitelisted for the section in force.\<close>

theorem validator_decides:
  "validate_wg_config_inner content forbid = Inr () \<longleftrightarrow>
     list_all (\<lambda>i. kind_ok forbid (section_at NoSection (lines content) i) (line_kind (lines content ! i)))
       [0..<length (lines content)]"
  by (auto simp: validate_wg_config_inner_def validate_loop_ok list_all_iff)

text \<open>A rejection names the first offending line, counted from one: that line is not acceptable
  in its section and all lines before it are.\<close>

theorem validator_first_error:
  assumes "validate_wg_config_inner content forbid = Inl e"
  shows "\<exists>i < length (lines content). error_line e = i + 1 \<and>
     \<not> kind_ok forbid (section_at NoSection (lines content) i) (line_kind (lines content ! i)) \<and>
     (\<forall>j < i. kind_ok forbid (section_at NoSection (lines content) j) (line_kind (lines content ! j)))"
  using validate_loop_first_error [of forbid NoSection 1 "lines content" e] assms
  by (auto simp: validate_wg_config_inner_def)

text \<open>Injecting the node-local key into a configuration accepted from the wire gives one that
  passes the full whitelist, whose only private key is the local one, in an interface section, and
  whose other directives are those of the input in the same order.\<close>

theorem injection_safe:
  assumes "validate_wg_config_no_privkey content = Inr ()" "inject_private_key content key = Inr out"
    and "trim key = key" "key \<noteq> []" "NL \<notin> set key"
  shows "validate_wg_config out = Inr () \<and>
    filter is_privkey (directives NoSection (lines out)) = [(Interface, ''PrivateKey'', key)] \<and>
    filter (\<lambda>d. \<not> is_privkey d) (directives NoSection (lines out)) = directives NoSection (lines content)"
  by (rule injection_facts [OF assms])

section \<open>Witnesses\<close>

definition sample_conf :: string where
  "sample_conf = ''[Interface]'' @ [NL] @ ''MTU = 1'' @ [NL]"

lemma sample_conf_lines: "lines sample_conf = [''[Interface]'', ''MTU = 1'']"
  by code_simp

lemma sample_conf_valid: "validate_wg_config_no_privkey sample_conf = Inr ()"
  by code_simp

lemma validator_first_error_witness:
  "\<exists>e. validate_wg_config_inner (''[Peer]'' @ [NL] @ ''PostUp = x'') False = Inl e \<and> error_line e = 2"
proof -
  have e: "validate_wg_config_inner (''[Peer]'' @ [NL] @ ''PostUp = x'') False = Inl (NotAllowed 2 ''PostUp'')"
    by code_simp
  from validator_first_error [OF e] e show ?thesis by auto
qed

lemma sample_injected:
  "\<exists>out. inject_private_key sample_conf ''k'' = Inr out \<and> validate_wg_config out = Inr ()"
proof -
  obtain out where out: "inject_private_key sample_conf ''k'' = Inr out"
    using inject_private_key_Inr [of sample_conf "''k''"] sample_conf_lines
    by (auto simp: trim_def trim_start_def trim_end_def is_ws_def)
  have "trim ''k'' = ''k''" by code_simp
  from injection_facts [OF sample_conf_valid out this] out show ?thesis by auto
qed

lemma injection_safe_witness:
  "\<exists>out. inject_private_key sample_conf ''k'' = Inr out \<and>
     filter is_privkey (directives NoSection (lines out)) = [(Interface, ''PrivateKey'', ''k'')]"
proof -
  obtain out where out: "inject_private_key sample_conf ''k'' = Inr out"
    using sample_injected by blast
  have "trim ''k'' = ''k''" by code_simp
  from injection_safe [OF sample_conf_valid out this] out show ?thesis by auto
qed

end
