(* ===== verification/Helper.thy ===== *)
theory Helper
  imports WgConfig
begin

text \<open>
  The privileged WireGuard helper (pier-net-helper/src/main.rs): its operations on the two
  configuration files, the node key, the interface and the pending rollback, the dispatcher and
  the reply to a request line, the rollback timer as a step of its own, the interleaving of
  concurrent connections, the self-update of the core binary, and the group lookup. The programs
  it runs (\<open>wg\<close>, \<open>wg-quick\<close>, \<open>ip\<close>) are the fields of \<open>tools\<close>, over an interface state of
  their own; reads and copies of the helper's files are taken to succeed.
\<close>

section \<open>State and tools\<close>

text \<open>The files wg0.conf, wg0.conf.bak and wg0.privkey, the interface, and the deadline of the
  armed rollback.\<close>

record 'i helper =
  conf :: "string option"
  bak :: "string option"
  privkey :: "string option"
  iface :: 'i
  timer :: "nat option"

text \<open>The exit status and output of each command; \<open>None\<close> is a failure.\<close>

record 'i tools =
  wg_version :: bool
  wg_genkey :: "string option"
  wg_pubkey :: "string \<Rightarrow> string option"
  wg_strip :: "string option \<Rightarrow> string option"
  wg_sync :: "string \<Rightarrow> 'i \<Rightarrow> bool \<times> 'i"
  wg_show :: "'i \<Rightarrow> bool"
  wg_dump :: "'i \<Rightarrow> string option"
  wg_allowed_ips :: "'i \<Rightarrow> string option"
  wg_up :: "string option \<Rightarrow> 'i \<Rightarrow> bool \<times> 'i"
  wg_down :: "'i \<Rightarrow> 'i"
  ip_route :: "string \<Rightarrow> 'i \<Rightarrow> 'i"

datatype reply =
    RDone
  | RPublicKey string
  | RArmed nat
  | RSynced
  | RInterfaceDown
  | RDump string

type_synonym 'i outcome = "(string + reply) \<times> 'i helper"

definition max_rollback_after_sec :: nat where
  "max_rollback_after_sec = 600"

section \<open>Operations\<close>

definition op_install_wireguard :: "'i tools \<Rightarrow> 'i helper \<Rightarrow> 'i outcome" where
  "op_install_wireguard T st =
     (if \<not> wg_version T then (Inl ''WireGuard tools are not installed on this node'', st)
      else (Inr RDone, st))"

definition derive_pubkey :: "'i tools \<Rightarrow> string \<Rightarrow> string + string" where
  "derive_pubkey T private_key =
     (case wg_pubkey T (private_key @ [NL]) of
        None \<Rightarrow> Inl ''wg pubkey failed''
      | Some out \<Rightarrow> Inr (trim out))"

definition stored_key :: "'i helper \<Rightarrow> string option" where
  "stored_key st =
     (case privkey st of
        None \<Rightarrow> None
      | Some s \<Rightarrow> (let k = trim s in if k = [] then None else Some k))"

definition op_generate_keypair :: "'i tools \<Rightarrow> 'i helper \<Rightarrow> 'i outcome" where
  "op_generate_keypair T st =
     (case (case stored_key st of
              Some key \<Rightarrow> (Inr key, st)
            | None \<Rightarrow>
                (case wg_genkey T of
                   None \<Rightarrow> (Inl ''wg genkey failed'', st)
                 | Some out \<Rightarrow>
                     (let key = trim out
                      in if key = [] then (Inl ''wg genkey produced empty output'', st)
                         else (Inr key, st\<lparr>privkey := Some (key @ [NL])\<rparr>)))) of
        (Inl e, st1) \<Rightarrow> (Inl e, st1)
      | (Inr key, st1) \<Rightarrow>
          (case derive_pubkey T key of
             Inl e \<Rightarrow> (Inl e, st1)
           | Inr pk \<Rightarrow> (Inr (RPublicKey pk), st1)))"

definition op_write_config :: "string \<Rightarrow> 'i helper \<Rightarrow> 'i outcome" where
  "op_write_config content st =
     (case validate_wg_config_no_privkey content of
        Inl e \<Rightarrow> (Inl ''rejecting wg0.conf'', st)
      | Inr _ \<Rightarrow>
          (case stored_key st of
             None \<Rightarrow> (Inl ''no local WireGuard private key'', st)
           | Some key \<Rightarrow>
               (case inject_private_key content key of
                  Inl e \<Rightarrow> (Inl e, st)
                | Inr out \<Rightarrow>
                    (case validate_wg_config out of
                       Inl e \<Rightarrow> (Inl ''rejecting injected wg0.conf'', st)
                     | Inr _ \<Rightarrow> (Inr RDone, st\<lparr>conf := Some out\<rparr>)))))"

definition route_line :: "'i tools \<Rightarrow> 'i \<Rightarrow> string \<Rightarrow> 'i" where
  "route_line T i line =
     foldl (\<lambda>i cidr. if cidr = ''(none)'' then i else ip_route T cidr i) i (drop 1 (split_whitespace line))"

definition sync_routes :: "'i tools \<Rightarrow> 'i \<Rightarrow> 'i" where
  "sync_routes T i =
     (case wg_allowed_ips T i of
        None \<Rightarrow> i
      | Some text \<Rightarrow> foldl (route_line T) i (lines text))"

definition wg_syncconf :: "'i tools \<Rightarrow> 'i helper \<Rightarrow> (string + unit) \<times> 'i helper" where
  "wg_syncconf T st =
     (case wg_strip T (conf st) of
        None \<Rightarrow> (Inl ''wg-quick strip failed'', st)
      | Some stripped \<Rightarrow>
          (let (ok, i) = wg_sync T stripped (iface st)
           in if \<not> ok then (Inl ''wg syncconf failed'', st\<lparr>iface := i\<rparr>)
              else (Inr (), st\<lparr>iface := sync_routes T i\<rparr>)))"

definition cancel_pending_rollback :: "'i helper \<Rightarrow> 'i helper" where
  "cancel_pending_rollback st = st\<lparr>timer := None\<rparr>"

text \<open>\<open>apply\<close> after its snapshot: the interface takes the configuration, then the timer is armed.\<close>

definition apply_finish :: "'i tools \<Rightarrow> nat \<Rightarrow> nat \<Rightarrow> 'i helper \<Rightarrow> 'i outcome" where
  "apply_finish T now rollback_after_sec st =
     (case wg_syncconf T st of
        (Inl e, st1) \<Rightarrow> (Inl e, st1)
      | (Inr _, st1) \<Rightarrow>
          (Inr (RArmed rollback_after_sec), st1\<lparr>timer := Some (now + rollback_after_sec)\<rparr>))"

definition op_apply :: "'i tools \<Rightarrow> nat \<Rightarrow> nat \<Rightarrow> 'i helper \<Rightarrow> 'i outcome" where
  "op_apply T now rollback_after_sec st =
     (if rollback_after_sec = 0 \<or> rollback_after_sec > max_rollback_after_sec then
        (Inl ''rollback_after_sec must be 1..=600'', st)
      else
        (let st1 = cancel_pending_rollback st;
             st2 = (case conf st1 of
                      Some c \<Rightarrow> st1\<lparr>bak := Some c\<rparr>
                    | None \<Rightarrow> st1\<lparr>bak := None\<rparr>)
         in apply_finish T now rollback_after_sec st2))"

definition op_commit :: "'i helper \<Rightarrow> 'i outcome" where
  "op_commit st = (Inr RDone, (cancel_pending_rollback st)\<lparr>bak := None\<rparr>)"

definition perform_rollback :: "'i tools \<Rightarrow> 'i helper \<Rightarrow> (string + unit) \<times> 'i helper" where
  "perform_rollback T st =
     (case bak st of
        Some b \<Rightarrow> wg_syncconf T (st\<lparr>conf := Some b, bak := None\<rparr>)
      | None \<Rightarrow> (Inr (), st\<lparr>conf := None, iface := wg_down T (iface st)\<rparr>))"

definition op_rollback :: "'i tools \<Rightarrow> 'i helper \<Rightarrow> 'i outcome" where
  "op_rollback T st =
     (case perform_rollback T (cancel_pending_rollback st) of
        (Inl e, st1) \<Rightarrow> (Inl e, st1)
      | (Inr _, st1) \<Rightarrow> (Inr RDone, st1))"

definition op_up :: "'i tools \<Rightarrow> 'i helper \<Rightarrow> 'i outcome" where
  "op_up T st =
     (if wg_show T (iface st) then
        (case wg_syncconf T st of
           (Inl e, st1) \<Rightarrow> (Inl e, st1)
         | (Inr _, st1) \<Rightarrow> (Inr RSynced, st1))
      else
        (let (ok, i) = wg_up T (conf st) (iface st)
         in if \<not> ok then (Inl ''wg-quick up wg0 failed'', st\<lparr>iface := i\<rparr>)
            else (Inr RDone, st\<lparr>iface := i\<rparr>)))"

definition op_down :: "'i tools \<Rightarrow> 'i helper \<Rightarrow> 'i outcome" where
  "op_down T st = (Inr RDone, st\<lparr>iface := wg_down T (iface st)\<rparr>)"

definition op_status :: "'i tools \<Rightarrow> 'i helper \<Rightarrow> 'i outcome" where
  "op_status T st =
     (case wg_dump T (iface st) of
        None \<Rightarrow> (Inr RInterfaceDown, st)
      | Some text \<Rightarrow> (Inr (RDump text), st))"

definition op_uninstall :: "'i tools \<Rightarrow> 'i helper \<Rightarrow> 'i outcome" where
  "op_uninstall T st =
     (Inr RDone, (cancel_pending_rollback st)\<lparr>iface := wg_down T (iface st), conf := None, bak := None,
                   privkey := None\<rparr>)"

text \<open>When the timer runs out, its task rolls back and clears the slot.\<close>

definition timer_fires :: "'i tools \<Rightarrow> 'i helper \<Rightarrow> 'i helper" where
  "timer_fires T st = (snd (perform_rollback T st))\<lparr>timer := None\<rparr>"

section \<open>Self-update\<close>

text \<open>The staged binary, the live one and its backup; \<open>copy_ok\<close> is whether the copy succeeds.\<close>

record binaries =
  staged :: "8 word list option"
  target :: "8 word list option"
  backup :: "8 word list option"

definition op_self_update :: "bool \<Rightarrow> binaries \<Rightarrow> (string + bool) \<times> binaries" where
  "op_self_update copy_ok st =
     (case staged st of
        None \<Rightarrow> (Inl ''staged binary not found'', st)
      | Some b \<Rightarrow>
          if length b < 1024 then (Inl ''staged binary too small'', st)
          else if take 4 b \<noteq> [0x7f, 0x45, 0x4c, 0x46] then
            (Inl ''staged binary is not an ELF executable'', st)
          else
            (let st1 = st\<lparr>backup := None\<rparr>;
                 st2 = (case target st1 of
                          Some t \<Rightarrow> st1\<lparr>target := None, backup := Some t\<rparr>
                        | None \<Rightarrow> st1)
             in if \<not> copy_ok then (Inl ''installing new binary'', st2)
                else (Inr True, st2\<lparr>target := Some b\<rparr>)))"

section \<open>Dispatch\<close>

datatype op =
    InstallWireguard
  | GenerateKeypair
  | WriteConfig string
  | Apply nat
  | Commit
  | Rollback
  | Up
  | Down
  | Status
  | Uninstall

text \<open>The dispatcher on the operations of the mesh; \<open>SelfUpdate\<close> works on other files.\<close>

fun dispatch :: "'i tools \<Rightarrow> nat \<Rightarrow> op \<Rightarrow> 'i helper \<Rightarrow> 'i outcome" where
  "dispatch T now InstallWireguard st = op_install_wireguard T st"
| "dispatch T now GenerateKeypair st = op_generate_keypair T st"
| "dispatch T now (WriteConfig content) st = op_write_config content st"
| "dispatch T now (Apply n) st = op_apply T now n st"
| "dispatch T now Commit st = op_commit st"
| "dispatch T now Rollback st = op_rollback T st"
| "dispatch T now Up st = op_up T st"
| "dispatch T now Down st = op_down T st"
| "dispatch T now Status st = op_status T st"
| "dispatch T now Uninstall st = op_uninstall T st"

record response =
  rs_id :: string
  rs_ok :: bool
  rs_result :: "reply option"
  rs_error :: "string option"

text \<open>One connection: a request line parsed by serde_json (\<open>parse\<close>), one response. An empty read
  is a closed peer.\<close>

definition handle_conn ::
  "(string \<Rightarrow> string + string \<times> op) \<Rightarrow> 'i tools \<Rightarrow> nat \<Rightarrow> string \<Rightarrow> 'i helper \<Rightarrow> response option \<times> 'i helper" where
  "handle_conn parse T now line st =
     (if line = [] then (None, st)
      else (case parse (trim_end line) of
              Inl e \<Rightarrow> (Some \<lparr>rs_id = [], rs_ok = False, rs_result = None,
                              rs_error = Some (''bad request: '' @ e)\<rparr>, st)
            | Inr (rid, o_p) \<Rightarrow>
                (case dispatch T now o_p st of
                   (Inr v, st1) \<Rightarrow> (Some \<lparr>rs_id = rid, rs_ok = True, rs_result = Some v, rs_error = None\<rparr>, st1)
                 | (Inl e, st1) \<Rightarrow> (Some \<lparr>rs_id = rid, rs_ok = False, rs_result = None, rs_error = Some e\<rparr>, st1))))"

section \<open>Group lookup\<close>

fun group_gid_lines :: "string \<Rightarrow> string list \<Rightarrow> nat option" where
  "group_gid_lines name [] = None"
| "group_gid_lines name (line # rest) =
     (let fields = split_on (CHR '':'') line
      in if hd fields \<noteq> name then group_gid_lines name rest
         else (case (if length fields > 2 then parse_uint (2 ^ 32 - 1) (fields ! 2) else None) of
                 Some gid \<Rightarrow> Some gid
               | None \<Rightarrow> group_gid_lines name rest))"

definition group_gid :: "string option \<Rightarrow> string \<Rightarrow> nat option" where
  "group_gid etc_group name =
     (case etc_group of None \<Rightarrow> None | Some contents \<Rightarrow> group_gid_lines name (lines contents))"

section \<open>Runs\<close>

text \<open>
  Every connection is served by a task of its own (main.rs, \<open>handle_conn\<close>), so operations
  interleave between two file calls. The two calls that are not one action of the file system,
  \<open>fs::write\<close> to wg0.conf.new and \<open>fs::copy\<close> to wg0.conf.bak, are taken apart: each empties its
  file and then fills it piece by piece. \<open>writing\<close> and \<open>copying\<close> hold the text on its way and
  how much of it is there.
\<close>

record 'i helper_run =
  hs :: "'i helper"
  conf_new :: "string option"
  writing :: "(string \<times> nat) option"
  copying :: "(string \<times> nat) option"

text \<open>Writing \<open>chunk\<close> at offset \<open>n\<close> of a file.\<close>

definition overlay :: "string \<Rightarrow> nat \<Rightarrow> string \<Rightarrow> string" where
  "overlay f n chunk = take n f @ chunk @ drop (n + length chunk) f"

text \<open>The operations that rename or remove wg0.conf.bak.\<close>

definition touches_bak :: "op \<Rightarrow> bool" where
  "touches_bak o_p \<longleftrightarrow> o_p = Commit \<or> o_p = Rollback \<or> o_p = Uninstall"

text \<open>
  The steps. A \<open>write_config\<close> validates, reads the key and injects it (\<open>write_begin\<close>; what is
  to be installed is what \<open>op_write_config\<close> would install at that moment), writes in pieces and
  renames; it may also stop half way. An \<open>apply\<close> disarms the timer, copies in pieces, and then
  syncs and arms. Between these come whole operations (\<open>request\<close>, the timer) and the single
  file calls of half-done ones (\<open>lose_conf\<close>, \<open>lose_bak\<close>, \<open>restore_bak\<close>), another interface state,
  another key file. Two things are excluded: a second \<open>write_config\<close> while one is in flight, and
  renames, removals or a second copy of the backup while it is being copied.
\<close>

inductive helper_step :: "'i helper_run \<Rightarrow> 'i helper_run \<Rightarrow> bool" where
  write_refused: "op_write_config content (hs s) = (Inl e, st') \<Longrightarrow> helper_step s (s\<lparr>hs := st'\<rparr>)"
| write_begin: "writing s = None \<Longrightarrow> op_write_config content (hs s) = (Inr r, st') \<Longrightarrow>
    conf st' = Some out \<Longrightarrow> helper_step s (s\<lparr>conf_new := Some [], writing := Some (out, 0)\<rparr>)"
| write_chunk: "writing s = Some (out, n) \<Longrightarrow> conf_new s = Some f \<Longrightarrow> n < m \<Longrightarrow> m \<le> length out \<Longrightarrow>
    helper_step s (s\<lparr>conf_new := Some (overlay f n (take (m - n) (drop n out))), writing := Some (out, m)\<rparr>)"
| write_rename: "writing s = Some (out, length out) \<Longrightarrow> conf_new s = Some f \<Longrightarrow>
    helper_step s (s\<lparr>hs := (hs s)\<lparr>conf := Some f\<rparr>, conf_new := None, writing := None\<rparr>)"
| write_stops: "helper_step s (s\<lparr>writing := None\<rparr>)"
| copy_begin: "copying s = None \<Longrightarrow> 0 < n \<Longrightarrow> n \<le> max_rollback_after_sec \<Longrightarrow> conf (hs s) = Some c \<Longrightarrow>
    helper_step s (s\<lparr>hs := (cancel_pending_rollback (hs s))\<lparr>bak := Some []\<rparr>, copying := Some (c, 0)\<rparr>)"
| copy_chunk: "copying s = Some (c, n) \<Longrightarrow> bak (hs s) = Some f \<Longrightarrow> n < m \<Longrightarrow> m \<le> length c \<Longrightarrow>
    helper_step s (s\<lparr>hs := (hs s)\<lparr>bak := Some (overlay f n (take (m - n) (drop n c)))\<rparr>, copying := Some (c, m)\<rparr>)"
| copy_end: "copying s = Some (c, length c) \<Longrightarrow>
    helper_step s (s\<lparr>hs := snd (apply_finish T now n (hs s)), copying := None\<rparr>)"
| copy_nothing: "copying s = None \<Longrightarrow> conf (hs s) = None \<Longrightarrow>
    helper_step s (s\<lparr>hs := snd (op_apply T now n (hs s))\<rparr>)"
| request: "(\<And>content. o_p \<noteq> WriteConfig content) \<Longrightarrow> (\<And>n. o_p \<noteq> Apply n) \<Longrightarrow>
    (touches_bak o_p \<Longrightarrow> copying s = None) \<Longrightarrow>
    helper_step s (s\<lparr>hs := snd (dispatch T now o_p (hs s))\<rparr>)"
| fire: "timer (hs s) = Some t \<Longrightarrow> copying s = None \<Longrightarrow> helper_step s (s\<lparr>hs := timer_fires T (hs s)\<rparr>)"
| lose_conf: "helper_step s (s\<lparr>hs := (hs s)\<lparr>conf := None\<rparr>\<rparr>)"
| lose_bak: "copying s = None \<Longrightarrow> helper_step s (s\<lparr>hs := (hs s)\<lparr>bak := None\<rparr>\<rparr>)"
| restore_bak: "copying s = None \<Longrightarrow> bak (hs s) = Some b \<Longrightarrow>
    helper_step s (s\<lparr>hs := (hs s)\<lparr>conf := Some b, bak := None\<rparr>\<rparr>)"
| key_written: "helper_step s (s\<lparr>hs := (hs s)\<lparr>privkey := k\<rparr>\<rparr>)"
| iface_changes: "helper_step s (s\<lparr>hs := (hs s)\<lparr>iface := i\<rparr>\<rparr>)"

inductive_cases helper_stepE: "helper_step s s'"

definition file_ok :: "string option \<Rightarrow> bool" where
  "file_ok f = (case f of None \<Rightarrow> True | Some c \<Rightarrow> validate_wg_config c = Inr ())"

text \<open>What is installed, and what the two files being filled hold so far.\<close>

definition bak_ok :: "(string \<times> nat) option \<Rightarrow> string option \<Rightarrow> bool" where
  "bak_ok cp f =
     (case cp of None \<Rightarrow> file_ok f
      | Some (c, n) \<Rightarrow> validate_wg_config c = Inr () \<and> n \<le> length c \<and> f = Some (take n c))"

definition new_ok :: "(string \<times> nat) option \<Rightarrow> string option \<Rightarrow> bool" where
  "new_ok wr f =
     (case wr of None \<Rightarrow> True
      | Some (out, n) \<Rightarrow> validate_wg_config out = Inr () \<and> n \<le> length out \<and> f = Some (take n out))"

definition helper_inv :: "'i helper_run \<Rightarrow> bool" where
  "helper_inv s \<longleftrightarrow>
     file_ok (conf (hs s)) \<and> bak_ok (copying s) (bak (hs s)) \<and> new_ok (writing s) (conf_new s)"

section \<open>Lemmas\<close>

lemma wg_syncconf_fields [simp]:
  "conf (snd (wg_syncconf T st)) = conf st" "bak (snd (wg_syncconf T st)) = bak st"
  "privkey (snd (wg_syncconf T st)) = privkey st" "timer (snd (wg_syncconf T st)) = timer st"
  by (auto simp: wg_syncconf_def split: option.splits prod.splits)

lemma wg_syncconf_keeps:
  "wg_syncconf T st = (r, st') \<Longrightarrow>
   conf st' = conf st \<and> bak st' = bak st \<and> privkey st' = privkey st \<and> timer st' = timer st"
  using wg_syncconf_fields [of T st] by simp

lemma perform_rollback_fields [simp]:
  "conf (snd (perform_rollback T st)) = bak st" "bak (snd (perform_rollback T st)) = None"
  "privkey (snd (perform_rollback T st)) = privkey st" "timer (snd (perform_rollback T st)) = timer st"
  by (auto simp: perform_rollback_def split: option.splits)

lemma op_rollback_state: "snd (op_rollback T st) = snd (perform_rollback T (cancel_pending_rollback st))"
  by (simp add: op_rollback_def split: prod.splits sum.splits)

lemma op_apply_files:
  "conf (snd (op_apply T now n st)) = conf st"
  "bak (snd (op_apply T now n st)) = bak st \<or> bak (snd (op_apply T now n st)) = conf st"
  by (auto simp: op_apply_def apply_finish_def Let_def cancel_pending_rollback_def dest!: wg_syncconf_keeps
      split: option.splits prod.splits sum.splits)

lemma op_apply_Inr:
  "op_apply T now n st = (Inr r, st') \<Longrightarrow>
   0 < n \<and> n \<le> 600 \<and> r = RArmed n \<and> timer st' = Some (now + n) \<and> bak st' = conf st \<and> conf st' = conf st"
  by (auto simp: op_apply_def apply_finish_def Let_def max_rollback_after_sec_def cancel_pending_rollback_def
      dest!: wg_syncconf_keeps split: option.splits prod.splits sum.splits if_splits)

lemma op_write_config_Inr:
  "op_write_config content st = (Inr r, st') \<Longrightarrow>
   \<exists>key out. stored_key st = Some key \<and> validate_wg_config_no_privkey content = Inr () \<and>
     inject_private_key content key = Inr out \<and> validate_wg_config out = Inr () \<and>
     st' = st\<lparr>conf := Some out\<rparr>"
  by (auto simp: op_write_config_def split: sum.splits option.splits)

lemma op_write_config_Inl: "op_write_config content st = (Inl e, st') \<Longrightarrow> st' = st"
  by (auto simp: op_write_config_def split: sum.splits option.splits)

lemma op_up_files [simp]:
  "conf (snd (op_up T st)) = conf st" "bak (snd (op_up T st)) = bak st"
  by (auto simp: op_up_def Let_def dest!: wg_syncconf_keeps split: prod.splits sum.splits)

lemma op_generate_keypair_files [simp]:
  "conf (snd (op_generate_keypair T st)) = conf st" "bak (snd (op_generate_keypair T st)) = bak st"
  by (auto simp: op_generate_keypair_def Let_def split: option.splits sum.splits prod.splits if_splits)

lemma file_ok_simps [simp]: "file_ok None" "file_ok (Some c) \<longleftrightarrow> validate_wg_config c = Inr ()"
  by (simp_all add: file_ok_def)

lemma bak_ok_simps [simp]:
  "bak_ok None f = file_ok f"
  "bak_ok (Some (c, n)) f \<longleftrightarrow> validate_wg_config c = Inr () \<and> n \<le> length c \<and> f = Some (take n c)"
  by (simp_all add: bak_ok_def)

lemma new_ok_simps [simp]:
  "new_ok None f"
  "new_ok (Some (out, n)) f \<longleftrightarrow> validate_wg_config out = Inr () \<and> n \<le> length out \<and> f = Some (take n out)"
  by (simp_all add: new_ok_def)

lemma overlay_next:
  "n < m \<Longrightarrow> m \<le> length xs \<Longrightarrow> overlay (take n xs) n (take (m - n) (drop n xs)) = take m xs"
  using take_add [of n "m - n" xs] by (simp add: overlay_def)

lemma apply_finish_files [simp]:
  "conf (snd (apply_finish T now n st)) = conf st" "bak (snd (apply_finish T now n st)) = bak st"
  by (auto simp: apply_finish_def dest!: wg_syncconf_keeps split: prod.splits sum.splits)

lemma op_copy_nothing_files:
  "conf st = None \<Longrightarrow> conf (snd (op_apply T now n st)) = None"
  "conf st = None \<Longrightarrow> bak (snd (op_apply T now n st)) = bak st \<or> bak (snd (op_apply T now n st)) = None"
  using op_apply_files [of T now n st] by auto

lemma timer_fires_files [simp]:
  "conf (timer_fires T st) = bak st" "bak (timer_fires T st) = None"
  by (simp_all add: timer_fires_def)

text \<open>The operations that run as one step: each leaves a file as it is, drops it, or restores the
  backup, and only those that touch the backup do the latter two to it.\<close>

lemma dispatch_files:
  assumes "\<And>content. o_p \<noteq> WriteConfig content" "\<And>n. o_p \<noteq> Apply n"
  shows "conf (snd (dispatch T now o_p st)) \<in> {None, conf st, bak st}"
    "bak (snd (dispatch T now o_p st)) \<in> {None, bak st}"
    "touches_bak o_p \<or>
     conf (snd (dispatch T now o_p st)) = conf st \<and> bak (snd (dispatch T now o_p st)) = bak st"
  using assms
  by (cases o_p; simp add: op_install_wireguard_def op_commit_def op_rollback_state op_down_def
      op_status_def op_uninstall_def cancel_pending_rollback_def touches_bak_def split: option.splits)+

lemma dispatch_inv:
  assumes "\<And>content. o_p \<noteq> WriteConfig content" "\<And>n. o_p \<noteq> Apply n"
    "touches_bak o_p \<Longrightarrow> copying s = None" "helper_inv s"
  shows "helper_inv (s\<lparr>hs := snd (dispatch T now o_p (hs s))\<rparr>)"
proof (cases "touches_bak o_p")
  case True
  then have "copying s = None" by (rule assms(3))
  with dispatch_files(1,2) [OF assms(1,2), where T = T and now = now and st = "hs s"] assms(4) show ?thesis
    by (auto simp: helper_inv_def file_ok_def)
next
  case False
  with dispatch_files(3) [OF assms(1,2), where T = T and now = now and st = "hs s"] assms(4) show ?thesis
    by (auto simp: helper_inv_def)
qed

lemma write_begin_inv:
  assumes "op_write_config content (hs s) = (Inr r, st')" "conf st' = Some out" "helper_inv s"
  shows "helper_inv (s\<lparr>conf_new := Some [], writing := Some (out, 0)\<rparr>)"
  using op_write_config_Inr [OF assms(1)] assms(2,3) by (auto simp: helper_inv_def)

lemma helper_step_inv: "helper_step s s' \<Longrightarrow> helper_inv s \<Longrightarrow> helper_inv s'"
proof (induction rule: helper_step.induct)
  case (write_refused content s e st')
  then show ?case by (auto dest: op_write_config_Inl)
next
  case (write_begin s content r st' out)
  then show ?case by (blast intro: write_begin_inv)
next
  case (write_chunk s out n f m)
  then show ?case by (simp add: helper_inv_def overlay_next)
next
  case (write_rename s out f)
  then show ?case by (auto simp: helper_inv_def file_ok_def)
next
  case (copy_begin s n c)
  then show ?case by (simp add: helper_inv_def file_ok_def cancel_pending_rollback_def)
next
  case (copy_chunk s c n f m)
  then show ?case by (simp add: helper_inv_def overlay_next)
next
  case (copy_end s c T now n)
  then show ?case by (auto simp: helper_inv_def file_ok_def)
next
  case (copy_nothing s T now n)
  then show ?case
    using op_copy_nothing_files [OF copy_nothing(2), of T now n] by (auto simp: helper_inv_def file_ok_def)
next
  case (request o_p s T now)
  then show ?case by (intro dispatch_inv)
qed (auto simp: helper_inv_def file_ok_def split: option.splits)

interpretation helper_runs: invariant_system helper_step helper_inv
  by unfold_locales (rule helper_step_inv)

text \<open>Without interference the phases of a write do what \<open>op_write_config\<close> does.\<close>

lemma write_phases:
  assumes "op_write_config content (hs s) = (Inr r, st')" "writing s = None"
  shows "helper_step\<^sup>*\<^sup>* s (s\<lparr>hs := st', conf_new := None\<rparr>)"
proof -
  obtain out where out: "st' = (hs s)\<lparr>conf := Some out\<rparr>"
    using op_write_config_Inr [OF assms(1)] by blast
  let ?b = "s\<lparr>conf_new := Some [], writing := Some (out, 0)\<rparr>"
  let ?w = "s\<lparr>conf_new := Some out, writing := Some (out, length out)\<rparr>"
  have 1: "helper_step s ?b" using assms out by (intro write_begin) auto
  have 2: "helper_step\<^sup>*\<^sup>* ?b ?w"
  proof (cases "out = []")
    case False
    then have "helper_step ?b (?b\<lparr>conf_new := Some (overlay [] 0 (take (length out - 0) (drop 0 out))),
        writing := Some (out, length out)\<rparr>)" by (intro write_chunk) auto
    then show ?thesis by (auto simp: overlay_def)
  qed simp
  have "helper_step ?w (?w\<lparr>hs := (hs ?w)\<lparr>conf := Some out\<rparr>, conf_new := None, writing := None\<rparr>)"
    by (rule write_rename) auto
  moreover have "?w\<lparr>hs := (hs ?w)\<lparr>conf := Some out\<rparr>, conf_new := None, writing := None\<rparr> =
      s\<lparr>hs := st', conf_new := None\<rparr>" using out assms(2) by simp
  ultimately have "helper_step ?w (s\<lparr>hs := st', conf_new := None\<rparr>)" by argo
  with 1 2 show ?thesis by (meson converse_rtranclp_into_rtranclp rtranclp.rtrancl_into_rtrancl)
qed

lemma stored_key_trimmed: "stored_key st = Some k \<Longrightarrow> trim k = k \<and> k \<noteq> []"
  by (auto simp: stored_key_def Let_def trim_idem split: option.splits if_splits)

lemma dispatch_disarms:
  "timer (snd (dispatch T now Commit st)) = None" "timer (snd (dispatch T now Rollback st)) = None"
  "timer (snd (dispatch T now Uninstall st)) = None"
  by (simp_all add: op_commit_def op_rollback_state op_uninstall_def cancel_pending_rollback_def)

lemma dispatch_keeps_timer:
  "o_p \<notin> {Commit, Rollback, Uninstall} \<Longrightarrow> (\<And>n. o_p \<noteq> Apply n) \<Longrightarrow>
   timer (snd (dispatch T now o_p st)) = timer st"
  by (cases o_p)
     (auto simp: op_install_wireguard_def op_generate_keypair_def op_write_config_def op_up_def op_down_def
        op_status_def Let_def dest!: wg_syncconf_keeps
        split: option.splits sum.splits prod.splits if_splits)

section \<open>Properties\<close>

text \<open>C3: Whatever is asked over the socket, in any order and with any tool failures, with the
  operations of concurrent connections and the rollback timer interleaved between (and, for the
  writes and copies of whole files, inside) their file calls, the installed wg0.conf always
  passes the directive whitelist, and so does its backup whenever no copy to it is under way: no
  request can place a script directive there. The condition is that no two \<open>write_config\<close>
  requests overlap, and that nothing renames, removes or rewrites the backup while an \<open>apply\<close> is
  copying it (\<open>overlapping_writes_tear\<close> shows what the first is needed for).\<close>

theorem installed_config_whitelisted:
  assumes "helper_step\<^sup>*\<^sup>* s s'" "conf (hs s) = None" "bak (hs s) = None" "writing s = None" "copying s = None"
  shows "file_ok (conf (hs s')) \<and> (copying s' = None \<longrightarrow> file_ok (bak (hs s')))"
  using helper_runs.run_inv [OF assms(1)] assms(2-) by (auto simp: helper_inv_def)

text \<open>Two overlapping writes share wg0.conf.new: each of the two texts is one that
  \<open>write_config\<close> would install, but the shorter written over the longer leaves a \<open>PostUp\<close> line,
  which was part of a value, on a line of its own.\<close>

definition tear_long :: string where
  "tear_long = ''[Peer]'' @ [NL] @ ''PublicKey='' @ replicate 23 (CHR ''a'') @ ''PostUp=x'' @ [NL] @ ''[Interface]''"

definition tear_short :: string where
  "tear_short = ''[Interface]'' @ [NL] @ ''DNS=abcdefgh'' @ [NL]"

theorem overlapping_writes_tear:
  assumes "privkey st = Some (''k'' @ [NL])"
  shows "\<exists>a b. op_write_config tear_long st = (Inr RDone, st\<lparr>conf := Some a\<rparr>) \<and>
    op_write_config tear_short st = (Inr RDone, st\<lparr>conf := Some b\<rparr>) \<and>
    validate_wg_config (overlay a 0 b) = Inl (NotAllowed 4 ''PostUp'')"
proof -
  have k: "stored_key st = Some ''k''"
    using assms by (simp add: stored_key_def trim_def trim_start_def trim_end_def is_ws_def)
  have a: "validate_wg_config_no_privkey tear_long = Inr ()"
    "inject_private_key tear_long ''k'' = Inr (tear_long @ [NL] @ ''PrivateKey = k'' @ [NL])"
    "validate_wg_config (tear_long @ [NL] @ ''PrivateKey = k'' @ [NL]) = Inr ()" by code_simp+
  have b: "validate_wg_config_no_privkey tear_short = Inr ()"
    "inject_private_key tear_short ''k'' =
       Inr (''[Interface]'' @ [NL] @ ''PrivateKey = k'' @ [NL] @ ''DNS=abcdefgh'' @ [NL])"
    "validate_wg_config (''[Interface]'' @ [NL] @ ''PrivateKey = k'' @ [NL] @ ''DNS=abcdefgh'' @ [NL]) = Inr ()"
    by code_simp+
  have "validate_wg_config (overlay (tear_long @ [NL] @ ''PrivateKey = k'' @ [NL]) 0
      (''[Interface]'' @ [NL] @ ''PrivateKey = k'' @ [NL] @ ''DNS=abcdefgh'' @ [NL])) =
      Inl (NotAllowed 4 ''PostUp'')" by code_simp
  with k a b show ?thesis by (auto simp: op_write_config_def)
qed

text \<open>A successful write installs the directives it was sent, in order, plus exactly one private
  key, the node's own, and touches neither the backup, the key nor the timer; a refused write
  changes nothing.\<close>

theorem write_config_installs:
  assumes "stored_key st = Some k" "NL \<notin> set k"
  shows "case op_write_config content st of
      (Inl e, st') \<Rightarrow> st' = st
    | (Inr r, st') \<Rightarrow> (\<exists>out. st' = st\<lparr>conf := Some out\<rparr> \<and> validate_wg_config out = Inr () \<and>
        filter is_privkey (directives NoSection (lines out)) = [(Interface, ''PrivateKey'', k)] \<and>
        filter (\<lambda>d. \<not> is_privkey d) (directives NoSection (lines out)) = directives NoSection (lines content))"
proof (cases "op_write_config content st")
  case (Pair x st')
  show ?thesis
  proof (cases x)
    case (Inl e)
    then show ?thesis using Pair op_write_config_Inl by auto
  next
    case (Inr r)
    from op_write_config_Inr [OF Pair [unfolded Inr]] assms(1) obtain out where
      o: "validate_wg_config_no_privkey content = Inr ()" "inject_private_key content k = Inr out"
         "st' = st\<lparr>conf := Some out\<rparr>" by auto
    have inj: "validate_wg_config out = Inr () \<and>
        filter is_privkey (directives NoSection (lines out)) = [(Interface, ''PrivateKey'', k)] \<and>
        filter (\<lambda>d. \<not> is_privkey d) (directives NoSection (lines out)) = directives NoSection (lines content)"
      using injection_facts [OF o(1,2)] stored_key_trimmed [OF assms(1)] assms(2) by blast
    show ?thesis unfolding Pair Inr prod.case sum.case by (intro exI [of _ out]) (use o(3) inj in simp)
  qed
qed

text \<open>C39: The dead man's switch does not bring back the previous configuration: \<open>write_config\<close> has
  already replaced it when \<open>apply\<close> takes its snapshot, so the rollback reinstalls the very
  configuration that was being tried, whatever was there before.\<close>

theorem rollback_restores_new_config:
  assumes "op_write_config content st = (Inr r, st1)" "op_apply T now n st1 = (Inr r', st2)"
  shows "conf (timer_fires T' st2) = conf st1 \<and> conf (snd (op_rollback T' st2)) = conf st1 \<and>
         (\<exists>key out. conf st1 = Some out \<and> inject_private_key content key = Inr out)"
  using op_apply_Inr [OF assms(2)] op_write_config_Inr [OF assms(1)]
  by (auto simp: timer_fires_def op_rollback_state cancel_pending_rollback_def)

text \<open>\<open>apply\<close> arms the rollback only for one to 600 seconds and exactly that far ahead; commit,
  rollback and uninstall disarm it, and no other operation except a new apply touches it.\<close>

theorem dead_man_timer:
  assumes "op_apply T now n st = (Inr r, st')"
  shows "1 \<le> n \<and> n \<le> 600 \<and> timer st' = Some (now + n) \<and>
    (if o_p = Commit \<or> o_p = Rollback \<or> o_p = Uninstall then timer (snd (dispatch T' now' o_p st')) = None
     else (\<forall>m. o_p \<noteq> Apply m) \<longrightarrow> timer (snd (dispatch T' now' o_p st')) = timer st')"
  using op_apply_Inr [OF assms] dispatch_disarms dispatch_keeps_timer [of o_p T' now' st'] by auto

text \<open>Generating the key pair is idempotent: once it succeeded, a later run returns the same public
  key and changes nothing, even if the key generator would now produce another key or fail.\<close>

theorem generate_keypair_idempotent:
  assumes "op_generate_keypair T st = (Inr (RPublicKey pk), st')" "wg_pubkey T' = wg_pubkey T"
  shows "op_generate_keypair T' st' = (Inr (RPublicKey pk), st')"
proof -
  obtain key where k: "stored_key st' = Some key" "derive_pubkey T key = Inr pk"
  proof (cases "stored_key st")
    case (Some key)
    with assms(1) that show ?thesis by (auto simp: op_generate_keypair_def split: sum.splits)
  next
    case None
    with assms(1) obtain out where "wg_genkey T = Some out" "trim out \<noteq> []"
      "st' = st\<lparr>privkey := Some (trim out @ [NL])\<rparr>" "derive_pubkey T (trim out) = Inr pk"
      by (auto simp: op_generate_keypair_def Let_def split: option.splits sum.splits if_splits)
    then show ?thesis
      using that [of "trim out"] trim_snoc_ws [of NL "trim out"]
      by (simp add: stored_key_def trim_idem)
  qed
  then show ?thesis by (simp add: op_generate_keypair_def derive_pubkey_def assms(2))
qed

text \<open>Self-update installs only a staged ELF file of at least 1 KiB, and never loses the previous
  binary: it is still the live one or it is the backup, even when the copy fails.\<close>

theorem self_update_keeps_binary:
  assumes "target st = Some old" "op_self_update copy_ok st = (r, st')"
  shows "(target st' = Some old \<or> backup st' = Some old) \<and> staged st' = staged st \<and>
    (target st' = target st \<or> target st' = None \<and> \<not> copy_ok \<or>
     (\<exists>b. staged st = Some b \<and> target st' = Some b \<and> 1024 \<le> length b \<and> take 4 b = [0x7f, 0x45, 0x4c, 0x46]))"
  using assms by (auto simp: op_self_update_def Let_def split: option.splits if_splits)

section \<open>Witnesses\<close>

definition sample_tools :: "unit tools" where
  "sample_tools = \<lparr>wg_version = True, wg_genkey = Some ''k'', wg_pubkey = Some, wg_strip = (\<lambda>c. c),
     wg_sync = (\<lambda>_ i. (True, i)), wg_show = (\<lambda>_. True), wg_dump = (\<lambda>_. None),
     wg_allowed_ips = (\<lambda>_. None), wg_up = (\<lambda>_ i. (True, i)), wg_down = (\<lambda>i. i), ip_route = (\<lambda>_ i. i)\<rparr>"

definition sample_helper :: "unit helper" where
  "sample_helper = \<lparr>conf = None, bak = None, privkey = Some (''k'' @ [NL]), iface = (), timer = None\<rparr>"

lemma sample_key: "stored_key sample_helper = Some ''k''"
  by (simp add: stored_key_def sample_helper_def trim_def trim_start_def trim_end_def is_ws_def)

lemma sample_write: "\<exists>out. op_write_config sample_conf sample_helper = (Inr RDone, sample_helper\<lparr>conf := Some out\<rparr>)"
proof -
  obtain out where o: "inject_private_key sample_conf ''k'' = Inr out"
    "validate_wg_config out = Inr ()"
    using sample_injected by blast
  then show ?thesis
    by (intro exI [of _ out]) (simp add: op_write_config_def sample_conf_valid sample_key)
qed

definition sample_run :: "unit helper_run" where
  "sample_run = \<lparr>hs = sample_helper, conf_new = None, writing = None, copying = None\<rparr>"

lemma installed_config_whitelisted_witness:
  "\<exists>out. op_write_config sample_conf sample_helper = (Inr RDone, sample_helper\<lparr>conf := Some out\<rparr>) \<and> file_ok (Some out)"
proof -
  obtain out where w: "op_write_config sample_conf sample_helper = (Inr RDone, sample_helper\<lparr>conf := Some out\<rparr>)"
    using sample_write by blast
  have "op_write_config sample_conf (hs sample_run) = (Inr RDone, sample_helper\<lparr>conf := Some out\<rparr>)"
    using w by (simp add: sample_run_def)
  then have "helper_step\<^sup>*\<^sup>* sample_run (sample_run\<lparr>hs := sample_helper\<lparr>conf := Some out\<rparr>, conf_new := None\<rparr>)"
    by (rule write_phases) (simp add: sample_run_def)
  from installed_config_whitelisted [OF this] w show ?thesis
    by (simp add: sample_run_def sample_helper_def)
qed

lemma write_config_installs_witness:
  "\<exists>out. conf (snd (op_write_config sample_conf sample_helper)) = Some out \<and> validate_wg_config out = Inr ()"
proof -
  obtain out where w: "op_write_config sample_conf sample_helper = (Inr RDone, sample_helper\<lparr>conf := Some out\<rparr>)"
    using sample_write by blast
  have "NL \<notin> set ''k''" by simp
  from write_config_installs [OF sample_key this, of sample_conf] show ?thesis
    unfolding w by (auto dest!: arg_cong [where f = conf])
qed

lemma sample_apply:
  "bak st = None \<Longrightarrow> conf st = Some c \<Longrightarrow>
   op_apply sample_tools 100 60 st = (Inr (RArmed 60), st\<lparr>bak := Some c, timer := Some 160\<rparr>)"
  by (simp add: op_apply_def apply_finish_def max_rollback_after_sec_def cancel_pending_rollback_def wg_syncconf_def
      sample_tools_def sync_routes_def)

lemma rollback_restores_new_config_witness:
  "\<exists>out. op_write_config sample_conf sample_helper = (Inr RDone, sample_helper\<lparr>conf := Some out\<rparr>) \<and>
     conf (timer_fires sample_tools (sample_helper\<lparr>conf := Some out, bak := Some out, timer := Some 160\<rparr>)) = Some out"
proof -
  obtain out where w: "op_write_config sample_conf sample_helper = (Inr RDone, sample_helper\<lparr>conf := Some out\<rparr>)"
    using sample_write by blast
  have "op_apply sample_tools 100 60 (sample_helper\<lparr>conf := Some out\<rparr>) =
      (Inr (RArmed 60), sample_helper\<lparr>conf := Some out, bak := Some out, timer := Some 160\<rparr>)"
    by (subst sample_apply) (simp_all add: sample_helper_def)
  from rollback_restores_new_config [OF w this, of sample_tools] w show ?thesis by auto
qed

lemma dead_man_timer_witness:
  "timer (snd (dispatch sample_tools 110 Commit (snd (op_apply sample_tools 100 60 (sample_helper\<lparr>conf := Some ''c''\<rparr>))))) = None"
proof -
  have "op_apply sample_tools 100 60 (sample_helper\<lparr>conf := Some ''c''\<rparr>) =
      (Inr (RArmed 60), sample_helper\<lparr>conf := Some ''c'', bak := Some ''c'', timer := Some 160\<rparr>)"
    by (subst sample_apply) (simp_all add: sample_helper_def)
  from dead_man_timer [OF this, of Commit sample_tools 110] this show ?thesis by simp
qed

lemma generate_keypair_idempotent_witness:
  "op_generate_keypair (sample_tools\<lparr>wg_genkey := None\<rparr>) sample_helper =
     op_generate_keypair sample_tools sample_helper"
proof -
  have g: "op_generate_keypair sample_tools sample_helper = (Inr (RPublicKey (trim (''k'' @ [NL]))), sample_helper)"
    by (simp add: op_generate_keypair_def sample_key derive_pubkey_def sample_tools_def)
  have "wg_pubkey (sample_tools\<lparr>wg_genkey := None\<rparr>) = wg_pubkey sample_tools" by simp
  from generate_keypair_idempotent [OF g this] g show ?thesis by simp
qed

lemma self_update_keeps_binary_witness:
  "\<exists>st'. op_self_update False \<lparr>staged = Some ([0x7f, 0x45, 0x4c, 0x46] @ replicate 1024 0), target = Some [1],
     backup = None\<rparr> = (Inl ''installing new binary'', st') \<and> backup st' = Some [1]"
proof -
  let ?st = "\<lparr>staged = Some ([0x7f, 0x45, 0x4c, 0x46] @ replicate 1024 0), target = Some [1 :: 8 word], backup = None\<rparr>"
  have u: "op_self_update False ?st = (Inl ''installing new binary'', ?st\<lparr>target := None, backup := Some [1]\<rparr>)"
    by (simp add: op_self_update_def)
  have t: "target ?st = Some [1]" by simp
  from self_update_keeps_binary [OF t u] u show ?thesis by auto
qed

end
