(* ===== verification/Subnet.thy ===== *)
theory Subnet
  imports Prelude
begin

text \<open>
  IPv4 addresses as 32-bit words, the CIDR arithmetic of the mesh (network/wireguard.rs,
  \<open>Subnet\<close>, \<open>SubnetHosts\<close>, \<open>allocate_ip\<close>) and the address formatting of network/address.rs.
  The lemmas show that addresses print and parse back, that the usable hosts of a subnet are
  exactly the addresses between network and broadcast, that the wrapping iterator ends, and that
  allocation returns the lowest free host.
\<close>

unbundle bit_operations_syntax

type_synonym ipv4 = "32 word"

section \<open>Text of an address\<close>

definition octet :: "nat \<Rightarrow> ipv4 \<Rightarrow> nat" where
  "octet i w = (unat w div 256 ^ i) mod 256"

definition show_ipv4 :: "ipv4 \<Rightarrow> string" where
  "show_ipv4 w = dec (octet 3 w) @ ''.'' @ dec (octet 2 w) @ ''.'' @ dec (octet 1 w) @ ''.'' @ dec (octet 0 w)"

text \<open>The standard library's parser: four decimal octets of at most three digits, none with a
  leading zero.\<close>

definition parse_octet :: "string \<Rightarrow> nat option" where
  "parse_octet s =
     (if s \<noteq> [] \<and> length s \<le> 3 \<and> list_all is_digit s \<and> (length s = 1 \<or> hd s \<noteq> CHR ''0'') \<and> dec_val s \<le> 255
      then Some (dec_val s) else None)"

definition parse_ipv4 :: "string \<Rightarrow> ipv4 option" where
  "parse_ipv4 s =
     (case map parse_octet (split_on (CHR ''.'') s) of
        [Some a, Some b, Some c, Some d] \<Rightarrow> Some (of_nat (((a * 256 + b) * 256 + c) * 256 + d))
      | _ \<Rightarrow> None)"

section \<open>Subnets\<close>

record subnet =
  network :: ipv4
  prefix_len :: "8 word"

definition subnet_mask :: "8 word \<Rightarrow> ipv4" where
  "subnet_mask p = (if 32 - unat p < 32 then push_bit (32 - unat p) (- 1) else 0)"

definition subnet_parse :: "string \<Rightarrow> string + subnet" where
  "subnet_parse s =
     (case split_once (CHR ''/'') s of
        None \<Rightarrow> Inl ''missing /prefix''
      | Some (addr, pre) \<Rightarrow>
          (case parse_ipv4 (trim addr) of
             None \<Rightarrow> Inl ''bad IPv4''
           | Some net \<Rightarrow>
               (case parse_uint 255 (trim pre) of
                  None \<Rightarrow> Inl ''bad prefix''
                | Some p \<Rightarrow>
                    if p > 30 then Inl ''prefix leaves no usable hosts; pick /30 or shorter''
                    else Inr \<lparr>network = net AND subnet_mask (of_nat p), prefix_len = of_nat p\<rparr>)))"

definition first_host :: "subnet \<Rightarrow> ipv4" where
  "first_host s = network s + 1"

definition host_mask :: "8 word \<Rightarrow> ipv4" where
  "host_mask p = (if unat p < 32 then drop_bit (unat p) (- 1) else 0)"

definition last_host :: "subnet \<Rightarrow> ipv4" where
  "last_host s = (network s OR host_mask (prefix_len s)) - 1"

text \<open>The iterator: the next host and the state after it. \<open>wrapping_add\<close> wraps.\<close>

record subnet_hosts =
  cur :: ipv4
  end_ip :: ipv4

definition hosts :: "subnet \<Rightarrow> subnet_hosts" where
  "hosts s = \<lparr>cur = first_host s, end_ip = last_host s\<rparr>"

definition hosts_next :: "subnet_hosts \<Rightarrow> (ipv4 \<times> subnet_hosts) option" where
  "hosts_next h = (if cur h > end_ip h then None else Some (cur h, h\<lparr>cur := cur h + 1\<rparr>))"

text \<open>The loop of \<open>allocate_ip\<close>. With an end at the largest word it would never stop, so the loop is
  partial; \<open>None\<close> is non-termination.\<close>

partial_function (option) alloc_loop :: "ipv4 list \<Rightarrow> subnet_hosts \<Rightarrow> ipv4 option option" where
  "alloc_loop used h =
     (case hosts_next h of
        None \<Rightarrow> Some None
      | Some (candidate, h') \<Rightarrow> if candidate \<notin> set used then Some (Some candidate) else alloc_loop used h')"

declare alloc_loop.simps [code]

definition allocate_ip :: "subnet \<Rightarrow> ipv4 list \<Rightarrow> (string + ipv4) option" where
  "allocate_ip s used =
     map_option (\<lambda>r. case r of None \<Rightarrow> Inl ''subnet is exhausted (no free host addresses)'' | Some ip \<Rightarrow> Inr ip)
       (alloc_loop used (hosts s))"

section \<open>Formatting hosts\<close>

definition is_ipv6_literal :: "string \<Rightarrow> bool" where
  "is_ipv6_literal host =
     (if contains_str host ''::'' then True
      else length (filter (\<lambda>c. c = CHR '':'') host) \<ge> 2 \<and> CHR ''.'' \<notin> set host)"

definition normalize_host :: "string \<Rightarrow> string" where
  "normalize_host host =
     (let trimmed = trim host
      in if starts_with trimmed ''['' \<and> ends_with trimmed '']'' then take (length trimmed - 2) (drop 1 trimmed)
         else trimmed)"

definition host_for_url :: "string \<Rightarrow> string" where
  "host_for_url host = (if is_ipv6_literal host then ''['' @ host @ '']'' else host)"

definition authority :: "string \<Rightarrow> nat \<Rightarrow> string" where
  "authority host port = host_for_url host @ '':'' @ dec port"

section \<open>Lemmas\<close>

lemma octet_less [simp]: "octet i w < 256"
  by (simp add: octet_def)

lemma dec_nonzero_head: "0 < n \<Longrightarrow> hd (dec n) \<noteq> CHR ''0''"
proof (induction n rule: dec.induct)
  case (1 n)
  show ?case
  proof (cases "n < 10")
    case True
    have "digit_val (CHR ''0'') = 0" by (simp add: digit_val_def)
    then have "digit_char n \<noteq> CHR ''0''" using True 1(2) digit_val_char [of n] by fastforce
    with True show ?thesis by (subst dec.simps) simp
  next
    case False
    with 1 have "hd (dec (n div 10)) \<noteq> CHR ''0''" by simp
    then show ?thesis using False by (subst dec.simps) simp
  qed
qed

lemma length_dec_1: "n < 10 \<Longrightarrow> length (dec n) = 1"
  by (subst dec.simps) simp

lemma length_dec_2: "n < 100 \<Longrightarrow> length (dec n) \<le> 2"
  by (subst dec.simps) (simp add: length_dec_1)

lemma length_dec_3: "n < 1000 \<Longrightarrow> length (dec n) \<le> 3"
proof -
  assume "n < 1000"
  then have "n div 10 < 100" by simp
  from length_dec_2 [OF this] show ?thesis by (subst dec.simps) simp
qed

lemma parse_octet_dec: "n \<le> 255 \<Longrightarrow> parse_octet (dec n) = Some n"
proof -
  assume n: "n \<le> 255"
  have "length (dec n) = 1 \<or> hd (dec n) \<noteq> CHR ''0''"
    using dec_nonzero_head [of n] length_dec_1 [of n] by (cases "n = 0") auto
  then show ?thesis using n length_dec_3 [of n] by (simp add: parse_octet_def)
qed

lemma dot_not_dec: "CHR ''.'' \<notin> set (dec n)"
  using dec_set [of "CHR ''.''" n] by (auto simp: is_digit_def)

lemma split_show_ipv4:
  "split_on (CHR ''.'') (show_ipv4 w) = [dec (octet 3 w), dec (octet 2 w), dec (octet 1 w), dec (octet 0 w)]"
  by (simp add: show_ipv4_def split_on_append dot_not_dec split_on_notin)

lemma octets_recombine:
  "((octet 3 w * 256 + octet 2 w) * 256 + octet 1 w) * 256 + octet 0 w = unat w"
proof -
  let ?n = "unat w"
  have "?n < 256 ^ 4" using unsigned_less [of w, where ?'a = nat] by simp
  then have "?n div 256 ^ 3 < 256" by (simp add: less_mult_imp_div_less)
  then have o3: "octet 3 w = ?n div 256 ^ 3" by (simp add: octet_def)
  have "?n div 256 ^ 3 = ?n div 256 ^ 2 div 256" "?n div 256 ^ 2 = ?n div 256 div 256"
    by (simp_all add: div_mult2_eq [symmetric])
  then show ?thesis
    using o3 div_mult_mod_eq [of "?n div 256 ^ 2" 256] div_mult_mod_eq [of "?n div 256" 256]
      div_mult_mod_eq [of ?n 256] by (simp add: octet_def)
qed

lemma parse_show_ipv4: "parse_ipv4 (show_ipv4 w) = Some w"
proof -
  have o: "octet i w \<le> 255" for i using octet_less [of i w] by linarith
  have "parse_ipv4 (show_ipv4 w) =
      Some (of_nat (((octet 3 w * 256 + octet 2 w) * 256 + octet 1 w) * 256 + octet 0 w))"
    by (simp add: parse_ipv4_def split_show_ipv4 parse_octet_dec o)
  then show ?thesis by (simp only: octets_recombine) simp
qed

lemma show_ipv4_inj: "show_ipv4 a = show_ipv4 b \<longleftrightarrow> a = b"
  using parse_show_ipv4 by (metis option.inject)

subsection \<open>Subnet arithmetic\<close>

lemma and_not_mask_minus: "w AND NOT (mask k) = w - take_bit k (w :: 32 word)"
proof -
  have "(w AND NOT (mask k)) + (w AND mask k) = (w AND NOT (mask k)) OR (w AND mask k)"
    by (rule disjunctive_add) (auto simp: bit_simps)
  also have "\<dots> = w" by (rule bit_eqI) (auto simp: bit_simps)
  finally show ?thesis by (simp add: take_bit_eq_mask algebra_simps)
qed

lemma unat_and_not_mask: "unat (w AND NOT (mask k)) = unat (w :: 32 word) - unat w mod 2 ^ k"
proof -
  have t: "unat (take_bit k w) = unat w mod 2 ^ k"
    by (simp only: unsigned_take_bit_eq take_bit_eq_mod [where ?'a = nat])
  then have "take_bit k w \<le> w" by (simp add: word_le_nat_alt)
  then have "unat (w - take_bit k w) = unat w - unat (take_bit k w)" by (rule unat_sub)
  with t show ?thesis by (simp add: and_not_mask_minus)
qed

lemma subnet_mask_not: "unat p \<le> 30 \<Longrightarrow> subnet_mask p = NOT (mask (32 - unat p))"
proof (cases "unat p = 0")
  case False
  then show ?thesis by (simp add: subnet_mask_def push_bit_minus_one)
next
  case True
  have "NOT (mask 32) = (0 :: 32 word)" by (rule bit_word_eqI) (simp add: bit_simps)
  with True show ?thesis by (simp add: subnet_mask_def)
qed

lemma host_mask_mask: "unat p \<le> 30 \<Longrightarrow> host_mask p = mask (32 - unat p)"
  unfolding host_mask_def by (auto intro!: bit_word_eqI simp: bit_simps)

text \<open>A parsed subnet: a short enough prefix and an address with zero host bits.\<close>

definition host_bits :: "subnet \<Rightarrow> nat" where
  "host_bits s = 32 - unat (prefix_len s)"

definition subnet_ok :: "subnet \<Rightarrow> bool" where
  "subnet_ok s \<longleftrightarrow> unat (prefix_len s) \<le> 30 \<and> 2 ^ host_bits s dvd unat (network s)"

lemma subnet_parse_ok: "subnet_parse str = Inr s \<Longrightarrow> subnet_ok s"
proof -
  assume "subnet_parse str = Inr s"
  then obtain net p where p: "p \<le> 30" and s: "s = \<lparr>network = net AND subnet_mask (of_nat p), prefix_len = of_nat p\<rparr>"
    by (fastforce simp: subnet_parse_def not_less split: option.splits if_splits)
  have u: "unat (of_nat p :: 8 word) = p" using p by (simp add: unat_of_nat)
  have "unat (network s) = unat net - unat net mod 2 ^ (32 - p)"
    using s p u by (simp add: subnet_mask_not unat_and_not_mask)
  then show ?thesis using s p u by (simp add: subnet_ok_def host_bits_def minus_mod_eq_mult_div)
qed

lemma mult_less_bound: "(2 :: nat) ^ k dvd n \<Longrightarrow> n < 2 ^ 32 \<Longrightarrow> k \<le> 32 \<Longrightarrow> n + 2 ^ k \<le> 2 ^ 32"
proof -
  assume "2 ^ k dvd n" "n < 2 ^ 32" "k \<le> 32"
  then obtain m where n: "n = 2 ^ k * m" by (auto elim: dvdE)
  have e: "(2 :: nat) ^ 32 = 2 ^ k * 2 ^ (32 - k)" using \<open>k \<le> 32\<close> by (simp add: power_add [symmetric])
  have "2 ^ k * m < 2 ^ k * 2 ^ (32 - k)" using \<open>n < 2 ^ 32\<close> n e by (simp only:)
  then have "m < 2 ^ (32 - k)" by simp
  then have "2 ^ k * (m + 1) \<le> 2 ^ k * 2 ^ (32 - k)" by (intro mult_le_mono2) simp
  then show ?thesis using n e by simp
qed

lemma host_bits_range: "subnet_ok s \<Longrightarrow> 2 \<le> host_bits s \<and> host_bits s \<le> 32"
  by (auto simp: subnet_ok_def host_bits_def)

lemma network_bound: "subnet_ok s \<Longrightarrow> unat (network s) + 2 ^ host_bits s \<le> 2 ^ 32"
  using mult_less_bound [of "host_bits s" "unat (network s)"] host_bits_range [of s]
    unsigned_less [of "network s", where ?'a = nat] by (simp add: subnet_ok_def)

lemma four_le_power: "2 \<le> k \<Longrightarrow> (4 :: nat) \<le> 2 ^ k"
  using power_increasing [of 2 k "2 :: nat"] by simp

lemma unat_first_host: "subnet_ok s \<Longrightarrow> unat (first_host s) = unat (network s) + 1"
proof -
  assume ok: "subnet_ok s"
  then have "unat (network s) + 1 < 2 ^ 32"
    using network_bound [OF ok] four_le_power [of "host_bits s"] host_bits_range [OF ok] by linarith
  then show ?thesis by (simp add: first_host_def unat_word_ariths)
qed

lemma network_low_bits: "subnet_ok s \<Longrightarrow> \<not> bit (network s) n \<or> host_bits s \<le> n"
proof -
  assume "subnet_ok s"
  then have "unat (network s) mod 2 ^ host_bits s = 0" by (auto simp: subnet_ok_def)
  then have "take_bit (host_bits s) (unat (network s)) = 0" by (simp add: take_bit_eq_mod)
  then have "\<not> bit (take_bit (host_bits s) (unat (network s))) n" by simp
  then show ?thesis by (auto simp: bit_simps)
qed

lemma unat_mask_32: "k \<le> 32 \<Longrightarrow> unat (mask k :: 32 word) = 2 ^ k - 1"
proof -
  assume "k \<le> 32"
  have "unat (mask k :: 32 word) = unat (take_bit k (- 1 :: 32 word))"
    by (simp only: take_bit_minus_one_eq_mask)
  also have "\<dots> = take_bit k (mask 32)" by (simp only: unsigned_take_bit_eq unsigned_minus_1_eq_mask len_num1 len_bit0) simp
  also have "\<dots> = mask (min k 32)" by (rule take_bit_of_mask)
  finally show ?thesis using \<open>k \<le> 32\<close> by (simp add: mask_eq_exp_minus_1 min_def)
qed

lemma unat_last_host: "subnet_ok s \<Longrightarrow> unat (last_host s) = unat (network s) + 2 ^ host_bits s - 2"
proof -
  assume ok: "subnet_ok s"
  have "host_mask (prefix_len s) = mask (host_bits s)"
    using ok by (simp add: host_mask_mask subnet_ok_def host_bits_def)
  then have "network s OR host_mask (prefix_len s) = network s + mask (host_bits s)"
    using network_low_bits [OF ok]
    by (simp only:) (rule disjunctive_add [symmetric], auto simp: bit_simps, use leD in blast)
  then have l: "last_host s = network s + mask (host_bits s) - 1" by (simp add: last_host_def)
  have b: "unat (network s) + (2 ^ host_bits s - 1) < 2 ^ 32" "1 \<le> (2 :: nat) ^ host_bits s - 1"
    using network_bound [OF ok] four_le_power [of "host_bits s"] host_bits_range [OF ok] by linarith+
  have u: "unat (network s + mask (host_bits s)) = unat (network s) + (2 ^ host_bits s - 1)"
    using b(1) host_bits_range [OF ok] by (simp add: unat_word_ariths unat_mask_32)
  have "1 \<le> network s + mask (host_bits s)" using u b(2) by (simp add: word_le_nat_alt)
  then have "unat (last_host s) = unat (network s + mask (host_bits s)) - unat (1 :: 32 word)"
    unfolding l by (rule unat_sub)
  then show ?thesis using u by simp
qed

text \<open>The usable hosts, lowest first.\<close>

definition host_list :: "subnet \<Rightarrow> ipv4 list" where
  "host_list s = map of_nat [unat (network s) + 1 ..< unat (network s) + 2 ^ host_bits s - 1]"

lemma alloc_loop_find:
  "unat (end_ip h) < 2 ^ 32 - 1 \<Longrightarrow>
   alloc_loop used h = Some (find (\<lambda>x. x \<notin> set used) (map of_nat [unat (cur h) ..< Suc (unat (end_ip h))]))"
proof (induction "Suc (unat (end_ip h)) - unat (cur h)" arbitrary: h)
  case 0
  then have "end_ip h < cur h" by (simp add: word_less_nat_alt)
  with 0 show ?case by (subst alloc_loop.simps) (simp add: hosts_next_def)
next
  case (Suc n)
  then have le: "unat (cur h) \<le> unat (end_ip h)" by simp
  then have c: "\<not> end_ip h < cur h" by (simp add: word_less_nat_alt)
  have u: "unat (cur h + 1) = unat (cur h) + 1"
    using le Suc.prems by (simp add: unat_word_ariths)
  have IH: "alloc_loop used (h\<lparr>cur := cur h + 1\<rparr>) =
      Some (find (\<lambda>x. x \<notin> set used) (map of_nat [Suc (unat (cur h)) ..< Suc (unat (end_ip h))]))"
    using Suc.hyps(1) [of "h\<lparr>cur := cur h + 1\<rparr>"] Suc.hyps(2) Suc.prems u by simp
  have "[unat (cur h) ..< Suc (unat (end_ip h))] = unat (cur h) # [Suc (unat (cur h)) ..< Suc (unat (end_ip h))]"
    using le by (simp add: upt_conv_Cons)
  then show ?case using c IH by (subst alloc_loop.simps) (simp add: hosts_next_def)
qed

lemma alloc_loop_hosts: "subnet_ok s \<Longrightarrow> alloc_loop used (hosts s) = Some (find (\<lambda>x. x \<notin> set used) (host_list s))"
proof -
  assume ok: "subnet_ok s"
  have b: "4 \<le> (2 :: nat) ^ host_bits s" using four_le_power host_bits_range [OF ok] by blast
  then have "unat (end_ip (hosts s)) < 2 ^ 32 - 1"
    using network_bound [OF ok] by (simp add: hosts_def unat_last_host [OF ok])
  moreover have "Suc (unat (network s) + 2 ^ host_bits s - 2) = unat (network s) + 2 ^ host_bits s - 1"
    using b by linarith
  ultimately show ?thesis
    by (simp add: alloc_loop_find hosts_def unat_first_host [OF ok] unat_last_host [OF ok] host_list_def
        del: upt_Suc)
qed

definition alloc_search :: "subnet \<times> ipv4 list \<Rightarrow> ipv4 option" where
  "alloc_search c = (case alloc_loop (snd c) (hosts (fst c)) of None \<Rightarrow> None | Some r \<Rightarrow> r)"

interpretation alloc: first_fit "\<lambda>c. subnet_ok (fst c)" alloc_search "\<lambda>c. host_list (fst c)"
  "\<lambda>c ip. ip \<notin> set (snd c)"
  by unfold_locales (simp add: alloc_search_def alloc_loop_hosts)

lemma allocate_ip_search:
  "subnet_ok s \<Longrightarrow> allocate_ip s used =
     Some (case alloc_search (s, used) of
             None \<Rightarrow> Inl ''subnet is exhausted (no free host addresses)'' | Some ip \<Rightarrow> Inr ip)"
  by (simp add: allocate_ip_def alloc_search_def alloc_loop_hosts)

lemma host_list_unat:
  "subnet_ok s \<Longrightarrow> map unat (host_list s) = [unat (network s) + 1 ..< unat (network s) + 2 ^ host_bits s - 1]"
proof -
  assume ok: "subnet_ok s"
  have "unat (of_nat n :: 32 word) = n" if "n < unat (network s) + 2 ^ host_bits s" for n
  proof -
    have "n < 2 ^ 32" using network_bound [OF ok] that by linarith
    then show ?thesis by (simp add: unat_of_nat)
  qed
  then show ?thesis by (auto simp: host_list_def intro!: map_idI)
qed

lemma host_list_sorted: "subnet_ok s \<Longrightarrow> sorted_wrt (<) (host_list s)"
proof -
  assume "subnet_ok s"
  then have "sorted_wrt (<) (map unat (host_list s))" by (simp only: host_list_unat) simp
  then have "sorted_wrt (\<lambda>x y. unat x < unat y) (host_list s)" by (simp add: sorted_wrt_map)
  then show ?thesis by (rule sorted_wrt_mono_rel [rotated]) (simp add: word_less_nat_alt)
qed

lemma host_list_distinct: "subnet_ok s \<Longrightarrow> distinct (host_list s)"
  using host_list_unat distinct_upt by (metis distinct_map)

lemma host_list_length: "subnet_ok s \<Longrightarrow> length (host_list s) = 2 ^ host_bits s - 2"
  by (simp add: host_list_def)

lemma host_list_first: "subnet_ok s \<Longrightarrow> host_list s \<noteq> [] \<and> hd (host_list s) = first_host s"
proof -
  assume ok: "subnet_ok s"
  have "4 \<le> (2 :: nat) ^ host_bits s" using four_le_power host_bits_range [OF ok] by blast
  then have "[unat (network s) + 1 ..< unat (network s) + 2 ^ host_bits s - 1] =
      (unat (network s) + 1) # [unat (network s) + 2 ..< unat (network s) + 2 ^ host_bits s - 1]"
    by (simp add: upt_conv_Cons)
  then show ?thesis by (simp add: host_list_def first_host_def)
qed

lemma block_iff: "(2 :: nat) ^ k dvd N \<Longrightarrow> n - n mod 2 ^ k = N \<longleftrightarrow> N \<le> n \<and> n < N + 2 ^ k"
proof -
  assume "2 ^ k dvd N"
  then obtain m where N: "N = m * 2 ^ k" by (auto elim: dvdE simp: mult.commute)
  have e: "n - n mod 2 ^ k = n div 2 ^ k * 2 ^ k" by (rule minus_mod_eq_div_mult)
  show ?thesis
  proof
    assume "n - n mod 2 ^ k = N"
    moreover have "n mod 2 ^ k < 2 ^ k" by simp
    ultimately show "N \<le> n \<and> n < N + 2 ^ k"
      using mod_less_eq_dividend [of n "2 ^ k"] by linarith
  next
    assume "N \<le> n \<and> n < N + 2 ^ k"
    then have "n div 2 ^ k = m" using N by (intro div_nat_eqI) (simp_all add: mult.commute)
    then show "n - n mod 2 ^ k = N" using e N by simp
  qed
qed

definition broadcast :: "subnet \<Rightarrow> ipv4" where
  "broadcast s = network s OR host_mask (prefix_len s)"

lemma broadcast_last: "broadcast s = last_host s + 1"
  by (simp add: broadcast_def last_host_def)

lemma unat_broadcast: "subnet_ok s \<Longrightarrow> unat (broadcast s) = unat (network s) + 2 ^ host_bits s - 1"
proof -
  assume ok: "subnet_ok s"
  have b: "4 \<le> (2 :: nat) ^ host_bits s" using four_le_power host_bits_range [OF ok] by blast
  have l: "unat (last_host s) + 1 < 2 ^ 32"
    using network_bound [OF ok] b unat_last_host [OF ok] by linarith
  have "unat (last_host s + 1) = (unat (last_host s) + 1) mod 2 ^ 32" by (simp add: unat_word_ariths)
  also have "\<dots> = unat (last_host s) + 1" using l by (rule mod_less)
  finally show ?thesis using unat_last_host [OF ok] b by (simp add: broadcast_last)
qed

lemma set_host_list:
  "subnet_ok s \<Longrightarrow>
   h \<in> set (host_list s) \<longleftrightarrow> h AND subnet_mask (prefix_len s) = network s \<and> h \<noteq> network s \<and> h \<noteq> broadcast s"
proof -
  assume ok: "subnet_ok s"
  have b: "4 \<le> (2 :: nat) ^ host_bits s" using four_le_power host_bits_range [OF ok] by blast
  have "h \<in> set (host_list s) \<longleftrightarrow> unat h \<in> set (map unat (host_list s))"
    by (auto simp: word_unat_eq_iff [symmetric])
  also have "\<dots> \<longleftrightarrow> unat (network s) + 1 \<le> unat h \<and> unat h < unat (network s) + 2 ^ host_bits s - 1"
    by (simp only: host_list_unat [OF ok] set_upt atLeastLessThan_iff)
  also have "\<dots> \<longleftrightarrow> unat h - unat h mod 2 ^ host_bits s = unat (network s) \<and>
      unat h \<noteq> unat (network s) \<and> unat h \<noteq> unat (broadcast s)"
    using b ok by (subst block_iff) (auto simp: subnet_ok_def unat_broadcast [OF ok])
  also have "unat h - unat h mod 2 ^ host_bits s = unat (h AND subnet_mask (prefix_len s))"
    using ok by (simp add: subnet_mask_not unat_and_not_mask subnet_ok_def host_bits_def)
  finally show ?thesis by (simp add: word_unat_eq_iff)
qed

section \<open>Properties\<close>

text \<open>Every IPv4 address prints in dotted decimal and parses back to itself.\<close>

theorem ipv4_roundtrip: "parse_ipv4 (show_ipv4 w) = Some w"
  by (rule parse_show_ipv4)

text \<open>The usable hosts of a parsed subnet, lowest first, are exactly the addresses with its prefix
  other than the network and the broadcast address, from \<open>first_host\<close> on, each once.\<close>

theorem subnet_hosts_exact:
  assumes "subnet_parse str = Inr s"
  shows "(h \<in> set (host_list s) \<longleftrightarrow>
            h AND subnet_mask (prefix_len s) = network s \<and> h \<noteq> network s \<and> h \<noteq> broadcast s) \<and>
         sorted_wrt (<) (host_list s) \<and> hd (host_list s) = first_host s \<and>
         length (host_list s) = 2 ^ (32 - unat (prefix_len s)) - 2"
  using subnet_parse_ok [OF assms] set_host_list host_list_sorted host_list_first host_list_length
  by (auto simp: host_bits_def)

text \<open>C38: Allocation in a parsed subnet always ends: it returns the lowest usable host not in use, or
  an error exactly when every usable host is.\<close>

theorem allocate_ip_lowest_free:
  assumes "subnet_parse str = Inr s"
  shows "\<exists>r. allocate_ip s used = Some r \<and>
    (case r of
       Inl e \<Rightarrow> set (host_list s) \<subseteq> set used
     | Inr ip \<Rightarrow> ip \<in> set (host_list s) \<and> ip \<notin> set used \<and>
         (\<forall>h. h \<in> set (host_list s) \<and> h \<notin> set used \<longrightarrow> ip \<le> h))"
proof -
  have ok: "subnet_ok s" by (rule subnet_parse_ok [OF assms])
  show ?thesis
  proof (cases "alloc_search (s, used)")
    case None
    then show ?thesis using alloc.none_iff [of "(s, used)"] ok by (auto simp: allocate_ip_search)
  next
    case (Some ip)
    then have "ip \<in> set (host_list s)" "ip \<notin> set used"
      using alloc.found_pool [of "(s, used)"] alloc.found_free [of "(s, used)"] ok by auto
    moreover have "ip \<le> h" if "h \<in> set (host_list s)" "h \<notin> set used" for h
      using alloc.found_first [of "(s, used)" ip "(<)" h] Some ok host_list_sorted [OF ok] that by auto
    ultimately show ?thesis using Some ok by (simp add: allocate_ip_search)
  qed
qed

section \<open>Witnesses\<close>

lemma sample_subnet: "subnet_parse ''10.42.0.5/24'' = Inr \<lparr>network = 0x0A2A0000, prefix_len = 24\<rparr>"
proof -
  have "split_once (CHR ''/'') ''10.42.0.5/24'' = Some (''10.42.0.5'', ''24'')"
    "trim ''10.42.0.5'' = ''10.42.0.5''" "trim ''24'' = ''24''" "parse_uint 255 ''24'' = Some 24"
    "map parse_octet (split_on (CHR ''.'') ''10.42.0.5'') = [Some 10, Some 42, Some 0, Some 5]"
    by code_simp+
  then show ?thesis by (simp add: subnet_parse_def parse_ipv4_def subnet_mask_def mask_eq_exp_minus_1)
qed

lemma subnet_hosts_exact_witness: "(0x0A2A0001 :: ipv4) = hd (host_list \<lparr>network = 0x0A2A0000, prefix_len = 24\<rparr>)"
  using subnet_hosts_exact [OF sample_subnet, of 0] by (simp add: first_host_def)

lemma allocate_ip_lowest_free_witness:
  "\<exists>r. allocate_ip \<lparr>network = 0x0A2A0000, prefix_len = 24\<rparr> [0x0A2A0001] = Some r"
  using allocate_ip_lowest_free [OF sample_subnet, of "[0x0A2A0001]"] by blast

end
