(* ===== verification/Mesh.thy ===== *)
theory Mesh
  imports Subnet WgConfig "HOL-Library.Char_ord" "HOL-Library.List_Lexorder"
begin

text \<open>
  The core's side of the WireGuard mesh: the stored configuration and peers with the rendering of
  wg0.conf (network/wireguard.rs) and the handlers that change the plan, enable, configure and
  disable the mesh (api/network.rs). Calls to the helpers on the nodes are a parameter over an
  environment state; the database is one value threaded through a handler. The lemmas show that a
  rendered configuration reads back as exactly the intended directives and passes the helper's
  whitelist, which addresses enabling hands out, and what state configuring and disabling leave.
\<close>

section \<open>Rows\<close>

record config_row =
  cr_enabled :: int
  cr_subnet :: string
  cr_port :: int
  cr_keepalive :: int
  cr_updated :: time
  cr_core_uid :: "string option"

record server_row =
  sr_id :: string
  sr_name :: string
  sr_host :: string
  sr_local :: bool
  sr_kind :: "string option"
  sr_created :: time
  sr_port :: int
  sr_token :: string
  sr_tls :: "string option"

record peer_row =
  wp_server :: string
  wp_ip :: string
  wp_key :: "string option"
  wp_endpoint :: string
  wp_status :: string
  wp_error :: "string option"
  wp_handshake :: "time option"
  wp_deployed :: "time option"
  wp_created :: time

record external_row =
  ex_uid :: string
  ex_name :: string
  ex_key :: "string option"
  ex_endpoint :: string
  ex_ip :: string
  ex_owner :: string

record mesh_db =
  config :: "config_row option"
  servers :: "server_row list"
  peers :: "peer_row list"
  externals :: "external_row list"

section \<open>Typed mirrors\<close>

record mesh_config =
  mc_enabled :: bool
  mc_subnet :: string
  mc_port :: "16 word"
  mc_keepalive :: "16 word"
  mc_updated :: time

definition mesh_config_load :: "mesh_db \<Rightarrow> app_error + mesh_config" where
  "mesh_config_load db =
     (case config db of
        None \<Rightarrow> Inl (Internal ''wireguard_config singleton missing'')
      | Some r \<Rightarrow> Inr \<lparr>mc_enabled = (cr_enabled r \<noteq> 0), mc_subnet = cr_subnet r,
          mc_port = of_int (cr_port r), mc_keepalive = of_int (cr_keepalive r),
          mc_updated = cr_updated r\<rparr>)"

record peer =
  server_id :: string
  server_name :: string
  is_local :: bool
  assigned_ip :: ipv4
  public_key :: "string option"
  endpoint :: string
  status :: string
  error_message :: "string option"
  last_handshake :: "time option"

text \<open>Collecting an iterator of results: the first error wins.\<close>

fun collect :: "('e + 'a) list \<Rightarrow> 'e + 'a list" where
  "collect [] = Inr []"
| "collect (Inl e # xs) = Inl e"
| "collect (Inr a # xs) = (case collect xs of Inl e \<Rightarrow> Inl e | Inr as \<Rightarrow> Inr (a # as))"

definition conversion_error :: app_error where
  "conversion_error = Internal ''FromSqlConversionFailure: assigned_ip''"

definition peer_of_row :: "server_row \<Rightarrow> peer_row \<Rightarrow> app_error + peer" where
  "peer_of_row s r =
     (case parse_ipv4 (wp_ip r) of
        None \<Rightarrow> Inl conversion_error
      | Some ip \<Rightarrow> Inr \<lparr>server_id = wp_server r, server_name = sr_name s, is_local = sr_local s,
          assigned_ip = ip, public_key = wp_key r, endpoint = wp_endpoint r, status = wp_status r,
          error_message = wp_error r, last_handshake = wp_handshake r\<rparr>)"

definition peers_load_all :: "mesh_db \<Rightarrow> app_error + peer list" where
  "peers_load_all db =
     collect (List.map_filter
       (\<lambda>r. map_option (\<lambda>s. peer_of_row s r) (sql_first (\<lambda>s. sr_id s = wp_server r) (servers db)))
       (sort_key wp_ip (peers db)))"

record external_peer =
  node_uid :: string
  xp_name :: string
  xp_key :: "string option"
  xp_endpoint :: string
  xp_ip :: ipv4

definition externals_load_all :: "mesh_db \<Rightarrow> app_error + external_peer list" where
  "externals_load_all db =
     collect (map (\<lambda>r. case parse_ipv4 (ex_ip r) of
                         None \<Rightarrow> Inl conversion_error
                       | Some ip \<Rightarrow> Inr \<lparr>node_uid = ex_uid r, xp_name = ex_name r, xp_key = ex_key r,
                           xp_endpoint = ex_endpoint r, xp_ip = ip\<rparr>)
       (sort_key ex_ip (externals db)))"

definition as_render_peer :: "external_peer \<Rightarrow> peer" where
  "as_render_peer x =
     \<lparr>server_id = node_uid x, server_name = xp_name x, is_local = False, assigned_ip = xp_ip x,
      public_key = xp_key x, endpoint = xp_endpoint x, status = ''external'', error_message = None,
      last_handshake = None\<rparr>"

definition ensure_core_uid :: "string \<Rightarrow> mesh_db \<Rightarrow> string \<times> mesh_db" where
  "ensure_core_uid uuid db =
     (case Option.bind (config db) cr_core_uid of
        Some uid \<Rightarrow>
          if uid \<noteq> [] then (uid, db)
          else (uuid, db\<lparr>config := map_option (\<lambda>r. r\<lparr>cr_core_uid := Some uuid\<rparr>) (config db)\<rparr>)
      | None \<Rightarrow> (uuid, db\<lparr>config := map_option (\<lambda>r. r\<lparr>cr_core_uid := Some uuid\<rparr>) (config db)\<rparr>))"

section \<open>Rendering\<close>

definition peer_block :: "mesh_config \<Rightarrow> peer \<Rightarrow> string \<Rightarrow> string" where
  "peer_block cfg p pk =
     [NL] @ ''[Peer]'' @ [NL] @ ''# '' @ server_name p @ [NL] @ ''PublicKey = '' @ pk @ [NL] @
     ''Endpoint = '' @ endpoint p @ [NL] @ ''AllowedIPs = '' @ show_ipv4 (assigned_ip p) @ ''/32'' @ [NL] @
     (if mc_keepalive cfg > 0 then ''PersistentKeepalive = '' @ dec (unat (mc_keepalive cfg)) @ [NL] else [])"

fun render_peers :: "peer \<Rightarrow> mesh_config \<Rightarrow> peer list \<Rightarrow> string" where
  "render_peers me cfg [] = []"
| "render_peers me cfg (p # ps) =
     (if server_id p = server_id me then render_peers me cfg ps
      else (case public_key p of
              None \<Rightarrow> render_peers me cfg ps
            | Some pk \<Rightarrow> peer_block cfg p pk @ render_peers me cfg ps))"

definition render_wg_conf :: "peer \<Rightarrow> peer list \<Rightarrow> mesh_config \<Rightarrow> string" where
  "render_wg_conf me ps cfg =
     ''[Interface]'' @ [NL] @ ''Address = '' @ show_ipv4 (assigned_ip me) @ ''/32'' @ [NL] @
     ''ListenPort = '' @ dec (unat (mc_port cfg)) @ [NL] @ render_peers me cfg ps"

text \<open>\<open>INSERT INTO wireguard_peers\<close>: server and address are unique.\<close>

definition pending_row :: "time \<Rightarrow> string \<Rightarrow> ipv4 \<Rightarrow> string \<Rightarrow> peer_row" where
  "pending_row now sid ip ep =
     \<lparr>wp_server = sid, wp_ip = show_ipv4 ip, wp_key = None, wp_endpoint = ep, wp_status = ''pending'',
      wp_error = None, wp_handshake = None, wp_deployed = None, wp_created = now\<rparr>"

definition insert_peer :: "time \<Rightarrow> string \<Rightarrow> ipv4 \<Rightarrow> string \<Rightarrow> peer_row list \<Rightarrow> string + peer_row list" where
  "insert_peer now sid ip ep rows =
     (if list_ex (\<lambda>r. wp_server r = sid \<or> wp_ip r = show_ipv4 ip) rows
      then Inl ''UNIQUE constraint failed''
      else Inr (rows @ [pending_row now sid ip ep]))"

section \<open>Plan and enabling\<close>

record update_mesh =
  um_subnet :: "string option"
  um_port :: "16 word option"
  um_keepalive :: "16 word option"

definition coalesce :: "'a option \<Rightarrow> 'a \<Rightarrow> 'a" where
  "coalesce x y = (case x of Some v \<Rightarrow> v | None \<Rightarrow> y)"

definition put_mesh :: "time \<Rightarrow> update_mesh \<Rightarrow> mesh_db \<Rightarrow> (app_error + unit) \<times> mesh_db" where
  "put_mesh now body db =
     (case (case um_subnet body of None \<Rightarrow> None
            | Some s \<Rightarrow> (case subnet_parse s of Inl e \<Rightarrow> Some e | Inr _ \<Rightarrow> None)) of
        Some e \<Rightarrow> (Inl (BadRequest (Te ''errors.network.invalid_subnet'' [(''error'', e)])), db)
      | None \<Rightarrow>
          if (case um_port body of None \<Rightarrow> False | Some p \<Rightarrow> p < 1024) then
            (Inl (BadRequest (te ''errors.network.listen_port_privileged'')), db)
          else
            (case mesh_config_load db of
               Inl e \<Rightarrow> (Inl e, db)
             | Inr cfg \<Rightarrow>
                 if mc_enabled cfg \<or> peers db \<noteq> [] then
                   (Inl (BadRequest (te ''errors.network.mesh_config_locked'')), db)
                 else
                   (Inr (), db\<lparr>config := map_option (\<lambda>r. r\<lparr>
                      cr_subnet := coalesce (um_subnet body) (cr_subnet r),
                      cr_port := coalesce (map_option uint (um_port body)) (cr_port r),
                      cr_keepalive := coalesce (map_option uint (um_keepalive body)) (cr_keepalive r),
                      cr_updated := now\<rparr>) (config db)\<rparr>)))"

text \<open>The servers this core provisions: not the peer cores, the local ones first, then by id.\<close>

definition provisioned :: "mesh_db \<Rightarrow> server_row list" where
  "provisioned db =
     (let kind = (\<lambda>s. coalesce (sr_kind s) ''local'');
          rows = filter (\<lambda>s. kind s \<noteq> ''peer'') (servers db)
      in sort_key sr_id (filter sr_local rows) @ sort_key sr_id (filter (\<lambda>s. \<not> sr_local s) rows))"

text \<open>The allocation loop of \<open>enable_mesh\<close> on the rows of the transaction.\<close>

fun enable_loop ::
  "subnet \<Rightarrow> mesh_config \<Rightarrow> time \<Rightarrow> ipv4 list \<Rightarrow> peer_row list \<Rightarrow> server_row list \<Rightarrow>
   (app_error + peer_row list) option" where
  "enable_loop sn cfg now used rows [] = Some (Inr rows)"
| "enable_loop sn cfg now used rows (s # rest) =
     (case allocate_ip sn used of
        None \<Rightarrow> None
      | Some (Inl e) \<Rightarrow> Some (Inl (Internal e))
      | Some (Inr ip) \<Rightarrow>
          (case insert_peer now (sr_id s) ip (authority (sr_host s) (unat (mc_port cfg))) rows of
             Inl e \<Rightarrow> Some (Inl (DatabaseError e))
           | Inr rows' \<Rightarrow> enable_loop sn cfg now (used @ [ip]) rows' rest))"

definition enable_mesh :: "time \<Rightarrow> mesh_db \<Rightarrow> ((app_error + nat) \<times> mesh_db) option" where
  "enable_mesh now db =
     (case mesh_config_load db of
        Inl e \<Rightarrow> Some (Inl e, db)
      | Inr cfg \<Rightarrow>
          if mc_enabled cfg then Some (Inl (BadRequest (te ''errors.network.mesh_already_enabled'')), db)
          else
            (case subnet_parse (mc_subnet cfg) of
               Inl e \<Rightarrow> Some (Inl (Internal (''stored subnet is invalid: '' @ e)), db)
             | Inr sn \<Rightarrow>
                 (let used = List.map_filter (\<lambda>r. parse_ipv4 (wp_ip r)) (peers db);
                      todo = provisioned db
                  in case enable_loop sn cfg now used (peers db) todo of
                       None \<Rightarrow> None
                     | Some (Inl e) \<Rightarrow> Some (Inl e, db)
                     | Some (Inr rows) \<Rightarrow>
                         Some (Inr (length todo),
                           db\<lparr>peers := rows, config := map_option (\<lambda>r. r\<lparr>cr_enabled := 1, cr_updated := now\<rparr>)
                                                          (config db)\<rparr>))))"

section \<open>Configuring and disabling\<close>

text \<open>A call of a node's helper: its answer (success, error text, and for the key pair the
  \<open>public_key\<close> field of the result if there is a result), or a transport failure.\<close>

datatype mesh_cmd = CInstall | CKeypair | CWrite string | CUp | CDown | CUninstall

datatype call_result =
    Answer bool "string option" "string option option"
  | Transport string

type_synonym 'w node_call = "string \<Rightarrow> mesh_cmd \<Rightarrow> 'w \<Rightarrow> call_result \<times> 'w"
type_synonym 'w caller = "mesh_db \<Rightarrow> 'w node_call"

record per_peer =
  pp_server :: string
  pp_status :: string
  pp_error :: "string option"

definition entry :: "string \<Rightarrow> string \<Rightarrow> string option \<Rightarrow> per_peer" where
  "entry sid st err = \<lparr>pp_server = sid, pp_status = st, pp_error = err\<rparr>"

definition upd_peer :: "string \<Rightarrow> (peer_row \<Rightarrow> peer_row) \<Rightarrow> mesh_db \<Rightarrow> mesh_db" where
  "upd_peer sid f db = db\<lparr>peers := sql_update (\<lambda>r. wp_server r = sid) f (peers db)\<rparr>"

definition mark_error :: "string \<Rightarrow> string \<Rightarrow> mesh_db \<Rightarrow> mesh_db" where
  "mark_error sid msg db = upd_peer sid (\<lambda>r. r\<lparr>wp_status := ''error'', wp_error := Some msg\<rparr>) db"

text \<open>How a phase ends: it goes on with the peers, results, database and environment; it aborts with
  a summary; or the handler fails.\<close>

datatype 'w phase =
    Continue "peer list" "per_peer list" mesh_db 'w
  | Aborted "per_peer list" mesh_db 'w
  | Failed app_error mesh_db 'w

definition abort_peer ::
  "string \<Rightarrow> string \<Rightarrow> string \<Rightarrow> per_peer list \<Rightarrow> mesh_db \<Rightarrow> 'w \<Rightarrow> 'w phase" where
  "abort_peer sid full shown res db w =
     Aborted (res @ [entry sid ''error'' (Some shown)]) (mark_error sid full db) w"

definition err_or :: "string option \<Rightarrow> string \<Rightarrow> string" where
  "err_or e d = (case e of Some m \<Rightarrow> m | None \<Rightarrow> d)"

text \<open>Phase 1 for the remaining peers; \<open>done\<close> are the peers already handled.\<close>

fun key_phase ::
  "'w caller \<Rightarrow> peer list \<Rightarrow> per_peer list \<Rightarrow> mesh_db \<Rightarrow> 'w \<Rightarrow> peer list \<Rightarrow> 'w phase" where
  "key_phase call pdone res db w [] = Continue pdone res db w"
| "key_phase call pdone res db w (p # ps) =
     (let sid = server_id p
      in if public_key p \<noteq> None then
           key_phase call (pdone @ [p]) (res @ [entry sid ''keyed'' None]) db w ps
         else
           (case call db sid CInstall w of
              (Transport e, w1) \<Rightarrow>
                (let msg = ''install_wireguard transport: '' @ e in abort_peer sid msg msg res db w1)
            | (Answer ok e _, w1) \<Rightarrow>
                if \<not> ok then
                  (let msg = err_or e ''install rejected''
                   in abort_peer sid (''install_wireguard: '' @ msg) msg res db w1)
                else
                  (case call db sid CKeypair w1 of
                     (Transport e, w2) \<Rightarrow>
                       (let msg = ''generate_keypair transport: '' @ e in abort_peer sid msg msg res db w2)
                   | (Answer True _ (Some v), w2) \<Rightarrow>
                       (case v of
                          None \<Rightarrow> Failed (Internal ''helper returned no public_key field on generate_keypair'') db w2
                        | Some pk \<Rightarrow>
                            key_phase call (pdone @ [p\<lparr>public_key := Some pk\<rparr>])
                              (res @ [entry sid ''keyed'' None])
                              (upd_peer sid (\<lambda>r. r\<lparr>wp_key := Some pk, wp_status := ''keyed'', wp_error := None\<rparr>) db)
                              w2 ps)
                   | (Answer _ e _, w2) \<Rightarrow>
                       (let msg = err_or e ''no keypair returned''
                        in abort_peer sid (''generate_keypair: '' @ msg) msg res db w2))))"

text \<open>The final state of a peer replaces its first entry, or is added.\<close>

fun set_entry :: "per_peer \<Rightarrow> per_peer list \<Rightarrow> per_peer list" where
  "set_entry e [] = [e]"
| "set_entry e (x # xs) = (if pp_server x = pp_server e then e # xs else x # set_entry e xs)"

text \<open>Phase 2 for the remaining peers: push the rendered configuration and bring it up.\<close>

fun push_phase ::
  "'w caller \<Rightarrow> mesh_config \<Rightarrow> time \<Rightarrow> peer list \<Rightarrow> per_peer list \<Rightarrow> mesh_db \<Rightarrow> 'w \<Rightarrow> peer list \<Rightarrow> 'w phase" where
  "push_phase call cfg now all res db w [] = Continue all res db w"
| "push_phase call cfg now all res db w (p # ps) =
     (let sid = server_id p
      in case call db sid (CWrite (render_wg_conf p all cfg)) w of
           (Transport e, w1) \<Rightarrow>
             (let msg = ''write_config transport: '' @ e in abort_peer sid msg msg res db w1)
         | (Answer ok e _, w1) \<Rightarrow>
             if \<not> ok then
               (let msg = err_or e ''write_config rejected''
                in abort_peer sid (''write_config: '' @ msg) msg res db w1)
             else
               (case call db sid CUp w1 of
                  (Transport e, w2) \<Rightarrow> (let msg = ''up transport: '' @ e in abort_peer sid msg msg res db w2)
                | (Answer ok2 e2 _, w2) \<Rightarrow>
                    if \<not> ok2 then
                      (let msg = err_or e2 ''up rejected'' in abort_peer sid (''up: '' @ msg) msg res db w2)
                    else
                      push_phase call cfg now all (set_entry (entry sid ''active'' None) res)
                        (upd_peer sid (\<lambda>r. r\<lparr>wp_status := ''active'', wp_error := None,
                                              wp_deployed := Some now\<rparr>) db) w2 ps))"

type_synonym summary = "bool \<times> string \<times> per_peer list"

definition summarise :: "per_peer list \<Rightarrow> string \<Rightarrow> summary" where
  "summarise res overall = (overall = ''ok'', overall, res)"

definition configure_mesh ::
  "'w caller \<Rightarrow> time \<Rightarrow> mesh_db \<Rightarrow> 'w \<Rightarrow> (app_error + summary) \<times> mesh_db \<times> 'w" where
  "configure_mesh call now db w =
     (case mesh_config_load db of
        Inl e \<Rightarrow> (Inl e, db, w)
      | Inr cfg \<Rightarrow>
          if \<not> mc_enabled cfg then
            (Inl (BadRequest (te ''errors.network.enable_before_configure'')), db, w)
          else
            (case peers_load_all db of
               Inl e \<Rightarrow> (Inl e, db, w)
             | Inr ps \<Rightarrow>
                 if ps = [] then (Inl (BadRequest (te ''errors.network.no_peers_allocated'')), db, w)
                 else
                   (case externals_load_all db of
                      Inl e \<Rightarrow> (Inl e, db, w)
                    | Inr xs \<Rightarrow>
                        (case key_phase call [] [] db w ps of
                           Failed e db1 w1 \<Rightarrow> (Inl e, db1, w1)
                         | Aborted res db1 w1 \<Rightarrow> (Inr (summarise res ''aborted''), db1, w1)
                         | Continue ps1 res db1 w1 \<Rightarrow>
                             (case push_phase call cfg now (ps1 @ map as_render_peer xs) res db1 w1 ps1 of
                                Failed e db2 w2 \<Rightarrow> (Inl e, db2, w2)
                              | Aborted res2 db2 w2 \<Rightarrow> (Inr (summarise res2 ''aborted''), db2, w2)
                              | Continue _ res2 db2 w2 \<Rightarrow> (Inr (summarise res2 ''ok''), db2, w2))))))"

fun teardown ::
  "'w node_call \<Rightarrow> bool \<Rightarrow> per_peer list \<Rightarrow> bool \<Rightarrow> 'w \<Rightarrow> peer list \<Rightarrow> per_peer list \<times> bool \<times> 'w" where
  "teardown call uninstall res failed w [] = (res, failed, w)"
| "teardown call uninstall res failed w (p # ps) =
     (let sid = server_id p;
          (down, w1) = call sid CDown w;
          down_ok = (case down of Answer ok _ _ \<Rightarrow> ok | Transport _ \<Rightarrow> False);
          down_msg = (case down of Answer ok e _ \<Rightarrow> if ok then None else e
                      | Transport e \<Rightarrow> Some (''transport: '' @ e));
          (un_msg, w2) =
            (if uninstall \<and> down_ok then
               (case call sid CUninstall w1 of
                  (Answer ok e _, w') \<Rightarrow> (if ok then None else Some (err_or e ''uninstall rejected''), w')
                | (Transport e, w') \<Rightarrow> (Some (''uninstall transport: '' @ e), w'))
             else (None, w1));
          good = (down_ok \<and> un_msg = None);
          err = (case down_msg of Some m \<Rightarrow> Some m | None \<Rightarrow> un_msg)
      in teardown call uninstall (res @ [entry sid (if good then ''torndown'' else ''error'') err])
           (failed \<or> \<not> good) w2 ps)"

definition disable_mesh ::
  "'w caller \<Rightarrow> bool \<Rightarrow> time \<Rightarrow> mesh_db \<Rightarrow> 'w \<Rightarrow> (app_error + summary) \<times> mesh_db \<times> 'w" where
  "disable_mesh call uninstall now db w =
     (case peers_load_all db of
        Inl e \<Rightarrow> (Inl e, db, w)
      | Inr ps \<Rightarrow>
          (let (res, failed, w1) = teardown (call db) uninstall [] False w ps;
               db1 = db\<lparr>peers := [], config := map_option (\<lambda>r. r\<lparr>cr_enabled := 0, cr_updated := now\<rparr>)
                                                (config db)\<rparr>
           in (Inr (summarise res (if failed then ''partial'' else ''ok'')), db1, w1)))"

section \<open>Lemmas on rendering\<close>

definition peer_lines :: "mesh_config \<Rightarrow> peer \<Rightarrow> string \<Rightarrow> string list" where
  "peer_lines cfg p pk =
     [[], ''[Peer]'', ''# '' @ server_name p, ''PublicKey = '' @ pk, ''Endpoint = '' @ endpoint p,
      ''AllowedIPs = '' @ show_ipv4 (assigned_ip p) @ ''/32''] @
     (if mc_keepalive cfg > 0 then [''PersistentKeepalive = '' @ dec (unat (mc_keepalive cfg))] else [])"

text \<open>The peers a configuration lists: all others that have a key.\<close>

definition listed :: "peer \<Rightarrow> peer list \<Rightarrow> (peer \<times> string) list" where
  "listed me ps = List.map_filter
     (\<lambda>p. if server_id p = server_id me then None else map_option (Pair p) (public_key p)) ps"

definition render_lines :: "peer \<Rightarrow> peer list \<Rightarrow> mesh_config \<Rightarrow> string list" where
  "render_lines me ps cfg =
     [''[Interface]'', ''Address = '' @ show_ipv4 (assigned_ip me) @ ''/32'',
      ''ListenPort = '' @ dec (unat (mc_port cfg))] @
     concat (map (\<lambda>(p, pk). peer_lines cfg p pk) (listed me ps))"

lemma listed_Cons:
  "listed me (p # ps) =
     (if server_id p = server_id me then listed me ps
      else (case public_key p of None \<Rightarrow> listed me ps | Some pk \<Rightarrow> (p, pk) # listed me ps))"
  by (simp add: listed_def List.map_filter_simps split: option.split)

lemma listed_Nil [simp]: "listed me [] = []"
  by (simp add: listed_def List.map_filter_simps)

lemma peer_block_lines: "peer_block cfg p pk = unlines (peer_lines cfg p pk)"
  by (simp add: peer_block_def peer_lines_def unlines_Cons)

lemma render_peers_lines:
  "render_peers me cfg ps = unlines (concat (map (\<lambda>(p, pk). peer_lines cfg p pk) (listed me ps)))"
  by (induction ps) (simp_all add: listed_Cons peer_block_lines unlines_append split: option.split)

lemma render_wg_conf_lines: "render_wg_conf me ps cfg = unlines (render_lines me ps cfg)"
  by (simp add: render_wg_conf_def render_lines_def render_peers_lines unlines_Cons unlines_append)

text \<open>What the configuration is meant to say.\<close>

definition peer_directives :: "mesh_config \<Rightarrow> peer \<Rightarrow> string \<Rightarrow> (wg_section \<times> string \<times> string) list" where
  "peer_directives cfg p pk =
     [(Peer, ''PublicKey'', trim pk), (Peer, ''Endpoint'', trim (endpoint p)),
      (Peer, ''AllowedIPs'', show_ipv4 (assigned_ip p) @ ''/32'')] @
     (if mc_keepalive cfg > 0 then [(Peer, ''PersistentKeepalive'', dec (unat (mc_keepalive cfg)))] else [])"

definition mesh_directives :: "peer \<Rightarrow> peer list \<Rightarrow> mesh_config \<Rightarrow> (wg_section \<times> string \<times> string) list" where
  "mesh_directives me ps cfg =
     [(Interface, ''Address'', show_ipv4 (assigned_ip me) @ ''/32''),
      (Interface, ''ListenPort'', dec (unat (mc_port cfg)))] @
     concat (map (\<lambda>(p, pk). peer_directives cfg p pk) (listed me ps))"

text \<open>Texts without a newline, which a line can carry.\<close>

definition one_line :: "string \<Rightarrow> bool" where
  "one_line s = (NL \<notin> set s)"

definition renderable :: "peer \<Rightarrow> bool" where
  "renderable p = (one_line (server_name p) \<and> one_line (endpoint p) \<and>
                   (case public_key p of None \<Rightarrow> True | Some k \<Rightarrow> one_line k))"

lemma trim_trim_end: "trim (trim_end s) = trim s"
proof (cases "\<forall>c \<in> set s. is_ws c")
  case True
  then have "trim_end s = []" by (simp add: trim_end_eq_Nil)
  then show ?thesis using True by (simp add: trim_eq_Nil [THEN iffD2])
next
  case False
  then have "\<exists>x \<in> set s. \<not> is_ws x" by blast
  from split_list_first_prop [OF this] obtain a c b where
    s: "s = a @ c # b" "\<not> is_ws c" "\<forall>x \<in> set a. is_ws x" by blast
  have "trim_start (a @ c # x) = c # x" for x
    using s(2,3) by (simp add: trim_start_def dropWhile_append2)
  then show ?thesis
    using s trim_end_append_nonws [of c a b] by (simp add: trim_def trim_end_Cons_nonws trim_end_idem)
qed

lemma directive_line_kind:
  assumes "list_all (\<lambda>c. is_alpha c) k" "k \<noteq> []"
  shows "line_kind (k @ '' = '' @ v) = Directive k (trim v)"
proof -
  have al: "\<not> is_ws c \<and> c \<noteq> CHR ''='' \<and> c \<noteq> CHR ''#'' \<and> c \<noteq> CHR ''[''" if "is_alpha c" for c
    using that by (auto simp: is_alpha_def is_ws_def Let_def)
  obtain c k' where k: "k = c # k'" using assms(2) by (cases k) auto
  have c: "\<not> is_ws c" "c \<noteq> CHR ''#''" "c \<noteq> CHR ''[''" using assms(1) al k by auto
  have "trim (k @ '' = '' @ v) = trim_end ((k @ '' '') @ [CHR ''=''] @ ('' '' @ v))"
    using c by (simp add: k trim_Cons_nonws trim_end_Cons_nonws)
  also have "\<dots> = (k @ '' '') @ [CHR ''=''] @ trim_end ('' '' @ v)"
    by (rule trim_end_append_nonws) (simp add: is_ws_def)
  finally have t: "trim (k @ '' = '' @ v) = (k @ '' '') @ CHR ''='' # trim_end ('' '' @ v)" by simp
  have "CHR ''='' \<notin> set (k @ '' '')" using assms(1) al by (auto simp: list_all_iff)
  from split_once_notin [OF this] have s: "split_once (CHR ''='') (trim (k @ '' = '' @ v)) = Some (k @ '' '', trim_end ('' '' @ v))"
    by (simp only: t)
  have "last k \<in> set k" using assms(2) by simp
  then have "trim k = k" using c al assms k by (intro trim_id) (auto simp: list_all_iff)
  then have kk: "trim (k @ '' '') = k" using trim_snoc_ws [of "CHR '' ''" k] by (simp add: is_ws_def)
  have vv: "trim (trim_end ('' '' @ v)) = trim v"
    unfolding trim_trim_end by (simp add: trim_def trim_start_def is_ws_def)
  show ?thesis
    unfolding line_kind_def Let_def s using c t by (simp add: k starts_with_def kk [simplified] kk [unfolded k, simplified] vv [simplified])
qed

lemma comment_line_kind: "line_kind (''# '' @ v) = Blank"
proof -
  have "trim (''# '' @ v) = CHR ''#'' # trim_end ('' '' @ v)"
    using trim_Cons_nonws [of "CHR ''#''" "'' '' @ v"] by (simp add: is_ws_def)
  then show ?thesis by (simp add: line_kind_def starts_with_def)
qed

lemma fixed_line_kinds:
  "line_kind [] = Blank" "line_kind ''[Interface]'' = Header ''Interface''" "line_kind ''[Peer]'' = Header ''Peer''"
  "line_kind (''PublicKey = '' @ v) = Directive ''PublicKey'' (trim v)"
  "line_kind (''Endpoint = '' @ v) = Directive ''Endpoint'' (trim v)"
  "line_kind (''AllowedIPs = '' @ v) = Directive ''AllowedIPs'' (trim v)"
  "line_kind (''PersistentKeepalive = '' @ v) = Directive ''PersistentKeepalive'' (trim v)"
  "line_kind (''Address = '' @ v) = Directive ''Address'' (trim v)"
  "line_kind (''ListenPort = '' @ v) = Directive ''ListenPort'' (trim v)"
  using directive_line_kind [of "''PublicKey''" v] directive_line_kind [of "''Endpoint''" v]
    directive_line_kind [of "''AllowedIPs''" v] directive_line_kind [of "''PersistentKeepalive''" v]
    directive_line_kind [of "''Address''" v] directive_line_kind [of "''ListenPort''" v]
  by (simp_all add: is_alpha_def) (simp_all add: line_kind_def, code_simp+)

lemma trim_dec: "trim (dec n) = dec n"
proof (rule trim_id)
  have "is_digit (hd (dec n))" "is_digit (last (dec n))"
    using dec_set [of "hd (dec n)" n] dec_set [of "last (dec n)" n] by simp_all
  then show "dec n = [] \<or> \<not> is_ws (hd (dec n)) \<and> \<not> is_ws (last (dec n))" using digit_not_ws by blast
qed

lemma trim_address: "trim (show_ipv4 ip @ ''/32'') = show_ipv4 ip @ ''/32''"
proof (rule trim_id)
  have "is_digit (hd (dec n))" for n using dec_set [of "hd (dec n)" n] by simp
  then show "show_ipv4 ip @ ''/32'' = [] \<or>
      \<not> is_ws (hd (show_ipv4 ip @ ''/32'')) \<and> \<not> is_ws (last (show_ipv4 ip @ ''/32''))"
    using digit_not_ws by (simp add: show_ipv4_def hd_append) (simp add: is_ws_def)
qed

lemma listed_in: "(p, pk) \<in> set (listed me ps) \<Longrightarrow> p \<in> set ps \<and> public_key p = Some pk \<and> server_id p \<noteq> server_id me"
  by (induction ps) (auto simp: listed_Cons split: if_splits option.splits)

lemma peer_lines_newline: "renderable p \<Longrightarrow> one_line pk \<Longrightarrow> list_all (\<lambda>l. NL \<notin> set l) (peer_lines cfg p pk)"
  using dec_set [of NL] by (auto simp: peer_lines_def renderable_def one_line_def show_ipv4_def is_digit_def)

lemma render_lines_newline:
  assumes "list_all renderable ps"
  shows "list_all (\<lambda>l. NL \<notin> set l) (render_lines me ps cfg)"
proof -
  have "list_all (\<lambda>l. NL \<notin> set l) (peer_lines cfg p pk)" if "(p, pk) \<in> set (listed me ps)" for p pk
  proof -
    have "renderable p" "public_key p = Some pk" using listed_in [OF that] assms by (auto simp: list_all_iff)
    then show ?thesis by (intro peer_lines_newline) (simp_all add: renderable_def)
  qed
  moreover have "NL \<notin> set (dec n)" for n using dec_set [of NL n] by (auto simp: is_digit_def)
  ultimately show ?thesis by (auto simp: render_lines_def list_all_iff show_ipv4_def)
qed

lemma peer_lines_directives:
  "directives s (peer_lines cfg p pk @ ls) = peer_directives cfg p pk @ directives Peer ls"
  by (simp add: peer_lines_def peer_directives_def fixed_line_kinds [simplified] comment_line_kind [simplified]
      trim_address [simplified] trim_dec)

lemma peers_directives:
  "directives s (concat (map (\<lambda>(p, pk). peer_lines cfg p pk) xs)) =
   concat (map (\<lambda>(p, pk). peer_directives cfg p pk) xs)"
  by (induction xs arbitrary: s) (auto simp: peer_lines_directives)

lemma render_lines_directives: "directives NoSection (render_lines me ps cfg) = mesh_directives me ps cfg"
  by (simp add: render_lines_def mesh_directives_def fixed_line_kinds [simplified]
      trim_address [simplified] trim_dec peers_directives)

lemma peer_lines_valid:
  "validate_loop f s 0 (peer_lines cfg p pk @ ls) = Inr () \<longleftrightarrow> validate_loop f Peer 0 ls = Inr ()"
  by (simp add: peer_lines_def validate_loop_Cons0 fixed_line_kinds [simplified] comment_line_kind [simplified]
      whitelist_def allowed_peer_def del: validate_loop.simps)

lemma peers_valid: "validate_loop f s 0 (concat (map (\<lambda>(p, pk). peer_lines cfg p pk) xs)) = Inr ()"
  by (induction xs arbitrary: s) (auto simp: peer_lines_valid)

lemma render_lines_valid: "validate_loop f NoSection 0 (render_lines me ps cfg) = Inr ()"
  by (simp add: render_lines_def validate_loop_Cons0 fixed_line_kinds [simplified] whitelist_def
      allowed_interface_def peers_valid del: validate_loop.simps)

lemma render_facts:
  assumes "list_all renderable ps"
  shows "directives NoSection (lines (render_wg_conf me ps cfg)) = mesh_directives me ps cfg"
    and "validate_wg_config_no_privkey (render_wg_conf me ps cfg) = Inr ()"
proof -
  let ?ls = "render_lines me ps cfg"
  have t: "map trim (lines (render_wg_conf me ps cfg)) = map trim ?ls"
    unfolding render_wg_conf_lines by (rule trim_lines_unlines [OF render_lines_newline [OF assms]])
  show "directives NoSection (lines (render_wg_conf me ps cfg)) = mesh_directives me ps cfg"
    using directives_trim [OF t] render_lines_directives by simp
  show "validate_wg_config_no_privkey (render_wg_conf me ps cfg) = Inr ()"
    using validate_loop_trim [OF t, of True NoSection 1] validate_loop_number [of True NoSection 1 ?ls 0]
      render_lines_valid by (simp add: validate_wg_config_no_privkey_def validate_wg_config_inner_def)
qed

section \<open>Lemmas on enabling\<close>

lemma find_take_used:
  "distinct hs \<Longrightarrow> find (\<lambda>x. x \<notin> set (take k hs)) hs = (if k < length hs then Some (hs ! k) else None)"
proof (induction hs arbitrary: k)
  case (Cons h hs)
  show ?case
  proof (cases k)
    case (Suc m)
    have "find (\<lambda>x. x \<notin> set (take k (h # hs))) hs = find (\<lambda>x. x \<notin> set (take m hs)) hs"
      using Cons.prems Suc by (intro find_cong) auto
    then show ?thesis using Cons Suc by simp
  qed simp
qed simp

lemma allocate_take:
  assumes "subnet_ok sn"
  shows "allocate_ip sn (take k (host_list sn)) =
    Some (if k < length (host_list sn) then Inr (host_list sn ! k)
          else Inl ''subnet is exhausted (no free host addresses)'')"
  using find_take_used [OF host_list_distinct [OF assms], of k]
  by (simp add: allocate_ip_def alloc_loop_hosts [OF assms])

text \<open>The rows enabling writes: the servers in order with the lowest hosts in order.\<close>

definition plan_rows :: "mesh_config \<Rightarrow> time \<Rightarrow> server_row list \<Rightarrow> ipv4 list \<Rightarrow> peer_row list" where
  "plan_rows cfg now ss ips =
     map (\<lambda>(s, ip). pending_row now (sr_id s) ip (authority (sr_host s) (unat (mc_port cfg)))) (zip ss ips)"

lemma wp_ip_plan_rows: "map wp_ip (plan_rows cfg now ss ips) = map show_ipv4 (take (length ss) ips)"
  by (induction ss arbitrary: ips) (simp_all add: plan_rows_def pending_row_def zip_Cons1 take_Cons' split: list.split)

lemma wp_server_plan_rows: "map wp_server (plan_rows cfg now ss ips) = map sr_id (take (length ips) ss)"
  by (induction ss arbitrary: ips) (simp_all add: plan_rows_def pending_row_def zip_Cons1 take_Cons' split: list.split)

lemma zip_snoc: "length pre < length hs \<Longrightarrow> zip (pre @ [s]) hs = zip pre hs @ [(s, hs ! length pre)]"
proof (induction pre arbitrary: hs)
  case Nil
  then show ?case by (cases hs) simp_all
next
  case (Cons x pre)
  then show ?case by (cases hs) simp_all
qed

lemma enable_loop_step:
  assumes ok: "subnet_ok sn" and d: "distinct (map sr_id (pre @ s # ss))" and k: "length pre < length (host_list sn)"
  shows "enable_loop sn cfg now (take (length pre) (host_list sn)) (plan_rows cfg now pre (host_list sn)) (s # ss) =
    enable_loop sn cfg now (take (length (pre @ [s])) (host_list sn)) (plan_rows cfg now (pre @ [s]) (host_list sn)) ss"
proof -
  let ?hs = "host_list sn" and ?k = "length pre"
  have new: "sr_id s \<notin> set (map wp_server (plan_rows cfg now pre ?hs))"
    using d k by (simp add: wp_server_plan_rows)
  have "?hs ! ?k \<notin> set (take ?k ?hs)"
    using host_list_distinct [OF ok] k by (auto simp: in_set_conv_nth nth_eq_iff_index_eq)
  then have "show_ipv4 (?hs ! ?k) \<notin> set (map wp_ip (plan_rows cfg now pre ?hs))"
    unfolding wp_ip_plan_rows by (auto simp: show_ipv4_inj)
  with new have "\<not> list_ex (\<lambda>r. wp_server r = sr_id s \<or> wp_ip r = show_ipv4 (?hs ! ?k)) (plan_rows cfg now pre ?hs)"
    by (auto simp: list_ex_iff image_iff)
  moreover have "plan_rows cfg now (pre @ [s]) ?hs = plan_rows cfg now pre ?hs @
      [pending_row now (sr_id s) (?hs ! ?k) (authority (sr_host s) (unat (mc_port cfg)))]"
    using zip_snoc [OF k, of s] by (simp add: plan_rows_def)
  ultimately have "insert_peer now (sr_id s) (?hs ! ?k) (authority (sr_host s) (unat (mc_port cfg)))
      (plan_rows cfg now pre ?hs) = Inr (plan_rows cfg now (pre @ [s]) ?hs)"
    by (simp add: insert_peer_def)
  then show ?thesis using k by (simp add: allocate_take [OF ok] take_Suc_conv_app_nth)
qed

lemma enable_loop_plan:
  assumes ok: "subnet_ok sn"
  shows "distinct (map sr_id (pre @ ss)) \<Longrightarrow> length pre \<le> length (host_list sn) \<Longrightarrow>
    enable_loop sn cfg now (take (length pre) (host_list sn)) (plan_rows cfg now pre (host_list sn)) ss =
    Some (if length (pre @ ss) \<le> length (host_list sn) then Inr (plan_rows cfg now (pre @ ss) (host_list sn))
          else Inl (Internal ''subnet is exhausted (no free host addresses)''))"
proof (induction ss arbitrary: pre)
  case (Cons s ss)
  show ?case
  proof (cases "length pre < length (host_list sn)")
    case False
    then show ?thesis using allocate_take [OF ok, of "length pre"] Cons.prems(2) by simp
  next
    case True
    then show ?thesis
      using enable_loop_step [OF ok Cons.prems(1) True] Cons.IH [of "pre @ [s]"] Cons.prems by simp
  qed
qed simp

lemma distinct_provisioned: "distinct (map sr_id (servers db)) \<Longrightarrow> distinct (map sr_id (provisioned db))"
proof -
  assume d: "distinct (map sr_id (servers db))"
  have sub: "set (provisioned db) \<subseteq> set (servers db)" by (auto simp: provisioned_def Let_def)
  have "distinct (provisioned db)" using d by (auto simp: provisioned_def Let_def distinct_map)
  then show ?thesis using d sub inj_on_subset by (auto simp: distinct_map)
qed

definition mesh_ready :: "mesh_db \<Rightarrow> mesh_config \<Rightarrow> subnet \<Rightarrow> bool" where
  "mesh_ready db cfg sn \<longleftrightarrow>
     mesh_config_load db = Inr cfg \<and> subnet_parse (mc_subnet cfg) = Inr sn \<and> \<not> mc_enabled cfg \<and>
     peers db = [] \<and> distinct (map sr_id (servers db))"

lemma enable_mesh_ready:
  assumes "mesh_ready db cfg sn"
  shows "enable_mesh now db = Some
    (if length (provisioned db) \<le> length (host_list sn) then
       (Inr (length (provisioned db)),
        db\<lparr>peers := plan_rows cfg now (provisioned db) (host_list sn),
           config := map_option (\<lambda>r. r\<lparr>cr_enabled := 1, cr_updated := now\<rparr>) (config db)\<rparr>)
     else (Inl (Internal ''subnet is exhausted (no free host addresses)''), db))"
  using assms distinct_provisioned [of db]
    enable_loop_plan [of sn "[]" "provisioned db" cfg now] subnet_parse_ok [of "mc_subnet cfg" sn]
  by (simp add: enable_mesh_def Let_def mesh_ready_def plan_rows_def List.map_filter_simps)

section \<open>Lemmas on configuring\<close>

text \<open>What no phase touches: the configuration row, the servers, and which server has which address.\<close>

definition mesh_same :: "mesh_db \<Rightarrow> mesh_db \<Rightarrow> bool" where
  "mesh_same db db' \<longleftrightarrow> config db' = config db \<and> servers db' = servers db \<and> externals db' = externals db \<and>
     map (\<lambda>r. (wp_server r, wp_ip r)) (peers db') = map (\<lambda>r. (wp_server r, wp_ip r)) (peers db)"

lemma mesh_same_refl [simp]: "mesh_same db db"
  by (simp add: mesh_same_def)

lemma mesh_same_trans: "mesh_same a b \<Longrightarrow> mesh_same b c \<Longrightarrow> mesh_same a c"
  by (simp add: mesh_same_def)

lemma upd_peer_same:
  "(\<And>r. wp_server (f r) = wp_server r \<and> wp_ip (f r) = wp_ip r) \<Longrightarrow> mesh_same db (upd_peer sid f db)"
  by (simp add: mesh_same_def upd_peer_def map_sql_update)

lemma mark_error_same: "mesh_same db (mark_error sid msg db)"
  by (simp add: mark_error_def upd_peer_same)

fun phase_db :: "'w phase \<Rightarrow> mesh_db" where
  "phase_db (Continue _ _ db _) = db"
| "phase_db (Aborted _ db _) = db"
| "phase_db (Failed _ db _) = db"

lemma abort_peer_db [simp]: "phase_db (abort_peer sid full shown res db w) = mark_error sid full db"
  by (simp add: abort_peer_def)

lemma key_phase_same: "mesh_same db (phase_db (key_phase call pdone res db w ps))"
proof (induction ps arbitrary: pdone res db w)
  case (Cons p ps)
  have u: "mesh_same db (upd_peer (server_id p)
      (\<lambda>r. r\<lparr>wp_key := Some pk, wp_status := ''keyed'', wp_error := None\<rparr>) db)" for pk
    by (rule upd_peer_same) simp
  show ?case
    by (auto simp: Let_def mark_error_same Cons.IH intro: mesh_same_trans [OF u Cons.IH]
        split: call_result.split prod.split option.split bool.split)
qed simp

lemma push_phase_same: "mesh_same db (phase_db (push_phase call cfg now all res db w ps))"
proof (induction ps arbitrary: res db w)
  case (Cons p ps)
  have u: "mesh_same db (upd_peer (server_id p)
      (\<lambda>r. r\<lparr>wp_status := ''active'', wp_error := None, wp_deployed := Some now\<rparr>) db)"
    by (rule upd_peer_same) simp
  show ?case
    by (auto simp: Let_def mark_error_same intro: mesh_same_trans [OF u Cons.IH]
        split: call_result.split prod.split)
qed simp

lemma key_phase_res: "key_phase call pdone res db w ps = ph \<Longrightarrow> mesh_same db (phase_db ph)"
  using key_phase_same [of db call pdone res w ps] by simp

lemma push_phase_res: "push_phase call cfg now all res db w ps = ph \<Longrightarrow> mesh_same db (phase_db ph)"
  using push_phase_same [of db call cfg now all res w ps] by simp

lemma configure_mesh_same: "mesh_same db (fst (snd (configure_mesh call now db w)))"
  unfolding configure_mesh_def
  by (auto split: sum.splits phase.splits dest!: key_phase_res push_phase_res intro: mesh_same_trans)

text \<open>Rows of a server with a key, and rows of an active server.\<close>

definition keyed :: "mesh_db \<Rightarrow> string \<Rightarrow> bool" where
  "keyed db sid = list_all (\<lambda>r. wp_server r = sid \<longrightarrow> wp_key r \<noteq> None) (peers db)"

definition activated :: "mesh_db \<Rightarrow> string \<Rightarrow> bool" where
  "activated db sid = list_all (\<lambda>r. wp_server r = sid \<longrightarrow> wp_status r = ''active'') (peers db)"

lemma keyed_upd: "keyed db s \<Longrightarrow> (\<And>r. wp_key r \<noteq> None \<Longrightarrow> wp_key (f r) \<noteq> None) \<Longrightarrow>
    (\<And>r. wp_server (f r) = wp_server r) \<Longrightarrow> keyed (upd_peer sid f db) s"
  by (auto simp: keyed_def upd_peer_def list_all_iff dest!: in_sql_update)

lemma keyed_set: "(\<And>r. wp_key (f r) \<noteq> None) \<Longrightarrow> keyed (upd_peer sid f db) sid"
  by (auto simp: keyed_def upd_peer_def list_all_iff dest!: in_sql_update)

lemma activated_upd: "activated db s \<Longrightarrow> (\<And>r. wp_status (f r) = ''active'') \<Longrightarrow>
    (\<And>r. wp_server (f r) = wp_server r) \<Longrightarrow> activated (upd_peer sid f db) s"
  by (auto simp: activated_def upd_peer_def list_all_iff dest!: in_sql_update)

lemma activated_set: "(\<And>r. wp_status (f r) = ''active'') \<Longrightarrow> activated (upd_peer sid f db) sid"
  by (auto simp: activated_def upd_peer_def list_all_iff dest!: in_sql_update)

lemma key_phase_Continue:
  "key_phase call pdone res db w ps = Continue ps1 res1 db1 w1 \<Longrightarrow>
   (\<And>p. p \<in> set pdone \<Longrightarrow> public_key p \<noteq> None \<and> keyed db (server_id p)) \<Longrightarrow>
   (\<And>p. p \<in> set ps \<Longrightarrow> public_key p \<noteq> None \<Longrightarrow> keyed db (server_id p)) \<Longrightarrow>
   map server_id ps1 = map server_id (pdone @ ps) \<and>
   (\<forall>p \<in> set ps1. public_key p \<noteq> None \<and> keyed db1 (server_id p))"
proof (induction ps arbitrary: pdone res db w)
  case (Cons p ps)
  show ?case
  proof (cases "public_key p = None")
    case False
    then have e: "key_phase call (pdone @ [p]) (res @ [entry (server_id p) ''keyed'' None]) db w ps = Continue ps1 res1 db1 w1"
      using Cons.prems(1) by simp
    show ?thesis using Cons.IH [OF e] Cons.prems(2,3) False by auto
  next
    case True
    let ?f = "\<lambda>pk r :: peer_row. r\<lparr>wp_key := Some pk, wp_status := ''keyed'', wp_error := None\<rparr>"
    from True Cons.prems(1) obtain pk w2 where e:
      "key_phase call (pdone @ [p\<lparr>public_key := Some pk\<rparr>]) (res @ [entry (server_id p) ''keyed'' None])
         (upd_peer (server_id p) (?f pk) db) w2 ps = Continue ps1 res1 db1 w1"
      by (auto simp: Let_def abort_peer_def split: call_result.splits prod.splits option.splits bool.splits if_splits)
    have k: "keyed db s \<Longrightarrow> keyed (upd_peer (server_id p) (?f pk) db) s" for s
      by (rule keyed_upd) simp_all
    have kp: "keyed (upd_peer (server_id p) (?f pk) db) (server_id p)" by (rule keyed_set) simp
    have d: "public_key q \<noteq> None \<and> keyed (upd_peer (server_id p) (?f pk) db) (server_id q)"
      if "q \<in> set (pdone @ [p\<lparr>public_key := Some pk\<rparr>])" for q
      using that Cons.prems(2) k kp by auto
    have r: "keyed (upd_peer (server_id p) (?f pk) db) (server_id q)"
      if "q \<in> set ps" "public_key q \<noteq> None" for q
      using that Cons.prems(3) k by simp
    from Cons.IH [OF e d r] show ?thesis by simp
  qed
qed auto

lemma push_phase_Continue:
  "push_phase call cfg now all res db w ps = Continue ps1 res1 db1 w1 \<Longrightarrow>
   (\<And>s. s \<in> A \<Longrightarrow> activated db s) \<Longrightarrow> (\<And>s. s \<in> K \<Longrightarrow> keyed db s) \<Longrightarrow>
   (\<forall>s \<in> A \<union> set (map server_id ps). activated db1 s) \<and> (\<forall>s \<in> K. keyed db1 s)"
proof (induction ps arbitrary: res db w A)
  case (Cons p ps)
  let ?f = "\<lambda>r :: peer_row. r\<lparr>wp_status := ''active'', wp_error := None, wp_deployed := Some now\<rparr>"
  from Cons.prems(1) obtain w2 where e:
    "push_phase call cfg now all (set_entry (entry (server_id p) ''active'' None) res)
       (upd_peer (server_id p) ?f db) w2 ps = Continue ps1 res1 db1 w1"
    by (auto simp: Let_def abort_peer_def split: call_result.splits prod.splits if_splits)
  have a: "activated (upd_peer (server_id p) ?f db) s" if "s \<in> insert (server_id p) A" for s
    using that Cons.prems(2) activated_upd [of db s ?f "server_id p"] activated_set [of ?f "server_id p" db] by auto
  have k: "keyed (upd_peer (server_id p) ?f db) s" if "s \<in> K" for s
    using Cons.prems(3) [OF that] by (rule keyed_upd) simp_all
  show ?case using Cons.IH [OF e, of "insert (server_id p) A"] a k by auto
qed auto


section \<open>The plan as a transition system\<close>

text \<open>The addresses of the plan: distinct hosts of the stored network, one per server, and none
  while the mesh is off.\<close>

definition plan_ok :: "config_row \<Rightarrow> peer_row list \<Rightarrow> bool" where
  "plan_ok r ps \<longleftrightarrow> (cr_enabled r = 0 \<longrightarrow> ps = []) \<and>
     (case subnet_parse (cr_subnet r) of
        Inl _ \<Rightarrow> False
      | Inr sn \<Rightarrow> distinct (map wp_server ps) \<and> distinct (map wp_ip ps) \<and>
          list_all (\<lambda>p. wp_ip p \<in> show_ipv4 ` set (host_list sn)) ps)"

definition mesh_inv :: "mesh_db \<Rightarrow> bool" where
  "mesh_inv db \<longleftrightarrow> distinct (map sr_id (servers db)) \<and>
     (case config db of None \<Rightarrow> peers db = [] | Some r \<Rightarrow> plan_ok r (peers db))"

lemma plan_ok_cong:
  assumes "map (\<lambda>r. (wp_server r, wp_ip r)) ps' = map (\<lambda>r. (wp_server r, wp_ip r)) ps"
  shows "plan_ok r ps' = plan_ok r ps"
proof -
  have s: "map wp_server ps' = map wp_server ps" and i: "map wp_ip ps' = map wp_ip ps"
    using arg_cong [OF assms, of "map fst"] arg_cong [OF assms, of "map snd"] by (simp_all add: o_def)
  have "(ps' = []) = (ps = [])" using arg_cong [OF i, of length] by auto
  moreover have "list_all (\<lambda>p. wp_ip p \<in> X) ps' = list_all (\<lambda>p. wp_ip p \<in> X) ps" for X
    using arg_cong [OF i, of "list_all (\<lambda>x. x \<in> X)"] by (simp add: list.pred_map o_def)
  ultimately show ?thesis by (simp add: plan_ok_def s i split: sum.split)
qed

lemma plan_ok_Nil [simp]: "plan_ok r [] \<longleftrightarrow> (\<exists>sn. subnet_parse (cr_subnet r) = Inr sn)"
  by (simp add: plan_ok_def split: sum.split)

lemma mesh_inv_same: "mesh_same db db' \<Longrightarrow> mesh_inv db \<Longrightarrow> mesh_inv db'"
proof -
  assume s: "mesh_same db db'" and iv: "mesh_inv db"
  have "(peers db' = []) = (peers db = [])"
    using s arg_cong [of _ _ length] unfolding mesh_same_def by (metis length_map length_0_conv)
  then show ?thesis
    using s iv plan_ok_cong [of "peers db'" "peers db"] by (cases "config db") (simp_all add: mesh_inv_def mesh_same_def)
qed

lemma plan_rows_ok:
  assumes "distinct (map sr_id ss)" "subnet_ok sn" "length ss \<le> length (host_list sn)"
    "subnet_parse (cr_subnet r) = Inr sn" "cr_enabled r \<noteq> 0"
  shows "plan_ok r (plan_rows cfg now ss (host_list sn))"
proof -
  have "inj_on show_ipv4 A" for A by (auto intro!: inj_onI simp: show_ipv4_inj)
  then have "distinct (map wp_ip (plan_rows cfg now ss (host_list sn)))"
    using host_list_distinct [OF assms(2)] by (simp add: wp_ip_plan_rows distinct_map)
  moreover have "wp_ip p \<in> show_ipv4 ` set (host_list sn)" if "p \<in> set (plan_rows cfg now ss (host_list sn))" for p
  proof -
    have "wp_ip p \<in> set (map wp_ip (plan_rows cfg now ss (host_list sn)))" using that by simp
    then show ?thesis unfolding wp_ip_plan_rows using set_take_subset by fastforce
  qed
  ultimately show ?thesis using assms by (simp add: plan_ok_def wp_server_plan_rows list_all_iff)
qed

lemma put_mesh_inv: "mesh_inv db \<Longrightarrow> mesh_inv (snd (put_mesh now body db))"
  by (auto simp: put_mesh_def mesh_inv_def mesh_config_load_def coalesce_def split: option.splits sum.splits)

lemma enable_mesh_unready:
  assumes e: "enable_mesh now db = Some (r, db')" and iv: "mesh_inv db" and no: "\<nexists>cfg sn. mesh_ready db cfg sn"
  shows "db' = db"
proof -
  have "peers db = []" if "config db = Some row" "cr_enabled row = 0" for row
    using iv that by (auto simp: mesh_inv_def plan_ok_def)
  then show ?thesis
    using e iv no
    by (auto simp: enable_mesh_def Let_def mesh_inv_def mesh_ready_def mesh_config_load_def
        split: option.splits sum.splits if_splits)
qed

lemma enable_mesh_inv:
  assumes e: "enable_mesh now db = Some (r, db')" and iv: "mesh_inv db"
  shows "mesh_inv db'"
proof (cases "\<exists>cfg sn. mesh_ready db cfg sn")
  case True
  then obtain cfg sn where rdy: "mesh_ready db cfg sn" by blast
  then obtain row where row: "config db = Some row" "subnet_parse (cr_subnet row) = Inr sn"
    by (auto simp: mesh_ready_def mesh_config_load_def split: option.splits)
  show ?thesis
  proof (cases "length (provisioned db) \<le> length (host_list sn)")
    case True
    have "plan_ok (row\<lparr>cr_enabled := 1, cr_updated := now\<rparr>) (plan_rows cfg now (provisioned db) (host_list sn))"
      using rdy row True distinct_provisioned [of db] subnet_parse_ok [OF row(2)]
      by (intro plan_rows_ok) (auto simp: mesh_ready_def)
    then show ?thesis using e iv row True by (auto simp: enable_mesh_ready [OF rdy] mesh_inv_def)
  next
    case False
    then show ?thesis using e iv by (simp add: enable_mesh_ready [OF rdy])
  qed
next
  case False
  then show ?thesis using enable_mesh_unready [OF e iv] iv by simp
qed

lemma disable_mesh_db:
  "fst (snd (disable_mesh call uninstall now db w)) =
     (case peers_load_all db of Inl e \<Rightarrow> db | Inr ps \<Rightarrow>
        db\<lparr>peers := [], config := map_option (\<lambda>r. r\<lparr>cr_enabled := 0, cr_updated := now\<rparr>) (config db)\<rparr>)"
  by (simp add: disable_mesh_def split: sum.split prod.split)

lemma disable_mesh_inv: "mesh_inv db \<Longrightarrow> mesh_inv (fst (snd (disable_mesh call uninstall now db w)))"
  by (auto simp: disable_mesh_db mesh_inv_def plan_ok_def split: sum.splits option.splits)

lemma configure_ok:
  assumes "configure_mesh call now db w = (Inr (s, overall, res), db', w')" "s"
    "peers_load_all db = Inr ps" "p \<in> set ps" "\<And>q. q \<in> set ps \<Longrightarrow> public_key q \<noteq> None \<Longrightarrow> keyed db (server_id q)"
  shows "activated db' (server_id p) \<and> keyed db' (server_id p)"
proof -
  from assms(1-3) obtain cfg xs ps1 res1 db1 w1 a b c where
    k: "key_phase call [] [] db w ps = Continue ps1 res1 db1 w1" and
    p: "push_phase call cfg now (ps1 @ map as_render_peer xs) res1 db1 w1 ps1 = Continue a b db' c"
    by (auto simp: configure_mesh_def summarise_def split: sum.splits if_splits phase.splits)
  have kk: "map server_id ps1 = map server_id ps \<and> (\<forall>p \<in> set ps1. public_key p \<noteq> None \<and> keyed db1 (server_id p))"
    using key_phase_Continue [OF k] assms(5) by simp
  have s: "set (map server_id ps1) = set (map server_id ps)" using kk by simp
  have "keyed db1 x" if "x \<in> set (map server_id ps)" for x
  proof -
    from that s have "x \<in> set (map server_id ps1)" by simp
    then obtain q where "q \<in> set ps1" "x = server_id q" by auto
    then show ?thesis using kk by simp
  qed
  with push_phase_Continue [OF p, of "{}" "set (map server_id ps)"]
  have "\<forall>x \<in> set (map server_id ps1). activated db' x" "\<forall>x \<in> set (map server_id ps). keyed db' x" by simp_all
  moreover have "server_id p \<in> set (map server_id ps)" using assms(4) by simp
  ultimately show ?thesis unfolding s by blast
qed


lemma collect_Inr: "collect xs = Inr ys \<Longrightarrow> xs = map Inr ys"
  by (induction xs arbitrary: ys rule: collect.induct) (auto split: sum.splits)

text \<open>Every peer row belongs to a known server (the foreign key).\<close>

definition peers_known :: "mesh_db \<Rightarrow> bool" where
  "peers_known db = list_all (\<lambda>r. wp_server r \<in> sr_id ` set (servers db)) (peers db)"

lemma peers_load_all_rows:
  assumes "peers_load_all db = Inr ps"
  shows "p \<in> set ps \<Longrightarrow> \<exists>r \<in> set (peers db). server_id p = wp_server r \<and> public_key p = wp_key r"
    and "peers_known db \<Longrightarrow> r \<in> set (peers db) \<Longrightarrow> \<exists>p \<in> set ps. server_id p = wp_server r"
proof -
  let ?f = "\<lambda>r. map_option (\<lambda>s. peer_of_row s r) (sql_first (\<lambda>s. sr_id s = wp_server r) (servers db))"
  have m: "List.map_filter ?f (sort_key wp_ip (peers db)) = map Inr ps"
    using assms collect_Inr unfolding peers_load_all_def by blast
  have st: "Inr p \<in> set (map Inr ps :: (app_error + peer) list) \<longleftrightarrow>
      (\<exists>r \<in> set (peers db). ?f r = Some (Inr p))" for p
    unfolding m [symmetric] by (auto simp: List.map_filter_def image_iff) force
  have el: "\<exists>p. x = Inr p \<and> p \<in> set ps" if "r \<in> set (peers db)" "?f r = Some x" for r x
  proof -
    have "x \<in> set (List.map_filter ?f (sort_key wp_ip (peers db)))"
      using that by (force simp: List.map_filter_def)
    then show ?thesis unfolding m by auto
  qed
  have pr: "peer_of_row s r = Inr p \<Longrightarrow> server_id p = wp_server r \<and> public_key p = wp_key r" for s r p
    by (auto simp: peer_of_row_def split: option.splits)
  show "\<exists>r \<in> set (peers db). server_id p = wp_server r \<and> public_key p = wp_key r" if "p \<in> set ps"
    using that st [of p] pr by fastforce
  show "\<exists>p \<in> set ps. server_id p = wp_server r" if k: "peers_known db" and r: "r \<in> set (peers db)"
  proof -
    from k r obtain s where "s \<in> set (servers db)" "sr_id s = wp_server r"
      by (force simp: peers_known_def list_all_iff)
    then obtain s' where "sql_first (\<lambda>s. sr_id s = wp_server r) (servers db) = Some s'"
      by (cases "sql_first (\<lambda>s. sr_id s = wp_server r) (servers db)") (auto simp: sql_first_def find_None_iff)
    then have "?f r = Some (peer_of_row s' r)" by simp
    from el [OF r this] show ?thesis using pr by blast
  qed
qed

lemma configure_ok_rows:
  assumes c: "configure_mesh call now db w = (Inr (s, overall, res), db', w')" "s"
    and iv: "mesh_inv db" "peers_known db"
  shows "list_all (\<lambda>r. wp_status r = ''active'' \<and> wp_key r \<noteq> None) (peers db')"
proof -
  obtain ps where l: "peers_load_all db = Inr ps"
    using c by (auto simp: configure_mesh_def split: sum.splits if_splits)
  have "distinct (map wp_server (peers db))"
    using iv(1) by (auto simp: mesh_inv_def plan_ok_def split: option.splits sum.splits)
  then have one: "a = b" if "a \<in> set (peers db)" "b \<in> set (peers db)" "wp_server a = wp_server b" for a b
    using that by (auto simp: distinct_map dest: inj_onD)
  have k: "keyed db (server_id q)" if q: "q \<in> set ps" "public_key q \<noteq> None" for q
  proof -
    obtain r where r: "r \<in> set (peers db)" "server_id q = wp_server r" "public_key q = wp_key r"
      using peers_load_all_rows(1) [OF l q(1)] by blast
    have "r' = r" if "r' \<in> set (peers db)" "wp_server r' = server_id q" for r'
      using one [OF that(1) r(1)] that(2) r(2) by simp
    then show ?thesis using r(3) q(2) by (auto simp: keyed_def list_all_iff)
  qed
  have "activated db' (wp_server r) \<and> keyed db' (wp_server r)" if r: "r \<in> set (peers db)" for r
  proof -
    obtain p where p: "p \<in> set ps" "server_id p = wp_server r"
      using peers_load_all_rows(2) [OF l iv(2) r] by blast
    from configure_ok [OF c l p(1) k] show ?thesis unfolding p(2) .
  qed
  moreover have "wp_server ` set (peers db') = wp_server ` set (peers db)"
  proof -
    have "mesh_same db db'" using configure_mesh_same [of db call now w] c by simp
    then have "map (\<lambda>r. (wp_server r, wp_ip r)) (peers db') = map (\<lambda>r. (wp_server r, wp_ip r)) (peers db)"
      by (simp add: mesh_same_def)
    from arg_cong [OF this, of "\<lambda>xs. set (map fst xs)"] show ?thesis by (simp add: image_image)
  qed
  ultimately have "\<forall>r \<in> set (peers db'). activated db' (wp_server r) \<and> keyed db' (wp_server r)"
    by (metis imageE imageI)
  then show ?thesis by (auto simp: activated_def keyed_def list_all_iff)
qed

lemma lines_facts:
  assumes "list_all (\<lambda>l. NL \<notin> set l) ls"
  shows "directives NoSection (lines (unlines ls)) = directives NoSection ls"
    and "validate_wg_config_no_privkey (unlines ls) = Inr () \<longleftrightarrow> validate_loop True NoSection 0 ls = Inr ()"
  using directives_trim [OF trim_lines_unlines [OF assms]] validate_loop_trim [OF trim_lines_unlines [OF assms], of True NoSection 1]
    validate_loop_number [of True NoSection 1 ls 0]
  by (simp_all add: validate_wg_config_no_privkey_def validate_wg_config_inner_def)

section \<open>Properties\<close>

definition sample_config :: config_row where
  "sample_config = \<lparr>cr_enabled = 0, cr_subnet = ''10.42.0.0/30'', cr_port = 51820, cr_keepalive = 25,
     cr_updated = 0, cr_core_uid = None\<rparr>"

definition sample_server :: "string \<Rightarrow> bool \<Rightarrow> server_row" where
  "sample_server i l = \<lparr>sr_id = i, sr_name = ''n'' @ i, sr_host = ''192.0.2.7'', sr_local = l,
     sr_kind = Some (if l then ''local'' else ''agent''), sr_created = 0, sr_port = 8000, sr_token = ''token'', sr_tls = None\<rparr>"

definition sample_mesh :: mesh_db where
  "sample_mesh = \<lparr>config = Some sample_config, servers = [sample_server ''b'' False, sample_server ''a'' True],
     peers = [], externals = []\<rparr>"

definition sample_mesh_config :: mesh_config where
  "sample_mesh_config = \<lparr>mc_enabled = False, mc_subnet = ''10.42.0.0/30'', mc_port = 51820,
     mc_keepalive = 25, mc_updated = 0\<rparr>"

definition sample_net :: subnet where
  "sample_net = \<lparr>network = 0x0A2A0000, prefix_len = 30\<rparr>"

lemma sample_net_parse: "subnet_parse ''10.42.0.0/30'' = Inr sample_net"
proof -
  have "split_once (CHR ''/'') ''10.42.0.0/30'' = Some (''10.42.0.0'', ''30'')"
    "trim ''10.42.0.0'' = ''10.42.0.0''" "trim ''30'' = ''30''" "parse_uint 255 ''30'' = Some 30"
    "map parse_octet (split_on (CHR ''.'') ''10.42.0.0'') = [Some 10, Some 42, Some 0, Some 0]"
    by code_simp+
  then show ?thesis by (simp add: subnet_parse_def parse_ipv4_def subnet_mask_def sample_net_def mask_eq_exp_minus_1)
qed

lemma sample_net_hosts: "host_list sample_net = [0x0A2A0001, 0x0A2A0002]"
  by (simp add: host_list_def host_bits_def sample_net_def upt_rec)

lemma sample_addresses: "show_ipv4 0x0A2A0001 = ''10.42.0.1''" "show_ipv4 0x0A2A0002 = ''10.42.0.2''"
proof -
  have "dec 10 = ''10''" "dec 42 = ''42''" "dec 0 = ''0''" "dec 1 = ''1''" "dec 2 = ''2''" by code_simp+
  then show "show_ipv4 0x0A2A0001 = ''10.42.0.1''" "show_ipv4 0x0A2A0002 = ''10.42.0.2''"
    by (simp_all add: show_ipv4_def octet_def)
qed

lemma sample_ready: "mesh_ready sample_mesh sample_mesh_config sample_net"
  by (simp add: mesh_ready_def mesh_config_load_def sample_mesh_def sample_config_def sample_mesh_config_def
      sample_net_parse sample_server_def)

lemma sample_inv: "mesh_inv sample_mesh"
  by (simp add: mesh_inv_def sample_mesh_def sample_config_def sample_net_parse sample_server_def)

text \<open>enabling the mesh from a disabled plan gives the provisioned servers (local ones first, then
  by id) the usable addresses of the stored network in ascending order, one each and all pending, and
  switches the mesh on; when there are more servers than addresses it fails and changes nothing.\<close>

theorem enable_mesh_plan:
  assumes "mesh_ready db cfg sn"
  shows "enable_mesh now db = Some
    (if length (provisioned db) \<le> length (host_list sn) then
       (Inr (length (provisioned db)),
        db\<lparr>peers := map (\<lambda>(s, ip). pending_row now (sr_id s) ip (authority (sr_host s) (unat (mc_port cfg))))
                        (zip (provisioned db) (host_list sn)),
           config := map_option (\<lambda>r. r\<lparr>cr_enabled := 1, cr_updated := now\<rparr>) (config db)\<rparr>)
     else (Inl (Internal ''subnet is exhausted (no free host addresses)''), db))"
  using enable_mesh_ready [OF assms, of now] by (simp add: plan_rows_def)

lemma enable_mesh_plan_witness:
  "\<exists>db. enable_mesh 7 sample_mesh = Some (Inr 2, db) \<and>
        map (\<lambda>r. (wp_server r, wp_ip r)) (peers db) = [(''a'', ''10.42.0.1''), (''b'', ''10.42.0.2'')]"
proof -
  have l: "provisioned sample_mesh = [sample_server ''a'' True, sample_server ''b'' False]" by code_simp
  show ?thesis
    using enable_mesh_plan [OF sample_ready, of 7]
    by (simp add: l sample_net_hosts sample_addresses pending_row_def sample_server_def)
qed

text \<open>when configuring reports success, every peer of the plan is active and has a public key in the
  database, whatever the helpers answered.\<close>

theorem configure_ok_all_active:
  assumes "configure_mesh call now db w = (Inr (True, overall, res), db', w')" "mesh_inv db" "peers_known db"
  shows "list_all (\<lambda>r. wp_status r = ''active'' \<and> wp_key r \<noteq> None) (peers db')"
  using configure_ok_rows [OF assms(1) TrueI assms(2,3)] .

definition agreeable :: "unit caller" where
  "agreeable db sid c w = (Answer True None (Some (Some ''K'')), w)"

definition sample_planned :: mesh_db where
  "sample_planned = sample_mesh\<lparr>config := Some (sample_config\<lparr>cr_enabled := 1\<rparr>),
     peers := [pending_row 0 ''a'' 0x0A2A0001 ''192.0.2.7:51820'']\<rparr>"

lemma agreeable_key: "\<exists>ps1 res1 db1. key_phase agreeable pdone res db w ps = Continue ps1 res1 db1 w"
  by (induction ps arbitrary: pdone res db) (simp_all add: agreeable_def Let_def)

lemma agreeable_push: "\<exists>ps1 res1 db1. push_phase agreeable cfg now all res db w ps = Continue ps1 res1 db1 w"
  by (induction ps arbitrary: res db) (simp_all add: agreeable_def Let_def)

lemma configure_ok_all_active_witness:
  "list_all (\<lambda>r. wp_status r = ''active'' \<and> wp_key r \<noteq> None)
     (peers (fst (snd (configure_mesh agreeable 9 sample_planned ()))))"
proof -
  have p: "parse_ipv4 ''10.42.0.1'' = Some 0x0A2A0001"
    using parse_show_ipv4 [of "0x0A2A0001"] by (simp add: sample_addresses)
  have ld: "\<exists>p. peers_load_all sample_planned = Inr [p]"
    by (simp add: peers_load_all_def sample_planned_def sample_mesh_def sample_server_def List.map_filter_simps
        sql_first_def peer_of_row_def pending_row_def p sample_addresses)
  have x: "externals_load_all sample_planned = Inr []"
    by (simp add: externals_load_all_def sample_planned_def sample_mesh_def)
  have cf: "\<exists>cfg. mesh_config_load sample_planned = Inr cfg \<and> mc_enabled cfg"
    by (simp add: mesh_config_load_def sample_planned_def sample_config_def)
  obtain p where ld': "peers_load_all sample_planned = Inr [p]" using ld by blast
  obtain cfg where cf': "mesh_config_load sample_planned = Inr cfg" "mc_enabled cfg" using cf by blast
  obtain ps1 res1 db1 where k: "key_phase agreeable [] [] sample_planned () [p] = Continue ps1 res1 db1 ()"
    using agreeable_key by blast
  obtain ps2 res2 db2 where q: "push_phase agreeable cfg 9 ps1 res1 db1 () ps1 = Continue ps2 res2 db2 ()"
    using agreeable_push by blast
  have "configure_mesh agreeable 9 sample_planned () = (Inr (summarise res2 ''ok''), db2, ())"
    unfolding configure_mesh_def ld' x cf' by (simp only: cf' k q sum.case if_False not_True_eq_False list.distinct list.map append_Nil2 phase.case)
  then have "\<exists>o' res db'. configure_mesh agreeable 9 sample_planned () = (Inr (True, o', res), db', ())"
    by (simp add: summarise_def)
  then obtain o' res db' where c: "configure_mesh agreeable 9 sample_planned () = (Inr (True, o', res), db', ())"
    by blast
  have "mesh_inv sample_planned"
    by (simp add: mesh_inv_def plan_ok_def sample_planned_def sample_mesh_def sample_config_def sample_net_parse
        sample_net_hosts sample_server_def pending_row_def)
  moreover have "peers_known sample_planned"
    by (simp add: peers_known_def sample_planned_def sample_mesh_def sample_server_def pending_row_def)
  ultimately show ?thesis using configure_ok_all_active [OF c] by (simp add: c)
qed

definition wide_name :: string where
  "wide_name = ''x'' @ [NL] @ ''AllowedIPs = 0.0.0.0/0''"

definition hook_name :: string where
  "hook_name = ''x'' @ [NL] @ ''PostUp = reboot''"

definition sample_peer :: "string \<Rightarrow> string \<Rightarrow> peer" where
  "sample_peer i name = \<lparr>server_id = i, server_name = name, is_local = False, assigned_ip = 0x0A2A0001,
     public_key = Some ''K'', endpoint = ''192.0.2.7:51820'', status = ''keyed'', error_message = None,
     last_handshake = None\<rparr>"

text \<open>a server name is only trimmed before it is stored, and the renderer writes it into a comment
  line, so a name with a newline inside continues as configuration: there is a name that makes every
  other node's file route all addresses to that server while the helper's validator accepts it, and
  another that makes the validator reject the file, although the renderer's documentation says the
  validator always accepts its output.\<close>

theorem newline_in_name_changes_config:
  "let me = sample_peer ''a'' ''n''; conf = (\<lambda>name. render_wg_conf me [sample_peer ''b'' name] sample_mesh_config)
   in validate_wg_config_no_privkey (conf wide_name) = Inr () \<and>
      (Peer, ''AllowedIPs'', ''0.0.0.0/0'') \<in> set (directives NoSection (lines (conf wide_name))) \<and>
      validate_wg_config_no_privkey (conf hook_name) \<noteq> Inr ()"
proof -
  define f where "f = (\<lambda>l. [''[Interface]'', ''Address = '' @ ''10.42.0.1/32'', ''ListenPort = '' @ ''51820'', [],
      ''[Peer]'', ''# '' @ ''x'', l, ''PublicKey = '' @ ''K'', ''Endpoint = '' @ ''192.0.2.7:51820'',
      ''AllowedIPs = '' @ ''10.42.0.1/32'', ''PersistentKeepalive = '' @ ''25''])"
  have d: "dec 25 = ''25''" "dec 51820 = ''51820''"
    by (simp_all add: dec.simps digit_char_def) (simp_all add: char_of_def bit_0)
  have c: "render_wg_conf (sample_peer ''a'' ''n'') [sample_peer ''b'' name] sample_mesh_config = unlines (f l)"
    if "name = ''x'' @ [NL] @ l" for name l
    by (simp add: that f_def unlines_Cons render_wg_conf_def peer_block_def sample_peer_def sample_mesh_config_def
        sample_addresses d)
  have n: "list_all (\<lambda>l. NL \<notin> set l) (f ''AllowedIPs = 0.0.0.0/0'')" "list_all (\<lambda>l. NL \<notin> set l) (f ''PostUp = reboot'')"
    by (simp_all add: f_def)
  have k: "line_kind ''AllowedIPs = 0.0.0.0/0'' = Directive ''AllowedIPs'' ''0.0.0.0/0''"
    "line_kind ''PostUp = reboot'' = Directive ''PostUp'' ''reboot''" by code_simp+
  have v: "validate_loop True NoSection 0 (f l) = Inr () \<longleftrightarrow> kind_ok True Peer (line_kind l) \<and>
      header_section (line_kind l) Peer = Peer" if "line_kind l = Directive a b" for l a b
    by (simp add: f_def that validate_loop_Cons0 fixed_line_kinds comment_line_kind
        whitelist_def allowed_interface_def allowed_peer_def del: validate_loop.simps(2) append.simps)
  have "validate_loop True NoSection 0 (f ''AllowedIPs = 0.0.0.0/0'') = Inr ()"
    "\<not> validate_loop True NoSection 0 (f ''PostUp = reboot'') = Inr ()"
    by (simp_all add: v [OF k(1)] v [OF k(2)] k whitelist_def allowed_peer_def)
  moreover have "(Peer, ''AllowedIPs'', ''0.0.0.0/0'') \<in> set (directives NoSection (f ''AllowedIPs = 0.0.0.0/0''))"
    by (simp add: f_def k fixed_line_kinds comment_line_kind del: append.simps)
  ultimately show ?thesis
    unfolding Let_def c [OF wide_name_def] c [OF hook_name_def] lines_facts [OF n(1)] lines_facts [OF n(2)] by blast
qed

end
