(* ===== verification/MeshCall.thy ===== *)
theory MeshCall
  imports Helper Mesh
begin

text \<open>
  How the core reaches the helpers (network/mesh_call.rs) and how an agent relays a call to the helper of
  its node (pier-agent main.rs, \<open>mesh_proxy\<close>), with the helper of every node as modelled in Helper: the
  caller the mesh handlers run with. The lemmas follow the keys and the configuration files of all nodes
  through the two phases of \<open>configure_mesh\<close>.
\<close>

section \<open>The agent\<close>

text \<open>The answer of an agent: its status code, and the fields of the JSON body that core reads. The
  \<open>result\<close> is reduced to its \<open>public_key\<close> field, the only one the handlers look at.\<close>

record agent_reply =
  ar_status :: nat
  ar_ok :: "bool option"
  ar_result :: "string option option"
  ar_error :: "string option"

definition token_matches :: "string option \<Rightarrow> string \<Rightarrow> bool" where
  "token_matches header expected =
     (if expected = [] then False
      else (case header of
              None \<Rightarrow> False
            | Some v \<Rightarrow> (case strip_prefix v ''Bearer '' of Some t \<Rightarrow> t | None \<Rightarrow> v) = expected))"

fun op_of :: "mesh_cmd \<Rightarrow> op" where
  "op_of CInstall = InstallWireguard"
| "op_of CKeypair = GenerateKeypair"
| "op_of (CWrite content) = WriteConfig content"
| "op_of CUp = Up"
| "op_of CDown = Down"
| "op_of CUninstall = Uninstall"

fun reply_key :: "reply \<Rightarrow> string option" where
  "reply_key (RPublicKey k) = Some k"
| "reply_key _ = None"

text \<open>One exchange with the helper of a node: what its socket answers. A lost exchange never reaches it,
  or only its reply is lost.\<close>

datatype exchange = Delivered | Unreachable string | ReplyLost string

record 'i nodes =
  here :: string
  route :: "string \<Rightarrow> int \<Rightarrow> string option"
  wire :: "string \<Rightarrow> mesh_cmd \<Rightarrow> exchange"
  socket :: "string \<Rightarrow> mesh_cmd \<Rightarrow> exchange"
  agent_token :: "string \<Rightarrow> string"
  node_tools :: "string \<Rightarrow> 'i tools"
  clock :: nat

type_synonym 'i world = "string \<Rightarrow> 'i helper"

text \<open>\<open>call_local_socket\<close> and the agent's \<open>helper_client::call\<close>: the helper's reply, or why there is none.\<close>

definition call_socket :: "'i nodes \<Rightarrow> string \<Rightarrow> mesh_cmd \<Rightarrow> 'i world \<Rightarrow> (string + (bool \<times> string option option \<times> string option)) \<times> 'i world" where
  "call_socket E n c w =
     (let (r, st) = dispatch (node_tools E n) (clock E) (op_of c) (w n);
          reply = (case r of Inr v \<Rightarrow> (True, Some (reply_key v), None) | Inl e \<Rightarrow> (False, None, Some e))
      in case socket E n c of
           Unreachable e \<Rightarrow> (Inl e, w)
         | ReplyLost e \<Rightarrow> (Inl e, w(n := st))
         | Delivered \<Rightarrow> (Inr reply, w(n := st)))"

definition mesh_proxy :: "'i nodes \<Rightarrow> string \<Rightarrow> string option \<Rightarrow> mesh_cmd \<Rightarrow> 'i world \<Rightarrow> agent_reply \<times> 'i world" where
  "mesh_proxy E n header c w =
     (if \<not> token_matches header (agent_token E n) then
        (\<lparr>ar_status = 401, ar_ok = None, ar_result = None, ar_error = Some ''unauthorized''\<rparr>, w)
      else
        (case call_socket E n c w of
           (Inr (True, result, _), w1) \<Rightarrow>
             (\<lparr>ar_status = 200, ar_ok = Some True,
               ar_result = Some (case result of Some v \<Rightarrow> v | None \<Rightarrow> None), ar_error = None\<rparr>, w1)
         | (Inr (False, _, err), w1) \<Rightarrow>
             (\<lparr>ar_status = 400, ar_ok = Some False, ar_result = None,
               ar_error = Some (err_or err ''helper returned ok=false with no error'')\<rparr>, w1)
         | (Inl e, w1) \<Rightarrow>
             (\<lparr>ar_status = 503, ar_ok = Some False, ar_result = None,
               ar_error = Some (''helper unreachable: '' @ e)\<rparr>, w1)))"

section \<open>The core's side\<close>

fun op_name :: "mesh_cmd \<Rightarrow> string" where
  "op_name CInstall = ''install_wireguard''"
| "op_name CKeypair = ''generate_keypair''"
| "op_name (CWrite content) = ''write_config''"
| "op_name CUp = ''up''"
| "op_name CDown = ''down''"
| "op_name CUninstall = ''uninstall''"

definition call_local_socket :: "'i nodes \<Rightarrow> mesh_cmd \<Rightarrow> 'i world \<Rightarrow> call_result \<times> 'i world" where
  "call_local_socket E c w =
     (case call_socket E (here E) c w of
        (Inl e, w1) \<Rightarrow> (Transport e, w1)
      | (Inr (ok, result, err), w1) \<Rightarrow> (Answer ok err result, w1))"

definition call_remote_agent ::
  "'i nodes \<Rightarrow> string \<Rightarrow> int \<Rightarrow> string \<Rightarrow> mesh_cmd \<Rightarrow> 'i world \<Rightarrow> call_result \<times> 'i world" where
  "call_remote_agent E host pt tok c w =
     (if \<not> list_all (\<lambda>x. is_alpha x \<or> is_digit x \<or> x = CHR ''_'' \<or> x = CHR ''-'') (op_name c) then
        (Transport ''rejecting suspicious op string'', w)
      else
        (case route E host pt of
           None \<Rightarrow> (Transport ''no such host'', w)
         | Some n \<Rightarrow>
             (let (r, w1) = mesh_proxy E n (Some (''Bearer '' @ tok)) c w
              in case wire E n c of
                   Unreachable e \<Rightarrow> (Transport e, w)
                 | ReplyLost e \<Rightarrow> (Transport e, w1)
                 | Delivered \<Rightarrow>
                     if \<not> (200 \<le> ar_status r \<and> ar_status r < 300) then
                       (Transport (err_or (ar_error r) ''agent returned HTTP status''), w1)
                     else
                       (Answer (case ar_ok r of Some b \<Rightarrow> b | None \<Rightarrow> False) (ar_error r) (ar_result r), w1))))"

record contact =
  ct_kind :: string
  ct_host :: string
  ct_port :: int
  ct_token :: string
  ct_local :: bool

text \<open>An active peer of an enabled mesh is called at its mesh address.\<close>

definition lookup_server :: "mesh_db \<Rightarrow> string \<Rightarrow> string + contact" where
  "lookup_server db sid =
     (case sql_first (\<lambda>s. sr_id s = sid) (servers db) of
        None \<Rightarrow> Inl (''server '' @ sid @ '' not found'')
      | Some s \<Rightarrow>
          (case sr_kind s of
             None \<Rightarrow> Inl ''InvalidColumnType: kind''
           | Some kind \<Rightarrow>
               (let wp = sql_first (\<lambda>r. wp_server r = sid) (peers db);
                    active = (case (config db, wp) of
                                (Some c, Some r) \<Rightarrow> cr_enabled c = 1 \<and> wp_status r = ''active''
                              | _ \<Rightarrow> False);
                    host = (if active \<and> \<not> sr_local s then wp_ip (the wp) else sr_host s)
                in Inr \<lparr>ct_kind = kind, ct_host = host, ct_port = sr_port s, ct_token = sr_token s,
                     ct_local = sr_local s\<rparr>)))"

definition mesh_dispatch :: "'i nodes \<Rightarrow> 'i world caller" where
  "mesh_dispatch E db sid c w =
     (case lookup_server db sid of
        Inl e \<Rightarrow> (Transport e, w)
      | Inr t \<Rightarrow>
          if ct_local t then call_local_socket E c w
          else if ct_kind t = ''agent'' then call_remote_agent E (ct_host t) (ct_port t) (ct_token t) c w
          else if ct_kind t = ''peer'' then (Transport ''helper ops are never dispatched to a peer-kind server'', w)
          else (Transport ''unknown server kind'', w))"

section \<open>What a call does to a node\<close>

text \<open>Each server is one node: calls of it go to that node or nowhere, and no two servers share one.\<close>

definition node_map :: "'i nodes \<Rightarrow> (string \<Rightarrow> string) \<Rightarrow> mesh_db \<Rightarrow> bool" where
  "node_map E node db \<longleftrightarrow> inj_on node (sr_id ` set (servers db)) \<and>
     (\<forall>s \<in> set (servers db). if sr_local s then node (sr_id s) = here E
        else (\<forall>h n. (h = sr_host s \<or> (sr_id s, h) \<in> set (map (\<lambda>r. (wp_server r, wp_ip r)) (peers db))) \<longrightarrow>
               route E h (sr_port s) = Some n \<longrightarrow> n = node (sr_id s)))"

lemma node_map_same: "mesh_same db db' \<Longrightarrow> node_map E node db \<Longrightarrow> node_map E node db'"
  by (simp add: node_map_def mesh_same_def)

definition helper_run :: "'i nodes \<Rightarrow> string \<Rightarrow> mesh_cmd \<Rightarrow> 'i world \<Rightarrow> 'i outcome" where
  "helper_run E n c w = dispatch (node_tools E n) (clock E) (op_of c) (w n)"

lemma call_socket_Inr:
  "call_socket E n c w = (Inr (ok, res, err), w') \<Longrightarrow>
   \<exists>r st. helper_run E n c w = (r, st) \<and> w' = w(n := st) \<and>
     ((\<exists>v. r = Inr v \<and> ok \<and> res = Some (reply_key v) \<and> err = None) \<or> (\<exists>e. r = Inl e \<and> \<not> ok \<and> res = None \<and> err = Some e))"
  by (auto simp: call_socket_def helper_run_def Let_def split: prod.splits exchange.splits sum.splits)

lemma call_local_Answer:
  "call_local_socket E c w = (Answer True e r, w') \<Longrightarrow>
   \<exists>v st. helper_run E (here E) c w = (Inr v, st) \<and> r = Some (reply_key v) \<and> w' = w(here E := st)"
  by (auto simp: call_local_socket_def dest!: call_socket_Inr split: prod.splits sum.splits)

lemma call_remote_Answer:
  "call_remote_agent E h p t c w = (Answer ok e r, w') \<Longrightarrow>
   \<exists>n v st. route E h p = Some n \<and> helper_run E n c w = (Inr v, st) \<and> ok \<and> r = Some (reply_key v) \<and> w' = w(n := st)"
  by (auto simp: call_remote_agent_def mesh_proxy_def Let_def dest!: call_socket_Inr
      split: option.splits prod.splits exchange.splits if_splits sum.splits bool.splits)

lemma lookup_server_Inr:
  "lookup_server db sid = Inr t \<Longrightarrow> \<exists>s \<in> set (servers db). sr_id s = sid \<and> ct_local t = sr_local s \<and> ct_port t = sr_port s \<and>
     (\<not> sr_local s \<longrightarrow> ct_host t = sr_host s \<or> (sid, ct_host t) \<in> set (map (\<lambda>r. (wp_server r, wp_ip r)) (peers db)))"
  by (force simp: lookup_server_def Let_def dest!: sql_first_Some split: option.splits if_splits)

lemma mesh_dispatch_Answer:
  assumes "mesh_dispatch E db sid c w = (Answer True e r, w')" "node_map E node db"
  shows "\<exists>v st. helper_run E (node sid) c w = (Inr v, st) \<and> r = Some (reply_key v) \<and> w' = w(node sid := st)"
proof -
  from assms(1) obtain t where t: "lookup_server db sid = Inr t"
    by (auto simp: mesh_dispatch_def split: sum.splits)
  from lookup_server_Inr [OF t] obtain s where s: "s \<in> set (servers db)" "sr_id s = sid" "ct_local t = sr_local s"
    "ct_port t = sr_port s" "\<not> sr_local s \<longrightarrow> ct_host t = sr_host s \<or> (sid, ct_host t) \<in> set (map (\<lambda>r. (wp_server r, wp_ip r)) (peers db))"
    by blast
  show ?thesis
  proof (cases "sr_local s")
    case True
    then have c: "call_local_socket E c w = (Answer True e r, w')" using assms(1) t s(3) by (simp add: mesh_dispatch_def)
    have "node (sr_id s) = here E" using assms(2) s(1) True unfolding node_map_def by metis
    then show ?thesis using call_local_Answer [OF c] s(2) by simp
  next
    case False
    then have "call_remote_agent E (ct_host t) (ct_port t) (ct_token t) c w = (Answer True e r, w')"
      using assms(1) t s(3) by (auto simp: mesh_dispatch_def split: if_splits)
    from call_remote_Answer [OF this] obtain n v st where
      n: "route E (ct_host t) (ct_port t) = Some n" "helper_run E n c w = (Inr v, st)" "r = Some (reply_key v)" "w' = w(n := st)"
      by blast
    have "\<forall>h n. (h = sr_host s \<or> (sr_id s, h) \<in> set (map (\<lambda>r. (wp_server r, wp_ip r)) (peers db))) \<longrightarrow>
        route E h (sr_port s) = Some n \<longrightarrow> n = node (sr_id s)"
      using bspec [OF conjunct2 [OF assms(2) [unfolded node_map_def]] s(1)] by (simp only: False if_False)
    moreover have "ct_host t = sr_host s \<or> (sr_id s, ct_host t) \<in> set (map (\<lambda>r. (wp_server r, wp_ip r)) (peers db))"
      using s(2,5) False by simp
    ultimately have "n = node sid" using n(1) unfolding s(2,4) by blast
    with n show ?thesis by blast
  qed
qed


section \<open>The database's view of the peers\<close>

type_synonym core = "string \<times> ipv4 \<times> string option \<times> string"

definition peer_core :: "peer \<Rightarrow> core" where
  "peer_core p = (server_id p, assigned_ip p, public_key p, endpoint p)"

definition row_core :: "peer_row \<Rightarrow> core" where
  "row_core r = (wp_server r, the (parse_ipv4 (wp_ip r)), wp_key r, wp_endpoint r)"

definition known_rows :: "mesh_db \<Rightarrow> peer_row list" where
  "known_rows db = filter (\<lambda>r. wp_server r \<in> sr_id ` set (servers db)) (sort_key wp_ip (peers db))"

definition db_cores :: "mesh_db \<Rightarrow> core list" where
  "db_cores db = map row_core (known_rows db)"

lemma insort_key_map: "(\<And>x. k (f x) = k x) \<Longrightarrow> insort_key k (f x) (map f ys) = map f (insort_key k x ys)"
  by (induction ys) auto

lemma sort_key_map: "(\<And>x. k (f x) = k x) \<Longrightarrow> sort_key k (map f xs) = map f (sort_key k xs)"
  by (induction xs) (simp_all add: insort_key_map)

lemma known_rows_map:
  assumes "servers db' = servers db" "peers db' = map f (peers db)"
    and "\<And>r. wp_ip (f r) = wp_ip r" "\<And>r. wp_server (f r) = wp_server r"
  shows "known_rows db' = map f (known_rows db)"
  using assms by (simp add: known_rows_def sort_key_map filter_map o_def)

lemma db_cores_upd:
  assumes "\<And>r. wp_ip (f r) = wp_ip r \<and> wp_server (f r) = wp_server r \<and> wp_endpoint (f r) = wp_endpoint r"
    and "\<And>r. wp_key (f r) = g (wp_key r)"
  shows "db_cores (upd_peer sid f db) = map (\<lambda>(s, i, k, e). (s, i, if s = sid then g k else k, e)) (db_cores db)"
proof -
  have "known_rows (upd_peer sid f db) = map (\<lambda>r. if wp_server r = sid then f r else r) (known_rows db)"
    by (rule known_rows_map) (auto simp: upd_peer_def sql_update_def assms)
  then show ?thesis by (auto simp: db_cores_def row_core_def assms)
qed

lemma sql_first_ex: "(\<exists>r. sql_first P t = Some r) \<longleftrightarrow> (\<exists>r \<in> set t. P r)"
  using sql_first_None [of P t] by (cases "sql_first P t") auto

lemma peers_load_all_cores:
  "peers_load_all db = Inr ps \<Longrightarrow>
   map peer_core ps = db_cores db \<and> list_all (\<lambda>r. parse_ipv4 (wp_ip r) \<noteq> None) (known_rows db)"
proof -
  let ?f = "\<lambda>r. map_option (\<lambda>s. peer_of_row s r) (sql_first (\<lambda>s. sr_id s = wp_server r) (servers db))"
  have "List.map_filter ?f rows = map Inr ps \<Longrightarrow>
     map peer_core ps = map row_core (filter (\<lambda>r. wp_server r \<in> sr_id ` set (servers db)) rows) \<and>
     list_all (\<lambda>r. parse_ipv4 (wp_ip r) \<noteq> None) (filter (\<lambda>r. wp_server r \<in> sr_id ` set (servers db)) rows)" for rows
  proof (induction rows arbitrary: ps)
    case (Cons r rows)
    show ?case
    proof (cases "sql_first (\<lambda>s. sr_id s = wp_server r) (servers db)")
      case None
      then have "wp_server r \<notin> sr_id ` set (servers db)" by (auto simp: sql_first_None)
      then show ?thesis using Cons None by (simp add: List.map_filter_simps)
    next
      case (Some s)
      then have k: "wp_server r \<in> sr_id ` set (servers db)" using sql_first_Some [OF Some] by force
      from Cons.prems Some obtain p qs where p: "ps = p # qs" "peer_of_row s r = Inr p"
        "List.map_filter ?f rows = map Inr qs" by (auto simp: List.map_filter_simps map_eq_Cons_conv)
      have "peer_core p = row_core r \<and> parse_ipv4 (wp_ip r) \<noteq> None"
        using p(2) by (auto simp: peer_of_row_def peer_core_def row_core_def split: option.splits)
      then show ?thesis using Cons.IH [OF p(3)] p(1) k by simp
    qed
  qed (simp add: List.map_filter_simps)
  moreover assume "peers_load_all db = Inr ps"
  ultimately show ?thesis
    using collect_Inr unfolding peers_load_all_def db_cores_def known_rows_def by blast
qed

lemma collect_ex: "(\<And>x. x \<in> set xs \<Longrightarrow> \<exists>y. x = Inr y) \<Longrightarrow> \<exists>ys. collect xs = Inr ys"
proof (induction xs)
  case (Cons x xs)
  obtain y where "x = Inr y" using Cons.prems by force
  moreover obtain ys where "collect xs = Inr ys" using Cons by force
  ultimately show ?case by simp
qed simp

lemma peers_load_all_ex:
  assumes "list_all (\<lambda>r. parse_ipv4 (wp_ip r) \<noteq> None) (known_rows db)"
  shows "\<exists>ps. peers_load_all db = Inr ps"
  unfolding peers_load_all_def
proof (rule collect_ex)
  fix x assume "x \<in> set (List.map_filter (\<lambda>r. map_option (\<lambda>s. peer_of_row s r)
      (sql_first (\<lambda>s. sr_id s = wp_server r) (servers db))) (sort_key wp_ip (peers db)))"
  then obtain r s where r: "r \<in> set (peers db)" "sql_first (\<lambda>s. sr_id s = wp_server r) (servers db) = Some s"
    "x = peer_of_row s r" by (auto simp: List.map_filter_def)
  then have "r \<in> set (known_rows db)" using sql_first_Some [OF r(2)] by (force simp: known_rows_def)
  then show "\<exists>y. x = Inr y" using assms r(3) by (auto simp: peer_of_row_def list_all_iff split: option.split)
qed

lemma mesh_same_rows:
  "mesh_same db db' \<Longrightarrow> list_all (\<lambda>r. parse_ipv4 (wp_ip r) \<noteq> None) (known_rows db) \<Longrightarrow>
   list_all (\<lambda>r. parse_ipv4 (wp_ip r) \<noteq> None) (known_rows db')"
proof -
  assume s: "mesh_same db db'" and l: "list_all (\<lambda>r. parse_ipv4 (wp_ip r) \<noteq> None) (known_rows db)"
  have e: "list_all (\<lambda>r. parse_ipv4 (wp_ip r) \<noteq> None) (known_rows d) \<longleftrightarrow>
      (\<forall>x \<in> set (map (\<lambda>r. (wp_server r, wp_ip r)) (peers d)).
         fst x \<in> sr_id ` set (servers d) \<longrightarrow> parse_ipv4 (snd x) \<noteq> None)" for d
    by (auto simp: known_rows_def list_all_iff)
  show ?thesis using s l unfolding e mesh_same_def by simp
qed

text \<open>A configuration depends on the peers only through what the database stores of them.\<close>

lemma listed_cores:
  "map peer_core ps = map peer_core qs \<Longrightarrow> peer_core me = peer_core me' \<Longrightarrow>
   map (\<lambda>(p, k). (peer_core p, k)) (listed me ps) = map (\<lambda>(p, k). (peer_core p, k)) (listed me' qs)"
proof (induction ps arbitrary: qs)
  case (Cons p ps)
  then obtain q qs' where q: "qs = q # qs'" "peer_core p = peer_core q" "map peer_core ps = map peer_core qs'"
    by (auto simp: Cons_eq_map_conv)
  then show ?case using Cons.IH [OF q(3) Cons.prems(2)] Cons.prems(2)
    by (auto simp: listed_Cons peer_core_def split: option.split)
qed (auto simp: peer_core_def)

lemma mesh_directives_cores:
  assumes "map peer_core ps = map peer_core qs" "peer_core me = peer_core me'"
  shows "mesh_directives me ps cfg = mesh_directives me' qs cfg"
proof -
  define h :: "core \<times> string \<Rightarrow> (wg_section \<times> string \<times> string) list" where
    "h = (\<lambda>((s, i, k, e), pk). [(Peer, ''PublicKey'', trim pk), (Peer, ''Endpoint'', trim e),
      (Peer, ''AllowedIPs'', show_ipv4 i @ ''/32'')] @
      (if mc_keepalive cfg > 0 then [(Peer, ''PersistentKeepalive'', dec (unat (mc_keepalive cfg)))] else []))"
  have e: "map (\<lambda>(p, pk). peer_directives cfg p pk) xs = map h (map (\<lambda>(p, k). (peer_core p, k)) xs)" for xs
    by (simp add: h_def peer_directives_def peer_core_def case_prod_unfold)
  have "concat (map (\<lambda>(p, pk). peer_directives cfg p pk) (listed me ps)) =
      concat (map (\<lambda>(p, pk). peer_directives cfg p pk) (listed me' qs))"
    unfolding e listed_cores [OF assms] ..
  then show ?thesis using assms(2) by (simp add: mesh_directives_def peer_core_def)
qed


section \<open>The two phases over all nodes\<close>

text \<open>What is assumed of the WireGuard tools: keys are printed on one line.\<close>

definition tools_one_line :: "'i nodes \<Rightarrow> bool" where
  "tools_one_line E \<longleftrightarrow> (\<forall>n out. wg_genkey (node_tools E n) = Some out \<longrightarrow> one_line (trim out)) \<and>
     (\<forall>n s out. wg_pubkey (node_tools E n) s = Some out \<longrightarrow> one_line (trim out))"

definition keys_one_line :: "'i world \<Rightarrow> bool" where
  "keys_one_line w \<longleftrightarrow> (\<forall>n k. stored_key (w n) = Some k \<longrightarrow> one_line k)"

definition installed :: "'i helper \<Rightarrow> peer \<Rightarrow> peer list \<Rightarrow> mesh_config \<Rightarrow> bool" where
  "installed st p ps cfg \<longleftrightarrow> (\<exists>out. conf st = Some out \<and> validate_wg_config out = Inr () \<and>
     filter (\<lambda>d. \<not> is_privkey d) (directives NoSection (lines out)) = mesh_directives p ps cfg)"

lemma install_run: "helper_run E n CInstall w = (r, st) \<Longrightarrow> st = w n"
  by (auto simp: helper_run_def op_install_wireguard_def split: if_splits)

lemma keys_one_line_upd: "keys_one_line w \<Longrightarrow> (\<And>k. stored_key st = Some k \<Longrightarrow> one_line k) \<Longrightarrow> keys_one_line (w(n := st))"
  by (simp add: keys_one_line_def)

lemma keypair_run:
  assumes "helper_run E n CKeypair w = (Inr v, st)" "tools_one_line E" "keys_one_line w" "reply_key v = Some pk"
  shows "one_line pk \<and> keys_one_line (w(n := st))"
proof -
  let ?T = "node_tools E n"
  have r: "op_generate_keypair ?T (w n) = (Inr v, st)" using assms(1) by (simp add: helper_run_def)
  obtain key where k: "derive_pubkey ?T key = Inr pk"
    "(stored_key (w n) = Some key \<and> st = w n) \<or>
     (\<exists>out. wg_genkey ?T = Some out \<and> key = trim out \<and> key \<noteq> [] \<and> st = (w n)\<lparr>privkey := Some (key @ [NL])\<rparr>)"
    using r assms(4) by (auto simp: op_generate_keypair_def Let_def split: option.splits sum.splits prod.splits if_splits)
  have "one_line pk" using k(1) assms(2) by (auto simp: derive_pubkey_def tools_one_line_def split: option.splits)
  moreover have "one_line x" if x: "stored_key st = Some x" for x
  proof (cases "stored_key (w n) = Some key \<and> st = w n")
    case True
    then show ?thesis using x assms(3) unfolding keys_one_line_def by metis
  next
    case False
    then obtain out where o: "wg_genkey ?T = Some out" "key = trim out" "st = (w n)\<lparr>privkey := Some (key @ [NL])\<rparr>"
      using k(2) by blast
    then have "x = trim (key @ [NL])" using x by (simp add: stored_key_def Let_def split: if_splits)
    then have "x = trim out" using trim_snoc_ws [of NL key] o(2) trim_idem [of out] by simp
    then show ?thesis using assms(2) o(1) by (simp add: tools_one_line_def)
  qed
  ultimately show ?thesis using assms(3) keys_one_line_upd by blast
qed

lemma write_run:
  assumes "helper_run E n (CWrite (render_wg_conf p ps cfg)) w = (Inr v, st)" "keys_one_line w" "list_all renderable ps"
  shows "installed st p ps cfg \<and> keys_one_line (w(n := st))"
proof -
  from assms(1) obtain key out where o: "stored_key (w n) = Some key"
    "validate_wg_config_no_privkey (render_wg_conf p ps cfg) = Inr ()"
    "inject_private_key (render_wg_conf p ps cfg) key = Inr out" "st = (w n)\<lparr>conf := Some out\<rparr>"
    using op_write_config_Inr by (fastforce simp: helper_run_def)
  have k: "NL \<notin> set key" using assms(2) o(1) by (auto simp: keys_one_line_def one_line_def)
  have "validate_wg_config out = Inr () \<and>
      filter (\<lambda>d. \<not> is_privkey d) (directives NoSection (lines out)) = mesh_directives p ps cfg"
    using injection_facts [OF o(2,3)] stored_key_trimmed [OF o(1)] k render_facts(1) [OF assms(3)] by simp
  then have "installed st p ps cfg" using o(4) by (auto simp: installed_def)
  moreover have "stored_key st = stored_key (w n)" using o(4) by (simp add: stored_key_def)
  ultimately show ?thesis using assms(2) keys_one_line_upd [of w st n] by (simp add: keys_one_line_def)
qed

lemma up_run:
  assumes "helper_run E n CUp w = (r, st)"
  shows "conf st = conf (w n) \<and> stored_key st = stored_key (w n)"
proof -
  have "op_up (node_tools E n) (w n) = (r, st)" using assms by (simp add: helper_run_def)
  then have "conf st = conf (w n) \<and> privkey st = privkey (w n)"
    by (auto simp: op_up_def Let_def dest!: wg_syncconf_keeps split: if_splits prod.splits sum.splits)
  then show ?thesis by (simp add: stored_key_def)
qed

text \<open>Phase 1: the peers in memory stay those of the database.\<close>

lemma key_phase_sync:
  "key_phase (mesh_dispatch E) pdone res db w ps = Continue ps1 res1 db1 w1 \<Longrightarrow>
   node_map E node db \<Longrightarrow> tools_one_line E \<Longrightarrow> keys_one_line w \<Longrightarrow> list_all renderable (pdone @ ps) \<Longrightarrow>
   distinct (map server_id (pdone @ ps)) \<Longrightarrow> map peer_core (pdone @ ps) = db_cores db \<Longrightarrow>
   keys_one_line w1 \<and> list_all renderable ps1 \<and> map peer_core ps1 = db_cores db1 \<and>
   map server_id ps1 = map server_id (pdone @ ps)"
proof (induction ps arbitrary: pdone res db w)
  case (Cons p ps)
  let ?sid = "server_id p"
  show ?case
  proof (cases "public_key p")
    case (Some k)
    then have "key_phase (mesh_dispatch E) (pdone @ [p]) (res @ [entry ?sid ''keyed'' None]) db w ps = Continue ps1 res1 db1 w1"
      using Cons.prems(1) by simp
    from Cons.IH [OF this] Cons.prems(2-7) show ?thesis by simp
  next
    case None
    let ?f = "\<lambda>pk r :: peer_row. r\<lparr>wp_key := Some pk, wp_status := ''keyed'', wp_error := None\<rparr>"
    from None Cons.prems(1) obtain e1 r1 w1a e2 pk w2 where
      c1: "mesh_dispatch E db ?sid CInstall w = (Answer True e1 r1, w1a)" and
      c2: "mesh_dispatch E db ?sid CKeypair w1a = (Answer True e2 (Some (Some pk)), w2)" and
      rest: "key_phase (mesh_dispatch E) (pdone @ [p\<lparr>public_key := Some pk\<rparr>]) (res @ [entry ?sid ''keyed'' None])
         (upd_peer ?sid (?f pk) db) w2 ps = Continue ps1 res1 db1 w1"
      by (auto simp: Let_def abort_peer_def split: call_result.splits prod.splits option.splits bool.splits if_splits)
    have w1a: "w1a = w"
      using mesh_dispatch_Answer [OF c1 Cons.prems(2)] install_run by fastforce
    from mesh_dispatch_Answer [OF c2 Cons.prems(2)] w1a obtain v st where
      h: "helper_run E (node ?sid) CKeypair w = (Inr v, st)" "reply_key v = Some pk" "w2 = w(node ?sid := st)" by auto
    have kp: "one_line pk" "keys_one_line w2"
      using keypair_run [OF h(1) Cons.prems(3,4) h(2)] h(3) by simp_all
    have same: "mesh_same db (upd_peer ?sid (?f pk) db)" by (rule upd_peer_same) simp
    have cores: "db_cores (upd_peer ?sid (?f pk) db) =
        map (\<lambda>(s, i, k, e). (s, i, if s = ?sid then Some pk else k, e)) (db_cores db)"
      by (rule db_cores_upd) simp_all
    have keep: "map (\<lambda>(s, i, k, e). (s, i, if s = ?sid then Some pk else k, e)) (map peer_core qs) = map peer_core qs"
      if "?sid \<notin> server_id ` set qs" for qs
      using that by (auto simp: peer_core_def image_iff)
    have "map peer_core ((pdone @ [p\<lparr>public_key := Some pk\<rparr>]) @ ps) = db_cores (upd_peer ?sid (?f pk) db)"
      using keep [of pdone] keep [of ps] Cons.prems(6) unfolding cores Cons.prems(7) [symmetric]
      by (simp add: peer_core_def o_def)
    then show ?thesis
      using Cons.IH [OF rest node_map_same [OF same Cons.prems(2)] Cons.prems(3) kp(2)] Cons.prems(5,6) kp(1)
      by (simp add: renderable_def)
  qed
qed simp

text \<open>Phase 2: every node gets its file, and no later call replaces it.\<close>

lemma push_phase_installs:
  "push_phase (mesh_dispatch E) cfg now ps res db w qs = Continue a b db1 w1 \<Longrightarrow>
   node_map E node db \<Longrightarrow> keys_one_line w \<Longrightarrow> list_all renderable ps \<Longrightarrow> distinct (map (node \<circ> server_id) (pre @ qs)) \<Longrightarrow>
   (\<And>q. q \<in> set pre \<Longrightarrow> installed (w (node (server_id q))) q ps cfg) \<Longrightarrow>
   db_cores db1 = db_cores db \<and> (\<forall>q \<in> set (pre @ qs). installed (w1 (node (server_id q))) q ps cfg)"
proof (induction qs arbitrary: pre res db w)
  case (Cons p qs)
  let ?sid = "server_id p"
  let ?f = "\<lambda>r :: peer_row. r\<lparr>wp_status := ''active'', wp_error := None, wp_deployed := Some now\<rparr>"
  from Cons.prems(1) obtain e1 r1 wa e2 r2 wb where
    c1: "mesh_dispatch E db ?sid (CWrite (render_wg_conf p ps cfg)) w = (Answer True e1 r1, wa)" and
    c2: "mesh_dispatch E db ?sid CUp wa = (Answer True e2 r2, wb)" and
    rest: "push_phase (mesh_dispatch E) cfg now ps (set_entry (entry ?sid ''active'' None) res)
       (upd_peer ?sid ?f db) wb qs = Continue a b db1 w1"
    by (auto simp: Let_def abort_peer_def split: call_result.splits prod.splits if_splits)
  from mesh_dispatch_Answer [OF c1 Cons.prems(2)] obtain v st where
    h: "helper_run E (node ?sid) (CWrite (render_wg_conf p ps cfg)) w = (Inr v, st)" "wa = w(node ?sid := st)" by auto
  from mesh_dispatch_Answer [OF c2 Cons.prems(2)] obtain v' st' where
    u: "helper_run E (node ?sid) CUp wa = (Inr v', st')" "wb = wa(node ?sid := st')" by auto
  have wr: "installed st p ps cfg" "keys_one_line wa" using write_run [OF h(1) Cons.prems(3,4)] h(2) by simp_all
  have st': "conf st' = conf st" "stored_key st' = stored_key (wa (node ?sid))" using up_run [OF u(1)] h(2) by simp_all
  have keys: "keys_one_line wb"
    unfolding u(2) by (rule keys_one_line_upd [OF wr(2)]) (use wr(2) st'(2) in \<open>auto simp: keys_one_line_def\<close>)
  have inst: "installed (wb (node (server_id q))) q ps cfg" if "q \<in> set (pre @ [p])" for q
  proof (cases "q = p")
    case True
    then show ?thesis using wr(1) st'(1) u(2) by (simp add: installed_def)
  next
    case False
    then have q: "q \<in> set pre" using that by simp
    then have "node (server_id q) \<noteq> node ?sid" using Cons.prems(5) by (force simp: image_iff)
    then show ?thesis using q Cons.prems(6) h(2) u(2) by simp
  qed
  have same: "mesh_same db (upd_peer ?sid ?f db)" by (rule upd_peer_same) simp
  have "db_cores (upd_peer ?sid ?f db) = map (\<lambda>(s, i, k, e). (s, i, if s = ?sid then id k else k, e)) (db_cores db)"
    by (rule db_cores_upd) simp_all
  moreover have "(\<lambda>(s, i, k, e). (s, i, if s = ?sid then id k else k, e)) = (id :: core \<Rightarrow> core)" by (auto simp: fun_eq_iff)
  ultimately have "db_cores (upd_peer ?sid ?f db) = db_cores db" by simp
  then show ?case
    using Cons.IH [OF rest node_map_same [OF same Cons.prems(2)] keys Cons.prems(4), of "pre @ [p]"] Cons.prems(5) inst by simp
qed simp


section \<open>Properties\<close>

text \<open>The names, endpoints and keys of the plan are one line each.\<close>

definition plan_renderable :: "mesh_db \<Rightarrow> bool" where
  "plan_renderable db \<longleftrightarrow> (\<forall>ps. peers_load_all db = Inr ps \<longrightarrow> list_all renderable ps) \<and>
     (\<forall>xs. externals_load_all db = Inr xs \<longrightarrow> list_all renderable (map as_render_peer xs))"

lemma known_servers: "set (map fst (db_cores db)) \<subseteq> sr_id ` set (servers db)"
  by (auto simp: db_cores_def known_rows_def row_core_def)

lemma distinct_cores: "distinct (map wp_server (peers db)) \<Longrightarrow> distinct (map fst (db_cores db))"
proof -
  assume d: "distinct (map wp_server (peers db))"
  then have "distinct (map wp_server (sort_key wp_ip (peers db)))" by (simp add: distinct_map)
  then have "distinct (map wp_server (known_rows db))" unfolding known_rows_def by (rule distinct_map_filter)
  then show ?thesis by (simp add: db_cores_def row_core_def o_def)
qed

lemma core_ids: "map peer_core ps = cs \<Longrightarrow> map server_id ps = map fst cs"
  by (auto simp: peer_core_def)

lemma configure_installs:
  assumes c: "configure_mesh (mesh_dispatch E) now db w = (Inr (True, overall, res), db', w')"
    and iv: "mesh_inv db" and nm: "node_map E node db" and tl: "tools_one_line E" and kl: "keys_one_line w"
    and pr: "plan_renderable db"
  shows "\<exists>cfg ps xs. mesh_config_load db' = Inr cfg \<and> peers_load_all db' = Inr ps \<and> externals_load_all db' = Inr xs \<and>
    ps \<noteq> [] \<and> (\<forall>p \<in> set ps. installed (w' (node (server_id p))) p (ps @ map as_render_peer xs) cfg)"
proof -
  from c obtain cfg ps xs ps1 res1 db1 w1 a b where
    l: "mesh_config_load db = Inr cfg" "peers_load_all db = Inr ps" "ps \<noteq> []" "externals_load_all db = Inr xs" and
    k: "key_phase (mesh_dispatch E) [] [] db w ps = Continue ps1 res1 db1 w1" and
    p: "push_phase (mesh_dispatch E) cfg now (ps1 @ map as_render_peer xs) res1 db1 w1 ps1 = Continue a b db' w'"
    by (auto simp: configure_mesh_def summarise_def split: sum.splits if_splits phase.splits)
  have d: "distinct (map wp_server (peers db))"
    using iv by (auto simp: mesh_inv_def plan_ok_def split: option.splits sum.splits)
  have cores: "map peer_core ps = db_cores db" using peers_load_all_cores [OF l(2)] by simp
  have ids: "distinct (map server_id ps)" "set (map server_id ps) \<subseteq> sr_id ` set (servers db)"
    unfolding core_ids [OF cores] by (rule distinct_cores [OF d], rule known_servers)
  have ren: "list_all renderable ps" "list_all renderable (map as_render_peer xs)"
    using pr l(2,4) by (simp_all add: plan_renderable_def)
  from key_phase_sync [OF k nm tl kl] ren(1) ids(1) cores
  have k1: "keys_one_line w1" "list_all renderable ps1" "map peer_core ps1 = db_cores db1" "map server_id ps1 = map server_id ps"
    by simp_all
  have s1: "mesh_same db db1" using key_phase_res [OF k] by simp
  have s2: "mesh_same db1 db'" using push_phase_res [OF p] by simp
  have s: "mesh_same db db'" using mesh_same_trans [OF s1 s2] .
  have "inj_on node (server_id ` set ps)" using nm ids(2) inj_on_subset by (auto simp: node_map_def)
  then have "distinct (map node (map server_id ps1))"
    unfolding k1(4) using ids(1) by (simp add: distinct_map comp_inj_on)
  then have dn: "distinct (map (node \<circ> server_id) ([] @ ps1))" by simp
  from push_phase_installs [OF p node_map_same [OF s1 nm] k1(1) _ dn] k1(2) ren(2)
  have p1: "db_cores db' = db_cores db1"
    "\<forall>q \<in> set ps1. installed (w' (node (server_id q))) q (ps1 @ map as_render_peer xs) cfg" by simp_all
  obtain ps' where ps': "peers_load_all db' = Inr ps'"
    using peers_load_all_ex mesh_same_rows [OF s] peers_load_all_cores [OF l(2)] by blast
  have e: "map peer_core ps' = map peer_core ps1" using peers_load_all_cores [OF ps'] p1(1) k1(3) by simp
  have inst: "installed (w' (node (server_id q))) q (ps' @ map as_render_peer xs) cfg" if q: "q \<in> set ps'" for q
  proof -
    have "peer_core q \<in> set (map peer_core ps1)" using q unfolding e [symmetric] by simp
    then obtain q1 where q1: "q1 \<in> set ps1" "peer_core q = peer_core q1" by auto
    have "mesh_directives q (ps' @ map as_render_peer xs) cfg = mesh_directives q1 (ps1 @ map as_render_peer xs) cfg"
      by (rule mesh_directives_cores) (simp_all add: e q1(2))
    moreover have "server_id q = server_id q1" using q1(2) by (simp add: peer_core_def)
    ultimately show ?thesis using p1(2) q1(1) by (simp add: installed_def)
  qed
  have "mesh_config_load db' = Inr cfg" "externals_load_all db' = Inr xs"
    using s l(1,4) by (simp_all add: mesh_same_def mesh_config_load_def externals_load_all_def)
  moreover have "ps' \<noteq> []"
    using arg_cong [OF e, of length] arg_cong [OF k1(4), of length] l(3) by auto
  ultimately show ?thesis using ps' inst by blast
qed


text \<open>a refusal by the helper of a remote node never reaches the core as one: the agent answers it with
  status 400 and the core turns every error status into a transport failure, although both document
  that the helper's reply, with its success flag, is passed on.\<close>

theorem remote_refusal_is_transport:
  assumes "lookup_server db sid = Inr t" "\<not> ct_local t" "ct_kind t = ''agent''" "route E (ct_host t) (ct_port t) = Some n"
    and "ct_token t = agent_token E n" "agent_token E n \<noteq> []" "wire E n c = Delivered" "socket E n c = Delivered"
    and "dispatch (node_tools E n) (clock E) (op_of c) (w n) = (Inl e, st)"
  shows "mesh_dispatch E db sid c w = (Transport e, w(n := st))"
proof -
  have "list_all (\<lambda>x. is_alpha x \<or> is_digit x \<or> x = CHR ''_'' \<or> x = CHR ''-'') (op_name c)"
    by (cases c) (simp_all add: is_alpha_def)
  moreover have "call_socket E n c w = (Inr (False, None, Some e), w(n := st))"
    using assms(8,9) by (simp add: call_socket_def)
  moreover have "token_matches (Some (''Bearer '' @ agent_token E n)) (agent_token E n)"
    using assms(6) starts_with_append [of "''Bearer ''" "agent_token E n"]
    by (simp add: token_matches_def strip_prefix_def)
  ultimately show ?thesis
    using assms(1-5,7) by (simp add: mesh_dispatch_def call_remote_agent_def mesh_proxy_def err_or_def)
qed

section \<open>Witnesses\<close>

definition key_tools :: "unit tools" where
  "key_tools = sample_tools\<lparr>wg_pubkey := (\<lambda>_. Some ''K'')\<rparr>"

definition sample_nodes :: "unit nodes" where
  "sample_nodes = \<lparr>here = ''a'', route = (\<lambda>h p. if h = ''192.0.2.7'' then Some ''b'' else None), wire = (\<lambda>_ _. Delivered),
     socket = (\<lambda>_ _. Delivered), agent_token = (\<lambda>_. ''token''), node_tools = (\<lambda>_. key_tools), clock = 5\<rparr>"

lemma sample_lookup: "servers db = servers sample_mesh \<Longrightarrow>
    lookup_server db ''a'' = Inr \<lparr>ct_kind = ''local'', ct_host = ''192.0.2.7'', ct_port = 8000, ct_token = ''token'', ct_local = True\<rparr>"
  by (simp add: lookup_server_def sample_mesh_def sample_server_def sql_simps)

lemma sample_dispatch:
  "servers db = servers sample_mesh \<Longrightarrow> dispatch key_tools 5 (op_of c) (w ''a'') = (Inr v, st) \<Longrightarrow>
   mesh_dispatch sample_nodes db ''a'' c w = (Answer True None (Some (reply_key v)), w(''a'' := st))"
  by (simp add: mesh_dispatch_def sample_lookup call_local_socket_def call_socket_def sample_nodes_def)

lemma sample_runs:
  "dispatch key_tools 5 (op_of CInstall) sample_helper = (Inr RDone, sample_helper)"
  "dispatch key_tools 5 (op_of CKeypair) sample_helper = (Inr (RPublicKey ''K''), sample_helper)"
  "\<exists>st. dispatch key_tools 5 (op_of CUp) (sample_helper\<lparr>conf := Some out\<rparr>) = (Inr RSynced, st)"
  by (simp_all add: op_install_wireguard_def op_generate_keypair_def derive_pubkey_def sample_key op_up_def
      wg_syncconf_def sync_routes_def) (simp_all add: key_tools_def sample_tools_def sample_helper_def trim_def trim_start_def trim_end_def is_ws_def)

lemma sample_render:
  assumes "list_all renderable ps"
  shows "\<exists>out. dispatch key_tools 5 (op_of (CWrite (render_wg_conf p ps cfg))) sample_helper =
     (Inr RDone, sample_helper\<lparr>conf := Some out\<rparr>)"
proof -
  let ?c = "render_wg_conf p ps cfg"
  have v: "validate_wg_config_no_privkey ?c = Inr ()" by (rule render_facts(2) [OF assms])
  have "?c = ''[Interface]'' @ NL # unlines (tl (render_lines p ps cfg))"
    by (simp add: render_wg_conf_lines render_lines_def unlines_Cons)
  then have "lines ?c = ''[Interface]'' # lines (unlines (tl (render_lines p ps cfg)))"
    using lines_line [of "''[Interface]''"] by (simp add: clean_line_def)
  moreover have "trim ''[Interface]'' = ''[Interface]''" by code_simp
  ultimately obtain out where i: "inject_private_key ?c ''k'' = Inr out"
    using inject_private_key_Inr [of ?c "''k''"] by force
  have "validate_wg_config out = Inr ()"
    using injection_facts [OF v i] stored_key_trimmed [OF sample_key] by simp
  then show ?thesis using v i by (intro exI [of _ out]) (simp add: op_write_config_def sample_key)
qed

definition sample_world :: "unit world" where
  "sample_world = (\<lambda>_. sample_helper)"

definition sample_member :: peer where
  "sample_member = \<lparr>server_id = ''a'', server_name = ''na'', is_local = True, assigned_ip = 0x0A2A0001,
     public_key = None, endpoint = ''192.0.2.7:51820'', status = ''pending'', error_message = None, last_handshake = None\<rparr>"

lemma sample_loaded: "peers_load_all sample_planned = Inr [sample_member]" "externals_load_all sample_planned = Inr []"
proof -
  have "parse_ipv4 ''10.42.0.1'' = Some 0x0A2A0001"
    using parse_show_ipv4 [of "0x0A2A0001"] by (simp add: sample_addresses)
  then show "peers_load_all sample_planned = Inr [sample_member]"
    by (simp add: peers_load_all_def sample_planned_def sample_mesh_def sample_server_def List.map_filter_simps
        sql_first_def peer_of_row_def pending_row_def sample_addresses sample_member_def)
qed (simp add: externals_load_all_def sample_planned_def sample_mesh_def)

lemma sample_configured:
  "\<exists>res db' w'. configure_mesh (mesh_dispatch sample_nodes) 9 sample_planned sample_world = (Inr (True, ''ok'', res), db', w')"
proof -
  define q where "q = sample_member"
  note ld = sample_loaded [folded q_def] and x = sample_loaded(2)
  obtain cfg where cf: "mesh_config_load sample_planned = Inr cfg" "mc_enabled cfg"
    by (simp add: mesh_config_load_def sample_planned_def sample_config_def)
  have sv: "servers (upd_peer i f d) = servers d" for i f d by (simp add: upd_peer_def)
  have s0: "servers sample_planned = servers sample_mesh" by (simp add: sample_planned_def)
  have ren: "list_all renderable [q\<lparr>public_key := Some ''K''\<rparr>]" by (simp add: q_def sample_member_def renderable_def one_line_def)
  obtain out where wr: "dispatch key_tools 5 (op_of (CWrite (render_wg_conf (q\<lparr>public_key := Some ''K''\<rparr>) [q\<lparr>public_key := Some ''K''\<rparr>] cfg)))
      sample_helper = (Inr RDone, sample_helper\<lparr>conf := Some out\<rparr>)" using sample_render [OF ren] by blast
  obtain st where up: "dispatch key_tools 5 (op_of CUp) (sample_helper\<lparr>conf := Some out\<rparr>) = (Inr RSynced, st)"
    using sample_runs(3) by blast
  have same: "w(''a'' := w ''a'') = w" for w :: "unit world" by simp
  let ?d = "upd_peer ''a'' (\<lambda>r. r\<lparr>wp_key := Some ''K'', wp_status := ''keyed'', wp_error := None\<rparr>) sample_planned"
  have k: "key_phase (mesh_dispatch sample_nodes) [] [] sample_planned sample_world [q] =
      Continue [q\<lparr>public_key := Some ''K''\<rparr>] [entry ''a'' ''keyed'' None] ?d sample_world"
    using sample_dispatch [OF s0, of CInstall sample_world] sample_dispatch [OF s0, of CKeypair sample_world]
      sample_runs(1,2) same [of sample_world]
    by (simp add: q_def sample_member_def sample_world_def Let_def del: op_of.simps)
  let ?q = "q\<lparr>public_key := Some ''K''\<rparr>" and ?w = "sample_world(''a'' := sample_helper\<lparr>conf := Some out\<rparr>)"
  have sid: "server_id q = ''a''" by (simp add: q_def sample_member_def)
  have c1: "mesh_dispatch sample_nodes ?d ''a'' (CWrite (render_wg_conf ?q [?q] cfg)) sample_world = (Answer True None (Some (reply_key RDone)), ?w)"
    by (rule sample_dispatch) (use wr in \<open>simp_all add: sv s0 sample_world_def del: op_of.simps\<close>)
  have c2: "mesh_dispatch sample_nodes ?d ''a'' CUp ?w = (Answer True None (Some (reply_key RSynced)), ?w(''a'' := st))"
    by (rule sample_dispatch) (use up in \<open>simp_all add: sv s0 del: op_of.simps\<close>)
  have "\<exists>r d w. push_phase (mesh_dispatch sample_nodes) cfg 9 [?q] [entry ''a'' ''keyed'' None] ?d sample_world
      [?q] = Continue [?q] r d w"
    by (simp add: sid c1 [simplified] c2 [simplified] Let_def)
  then obtain r d w where pp: "push_phase (mesh_dispatch sample_nodes) cfg 9 ([q\<lparr>public_key := Some ''K''\<rparr>] @ map as_render_peer [])
      [entry ''a'' ''keyed'' None] ?d sample_world [q\<lparr>public_key := Some ''K''\<rparr>] = Continue [q\<lparr>public_key := Some ''K''\<rparr>] r d w" by auto
  show ?thesis
    unfolding configure_mesh_def by (simp only: ld x cf sum.case if_False not_True_eq_False list.distinct k phase.case pp)
      (simp add: summarise_def)
qed

lemma sample_assumptions:
  "mesh_inv sample_planned" "node_map sample_nodes id sample_planned" "tools_one_line sample_nodes"
  "keys_one_line sample_world" "plan_renderable sample_planned"
proof -
  show "mesh_inv sample_planned"
    by (simp add: mesh_inv_def plan_ok_def sample_planned_def sample_mesh_def sample_config_def sample_net_parse
        sample_net_hosts sample_server_def pending_row_def)
  show "node_map sample_nodes id sample_planned"
    by (auto simp: node_map_def sample_nodes_def sample_planned_def sample_mesh_def sample_server_def pending_row_def split: if_splits)
  show "keys_one_line sample_world" by (simp add: keys_one_line_def sample_world_def sample_key one_line_def)
  show "plan_renderable sample_planned"
    by (simp add: plan_renderable_def sample_loaded) (simp add: sample_member_def renderable_def one_line_def)
  show "tools_one_line sample_nodes"
    by (simp add: tools_one_line_def sample_nodes_def key_tools_def sample_tools_def one_line_def trim_def
        trim_start_def trim_end_def is_ws_def)
qed


lemma remote_refusal_is_transport_witness:
  "mesh_dispatch sample_nodes sample_planned ''b'' (CWrite ''x'') sample_world = (Transport ''rejecting wg0.conf'', sample_world)"
proof -
  have l: "lookup_server sample_planned ''b'' = Inr \<lparr>ct_kind = ''agent'', ct_host = ''192.0.2.7'', ct_port = 8000,
      ct_token = ''token'', ct_local = False\<rparr>"
    by (simp add: lookup_server_def sample_planned_def sample_mesh_def sample_server_def sql_simps pending_row_def)
  have "validate_wg_config_no_privkey ''x'' \<noteq> Inr ()" by code_simp
  then have d: "dispatch key_tools 5 (op_of (CWrite ''x'')) sample_helper = (Inl ''rejecting wg0.conf'', sample_helper)"
    by (simp add: op_write_config_def split: sum.split)
  show ?thesis
    using remote_refusal_is_transport [OF l, of sample_nodes "''b''" "CWrite ''x''" sample_world] d
      fun_upd_triv [of sample_world "''b''"]
    by (simp add: sample_nodes_def sample_world_def)
qed

end
