(* ===== verification/Ports.thy ===== *)
theory Ports
  imports Prelude "HOL-Library.Char_ord" "HOL-Library.List_Lexorder" "HOL-Library.Product_Lexorder"
begin

text \<open>
  Host ports: the allocation table and its allocator (db/ports.rs), the allocation from an image's
  EXPOSE list (deploy/mod.rs) and the choice of a project's range (api/resources.rs). Binding a socket
  on the host and drawing identifiers are parameters. The lemmas show what the allocator hands out and
  when it can fail.
\<close>

section \<open>Rows\<close>

type_synonym port = "16 word"

record port_alloc =
  pa_id :: string
  pa_service :: string
  pa_name :: string
  pa_host :: int
  pa_container :: int
  pa_protocol :: string
  pa_public :: bool
  pa_public_port :: "int option"
  pa_created :: string
  pa_compose :: "string option"

record svc_row =
  sv_id :: string
  sv_project :: "string option"
  sv_port :: "int option"
  sv_updated :: string

record project_range =
  pj_id :: string
  pj_start :: "int option"
  pj_end :: "int option"

record port_db =
  port_rows :: "port_alloc list"
  svc_rows :: "svc_row list"
  project_rows :: "project_range list"

section \<open>The host\<close>

datatype bind_addr = Localhost | Unspecified

datatype bind_result = Bound | PermissionDenied | BindError

type_synonym host = "bind_addr \<Rightarrow> port \<Rightarrow> bind_result"

definition host_port_free :: "host \<Rightarrow> port \<Rightarrow> bool" where
  "host_port_free bnd p = list_all (\<lambda>a. bnd a p \<noteq> BindError) [Localhost, Unspecified]"

text \<open>\<open>host_taken\<close>: the probe is given by its exempt ports, \<open>None\<close> for no probe.\<close>

definition host_taken :: "host \<Rightarrow> port list option \<Rightarrow> port \<Rightarrow> bool" where
  "host_taken bnd probe p =
     (case probe of Some exempt \<Rightarrow> p \<notin> set exempt \<and> \<not> host_port_free bnd p | None \<Rightarrow> False)"

section \<open>Allocation\<close>

datatype port_error =
    LengthMismatch nat nat
  | UsedByPier port
  | HeldOutside port
  | PoolExhausted port port
  | SqlError string

text \<open>\<open>binary_search\<close> on a slice.\<close>

function bsearch :: "'a :: linorder list \<Rightarrow> 'a \<Rightarrow> bool" where
  "bsearch xs x =
     (if xs = [] then False
      else (let m = length xs div 2; y = xs ! m
            in if y = x then True
               else if x < y then bsearch (take m xs) x
               else bsearch (drop (Suc m) xs) x))"
  by pat_completeness auto
termination by (relation "measure (\<lambda>(xs, x). length xs)") (auto simp: length_greater_0_conv [symmetric] simp del: length_greater_0_conv)

declare bsearch.simps [simp del]

definition all_used :: "port_alloc list \<Rightarrow> port list" where
  "all_used rows = map of_int (sort (map pa_host rows))"

lemma unat_succ: "unat (p :: port) < unat (e :: port) \<Longrightarrow> unat (p + 1) = Suc (unat p)"
  using unsigned_less [of e, where ?'a = nat] by (simp add: unat_word_ariths)

text \<open>The pool scan from \<open>p\<close> up to \<open>e\<close>.\<close>

function scan_pool :: "(port \<Rightarrow> bool) \<Rightarrow> port \<Rightarrow> port \<Rightarrow> port option" where
  "scan_pool taken p e =
     (if p \<ge> e then None else if \<not> taken p then Some p else scan_pool taken (p + 1) e)"
  by pat_completeness auto
termination
proof (relation "measure (\<lambda>(_, p, e). unat e - unat p)")
  fix taken :: "port \<Rightarrow> bool" and p e :: port
  assume "\<not> e \<le> p"
  then have "unat p < unat e" by (simp add: word_less_nat_alt not_le)
  moreover from this have "unat (p + 1) = Suc (unat p)" by (rule unat_succ)
  ultimately show "((taken, p + 1, e), (taken, p, e)) \<in> measure (\<lambda>(_, p, e). unat e - unat p)" by simp
qed simp

declare scan_pool.simps [simp del]

definition choose_port ::
  "port list \<Rightarrow> (port \<Rightarrow> bool) \<Rightarrow> bool \<Rightarrow> port \<Rightarrow> port \<Rightarrow> port list \<Rightarrow> port option \<Rightarrow> port \<Rightarrow> port_error + port" where
  "choose_port used held pool_only start fin new override standard =
     (let is_used = (\<lambda>p. bsearch used p \<or> held p)
      in case override of
           Some requested \<Rightarrow>
             if bsearch used requested \<or> requested \<in> set new then Inl (UsedByPier requested)
             else if held requested then Inl (HeldOutside requested)
             else Inr requested
         | None \<Rightarrow>
             if \<not> pool_only \<and> 1024 \<le> standard \<and> \<not> is_used standard \<and> standard \<notin> set new then Inr standard
             else (case scan_pool (\<lambda>p. is_used p \<or> p \<in> set new) start fin of
                     None \<Rightarrow> Inl (PoolExhausted start fin)
                   | Some p \<Rightarrow> Inr p))"

fun choose_ports ::
  "port list \<Rightarrow> (port \<Rightarrow> bool) \<Rightarrow> bool \<Rightarrow> port \<Rightarrow> port \<Rightarrow> port list \<Rightarrow> (port option \<times> port) list \<Rightarrow>
   port_error + port list" where
  "choose_ports used held pool_only start fin new [] = Inr new"
| "choose_ports used held pool_only start fin new ((override, standard) # rest) =
     (case choose_port used held pool_only start fin new override standard of
        Inl e \<Rightarrow> Inl e
      | Inr p \<Rightarrow> choose_ports used held pool_only start fin (new @ [p]) rest)"

text \<open>The constraints of the table: primary key, unique host port, existing service.\<close>

definition insert_port :: "port_alloc \<Rightarrow> port_db \<Rightarrow> port_error + port_db" where
  "insert_port r db =
     (if list_ex (\<lambda>q. pa_id q = pa_id r \<or> pa_host q = pa_host r) (port_rows db)
      then Inl (SqlError ''UNIQUE constraint failed'')
      else if \<not> list_ex (\<lambda>s. sv_id s = pa_service r) (svc_rows db)
      then Inl (SqlError ''FOREIGN KEY constraint failed'')
      else Inr (db\<lparr>port_rows := port_rows db @ [r]\<rparr>))"

definition new_row :: "string \<Rightarrow> string \<Rightarrow> string \<Rightarrow> string \<Rightarrow> port \<Rightarrow> port \<Rightarrow> port_alloc" where
  "new_row created i sid name host container =
     \<lparr>pa_id = i, pa_service = sid, pa_name = name, pa_host = uint host, pa_container = uint container,
      pa_protocol = ''tcp'', pa_public = False, pa_public_port = None, pa_created = created,
      pa_compose = None\<rparr>"

text \<open>The inserts one by one; a failing one leaves the earlier ones in the table.\<close>

fun insert_ports ::
  "string \<Rightarrow> string \<Rightarrow> (string \<times> (string \<times> port) \<times> port) list \<Rightarrow> port_db \<Rightarrow>
   (port_error + port_alloc list) \<times> port_db" where
  "insert_ports now sid [] db = (Inr [], db)"
| "insert_ports now sid ((i, (name, container), host) # rest) db =
     (case insert_port (new_row now i sid name host container) db of
        Inl e \<Rightarrow> (Inl e, db)
      | Inr db1 \<Rightarrow>
          (case insert_ports now sid rest db1 of
             (Inl e, db2) \<Rightarrow> (Inl e, db2)
           | (Inr as, db2) \<Rightarrow> (Inr (new_row [] i sid name host container # as), db2)))"

definition override_at :: "port option list \<Rightarrow> nat \<Rightarrow> port option" where
  "override_at os i = (if i < length os then os ! i else None)"

definition allocate_ports ::
  "host \<Rightarrow> (nat \<Rightarrow> string) \<Rightarrow> string \<Rightarrow> string \<Rightarrow> (string \<times> port) list \<Rightarrow> port \<Rightarrow> port \<Rightarrow> port option list \<Rightarrow>
   bool \<Rightarrow> port list option \<Rightarrow> port_db \<Rightarrow> (port_error + port_alloc list) \<times> port_db" where
  "allocate_ports bnd uuid now sid specs start fin overrides pool_only probe db =
     (let count = length specs
      in if count = 0 then (Inr [], db)
         else if overrides \<noteq> [] \<and> length overrides \<noteq> count then
           (Inl (LengthMismatch (length overrides) count), db)
         else
           (case choose_ports (all_used (port_rows db)) (host_taken bnd probe) pool_only start fin []
                   (map (\<lambda>i. (override_at overrides i, snd (specs ! i))) [0..<count]) of
              Inl e \<Rightarrow> (Inl e, db)
            | Inr free \<Rightarrow> insert_ports now sid (zip (map uuid [0..<count]) (zip specs free)) db))"

definition free_ports :: "string \<Rightarrow> port_db \<Rightarrow> port_db" where
  "free_ports sid db = db\<lparr>port_rows := sql_delete (\<lambda>r. pa_service r = sid) (port_rows db)\<rparr>"

text \<open>\<open>ORDER BY compose_service IS NULL DESC, compose_service, port_name\<close>.\<close>

definition port_order :: "port_alloc \<Rightarrow> nat \<times> string \<times> string" where
  "port_order r = (case pa_compose r of None \<Rightarrow> (0, [], pa_name r) | Some c \<Rightarrow> (1, c, pa_name r))"

definition get_ports :: "string \<Rightarrow> port_db \<Rightarrow> port_alloc list" where
  "get_ports sid db = sort_key port_order (filter (\<lambda>r. pa_service r = sid) (port_rows db))"

definition set_ports_public :: "string \<Rightarrow> bool \<Rightarrow> port_db \<Rightarrow> port_db" where
  "set_ports_public sid b db =
     db\<lparr>port_rows := sql_update (\<lambda>r. pa_service r = sid) (\<lambda>r. r\<lparr>pa_public := b\<rparr>) (port_rows db)\<rparr>"

section \<open>Ports of an image\<close>

definition tcp_ports_from_exposed :: "string list \<Rightarrow> port list" where
  "tcp_ports_from_exposed entries =
     remdups_adj (sort (List.map_filter
       (\<lambda>e. let (p, proto) = (case split_once (CHR ''/'') e of Some x \<Rightarrow> x | None \<Rightarrow> (e, ''tcp''))
            in if proto = ''tcp'' then map_option of_nat (parse_uint 65535 (trim p)) else None)
       entries))"

definition declared_range :: "string option \<Rightarrow> port_db \<Rightarrow> (port \<times> port) option" where
  "declared_range project db =
     (case project of
        None \<Rightarrow> None
      | Some pid \<Rightarrow>
          (case sql_first (\<lambda>p. pj_id p = pid) (project_rows db) of
             None \<Rightarrow> None
           | Some p \<Rightarrow>
               (case (pj_start p, pj_end p) of
                  (Some s, Some e) \<Rightarrow> Some (of_int s, of_int e)
                | _ \<Rightarrow> None)))"

definition resolve_port_range :: "port \<times> port \<Rightarrow> string option \<Rightarrow> port_db \<Rightarrow> port \<times> port" where
  "resolve_port_range config project db =
     (case declared_range project db of Some r \<Rightarrow> r | None \<Rightarrow> config)"

definition spec_name :: "nat \<Rightarrow> string" where
  "spec_name i = (if i = 0 then ''primary'' else ''port-'' @ dec i)"

text \<open>The ports the image exposes are read from Docker: \<open>exposed\<close>.\<close>

definition allocate_ports_from_image ::
  "host \<Rightarrow> (nat \<Rightarrow> string) \<Rightarrow> string \<Rightarrow> port \<times> port \<Rightarrow> string \<Rightarrow> port list \<Rightarrow> port option \<Rightarrow> port_db \<Rightarrow>
   bool \<times> port_db" where
  "allocate_ports_from_image bnd uuid now config sid exposed override db =
     (if sql_count (\<lambda>r. pa_service r = sid) (port_rows db) > 0 then (False, db)
      else if exposed = [] then (False, db)
      else
        (let specs = map (\<lambda>(i, p). (spec_name i, p)) (List.enumerate 0 exposed);
             project = Option.bind (sql_first (\<lambda>s. sv_id s = sid) (svc_rows db)) sv_project;
             (start, fin, pool_only) =
               (case declared_range project db of
                  Some (s, e) \<Rightarrow> (s, e, True)
                | None \<Rightarrow> (case resolve_port_range config project db of (s, e) \<Rightarrow> (s, e, False)));
             overrides = (if length specs = 1 \<and> override \<noteq> None then [override] else [])
         in case allocate_ports bnd uuid now sid specs start fin overrides pool_only (Some []) db of
              (Inl e, db1) \<Rightarrow> (False, db1)
            | (Inr [], db1) \<Rightarrow> (False, db1)
            | (Inr (first # _), db1) \<Rightarrow>
                (True, db1\<lparr>svc_rows := sql_update (\<lambda>s. sv_id s = sid)
                             (\<lambda>s. s\<lparr>sv_port := Some (pa_host first), sv_updated := now\<rparr>) (svc_rows db1)\<rparr>)))"

definition http_keywords :: "string list" where
  "http_keywords = [''management'', ''http'', ''web'', ''ui'', ''dashboard'', ''console'']"

definition pick_http_port :: "port_alloc list \<Rightarrow> int option" where
  "pick_http_port ports =
     map_option pa_container
       (case find (\<lambda>p. list_ex (\<lambda>k. contains_str (lower (pa_name p)) k) http_keywords) ports of
          Some p \<Rightarrow> Some p
        | None \<Rightarrow> (case ports of [] \<Rightarrow> None | p # _ \<Rightarrow> Some p))"


section \<open>Lemmas\<close>

lemma bsearch_iff: "sorted xs \<Longrightarrow> bsearch xs x \<longleftrightarrow> x \<in> set xs"
proof (induction xs x rule: bsearch.induct)
  case (1 xs x)
  show ?case
  proof (cases "xs = []")
    case False
    define m where "m = length xs div 2"
    have m: "m < length xs" using False by (simp add: m_def)
    have s: "xs = take m xs @ xs ! m # drop (Suc m) xs" by (rule id_take_nth_drop [OF m])
    have st: "sorted (take m xs)" "sorted (drop (Suc m) xs)" using "1.prems" by (simp_all add: sorted_wrt_take sorted_wrt_drop)
    have lo: "\<forall>y \<in> set (take m xs). y \<le> xs ! m" and hi: "\<forall>y \<in> set (drop (Suc m) xs). xs ! m \<le> y"
      using "1.prems" s sorted_append [of "take m xs" "xs ! m # drop (Suc m) xs"] by auto
    have mem: "x \<in> set xs \<longleftrightarrow> x \<in> set (take m xs) \<or> x = xs ! m \<or> x \<in> set (drop (Suc m) xs)"
      by (subst s) (simp only: set_append list.set insert_iff Un_iff)
    show ?thesis
    proof (cases x "xs ! m" rule: linorder_cases)
      case less
      then have "x \<in> set xs \<longleftrightarrow> x \<in> set (take m xs)" using mem hi by auto
      moreover have "bsearch xs x = bsearch (take m xs) x"
        using less False by (subst bsearch.simps) (auto simp: Let_def m_def)
      ultimately show ?thesis using "1.IH"(1) [OF False m_def refl _ less] less st(1) by simp
    next
      case equal
      then show ?thesis using mem False by (subst bsearch.simps) (simp add: Let_def m_def)
    next
      case greater
      then have "x \<in> set xs \<longleftrightarrow> x \<in> set (drop (Suc m) xs)" using mem lo by auto
      moreover have "bsearch xs x = bsearch (drop (Suc m) xs) x"
        using greater False by (subst bsearch.simps) (auto simp: Let_def m_def)
      ultimately show ?thesis using "1.IH"(2) [OF False m_def refl] greater st(2) by simp
    qed
  qed (simp add: bsearch.simps)
qed

text \<open>The pool as a list, and the scan as a first fit on it.\<close>

definition pool_list :: "port \<Rightarrow> port \<Rightarrow> port list" where
  "pool_list s e = map of_nat [unat s ..< unat e]"

lemma scan_pool_find: "scan_pool taken p e = find (\<lambda>x. \<not> taken x) (pool_list p e)"
proof (induction taken p e rule: scan_pool.induct)
  case (1 taken p e)
  show ?case
  proof (cases "e \<le> p")
    case True
    then show ?thesis by (subst scan_pool.simps) (simp add: pool_list_def word_le_nat_alt)
  next
    case False
    then have l: "unat p < unat e" by (simp add: word_less_nat_alt not_le)
    then have "pool_list p e = p # pool_list (p + 1) e"
      by (simp add: pool_list_def unat_succ upt_conv_Cons)
    then show ?thesis using False 1 by (subst scan_pool.simps) simp
  qed
qed

interpretation pool: first_fit "\<lambda>_. True" "\<lambda>(taken, p, e). scan_pool taken p e"
  "\<lambda>(taken, p, e). pool_list p e" "\<lambda>(taken, p, e) x. \<not> taken x"
  by unfold_locales (auto simp: scan_pool_find)

lemma pool_list_set: "x \<in> set (pool_list s e) \<longleftrightarrow> s \<le> x \<and> x < e"
proof -
  have "x \<in> set (pool_list s e) \<longleftrightarrow> (\<exists>n. unat s \<le> n \<and> n < unat e \<and> x = of_nat n)"
    by (auto simp: pool_list_def image_iff Bex_def)
  also have "\<dots> \<longleftrightarrow> unat s \<le> unat x \<and> unat x < unat e"
  proof
    assume "\<exists>n. unat s \<le> n \<and> n < unat e \<and> x = of_nat n"
    then obtain n where n: "unat s \<le> n" "n < unat e" "x = of_nat n" by blast
    then have "unat x = n" using unsigned_less [of e, where ?'a = nat] by (simp add: unat_of_nat)
    with n show "unat s \<le> unat x \<and> unat x < unat e" by simp
  next
    assume "unat s \<le> unat x \<and> unat x < unat e"
    then show "\<exists>n. unat s \<le> n \<and> n < unat e \<and> x = of_nat n" by (intro exI [of _ "unat x"]) simp
  qed
  finally show ?thesis by (simp add: word_le_nat_alt word_less_nat_alt)
qed

lemma scan_pool_Some: "scan_pool taken s e = Some p \<Longrightarrow> s \<le> p \<and> p < e \<and> \<not> taken p"
  using pool.found_free [of "(taken, s, e)" p] pool.found_pool [of "(taken, s, e)" p] by (simp add: pool_list_set)

lemma scan_pool_None: "scan_pool taken s e = None \<longleftrightarrow> (\<forall>p. s \<le> p \<and> p < e \<longrightarrow> taken p)"
  using pool.none_iff [of "(taken, s, e)"] by (auto simp: pool_list_set)

text \<open>The table: distinct keys and ports that are ports.\<close>

definition ports_ok :: "port_alloc list \<Rightarrow> bool" where
  "ports_ok rows \<longleftrightarrow> distinct (map pa_id rows) \<and> distinct (map pa_host rows) \<and>
     list_all (\<lambda>r. 0 \<le> pa_host r \<and> pa_host r < 65536) rows"

lemma of_int_port_mono: "0 \<le> a \<Longrightarrow> a \<le> b \<Longrightarrow> b < 65536 \<Longrightarrow> (of_int a :: port) \<le> of_int b"
  by (simp add: word_le_def uint_word_of_int take_bit_eq_mod)

lemma sorted_all_used: "ports_ok rows \<Longrightarrow> sorted (all_used rows)"
proof -
  assume ok: "ports_ok rows"
  have "sorted_wrt (\<lambda>a b. (of_int a :: port) \<le> of_int b) (sort (map pa_host rows))"
    by (rule sorted_wrt_mono_rel [of _ "(\<le>)"])
       (use ok in \<open>auto simp: ports_ok_def list_all_iff intro!: of_int_port_mono\<close>)
  then show ?thesis by (simp add: all_used_def sorted_wrt_map)
qed

lemma used_iff: "ports_ok rows \<Longrightarrow> bsearch (all_used rows) p \<longleftrightarrow> uint p \<in> pa_host ` set rows"
proof -
  assume ok: "ports_ok rows"
  have r: "0 \<le> a \<and> a < 65536" if "a \<in> pa_host ` set rows" for a
    using that ok by (auto simp: ports_ok_def list_all_iff)
  have u: "uint (of_int a :: port) = a" if "0 \<le> a \<and> a < 65536" for a
    using that by (simp add: uint_word_of_int)
  have "p \<in> set (all_used rows) \<longleftrightarrow> (\<exists>a \<in> pa_host ` set rows. p = of_int a)"
    by (auto simp: all_used_def)
  also have "\<dots> \<longleftrightarrow> uint p \<in> pa_host ` set rows"
  proof
    assume "\<exists>a \<in> pa_host ` set rows. p = of_int a"
    then obtain a where "a \<in> pa_host ` set rows" "p = of_int a" by blast
    then show "uint p \<in> pa_host ` set rows" using u [OF r] by simp
  next
    assume "uint p \<in> pa_host ` set rows"
    then show "\<exists>a \<in> pa_host ` set rows. p = of_int a" by (rule rev_bexI) simp
  qed
  finally show ?thesis using bsearch_iff [OF sorted_all_used [OF ok]] by simp
qed

text \<open>What one choice guarantees, and when it fails.\<close>

definition allowed_port :: "bool \<Rightarrow> port \<Rightarrow> port \<Rightarrow> port option \<Rightarrow> port \<Rightarrow> port \<Rightarrow> bool" where
  "allowed_port pool_only start fin override standard p =
     (case override of
        Some r \<Rightarrow> p = r
      | None \<Rightarrow> (\<not> pool_only \<and> 1024 \<le> standard \<and> p = standard) \<or> (start \<le> p \<and> p < fin))"

lemma choose_port_ok:
  "choose_port used held po s e new ov std = Inr p \<Longrightarrow>
   \<not> bsearch used p \<and> \<not> held p \<and> p \<notin> set new \<and> allowed_port po s e ov std p"
  by (auto simp: choose_port_def allowed_port_def Let_def split: option.splits if_splits dest: scan_pool_Some)

lemma choose_port_auto_fails:
  "choose_port used held po s e new None std = Inl err \<Longrightarrow>
   err = PoolExhausted s e \<and> (\<forall>p. s \<le> p \<and> p < e \<longrightarrow> bsearch used p \<or> held p \<or> p \<in> set new)"
  by (auto simp: choose_port_def Let_def scan_pool_None split: option.splits if_splits)

lemma choose_ports_ok:
  "choose_ports used held po s e new reqs = Inr ps \<Longrightarrow> distinct new \<Longrightarrow>
   \<exists>qs. ps = new @ qs \<and> distinct ps \<and> length qs = length reqs \<and>
     (\<forall>i < length reqs. \<not> bsearch used (qs ! i) \<and> \<not> held (qs ! i) \<and>
        allowed_port po s e (fst (reqs ! i)) (snd (reqs ! i)) (qs ! i))"
proof (induction reqs arbitrary: new)
  case (Cons r reqs)
  obtain ov std where r: "r = (ov, std)" by (cases r)
  from Cons.prems r obtain p where p: "choose_port used held po s e new ov std = Inr p"
    "choose_ports used held po s e (new @ [p]) reqs = Inr ps" by (auto split: sum.splits)
  note q = choose_port_ok [OF p(1)]
  from Cons.IH [OF p(2)] q Cons.prems(2) obtain qs where
    "ps = (new @ [p]) @ qs \<and> distinct ps \<and> length qs = length reqs \<and>
     (\<forall>i < length reqs. \<not> bsearch used (qs ! i) \<and> \<not> held (qs ! i) \<and>
        allowed_port po s e (fst (reqs ! i)) (snd (reqs ! i)) (qs ! i))" by auto
  then show ?case using q r by (intro exI [of _ "p # qs"]) (auto simp: nth_Cons' less_Suc_eq_0_disj)
qed simp

lemma choose_ports_auto_fails:
  "choose_ports used held po s e new reqs = Inl err \<Longrightarrow> list_all (\<lambda>r. fst r = None) reqs \<Longrightarrow> distinct new \<Longrightarrow>
   err = PoolExhausted s e \<and>
   card {p. s \<le> p \<and> p < e \<and> \<not> bsearch used p \<and> \<not> held p} < length new + length reqs"
proof (induction reqs arbitrary: new)
  case (Cons r reqs)
  obtain std where r: "r = (None, std)" using Cons.prems(2) by (cases r) simp
  show ?case
  proof (cases "choose_port used held po s e new None std")
    case (Inl err')
    then have "{p. s \<le> p \<and> p < e \<and> \<not> bsearch used p \<and> \<not> held p} \<subseteq> set new"
      using choose_port_auto_fails [OF Inl] by auto
    then have "card {p. s \<le> p \<and> p < e \<and> \<not> bsearch used p \<and> \<not> held p} \<le> length new"
      using card_mono [of "set new"] card_length [of new] by (meson List.finite_set le_trans)
    then show ?thesis using Inl Cons.prems(1) r choose_port_auto_fails [OF Inl] by simp
  next
    case (Inr p)
    have "distinct (new @ [p])" using choose_port_ok [OF Inr] Cons.prems(3) by simp
    then show ?thesis using Cons.IH [of "new @ [p]"] Cons.prems r Inr by simp
  qed
qed simp


text \<open>The inserts.\<close>

definition row_of :: "string \<Rightarrow> string \<Rightarrow> string \<times> (string \<times> port) \<times> port \<Rightarrow> port_alloc" where
  "row_of created sid x = new_row created (fst x) sid (fst (fst (snd x))) (snd (snd x)) (snd (fst (snd x)))"

lemma insert_ports_result:
  "insert_ports now sid items db = (Inr as, db') \<Longrightarrow>
   as = map (row_of [] sid) items \<and> db' = db\<lparr>port_rows := port_rows db @ map (row_of now sid) items\<rparr>"
proof (induction now sid items db arbitrary: as db' rule: insert_ports.induct)
  case (2 now sid i name container host rest db)
  let ?r = "new_row now i sid name host container"
  let ?d = "db\<lparr>port_rows := port_rows db @ [?r]\<rparr>"
  from "2.prems" obtain as' where ins: "insert_port ?r db = Inr ?d"
      and r: "insert_ports now sid rest ?d = (Inr as', db')" "as = new_row [] i sid name host container # as'"
    by (auto simp: insert_port_def split: sum.splits prod.splits if_splits)
  from "2.IH" [OF ins r(1)] r(2) show ?case by (simp add: row_of_def)
qed simp

lemma uint_port: "0 \<le> uint (p :: port) \<and> uint p < 65536"
  using unsigned_less [of p, where ?'a = int] by simp

lemma insert_port_ok:
  "ports_ok (port_rows db) \<Longrightarrow> insert_port (new_row now i sid n h c) db = Inr db' \<Longrightarrow> ports_ok (port_rows db')"
proof -
  let ?r = "new_row now i sid n h c"
  assume ok: "ports_ok (port_rows db)" and i: "insert_port ?r db = Inr db'"
  then have d: "port_rows db' = port_rows db @ [?r]" "\<forall>q \<in> set (port_rows db). pa_id q \<noteq> pa_id ?r \<and> pa_host q \<noteq> pa_host ?r"
    by (auto simp: insert_port_def list_ex_iff split: if_splits)
  have "pa_host ?r = uint h" by (simp add: new_row_def)
  then show ?thesis using ok d(2) uint_port [of h] unfolding d(1) ports_ok_def by auto
qed

lemma insert_ports_inv: "ports_ok (port_rows db) \<Longrightarrow> ports_ok (port_rows (snd (insert_ports now sid items db)))"
  by (induction now sid items db rule: insert_ports.induct)
    (auto simp: insert_port_ok split: sum.splits prod.splits)

lemma insert_ports_succeeds:
  "list_ex (\<lambda>s. sv_id s = sid) (svc_rows db) \<Longrightarrow> distinct (map fst items) \<Longrightarrow>
   fst ` set items \<inter> pa_id ` set (port_rows db) = {} \<Longrightarrow> distinct (map (\<lambda>x. uint (snd (snd x))) items) \<Longrightarrow>
   (\<lambda>x. uint (snd (snd x))) ` set items \<inter> pa_host ` set (port_rows db) = {} \<Longrightarrow>
   \<exists>as db'. insert_ports now sid items db = (Inr as, db')"
proof (induction now sid items db rule: insert_ports.induct)
  case (2 now sid i name container host rest db)
  let ?r = "new_row now i sid name host container"
  have r: "pa_id ?r = i" "pa_host ?r = uint host" "pa_service ?r = sid" by (simp_all add: new_row_def)
  have ins: "insert_port ?r db = Inr (db\<lparr>port_rows := port_rows db @ [?r]\<rparr>)"
    using "2.prems" by (auto simp: insert_port_def list_ex_iff r image_iff)
  have "\<exists>as db'. insert_ports now sid rest (db\<lparr>port_rows := port_rows db @ [?r]\<rparr>) = (Inr as, db')"
    using "2.prems" by (intro "2.IH" [OF ins]) (auto simp: r)
  then show ?case by (auto simp: ins)
qed simp

section \<open>Properties\<close>

lemma allocate_cases:
  assumes "allocate_ports bnd uuid now sid specs start fin overrides pool_only probe db = (r, db')" "specs \<noteq> []"
    "overrides = [] \<or> length overrides = length specs"
  shows "(\<exists>e. r = Inl e \<and> db' = db \<and> choose_ports (all_used (port_rows db)) (host_taken bnd probe) pool_only start fin []
       (map (\<lambda>i. (override_at overrides i, snd (specs ! i))) [0..<length specs]) = Inl e) \<or>
    (\<exists>free. choose_ports (all_used (port_rows db)) (host_taken bnd probe) pool_only start fin []
       (map (\<lambda>i. (override_at overrides i, snd (specs ! i))) [0..<length specs]) = Inr free \<and>
       insert_ports now sid (zip (map uuid [0..<length specs]) (zip specs free)) db = (r, db'))"
  using assms by (auto simp: allocate_ports_def Let_def split: sum.splits)

text \<open>C4: when the allocator succeeds it has added one row per requested port, in order, and each port
  it chose is used by no other row, old or new, is held by no process on the probed host, and is the
  operator's port where one was asked for, and otherwise the container's own unprivileged port (unless
  restricted to the pool) or a port of the pool; in every outcome the table keeps its keys and host
  ports distinct and in range.\<close>

theorem allocated_ports_free:
  assumes "ports_ok (port_rows db)"
    and "allocate_ports bnd uuid now sid specs start fin overrides pool_only probe db = (r, db')"
  shows "ports_ok (port_rows db') \<and>
    (\<forall>as. r = Inr as \<longrightarrow>
       length as = length specs \<and> (\<exists>rows. port_rows db' = port_rows db @ rows \<and> map pa_host rows = map pa_host as) \<and>
       (\<forall>i < length specs. \<exists>p. pa_host (as ! i) = uint p \<and> pa_service (as ! i) = sid \<and>
          pa_name (as ! i) = fst (specs ! i) \<and> pa_container (as ! i) = uint (snd (specs ! i)) \<and>
          \<not> host_taken bnd probe p \<and>
          allowed_port pool_only start fin (override_at overrides i) (snd (specs ! i)) p))"
proof (cases "specs = [] \<or> (overrides \<noteq> [] \<and> length overrides \<noteq> length specs)")
  case True
  then show ?thesis using assms by (auto simp: allocate_ports_def Let_def split: if_splits)
next
  case False
  let ?reqs = "map (\<lambda>i. (override_at overrides i, snd (specs ! i))) [0..<length specs]"
  from allocate_cases [OF assms(2)] False consider e where "r = Inl e" "db' = db"
    | free where "choose_ports (all_used (port_rows db)) (host_taken bnd probe) pool_only start fin [] ?reqs = Inr free"
       "insert_ports now sid (zip (map uuid [0..<length specs]) (zip specs free)) db = (r, db')" by blast
  then show ?thesis
  proof cases
    case 2
    let ?items = "zip (map uuid [0..<length specs]) (zip specs free)"
    have free: "length free = length specs"
      "\<forall>i < length specs. \<not> host_taken bnd probe (free ! i) \<and>
         allowed_port pool_only start fin (override_at overrides i) (snd (specs ! i)) (free ! i)"
      using choose_ports_ok [OF 2(1)] by auto
    have "ports_ok (port_rows db')" using insert_ports_inv [OF assms(1)] 2(2) by (metis snd_conv)
    moreover have "length as = length specs \<and> (\<exists>rows. port_rows db' = port_rows db @ rows \<and> map pa_host rows = map pa_host as) \<and>
       (\<forall>i < length specs. \<exists>p. pa_host (as ! i) = uint p \<and> pa_service (as ! i) = sid \<and>
          pa_name (as ! i) = fst (specs ! i) \<and> pa_container (as ! i) = uint (snd (specs ! i)) \<and>
          \<not> host_taken bnd probe p \<and>
          allowed_port pool_only start fin (override_at overrides i) (snd (specs ! i)) p)" if "r = Inr as" for as
      using insert_ports_result [of now sid ?items db as db'] 2(2) that free
      by (auto simp: row_of_def new_row_def o_def)
    ultimately show ?thesis by blast
  qed (use assms(1) in simp)
qed

text \<open>with no port asked for, a known service and fresh identifiers, the allocator fails only when the
  pool really has fewer free ports than were requested, reports the pool as exhausted, and leaves the
  table as it was.\<close>

theorem allocation_complete:
  assumes "ports_ok (port_rows db)" "list_ex (\<lambda>s. sv_id s = sid) (svc_rows db)"
    and "inj uuid" "range uuid \<inter> pa_id ` set (port_rows db) = {}"
    and "allocate_ports bnd uuid now sid specs start fin [] pool_only probe db = (Inl err, db')"
  shows "db' = db \<and> err = PoolExhausted start fin \<and>
    card {p. start \<le> p \<and> p < fin \<and> uint p \<notin> pa_host ` set (port_rows db) \<and> \<not> host_taken bnd probe p} < length specs"
proof -
  let ?reqs = "map (\<lambda>i. (override_at [] i, snd (specs ! i))) [0..<length specs]"
  let ?choose = "choose_ports (all_used (port_rows db)) (host_taken bnd probe) pool_only start fin [] ?reqs"
  have ne: "specs \<noteq> []" using assms(5) by (auto simp: allocate_ports_def)
  have "\<not> (\<exists>free. ?choose = Inr free \<and> insert_ports now sid (zip (map uuid [0..<length specs]) (zip specs free)) db = (Inl err, db'))"
  proof
    assume "\<exists>free. ?choose = Inr free \<and> insert_ports now sid (zip (map uuid [0..<length specs]) (zip specs free)) db = (Inl err, db')"
    then obtain free where c: "?choose = Inr free"
      and i: "insert_ports now sid (zip (map uuid [0..<length specs]) (zip specs free)) db = (Inl err, db')" by blast
    let ?items = "zip (map uuid [0..<length specs]) (zip specs free)"
    from choose_ports_ok [OF c] have f: "distinct free" "length free = length specs"
      and u: "\<forall>i < length free. \<not> bsearch (all_used (port_rows db)) (free ! i)" by auto
    have f3: "\<forall>p \<in> set free. uint p \<notin> pa_host ` set (port_rows db)"
      using u unfolding used_iff [OF assms(1)] all_set_conv_all_nth .
    have m: "map fst ?items = map uuid [0..<length specs]" "map (\<lambda>x. snd (snd x)) ?items = free"
      using f(2) by (simp_all add: map_snd_zip [unfolded o_def] map_map [symmetric, unfolded o_def] del: map_map)
    have "distinct (map uuid [0..<length specs])" using assms(3) by (simp add: distinct_map inj_on_def inj_def)
    moreover have "fst ` set ?items \<inter> pa_id ` set (port_rows db) = {}"
    proof -
      have "fst ` set ?items \<subseteq> range uuid" using arg_cong [OF m(1), of set] by auto
      then show ?thesis using assms(4) by blast
    qed
    moreover have "(\<lambda>x. uint (snd (snd x))) ` set ?items \<inter> pa_host ` set (port_rows db) = {}"
    proof -
      have "(\<lambda>x. uint (snd (snd x))) ` set ?items = uint ` set free"
        using arg_cong [OF m(2), of "\<lambda>xs. uint ` set xs"] by (simp add: image_image)
      then show ?thesis using f3 by auto
    qed
    moreover have "distinct (map (\<lambda>x. uint (snd (snd x))) ?items)"
    proof -
      have "map (\<lambda>x. uint (snd (snd x))) ?items = map uint free" using arg_cong [OF m(2), of "map uint"] by (simp add: o_def)
      then show ?thesis using f(1) by (auto simp: distinct_map intro!: inj_onI dest: word_uint_eqI)
    qed
    ultimately obtain as d where "insert_ports now sid ?items db = (Inr as, d)"
      using insert_ports_succeeds [OF assms(2), of ?items now] unfolding m by blast
    with i show False by simp
  qed
  with allocate_cases [OF assms(5) ne] have c: "db' = db" "?choose = Inl err" by auto
  have "list_all (\<lambda>r. fst r = None) ?reqs" by (simp add: list_all_iff override_at_def)
  from choose_ports_auto_fails [OF c(2) this] c(1) show ?thesis by (simp add: used_iff [OF assms(1)])
qed

section \<open>Witnesses\<close>

text \<open>One service holding 5432, a host on which 6000 is held, and a pool of four ports.\<close>

definition sample_host :: host where
  "sample_host a p = (if p = 6000 then BindError else Bound)"

definition sample_ports :: port_db where
  "sample_ports = \<lparr>port_rows = [new_row [] ''r0'' ''s1'' ''primary'' 5432 5432],
     svc_rows = [\<lparr>sv_id = ''s1'', sv_project = None, sv_port = None, sv_updated = []\<rparr>,
                 \<lparr>sv_id = ''s2'', sv_project = None, sv_port = None, sv_updated = []\<rparr>],
     project_rows = []\<rparr>"

definition sample_uuid :: "nat \<Rightarrow> string" where
  "sample_uuid n = replicate n (CHR ''a'')"

lemma sample_ports_ok: "ports_ok (port_rows sample_ports)"
  by (simp add: ports_ok_def sample_ports_def new_row_def)

lemma allocated_ports_free_witness:
  "\<exists>r db'. allocate_ports sample_host sample_uuid [] ''s2'' [(''primary'', 5432), (''port-1'', 7000)] 5999 6003 [] False
      (Some []) sample_ports = (r, db') \<and> ports_ok (port_rows db')"
proof -
  obtain r db' where e: "allocate_ports sample_host sample_uuid [] ''s2'' [(''primary'', 5432), (''port-1'', 7000)]
      5999 6003 [] False (Some []) sample_ports = (r, db')" by fastforce
  from allocated_ports_free [OF sample_ports_ok e] e show ?thesis by blast
qed

lemma sample_exhausted:
  "allocate_ports sample_host sample_uuid [] ''s2'' [(''primary'', 80)] 6000 6001 [] False (Some []) sample_ports =
     (Inl (PoolExhausted 6000 6001), sample_ports)"
proof -
  have "choose_port used (host_taken sample_host (Some [])) False 6000 6001 [] None 80 = Inl (PoolExhausted 6000 6001)" for used
    by (simp add: choose_port_def Let_def scan_pool_find pool_list_def host_taken_def host_port_free_def sample_host_def)
  then show ?thesis by (simp add: allocate_ports_def override_at_def)
qed

lemma allocation_complete_witness:
  "card {p. 6000 \<le> p \<and> p < 6001 \<and> uint p \<notin> pa_host ` set (port_rows sample_ports) \<and>
     \<not> host_taken sample_host (Some []) p} < Suc 0"
proof -
  have "list_ex (\<lambda>s. sv_id s = ''s2'') (svc_rows sample_ports)" by (simp add: sample_ports_def)
  moreover have "inj sample_uuid" by (rule injI) (simp add: sample_uuid_def replicate_eq_replicate)
  moreover have "range sample_uuid \<inter> pa_id ` set (port_rows sample_ports) = {}"
    by (auto simp: sample_uuid_def sample_ports_def new_row_def Cons_replicate_eq)
  ultimately show ?thesis
    using allocation_complete [OF sample_ports_ok _ _ _ sample_exhausted] by simp
qed

end
