(* ===== verification/PortBindings.thy ===== *)
theory PortBindings
  imports Ports
begin

text \<open>
  From allocation rows to a container's published ports and back: the bindings, exposed ports and
  volume mounts a recreated container gets (docker/recreate.rs) and the updates that bring the rows
  in line with what Docker reports (docker/port_sync.rs). A hash map is an association list in the
  order it is iterated. The lemmas show that the synchronisation never hides exposure, that what a
  recreate publishes reads back as the same rows, and that volumes are carried over.
\<close>

section \<open>Docker's data\<close>

record port_binding =
  pb_ip :: "string option"
  pb_port :: "string option"

type_synonym port_map = "(string \<times> port_binding list option) list"

record container_binding =
  cb_container :: port
  cb_host :: port
  cb_public :: bool

record container_bindings =
  cs_service :: "string option"
  cs_bindings :: "container_binding list"

record port_update =
  pu_row :: string
  pu_public :: bool
  pu_port :: "port option"

text \<open>The reading of \<open>HostConfig.PortBindings\<close> in \<open>sync_ports_from_docker\<close>.\<close>

definition key_port :: "string \<Rightarrow> port option" where
  "key_port key = map_option of_nat (parse_uint 65535 (hd (split_on (CHR ''/'') key)))"

definition host_ip_public :: "string option \<Rightarrow> bool" where
  "host_ip_public ip =
     (let s = (case ip of None \<Rightarrow> [] | Some s \<Rightarrow> s) in s = [] \<or> s = ''0.0.0.0'' \<or> s = ''::'')"

definition read_entry :: "port \<Rightarrow> port_binding \<Rightarrow> container_binding option" where
  "read_entry cp e =
     (case pb_port e of
        None \<Rightarrow> None
      | Some s \<Rightarrow>
          (case parse_uint 65535 s of
             None \<Rightarrow> None
           | Some hp \<Rightarrow> Some \<lparr>cb_container = cp, cb_host = of_nat hp, cb_public = host_ip_public (pb_ip e)\<rparr>))"

definition read_bindings :: "port_map \<Rightarrow> container_binding list" where
  "read_bindings m =
     concat (map (\<lambda>(key, entries).
       (case (key_port key, entries) of
          (Some cp, Some es) \<Rightarrow> List.map_filter (read_entry cp) es
        | _ \<Rightarrow> [])) m)"

section \<open>Synchronising the rows\<close>

definition sync_container :: "port_alloc list \<Rightarrow> container_bindings list \<Rightarrow> port_alloc \<Rightarrow> container_bindings option" where
  "sync_container allocs containers a =
     (if list_all (\<lambda>a. pa_compose a = None) allocs \<and> length containers = 1
      then (case containers of [] \<Rightarrow> None | c # _ \<Rightarrow> Some c)
      else find (\<lambda>c. cs_service c = pa_compose a) containers)"

definition claimed_by_another_row :: "port_alloc list \<Rightarrow> port_alloc \<Rightarrow> container_binding \<Rightarrow> bool" where
  "claimed_by_another_row allocs a b =
     list_ex (\<lambda>r. pa_id r \<noteq> pa_id a \<and> pa_host r = uint (cb_host b)) allocs"

definition for_this_port :: "container_bindings \<Rightarrow> port_alloc \<Rightarrow> container_binding list" where
  "for_this_port c a = filter (\<lambda>b. uint (cb_container b) = pa_container a) (cs_bindings c)"

definition sync_binding :: "port_alloc list \<Rightarrow> container_bindings \<Rightarrow> port_alloc \<Rightarrow> container_binding option" where
  "sync_binding allocs c a =
     (let bs = for_this_port c a;
          exact = find (\<lambda>b. Some (uint (cb_host b)) = pa_public_port a \<or> uint (cb_host b) = pa_host a) bs;
          orphan_public = find (\<lambda>b. cb_public b \<and> \<not> claimed_by_another_row allocs a b) bs
      in case (exact, orphan_public) of
           (Some e, Some p) \<Rightarrow> if \<not> cb_public e then Some p else Some e
         | (Some e, None) \<Rightarrow> Some e
         | (None, Some p) \<Rightarrow> Some p
         | (None, None) \<Rightarrow>
             (case find cb_public bs of
                Some b \<Rightarrow> Some b
              | None \<Rightarrow> (case bs of [] \<Rightarrow> None | b # _ \<Rightarrow> Some b)))"

definition sync_one :: "port_alloc list \<Rightarrow> container_bindings list \<Rightarrow> port_alloc \<Rightarrow> port_update option" where
  "sync_one allocs containers a =
     (case sync_container allocs containers a of
        None \<Rightarrow> None
      | Some c \<Rightarrow>
          (let cur = map_option of_int (pa_public_port a);
               (pub, p) =
                 (case sync_binding allocs c a of
                    None \<Rightarrow> (False, cur)
                  | Some b \<Rightarrow> if cb_public b then (True, Some (cb_host b)) else (False, cur))
           in if pub \<noteq> pa_public a \<or> p \<noteq> cur
              then Some \<lparr>pu_row = pa_id a, pu_public = pub, pu_port = p\<rparr> else None))"

definition compute_sync_updates :: "port_alloc list \<Rightarrow> container_bindings list \<Rightarrow> port_update list" where
  "compute_sync_updates allocs containers = List.map_filter (sync_one allocs containers) allocs"

fun apply_sync :: "port_update list \<Rightarrow> port_alloc list \<Rightarrow> port_alloc list" where
  "apply_sync [] rows = rows"
| "apply_sync (u # us) rows =
     apply_sync us (sql_update (\<lambda>r. pa_id r = pu_row u)
       (\<lambda>r. r\<lparr>pa_public := pu_public u, pa_public_port := map_option uint (pu_port u)\<rparr>) rows)"

section \<open>Publishing the rows\<close>

definition alloc_proto :: "port_alloc \<Rightarrow> string" where
  "alloc_proto a = (if pa_protocol a = [] then ''tcp'' else pa_protocol a)"

definition alloc_key :: "port_alloc \<Rightarrow> string" where
  "alloc_key a = show_int (pa_container a) @ ''/'' @ alloc_proto a"

definition row_binding :: "port_alloc \<Rightarrow> port_binding option" where
  "row_binding a =
     (if pa_container a \<le> 0 then None
      else if pa_public a then
        map_option (\<lambda>pp. \<lparr>pb_ip = Some ''0.0.0.0'', pb_port = Some (show_int pp)\<rparr>) (pa_public_port a)
      else Some \<lparr>pb_ip = Some ''127.0.0.1'', pb_port = Some (show_int (pa_host a))\<rparr>)"

fun add_binding :: "string \<Rightarrow> port_binding \<Rightarrow> port_map \<Rightarrow> port_map" where
  "add_binding key b [] = [(key, Some [b])]"
| "add_binding key b ((k, v) # m) =
     (if k = key then
        (k, (case v of None \<Rightarrow> None | Some bs \<Rightarrow> Some (if b \<in> set bs then bs else bs @ [b]))) # m
      else (k, v) # add_binding key b m)"

fun add_rows :: "port_map \<Rightarrow> port_alloc list \<Rightarrow> port_map" where
  "add_rows m [] = m"
| "add_rows m (a # as) =
     add_rows (case row_binding a of None \<Rightarrow> m | Some b \<Rightarrow> add_binding (alloc_key a) b m) as"

definition build_port_bindings_for_container :: "port_alloc list \<Rightarrow> port_map" where
  "build_port_bindings_for_container allocs = add_rows [] allocs"

fun collision_loop :: "(port \<times> port_alloc) list \<Rightarrow> port_alloc list \<Rightarrow> (port_alloc \<times> port_alloc \<times> port) option" where
  "collision_loop seen [] = None"
| "collision_loop seen (a # as) =
     (if \<not> pa_public a \<or> pa_container a \<le> 0 then collision_loop seen as
      else (case pa_public_port a of
              None \<Rightarrow> collision_loop seen as
            | Some i \<Rightarrow>
                (let pp = of_int i
                 in case map_of seen pp of
                      Some prev \<Rightarrow>
                        if pa_container prev \<noteq> pa_container a \<or> pa_protocol prev \<noteq> pa_protocol a \<or>
                           pa_compose prev \<noteq> pa_compose a
                        then Some (prev, a, pp) else collision_loop seen as
                    | None \<Rightarrow> collision_loop ((pp, a) # seen) as)))"

definition public_port_collision :: "port_alloc list \<Rightarrow> string option" where
  "public_port_collision allocs =
     map_option (\<lambda>(prev, a, pp).
        ''Ports '' @ [CHR 0x22] @ pa_name prev @ [CHR 0x22] @ '' ('' @ show_int (pa_container prev) @ '') and '' @
        [CHR 0x22] @ pa_name a @ [CHR 0x22] @ '' ('' @ show_int (pa_container a) @
        '') of this service both want public port '' @ dec (unat pp) @
        ''. Change one of them and toggle again.'')
       (collision_loop [] allocs)"

fun dedup_add :: "string list \<Rightarrow> string list \<Rightarrow> string list" where
  "dedup_add out [] = out"
| "dedup_add out (s # ss) = dedup_add (if s \<in> set out then out else out @ [s]) ss"

definition build_exposed_ports :: "string list option \<Rightarrow> port_alloc list \<Rightarrow> string list" where
  "build_exposed_ports old allocs =
     dedup_add (dedup_add [] (case old of None \<Rightarrow> [] | Some v \<Rightarrow> v))
       (map alloc_key (filter (\<lambda>a. 0 < pa_container a) allocs))"

definition collect_host_ports :: "port_map \<Rightarrow> port list" where
  "collect_host_ports m =
     concat (map (\<lambda>(_, v). case v of None \<Rightarrow> [] | Some es \<Rightarrow>
       List.map_filter (\<lambda>e. map_option of_nat (Option.bind (pb_port e) (parse_uint 65535))) es) m)"

definition allocations_for_this_container ::
  "port_alloc list \<Rightarrow> port list \<Rightarrow> string option \<Rightarrow> string option \<Rightarrow> port_alloc list" where
  "allocations_for_this_container allocs current idx compose =
     (case compose of
        Some cs \<Rightarrow>
          if list_all (\<lambda>a. pa_compose a = None) allocs then allocs
          else filter (\<lambda>a. pa_compose a = Some cs) allocs
      | None \<Rightarrow>
          if \<not> list_ex (\<lambda>a. starts_with (pa_name a) ''replica_'' \<or> starts_with (pa_name a) ''replica-'') allocs
          then allocs
          else if current \<noteq> [] then filter (\<lambda>a. of_int (pa_host a) \<in> set current) allocs
          else (case idx of
                  Some i \<Rightarrow> filter (\<lambda>a. pa_name a = ''replica_'' @ i \<or> pa_name a = ''replica-'' @ i) allocs
                | None \<Rightarrow> []))"

section \<open>Volumes\<close>

datatype mount_type = Volume | OtherMount string

record mount =
  mt_target :: "string option"
  mt_source :: "string option"
  mt_typ :: "mount_type option"
  mt_read_only :: "bool option"

record mount_point =
  mp_typ :: "mount_type option"
  mp_name :: "string option"
  mp_destination :: "string option"
  mp_rw :: "bool option"

definition bind_dest :: "string \<Rightarrow> string option" where
  "bind_dest b = (case split_on (CHR '':'') b of _ # d # _ \<Rightarrow> Some d | _ \<Rightarrow> None)"

fun preserve_loop :: "string list \<Rightarrow> mount list \<Rightarrow> mount_point list \<Rightarrow> mount list" where
  "preserve_loop occupied out [] = out"
| "preserve_loop occupied out (mp # mps) =
     (if mp_typ mp \<noteq> Some Volume then preserve_loop occupied out mps
      else (case (mp_name mp, mp_destination mp) of
              (Some name, Some dest) \<Rightarrow>
                if name = [] \<or> dest = [] then preserve_loop occupied out mps
                else if dest \<in> set occupied then preserve_loop occupied out mps
                else preserve_loop (dest # occupied)
                       (out @ [\<lparr>mt_target = Some dest, mt_source = Some name, mt_typ = Some Volume,
                                mt_read_only = Some (mp_rw mp = Some False)\<rparr>]) mps
            | _ \<Rightarrow> preserve_loop occupied out mps))"

definition preserve_volume_mounts ::
  "string list option \<Rightarrow> mount list option \<Rightarrow> mount_point list option \<Rightarrow> mount list option" where
  "preserve_volume_mounts binds mounts inspect_mounts =
     (let out = (case mounts of None \<Rightarrow> [] | Some m \<Rightarrow> m);
          occupied = List.map_filter mt_target out @
                     List.map_filter bind_dest (case binds of None \<Rightarrow> [] | Some b \<Rightarrow> b);
          out' = preserve_loop occupied out (case inspect_mounts of None \<Rightarrow> [] | Some m \<Rightarrow> m)
      in if out' = [] then None else Some out')"

section \<open>The log line\<close>

fun join :: "string \<Rightarrow> string list \<Rightarrow> string" where
  "join sep [] = []"
| "join sep [x] = x"
| "join sep (x # y # ys) = x @ sep @ join sep (y # ys)"

definition binding_parts :: "string \<times> port_binding list option \<Rightarrow> (nat \<times> string) list" where
  "binding_parts = (\<lambda>(key, entries).
     (let cport = (case parse_uint 65535 (hd (split_on (CHR ''/'') key)) of None \<Rightarrow> 0 | Some n \<Rightarrow> n)
      in case entries of
           Some (e # es) \<Rightarrow>
             map (\<lambda>e. (cport,
                (case pb_ip e of Some ip \<Rightarrow> if ip \<noteq> [] then ip else ''0.0.0.0'' | None \<Rightarrow> ''0.0.0.0'') @ '':'' @
                (case pb_port e of Some hp \<Rightarrow> hp | None \<Rightarrow> ''?'') @ ''->'' @ key)) (e # es)
         | _ \<Rightarrow> [(cport, ''private->'' @ key)]))"

definition describe_bindings :: "port_map \<Rightarrow> string" where
  "describe_bindings m =
     (let parts = concat (map binding_parts m)
      in if parts = [] then ''none'' else join '', '' (map snd (sort parts)))"


section \<open>Lemmas on synchronising\<close>

definition set_exposure :: "port_update \<Rightarrow> port_alloc \<Rightarrow> port_alloc" where
  "set_exposure u r = r\<lparr>pa_public := pu_public u, pa_public_port := map_option uint (pu_port u)\<rparr>"

lemma pa_id_set_exposure [simp]: "pa_id (set_exposure u r) = pa_id r"
  by (simp add: set_exposure_def)

definition synced_row :: "port_update list \<Rightarrow> port_alloc \<Rightarrow> port_alloc" where
  "synced_row us r = (case find (\<lambda>u. pu_row u = pa_id r) us of None \<Rightarrow> r | Some u \<Rightarrow> set_exposure u r)"

lemma apply_sync_map: "distinct (map pu_row us) \<Longrightarrow> apply_sync us rows = map (synced_row us) rows"
proof (induction us arbitrary: rows)
  case Nil
  then show ?case by (simp add: synced_row_def)
next
  case (Cons u us)
  have n: "find (\<lambda>v. pu_row v = pu_row u) us = None" using Cons.prems by (auto simp: find_None_iff image_iff)
  have s: "synced_row us (if pa_id r = pu_row u then set_exposure u r else r) = synced_row (u # us) r" for r
    using n by (auto simp: synced_row_def)
  show ?case using Cons s by (simp add: sql_update_def set_exposure_def [symmetric])
qed

lemma sync_one_row: "sync_one allocs cs a = Some u \<Longrightarrow> pu_row u = pa_id a"
  by (auto simp: sync_one_def Let_def split: option.splits if_splits prod.splits)

lemma in_map_filter: "u \<in> set (List.map_filter f xs) \<longleftrightarrow> (\<exists>x \<in> set xs. f x = Some u)"
  by (force simp: List.map_filter_def)

lemma find_const: "\<forall>b \<in> set bs. b = e \<Longrightarrow> bs \<noteq> [] \<Longrightarrow> find P bs = (if P e then Some e else None)"
proof (induction bs)
  case (Cons b bs)
  then show ?case by (cases bs) auto
qed simp

lemma find_sync_updates:
  "distinct (map pa_id as) \<Longrightarrow> a \<in> set as \<Longrightarrow>
   find (\<lambda>u. pu_row u = pa_id a) (List.map_filter (sync_one allocs cs) as) = sync_one allocs cs a"
proof (induction as)
  case (Cons x xs)
  have none: "find (\<lambda>u. pu_row u = pa_id x) (List.map_filter (sync_one allocs cs) xs) = None"
    using Cons.prems by (auto simp: find_None_iff in_map_filter image_iff dest!: sync_one_row)
  show ?case
  proof (cases "a = x")
    case True
    then show ?thesis using none
      by (auto simp: List.map_filter_simps split: option.split dest: sync_one_row)
  next
    case False
    then have "pa_id a \<noteq> pa_id x" "a \<in> set xs" using Cons.prems by (auto simp: image_iff)
    then show ?thesis using Cons
      by (auto simp: List.map_filter_simps split: option.split dest: sync_one_row)
  qed
qed simp

lemma distinct_sync_updates:
  "distinct (map pa_id as) \<Longrightarrow> distinct (map pu_row (List.map_filter (sync_one allocs cs) as))"
proof (induction as)
  case (Cons x xs)
  have "pa_id x \<notin> pu_row ` set (List.map_filter (sync_one allocs cs) xs)"
    using Cons.prems by (auto simp: in_map_filter image_iff dest!: sync_one_row)
  then show ?case using Cons
    by (auto simp: List.map_filter_simps split: option.split dest: sync_one_row)
qed (simp add: List.map_filter_simps)

text \<open>The rows after a synchronisation, row by row.\<close>

lemma apply_sync_updates:
  assumes "distinct (map pa_id allocs)"
  shows "apply_sync (compute_sync_updates allocs cs) allocs =
    map (\<lambda>a. case sync_one allocs cs a of None \<Rightarrow> a | Some u \<Rightarrow> set_exposure u a) allocs"
proof -
  have "synced_row (compute_sync_updates allocs cs) a =
      (case sync_one allocs cs a of None \<Rightarrow> a | Some u \<Rightarrow> set_exposure u a)" if "a \<in> set allocs" for a
    using find_sync_updates [OF assms that] by (simp add: synced_row_def compute_sync_updates_def)
  then show ?thesis
    using apply_sync_map [OF distinct_sync_updates [OF assms]] by (simp add: compute_sync_updates_def)
qed

lemma sync_binding_public:
  assumes "b \<in> set (for_this_port c a)" "cb_public b" "\<not> claimed_by_another_row allocs a b"
  shows "\<exists>b' \<in> set (for_this_port c a). sync_binding allocs c a = Some b' \<and> cb_public b'"
proof -
  have "find (\<lambda>b. cb_public b \<and> \<not> claimed_by_another_row allocs a b) (for_this_port c a) \<noteq> None"
    using assms by (auto simp: find_None_iff)
  then obtain p where p: "find (\<lambda>b. cb_public b \<and> \<not> claimed_by_another_row allocs a b) (for_this_port c a) = Some p"
    by blast
  have e: "find P (for_this_port c a) = Some x \<Longrightarrow> x \<in> set (for_this_port c a) \<and> P x" for P x
    by (auto simp: find_Some_iff)
  show ?thesis
    using e [OF p] e unfolding sync_binding_def Let_def p by (auto split: option.splits)
qed

section \<open>Lemmas on publishing\<close>

lemma show_int_nonneg: "0 \<le> i \<Longrightarrow> show_int i = dec (nat i)"
  by (simp add: show_int_def)

lemma parse_show_int: "0 \<le> i \<Longrightarrow> i < 65536 \<Longrightarrow> parse_uint 65535 (show_int i) = Some (nat i)"
  by (simp add: show_int_nonneg parse_dec nat_le_iff)

lemma slash_notin_dec: "CHR ''/'' \<notin> set (dec n)"
  using dec_set [of "CHR ''/''" n] by (auto simp: is_digit_def)

lemma key_port_alloc: "0 \<le> pa_container a \<Longrightarrow> pa_container a < 65536 \<Longrightarrow> key_port (alloc_key a) = Some (of_int (pa_container a))"
  using parse_show_int [of "pa_container a"]
  by (simp add: key_port_def alloc_key_def show_int_nonneg split_on_append slash_notin_dec of_nat_nat)

lemma alloc_key_inj:
  assumes "0 \<le> pa_container a" "0 \<le> pa_container b" "pa_container a < 65536" "pa_container b < 65536" "alloc_key a = alloc_key b"
  shows "pa_container a = pa_container b"
proof -
  have "(of_int (pa_container a) :: port) = of_int (pa_container b)"
    using key_port_alloc [of a] key_port_alloc [of b] assms by simp
  then have "uint (of_int (pa_container a) :: port) = uint (of_int (pa_container b) :: port)" by simp
  then show ?thesis using assms by (simp add: uint_word_of_int)
qed

text \<open>The rows of one container that can be published: real ports, distinct container ports, a port on
  every public row.\<close>

definition publishable :: "port_alloc \<Rightarrow> bool" where
  "publishable a \<longleftrightarrow> 0 < pa_container a \<and> pa_container a < 65536 \<and> 0 \<le> pa_host a \<and> pa_host a < 65536 \<and>
     (case pa_public_port a of None \<Rightarrow> \<not> pa_public a | Some p \<Rightarrow> 0 \<le> p \<and> p < 65536)"

definition published :: "port_alloc \<Rightarrow> container_binding" where
  "published a = \<lparr>cb_container = of_int (pa_container a),
     cb_host = of_int (if pa_public a then the (pa_public_port a) else pa_host a), cb_public = pa_public a\<rparr>"

lemma add_binding_new: "key \<notin> fst ` set m \<Longrightarrow> add_binding key b m = m @ [(key, Some [b])]"
  by (induction key b m rule: add_binding.induct) auto

lemma add_rows_new:
  "list_all publishable as \<Longrightarrow> distinct (map pa_container as) \<Longrightarrow>
   alloc_key ` set as \<inter> fst ` set m = {} \<Longrightarrow>
   add_rows m as = m @ map (\<lambda>a. (alloc_key a, Some [the (row_binding a)])) as"
proof (induction as arbitrary: m)
  case (Cons a as)
  have "publishable a" using Cons.prems(1) by simp
  then have "\<exists>b. row_binding a = Some b"
    by (cases "pa_public_port a") (auto simp: row_binding_def publishable_def)
  then obtain b where b: "row_binding a = Some b" by blast
  have "alloc_key x \<noteq> alloc_key a" if "x \<in> set as" for x
  proof -
    have "publishable x" "publishable a" "pa_container x \<noteq> pa_container a"
      using that Cons.prems(1,2) by (auto simp: list_all_iff image_iff)
    then show ?thesis using alloc_key_inj [of x a] by (auto simp: publishable_def)
  qed
  then have "alloc_key a \<notin> alloc_key ` set as" by (metis imageE)
  then have "alloc_key ` set as \<inter> fst ` set (m @ [(alloc_key a, Some [b])]) = {}" using Cons.prems(3) by auto
  from Cons.IH [OF _ _ this] show ?case using Cons.prems b by (simp add: add_binding_new)
qed simp

lemma read_published:
  assumes "publishable a"
  shows "read_entry (of_int (pa_container a)) (the (row_binding a)) = Some (published a)"
proof -
  show ?thesis
  proof (cases "pa_public a")
    case True
    then obtain p where p: "pa_public_port a = Some p" "0 \<le> p" "p < 65536"
      using assms by (auto simp: publishable_def split: option.splits)
    then show ?thesis using True assms parse_show_int [of p]
      by (simp add: publishable_def row_binding_def read_entry_def published_def host_ip_public_def of_nat_nat)
  next
    case False
    then show ?thesis using assms parse_show_int [of "pa_host a"]
      by (simp add: publishable_def row_binding_def read_entry_def published_def host_ip_public_def of_nat_nat)
  qed
qed

lemma read_build:
  assumes "list_all publishable as" "distinct (map pa_container as)"
  shows "read_bindings (build_port_bindings_for_container as) = map published as"
proof -
  have k: "key_port (alloc_key a) = Some (of_int (pa_container a))" if "a \<in> set as" for a
    using that assms(1) by (intro key_port_alloc) (auto simp: list_all_iff publishable_def)
  have r: "read_entry (of_int (pa_container a)) (the (row_binding a)) = Some (published a)" if "a \<in> set as" for a
    using that assms(1) by (intro read_published) (simp add: list_all_iff)
  have b: "build_port_bindings_for_container as = map (\<lambda>a. (alloc_key a, Some [the (row_binding a)])) as"
    using add_rows_new [OF assms, of "[]"] by (simp add: build_port_bindings_for_container_def)
  have "read_bindings (build_port_bindings_for_container as) = concat (map (\<lambda>a. [published a]) as)"
    by (simp add: read_bindings_def b o_def k r List.map_filter_simps cong: map_cong)
  then show ?thesis by simp
qed

text \<open>Reading back what was published changes no row, in whatever order Docker reports it.\<close>

lemma sync_published:
  assumes "list_all publishable as" "distinct (map pa_container as)" "a \<in> set as"
    and "set (cs_bindings c) = set (map published as)"
  shows "sync_binding allocs c a = Some (published a)"
proof -
  have u: "uint (of_int i :: port) = i" if "0 \<le> i" "i < 65536" for i using that by (simp add: uint_word_of_int)
  have only: "b = published a" if "b \<in> set (for_this_port c a)" for b
  proof -
    from that assms(4) obtain x where x: "x \<in> set as" "b = published x" "uint (cb_container b) = pa_container a"
      by (auto simp: for_this_port_def)
    then have "publishable x" using assms(1) by (simp add: list_all_iff)
    then have "uint (of_int (pa_container x) :: port) = pa_container x" by (intro u) (auto simp: publishable_def)
    with x have "pa_container x = pa_container a" by (simp add: published_def)
    then show ?thesis using x assms(2,3) by (auto simp: distinct_map dest: inj_onD)
  qed
  have pa: "publishable a" using assms(1,3) by (simp add: list_all_iff)
  then have "published a \<in> set (for_this_port c a)"
    using assms(3,4) by (simp add: for_this_port_def published_def u publishable_def)
  then obtain bs where bs: "for_this_port c a = published a # bs" using only
    by (cases "for_this_port c a") auto
  have ex: "Some (uint (cb_host (published a))) = pa_public_port a \<or> uint (cb_host (published a)) = pa_host a"
    using pa by (auto simp: published_def publishable_def u split: option.splits)
  have o: "find P (for_this_port c a) = (if P (published a) then Some (published a) else None)" for P
    using only bs by (intro find_const) auto
  show ?thesis unfolding sync_binding_def Let_def o using ex by (auto split: if_splits)
qed

definition replica_row :: "port_alloc \<Rightarrow> bool" where
  "replica_row a \<longleftrightarrow> starts_with (pa_name a) ''replica_'' \<or> starts_with (pa_name a) ''replica-''"

text \<open>The container a row is synchronised with is one that publishes the row when it is recreated.\<close>

lemma sync_container_owns:
  assumes "sync_container allocs cs a = Some c" "a \<in> set allocs"
    and "cs_service c \<noteq> None \<or> \<not> list_ex replica_row allocs"
  shows "c \<in> set cs \<and> a \<in> set (allocations_for_this_container allocs cur idx (cs_service c))"
  using assms
  by (cases cs) (auto simp: sync_container_def allocations_for_this_container_def replica_row_def find_Some_iff
      list_all_iff list_ex_iff split: if_splits option.splits)

lemma set_allocations_for: "set (allocations_for_this_container allocs cur idx compose) \<subseteq> set allocs"
  by (auto simp: allocations_for_this_container_def split: option.splits)

section \<open>Lemmas on collisions and volumes\<close>

definition wants :: "port_alloc \<Rightarrow> port \<Rightarrow> bool" where
  "wants a pp \<longleftrightarrow> pa_public a \<and> 0 < pa_container a \<and> (\<exists>i. pa_public_port a = Some i \<and> pp = of_int i)"

definition target :: "port_alloc \<Rightarrow> int \<times> string \<times> string option" where
  "target a = (pa_container a, pa_protocol a, pa_compose a)"

lemma collision_loop_Cons:
  "collision_loop seen (a # as) = None \<longleftrightarrow>
     (if \<exists>pp. wants a pp
      then (case map_of seen (of_int (the (pa_public_port a)) :: port) of
              Some prev \<Rightarrow> target prev = target a \<and> collision_loop seen as = None
            | None \<Rightarrow> collision_loop ((of_int (the (pa_public_port a)), a) # seen) as = None)
      else collision_loop seen as = None)"
  by (auto simp: wants_def target_def Let_def split: option.splits)

lemma collision_loop_None:
  "collision_loop seen as = None \<Longrightarrow> a \<in> set as \<Longrightarrow> wants a pp \<Longrightarrow>
   (\<forall>p. map_of seen pp = Some p \<longrightarrow> target p = target a) \<and> (\<forall>b \<in> set as. wants b pp \<longrightarrow> target b = target a)"
proof (induction as arbitrary: seen a)
  case (Cons h as)
  have u: "wants x pp \<Longrightarrow> of_int (the (pa_public_port x)) = pp" for x by (auto simp: wants_def)
  show ?case
  proof (cases "wants h pp")
    case True
    show ?thesis
    proof (cases "map_of seen pp")
      case None
      then have c: "collision_loop ((pp, h) # seen) as = None"
        using Cons.prems(1) True u [OF True] by (auto simp: collision_loop_Cons simp del: collision_loop.simps split: if_splits)
      have "target x = target h" if "x \<in> set as" "wants x pp" for x
        using Cons.IH [OF c that] by simp
      then show ?thesis using None Cons.prems(2,3) by auto
    next
      case (Some p)
      then have c: "collision_loop seen as = None" "target p = target h"
        using Cons.prems(1) True u [OF True] by (auto simp: collision_loop_Cons simp del: collision_loop.simps split: if_splits)
      have "target x = target h" if "x \<in> set as" "wants x pp" for x
        using Cons.IH [OF c(1) that] Some c(2) by simp
      then show ?thesis using Some c(2) Cons.prems(2,3) by auto
    qed
  next
    case False
    then obtain seen' where c: "collision_loop seen' as = None" "map_of seen' pp = map_of seen pp"
      using Cons.prems(1) unfolding collision_loop_Cons
      by (auto simp: wants_def split: if_splits option.splits intro: that)
    have "a \<in> set as" using False Cons.prems(2,3) by auto
    from Cons.IH [OF c(1) this Cons.prems(3)] show ?thesis using c(2) False by auto
  qed
qed simp

lemma preserve_loop_extends: "\<exists>new. preserve_loop occ out mps = out @ new"
proof (induction occ out mps rule: preserve_loop.induct)
  case (2 occ out mp mps)
  then show ?case by (auto split: option.split) (metis append.assoc)+
qed simp

definition volume_at :: "mount_point \<Rightarrow> string \<Rightarrow> string \<Rightarrow> bool" where
  "volume_at mp name dest \<longleftrightarrow> mp_typ mp = Some Volume \<and> mp_name mp = Some name \<and> mp_destination mp = Some dest \<and>
     name \<noteq> [] \<and> dest \<noteq> []"

lemma preserve_loop_covers:
  "mp \<in> set mps \<Longrightarrow> volume_at mp name dest \<Longrightarrow> dest \<notin> set occ \<Longrightarrow>
   \<exists>m \<in> set (preserve_loop occ out mps). mt_target m = Some dest \<and>
     (\<exists>mp' \<in> set mps. \<exists>name'. volume_at mp' name' dest \<and> mt_source m = Some name' \<and> mt_typ m = Some Volume \<and>
        mt_read_only m = Some (mp_rw mp' = Some False))"
proof (induction mps arbitrary: occ out)
  case (Cons x mps)
  show ?case
  proof (cases "\<exists>n. volume_at x n dest")
    case True
    then obtain n where n: "volume_at x n dest" by blast
    let ?m = "\<lparr>mt_target = Some dest, mt_source = Some n, mt_typ = Some Volume, mt_read_only = Some (mp_rw x = Some False)\<rparr>"
    have e: "preserve_loop occ out (x # mps) = preserve_loop (dest # occ) (out @ [?m]) mps"
      using n Cons.prems(3) by (simp add: volume_at_def)
    obtain new where "preserve_loop (dest # occ) (out @ [?m]) mps = (out @ [?m]) @ new"
      using preserve_loop_extends by blast
    then have "?m \<in> set (preserve_loop occ out (x # mps))" unfolding e by simp
    then show ?thesis using n by (intro bexI [of _ ?m]) auto
  next
    case False
    then have mp: "mp \<in> set mps" using Cons.prems(1,2) by auto
    obtain occ' out' where e: "preserve_loop occ out (x # mps) = preserve_loop occ' out' mps" "dest \<notin> set occ'"
    proof (cases "mp_typ x = Some Volume \<and> (\<exists>n d. mp_name x = Some n \<and> mp_destination x = Some d \<and> n \<noteq> [] \<and> d \<noteq> [] \<and> d \<notin> set occ)")
      case True
      then obtain n d where nd: "mp_typ x = Some Volume" "mp_name x = Some n" "mp_destination x = Some d" "n \<noteq> []" "d \<noteq> []" "d \<notin> set occ"
        by blast
      then have "d \<noteq> dest" using False by (auto simp: volume_at_def)
      with nd Cons.prems(3) show ?thesis by (intro that [of "d # occ"]) auto
    next
      case False
      then have "preserve_loop occ out (x # mps) = preserve_loop occ out mps" by (auto split: option.split)
      then show ?thesis using Cons.prems(3) by (rule that)
    qed
    show ?thesis using Cons.IH [OF mp Cons.prems(2) e(2), of out'] unfolding e(1) by auto
  qed
qed simp


lemma map_filter_append: "List.map_filter f (xs @ ys) = List.map_filter f xs @ List.map_filter f ys"
  by (simp add: List.map_filter_def)

lemma preserve_loop_targets:
  "distinct (List.map_filter mt_target out) \<Longrightarrow> set (List.map_filter mt_target out) \<subseteq> set occ \<Longrightarrow>
   distinct (List.map_filter mt_target (preserve_loop occ out mps))"
proof (induction mps arbitrary: occ out)
  case (Cons x mps)
  show ?case
  proof (cases "mp_typ x = Some Volume \<and> (\<exists>n d. mp_name x = Some n \<and> mp_destination x = Some d \<and> n \<noteq> [] \<and> d \<noteq> [] \<and> d \<notin> set occ)")
    case True
    then obtain n d where nd: "mp_typ x = Some Volume" "mp_name x = Some n" "mp_destination x = Some d" "n \<noteq> []" "d \<noteq> []" "d \<notin> set occ"
      by blast
    let ?out = "out @ [\<lparr>mt_target = Some d, mt_source = Some n, mt_typ = Some Volume, mt_read_only = Some (mp_rw x = Some False)\<rparr>]"
    have "distinct (List.map_filter mt_target (preserve_loop (d # occ) ?out mps))"
      using Cons.prems nd(6) by (intro Cons.IH) (auto simp: map_filter_append)
    then show ?thesis using nd by simp
  next
    case False
    then have "preserve_loop occ out (x # mps) = preserve_loop occ out mps" by (auto split: option.split)
    then show ?thesis using Cons.IH [OF Cons.prems] by simp
  qed
qed simp

section \<open>Properties\<close>

text \<open>C10: after a synchronisation, a row whose container publishes its container port to the outside on a
  host port that no other row claims is recorded as public, with a host port that is really published;
  so exposure that no row accounts for is never recorded as private.\<close>

theorem sync_never_hides_exposure:
  assumes "distinct (map pa_id allocs)" "a \<in> set allocs" "sync_container allocs cs a = Some c"
    and "b \<in> set (cs_bindings c)" "uint (cb_container b) = pa_container a" "cb_public b"
    and "\<not> claimed_by_another_row allocs a b"
  shows "\<exists>a' \<in> set (apply_sync (compute_sync_updates allocs cs) allocs). pa_id a' = pa_id a \<and> pa_public a' \<and>
    (\<exists>b' \<in> set (cs_bindings c). cb_public b' \<and> uint (cb_container b') = pa_container a \<and>
       (\<exists>i. pa_public_port a' = Some i \<and> (of_int i :: port) = cb_host b'))"
proof -
  let ?f = "\<lambda>a. case sync_one allocs cs a of None \<Rightarrow> a | Some u \<Rightarrow> set_exposure u a"
  obtain b' where b': "b' \<in> set (for_this_port c a)" "sync_binding allocs c a = Some b'" "cb_public b'"
    using sync_binding_public [of b c a allocs] assms(4-7) by (auto simp: for_this_port_def)
  have "pa_public (?f a) \<and> (\<exists>i. pa_public_port (?f a) = Some i \<and> (of_int i :: port) = cb_host b')"
    using b' assms(3) by (cases "pa_public_port a") (auto simp: sync_one_def set_exposure_def Let_def split: option.split)
  moreover have "pa_id (?f a) = pa_id a" by (simp split: option.split)
  ultimately show ?thesis
    using assms(2) b' unfolding apply_sync_updates [OF assms(1)] set_map
    by (intro bexI [of _ "?f a"] imageI) (auto simp: for_this_port_def)
qed


text \<open>A private second row of a published container port becomes public by the synchronisation, on
  the port of the first: neither row claims port 9000 as its host port.\<close>

definition doubled_rows :: "port_alloc list" where
  "doubled_rows = [(new_row [] ''r1'' ''s'' ''primary'' 8080 80)\<lparr>pa_public := True, pa_public_port := Some 9000\<rparr>,
     new_row [] ''r2'' ''s'' ''port-1'' 8081 80]"

theorem duplicate_row_exposed:
  "map row_binding doubled_rows = [Some \<lparr>pb_ip = Some ''0.0.0.0'', pb_port = Some (show_int 9000)\<rparr>,
     Some \<lparr>pb_ip = Some ''127.0.0.1'', pb_port = Some (show_int 8081)\<rparr>] \<and>
   map (\<lambda>r. (pa_id r, pa_public r, pa_public_port r)) (apply_sync (compute_sync_updates doubled_rows
     [\<lparr>cs_service = Some ''web'', cs_bindings = [\<lparr>cb_container = 80, cb_host = 9000, cb_public = True\<rparr>,
        \<lparr>cb_container = 80, cb_host = 8081, cb_public = False\<rparr>]\<rparr>]) doubled_rows) =
     [(''r1'', True, Some 9000), (''r2'', True, Some 9000)]"
  by (simp add: doubled_rows_def new_row_def row_binding_def compute_sync_updates_def List.map_filter_simps
      sync_one_def sync_container_def sync_binding_def for_this_port_def claimed_by_another_row_def sql_simps)

text \<open>when no collision is reported, two public rows that want the same host port lead to the same
  container port, protocol and compose service.\<close>

theorem no_collision_same_target:
  assumes "public_port_collision allocs = None" "a \<in> set allocs" "b \<in> set allocs" "wants a pp" "wants b pp"
  shows "pa_container a = pa_container b \<and> pa_protocol a = pa_protocol b \<and> pa_compose a = pa_compose b"
proof -
  have "collision_loop [] allocs = None" using assms(1) by (simp add: public_port_collision_def)
  from collision_loop_None [OF this assms(2,4)] assms(3,5) have "target b = target a" by blast
  then show ?thesis by (simp add: target_def)
qed

text \<open>a recreated container keeps its volumes: the mounts the old configuration declared come first,
  every named volume Docker reports at a destination not bound or mounted by the configuration is mounted
  there again by name and with its access mode (the first, if several claim one destination), and no
  destination is mounted twice.\<close>

theorem volumes_preserved:
  assumes "mp \<in> set mps" "volume_at mp name dest" "dest \<notin> Option.these (mt_target ` set out)"
    and "dest \<notin> Option.these (bind_dest ` set bs)" "distinct (List.map_filter mt_target out)"
  shows "\<exists>ms new. preserve_volume_mounts (Some bs) (Some out) (Some mps) = Some ms \<and> ms = out @ new \<and>
    distinct (List.map_filter mt_target ms) \<and>
    (\<exists>m \<in> set ms. mt_target m = Some dest \<and> (\<exists>mp' \<in> set mps. \<exists>name'. volume_at mp' name' dest \<and>
       mt_source m = Some name' \<and> mt_typ m = Some Volume \<and> mt_read_only m = Some (mp_rw mp' = Some False)))"
proof -
  let ?occ = "List.map_filter mt_target out @ List.map_filter bind_dest bs"
  let ?ms = "preserve_loop ?occ out mps"
  have d: "dest \<notin> set ?occ" using assms(3,4) by (auto simp: in_map_filter in_these_eq image_iff)
  obtain new where new: "?ms = out @ new" using preserve_loop_extends by blast
  have dist: "distinct (List.map_filter mt_target ?ms)" by (rule preserve_loop_targets) (auto simp: assms(5))
  note cov = preserve_loop_covers [OF assms(1,2) d, of out]
  then have "?ms \<noteq> []" by auto
  then show ?thesis using new dist cov by (auto simp: preserve_volume_mounts_def Let_def)
qed

section \<open>Witnesses\<close>

definition sample_rows :: "port_alloc list" where
  "sample_rows = [(new_row [] ''r1'' ''s'' ''primary'' 5432 5432)\<lparr>pa_public := True, pa_public_port := Some 15432\<rparr>,
     new_row [] ''r2'' ''s'' ''port-1'' 10000 80]"

definition hidden :: container_bindings where
  "hidden = \<lparr>cs_service = None, cs_bindings = [\<lparr>cb_container = 80, cb_host = 10000, cb_public = False\<rparr>,
     \<lparr>cb_container = 80, cb_host = 8080, cb_public = True\<rparr>]\<rparr>"

lemma sync_never_hides_exposure_witness:
  "\<exists>a' \<in> set (apply_sync (compute_sync_updates sample_rows [hidden]) sample_rows). pa_id a' = ''r2'' \<and> pa_public a'"
  using sync_never_hides_exposure [of sample_rows "sample_rows ! 1" "[hidden]" hidden "cs_bindings hidden ! 1"]
  by (auto simp: sample_rows_def new_row_def hidden_def sync_container_def claimed_by_another_row_def)

text \<open>Two compose services, one with a public row.\<close>

definition tagged_rows :: "port_alloc list" where
  "tagged_rows = [(new_row [] ''r1'' ''s'' ''primary'' 5432 5432)\<lparr>pa_public := True, pa_public_port := Some 15432,
       pa_compose := Some ''db''\<rparr>, (new_row [] ''r2'' ''s'' ''port-1'' 10000 80)\<lparr>pa_compose := Some ''web''\<rparr>]"


lemma no_collision_same_target_witness:
  "\<exists>a \<in> set sample_rows. wants a 15432 \<and> (\<forall>b \<in> set sample_rows. wants b 15432 \<longrightarrow> pa_container b = 5432)"
proof -
  let ?a = "hd sample_rows"
  have a: "?a \<in> set sample_rows" "wants ?a 15432" "pa_container ?a = 5432"
    by (simp_all add: sample_rows_def new_row_def wants_def)
  have n: "public_port_collision sample_rows = None"
    by (simp add: public_port_collision_def sample_rows_def new_row_def Let_def)
  show ?thesis using no_collision_same_target [OF n _ a(1) _ a(2)] a by (intro bexI [of _ ?a]) auto
qed

lemma volumes_preserved_witness:
  "\<exists>ms. preserve_volume_mounts (Some [''/a:/b'']) (Some [])
      (Some [\<lparr>mp_typ = Some Volume, mp_name = Some ''v'', mp_destination = Some ''/data'', mp_rw = None\<rparr>]) = Some ms \<and>
    (\<exists>m \<in> set ms. mt_target m = Some ''/data'')"
proof -
  let ?mp = "\<lparr>mp_typ = Some Volume, mp_name = Some ''v'', mp_destination = Some ''/data'', mp_rw = None\<rparr>"
  have "''/data'' \<notin> Option.these (bind_dest ` set [''/a:/b''])" by (simp add: bind_dest_def in_these_eq)
  then show ?thesis
    using volumes_preserved [of ?mp "[?mp]" "''v''" "''/data''" "[]" "[''/a:/b'']"]
    by (auto simp: volume_at_def List.map_filter_simps)
qed

end
