(* ===== verification/Json.thy ===== *)
theory Json
  imports Prelude "HOL-Library.Char_ord" "HOL-Library.List_Lexorder"
begin

text \<open>
  Ordered maps and JSON values as the registry code uses them: a \<open>BTreeMap\<close> is an association list
  with strictly ascending keys, a JSON value a tree whose objects are such maps (serde_json's default
  map). A text column that holds JSON is modelled by the value it parses to. The interface
  \<open>ordered_map\<close> states what insertion and removal do to lookups; its lemmas on many insertions carry the
  proofs on dist-tags.
\<close>

section \<open>Ordered maps\<close>

type_synonym 'v btree = "(string \<times> 'v) list"

fun bt_insert :: "string \<Rightarrow> 'v \<Rightarrow> 'v btree \<Rightarrow> 'v btree" where
  "bt_insert k v [] = [(k, v)]"
| "bt_insert k v ((j, w) # m) =
     (if k < j then (k, v) # (j, w) # m
      else if k = j then (k, v) # m
      else (j, w) # bt_insert k v m)"

definition bt_remove :: "string \<Rightarrow> 'v btree \<Rightarrow> 'v btree" where
  "bt_remove k m = filter (\<lambda>e. fst e \<noteq> k) m"

definition bt_ok :: "'v btree \<Rightarrow> bool" where
  "bt_ok m \<longleftrightarrow> sorted_wrt (<) (map fst m)"

locale ordered_map =
  fixes ins :: "'k \<Rightarrow> 'v \<Rightarrow> ('k \<times> 'v) list \<Rightarrow> ('k \<times> 'v) list"
    and del :: "'k \<Rightarrow> ('k \<times> 'v) list \<Rightarrow> ('k \<times> 'v) list"
    and ok :: "('k \<times> 'v) list \<Rightarrow> bool"
  assumes lookup_ins: "ok m \<Longrightarrow> map_of (ins k v m) = (map_of m)(k \<mapsto> v)"
    and lookup_del: "ok m \<Longrightarrow> map_of (del k m) = (map_of m)(k := None)"
    and ok_ins: "ok m \<Longrightarrow> ok (ins k v m)"
    and ok_del: "ok m \<Longrightarrow> ok (del k m)"
begin

definition ins_all :: "('k \<times> 'v) list \<Rightarrow> ('k \<times> 'v) list \<Rightarrow> ('k \<times> 'v) list" where
  "ins_all kvs m = fold (\<lambda>(k, v). ins k v) kvs m"

lemma ok_ins_all: "ok m \<Longrightarrow> ok (ins_all kvs m)"
  by (induction kvs arbitrary: m) (auto simp: ins_all_def ok_ins)

text \<open>Inserting all bindings of a map with distinct keys overrides.\<close>

lemma lookup_ins_all: "ok m \<Longrightarrow> distinct (map fst kvs) \<Longrightarrow> map_of (ins_all kvs m) = map_of m ++ map_of kvs"
proof (induction kvs arbitrary: m)
  case (Cons kv kvs)
  obtain k v where kv: "kv = (k, v)" by (cases kv)
  have "map_of (ins_all kvs (ins k v m)) = map_of (ins k v m) ++ map_of kvs"
    using Cons kv by (simp add: ok_ins)
  moreover have "k \<notin> dom (map_of kvs)" using Cons.prems kv by (simp add: dom_map_of_conv_image_fst)
  ultimately show ?case using Cons.prems(1) kv
    by (simp add: ins_all_def lookup_ins fun_eq_iff map_add_def domIff split: option.split)
qed (simp add: ins_all_def)

text \<open>Binding or removing a list of keys one by one.\<close>

lemma lookup_update_keys:
  "ok m \<Longrightarrow> ok (fold (\<lambda>k. case nv of Some v \<Rightarrow> ins k v | None \<Rightarrow> del k) ks m) \<and>
   map_of (fold (\<lambda>k. case nv of Some v \<Rightarrow> ins k v | None \<Rightarrow> del k) ks m) =
     (\<lambda>k. if k \<in> set ks then nv else map_of m k)"
proof (induction ks arbitrary: m)
  case (Cons k ks)
  let ?m = "(case nv of Some v \<Rightarrow> ins k v | None \<Rightarrow> del k) m"
  have "ok ?m" "map_of ?m = (map_of m)(k := nv)"
    using Cons.prems by (auto simp: ok_ins ok_del lookup_ins lookup_del split: option.split)
  then show ?case using Cons.IH [of ?m] by (auto simp: fun_eq_iff)
qed (simp add: fun_eq_iff)

end

lemma bt_ok_distinct: "bt_ok m \<Longrightarrow> distinct (map fst m)"
  by (simp add: bt_ok_def strict_sorted_iff)

lemma bt_insert_keys: "fst ` set (bt_insert k v m) = insert k (fst ` set m)"
  by (induction k v m rule: bt_insert.induct) auto

lemma bt_ok_Cons: "bt_ok ((j, w) # m) \<longleftrightarrow> (\<forall>x \<in> fst ` set m. j < x) \<and> bt_ok m"
  by (auto simp: bt_ok_def)

lemma bt_ok_Nil [simp]: "bt_ok []"
  by (simp add: bt_ok_def)

lemma bt_ok_insert: "bt_ok m \<Longrightarrow> bt_ok (bt_insert k v m)"
proof (induction k v m rule: bt_insert.induct)
  case (2 k v j w m)
  show ?case
  proof (cases k j rule: linorder_cases)
    case greater
    then show ?thesis using 2 unfolding bt_insert.simps bt_ok_Cons by (auto simp: bt_ok_Cons bt_insert_keys)
  qed (use 2 in \<open>auto simp: bt_ok_Cons\<close>)
qed (simp add: bt_ok_def)

lemma map_of_below: "\<forall>x \<in> fst ` set m. (j :: string) < x \<Longrightarrow> map_of m j = None"
  unfolding map_of_eq_None_iff by (metis less_irrefl)

lemma lookup_bt_insert: "bt_ok m \<Longrightarrow> map_of (bt_insert k v m) = (map_of m)(k \<mapsto> v)"
  by (induction k v m rule: bt_insert.induct) (auto simp: bt_ok_Cons fun_eq_iff)

lemma lookup_bt_remove: "map_of (bt_remove k m) = (map_of m)(k := None)"
  by (induction m) (auto simp: bt_remove_def fun_eq_iff)

lemma bt_ok_remove: "bt_ok m \<Longrightarrow> bt_ok (bt_remove k m)"
  unfolding bt_ok_def bt_remove_def by (induction m) auto

interpretation tags: ordered_map bt_insert bt_remove bt_ok
  by unfold_locales (simp_all add: lookup_bt_insert lookup_bt_remove bt_ok_insert bt_ok_remove)

section \<open>JSON values\<close>

datatype json =
    JNull
  | JBool bool
  | JNum int
  | JStr string
  | JArr "json list"
  | JObj "json btree"

fun j_get :: "string \<Rightarrow> json \<Rightarrow> json option" where
  "j_get k (JObj m) = map_of m k"
| "j_get k _ = None"

fun j_str :: "json \<Rightarrow> string option" where
  "j_str (JStr s) = Some s"
| "j_str _ = None"

fun j_obj :: "json \<Rightarrow> json btree option" where
  "j_obj (JObj m) = Some m"
| "j_obj _ = None"

text \<open>\<open>Value::pointer\<close> and SQLite's \<open>json_extract\<close> both follow a path of object keys; they differ in how
  they cut a text into keys (\<open>json_extract\<close> ends an unquoted key at every dot).\<close>

fun j_path :: "string list \<Rightarrow> json \<Rightarrow> json option" where
  "j_path [] j = Some j"
| "j_path (k # ks) j = (case j_get k j of None \<Rightarrow> None | Some v \<Rightarrow> j_path ks v)"

text \<open>\<open>json_set\<close> and \<open>json_remove\<close> of one key of an object.\<close>

fun j_set :: "string \<Rightarrow> json \<Rightarrow> json \<Rightarrow> json" where
  "j_set k v (JObj m) = JObj (bt_insert k v m)"
| "j_set k v j = j"

fun j_remove :: "string \<Rightarrow> json \<Rightarrow> json" where
  "j_remove k (JObj m) = JObj (bt_remove k m)"
| "j_remove k j = j"

text \<open>A string map from JSON: any value that is not a string makes the conversion fail.\<close>

definition string_map :: "json \<Rightarrow> string btree option" where
  "string_map j =
     (case j of
        JObj m \<Rightarrow> if list_all (\<lambda>(k, v). j_str v \<noteq> None) m then Some (map (\<lambda>(k, v). (k, the (j_str v))) m) else None
      | _ \<Rightarrow> None)"

definition json_of_map :: "string btree \<Rightarrow> json" where
  "json_of_map m = JObj (map (\<lambda>(k, v). (k, JStr v)) m)"

text \<open>The string-valued entries of an object.\<close>

definition string_entries :: "json btree \<Rightarrow> string btree" where
  "string_entries m = List.map_filter (\<lambda>(k, v). map_option (Pair k) (j_str v)) m"

lemma string_map_json [simp]: "string_map (json_of_map m) = Some m"
  by (auto simp: string_map_def json_of_map_def list_all_iff intro!: map_idI)

lemma bt_ok_string_map: "string_map (JObj m) = Some t \<Longrightarrow> bt_ok m \<Longrightarrow> bt_ok t"
proof -
  assume "string_map (JObj m) = Some t" "bt_ok m"
  moreover from this have "map fst t = map fst m"
    by (auto simp: string_map_def split: if_splits)
  ultimately show ?thesis by (simp add: bt_ok_def)
qed

lemma string_entries_keys: "set (map fst (string_entries m)) \<subseteq> set (map fst m)"
  by (induction m) (auto simp: string_entries_def List.map_filter_simps split: option.splits)

lemma bt_ok_string_entries: "bt_ok m \<Longrightarrow> bt_ok (string_entries m)"
proof (induction m)
  case (Cons e m)
  obtain k v where e: "e = (k, v)" by (cases e)
  have s: "fst ` set (string_entries m) \<subseteq> fst ` set m" using string_entries_keys [of m] by simp
  have "\<forall>x \<in> fst ` set m. k < x" "bt_ok m" using Cons.prems e by (simp_all add: bt_ok_Cons)
  then have "bt_ok (string_entries m)" "\<forall>x \<in> fst ` set (string_entries m). k < x" using Cons.IH s by blast+
  then show ?case by (auto simp: e string_entries_def List.map_filter_simps bt_ok_Cons split: option.split)
qed (simp add: string_entries_def List.map_filter_simps)

end
