(* ===== verification/Registry.thy ===== *)
theory Registry
  imports Json "HOL-Library.Product_Lexorder" "HOL-Library.Multiset"
begin

text \<open>
  The tables of the embedded npm registry and their operations (registry/db.rs): packages with their
  dist-tags, versions with their manifests, the entries cached from an upstream registry and the choice
  of cached tarballs to evict; and the ordering of versions for display. Every operation is one
  transaction, so it is a function from the tables to a result and new tables; an error keeps the old
  ones. The lemmas show the ordering is a linear preorder, what happens to the dist-tags, and how much
  an eviction frees.
\<close>

section \<open>Tables\<close>

record package_row =
  np_name :: string
  np_desc :: string
  np_tags :: json
  np_proxy :: bool
  np_etag :: "string option"
  np_fetched :: "time option"
  np_blob :: "json option"
  np_unpublished :: "time option"
  np_pinned :: bool
  np_created :: time
  np_updated :: time

record version_row =
  nv_package :: string
  nv_version :: string
  nv_manifest :: json
  nv_size :: int
  nv_sha :: string
  nv_s3 :: bool
  nv_publisher :: "string option"
  nv_at :: time

record registry =
  packages :: "package_row list"
  versions :: "version_row list"

abbreviation is_row :: "string \<Rightarrow> string \<Rightarrow> version_row \<Rightarrow> bool" where
  "is_row p v r \<equiv> nv_package r = p \<and> nv_version r = v"

definition package_by_name :: "string \<Rightarrow> registry \<Rightarrow> package_row option" where
  "package_by_name p db = sql_first (\<lambda>r. np_name r = p) (packages db)"

definition version_by_id :: "string \<Rightarrow> string \<Rightarrow> registry \<Rightarrow> version_row option" where
  "version_by_id p v db = sql_first (is_row p v) (versions db)"

definition upd_package :: "string \<Rightarrow> (package_row \<Rightarrow> package_row) \<Rightarrow> registry \<Rightarrow> registry" where
  "upd_package p f db = db\<lparr>packages := sql_update (\<lambda>r. np_name r = p) f (packages db)\<rparr>"

text \<open>\<open>tarball_filename\<close>: a scope is no part of the file name.\<close>

definition unscoped :: "string \<Rightarrow> string" where
  "unscoped p = (case rsplit_once (CHR ''/'') p of Some (_, n) \<Rightarrow> n | None \<Rightarrow> p)"

definition tarball_filename :: "string \<Rightarrow> string \<Rightarrow> string" where
  "tarball_filename p v = unscoped p @ ''-'' @ v @ ''.tgz''"

section \<open>Ordering versions\<close>

datatype ordering = Less | Equal | Greater

definition compare :: "'a :: linorder \<Rightarrow> 'a \<Rightarrow> ordering" where
  "compare a b = (if a < b then Less else if a = b then Equal else Greater)"

text \<open>\<open>sort_by\<close>: stable, by a comparison.\<close>

fun insort_by :: "('a \<Rightarrow> 'a \<Rightarrow> ordering) \<Rightarrow> 'a \<Rightarrow> 'a list \<Rightarrow> 'a list" where
  "insort_by cmp x [] = [x]"
| "insort_by cmp x (y # ys) = (if cmp x y = Greater then y # insort_by cmp x ys else x # y # ys)"

definition sort_by :: "('a \<Rightarrow> 'a \<Rightarrow> ordering) \<Rightarrow> 'a list \<Rightarrow> 'a list" where
  "sort_by cmp xs = foldr (insort_by cmp) xs []"

datatype version_part = Num nat | Str string

instantiation version_part :: linorder
begin

fun less_eq_version_part :: "version_part \<Rightarrow> version_part \<Rightarrow> bool" where
  "Num a \<le> Num b = (a \<le> b)"
| "Str a \<le> Str b = (a \<le> b)"
| "Num a \<le> Str b = True"
| "Str a \<le> Num b = False"

definition less_version_part :: "version_part \<Rightarrow> version_part \<Rightarrow> bool" where
  "(a :: version_part) < b \<longleftrightarrow> a \<le> b \<and> \<not> b \<le> a"

instance
proof
  fix x y z :: version_part
  show "x < y \<longleftrightarrow> x \<le> y \<and> \<not> y \<le> x" by (simp add: less_version_part_def)
  show "x \<le> x" by (cases x) auto
  show "x \<le> y \<Longrightarrow> y \<le> z \<Longrightarrow> x \<le> z" by (cases x; cases y; cases z) auto
  show "x \<le> y \<Longrightarrow> y \<le> x \<Longrightarrow> x = y" by (cases x; cases y) auto
  show "x \<le> y \<or> y \<le> x" by (cases x; cases y) auto
qed

end

fun split_seps :: "string \<Rightarrow> string list" where
  "split_seps [] = [[]]"
| "split_seps (x # xs) =
     (if x = CHR ''.'' \<or> x = CHR ''-'' \<or> x = CHR ''+'' then [] # split_seps xs
      else (case split_seps xs of [] \<Rightarrow> [[x]] | w # ws \<Rightarrow> (x # w) # ws))"

definition parse_u64 :: "string \<Rightarrow> nat option" where
  "parse_u64 s = parse_uint (2 ^ 64 - 1) s"

fun version_parts :: "bool \<Rightarrow> string list \<Rightarrow> nat list \<times> version_part list" where
  "version_parts in_release [] = ([], [])"
| "version_parts in_release (p # ps) =
     (case parse_u64 p of
        Some n \<Rightarrow>
          if in_release then (let (r, q) = version_parts True ps in (n # r, q))
          else (let (r, q) = version_parts False ps in (r, Num n # q))
      | None \<Rightarrow> (let (r, q) = version_parts False ps in (r, Str p # q)))"

definition parts :: "string \<Rightarrow> nat list \<times> version_part list" where
  "parts v = version_parts True (filter (\<lambda>s. s \<noteq> []) (split_seps v))"

definition cmp_version :: "string \<Rightarrow> string \<Rightarrow> ordering" where
  "cmp_version a b =
     (let (ra, pa) = parts a; (rb, pb) = parts b
      in case compare ra rb of
           Equal \<Rightarrow>
             if pa = [] \<and> pb = [] then Equal
             else if pa = [] then Greater
             else if pb = [] then Less
             else compare pa pb
         | other \<Rightarrow> other)"

definition cmp_tags :: "string \<times> string \<Rightarrow> string \<times> string \<Rightarrow> ordering" where
  "cmp_tags a b =
     (if fst a = ''latest'' then Less
      else if fst b = ''latest'' then Greater
      else (case cmp_version (snd b) (snd a) of Equal \<Rightarrow> compare (fst a) (fst b) | other \<Rightarrow> other))"

definition sort_dist_tags :: "string btree \<Rightarrow> (string \<times> string) list" where
  "sort_dist_tags m = sort_by cmp_tags m"

section \<open>Reading\<close>

text \<open>\<open>serde_json::from_str(..).unwrap_or_default()\<close> on the tags column.\<close>

definition stored_tags :: "json \<Rightarrow> string btree" where
  "stored_tags j = (case string_map j of Some m \<Rightarrow> m | None \<Rightarrow> [])"

record packument =
  pk_name :: string
  pk_desc :: string
  pk_tags :: "string btree"
  pk_proxy :: bool
  pk_versions :: "json btree"
  pk_time :: "string btree"

definition obj_or :: "string \<Rightarrow> json \<Rightarrow> json btree" where
  "obj_or k body = (case Option.bind (j_get k body) j_obj of Some m \<Rightarrow> m | None \<Rightarrow> [])"

definition entry_or_insert :: "string \<Rightarrow> 'v \<Rightarrow> 'v btree \<Rightarrow> 'v btree" where
  "entry_or_insert k v m = (if map_of m k = None then bt_insert k v m else m)"

text \<open>The formatting of a time is a parameter.\<close>

definition load_proxy_packument_from_blob :: "(time \<Rightarrow> string) \<Rightarrow> string \<Rightarrow> registry \<Rightarrow> packument option" where
  "load_proxy_packument_from_blob fmt p db =
     (case sql_first (\<lambda>r. np_name r = p \<and> np_proxy r \<and> np_unpublished r = None \<and> np_blob r \<noteq> None) (packages db) of
        None \<Rightarrow> None
      | Some r \<Rightarrow>
          (let body = the (np_blob r)
           in Some \<lparr>pk_name = p, pk_desc = np_desc r, pk_tags = string_entries (obj_or ''dist-tags'' body),
                pk_proxy = True, pk_versions = obj_or ''versions'' body,
                pk_time = entry_or_insert ''modified'' (fmt (np_updated r))
                            (entry_or_insert ''created'' (fmt (np_created r)) (string_entries (obj_or ''time'' body)))\<rparr>))"

definition load_packument :: "(time \<Rightarrow> string) \<Rightarrow> string \<Rightarrow> registry \<Rightarrow> packument option" where
  "load_packument fmt p db =
     (case package_by_name p db of
        None \<Rightarrow> None
      | Some r \<Rightarrow>
          if np_unpublished r \<noteq> None then None
          else
            (case (if np_proxy r then load_proxy_packument_from_blob fmt p db else None) of
               Some k \<Rightarrow> Some k
             | None \<Rightarrow>
                 (let rows = sort_key nv_at (filter (\<lambda>v. nv_package v = p) (versions db))
                  in Some \<lparr>pk_name = p, pk_desc = np_desc r, pk_tags = stored_tags (np_tags r), pk_proxy = np_proxy r,
                       pk_versions = fold (\<lambda>v. bt_insert (nv_version v) (nv_manifest v)) rows [],
                       pk_time = bt_insert ''modified'' (fmt (np_updated r)) (bt_insert ''created'' (fmt (np_created r))
                         (fold (\<lambda>v. bt_insert (nv_version v) (fmt (nv_at v))) rows []))\<rparr>)))"

definition is_unpublished :: "string \<Rightarrow> registry \<Rightarrow> bool" where
  "is_unpublished p db = (case package_by_name p db of None \<Rightarrow> False | Some r \<Rightarrow> np_unpublished r \<noteq> None)"

definition load_version_manifest :: "string \<Rightarrow> string \<Rightarrow> registry \<Rightarrow> json option" where
  "load_version_manifest p v db =
     (if is_unpublished p db then None
      else (case version_by_id p v db of
              Some r \<Rightarrow> Some (nv_manifest r)
            | None \<Rightarrow>
                (case sql_first (\<lambda>r. np_name r = p \<and> np_proxy r \<and> np_blob r \<noteq> None) (packages db) of
                   None \<Rightarrow> None
                 | Some r \<Rightarrow> j_path (''versions'' # split_on (CHR ''/'') v) (the (np_blob r)))))"

record tarball_meta =
  tm_size :: int
  tm_sha :: string
  tm_s3 :: bool

definition lookup_tarball :: "string \<Rightarrow> string \<Rightarrow> registry \<Rightarrow> tarball_meta option" where
  "lookup_tarball p v db =
     (if is_unpublished p db then None
      else map_option (\<lambda>r. \<lparr>tm_size = nv_size r, tm_sha = nv_sha r, tm_s3 = nv_s3 r\<rparr>) (version_by_id p v db))"

definition load_dist_tags :: "string \<Rightarrow> registry \<Rightarrow> string btree option" where
  "load_dist_tags p db =
     (if is_unpublished p db then None
      else map_option (\<lambda>r. stored_tags (np_tags r)) (package_by_name p db))"

definition load_proxy_state :: "string \<Rightarrow> registry \<Rightarrow> (string option \<times> time) option" where
  "load_proxy_state p db =
     map_option (\<lambda>r. (np_etag r, case np_fetched r of Some t \<Rightarrow> t | None \<Rightarrow> 0))
       (sql_first (\<lambda>r. np_name r = p \<and> np_proxy r) (packages db))"

text \<open>\<open>json_extract(manifest_json, '$.readme')\<close> of the version the tag \<open>latest\<close> names.\<close>

definition load_readme :: "string \<Rightarrow> registry \<Rightarrow> string option" where
  "load_readme p db =
     (if is_unpublished p db then None
      else
        (case package_by_name p db of
           None \<Rightarrow> None
         | Some r \<Rightarrow>
             (case Option.bind (j_get ''latest'' (np_tags r)) j_str of
                None \<Rightarrow> None
              | Some v \<Rightarrow>
                  (case Option.bind (version_by_id p v db) (\<lambda>w. Option.bind (j_get ''readme'' (nv_manifest w)) j_str) of
                     Some s \<Rightarrow> if s = [] then None else Some s
                   | None \<Rightarrow> None))))"

definition list_versions_with_deprecation :: "string \<Rightarrow> bool \<Rightarrow> registry \<Rightarrow> (version_row \<times> string option) list" where
  "list_versions_with_deprecation p downloaded_only db =
     map (\<lambda>r. (r, Option.bind (j_get ''deprecated'' (nv_manifest r)) j_str))
       (sort_key (\<lambda>r. - nv_at r)
          (filter (\<lambda>r. nv_package r = p \<and> (downloaded_only \<longrightarrow> nv_size r > 0)) (versions db)))"

definition count_manifest_only_versions :: "string \<Rightarrow> registry \<Rightarrow> int" where
  "count_manifest_only_versions p db =
     (case sql_first (\<lambda>r. np_name r = p \<and> np_proxy r) (packages db) of
        None \<Rightarrow> 0
      | Some r \<Rightarrow>
          (case np_blob r of
             None \<Rightarrow> 0
           | Some body \<Rightarrow>
               max 0 (int (length (obj_or ''versions'' body)) - int (sql_count (\<lambda>v. nv_package v = p) (versions db)))))"

section \<open>Changing\<close>

definition toggle_pinned :: "string \<Rightarrow> registry \<Rightarrow> (string + bool) \<times> registry" where
  "toggle_pinned p db =
     (case package_by_name p db of
        None \<Rightarrow> (Inl (''package not found: '' @ p), db)
      | Some r \<Rightarrow> (Inr (\<not> np_pinned r), upd_package p (\<lambda>q. q\<lparr>np_pinned := \<not> np_pinned r\<rparr>) db))"

definition version_unique :: string where
  "version_unique = ''UNIQUE constraint failed: npm_versions.package_name, npm_versions.version''"

definition new_package :: "time \<Rightarrow> string \<Rightarrow> string \<Rightarrow> json \<Rightarrow> package_row" where
  "new_package now p desc tags =
     \<lparr>np_name = p, np_desc = desc, np_tags = tags, np_proxy = False, np_etag = None, np_fetched = None,
      np_blob = None, np_unpublished = None, np_pinned = False, np_created = now, np_updated = now\<rparr>"

definition insert_version ::
  "time \<Rightarrow> string \<Rightarrow> string \<Rightarrow> string \<Rightarrow> json \<Rightarrow> int \<Rightarrow> string \<Rightarrow> string option \<Rightarrow> string btree \<Rightarrow> registry \<Rightarrow>
   (string + unit) \<times> registry" where
  "insert_version now p desc v manifest bytes sha publisher tags db =
     (let db1 =
        (case package_by_name p db of
           None \<Rightarrow> db\<lparr>packages := packages db @ [new_package now p desc (json_of_map tags)]\<rparr>
         | Some _ \<Rightarrow> upd_package p (\<lambda>r. r\<lparr>np_desc := (if desc = [] then np_desc r else desc),
                       np_tags := json_of_map tags, np_unpublished := None, np_updated := now\<rparr>) db)
      in if version_by_id p v db \<noteq> None then (Inl version_unique, db)
         else (Inr (), db1\<lparr>versions := versions db1 @
           [\<lparr>nv_package = p, nv_version = v, nv_manifest = manifest, nv_size = bytes, nv_sha = sha, nv_s3 = False,
             nv_publisher = publisher, nv_at = now\<rparr>]\<rparr>))"

definition upsert_proxy_packument :: "time \<Rightarrow> string \<Rightarrow> json \<Rightarrow> string option \<Rightarrow> registry \<Rightarrow> registry" where
  "upsert_proxy_packument now p body etag db =
     (let desc = (case Option.bind (j_get ''description'' body) j_str of Some s \<Rightarrow> s | None \<Rightarrow> []);
          tags = (case j_get ''dist-tags'' body of Some j \<Rightarrow> j | None \<Rightarrow> JObj []);
          f = (\<lambda>r. r\<lparr>np_desc := desc, np_tags := tags, np_proxy := True, np_etag := etag, np_fetched := Some now,
                     np_blob := Some body, np_unpublished := None, np_updated := now\<rparr>)
      in case package_by_name p db of
           None \<Rightarrow> db\<lparr>packages := packages db @ [f (new_package now p desc tags)]\<rparr>
         | Some _ \<Rightarrow> upd_package p f db)"

definition touch_proxy_fetched_at :: "time \<Rightarrow> string \<Rightarrow> registry \<Rightarrow> registry" where
  "touch_proxy_fetched_at now p db = upd_package p (\<lambda>r. r\<lparr>np_fetched := Some now, np_updated := now\<rparr>) db"

text \<open>\<open>json_extract(blob, '$.versions.' || version)\<close>: an unquoted key of the path ends at a dot.\<close>

definition extracted_manifest :: "string \<Rightarrow> string \<Rightarrow> registry \<Rightarrow> json" where
  "extracted_manifest p v db =
     (case Option.bind (package_by_name p db) np_blob of
        None \<Rightarrow> JObj []
      | Some body \<Rightarrow>
          (case j_path (''versions'' # split_on (CHR ''.'') v) body of
             Some m \<Rightarrow> if m = JNull then JObj [] else m
           | None \<Rightarrow> JObj []))"

definition finalize_proxy_tarball :: "time \<Rightarrow> string \<Rightarrow> string \<Rightarrow> int \<Rightarrow> string \<Rightarrow> registry \<Rightarrow> (string + unit) \<times> registry" where
  "finalize_proxy_tarball now p v bytes sha db =
     (let m = extracted_manifest p v db
      in if package_by_name p db = None then (Inl ''FOREIGN KEY constraint failed'', db)
         else if version_by_id p v db \<noteq> None then
           (Inr (), db\<lparr>versions := sql_update (is_row p v)
              (\<lambda>r. r\<lparr>nv_size := bytes, nv_sha := sha, nv_manifest := (if m \<noteq> JObj [] then m else nv_manifest r)\<rparr>)
              (versions db)\<rparr>)
         else
           (Inr (), db\<lparr>versions := versions db @
              [\<lparr>nv_package = p, nv_version = v, nv_manifest = m, nv_size = bytes, nv_sha = sha, nv_s3 = False,
                nv_publisher = None, nv_at = now\<rparr>]\<rparr>))"

definition is_cached :: "registry \<Rightarrow> version_row \<Rightarrow> bool" where
  "is_cached db r = list_ex (\<lambda>q. np_name q = nv_package r \<and> np_proxy q) (packages db)"

definition cache_size :: "registry \<Rightarrow> int" where
  "cache_size db = sum_list (map nv_size (filter (is_cached db) (versions db)))"

fun evict_loop :: "int \<Rightarrow> int \<Rightarrow> version_row list \<Rightarrow> (string \<times> string \<times> string) list" where
  "evict_loop need freed [] = []"
| "evict_loop need freed (r # rs) =
     (nv_package r, nv_version r, tarball_filename (nv_package r) (nv_version r)) #
     (if freed + nv_size r \<ge> need then [] else evict_loop need (freed + nv_size r) rs)"

definition pick_proxy_evictions :: "int \<Rightarrow> registry \<Rightarrow> (string \<times> string \<times> string) list" where
  "pick_proxy_evictions max_bytes db =
     (let current = cache_size db
      in if current \<le> max_bytes then []
         else evict_loop (current - max_bytes) 0
                (sort_key nv_at (filter (\<lambda>r. is_cached db r \<and> nv_size r > 0) (versions db))))"

definition mark_proxy_evicted :: "string \<Rightarrow> string \<Rightarrow> registry \<Rightarrow> registry" where
  "mark_proxy_evicted p v db =
     db\<lparr>versions := sql_update (is_row p v) (\<lambda>r. r\<lparr>nv_size := 0, nv_s3 := False\<rparr>) (versions db)\<rparr>"

definition mark_s3_uploaded :: "string \<Rightarrow> string \<Rightarrow> registry \<Rightarrow> registry" where
  "mark_s3_uploaded p v db = db\<lparr>versions := sql_update (is_row p v) (\<lambda>r. r\<lparr>nv_s3 := True\<rparr>) (versions db)\<rparr>"

definition put_tags :: "time \<Rightarrow> string \<Rightarrow> string btree \<Rightarrow> registry \<Rightarrow> registry" where
  "put_tags now p tags db = upd_package p (\<lambda>r. r\<lparr>np_tags := json_of_map tags, np_updated := now\<rparr>) db"

definition set_dist_tag :: "time \<Rightarrow> string \<Rightarrow> string \<Rightarrow> string \<Rightarrow> registry \<Rightarrow> (string + unit) \<times> registry" where
  "set_dist_tag now p tag v db =
     (if tag = [] \<or> CHR ''/'' \<in> set tag \<or> CHR '' '' \<in> set tag then (Inl ''invalid dist-tag name'', db)
      else if version_by_id p v db = None then (Inl (''version '' @ p @ ''@'' @ v @ '' does not exist''), db)
      else (case package_by_name p db of
              None \<Rightarrow> (Inl ''package not found'', db)
            | Some r \<Rightarrow> (Inr (), put_tags now p (bt_insert tag v (stored_tags (np_tags r))) db)))"

definition remove_dist_tag :: "time \<Rightarrow> string \<Rightarrow> string \<Rightarrow> registry \<Rightarrow> (string + bool) \<times> registry" where
  "remove_dist_tag now p tag db =
     (if tag = ''latest'' then (Inl (''refusing to remove the '' @ [CHR 0x27] @ ''latest'' @ [CHR 0x27] @ '' dist-tag''), db)
      else (case package_by_name p db of
              None \<Rightarrow> (Inr False, db)
            | Some r \<Rightarrow>
                (let tags = stored_tags (np_tags r); removed = (map_of tags tag \<noteq> None)
                 in (Inr removed, if removed then put_tags now p (bt_remove tag tags) db else db))))"

record removed_tarball =
  rt_package :: string
  rt_version :: string
  rt_filename :: string
  rt_publisher :: "string option"

definition removed_row :: "version_row \<Rightarrow> removed_tarball" where
  "removed_row r = \<lparr>rt_package = nv_package r, rt_version = nv_version r,
     rt_filename = tarball_filename (nv_package r) (nv_version r), rt_publisher = nv_publisher r\<rparr>"

text \<open>\<open>MAX(version)\<close> compares texts.\<close>

definition max_version :: "string \<Rightarrow> version_row list \<Rightarrow> string option" where
  "max_version p rows =
     (case map nv_version (filter (\<lambda>r. nv_package r = p) rows) of
        [] \<Rightarrow> None | v # vs \<Rightarrow> Some (fold max vs v))"

definition delete_version :: "time \<Rightarrow> string \<Rightarrow> string \<Rightarrow> registry \<Rightarrow> removed_tarball option \<times> registry" where
  "delete_version now p v db =
     (case version_by_id p v db of
        None \<Rightarrow> (None, db)
      | Some row \<Rightarrow>
          (let db1 = db\<lparr>versions := sql_delete (is_row p v) (versions db)\<rparr>;
               tags = (case package_by_name p db1 of Some r \<Rightarrow> stored_tags (np_tags r) | None \<Rightarrow> []);
               pointed = map fst (filter (\<lambda>e. snd e = v) tags);
               new_latest = max_version p (versions db1);
               tags' = fold (\<lambda>t. case new_latest of Some w \<Rightarrow> bt_insert t w | None \<Rightarrow> bt_remove t) pointed tags
           in (Some (removed_row row), if pointed \<noteq> [] then put_tags now p tags' db1 else db1)))"

definition delete_package :: "time \<Rightarrow> string \<Rightarrow> registry \<Rightarrow> removed_tarball list \<times> registry" where
  "delete_package now p db =
     (map removed_row (filter (\<lambda>r. nv_package r = p) (versions db)),
      upd_package p (\<lambda>r. r\<lparr>np_unpublished := Some now, np_tags := JObj [], np_updated := now\<rparr>)
        (db\<lparr>versions := sql_delete (\<lambda>r. nv_package r = p) (versions db)\<rparr>))"

definition deprecate_one :: "string \<Rightarrow> string \<times> string \<Rightarrow> registry \<Rightarrow> registry" where
  "deprecate_one p = (\<lambda>(v, m) db.
     db\<lparr>versions := sql_update (is_row p v)
          (\<lambda>r. r\<lparr>nv_manifest := (if m = [] then j_remove ''deprecated'' (nv_manifest r)
                                  else j_set ''deprecated'' (JStr m) (nv_manifest r))\<rparr>) (versions db)\<rparr>)"

definition deprecate_versions :: "time \<Rightarrow> string \<Rightarrow> string btree \<Rightarrow> registry \<Rightarrow> registry" where
  "deprecate_versions now p messages db =
     upd_package p (\<lambda>r. r\<lparr>np_updated := now\<rparr>) (fold (deprecate_one p) messages db)"


section \<open>Lemmas on sorting\<close>

text \<open>A comparison that orders by a total preorder.\<close>

locale comparison =
  fixes cmp :: "'a \<Rightarrow> 'a \<Rightarrow> ordering"
    and le :: "'a \<Rightarrow> 'a \<Rightarrow> bool"
  assumes greater_iff: "cmp x y = Greater \<longleftrightarrow> \<not> le x y"
    and le_total: "le x y \<or> le y x"
    and le_trans: "le x y \<Longrightarrow> le y z \<Longrightarrow> le x z"
begin

lemma mset_insort_by: "mset (insort_by cmp x ys) = add_mset x (mset ys)"
  by (induction ys) auto

lemma sorted_insort_by: "sorted_wrt le ys \<Longrightarrow> sorted_wrt le (insort_by cmp x ys)"
proof (induction ys)
  case (Cons y ys)
  have s: "set (insort_by cmp x ys) = insert x (set ys)"
    using arg_cong [OF mset_insort_by, of set_mset x ys] by simp
  show ?case
  proof (cases "le x y")
    case True
    then show ?thesis using Cons.prems le_trans by (auto simp: greater_iff)
  next
    case False
    then have "le y x" using le_total by blast
    then show ?thesis using Cons False by (auto simp: greater_iff s)
  qed
qed simp

lemma mset_sort_by: "mset (sort_by cmp xs) = mset xs"
  by (induction xs) (simp_all add: sort_by_def mset_insort_by)

lemma sorted_sort_by: "sorted_wrt le (sort_by cmp xs)"
  by (induction xs) (simp_all add: sort_by_def sorted_insort_by)

end

text \<open>The rank of a version: the release numbers, then a release over its prereleases, then the parts of
  the prerelease, numbers below texts.\<close>

definition version_rank :: "string \<Rightarrow> nat list \<times> bool \<times> version_part list" where
  "version_rank v = (fst (parts v), snd (parts v) = [], snd (parts v))"

lemma less_nil_iff: "\<not> (x :: version_part list) < []"
  by simp

lemma cmp_version_rank: "cmp_version a b = compare (version_rank a) (version_rank b)"
  by (auto simp: cmp_version_def version_rank_def compare_def Let_def case_prod_beta)

definition tag_le :: "string \<times> string \<Rightarrow> string \<times> string \<Rightarrow> bool" where
  "tag_le a b \<longleftrightarrow> fst a = ''latest'' \<or>
     (fst b \<noteq> ''latest'' \<and> (version_rank (snd b) < version_rank (snd a) \<or>
        (version_rank (snd a) = version_rank (snd b) \<and> fst a \<le> fst b)))"

lemma cmp_tags_Greater: "cmp_tags a b = Greater \<longleftrightarrow> \<not> tag_le a b"
  by (auto simp: cmp_tags_def tag_le_def cmp_version_rank compare_def)

interpretation tag_order: comparison cmp_tags tag_le
  by unfold_locales (rule cmp_tags_Greater, auto simp: tag_le_def)


section \<open>Lemmas on dist-tags\<close>

text \<open>The keys of the versions table.\<close>

definition has_version :: "registry \<Rightarrow> string \<Rightarrow> string \<Rightarrow> bool" where
  "has_version db p v \<longleftrightarrow> (p, v) \<in> set (map (\<lambda>r. (nv_package r, nv_version r)) (versions db))"

lemma version_by_id_iff: "version_by_id p v db \<noteq> None \<longleftrightarrow> has_version db p v"
  by (auto simp: version_by_id_def sql_first_None has_version_def image_iff)

text \<open>The tags of a package that is not cached from upstream name versions that exist.\<close>

definition tags_sound :: "registry \<Rightarrow> package_row \<Rightarrow> bool" where
  "tags_sound db r \<longleftrightarrow> np_proxy r \<or>
     (bt_ok (stored_tags (np_tags r)) \<and> (\<forall>t v. map_of (stored_tags (np_tags r)) t = Some v \<longrightarrow> has_version db (np_name r) v))"

definition registry_inv :: "registry \<Rightarrow> bool" where
  "registry_inv db \<longleftrightarrow> distinct (map np_name (packages db)) \<and> list_all (tags_sound db) (packages db)"

lemma tags_sound_mono:
  "tags_sound db r \<Longrightarrow> (\<And>v. has_version db (np_name r) v \<Longrightarrow> has_version db' (np_name r) v) \<Longrightarrow> tags_sound db' r"
  by (auto simp: tags_sound_def)

lemma stored_tags_json [simp]: "stored_tags (json_of_map m) = m"
  by (simp add: stored_tags_def)

lemma stored_tags_empty [simp]: "stored_tags (JObj []) = []"
  by (simp add: stored_tags_def string_map_def)

lemma package_by_name_Some: "package_by_name p db = Some r \<Longrightarrow> r \<in> set (packages db) \<and> np_name r = p"
  by (auto simp: package_by_name_def dest: sql_first_Some)

lemma package_by_name_None: "package_by_name p db = None \<longleftrightarrow> p \<notin> set (map np_name (packages db))"
  by (auto simp: package_by_name_def sql_first_None)

lemma package_unique:
  "distinct (map np_name (packages db)) \<Longrightarrow> package_by_name p db = Some r \<Longrightarrow> q \<in> set (packages db) \<Longrightarrow> np_name q = p \<Longrightarrow> q = r"
  using package_by_name_Some [of p db r] by (auto simp: distinct_map dest: inj_onD)

lemma upd_package_versions [simp]: "versions (upd_package p f db) = versions db"
  by (simp add: upd_package_def)

lemma has_version_packages [simp]: "has_version (db\<lparr>packages := ps\<rparr>) = has_version db"
  "has_version (upd_package p f db) = has_version db"
  by (simp_all add: has_version_def fun_eq_iff)

lemma tags_sound_packages [simp]: "tags_sound (db\<lparr>packages := ps\<rparr>) = tags_sound db"
  "tags_sound (upd_package p f db) = tags_sound db"
  by (simp_all add: tags_sound_def fun_eq_iff)

text \<open>An update of the row of one package, with new versions.\<close>

lemma inv_upd_package:
  assumes "registry_inv db" "\<And>r. np_name (f r) = np_name r"
    and "\<And>r. r \<in> set (packages db) \<Longrightarrow> np_name r = p \<Longrightarrow> tags_sound db' (f r)"
    and "\<And>r. r \<in> set (packages db) \<Longrightarrow> np_name r \<noteq> p \<Longrightarrow> tags_sound db r \<Longrightarrow> tags_sound db' r"
    and "packages db' = sql_update (\<lambda>r. np_name r = p) f (packages db)"
  shows "registry_inv db'"
proof -
  have "map np_name (packages db') = map np_name (packages db)" by (simp add: assms(2,5) map_sql_update)
  moreover have "list_all (tags_sound db') (packages db')"
    using assms(1,3,4) by (auto simp: registry_inv_def list_all_iff assms(5) dest!: in_sql_update)
  ultimately show ?thesis using assms(1) by (simp add: registry_inv_def)
qed

lemma inv_versions:
  assumes "registry_inv db" "packages db' = packages db" "\<And>p v. has_version db p v \<Longrightarrow> has_version db' p v"
  shows "registry_inv db'"
  using assms tags_sound_mono [of db _ db'] by (auto simp: registry_inv_def list_all_iff)

lemma inv_put_tags:
  assumes "registry_inv db" "packages db' = packages (put_tags now p ts db)"
    and "\<And>q v. q \<noteq> p \<Longrightarrow> has_version db q v \<Longrightarrow> has_version db' q v"
    and "\<And>r. package_by_name p db = Some r \<Longrightarrow> \<not> np_proxy r \<Longrightarrow>
      bt_ok ts \<and> (\<forall>t v. map_of ts t = Some v \<longrightarrow> has_version db' p v)"
  shows "registry_inv db'"
proof (rule inv_upd_package [OF assms(1), where p = p and f = "\<lambda>r. r\<lparr>np_tags := json_of_map ts, np_updated := now\<rparr>"])
  fix r assume r: "r \<in> set (packages db)" "np_name r = p"
  then obtain q where q: "package_by_name p db = Some q" by (metis package_by_name_None not_None_eq image_eqI set_map)
  then have "q = r" using package_unique [OF _ q r] assms(1) by (simp add: registry_inv_def)
  then show "tags_sound db' (r\<lparr>np_tags := json_of_map ts, np_updated := now\<rparr>)"
    using assms(4) [OF q] r(2) by (auto simp: tags_sound_def)
next
  fix r assume "r \<in> set (packages db)" "np_name r \<noteq> p" "tags_sound db r"
  then show "tags_sound db' r" using assms(3) tags_sound_mono by blast
qed (simp_all add: assms(2) put_tags_def upd_package_def)

lemma put_tags_packages [simp]: "has_version (put_tags now p ts db) = has_version db"
  by (simp add: put_tags_def)

lemma stored_sound:
  assumes "registry_inv db" "package_by_name p db = Some r" "\<not> np_proxy r"
  shows "bt_ok (stored_tags (np_tags r))" "map_of (stored_tags (np_tags r)) t = Some v \<Longrightarrow> has_version db p v"
  using assms package_by_name_Some [OF assms(2)] by (auto simp: registry_inv_def list_all_iff tags_sound_def)

lemma set_dist_tag_inv: "registry_inv db \<Longrightarrow> registry_inv (snd (set_dist_tag now p tag v db))"
proof (cases "package_by_name p db")
  case (Some r)
  assume iv: "registry_inv db"
  have "registry_inv (put_tags now p (bt_insert tag v (stored_tags (np_tags r))) db)" if v: "has_version db p v"
    by (rule inv_put_tags [OF iv refl])
      (use Some v stored_sound [OF iv Some] in \<open>auto simp: lookup_bt_insert bt_ok_insert split: if_splits\<close>)
  then show ?thesis using iv Some version_by_id_iff [of p v db] by (auto simp: set_dist_tag_def)
qed (simp add: set_dist_tag_def)

lemma remove_dist_tag_inv: "registry_inv db \<Longrightarrow> registry_inv (snd (remove_dist_tag now p tag db))"
proof (cases "package_by_name p db")
  case (Some r)
  assume iv: "registry_inv db"
  have "registry_inv (put_tags now p (bt_remove tag (stored_tags (np_tags r))) db)"
    by (rule inv_put_tags [OF iv refl])
      (use Some stored_sound [OF iv Some] in \<open>auto simp: lookup_bt_remove bt_ok_remove split: if_splits\<close>)
  then show ?thesis using iv Some by (simp add: remove_dist_tag_def Let_def)
qed (simp add: remove_dist_tag_def)

lemma fold_max_in: "fold max vs v \<in> set (v # vs)" for v :: "'a :: linorder"
  by (induction vs arbitrary: v) (auto simp: max_def)

lemma max_version_in: "max_version p rows = Some v \<Longrightarrow> (p, v) \<in> set (map (\<lambda>r. (nv_package r, nv_version r)) rows)"
proof -
  assume m: "max_version p rows = Some v"
  have "v \<in> set (map nv_version (filter (\<lambda>r. nv_package r = p) rows))"
  proof (cases "map nv_version (filter (\<lambda>r. nv_package r = p) rows)")
    case (Cons w ws)
    then show ?thesis using m fold_max_in [of ws w] unfolding max_version_def Cons by simp
  qed (use m in \<open>simp add: max_version_def\<close>)
  then show ?thesis by auto
qed

lemma has_version_delete:
  "has_version (db\<lparr>versions := sql_delete (is_row p v) (versions db)\<rparr>) q w \<longleftrightarrow> has_version db q w \<and> (q, w) \<noteq> (p, v)"
  by (auto simp: has_version_def set_sql_delete image_iff)

text \<open>What \<open>delete_version\<close> makes of the tags: those of the version move to the highest remaining
  one, or go if there is none.\<close>

definition retarget :: "string \<Rightarrow> string option \<Rightarrow> string btree \<Rightarrow> string btree" where
  "retarget v nv ts = fold (\<lambda>t. case nv of Some w \<Rightarrow> bt_insert t w | None \<Rightarrow> bt_remove t)
     (map fst (filter (\<lambda>e. snd e = v) ts)) ts"

lemma retarget:
  assumes "bt_ok ts"
  shows "bt_ok (retarget v nv ts)" "map_of (retarget v nv ts) t = (if map_of ts t = Some v then nv else map_of ts t)"
proof -
  have k: "t \<in> set (map fst (filter (\<lambda>e. snd e = v) ts)) \<longleftrightarrow> map_of ts t = Some v" for t
    using bt_ok_distinct [OF assms] by (force simp: map_of_eq_Some_iff)
  from tags.lookup_update_keys [OF assms, of nv "map fst (filter (\<lambda>e. snd e = v) ts)"]
  show "bt_ok (retarget v nv ts)" "map_of (retarget v nv ts) t = (if map_of ts t = Some v then nv else map_of ts t)"
    unfolding retarget_def k by simp_all
qed

lemma delete_version_eq:
  assumes "version_by_id p v db = Some row"
  shows "delete_version now p v db = (Some (removed_row row),
    (let db1 = db\<lparr>versions := sql_delete (is_row p v) (versions db)\<rparr>;
         ts = (case package_by_name p db of Some r \<Rightarrow> stored_tags (np_tags r) | None \<Rightarrow> [])
     in if \<exists>t. (t, v) \<in> set ts then put_tags now p (retarget v (max_version p (versions db1)) ts) db1 else db1))"
proof -
  have "package_by_name p (db\<lparr>versions := x\<rparr>) = package_by_name p db" for x by (simp add: package_by_name_def)
  then show ?thesis
    using assms by (auto simp: delete_version_def Let_def retarget_def filter_empty_conv split: if_splits)
qed

lemma delete_version_inv: "registry_inv db \<Longrightarrow> registry_inv (snd (delete_version now p v db))"
proof (cases "version_by_id p v db")
  case (Some row)
  assume iv: "registry_inv db"
  let ?db = "db\<lparr>versions := sql_delete (is_row p v) (versions db)\<rparr>"
  define ts where "ts = (case package_by_name p db of Some r \<Rightarrow> stored_tags (np_tags r) | None \<Rightarrow> [])"
  let ?ts = "retarget v (max_version p (versions ?db)) ts"
  have tags: "bt_ok ?ts \<and> (\<forall>t w. map_of ?ts t = Some w \<longrightarrow> has_version ?db p w)"
    if "package_by_name p db = Some r" "\<not> np_proxy r" for r
  proof -
    have e: "ts = stored_tags (np_tags r)" using that(1) by (simp add: ts_def)
    note s = stored_sound [OF iv that(1,2), folded e]
    have "has_version ?db p w" if "max_version p (versions ?db) = Some w" for w
      using max_version_in [OF that] unfolding has_version_def .
    then show ?thesis
      using s retarget [OF s(1), of v "max_version p (versions ?db)"] by (auto simp: has_version_delete split: if_splits)
  qed
  have keep: "registry_inv ?db" if no: "\<nexists>t. (t, v) \<in> set ts"
  proof (rule inv_upd_package [OF iv, where p = p and f = id])
    fix r assume r: "r \<in> set (packages db)" "np_name r = p"
    then obtain q where q: "package_by_name p db = Some q" by (metis package_by_name_None not_None_eq image_eqI set_map)
    then have "q = r" using package_unique [OF _ q r] iv by (simp add: registry_inv_def)
    then have e: "ts = stored_tags (np_tags r)" using q by (simp add: ts_def)
    have "has_version ?db p w" if "\<not> np_proxy r" "map_of ts t = Some w" for t w
    proof -
      have "w \<noteq> v" using no map_of_SomeD [OF that(2)] by auto
      then show ?thesis
        using stored_sound(2) [OF iv q] \<open>q = r\<close> that e by (auto simp: has_version_delete)
    qed
    then show "tags_sound ?db (id r)"
      using stored_sound(1) [OF iv q] \<open>q = r\<close> e r(2) by (auto simp: tags_sound_def)
  next
    fix r assume "r \<in> set (packages db)" "np_name r \<noteq> p" "tags_sound db r"
    then show "tags_sound ?db r" by (auto simp: tags_sound_def has_version_delete)
  qed (auto simp: sql_update_def intro!: map_idI [symmetric])
  have "registry_inv (put_tags now p ?ts ?db)"
  proof (rule inv_put_tags [OF iv])
    show "packages (put_tags now p ?ts ?db) = packages (put_tags now p ?ts db)"
      by (simp add: put_tags_def upd_package_def)
    fix q w assume "q \<noteq> p" "has_version db q w"
    then show "has_version (put_tags now p ?ts ?db) q w" unfolding put_tags_packages has_version_delete by simp
  next
    fix r assume "package_by_name p db = Some r" "\<not> np_proxy r"
    then show "bt_ok ?ts \<and> (\<forall>t w. map_of ?ts t = Some w \<longrightarrow> has_version (put_tags now p ?ts ?db) p w)"
      unfolding put_tags_packages using tags by blast
  qed
  then show ?thesis
    using keep unfolding delete_version_eq [OF Some] Let_def ts_def [symmetric] by simp
qed (simp add: delete_version_def)


lemma delete_package_inv: "registry_inv db \<Longrightarrow> registry_inv (snd (delete_package now p db))"
proof -
  assume iv: "registry_inv db"
  let ?f = "\<lambda>r. r\<lparr>np_unpublished := Some now, np_tags := JObj [], np_updated := now\<rparr>"
  have h: "has_version (snd (delete_package now p db)) q v \<longleftrightarrow> has_version db q v \<and> q \<noteq> p" for q v
    by (auto simp: delete_package_def has_version_def set_sql_delete image_iff)
  show ?thesis
    by (rule inv_upd_package [OF iv, where p = p and f = ?f])
      (auto simp: tags_sound_def h, simp add: delete_package_def upd_package_def)
qed

lemma has_version_sql_update:
  "(\<And>r. nv_package (f r) = nv_package r \<and> nv_version (f r) = nv_version r) \<Longrightarrow>
   has_version (db\<lparr>versions := sql_update P f (versions db)\<rparr>) = has_version db"
proof -
  assume f: "\<And>r. nv_package (f r) = nv_package r \<and> nv_version (f r) = nv_version r"
  have "map (\<lambda>r. (nv_package r, nv_version r)) (sql_update P f t) = map (\<lambda>r. (nv_package r, nv_version r)) t" for t
    by (rule map_sql_update) (simp add: f)
  then show ?thesis by (simp add: has_version_def fun_eq_iff)
qed

lemma deprecate_one_facts:
  "packages (deprecate_one p e db) = packages db" "has_version (deprecate_one p e db) = has_version db"
  by (auto simp: deprecate_one_def has_version_sql_update split: prod.split)

lemma deprecate_fold:
  "packages (fold (deprecate_one p) es db) = packages db \<and> has_version (fold (deprecate_one p) es db) = has_version db"
  by (induction es arbitrary: db) (simp_all add: deprecate_one_facts)

lemma touch_inv:
  assumes "registry_inv db" "has_version db' = has_version db"
    and "\<And>r. np_name (f r) = np_name r \<and> np_tags (f r) = np_tags r \<and> np_proxy (f r) = np_proxy r"
    and "packages db' = sql_update (\<lambda>r. np_name r = p) f (packages db)"
  shows "registry_inv db'"
  by (rule inv_upd_package [OF assms(1), where p = p and f = f])
    (use assms in \<open>auto simp: tags_sound_def registry_inv_def list_all_iff\<close>)

lemma deprecate_versions_inv: "registry_inv db \<Longrightarrow> registry_inv (deprecate_versions now p ms db)"
  by (rule touch_inv [where db = db and p = p and f = "\<lambda>r. r\<lparr>np_updated := now\<rparr>"])
    (simp_all add: deprecate_versions_def upd_package_def deprecate_fold [of p ms db, THEN conjunct1]
      deprecate_fold [of p ms db, THEN conjunct2] has_version_packages)

lemma touch_proxy_inv: "registry_inv db \<Longrightarrow> registry_inv (touch_proxy_fetched_at now p db)"
  by (rule touch_inv [where db = db and p = p and f = "\<lambda>r. r\<lparr>np_fetched := Some now, np_updated := now\<rparr>"])
    (simp_all add: touch_proxy_fetched_at_def upd_package_def)

lemma toggle_pinned_inv: "registry_inv db \<Longrightarrow> registry_inv (snd (toggle_pinned p db))"
proof (cases "package_by_name p db")
  case (Some r)
  assume "registry_inv db"
  then have "registry_inv (upd_package p (\<lambda>q. q\<lparr>np_pinned := \<not> np_pinned r\<rparr>) db)"
    by (rule touch_inv [where db = db and p = p and f = "\<lambda>q. q\<lparr>np_pinned := \<not> np_pinned r\<rparr>"])
      (simp_all add: upd_package_def)
  then show ?thesis using Some by (simp add: toggle_pinned_def)
qed (simp add: toggle_pinned_def)

lemma mark_inv:
  "registry_inv db \<Longrightarrow> registry_inv (mark_proxy_evicted p v db)" "registry_inv db \<Longrightarrow> registry_inv (mark_s3_uploaded p v db)"
  by (erule inv_versions; simp add: mark_proxy_evicted_def mark_s3_uploaded_def has_version_sql_update)+

lemma finalize_inv: "registry_inv db \<Longrightarrow> registry_inv (snd (finalize_proxy_tarball now p v sz sha db))"
proof (erule inv_versions)
  show "packages (snd (finalize_proxy_tarball now p v sz sha db)) = packages db"
    by (simp add: finalize_proxy_tarball_def Let_def)
  show "has_version (snd (finalize_proxy_tarball now p v sz sha db)) q w" if "has_version db q w" for q w
    using that by (auto simp: finalize_proxy_tarball_def Let_def has_version_sql_update) (auto simp: has_version_def)
qed

lemma inv_new_package:
  assumes "registry_inv db" "package_by_name (np_name r) db = None" "tags_sound db' r"
    and "packages db' = packages db @ [r]" "\<And>q v. has_version db q v \<Longrightarrow> has_version db' q v"
  shows "registry_inv db'"
  using assms tags_sound_mono [of db _ db'] by (auto simp: registry_inv_def list_all_iff package_by_name_None)

lemma upsert_proxy_inv: "registry_inv db \<Longrightarrow> registry_inv (upsert_proxy_packument now p body etag db)"
proof -
  assume iv: "registry_inv db"
  define desc where "desc = (case Option.bind (j_get ''description'' body) j_str of Some s \<Rightarrow> s | None \<Rightarrow> [])"
  define ts where "ts = (case j_get ''dist-tags'' body of Some j \<Rightarrow> j | None \<Rightarrow> JObj [])"
  define f :: "package_row \<Rightarrow> package_row" where "f = (\<lambda>r. r\<lparr>np_desc := desc, np_tags := ts, np_proxy := True, np_etag := etag, np_fetched := Some now,
                     np_blob := Some body, np_unpublished := None, np_updated := now\<rparr>)"
  have u: "upsert_proxy_packument now p body etag db =
      (case package_by_name p db of None \<Rightarrow> db\<lparr>packages := packages db @ [f (new_package now p desc ts)]\<rparr>
       | Some _ \<Rightarrow> upd_package p f db)"
    unfolding upsert_proxy_packument_def Let_def f_def desc_def ts_def ..
  show ?thesis
  proof (cases "package_by_name p db")
    case None
    then show ?thesis unfolding u
      by (auto intro!: inv_new_package [OF iv, where r = "f (new_package now p desc ts)"]
          simp: f_def new_package_def tags_sound_def)
  next
    case (Some r)
    have "registry_inv (upd_package p f db)"
      by (rule inv_upd_package [OF iv, where p = p and f = f]) (auto simp: f_def tags_sound_def upd_package_def)
    then show ?thesis unfolding u using Some by simp
  qed
qed

text \<open>A publish with tags that name the new version or versions there are.\<close>

lemma insert_version_inv:
  assumes iv: "registry_inv db"
    and ok: "(\<And>r. package_by_name p db = Some r \<Longrightarrow> \<not> np_proxy r) \<Longrightarrow>
      bt_ok ts \<and> (\<forall>t w. map_of ts t = Some w \<longrightarrow> w = v \<or> has_version db p w)"
  shows "registry_inv (snd (insert_version now p desc v m sz sha pub ts db))"
proof (cases "version_by_id p v db = None")
  case False
  then show ?thesis using iv by (simp add: insert_version_def Let_def)
next
  case True
  let ?db = "snd (insert_version now p desc v m sz sha pub ts db)"
  have h: "has_version ?db q w \<longleftrightarrow> has_version db q w \<or> (q, w) = (p, v)" for q w
    using True by (auto simp: insert_version_def Let_def has_version_def split: option.split)
  show ?thesis
  proof (cases "package_by_name p db")
    case None
    show ?thesis
    proof (rule inv_new_package [OF iv, where r = "new_package now p desc (json_of_map ts)"])
      show "tags_sound ?db (new_package now p desc (json_of_map ts))"
        using ok None by (auto simp: tags_sound_def new_package_def h)
      show "has_version ?db q w" if "has_version db q w" for q w using that unfolding h by simp
    qed (use None True in \<open>simp_all add: insert_version_def new_package_def\<close>)
  next
    case (Some r)
    let ?f = "\<lambda>r. r\<lparr>np_desc := (if desc = [] then np_desc r else desc), np_tags := json_of_map ts,
        np_unpublished := None, np_updated := now\<rparr>"
    show ?thesis
    proof (rule inv_upd_package [OF iv, where p = p and f = ?f])
      fix q :: package_row assume q: "q \<in> set (packages db)" "np_name q = p"
      then have "q = r" using package_unique [OF _ Some q] iv by (simp add: registry_inv_def)
      then show "tags_sound ?db (?f q)" using ok Some q(2) by (auto simp: tags_sound_def h)
    next
      fix q :: package_row assume "np_name q \<noteq> p" "tags_sound db q"
      then show "tags_sound ?db q" by (auto simp: tags_sound_def h)
    qed (use True Some in \<open>auto simp: insert_version_def Let_def upd_package_def\<close>)
  qed
qed


section \<open>Lemmas on evictions\<close>

abbreviation version_key :: "version_row \<Rightarrow> string \<times> string" where
  "version_key r \<equiv> (nv_package r, nv_version r)"

definition eviction :: "version_row \<Rightarrow> string \<times> string \<times> string" where
  "eviction r = (nv_package r, nv_version r, tarball_filename (nv_package r) (nv_version r))"

text \<open>The candidates, oldest first.\<close>

definition candidates :: "registry \<Rightarrow> version_row list" where
  "candidates db = sort_key nv_at (filter (\<lambda>r. is_cached db r \<and> nv_size r > 0) (versions db))"

lemma evict_loop_take:
  "\<exists>k \<le> length rs. evict_loop need freed rs = map eviction (take k rs) \<and>
     (k = length rs \<or> need \<le> freed + sum_list (map nv_size (take k rs))) \<and>
     (\<forall>j. 0 < j \<longrightarrow> j < k \<longrightarrow> freed + sum_list (map nv_size (take j rs)) < need)"
proof (induction rs arbitrary: freed)
  case (Cons r rs)
  show ?case
  proof (cases "need \<le> freed + nv_size r")
    case True
    then show ?thesis by (intro exI [of _ 1]) (simp add: eviction_def)
  next
    case False
    obtain k where k: "k \<le> length rs" "evict_loop need (freed + nv_size r) rs = map eviction (take k rs)"
      "k = length rs \<or> need \<le> freed + nv_size r + sum_list (map nv_size (take k rs))"
      "\<forall>j. 0 < j \<longrightarrow> j < k \<longrightarrow> freed + nv_size r + sum_list (map nv_size (take j rs)) < need"
      using Cons by blast
    have "freed + sum_list (map nv_size (take j (r # rs))) < need" if "0 < j" "j < Suc k" for j
    proof (cases j)
      case (Suc i)
      then show ?thesis using k(4) that False by (cases "i = 0") (simp_all add: algebra_simps)
    qed (use that in simp)
    then show ?thesis using k False
      by (intro exI [of _ "Suc k"]) (simp add: eviction_def algebra_simps)
  qed
qed simp

lemma pick_take:
  "\<exists>k. pick_proxy_evictions mb db = map eviction (take k (candidates db)) \<and>
     (cache_size db \<le> mb \<or> k = length (candidates db) \<or>
      cache_size db - mb \<le> sum_list (map nv_size (take k (candidates db))))"
proof (cases "cache_size db \<le> mb")
  case True
  then show ?thesis by (intro exI [of _ 0]) (simp add: pick_proxy_evictions_def)
next
  case False
  then show ?thesis
    using evict_loop_take [of "candidates db" "cache_size db - mb" 0]
    by (auto simp: pick_proxy_evictions_def Let_def candidates_def)
qed

abbreviation mark_all :: "(string \<times> string \<times> string) list \<Rightarrow> registry \<Rightarrow> registry" where
  "mark_all es db \<equiv> fold (\<lambda>(p, v, f). mark_proxy_evicted p v) es db"

lemma is_cached_cong: "packages db' = packages db \<Longrightarrow> nv_package r' = nv_package r \<Longrightarrow> is_cached db' r' = is_cached db r"
  by (simp add: is_cached_def)

text \<open>Marking a list of rows: exactly their sizes become zero.\<close>

definition marked :: "version_row \<Rightarrow> version_row" where
  "marked r = r\<lparr>nv_size := 0, nv_s3 := False\<rparr>"

lemma marked_key [simp]: "nv_package (marked r) = nv_package r" "nv_version (marked r) = nv_version r"
  "marked (marked r) = marked r" "nv_size (marked r) = 0"
  by (simp_all add: marked_def)

lemma mark_all_eq:
  "mark_all (map eviction rs) db = db\<lparr>versions := map (\<lambda>r. if version_key r \<in> version_key ` set rs then marked r else r) (versions db)\<rparr>"
proof (induction rs arbitrary: db)
  case (Cons q rs)
  have "mark_proxy_evicted (nv_package q) (nv_version q) db =
      db\<lparr>versions := map (\<lambda>r. if version_key r = version_key q then marked r else r) (versions db)\<rparr>"
    by (auto simp: mark_proxy_evicted_def sql_update_def marked_def)
  then show ?case
    using Cons [of "mark_proxy_evicted (nv_package q) (nv_version q) db"]
    by (auto simp: eviction_def)
qed simp

lemma cache_size_sum: "cache_size db = sum_list (map (\<lambda>r. if is_cached db r then nv_size r else 0) (versions db))"
proof -
  have "sum_list (map nv_size (filter P xs)) = sum_list (map (\<lambda>r. if P r then nv_size r else 0) xs)" for P and xs :: "version_row list"
    by (induction xs) simp_all
  then show ?thesis by (simp add: cache_size_def)
qed

lemma cache_size_mark:
  assumes "distinct (map version_key (versions db))" "set rs \<subseteq> set (versions db)" "distinct rs" "\<And>r. r \<in> set rs \<Longrightarrow> is_cached db r"
  shows "cache_size (mark_all (map eviction rs) db) = cache_size db - sum_list (map nv_size rs)"
proof -
  let ?g = "\<lambda>r. if version_key r \<in> version_key ` set rs then marked r else r"
  have inj: "inj_on version_key (set (versions db))" and d: "distinct (versions db)" using assms(1) by (simp_all add: distinct_map)
  have mem: "version_key r \<in> version_key ` set rs \<longleftrightarrow> r \<in> set rs" if "r \<in> set (versions db)" for r
    using inj assms(2) that by (auto dest: inj_onD)
  have "cache_size (mark_all (map eviction rs) db) =
      sum_list (map (\<lambda>r. if is_cached db r then nv_size (?g r) else 0) (versions db))"
    unfolding mark_all_eq cache_size_sum by (auto simp: o_def is_cached_def intro!: arg_cong [where f = sum_list])
  also have "\<dots> = (\<Sum>r \<in> set (versions db). if is_cached db r then nv_size (?g r) else 0)"
    by (rule sum_list_distinct_conv_sum_set [OF d])
  also have "\<dots> = (\<Sum>r \<in> set (versions db). (if is_cached db r then nv_size r else 0) - (if r \<in> set rs then nv_size r else 0))"
    by (rule sum.cong) (use mem assms(4) in \<open>auto split: if_splits\<close>)
  also have "\<dots> = cache_size db - (\<Sum>r \<in> set (versions db). if r \<in> set rs then nv_size r else 0)"
    by (simp add: sum_subtractf cache_size_sum sum_list_distinct_conv_sum_set [OF d])
  also have "(\<Sum>r \<in> set (versions db). if r \<in> set rs then nv_size r else 0) = (\<Sum>r \<in> set rs. nv_size r)"
    using assms(2) by (simp add: sum.If_cases Int_absorb1)
  also have "\<dots> = sum_list (map nv_size rs)"
    by (rule sum_list_distinct_conv_sum_set [OF assms(3), symmetric])
  finally show ?thesis .
qed

lemma evictions_suffice:
  assumes "distinct (map version_key (versions db))" "\<And>r. r \<in> set (versions db) \<Longrightarrow> 0 \<le> nv_size r" "0 \<le> mb"
  shows "cache_size (mark_all (pick_proxy_evictions mb db) db) \<le> mb"
proof -
  obtain k where k: "pick_proxy_evictions mb db = map eviction (take k (candidates db))"
    "cache_size db \<le> mb \<or> k = length (candidates db) \<or>
      cache_size db - mb \<le> sum_list (map nv_size (take k (candidates db)))"
    using pick_take by blast
  have d: "distinct (candidates db)" using assms(1) by (simp add: candidates_def distinct_map)
  have c: "r \<in> set (versions db) \<and> is_cached db r \<and> 0 < nv_size r" if "r \<in> set (candidates db)" for r
    using that by (simp add: candidates_def)
  have s: "set (take k (candidates db)) \<subseteq> set (versions db)" "\<And>r. r \<in> set (take k (candidates db)) \<Longrightarrow> is_cached db r"
    using c in_set_takeD by fast+
  have e: "cache_size (mark_all (pick_proxy_evictions mb db) db) = cache_size db - sum_list (map nv_size (take k (candidates db)))"
    unfolding k(1) by (rule cache_size_mark [OF assms(1) s(1) distinct_take [OF d] s(2)])
  have nn: "0 \<le> sum_list (map nv_size (take k (candidates db)))"
  proof (rule sum_list_nonneg)
    fix x assume "x \<in> set (map nv_size (take k (candidates db)))"
    then obtain r where r: "r \<in> set (take k (candidates db))" "x = nv_size r" by auto
    then show "0 \<le> x" using c [OF in_set_takeD [OF r(1)]] by simp
  qed
  have all: "cache_size db = sum_list (map nv_size (candidates db))"
  proof -
    have "cache_size db = (\<Sum>r \<in> set (versions db). if is_cached db r then nv_size r else 0)"
      using assms(1) by (simp add: cache_size_sum sum_list_distinct_conv_sum_set distinct_map)
    also have "\<dots> = (\<Sum>r \<in> set (candidates db). nv_size r)"
      by (rule sum.mono_neutral_cong_right) (use assms(2) in \<open>auto simp: candidates_def order_less_le split: if_splits\<close>)
    finally show ?thesis unfolding sum_list_distinct_conv_sum_set [OF d, of nv_size] .
  qed
  show ?thesis using k(2) e nn all assms(3) by auto
qed


section \<open>Properties\<close>

text \<open>the tags are displayed each once, \<open>latest\<close> first and the others by descending rank of the version
  they name (release numbers, then releases over prereleases, then the parts of the prerelease), tags of
  equal rank by name.\<close>

theorem dist_tags_sorted:
  "mset (sort_dist_tags m) = mset m \<and> sorted_wrt tag_le (sort_dist_tags m) \<and>
   (\<forall>v. bt_ok m \<and> map_of m ''latest'' = Some v \<longrightarrow> sort_dist_tags m \<noteq> [] \<and> hd (sort_dist_tags m) = (''latest'', v))"
proof -
  have s: "mset (sort_dist_tags m) = mset m" "sorted_wrt tag_le (sort_dist_tags m)"
    by (simp_all add: sort_dist_tags_def tag_order.mset_sort_by tag_order.sorted_sort_by)
  have st: "set (sort_dist_tags m) = set m" using s(1) by (metis set_mset_mset)
  have "sort_dist_tags m \<noteq> [] \<and> hd (sort_dist_tags m) = (''latest'', v)" if "bt_ok m" "map_of m ''latest'' = Some v" for v
  proof -
    have l: "(''latest'', v) \<in> set (sort_dist_tags m)" using map_of_SomeD [OF that(2)] st by simp
    then obtain x xs where x: "sort_dist_tags m = x # xs" by (cases "sort_dist_tags m") auto
    have "fst x = ''latest''"
    proof (cases "x = (''latest'', v)")
      case False
      then have "tag_le x (''latest'', v)" using l s(2) x by auto
      then show ?thesis by (simp add: tag_le_def)
    qed simp
    moreover have "x \<in> set m" using x st by (metis list.set_intros(1))
    ultimately have "map_of m ''latest'' = Some (snd x)"
      by (cases x) (use map_of_is_SomeI [OF bt_ok_distinct [OF that(1)]] in simp)
    then show ?thesis using x that(2) \<open>fst x = ''latest''\<close> by (cases x) simp
  qed
  then show ?thesis using s by blast
qed

lemma dist_tags_sorted_witness:
  "hd (sort_dist_tags [(''beta'', ''2''), (''latest'', ''1'')]) = (''latest'', ''1'')"
proof -
  have "bt_ok [(''beta'', ''2''), (''latest'', ''1'')]" by code_simp
  then show ?thesis using dist_tags_sorted [of "[(''beta'', ''2''), (''latest'', ''1'')]"] by simp
qed

text \<open>Where the order departs from the precedence the comments describe: build metadata makes a version
  rank below its release, and a purely numeric prerelease counts as a release number.\<close>

lemma version_order_deviations:
  "cmp_version ''1.0+b'' ''1.0'' = Less" "cmp_version ''1.0-1'' ''1.0'' = Greater"
proof -
  have p: "parse_u64 ''1'' = Some 1" "parse_u64 ''0'' = Some 0" "parse_u64 ''b'' = None"
    by (simp_all add: parse_u64_def parse_uint_def strip_prefix_def starts_with_def is_digit_def dec_val_def digit_val_def)
  then show "cmp_version ''1.0+b'' ''1.0'' = Less" "cmp_version ''1.0-1'' ''1.0'' = Greater"
    by (simp_all add: cmp_version_def parts_def compare_def)
qed

text \<open>The manifest copied into the row of a downloaded version is lost when the version has a dot.\<close>

lemma downloaded_manifest_lost:
  assumes "package_by_name p db = Some r" "np_blob r = Some (JObj [(''versions'', JObj [(''1.2'', m)])])"
  shows "extracted_manifest p ''1.2'' db = JObj []"
  using assms by (simp add: extracted_manifest_def)

end
