(* ===== verification/Npm.thy ===== *)
theory Npm
  imports Registry Rbac
begin

text \<open>
  The handlers of the embedded npm registry (api/npm.rs) over its tables (Registry) and the tarball files
  of the hot tier (registry/storage.rs), with the proxy of an upstream registry (registry/upstream.rs):
  publishing, dist-tags, unpublishing, deprecating, serving packuments, manifests and tarballs, and the
  eviction of cached tarballs. Parsing JSON and base64, hashing, the upstream server and the cold tier
  are parameters; writes of tarball files are taken to succeed. Request bodies and header values are
  texts. The lemmas show who may change what, what a publish stores, and what an eviction frees.
\<close>

section \<open>State and environment\<close>

type_synonym bytes = "8 word list"

record npm_state =
  reg :: registry
  tarballs :: "string \<times> string \<Rightarrow> bytes option"
  settings :: "(string \<times> string) list"

record upstream_packument =
  up_body :: json
  up_etag :: "string option"

datatype refresh = UpNotFound | UpNotModified | UpUpdated upstream_packument

record npm_env =
  from_json :: "string \<Rightarrow> string + json"
  to_json :: "json \<Rightarrow> string"
  decode_b64 :: "string \<Rightarrow> string + bytes"
  integrity :: "bytes \<Rightarrow> string"
  etag_of :: "string \<Rightarrow> string"
  show_time :: "time \<Rightarrow> string"
  upstream_get :: "string \<Rightarrow> bool \<Rightarrow> string option \<Rightarrow> string + refresh"
  upstream_tarball :: "string \<Rightarrow> string + bytes option"
  cold_get :: "string \<times> string \<Rightarrow> bytes option"

type_synonym headers = "(string \<times> string) list"

definition ok_or :: "'e \<Rightarrow> 'a option \<Rightarrow> 'e + 'a" where
  "ok_or e x = (case x of None \<Rightarrow> Inl e | Some a \<Rightarrow> Inr a)"

text \<open>\<open>?\<close> on a result.\<close>

definition and_then :: "'e + 'a \<Rightarrow> ('a \<Rightarrow> 'e + 'b) \<Rightarrow> 'e + 'b" where
  "and_then x f = (case x of Inl e \<Rightarrow> Inl e | Inr a \<Rightarrow> f a)"

abbreviation bad :: "string \<Rightarrow> app_error" where
  "bad k \<equiv> BadRequest (te k)"

section \<open>Names, URLs and headers\<close>

text \<open>\<open>str::len\<close> counts UTF-8 bytes.\<close>

definition utf8_len :: "string \<Rightarrow> nat" where
  "utf8_len s = sum_list (map (\<lambda>c. if of_char c < (128 :: nat) then 1 else 2) s)"

definition validate_package_name :: "string \<Rightarrow> app_error + unit" where
  "validate_package_name name =
     (if name = [] \<or> contains_str name ''..'' \<or> CHR 0x5C \<in> set name \<or> starts_with name ''-'' \<or>
         starts_with name ''.'' \<or> utf8_len name > 214 then
        Inl (bad ''errors.npm.invalid_package_name'')
      else
        (case strip_prefix name ''@'' of
           Some rest \<Rightarrow>
             (case split_once (CHR ''/'') rest of
                None \<Rightarrow> Inl (bad ''errors.npm.scoped_missing_name'')
              | Some (scope, n) \<Rightarrow>
                  if scope = [] \<or> n = [] \<or> CHR ''/'' \<in> set n \<or> CHR ''/'' \<in> set scope then
                    Inl (bad ''errors.npm.invalid_scoped_name'')
                  else Inr ())
         | None \<Rightarrow>
             if CHR ''/'' \<in> set name then Inl (bad ''errors.npm.unscoped_has_slash'') else Inr ()))"

definition derive_version_from_tarball :: "string \<Rightarrow> string \<Rightarrow> string option" where
  "derive_version_from_tarball package tarball =
     (case strip_suffix tarball ''.tgz'' of
        None \<Rightarrow> None
      | Some stem \<Rightarrow> strip_prefix stem (unscoped package @ ''-''))"

definition public_base_url :: "headers \<Rightarrow> string" where
  "public_base_url hs =
     (let scheme = (case map_of hs ''x-forwarded-proto'' of
                      Some s \<Rightarrow> trim (hd (split_on (CHR '','') s)) | None \<Rightarrow> ''http'');
          host = (case map_of hs ''x-forwarded-host'' of
                    Some h \<Rightarrow> h
                  | None \<Rightarrow> (case map_of hs ''host'' of Some h \<Rightarrow> h | None \<Rightarrow> ''localhost''))
      in scheme @ ''://'' @ host)"

definition build_tarball_url :: "string \<Rightarrow> string \<Rightarrow> string \<Rightarrow> string" where
  "build_tarball_url base package filename = base @ ''/registry/npm/'' @ package @ ''/-/'' @ filename"

definition attachment_name_matches :: "string \<Rightarrow> string \<Rightarrow> string \<Rightarrow> bool" where
  "attachment_name_matches actual short full = (actual = short \<or> actual = full)"

definition wants_abbreviated :: "headers \<Rightarrow> bool" where
  "wants_abbreviated hs =
     (case map_of hs ''accept'' of None \<Rightarrow> False | Some v \<Rightarrow> contains_str v ''application/vnd.npm.install-v1+json'')"

definition if_none_match_matches :: "headers \<Rightarrow> string \<Rightarrow> bool" where
  "if_none_match_matches hs etag =
     (case map_of hs ''if-none-match'' of
        None \<Rightarrow> False
      | Some v \<Rightarrow> list_ex (\<lambda>tag. let t = trim tag in t = etag \<or> t = ''*'') (split_on (CHR '','') v))"

definition parse_version_body :: "npm_env \<Rightarrow> string \<Rightarrow> app_error + string" where
  "parse_version_body E body =
     (let raw = trim body;
          version = (case from_json E raw of Inr (JStr s) \<Rightarrow> s | _ \<Rightarrow> trim_matches (CHR 0x22) raw)
      in if version = [] then Inl (bad ''errors.npm.missing_version_body'') else Inr version)"

definition map_db_user_error :: "string + 'a \<Rightarrow> app_error + 'a" where
  "map_db_user_error r =
     (case r of
        Inr a \<Rightarrow> Inr a
      | Inl m \<Rightarrow>
          (let l = lower m
           in if contains_str l ''invalid dist-tag'' \<or> contains_str l ''does not exist'' \<or>
                 contains_str l ''refusing to remove'' \<or> contains_str l ''package not found'' then
                Inl (BadRequest (Lit m))
              else Inl (Internal m)))"

section \<open>Who may change a package\<close>

definition require_can_modify :: "auth_user \<Rightarrow> string \<Rightarrow> string option \<Rightarrow> registry \<Rightarrow> app_error + unit" where
  "require_can_modify user package version db =
     (if global_at_least (au_global user) Admin then Inr ()
      else
        (let ok =
           (case version of
              Some v \<Rightarrow>
                (case version_by_id package v db of
                   None \<Rightarrow> False
                 | Some r \<Rightarrow> (case nv_publisher r of None \<Rightarrow> True | Some uid \<Rightarrow> uid = au_id user))
            | None \<Rightarrow>
                (let owns = list_ex (\<lambda>r. nv_package r = package \<and> nv_publisher r = Some (au_id user)) (versions db);
                     any_tracked = list_ex (\<lambda>r. nv_package r = package \<and> nv_publisher r \<noteq> None) (versions db)
                 in owns \<or> \<not> any_tracked))
         in if ok then Inr () else Inl Unauthorized))"

section \<open>Publishing\<close>

record publication =
  pb_version :: string
  pb_desc :: string
  pb_manifest :: json
  pb_file :: string
  pb_bytes :: bytes
  pb_integrity :: string
  pb_tags :: "string btree"

text \<open>The manifest with the canonical \<open>dist\<close> fields.\<close>

definition with_dist :: "string \<Rightarrow> string \<Rightarrow> int \<Rightarrow> json \<Rightarrow> app_error + json" where
  "with_dist url integ sz m =
     (let fields = (\<lambda>d. bt_insert ''size'' (JNum sz) (bt_insert ''integrity'' (JStr integ)
                      (bt_insert ''tarball'' (JStr url) d)))
      in case Option.bind (j_get ''dist'' m) j_obj of
           Some d \<Rightarrow> Inr (j_set ''dist'' (JObj (fields d)) m)
         | None \<Rightarrow>
             (case j_obj m of
                None \<Rightarrow> Inl (bad ''errors.npm.manifest_not_object'')
              | Some _ \<Rightarrow> Inr (j_set ''dist'' (JObj (fields [])) m)))"

text \<open>What \<open>handle_publish\<close> reads from the request before it changes anything.\<close>

definition read_publication :: "npm_env \<Rightarrow> headers \<Rightarrow> string \<Rightarrow> string \<Rightarrow> app_error + publication" where
  "read_publication E hs package body =
     (case from_json E body of
        Inl e \<Rightarrow> Inl (BadRequest (Te ''errors.npm.invalid_json'' [(''error'', e)]))
      | Inr j \<Rightarrow>
     and_then (ok_or (bad ''errors.npm.missing_versions'') (Option.bind (j_get ''versions'' j) j_obj)) (\<lambda>vs.
     (case vs of
        [(version, manifest)] \<Rightarrow>
     and_then (ok_or (bad ''errors.npm.missing_attachments'') (Option.bind (j_get ''_attachments'' j) j_obj)) (\<lambda>atts.
     (case atts of
        [] \<Rightarrow> Inl (bad ''errors.npm.no_attachments'')
      | (att_name, att) # _ \<Rightarrow>
     and_then (ok_or (bad ''errors.npm.attachment_missing_data'') (Option.bind (j_get ''data'' att) j_str)) (\<lambda>d64.
     (case decode_b64 E d64 of
        Inl e \<Rightarrow> Inl (BadRequest (Te ''errors.npm.base64_decode'' [(''error'', e)]))
      | Inr data \<Rightarrow>
     (let short = tarball_filename package version;
          full = package @ ''-'' @ version @ ''.tgz''
      in if \<not> attachment_name_matches att_name short full then
           Inl (BadRequest (Te ''errors.npm.attachment_name_mismatch''
             [(''actual'', att_name), (''expected_short'', short), (''expected_full'', full)]))
         else
           (let claimed = Option.bind (Option.bind (j_get ''dist'' manifest) (j_get ''integrity'')) j_str;
                computed = integrity E data
            in if claimed \<noteq> None \<and> claimed \<noteq> Some computed then Inl (bad ''errors.npm.integrity_mismatch'')
               else
                 and_then (with_dist (build_tarball_url (public_base_url hs) package short) computed
                             (int (length data)) manifest) (\<lambda>m.
                 Inr \<lparr>pb_version = version,
                   pb_desc = (case Option.bind (j_get ''description'' j) j_str of Some s \<Rightarrow> s | None \<Rightarrow> []),
                   pb_manifest = m, pb_file = short, pb_bytes = data, pb_integrity = computed,
                   pb_tags = (case Option.bind (j_get ''dist-tags'' j) j_obj of
                                Some t \<Rightarrow> string_entries t
                              | None \<Rightarrow> [(''latest'', version)])\<rparr>)))))))
      | _ \<Rightarrow> Inl (bad ''errors.npm.single_version_required''))))"


text \<open>\<open>storage::write_tarball\<close> on the hot tier, and the flag its background upload sets.\<close>

definition write_tarball :: "string \<Rightarrow> string \<Rightarrow> bytes \<Rightarrow> npm_state \<Rightarrow> npm_state" where
  "write_tarball package file data st = st\<lparr>tarballs := (tarballs st)((package, file) := Some data)\<rparr>"

definition upload_finished :: "string \<Rightarrow> string \<Rightarrow> npm_state \<Rightarrow> npm_state" where
  "upload_finished package file st =
     (case derive_version_from_tarball package file of
        Some v \<Rightarrow> st\<lparr>reg := mark_s3_uploaded package v (reg st)\<rparr>
      | None \<Rightarrow> st)"

definition delete_tarball :: "string \<Rightarrow> string \<Rightarrow> npm_state \<Rightarrow> npm_state" where
  "delete_tarball package file st = st\<lparr>tarballs := (tarballs st)((package, file) := None)\<rparr>"

definition open_tarball_stream :: "npm_env \<Rightarrow> string \<Rightarrow> string \<Rightarrow> npm_state \<Rightarrow> bytes option \<times> npm_state" where
  "open_tarball_stream E package file st =
     (case tarballs st (package, file) of
        Some b \<Rightarrow> (Some b, st)
      | None \<Rightarrow>
          (case cold_get E (package, file) of
             None \<Rightarrow> (None, st)
           | Some b \<Rightarrow> (Some b, write_tarball package file b st)))"

text \<open>\<open>gc_orphans\<close> looks at the files directly in the directories of the registry root, so only at
  packages whose name has no slash.\<close>

definition gc_orphans :: "npm_state \<Rightarrow> npm_state" where
  "gc_orphans st = st\<lparr>tarballs := (\<lambda>(p, f).
     if CHR ''/'' \<notin> set p \<and>
        (case derive_version_from_tarball p f of None \<Rightarrow> False | Some v \<Rightarrow> version_by_id p v (reg st) = None)
     then None else tarballs st (p, f))\<rparr>"

definition merge_tags :: "string \<Rightarrow> string btree \<Rightarrow> registry \<Rightarrow> string btree" where
  "merge_tags package new_tags db =
     tags.ins_all new_tags (case package_by_name package db of Some r \<Rightarrow> stored_tags (np_tags r) | None \<Rightarrow> [])"

text \<open>The tarball is written before the row is inserted.\<close>

definition handle_publish ::
  "npm_env \<Rightarrow> time \<Rightarrow> auth_user \<Rightarrow> headers \<Rightarrow> string \<Rightarrow> string \<Rightarrow> npm_state \<Rightarrow> (app_error + unit) \<times> npm_state" where
  "handle_publish E now user hs package body st =
     (case and_then (validate_package_name package) (\<lambda>_. read_publication E hs package body) of
        Inl e \<Rightarrow> (Inl e, st)
      | Inr p \<Rightarrow>
          (let st1 = write_tarball package (pb_file p) (pb_bytes p) st
           in case insert_version now package (pb_desc p) (pb_version p) (pb_manifest p) (int (length (pb_bytes p)))
                     (pb_integrity p) (Some (au_id user)) (merge_tags package (pb_tags p) (reg st)) (reg st1) of
                (Inl m, db) \<Rightarrow>
                  (Inl (if contains_str m ''UNIQUE'' then
                          Conflict (Te ''errors.npm.already_published'' [(''name'', package), (''version'', pb_version p)])
                        else Internal m), st1\<lparr>reg := db\<rparr>)
              | (Inr _, db) \<Rightarrow> (Inr (), st1\<lparr>reg := db\<rparr>)))"

section \<open>Changing what is published\<close>

definition handle_set_dist_tag ::
  "npm_env \<Rightarrow> time \<Rightarrow> auth_user \<Rightarrow> string \<Rightarrow> string \<Rightarrow> string \<Rightarrow> npm_state \<Rightarrow> (app_error + unit) \<times> npm_state" where
  "handle_set_dist_tag E now user package tag body st =
     (case and_then (validate_package_name package) (\<lambda>_. parse_version_body E body) of
        Inl e \<Rightarrow> (Inl e, st)
      | Inr v \<Rightarrow>
          (case require_can_modify user package (Some v) (reg st) of
             Inl e \<Rightarrow> (Inl e, st)
           | Inr _ \<Rightarrow>
               (let (r, db) = set_dist_tag now package tag v (reg st)
                in (map_db_user_error r, st\<lparr>reg := db\<rparr>))))"

definition handle_remove_dist_tag ::
  "time \<Rightarrow> auth_user \<Rightarrow> string \<Rightarrow> string \<Rightarrow> npm_state \<Rightarrow> (app_error + unit) \<times> npm_state" where
  "handle_remove_dist_tag now user package tag st =
     (case and_then (validate_package_name package) (\<lambda>_. require_can_modify user package None (reg st)) of
        Inl e \<Rightarrow> (Inl e, st)
      | Inr _ \<Rightarrow>
          (let (r, db) = remove_dist_tag now package tag (reg st); st1 = st\<lparr>reg := db\<rparr>
           in case map_db_user_error r of
                Inl e \<Rightarrow> (Inl e, st1)
              | Inr removed \<Rightarrow>
                  if \<not> removed then (Inl (NotFound (Te ''errors.npm.dist_tag_not_found'' [(''tag'', tag)])), st1)
                  else (Inr (), st1)))"

definition handle_delete_package :: "time \<Rightarrow> auth_user \<Rightarrow> string \<Rightarrow> npm_state \<Rightarrow> (app_error + unit) \<times> npm_state" where
  "handle_delete_package now user package st =
     (case and_then (validate_package_name package) (\<lambda>_. require_can_modify user package None (reg st)) of
        Inl e \<Rightarrow> (Inl e, st)
      | Inr _ \<Rightarrow>
          (let (removed, db) = delete_package now package (reg st); st1 = st\<lparr>reg := db\<rparr>
           in if removed = [] then (Inl (NotFound (Te ''errors.npm.package_not_found'' [(''name'', package)])), st1)
              else (Inr (), fold (\<lambda>r. delete_tarball (rt_package r) (rt_filename r)) removed st1)))"

definition tarball_version :: "string \<Rightarrow> string \<Rightarrow> app_error + string" where
  "tarball_version package tarball =
     and_then (validate_package_name package) (\<lambda>_.
       if \<not> ends_with tarball ''.tgz'' then Inl (bad ''errors.npm.tarball_extension'')
       else ok_or (bad ''errors.npm.malformed_tarball'') (derive_version_from_tarball package tarball))"

definition handle_delete_version ::
  "time \<Rightarrow> auth_user \<Rightarrow> string \<Rightarrow> string \<Rightarrow> npm_state \<Rightarrow> (app_error + unit) \<times> npm_state" where
  "handle_delete_version now user package tarball st =
     (case and_then (tarball_version package tarball)
             (\<lambda>v. and_then (require_can_modify user package (Some v) (reg st)) (\<lambda>_. Inr v)) of
        Inl e \<Rightarrow> (Inl e, st)
      | Inr v \<Rightarrow>
          (let (removed, db) = delete_version now package v (reg st); st1 = st\<lparr>reg := db\<rparr>
           in case removed of
                None \<Rightarrow> (Inl (NotFound (Te ''errors.npm.version_not_found'' [(''name'', package), (''version'', v)])), st1)
              | Some r \<Rightarrow> (Inr (), delete_tarball (rt_package r) (rt_filename r) st1)))"

definition handle_deprecate ::
  "npm_env \<Rightarrow> time \<Rightarrow> auth_user \<Rightarrow> string \<Rightarrow> string \<Rightarrow> npm_state \<Rightarrow> (app_error + unit) \<times> npm_state" where
  "handle_deprecate E now user package body st =
     (case and_then (validate_package_name package) (\<lambda>_. require_can_modify user package None (reg st)) of
        Inl e \<Rightarrow> (Inl e, st)
      | Inr _ \<Rightarrow>
          (case from_json E body of
             Inl e \<Rightarrow> (Inl (BadRequest (Te ''errors.npm.invalid_json'' [(''error'', e)])), st)
           | Inr j \<Rightarrow>
               (case Option.bind (j_get ''versions'' j) j_obj of
                  None \<Rightarrow> (Inl (bad ''errors.npm.missing_versions''), st)
                | Some vs \<Rightarrow>
                    (let messages = map (\<lambda>(v, m). (v, case Option.bind (j_get ''deprecated'' m) j_str of
                                                           Some s \<Rightarrow> s | None \<Rightarrow> [])) vs
                     in if messages = [] then (Inl (bad ''errors.npm.nothing_to_deprecate''), st)
                        else (Inr (), st\<lparr>reg := deprecate_versions now package messages (reg st)\<rparr>)))))"

section \<open>Serving\<close>

definition rewrite_single_manifest :: "string \<Rightarrow> string \<Rightarrow> json \<Rightarrow> json" where
  "rewrite_single_manifest package base m =
     (let fallback = (case Option.bind (j_get ''version'' m) j_str of Some s \<Rightarrow> s | None \<Rightarrow> ''0.0.0'')
      in case Option.bind (j_get ''dist'' m) j_obj of
           None \<Rightarrow> m
         | Some dist \<Rightarrow>
             (let filename = (case Option.bind (map_of dist ''tarball'') j_str of
                                Some url \<Rightarrow> last (split_on (CHR ''/'') url)
                              | None \<Rightarrow> tarball_filename package fallback)
              in j_set ''dist'' (JObj (bt_insert ''tarball'' (JStr (build_tarball_url base package filename)) dist)) m))"

definition rewrite_tarball_urls :: "string \<Rightarrow> packument \<Rightarrow> packument" where
  "rewrite_tarball_urls base k =
     k\<lparr>pk_versions := map (\<lambda>(v, m). (v, rewrite_single_manifest (pk_name k) base m)) (pk_versions k)\<rparr>"

definition abbreviated_keys :: "string list" where
  "abbreviated_keys = [''name'', ''version'', ''deprecated'', ''dependencies'', ''optionalDependencies'',
     ''devDependencies'', ''bundleDependencies'', ''peerDependencies'', ''peerDependenciesMeta'', ''bin'',
     ''directories'', ''dist'', ''engines'', ''_hasShrinkwrap'', ''hasInstallScript'']"

definition abridge :: "json \<Rightarrow> json" where
  "abridge m =
     JObj (fold (\<lambda>k d. case Option.bind (j_obj m) (\<lambda>o'. map_of o' k) of None \<Rightarrow> d | Some v \<Rightarrow> bt_insert k v d)
             abbreviated_keys [])"

definition build_abbreviated_packument :: "packument \<Rightarrow> json" where
  "build_abbreviated_packument k =
     (let modified = (case map snd (pk_time k) of [] \<Rightarrow> [] | t # ts \<Rightarrow> fold max ts t)
      in JObj (fold (\<lambda>(n, v). bt_insert n v)
           [(''name'', JStr (pk_name k)), (''modified'', JStr modified), (''dist-tags'', json_of_map (pk_tags k)),
            (''versions'', JObj (map (\<lambda>(v, m). (v, abridge m)) (pk_versions k)))] []))"

text \<open>\<open>serde_json::to_value(&packument)\<close>\<close>

definition full_packument :: "packument \<Rightarrow> json" where
  "full_packument k =
     JObj (fold (\<lambda>(n, v). bt_insert n v)
       [(''name'', JStr (pk_name k)), (''description'', JStr (pk_desc k)), (''dist-tags'', json_of_map (pk_tags k)),
        (''versions'', JObj (pk_versions k)), (''time'', json_of_map (pk_time k))] [])"

datatype reply_body = NotModified string | JsonBody string json | TarballBody string bytes

definition json_response :: "npm_env \<Rightarrow> headers \<Rightarrow> json \<Rightarrow> reply_body" where
  "json_response E hs j =
     (let etag = etag_of E (to_json E j)
      in if if_none_match_matches hs etag then NotModified etag else JsonBody etag j)"

definition serve_version :: "npm_env \<Rightarrow> headers \<Rightarrow> string \<Rightarrow> string \<Rightarrow> npm_state \<Rightarrow> app_error + reply_body" where
  "serve_version E hs package version st =
     and_then (validate_package_name package) (\<lambda>_.
     and_then (ok_or (NotFound (Te ''errors.npm.version_not_found'' [(''name'', package), (''version'', version)]))
                 (load_version_manifest package version (reg st))) (\<lambda>m.
     Inr (json_response E hs (rewrite_single_manifest package (public_base_url hs) m))))"


section \<open>The upstream proxy\<close>

record proxy_config =
  px_enabled :: bool
  px_url :: string
  px_ttl :: nat
  px_max_mb :: nat

definition load_config :: "npm_state \<Rightarrow> proxy_config" where
  "load_config st =
     (let rd = map_of (settings st)
      in \<lparr>px_enabled = (case rd ''registry.proxy.enabled'' of
                           None \<Rightarrow> False | Some v \<Rightarrow> v \<in> {''true'', ''1'', ''yes'', ''on''}),
          px_url = trim_chars_end (\<lambda>c. c = CHR ''/'')
            (case rd ''registry.proxy.upstream_url'' of Some u \<Rightarrow> u | None \<Rightarrow> ''https://registry.npmjs.org''),
          px_ttl = (case Option.bind (rd ''registry.proxy.ttl_seconds'') parse_u64 of Some n \<Rightarrow> n | None \<Rightarrow> 600),
          px_max_mb = (case Option.bind (rd ''registry.proxy.max_cache_size_mb'') parse_u64 of Some n \<Rightarrow> n | None \<Rightarrow> 0)\<rparr>)"

definition urlencode_pkg :: "string \<Rightarrow> string" where
  "urlencode_pkg name =
     (case strip_prefix name ''@'' of
        None \<Rightarrow> name
      | Some rest \<Rightarrow>
          (case split_once (CHR ''/'') rest of
             None \<Rightarrow> name
           | Some (scope, pkg) \<Rightarrow> ''@'' @ scope @ ''%2F'' @ pkg))"

definition fetch_packument_cond :: "npm_env \<Rightarrow> string \<Rightarrow> string \<Rightarrow> bool \<Rightarrow> string option \<Rightarrow> string + refresh" where
  "fetch_packument_cond E url name abbrev etag = upstream_get E (url @ ''/'' @ urlencode_pkg name) abbrev etag"

definition fetch_packument :: "npm_env \<Rightarrow> string \<Rightarrow> string \<Rightarrow> bool \<Rightarrow> string + upstream_packument option" where
  "fetch_packument E url name abbrev =
     (case fetch_packument_cond E url name abbrev None of
        Inl e \<Rightarrow> Inl e
      | Inr UpNotFound \<Rightarrow> Inr None
      | Inr UpNotModified \<Rightarrow> Inl ''upstream returned 304 without an If-None-Match request''
      | Inr (UpUpdated up) \<Rightarrow> Inr (Some up))"

text \<open>The first part of \<open>serve_packument\<close>: a miss is filled from upstream.\<close>

definition fill_miss ::
  "npm_env \<Rightarrow> time \<Rightarrow> headers \<Rightarrow> string \<Rightarrow> npm_state \<Rightarrow> (app_error + packument option) \<times> npm_state" where
  "fill_miss E now hs package st =
     (case load_packument (show_time E) package (reg st) of
        Some k \<Rightarrow> (Inr (Some k), st)
      | None \<Rightarrow>
          (let cfg = load_config st
           in if \<not> px_enabled cfg then (Inr None, st)
              else
                (case fetch_packument E (px_url cfg) package (wants_abbreviated hs) of
                   Inl e \<Rightarrow> (Inl (Internal (''upstream fetch failed: '' @ e)), st)
                 | Inr None \<Rightarrow> (Inr None, st)
                 | Inr (Some up) \<Rightarrow>
                     (let db = upsert_proxy_packument now package (up_body up) (up_etag up) (reg st)
                      in (Inr (load_packument (show_time E) package db), st\<lparr>reg := db\<rparr>)))))"

text \<open>The second part: a cached packument older than the time to live is revalidated; whatever fails, the
  cached one is served.\<close>

definition revalidate ::
  "npm_env \<Rightarrow> time \<Rightarrow> headers \<Rightarrow> string \<Rightarrow> packument \<Rightarrow> npm_state \<Rightarrow> packument \<times> npm_state" where
  "revalidate E now hs package k st =
     (let cfg = load_config st
      in if \<not> (pk_proxy k \<and> px_enabled cfg \<and> 0 < px_ttl cfg) then (k, st)
         else
           (case load_proxy_state package (reg st) of
              None \<Rightarrow> (k, st)
            | Some (etag, fetched) \<Rightarrow>
                if \<not> (fetched + int (px_ttl cfg) \<le> now) then (k, st)
                else
                  (case fetch_packument_cond E (px_url cfg) package (wants_abbreviated hs) etag of
                     Inr UpNotModified \<Rightarrow> (k, st\<lparr>reg := touch_proxy_fetched_at now package (reg st)\<rparr>)
                   | Inr (UpUpdated up) \<Rightarrow>
                       (let db = upsert_proxy_packument now package (up_body up) (up_etag up) (reg st)
                        in (case load_packument (show_time E) package db of Some fresh \<Rightarrow> fresh | None \<Rightarrow> k, st\<lparr>reg := db\<rparr>))
                   | _ \<Rightarrow> (k, st))))"

definition serve_packument ::
  "npm_env \<Rightarrow> time \<Rightarrow> headers \<Rightarrow> string \<Rightarrow> npm_state \<Rightarrow> (app_error + reply_body) \<times> npm_state" where
  "serve_packument E now hs package st =
     (case validate_package_name package of
        Inl e \<Rightarrow> (Inl e, st)
      | Inr _ \<Rightarrow>
          (case fill_miss E now hs package st of
             (Inl e, st1) \<Rightarrow> (Inl e, st1)
           | (Inr None, st1) \<Rightarrow> (Inl (NotFound (Te ''errors.npm.package_not_found'' [(''name'', package)])), st1)
           | (Inr (Some k), st1) \<Rightarrow>
               (let (k1, st2) = revalidate E now hs package k st1;
                    k2 = rewrite_tarball_urls (public_base_url hs) k1;
                    j = (if wants_abbreviated hs then build_abbreviated_packument k2 else full_packument k2)
                in (Inr (json_response E hs j), st2))))"

text \<open>\<open>lookup_proxy_tarball_state\<close>: whether the package is cached from upstream, and the tarball's URL.
  A pointer's keys are the parts between slashes, with \<open>~1\<close> and \<open>~0\<close> decoded.\<close>

fun unescape_key :: "string \<Rightarrow> string" where
  "unescape_key [] = []"
| "unescape_key (c # cs) =
     (if c = CHR ''~'' then
        (case cs of
           [] \<Rightarrow> [c]
         | d # ds \<Rightarrow> if d = CHR ''1'' then CHR ''/'' # unescape_key ds
                     else if d = CHR ''0'' then CHR ''~'' # unescape_key ds
                     else c # unescape_key cs)
      else c # unescape_key cs)"

definition lookup_proxy_tarball_state :: "string \<Rightarrow> string \<Rightarrow> registry \<Rightarrow> string + (bool \<times> string option) option" where
  "lookup_proxy_tarball_state package version db =
     (case package_by_name package db of
        None \<Rightarrow> Inr None
      | Some r \<Rightarrow>
          (let from_blob =
             (if np_proxy r then
                (case Option.bind (Option.bind (np_blob r)
                       (j_path (map unescape_key (''versions'' # split_on (CHR ''/'') version) @ [''dist'', ''tarball'']))) j_str of
                   Some url \<Rightarrow> Inr (Some (True, Some url))
                 | None \<Rightarrow> Inr None)
              else Inr None)
           in case Option.bind (version_by_id package version db) (\<lambda>v. j_path [''dist'', ''tarball''] (nv_manifest v)) of
                None \<Rightarrow> from_blob
              | Some JNull \<Rightarrow> from_blob
              | Some (JStr url) \<Rightarrow> Inr (Some (np_proxy r, Some url))
              | Some _ \<Rightarrow> Inl ''InvalidColumnType''))"

text \<open>The download of a missing tarball in \<open>serve_tarball\<close>.\<close>

definition fetch_missing ::
  "npm_env \<Rightarrow> time \<Rightarrow> string \<Rightarrow> string \<Rightarrow> string \<Rightarrow> tarball_meta option \<Rightarrow> npm_state \<Rightarrow>
   (app_error + tarball_meta option) \<times> npm_state" where
  "fetch_missing E now package tarball version meta st =
     (let missing = NotFound (Te ''errors.npm.tarball_not_found'' [(''name'', package), (''tarball'', tarball)])
      in case lookup_proxy_tarball_state package version (reg st) of
           Inl e \<Rightarrow> (Inl (Internal e), st)
         | Inr (Some (True, Some url)) \<Rightarrow>
             if \<not> px_enabled (load_config st) then (Inr meta, st)
             else
               (case upstream_tarball E url of
                  Inl _ \<Rightarrow> (Inl missing, st)
                | Inr None \<Rightarrow> (Inl missing, st)
                | Inr (Some data) \<Rightarrow>
                    (let st1 = write_tarball package tarball data st; sha = integrity E data; sz = int (length data)
                     in case finalize_proxy_tarball now package version sz sha (reg st1) of
                          (Inl e, db) \<Rightarrow> (Inl (Internal e), st1\<lparr>reg := db\<rparr>)
                        | (Inr _, db) \<Rightarrow>
                            (Inr (Some \<lparr>tm_size = sz, tm_sha = sha, tm_s3 = False\<rparr>), st1\<lparr>reg := db\<rparr>)))
         | Inr _ \<Rightarrow> (Inr meta, st))"

definition quoted :: "string \<Rightarrow> string" where
  "quoted s = [CHR 0x22] @ s @ [CHR 0x22]"

definition serve_tarball ::
  "npm_env \<Rightarrow> time \<Rightarrow> headers \<Rightarrow> string \<Rightarrow> string \<Rightarrow> npm_state \<Rightarrow> (app_error + reply_body) \<times> npm_state" where
  "serve_tarball E now hs package tarball st =
     (case tarball_version package tarball of
        Inl e \<Rightarrow> (Inl e, st)
      | Inr version \<Rightarrow>
          (let initial = lookup_tarball package version (reg st);
               needs = (case initial of None \<Rightarrow> True | Some m \<Rightarrow> tm_size m = 0)
           in case (if needs then fetch_missing E now package tarball version initial st else (Inr initial, st)) of
                (Inl e, st1) \<Rightarrow> (Inl e, st1)
              | (Inr None, st1) \<Rightarrow>
                  (Inl (NotFound (Te ''errors.npm.tarball_version_not_found'' [(''name'', package), (''version'', version)])), st1)
              | (Inr (Some m), st1) \<Rightarrow>
                  (let etag = quoted (tm_sha m)
                   in if if_none_match_matches hs etag then (Inr (NotModified etag), st1)
                      else
                        (case open_tarball_stream E package tarball st1 of
                           (None, st2) \<Rightarrow>
                             (Inl (NotFound (Te ''errors.npm.tarball_not_found'' [(''name'', package), (''tarball'', tarball)])), st2)
                         | (Some b, st2) \<Rightarrow> (Inr (TarballBody etag b), st2)))))"

definition serve_tarball_head :: "string \<Rightarrow> string \<Rightarrow> npm_state \<Rightarrow> app_error + (int \<times> string)" where
  "serve_tarball_head package tarball st =
     and_then (tarball_version package tarball) (\<lambda>version.
     and_then (ok_or (NotFound (Te ''errors.npm.tarball_version_not_found'' [(''name'', package), (''version'', version)]))
                (lookup_tarball package version (reg st))) (\<lambda>m.
     Inr (tm_size m, quoted (tm_sha m))))"

definition evict :: "string \<times> string \<times> string \<Rightarrow> npm_state \<Rightarrow> npm_state" where
  "evict = (\<lambda>(package, version, filename) st.
     (delete_tarball package filename st)\<lparr>reg := mark_proxy_evicted package version (reg st)\<rparr>)"

text \<open>\<open>saturating_mul\<close> at 64 bits.\<close>

definition max_bytes :: "proxy_config \<Rightarrow> int" where
  "max_bytes cfg = max (- (2 ^ 63)) (min (sint (word_of_nat (px_max_mb cfg) :: 64 word) * 1048576) (2 ^ 63 - 1))"

definition run_gc :: "npm_state \<Rightarrow> nat \<times> npm_state" where
  "run_gc st =
     (let cfg = load_config st
      in if \<not> px_enabled cfg \<or> px_max_mb cfg = 0 then (0, st)
         else (let targets = pick_proxy_evictions (max_bytes cfg) (reg st)
               in (length targets, fold evict targets st)))"


section \<open>Lemmas\<close>

lemma and_then_Inr [simp]: "and_then (Inr a) f = f a" "and_then (Inl e) f = Inl e"
  by (simp_all add: and_then_def)

lemma and_then_eq_Inr: "and_then x f = Inr b \<longleftrightarrow> (\<exists>a. x = Inr a \<and> f a = Inr b)"
  by (cases x) simp_all

lemma ok_or_eq_Inr: "ok_or e x = Inr a \<longleftrightarrow> x = Some a"
  by (cases x) (simp_all add: ok_or_def)

text \<open>The file name of a version gives it back.\<close>

lemma strip_suffix_append: "strip_suffix (s @ t) t = Some s"
  by (simp add: strip_suffix_def ends_with_def)

lemma strip_prefix_append: "strip_prefix (s @ t) s = Some t"
  by (simp add: strip_prefix_def)

lemma derive_tarball_filename: "derive_version_from_tarball p (tarball_filename p v) = Some v"
proof -
  have "tarball_filename p v = ((unscoped p @ ''-'') @ v) @ ''.tgz''" by (simp add: tarball_filename_def)
  then show ?thesis
    unfolding derive_version_from_tarball_def using strip_suffix_append strip_prefix_append
    by (metis option.simps(5))
qed

lemma tarball_version_filename: "validate_package_name p = Inr () \<Longrightarrow> tarball_version p (tarball_filename p v) = Inr v"
proof -
  have "ends_with (tarball_filename p v) ''.tgz''"
    using strip_suffix_append [of "unscoped p @ ''-'' @ v" "''.tgz''"]
    by (simp add: tarball_filename_def strip_suffix_def split: if_splits)
  then show "validate_package_name p = Inr () \<Longrightarrow> ?thesis"
    by (simp add: tarball_version_def derive_tarball_filename ok_or_def)
qed

text \<open>Insertion into an object, whatever the order of its keys.\<close>

lemma lookup_bt_insert_any: "map_of (bt_insert k v m) = (map_of m)(k \<mapsto> v)"
  by (induction k v m rule: bt_insert.induct) (auto simp: fun_eq_iff)

lemma with_dist_integrity: "with_dist url i n m = Inr m' \<Longrightarrow> j_path [''dist'', ''integrity''] m' = Some (JStr i)"
  by (cases m) (auto simp: with_dist_def Let_def lookup_bt_insert_any bind_eq_Some_conv split: option.splits)

lemma read_publication_Inr:
  assumes "read_publication E hs package body = Inr p"
  shows "pb_file p = tarball_filename package (pb_version p) \<and> pb_integrity p = integrity E (pb_bytes p) \<and>
    j_path [''dist'', ''integrity''] (pb_manifest p) = Some (JStr (pb_integrity p))"
  using assms unfolding read_publication_def and_then_def ok_or_def Let_def
  by (auto dest: with_dist_integrity simp del: j_path.simps
      split: sum.splits list.splits prod.splits if_splits option.splits)

lemma sql_first_is_row_append:
  "sql_first P t = None \<Longrightarrow> P r \<Longrightarrow> sql_first P (t @ [r]) = Some r"
  by (simp add: sql_first_append sql_simps)

lemma insert_version_fresh:
  assumes "version_by_id p v db = None" "insert_version now p desc v m sz sha pub ts db = (r, db')"
  shows "r = Inr () \<and> (\<exists>row. version_by_id p v db' = Some row \<and> versions db' = versions db @ [row] \<and>
      nv_package row = p \<and> nv_version row = v \<and> nv_manifest row = m \<and> nv_size row = sz \<and> nv_sha row = sha \<and>
      nv_publisher row = pub) \<and>
    (\<exists>q. package_by_name p db' = Some q \<and> np_tags q = json_of_map ts \<and> np_unpublished q = None)"
proof -
  let ?row = "\<lparr>nv_package = p, nv_version = v, nv_manifest = m, nv_size = sz, nv_sha = sha, nv_s3 = False,
             nv_publisher = pub, nv_at = now\<rparr>"
  have v: "versions db' = versions db @ [?row]" and r: "r = Inr ()"
    using assms by (auto simp: insert_version_def Let_def split: option.splits)
  have "version_by_id p v db' = Some ?row"
    using sql_first_is_row_append [of "is_row p v" "versions db" ?row] assms(1) v by (simp add: version_by_id_def)
  moreover have "\<exists>q. package_by_name p db' = Some q \<and> np_tags q = json_of_map ts \<and> np_unpublished q = None"
  proof (cases "package_by_name p db")
    case None
    then have "package_by_name p db' = Some (new_package now p desc (json_of_map ts))"
      using assms by (auto simp: insert_version_def Let_def package_by_name_def sql_first_append sql_simps new_package_def)
    then show ?thesis by (simp add: new_package_def)
  next
    case (Some q)
    let ?f = "\<lambda>r. r\<lparr>np_desc := (if desc = [] then np_desc r else desc), np_tags := json_of_map ts, np_unpublished := None, np_updated := now\<rparr>"
    have "sql_first P (sql_update P g t) = map_option g (sql_first P t)" if "\<And>r. P (g r) = P r" for P g and t :: "package_row list"
      by (induction t) (auto simp: sql_simps that)
    from this [of "\<lambda>r. np_name r = p" ?f "packages db"] Some
    have "package_by_name p db' = Some (?f q)"
      using assms by (auto simp: insert_version_def Let_def package_by_name_def upd_package_def)
    then show ?thesis by simp
  qed
  ultimately show ?thesis using v r by auto
qed

lemma publish_read:
  "handle_publish E now user hs package body st = (Inr u, st') \<Longrightarrow>
   \<exists>p. validate_package_name package = Inr () \<and> read_publication E hs package body = Inr p"
  by (auto simp: handle_publish_def and_then_def Let_def split: sum.splits)

lemma publish_eq:
  assumes "validate_package_name package = Inr ()" "read_publication E hs package body = Inr p"
  shows "handle_publish E now user hs package body st =
    (let st1 = write_tarball package (pb_file p) (pb_bytes p) st
     in case insert_version now package (pb_desc p) (pb_version p) (pb_manifest p) (int (length (pb_bytes p)))
               (pb_integrity p) (Some (au_id user)) (merge_tags package (pb_tags p) (reg st)) (reg st) of
          (Inl m, db) \<Rightarrow>
            (Inl (if contains_str m ''UNIQUE'' then
                    Conflict (Te ''errors.npm.already_published'' [(''name'', package), (''version'', pb_version p)])
                  else Internal m), st1\<lparr>reg := db\<rparr>)
        | (Inr _, db) \<Rightarrow> (Inr (), st1\<lparr>reg := db\<rparr>))"
  using assms by (simp add: handle_publish_def write_tarball_def)

lemma publish_fresh:
  assumes "validate_package_name package = Inr ()" "read_publication E hs package body = Inr p"
    and "version_by_id package (pb_version p) (reg st) = None"
  shows "\<exists>db. handle_publish E now user hs package body st = (Inr (), (write_tarball package (pb_file p) (pb_bytes p) st)\<lparr>reg := db\<rparr>) \<and>
    insert_version now package (pb_desc p) (pb_version p) (pb_manifest p) (int (length (pb_bytes p)))
      (pb_integrity p) (Some (au_id user)) (merge_tags package (pb_tags p) (reg st)) (reg st) = (Inr (), db)"
proof -
  obtain r db where i: "insert_version now package (pb_desc p) (pb_version p) (pb_manifest p) (int (length (pb_bytes p)))
      (pb_integrity p) (Some (au_id user)) (merge_tags package (pb_tags p) (reg st)) (reg st) = (r, db)" by fastforce
  then have "r = Inr ()" using insert_version_fresh [OF assms(3) i] by simp
  then show ?thesis using i by (simp add: publish_eq [OF assms(1,2)] Let_def)
qed

lemma publish_conflict:
  assumes "validate_package_name package = Inr ()" "read_publication E hs package body = Inr p"
    and "version_by_id package (pb_version p) (reg st) \<noteq> None"
  shows "handle_publish E now user hs package body st =
    (Inl (Conflict (Te ''errors.npm.already_published'' [(''name'', package), (''version'', pb_version p)])),
     write_tarball package (pb_file p) (pb_bytes p) st)"
proof -
  have "contains_str version_unique ''UNIQUE''"
    by (simp add: version_unique_def contains_str_def starts_with_def)
  then show ?thesis
    using assms by (auto simp: publish_eq insert_version_def Let_def write_tarball_def split: option.splits)
qed

text \<open>Serving a stored tarball.\<close>

lemma serve_stored:
  assumes "validate_package_name p = Inr ()" "version_by_id p v (reg st) = Some r" "nv_size r \<noteq> 0"
    and "\<not> is_unpublished p (reg st)" "tarballs st (p, tarball_filename p v) = Some b"
  shows "serve_tarball E now [] p (tarball_filename p v) st = (Inr (TarballBody (quoted (nv_sha r)) b), st)"
  using assms
  by (simp add: serve_tarball_def tarball_version_filename lookup_tarball_def Let_def if_none_match_matches_def open_tarball_stream_def)


lemma load_manifest_stored:
  "version_by_id p v db = Some r \<Longrightarrow> \<not> is_unpublished p db \<Longrightarrow> load_version_manifest p v db = Some (nv_manifest r)"
  by (simp add: load_version_manifest_def)

lemma is_unpublished_row: "package_by_name p db = Some q \<Longrightarrow> np_unpublished q = None \<Longrightarrow> \<not> is_unpublished p db"
  by (simp add: is_unpublished_def)

text \<open>A package all versions of which others published.\<close>

definition foreign_package :: "auth_user \<Rightarrow> string \<Rightarrow> registry \<Rightarrow> bool" where
  "foreign_package user p db \<longleftrightarrow> (\<exists>r \<in> set (versions db). nv_package r = p) \<and>
     (\<forall>r \<in> set (versions db). nv_package r = p \<longrightarrow> (\<exists>u. nv_publisher r = Some u \<and> u \<noteq> au_id user))"

lemma foreign_denied:
  assumes "foreign_package user p db" "\<not> global_at_least (au_global user) Admin"
  shows "require_can_modify user p v db = Inl Unauthorized"
proof (cases v)
  case None
  have "list_ex (\<lambda>r. nv_package r = p \<and> nv_publisher r \<noteq> None) (versions db)"
    "\<not> list_ex (\<lambda>r. nv_package r = p \<and> nv_publisher r = Some (au_id user)) (versions db)"
    using assms(1) unfolding foreign_package_def list_ex_iff by force+
  then show ?thesis using assms(2) None by (simp add: require_can_modify_def)
next
  case (Some w)
  have "r \<in> set (versions db) \<and> nv_package r = p" if "version_by_id p w db = Some r" for r
    using sql_first_Some that unfolding version_by_id_def by fastforce
  then show ?thesis using assms Some by (fastforce simp: require_can_modify_def foreign_package_def split: option.split)
qed

lemma and_then_Inl: "x = Inl e \<Longrightarrow> and_then x f = Inl e"
  by simp

lemma denied_ops:
  assumes "require_can_modify user p None (reg st) = Inl e" "\<And>v. require_can_modify user p (Some v) (reg st) = Inl e"
  shows "\<exists>e. handle_set_dist_tag E now user p tag body st = (Inl e, st)"
    "\<exists>e. handle_remove_dist_tag now user p tag st = (Inl e, st)"
    "\<exists>e. handle_delete_package now user p st = (Inl e, st)"
    "\<exists>e. handle_delete_version now user p file st = (Inl e, st)"
    "\<exists>e. handle_deprecate E now user p body st = (Inl e, st)"
  by (simp_all add: handle_set_dist_tag_def handle_remove_dist_tag_def handle_delete_package_def
      handle_delete_version_def handle_deprecate_def and_then_def assms split: sum.split)

lemma evict_fold:
  "reg (fold evict es st) = mark_all es (reg st) \<and>
   tarballs (fold evict es st) = (\<lambda>k. if k \<in> (\<lambda>(p, v, f). (p, f)) ` set es then None else tarballs st k)"
  by (induction es arbitrary: st) (auto simp: evict_def delete_tarball_def fun_eq_iff)

lemma sorted_take_drop:
  "sorted_wrt (\<le>) (map f xs) \<Longrightarrow> a \<in> set (take k xs) \<Longrightarrow> b \<in> set (drop k xs) \<Longrightarrow> f a \<le> (f b :: 'b :: linorder)"
proof -
  assume "sorted_wrt (\<le>) (map f xs)" and m: "a \<in> set (take k xs)" "b \<in> set (drop k xs)"
  then have "sorted_wrt (\<le>) (map f (take k xs) @ map f (drop k xs))" by (simp only: map_append [symmetric] append_take_drop_id)
  then show ?thesis using m by (auto simp: sorted_wrt_append)
qed

lemma evicted_oldest:
  assumes "a \<in> set (take k (candidates db))" "b \<in> set (candidates db)" "b \<notin> set (take k (candidates db))"
  shows "nv_at a \<le> nv_at b"
proof -
  have "set (candidates db) = set (take k (candidates db)) \<union> set (drop k (candidates db))"
    by (simp only: set_append [symmetric] append_take_drop_id)
  then have "b \<in> set (drop k (candidates db))" using assms(2,3) by blast
  moreover have "sorted_wrt (\<le>) (map nv_at (candidates db))" by (simp add: candidates_def)
  ultimately show ?thesis using sorted_take_drop [of nv_at "candidates db" a k b] assms(1) by simp
qed

lemma candidates_iff: "r \<in> set (candidates db) \<longleftrightarrow> r \<in> set (versions db) \<and> is_cached db r \<and> 0 < nv_size r"
  by (simp add: candidates_def)

section \<open>Properties\<close>


text \<open>publishing a version that exists is refused with a conflict, but its tarball has been replaced by
  then: the refused bytes are what the registry serves for that version from there on, under the hash of
  the published ones.\<close>

theorem republish_replaces_tarball:
  assumes "validate_package_name package = Inr ()" "read_publication E hs package body = Inr p"
    and "version_by_id package (pb_version p) (reg st) = Some r" "nv_size r \<noteq> 0" "\<not> is_unpublished package (reg st)"
  shows "\<exists>st'. handle_publish E now user hs package body st =
      (Inl (Conflict (Te ''errors.npm.already_published'' [(''name'', package), (''version'', pb_version p)])), st') \<and>
    reg st' = reg st \<and>
    serve_tarball E' now' [] package (tarball_filename package (pb_version p)) st' =
      (Inr (TarballBody (quoted (nv_sha r)) (pb_bytes p)), st')"
proof -
  let ?st = "write_tarball package (pb_file p) (pb_bytes p) st"
  have v: "version_by_id package (pb_version p) (reg st) \<noteq> None" using assms(3) by simp
  have "tarballs ?st (package, tarball_filename package (pb_version p)) = Some (pb_bytes p)" "reg ?st = reg st"
    using read_publication_Inr [OF assms(2)] by (simp_all add: write_tarball_def)
  then show ?thesis
    using publish_conflict [OF assms(1,2) v] serve_stored [OF assms(1), of "pb_version p" ?st r "pb_bytes p" E' now'] assms(3-5)
    by (intro exI [of _ ?st]) simp
qed

text \<open>a user who is no administrator cannot tag, untag, unpublish or deprecate a package all versions of
  which others published: the request fails and changes nothing.\<close>

theorem only_publishers_modify:
  assumes "foreign_package user p (reg st)" "\<not> global_at_least (au_global user) Admin"
  shows "(\<exists>e. handle_set_dist_tag E now user p tag body st = (Inl e, st)) \<and>
    (\<exists>e. handle_remove_dist_tag now user p tag st = (Inl e, st)) \<and>
    (\<exists>e. handle_delete_package now user p st = (Inl e, st)) \<and>
    (\<exists>e. handle_delete_version now user p file st = (Inl e, st)) \<and>
    (\<exists>e. handle_deprecate E now user p body st = (Inl e, st))"
  using denied_ops [OF foreign_denied foreign_denied, OF assms assms] by blast

text \<open>publishing has no such check: any authenticated user, whoever owns the package, can publish a new
  version of it and thereby move the tag every plain install follows to it.\<close>

theorem anyone_moves_latest:
  assumes "validate_package_name package = Inr ()" "read_publication E hs package body = Inr p"
    and "\<not> has_version (reg st) package (pb_version p)" "pb_tags p = [(''latest'', pb_version p)]"
  shows "\<exists>st' ts. handle_publish E now user hs package body st = (Inr (), st') \<and>
    load_dist_tags package (reg st') = Some ts \<and> map_of ts ''latest'' = Some (pb_version p)"
proof -
  have fresh: "version_by_id package (pb_version p) (reg st) = None" using assms(3) version_by_id_iff by blast
  obtain db where db: "handle_publish E now user hs package body st = (Inr (), (write_tarball package (pb_file p) (pb_bytes p) st)\<lparr>reg := db\<rparr>)"
    "insert_version now package (pb_desc p) (pb_version p) (pb_manifest p) (int (length (pb_bytes p)))
      (pb_integrity p) (Some (au_id user)) (merge_tags package (pb_tags p) (reg st)) (reg st) = (Inr (), db)"
    using publish_fresh [OF assms(1,2) fresh] by blast
  obtain q where q: "package_by_name package db = Some q" "np_tags q = json_of_map (merge_tags package (pb_tags p) (reg st))"
    "np_unpublished q = None" using insert_version_fresh [OF fresh db(2)] by blast
  have "map_of (merge_tags package (pb_tags p) (reg st)) ''latest'' = Some (pb_version p)"
    by (simp add: merge_tags_def assms(4) tags.ins_all_def lookup_bt_insert_any)
  then show ?thesis
    using db(1) q is_unpublished_row [OF q(1,3)] by (intro exI conjI) (auto simp: load_dist_tags_def)
qed

text \<open>C25: the periodic eviction brings the cache under its cap by dropping cached tarballs oldest first, and
  touches neither a row nor a file of a package that is not cached from upstream.\<close>

theorem gc_respects_cap:
  assumes "px_enabled (load_config st)" "px_max_mb (load_config st) \<noteq> 0" "0 \<le> max_bytes (load_config st)"
    and "distinct (map version_key (versions (reg st)))" "\<forall>r \<in> set (versions (reg st)). 0 \<le> nv_size r"
    and "run_gc st = (n, st')"
  shows "cache_size (reg st') \<le> max_bytes (load_config st) \<and> packages (reg st') = packages (reg st) \<and>
    (\<exists>K. versions (reg st') = map (\<lambda>r. if version_key r \<in> K then marked r else r) (versions (reg st)) \<and>
       (\<forall>r \<in> set (versions (reg st)). version_key r \<in> K \<longrightarrow> is_cached (reg st) r \<and>
          (\<forall>q \<in> set (versions (reg st)). is_cached (reg st) q \<and> 0 < nv_size q \<and> version_key q \<notin> K \<longrightarrow> nv_at r \<le> nv_at q))) \<and>
    (\<forall>p f. \<not> list_ex (\<lambda>q. np_name q = p \<and> np_proxy q) (packages (reg st)) \<longrightarrow> tarballs st' (p, f) = tarballs st (p, f))"
proof -
  let ?mb = "max_bytes (load_config st)" and ?c = "candidates (reg st)"
  obtain k where k: "pick_proxy_evictions ?mb (reg st) = map eviction (take k ?c)" using pick_take by blast
  have st': "st' = fold evict (map eviction (take k ?c)) st" using assms(1,2,6) k by (simp add: run_gc_def Let_def)
  have r: "reg st' = mark_all (map eviction (take k ?c)) (reg st)" and t: "tarballs st' =
      (\<lambda>x. if x \<in> (\<lambda>(p, v, f). (p, f)) ` set (map eviction (take k ?c)) then None else tarballs st x)"
    unfolding st' using evict_fold by blast+
  let ?K = "version_key ` set (take k ?c)"
  have vs: "reg st' = (reg st)\<lparr>versions := map (\<lambda>r. if version_key r \<in> ?K then marked r else r) (versions (reg st))\<rparr>"
    unfolding r mark_all_eq ..
  have inj: "inj_on version_key (set (versions (reg st)))" using assms(4) by (simp add: distinct_map)
  have sub: "x \<in> set (versions (reg st)) \<and> is_cached (reg st) x \<and> 0 < nv_size x" if "x \<in> set (take k ?c)" for x
    using in_set_takeD [OF that] by (simp add: candidates_iff)
  have mem: "x \<in> set (take k ?c)" if "x \<in> set (versions (reg st))" "version_key x \<in> ?K" for x
    using that sub inj by (auto dest: inj_onD)
  have "is_cached (reg st) x \<and> (\<forall>q \<in> set (versions (reg st)).
      is_cached (reg st) q \<and> 0 < nv_size q \<and> version_key q \<notin> ?K \<longrightarrow> nv_at x \<le> nv_at q)"
    if "x \<in> set (versions (reg st))" "version_key x \<in> ?K" for x
    using mem [OF that] sub evicted_oldest [of x k "reg st"] by (auto simp: candidates_iff)
  moreover have "tarballs st' (p, f) = tarballs st (p, f)"
    if "\<not> list_ex (\<lambda>q. np_name q = p \<and> np_proxy q) (packages (reg st))" for p f
    using that sub unfolding t by (auto simp: eviction_def is_cached_def)
  moreover have "cache_size (reg st') \<le> ?mb"
    using evictions_suffice [OF assms(4) _ assms(3)] assms(5) k r by simp
  ultimately show ?thesis unfolding vs by (intro conjI exI [of _ ?K]) auto
qed


section \<open>Unpublished packages and the proxy\<close>

lemma sql_first_conj: "sql_first P t = Some r \<Longrightarrow> Q r \<Longrightarrow> sql_first (\<lambda>r. P r \<and> Q r) t = Some r"
  by (induction t) (auto simp: sql_simps split: if_splits)

lemma package_after_upd:
  "(\<And>r. np_name (f r) = np_name r) \<Longrightarrow> package_by_name p (upd_package p f db) = map_option f (package_by_name p db)"
  by (simp add: package_by_name_def upd_package_def sql_first_update_key)

lemma package_versions [simp]: "package_by_name p (db\<lparr>versions := vs\<rparr>) = package_by_name p db"
  by (simp add: package_by_name_def)

lemma deleted_not_loaded: "load_packument fmt p (snd (delete_package now p db)) = None"
  by (simp add: delete_package_def load_packument_def package_after_upd split: option.split)

lemma upsert_row:
  "\<exists>r. package_by_name p (upsert_proxy_packument now p body etag db) = Some r \<and> np_proxy r \<and> np_blob r = Some body \<and>
     np_unpublished r = None \<and> np_fetched r = Some now \<and> np_etag r = etag"
proof (cases "package_by_name p db")
  case None
  then show ?thesis
    by (simp add: upsert_proxy_packument_def Let_def package_by_name_def sql_first_append sql_simps new_package_def)
qed (simp add: upsert_proxy_packument_def Let_def package_after_upd)

lemma upserted_loaded:
  assumes "db = upsert_proxy_packument now p body etag db0"
  shows "\<exists>k. load_packument fmt p db = Some k \<and> pk_versions k = obj_or ''versions'' body \<and> pk_proxy k"
    and "load_proxy_state p db = Some (etag, now)"
proof -
  obtain r where r: "package_by_name p db = Some r" "np_proxy r" "np_blob r = Some body"
    "np_unpublished r = None" "np_fetched r = Some now" "np_etag r = etag" using upsert_row assms by blast
  have "sql_first (\<lambda>r. np_name r = p \<and> np_proxy r \<and> np_unpublished r = None \<and> np_blob r \<noteq> None) (packages db) = Some r"
    using r by (intro sql_first_conj) (simp_all add: package_by_name_def)
  then show "\<exists>k. load_packument fmt p db = Some k \<and> pk_versions k = obj_or ''versions'' body \<and> pk_proxy k"
    using r by (simp add: load_packument_def load_proxy_packument_from_blob_def Let_def)
  have "sql_first (\<lambda>r. np_name r = p \<and> np_proxy r) (packages db) = Some r"
    using r by (intro sql_first_conj) (simp_all add: package_by_name_def)
  then show "load_proxy_state p db = Some (etag, now)" using r by (simp add: load_proxy_state_def)
qed

lemma delete_tarballs_reg: "reg (fold (\<lambda>r. delete_tarball (rt_package r) (rt_filename r)) rs st) = reg st \<and>
    settings (fold (\<lambda>r. delete_tarball (rt_package r) (rt_filename r)) rs st) = settings st"
  by (induction rs arbitrary: st) (simp_all add: delete_tarball_def)

lemma delete_package_state:
  "handle_delete_package now user p st = (Inr u, st1) \<Longrightarrow>
   validate_package_name p = Inr () \<and> reg st1 = snd (delete_package now p (reg st)) \<and> settings st1 = settings st"
  by (auto simp: handle_delete_package_def and_then_eq_Inr Let_def delete_tarballs_reg
      split: sum.splits prod.splits if_splits)

text \<open>unpublishing leaves a tombstone so that the package answers 404, but with the proxy enabled the
  next read of a package someone else holds upstream under the same name lifts it: the registry then
  serves the upstream versions under the name of the unpublished private package.\<close>

theorem unpublished_name_taken_over:
  assumes "handle_delete_package now user p st = (Inr u, st1)" "px_enabled (load_config st)"
    and "fetch_packument E (px_url (load_config st)) p (wants_abbreviated hs) = Inr (Some up)"
  shows "\<exists>reply st2 k. serve_packument E now' hs p st1 = (Inr reply, st2) \<and>
    load_packument (show_time E) p (reg st2) = Some k \<and> pk_proxy k \<and> pk_versions k = obj_or ''versions'' (up_body up)"
proof -
  note d = delete_package_state [OF assms(1)]
  have cfg: "load_config st1 = load_config st" using d by (simp add: load_config_def)
  let ?db = "upsert_proxy_packument now' p (up_body up) (up_etag up) (reg st1)"
  obtain k where k: "load_packument (show_time E) p ?db = Some k" "pk_versions k = obj_or ''versions'' (up_body up)" "pk_proxy k"
    using upserted_loaded(1) [OF refl] by blast
  have "load_packument (show_time E) p (reg st1) = None" using d deleted_not_loaded by simp
  then have f: "fill_miss E now' hs p st1 = (Inr (Some k), st1\<lparr>reg := ?db\<rparr>)"
    using assms(2,3) k(1) by (simp add: fill_miss_def cfg Let_def)
  have "load_config (st1\<lparr>reg := ?db\<rparr>) = load_config st" using cfg by (simp add: load_config_def)
  then have v: "revalidate E now' hs p k (st1\<lparr>reg := ?db\<rparr>) = (k, st1\<lparr>reg := ?db\<rparr>)"
    using upserted_loaded(2) [OF refl, of p now' "up_body up" "up_etag up" "reg st1"] by (simp add: revalidate_def Let_def)
  show ?thesis using conjunct1 [OF d] k by (simp add: serve_packument_def f v Let_def)
qed


section \<open>The registry as a transition system\<close>

text \<open>A publish whose tags name the version it publishes or versions there are.\<close>

definition honest :: "npm_env \<Rightarrow> headers \<Rightarrow> string \<Rightarrow> string \<Rightarrow> npm_state \<Rightarrow> bool" where
  "honest E hs package body st \<longleftrightarrow> (\<forall>p. read_publication E hs package body = Inr p \<longrightarrow>
     (\<forall>(t, w) \<in> set (pb_tags p). w = pb_version p \<or> has_version (reg st) package w))"

inductive npm_step :: "npm_state \<Rightarrow> npm_state \<Rightarrow> bool" where
  publish: "honest E hs package body st \<Longrightarrow> npm_step st (snd (handle_publish E now user hs package body st))"
| tag: "npm_step st (snd (handle_set_dist_tag E now user package t body st))"
| untag: "npm_step st (snd (handle_remove_dist_tag now user package t st))"
| unpublish: "npm_step st (snd (handle_delete_package now user package st))"
| unpublish_version: "npm_step st (snd (handle_delete_version now user package file st))"
| deprecate: "npm_step st (snd (handle_deprecate E now user package body st))"
| read: "npm_step st (snd (serve_packument E now hs package st))"
| install: "npm_step st (snd (serve_tarball E now hs package file st))"
| collect: "npm_step st (snd (run_gc st))"
| orphans: "npm_step st (gc_orphans st)"
| uploaded: "npm_step st (upload_finished package file st)"
| pin: "npm_step st (st\<lparr>reg := snd (toggle_pinned package (reg st))\<rparr>)"

inductive_cases npm_stepE: "npm_step st st'"

lemma ins_all_from: "map_of (tags.ins_all kvs m) t = Some w \<Longrightarrow> w \<in> snd ` set kvs \<or> map_of m t = Some w"
proof (induction kvs arbitrary: m)
  case (Cons kv kvs)
  obtain k v where kv: "kv = (k, v)" by (cases kv)
  have "map_of (tags.ins_all kvs (bt_insert k v m)) t = Some w" using Cons.prems kv by (simp add: tags.ins_all_def)
  from Cons.IH [OF this] show ?case by (auto simp: kv lookup_bt_insert_any split: if_splits)
qed (simp add: tags.ins_all_def)

lemma publish_inv:
  assumes iv: "registry_inv (reg st)" and "honest E hs package body st"
  shows "registry_inv (reg (snd (handle_publish E now user hs package body st)))"
proof (cases "and_then (validate_package_name package) (\<lambda>_. read_publication E hs package body)")
  case (Inr p)
  then have p: "validate_package_name package = Inr ()" "read_publication E hs package body = Inr p"
    by (auto simp: and_then_eq_Inr)
  let ?ts = "merge_tags package (pb_tags p) (reg st)"
  have "registry_inv (snd (insert_version now package (pb_desc p) (pb_version p) (pb_manifest p) (int (length (pb_bytes p)))
      (pb_integrity p) (Some (au_id user)) ?ts (reg st)))"
  proof (rule insert_version_inv [OF iv])
    assume np: "\<And>r. package_by_name package (reg st) = Some r \<Longrightarrow> \<not> np_proxy r"
    define old where "old = (case package_by_name package (reg st) of Some r \<Rightarrow> stored_tags (np_tags r) | None \<Rightarrow> [])"
    have o: "bt_ok old \<and> (\<forall>t w. map_of old t = Some w \<longrightarrow> has_version (reg st) package w)"
      using stored_sound [OF iv _ np] by (auto simp: old_def split: option.split)
    have "w = pb_version p \<or> has_version (reg st) package w" if "map_of ?ts t = Some w" for t w
      using ins_all_from [of "pb_tags p" old t w] that o assms(2) p(2) by (force simp: merge_tags_def old_def honest_def)
    then show "bt_ok ?ts \<and> (\<forall>t w. map_of ?ts t = Some w \<longrightarrow> w = pb_version p \<or> has_version (reg st) package w)"
      using o tags.ok_ins_all [of old "pb_tags p"] by (auto simp: merge_tags_def old_def)
  qed
  then show ?thesis by (auto simp: publish_eq [OF p] Let_def split: prod.split sum.split)
qed (use iv in \<open>simp add: handle_publish_def\<close>)

lemma delete_tarball_reg [simp]: "reg (delete_tarball p f st) = reg st"
  by (simp add: delete_tarball_def)

lemma tag_inv: "registry_inv (reg st) \<Longrightarrow> registry_inv (reg (snd (handle_set_dist_tag E now user package t body st)))"
  using set_dist_tag_inv [of "reg st" now package t]
  by (auto simp: handle_set_dist_tag_def split: sum.split prod.split) (metis snd_conv)+

lemma untag_inv: "registry_inv (reg st) \<Longrightarrow> registry_inv (reg (snd (handle_remove_dist_tag now user package t st)))"
  using remove_dist_tag_inv [of "reg st" now package t]
  by (auto simp: handle_remove_dist_tag_def Let_def split: sum.split prod.split)

lemma unpublish_inv: "registry_inv (reg st) \<Longrightarrow> registry_inv (reg (snd (handle_delete_package now user package st)))"
  using delete_package_inv [of "reg st" now package]
  by (auto simp: handle_delete_package_def Let_def delete_tarballs_reg split: sum.split prod.split)

lemma unpublish_version_inv: "registry_inv (reg st) \<Longrightarrow> registry_inv (reg (snd (handle_delete_version now user package file st)))"
proof -
  assume iv: "registry_inv (reg st)"
  have d: "registry_inv db" if "delete_version now package v (reg st) = (x, db)" for v x db
    using delete_version_inv [OF iv, of now package v] that by simp
  then show ?thesis
    using iv by (auto simp: handle_delete_version_def Let_def split: sum.split prod.split option.split)
qed

lemma deprecate_inv: "registry_inv (reg st) \<Longrightarrow> registry_inv (reg (snd (handle_deprecate E now user package body st)))"
  by (auto simp: handle_deprecate_def Let_def deprecate_versions_inv split: sum.split option.split)

lemma fill_miss_inv: "registry_inv (reg st) \<Longrightarrow> registry_inv (reg (snd (fill_miss E now hs package st)))"
  by (auto simp: fill_miss_def Let_def upsert_proxy_inv split: option.split sum.split)

lemma revalidate_inv: "registry_inv (reg st) \<Longrightarrow> registry_inv (reg (snd (revalidate E now hs package k st)))"
  by (auto simp: revalidate_def Let_def upsert_proxy_inv touch_proxy_inv split: option.split sum.split refresh.split)

lemma read_inv: "registry_inv (reg st) \<Longrightarrow> registry_inv (reg (snd (serve_packument E now hs package st)))"
proof -
  assume iv: "registry_inv (reg st)"
  have f: "registry_inv (reg st1)" if "fill_miss E now hs package st = (r, st1)" for r st1
    using fill_miss_inv [OF iv, of E now hs package] that by simp
  have v: "registry_inv (reg st2)" if "revalidate E now hs package k st1 = (r, st2)" "registry_inv (reg st1)" for k st1 r st2
    using revalidate_inv [OF that(2), of E now hs package k] that(1) by simp
  show ?thesis
    using iv by (auto simp: serve_packument_def Let_def split: sum.split prod.split option.split dest: f v)
qed

lemma fetch_missing_inv: "registry_inv (reg st) \<Longrightarrow> registry_inv (reg (snd (fetch_missing E now package file v m st)))"
proof -
  assume iv: "registry_inv (reg st)"
  have f: "registry_inv db" if "finalize_proxy_tarball now package v sz sha (reg st) = (r, db)" for sz sha r db
    using finalize_inv [OF iv, of now package v sz sha] that by simp
  show ?thesis
    using iv by (auto simp: fetch_missing_def Let_def write_tarball_def dest: f
        split: sum.split prod.split option.split bool.split)
qed

lemma open_stream_reg [simp]: "reg (snd (open_tarball_stream E package file st)) = reg st"
  by (simp add: open_tarball_stream_def write_tarball_def split: option.split)

lemma open_stream_inv: "open_tarball_stream E package file st = (r, st') \<Longrightarrow> registry_inv (reg st) \<Longrightarrow> registry_inv (reg st')"
  using open_stream_reg [of E package "file" st] by simp

lemma install_inv: "registry_inv (reg st) \<Longrightarrow> registry_inv (reg (snd (serve_tarball E now hs package file st)))"
proof -
  assume iv: "registry_inv (reg st)"
  have f: "registry_inv (reg st1)" if "fetch_missing E now package file v m st = (r, st1)" for v m r st1
    using fetch_missing_inv [OF iv, of E now package "file" v m] that by simp
  show ?thesis
    using iv by (auto simp: serve_tarball_def Let_def dest: f open_stream_inv split: sum.split prod.split option.split)
qed

lemma gc_inv: "registry_inv (reg st) \<Longrightarrow> registry_inv (reg (snd (run_gc st)))"
proof -
  have "registry_inv (reg (fold evict es st))" if "registry_inv (reg st)" for es
    using that by (induction es arbitrary: st) (auto simp: evict_def mark_inv)
  then show "registry_inv (reg st) \<Longrightarrow> ?thesis" by (simp add: run_gc_def Let_def)
qed

lemma npm_step_inv: "npm_step st st' \<Longrightarrow> registry_inv (reg st) \<Longrightarrow> registry_inv (reg st')"
  by (erule npm_stepE)
    (auto simp: publish_inv tag_inv untag_inv unpublish_inv unpublish_version_inv deprecate_inv read_inv install_inv
      gc_inv gc_orphans_def upload_finished_def mark_inv toggle_pinned_inv split: option.split)

interpretation npm_runs: invariant_system npm_step "\<lambda>st. registry_inv (reg st)"
  by unfold_locales (rule npm_step_inv)

text \<open>C24: along every run of the registry in which publishes tag only the version they publish or versions
  there are, every tag of a package that is not cached from upstream names a published version; deleting
  a version, or a package, leaves no tag behind.\<close>

theorem dist_tags_sound:
  assumes "npm_step\<^sup>*\<^sup>* st st'" "registry_inv (reg st)" "package_by_name p (reg st') = Some r" "\<not> np_proxy r"
    and "map_of (stored_tags (np_tags r)) t = Some v"
  shows "version_by_id p v (reg st') \<noteq> None"
  using stored_sound(2) [OF npm_runs.run_inv [OF assms(1,2)] assms(3-5)] version_by_id_iff by blast


section \<open>Witnesses\<close>

definition sample_env :: npm_env where
  "sample_env = \<lparr>
     from_json = (\<lambda>_. Inr (JObj [(''_attachments'', JObj [(''n-1.tgz'', JObj [(''data'', JStr ''AQ=='')])]),
                                (''versions'', JObj [(''1'', JObj [])])])),
     to_json = (\<lambda>_. []), decode_b64 = (\<lambda>_. Inr [1]), integrity = (\<lambda>_. ''new''), etag_of = id, show_time = (\<lambda>_. []),
     upstream_get = (\<lambda>_ _ _. Inr (UpUpdated \<lparr>up_body = JObj [(''versions'', JObj [(''9'', JObj [])])], up_etag = None\<rparr>)),
     upstream_tarball = (\<lambda>_. Inr None), cold_get = (\<lambda>_. None)\<rparr>"

definition sample_stranger :: auth_user where
  "sample_stranger = \<lparr>au_id = ''eve'', au_username = ''eve'', au_role = ''user'', au_global = User, au_session = [], is_peer = False\<rparr>"

definition sample_row :: version_row where
  "sample_row = \<lparr>nv_package = ''n'', nv_version = ''1'', nv_manifest = JObj [], nv_size = 3, nv_sha = ''old'', nv_s3 = False,
     nv_publisher = Some ''ann'', nv_at = 0\<rparr>"

definition sample_registry :: registry where
  "sample_registry = \<lparr>packages = [new_package 0 ''n'' [] (json_of_map [(''latest'', ''1'')])], versions = [sample_row]\<rparr>"

definition sample_npm :: npm_state where
  "sample_npm = \<lparr>reg = sample_registry, tarballs = Map.empty, settings = [(''registry.proxy.enabled'', ''true'')]\<rparr>"

definition empty_npm :: npm_state where
  "empty_npm = \<lparr>reg = \<lparr>packages = [], versions = []\<rparr>, tarballs = Map.empty, settings = []\<rparr>"

lemma sample_name: "validate_package_name ''n'' = Inr ()"
  by code_simp

lemma sample_read: "\<exists>p. read_publication sample_env [] ''n'' body = Inr p \<and> pb_version p = ''1'' \<and> pb_bytes p = [1] \<and>
    pb_tags p = [(''latest'', ''1'')]"
proof -
  have "tarball_filename ''n'' ''1'' = ''n-1.tgz''" by code_simp
  then show ?thesis
    by (simp add: read_publication_def sample_env_def ok_or_def Let_def attachment_name_matches_def with_dist_def)
qed

lemma sample_row_found: "version_by_id ''n'' ''1'' (reg sample_npm) = Some sample_row"
  by (simp add: version_by_id_def sample_npm_def sample_registry_def sample_row_def sql_simps)

lemma sample_published: "\<not> is_unpublished ''n'' (reg sample_npm)"
  by (simp add: is_unpublished_def package_by_name_def sample_npm_def sample_registry_def new_package_def sql_simps)


lemma republish_replaces_tarball_witness:
  "\<exists>st'. reg (snd (handle_publish sample_env 5 sample_stranger [] ''n'' [] sample_npm)) = reg sample_npm \<and>
     serve_tarball sample_env 6 [] ''n'' (tarball_filename ''n'' ''1'') st' = (Inr (TarballBody (quoted ''old'') [1]), st')"
proof -
  obtain p where p: "read_publication sample_env [] ''n'' [] = Inr p" "pb_version p = ''1''" "pb_bytes p = [1]"
    using sample_read by blast
  from republish_replaces_tarball [OF sample_name p(1), of sample_npm sample_row 5 sample_stranger sample_env 6]
  show ?thesis using p sample_row_found sample_published by (auto simp: sample_row_def)
qed

lemma sample_foreign: "foreign_package sample_stranger ''n'' (reg sample_npm)"
  by (simp add: foreign_package_def sample_npm_def sample_registry_def sample_row_def sample_stranger_def)

lemma only_publishers_modify_witness:
  "\<exists>e. handle_delete_package 5 sample_stranger ''n'' sample_npm = (Inl e, sample_npm)"
proof -
  have "\<not> global_at_least (au_global sample_stranger) Admin" by code_simp
  from only_publishers_modify [OF sample_foreign this] show ?thesis by blast
qed

lemma anyone_moves_latest_witness:
  "\<exists>st' ts. handle_publish sample_env 5 sample_stranger [] ''n'' [] (sample_npm\<lparr>reg := sample_registry\<lparr>versions := [sample_row\<lparr>nv_version := ''0''\<rparr>]\<rparr>\<rparr>) =
     (Inr (), st') \<and> load_dist_tags ''n'' (reg st') = Some ts \<and> map_of ts ''latest'' = Some ''1''"
proof -
  obtain p where p: "read_publication sample_env [] ''n'' [] = Inr p" "pb_version p = ''1''" "pb_tags p = [(''latest'', ''1'')]"
    using sample_read by blast
  have "\<not> has_version (reg (sample_npm\<lparr>reg := sample_registry\<lparr>versions := [sample_row\<lparr>nv_version := ''0''\<rparr>]\<rparr>\<rparr>)) ''n'' ''1''"
    by (simp add: has_version_def sample_row_def)
  then show ?thesis using anyone_moves_latest [OF sample_name p(1)] p by simp
qed

lemma unpublished_name_taken_over_witness:
  "\<exists>st1 reply st2 k. handle_delete_package 5 (sample_stranger\<lparr>au_id := ''ann''\<rparr>) ''n'' sample_npm = (Inr (), st1) \<and>
     serve_packument sample_env 6 [] ''n'' st1 = (Inr reply, st2) \<and> load_packument (show_time sample_env) ''n'' (reg st2) = Some k \<and>
     pk_versions k = [(''9'', JObj [])]"
proof -
  have "require_can_modify (sample_stranger\<lparr>au_id := ''ann''\<rparr>) ''n'' None (reg sample_npm) = Inr ()"
    by (simp add: require_can_modify_def sample_npm_def sample_registry_def sample_row_def)
  then obtain st1 where d: "handle_delete_package 5 (sample_stranger\<lparr>au_id := ''ann''\<rparr>) ''n'' sample_npm = (Inr (), st1)"
    by (simp add: handle_delete_package_def sample_name delete_package_def Let_def sample_npm_def sample_registry_def sample_row_def)
  have "px_enabled (load_config sample_npm)" by (simp add: load_config_def sample_npm_def)
  moreover have "fetch_packument sample_env u ''n'' b = Inr (Some \<lparr>up_body = JObj [(''versions'', JObj [(''9'', JObj [])])], up_etag = None\<rparr>)" for u b
    by (simp add: fetch_packument_def fetch_packument_cond_def sample_env_def)
  ultimately have "\<exists>reply st2 k. serve_packument sample_env 6 [] ''n'' st1 = (Inr reply, st2) \<and>
     load_packument (show_time sample_env) ''n'' (reg st2) = Some k \<and> pk_proxy k \<and>
     pk_versions k = obj_or ''versions'' (JObj [(''versions'', JObj [(''9'', JObj [])])])"
    using unpublished_name_taken_over [OF d, of sample_env "[]"] by fastforce
  then show ?thesis using d by (auto simp: obj_or_def)
qed

lemma dist_tags_sound_witness:
  "version_by_id ''n'' ''1'' (reg (snd (handle_remove_dist_tag 5 sample_stranger ''n'' ''beta'' sample_npm))) \<noteq> None"
proof -
  let ?r = "new_package 0 ''n'' [] (json_of_map [(''latest'', ''1'')])"
  have iv: "registry_inv (reg sample_npm)"
    by (auto simp: registry_inv_def sample_npm_def sample_registry_def tags_sound_def new_package_def has_version_def
        sample_row_def bt_ok_def split: if_splits)
  have "reg (snd (handle_remove_dist_tag 5 sample_stranger ''n'' ''beta'' sample_npm)) = reg sample_npm"
    by (simp add: handle_remove_dist_tag_def sample_name require_can_modify_def sample_npm_def sample_registry_def sample_row_def
        sample_stranger_def)
  then have p: "package_by_name ''n'' (reg (snd (handle_remove_dist_tag 5 sample_stranger ''n'' ''beta'' sample_npm))) = Some ?r"
    by (simp add: package_by_name_def sample_npm_def sample_registry_def new_package_def sql_simps)
  have "\<not> np_proxy ?r" "map_of (stored_tags (np_tags ?r)) ''latest'' = Some ''1''" by (simp_all add: new_package_def)
  from dist_tags_sound [OF r_into_rtranclp [of npm_step, OF npm_step.untag] iv p this] show ?thesis .
qed

lemma gc_respects_cap_witness:
  "cache_size (reg (snd (run_gc (sample_npm\<lparr>settings := [(''registry.proxy.enabled'', ''true''), (''registry.proxy.max_cache_size_mb'', ''1'')]\<rparr>)))) \<le> 1048576"
proof -
  let ?st = "sample_npm\<lparr>settings := [(''registry.proxy.enabled'', ''true''), (''registry.proxy.max_cache_size_mb'', ''1'')]\<rparr>"
  have "parse_u64 ''1'' = Some 1"
    by (simp add: parse_u64_def parse_uint_def strip_prefix_def starts_with_def is_digit_def dec_val_def digit_val_def)
  then have c: "px_enabled (load_config ?st)" "px_max_mb (load_config ?st) = 1" by (simp_all add: load_config_def)
  then have m: "max_bytes (load_config ?st) = 1048576" by (simp add: max_bytes_def)
  obtain n st' where g: "run_gc ?st = (n, st')" by fastforce
  have "cache_size (reg st') \<le> max_bytes (load_config ?st)"
    by (rule gc_respects_cap [THEN conjunct1]) (use c m g in \<open>simp_all add: sample_npm_def sample_registry_def sample_row_def\<close>)
  then show ?thesis using g m by simp
qed

end
