(* ===== verification/Compose.thy ===== *)
theory Compose
  imports Prelude
begin

text \<open>
  The line-oriented rewriting of docker-compose files (\<open>deploy/mod.rs\<close>, used by every deploy path
  through \<open>docker/compose_service.rs\<close>): the scan of the \<open>services:\<close> block into the index ranges of
  its services, the injectors that splice lines into each range from the last to the first
  (\<open>env_file\<close>, \<open>extra_hosts\<close>, \<open>init\<close>, \<open>labels\<close>, \<open>ports\<close>), and the small parser that reads the
  services and their ports back.  The lemmas show that splicing by index is a block-by-block map of
  the file (locale \<open>block_editor\<close>), that each injector is idempotent, and what the parser reads
  from an injected file.  The text is a list of characters of the Latin-1 range; byte lengths are
  those of its UTF-8 encoding.
\<close>

section \<open>Lines, indentation and blocks\<close>

text \<open>\<open>str::len\<close>: the bytes of the UTF-8 encoding.\<close>

definition char_len :: "char \<Rightarrow> nat" where
  "char_len c = (if (of_char c :: nat) < 128 then 1 else 2)"

definition byte_len :: "string \<Rightarrow> nat" where
  "byte_len s = sum_list (map char_len s)"

definition indent_width :: "string \<Rightarrow> nat" where
  "indent_width line = byte_len line - byte_len (trim_start line)"

abbreviation blank :: "string \<Rightarrow> bool" where
  "blank line \<equiv> trim line = []"

definition pad :: "nat \<Rightarrow> string" where
  "pad n = replicate n (CHR '' '')"

text \<open>\<open>lines.join("\n")\<close>\<close>

fun join_nl :: "string list \<Rightarrow> string" where
  "join_nl [] = []"
| "join_nl [l] = l"
| "join_nl (l # m # ls) = l @ NL # join_nl (m # ls)"

text \<open>\<open>Iterator::position\<close>\<close>

fun position :: "('a \<Rightarrow> bool) \<Rightarrow> 'a list \<Rightarrow> nat option" where
  "position P [] = None"
| "position P (x # xs) = (if P x then Some 0 else map_option Suc (position P xs))"

text \<open>The range expression \<open>lines[a..b]\<close>.\<close>

definition line_range :: "nat \<Rightarrow> nat \<Rightarrow> 'a list \<Rightarrow> 'a list" where
  "line_range a b xs = drop a (take b xs)"

text \<open>Repeated \<open>lines.insert(at + i, new[i])\<close>, and \<open>splice(at..at, new)\<close>.\<close>

definition insert_lines :: "nat \<Rightarrow> 'a list \<Rightarrow> 'a list \<Rightarrow> 'a list" where
  "insert_lines at new xs = take at xs @ new @ drop at xs"

section \<open>The scan of the services block\<close>

definition services_line :: "string \<Rightarrow> bool" where
  "services_line l = (trim l = ''services:'' \<and> \<not> starts_with l '' '' \<and> \<not> starts_with l [CHR 0x09])"

text \<open>The indent of the first line under \<open>services:\<close> that is not blank; 0 when there is none.\<close>

definition service_indent :: "string list \<Rightarrow> nat" where
  "service_indent after =
     (case find (\<lambda>l. \<not> blank l) after of None \<Rightarrow> 0 | Some l \<Rightarrow> indent_width l)"

definition service_head :: "nat \<Rightarrow> string \<Rightarrow> bool" where
  "service_head si l = (indent_width l = si \<and> ends_with (trim l) '':'')"

text \<open>The loop over the lines after \<open>services:\<close>: \<open>i\<close> is the index of the line, \<open>current\<close> the start
  of the open range.\<close>

fun ranges_from :: "nat \<Rightarrow> nat \<Rightarrow> string list \<Rightarrow> nat option \<Rightarrow> (nat \<times> nat) list" where
  "ranges_from si i [] current = (case current of None \<Rightarrow> [] | Some s \<Rightarrow> [(s, i)])"
| "ranges_from si i (l # ls) current =
     (if blank l then ranges_from si (Suc i) ls current
      else if indent_width l = 0 then (case current of None \<Rightarrow> [] | Some s \<Rightarrow> [(s, i)])
      else if service_head si l then
        (case current of None \<Rightarrow> [] | Some s \<Rightarrow> [(s, i)]) @ ranges_from si (Suc i) ls (Some i)
      else ranges_from si (Suc i) ls current)"

text \<open>The service indent and the ranges, or \<open>None\<close> where the injectors return the text as it is.\<close>

definition service_scan :: "string list \<Rightarrow> (nat \<times> (nat \<times> nat) list) option" where
  "service_scan ls =
     (case position services_line ls of
        None \<Rightarrow> None
      | Some idx \<Rightarrow>
          (let after = drop (Suc idx) ls; si = service_indent after
           in if si = 0 then None else Some (si, ranges_from si (Suc idx) after None)))"

text \<open>The ranges are edited in reverse, so that earlier indices stay valid.\<close>

type_synonym range_edit = "nat \<Rightarrow> nat \<times> nat \<Rightarrow> string list \<Rightarrow> string list"

definition rewrite_ranges :: "range_edit \<Rightarrow> string list \<Rightarrow> string list option" where
  "rewrite_ranges edit ls =
     (case service_scan ls of
        None \<Rightarrow> None
      | Some (si, rs) \<Rightarrow> Some (fold (edit si) (rev rs) ls))"

text \<open>The indent of the properties of a service: that of the first line of its body that is
  indented more than the service.\<close>

definition prop_indent :: "nat \<Rightarrow> string list \<Rightarrow> nat" where
  "prop_indent si body =
     (case find (\<lambda>l. \<not> blank l \<and> si < indent_width l) body of
        None \<Rightarrow> si + 2 | Some l \<Rightarrow> indent_width l)"

text \<open>Insert before the blank lines that end the range, never before its first line.\<close>

fun insert_point :: "string list \<Rightarrow> nat \<Rightarrow> nat \<Rightarrow> nat" where
  "insert_point ls start 0 = 0"
| "insert_point ls start (Suc at) =
     (if start + 1 < Suc at \<and> blank (ls ! at) then insert_point ls start at else Suc at)"

section \<open>The injectors that append one property\<close>

text \<open>The shape the three share: a service that declares the property at its property indent is
  left alone, otherwise the lines go to the end of its range.\<close>

definition inject_property ::
  "(nat \<Rightarrow> string \<Rightarrow> bool) \<Rightarrow> (nat \<Rightarrow> string list) \<Rightarrow> range_edit" where
  "inject_property declares new si r ls =
     (case r of (start, end) \<Rightarrow>
       (let body = line_range (start + 1) end ls; pi = prop_indent si body
        in if \<exists>l \<in> set body. declares pi l then ls
           else insert_lines (insert_point ls start end) (new pi) ls))"

definition declares_env_file :: "nat \<Rightarrow> string \<Rightarrow> bool" where
  "declares_env_file pi l = (indent_width l = pi \<and> starts_with (trim_start l) ''env_file:'')"

definition env_file_lines :: "nat \<Rightarrow> string list" where
  "env_file_lines pi = [pad pi @ ''env_file:'', pad pi @ ''  - .env'']"

definition inject_env_file_into_services :: "string \<Rightarrow> string" where
  "inject_env_file_into_services yaml =
     (case rewrite_ranges (inject_property declares_env_file env_file_lines) (lines yaml) of
        None \<Rightarrow> yaml | Some out \<Rightarrow> join_nl out)"

definition declares_extra_hosts :: "nat \<Rightarrow> string \<Rightarrow> bool" where
  "declares_extra_hosts pi l = (indent_width l = pi \<and> starts_with (trim_start l) ''extra_hosts:'')"

definition extra_hosts_lines :: "(string \<times> string) list \<Rightarrow> nat \<Rightarrow> string list" where
  "extra_hosts_lines hosts pi =
     (pad pi @ ''extra_hosts:'') #
     map (\<lambda>(host, ip). pad pi @ ''  - '' @ [CHR 0x22] @ host @ '':'' @ ip @ [CHR 0x22]) hosts"

definition inject_mesh_extra_hosts_into_services ::
  "string \<Rightarrow> (string \<times> string) list \<Rightarrow> string" where
  "inject_mesh_extra_hosts_into_services yaml hosts =
     (if hosts = [] then yaml
      else (case rewrite_ranges (inject_property declares_extra_hosts (extra_hosts_lines hosts))
                  (lines yaml) of
              None \<Rightarrow> yaml | Some out \<Rightarrow> join_nl out))"

definition declares_init :: "nat \<Rightarrow> string \<Rightarrow> bool" where
  "declares_init pi l = (indent_width l = pi \<and> starts_with (trim l) ''init:'')"

definition init_lines :: "nat \<Rightarrow> string list" where
  "init_lines pi = [pad pi @ ''init: true'']"

definition inject_init_into_services :: "string \<Rightarrow> string" where
  "inject_init_into_services yaml =
     (case rewrite_ranges (inject_property declares_init init_lines) (lines yaml) of
        None \<Rightarrow> yaml
      | Some out \<Rightarrow> join_nl out @ (if ends_with yaml [NL] then [NL] else []))"

section \<open>Labels\<close>

definition label_lines :: "bool \<Rightarrow> nat \<Rightarrow> string \<Rightarrow> string \<Rightarrow> string list" where
  "label_lines is_list n service_id catalog_id =
     (if is_list
      then [pad n @ ''- '' @ [CHR 0x22] @ ''pier.service.id='' @ service_id @ [CHR 0x22],
            pad n @ ''- '' @ [CHR 0x22] @ ''pier.catalog.id='' @ catalog_id @ [CHR 0x22]]
      else [pad n @ ''pier.service.id: '' @ [CHR 0x22] @ service_id @ [CHR 0x22],
            pad n @ ''pier.catalog.id: '' @ [CHR 0x22] @ catalog_id @ [CHR 0x22]])"

text \<open>The indent of the first child of \<open>labels:\<close> and whether it is a list item.\<close>

definition labels_child :: "nat \<Rightarrow> string list \<Rightarrow> nat \<times> bool" where
  "labels_child pi below =
     (case find (\<lambda>l. \<not> blank l \<and> pi < indent_width l) below of
        None \<Rightarrow> (pi + 2, False)
      | Some l \<Rightarrow> (indent_width l, starts_with (trim_start l) ''- ''))"

definition inject_labels :: "string \<Rightarrow> string \<Rightarrow> range_edit" where
  "inject_labels service_id catalog_id si r ls =
     (case r of (start, end) \<Rightarrow>
       (let body = line_range (start + 1) end ls; pi = prop_indent si body
        in if \<exists>l \<in> set body. contains_str l ''pier.service.id'' then ls
           else (case position (\<lambda>l. indent_width l = pi \<and> trim l = ''labels:'') body of
                   Some rel \<Rightarrow>
                     (let at = start + 1 + rel;
                          (child, is_list) = labels_child pi (line_range (at + 1) end ls)
                      in insert_lines (at + 1) (label_lines is_list child service_id catalog_id) ls)
                 | None \<Rightarrow>
                     insert_lines (insert_point ls start end)
                       ((pad pi @ ''labels:'') # label_lines False (pi + 2) service_id catalog_id)
                       ls)))"

definition inject_pier_labels :: "string \<Rightarrow> string \<Rightarrow> string \<Rightarrow> string" where
  "inject_pier_labels yaml service_id catalog_id =
     (case rewrite_ranges (inject_labels service_id catalog_id) (lines yaml) of
        None \<Rightarrow> yaml | Some out \<Rightarrow> join_nl out)"

section \<open>Ports\<close>

text \<open>\<open>PortRow\<close>: the compose service, the container port, whether it is public, the host port and
  the public port, all ports \<open>u16\<close>.\<close>

record port_row =
  pr_service :: "string option"
  pr_container :: nat
  pr_public :: bool
  pr_host :: nat
  pr_public_port :: "nat option"

definition strip_ports_line :: "string \<Rightarrow> bool" where
  "strip_ports_line l =
     (trim l = ''ports:'' \<and> (starts_with l ''    '' \<or> starts_with l [CHR 0x09, CHR 0x09]))"

fun strip_ports_from :: "bool \<Rightarrow> string list \<Rightarrow> string list" where
  "strip_ports_from skip [] = []"
| "strip_ports_from skip (l # ls) =
     (if strip_ports_line l then strip_ports_from True ls
      else if skip \<and> starts_with (trim l) ''- '' then strip_ports_from True ls
      else l # strip_ports_from False ls)"

definition strip_compose_ports :: "string \<Rightarrow> string" where
  "strip_compose_ports yaml = join_nl (strip_ports_from False (lines yaml))"

text \<open>The block of an existing \<open>ports:\<close> list: it ends at the first line that is not blank and not
  deeper, less the blank lines at its end.\<close>

fun ports_scan :: "string list \<Rightarrow> nat \<Rightarrow> nat \<Rightarrow> nat \<Rightarrow> nat" where
  "ports_scan ls pi 0 at = at"
| "ports_scan ls pi (Suc left) at =
     (if \<not> blank (ls ! at) \<and> indent_width (ls ! at) \<le> pi then at
      else ports_scan ls pi left (Suc at))"

definition find_dash_list_ports_block ::
  "string list \<Rightarrow> nat \<Rightarrow> nat \<Rightarrow> nat \<Rightarrow> (nat \<times> nat) option" where
  "find_dash_list_ports_block ls search_start search_end pi =
     (case position (\<lambda>l. trim l = ''ports:'' \<and> indent_width l = pi)
             (line_range search_start search_end ls) of
        None \<Rightarrow> None
      | Some rel \<Rightarrow>
          (let ports_start = search_start + rel;
               ports_end = ports_scan ls pi (search_end - (ports_start + 1)) (ports_start + 1)
           in Some (ports_start, insert_point ls ports_start ports_end)))"

text \<open>The binding lines of a service: the first row of each container port.\<close>

fun first_rows :: "nat list \<Rightarrow> port_row list \<Rightarrow> port_row list" where
  "first_rows seen [] = []"
| "first_rows seen (r # rs) =
     (if pr_container r \<in> set seen then first_rows seen rs
      else r # first_rows (pr_container r # seen) rs)"

definition port_line :: "nat \<Rightarrow> port_row \<Rightarrow> string list" where
  "port_line pi r =
     (if pr_public r
      then (case pr_public_port r of
              None \<Rightarrow> []
            | Some pp \<Rightarrow> [pad (pi + 2) @ ''- '' @ [CHR 0x22] @ ''0.0.0.0:'' @ dec pp @ '':'' @
                           dec (pr_container r) @ [CHR 0x22]])
      else [pad (pi + 2) @ ''- '' @ [CHR 0x22] @ ''127.0.0.1:'' @ dec (pr_host r) @ '':'' @
             dec (pr_container r) @ [CHR 0x22]])"

definition port_lines :: "nat \<Rightarrow> port_row list \<Rightarrow> string list" where
  "port_lines pi rows = concat (map (port_line pi) (first_rows [] rows))"

definition service_name :: "string \<Rightarrow> string" where
  "service_name l = trim (trim_chars_end (\<lambda>c. c = CHR '':'') (trim l))"

definition rows_of_service :: "bool \<Rightarrow> string \<Rightarrow> port_row list \<Rightarrow> port_row list" where
  "rows_of_service only_one name =
     filter (\<lambda>r. case pr_service r of Some n \<Rightarrow> n = name | None \<Rightarrow> only_one)"

definition inject_ports :: "bool \<Rightarrow> port_row list \<Rightarrow> range_edit" where
  "inject_ports only_one rows si r ls =
     (case r of (start, end) \<Rightarrow>
       (let svc_rows = rows_of_service only_one (service_name (ls ! start)) rows
        in if svc_rows = [] then ls
           else
             (let pi = prop_indent si (line_range (start + 1) end ls);
                  (ls', svc_end) =
                    (case find_dash_list_ports_block ls (start + 1) end pi of
                       None \<Rightarrow> (ls, end)
                     | Some (a, b) \<Rightarrow> (take a ls @ drop b ls, end - (b - a)));
                  new = port_lines pi svc_rows
              in if new = [] then ls'
                 else insert_lines (insert_point ls' start svc_end)
                        ((pad pi @ ''ports:'') # new) ls')))"

text \<open>The rewriting of the lines; \<open>None\<close> where the text is returned as it is.\<close>

definition inject_ports_lines :: "port_row list \<Rightarrow> string list \<Rightarrow> string list option" where
  "inject_ports_lines rows ls =
     (case service_scan ls of
        None \<Rightarrow> None
      | Some (si, rs) \<Rightarrow>
          if rs = [] then None
          else Some (fold (inject_ports (length rs = 1) rows si) (rev rs) ls))"

definition inject_ports_into_yaml :: "string \<Rightarrow> port_row list \<Rightarrow> string" where
  "inject_ports_into_yaml yaml rows =
     (case inject_ports_lines rows (lines yaml) of
        None \<Rightarrow> yaml
      | Some ls \<Rightarrow>
          (let out = join_nl ls
           in if ends_with yaml [NL] \<and> \<not> ends_with out [NL] then out @ [NL] else out))"

section \<open>The file as blocks\<close>

text \<open>The lines under \<open>services:\<close>: those before the first service, one block per service, and the
  rest from the first line that is neither blank nor indented.\<close>

definition top_level :: "string \<Rightarrow> bool" where
  "top_level l = (\<not> blank l \<and> indent_width l = 0)"

definition opens_block :: "nat \<Rightarrow> string \<Rightarrow> bool" where
  "opens_block si l = (\<not> blank l \<and> service_head si l)"

fun split_blocks :: "nat \<Rightarrow> string list \<Rightarrow> string list \<times> string list list \<times> string list" where
  "split_blocks si [] = ([], [], [])"
| "split_blocks si (l # ls) =
     (if top_level l then ([], [], l # ls)
      else (case split_blocks si ls of
              (p, bs, q) \<Rightarrow> if opens_block si l then ([], (l # p) # bs, q) else (l # p, bs, q)))"

fun offsets :: "nat \<Rightarrow> 'a list list \<Rightarrow> (nat \<times> nat) list" where
  "offsets i [] = []"
| "offsets i (b # bs) = (i, i + length b) # offsets (i + length b) bs"

text \<open>A line that neither opens a block nor ends the services.\<close>

definition inner :: "nat \<Rightarrow> string \<Rightarrow> bool" where
  "inner si l = (\<not> top_level l \<and> \<not> opens_block si l)"

definition block_ok :: "nat \<Rightarrow> string list \<Rightarrow> bool" where
  "block_ok si b =
     (case b of [] \<Rightarrow> False
      | h # body \<Rightarrow> \<not> top_level h \<and> opens_block si h \<and> list_all (inner si) body)"

lemma split_blocks_concat: "split_blocks si ls = (p, bs, q) \<Longrightarrow> ls = p @ concat bs @ q"
  by (induction ls arbitrary: p bs q) (auto split: if_splits prod.splits)

lemma split_blocks_parts:
  "split_blocks si ls = (p, bs, q) \<Longrightarrow>
   list_all (inner si) p \<and> list_all (block_ok si) bs \<and> (q = [] \<or> top_level (hd q))"
  by (induction ls arbitrary: p bs q)
     (auto simp: inner_def block_ok_def split: if_splits prod.splits)

lemma split_blocks_stop: "q = [] \<or> top_level (hd q) \<Longrightarrow> split_blocks si q = ([], [], q)"
  by (cases q) auto

lemma split_blocks_inner:
  "list_all (inner si) p \<Longrightarrow> split_blocks si ls = (p', bs, q) \<Longrightarrow>
   split_blocks si (p @ ls) = (p @ p', bs, q)"
  by (induction p) (auto simp: inner_def)

lemma split_blocks_block:
  "block_ok si b \<Longrightarrow> split_blocks si ls = ([], bs, q) \<Longrightarrow>
   split_blocks si (b @ ls) = ([], b # bs, q)"
  using split_blocks_inner by (cases b) (force simp: block_ok_def)+

lemma split_blocks_blocks:
  assumes "list_all (block_ok si) bs" "q = [] \<or> top_level (hd q)"
  shows "split_blocks si (concat bs @ q) = ([], bs, q)"
  using assms(1)
  by (induction bs) (auto simp: split_blocks_stop [OF assms(2)] intro: split_blocks_block)

lemma split_blocks_join:
  assumes "list_all (inner si) p" "list_all (block_ok si) bs" "q = [] \<or> top_level (hd q)"
  shows "split_blocks si (p @ concat bs @ q) = (p, bs, q)"
  using split_blocks_inner [OF assms(1) split_blocks_blocks [OF assms(2,3)]] by simp

text \<open>The ranges of the scan are the offsets of the blocks.\<close>

lemma ranges_from_blocks:
  "split_blocks si ls = (p, bs, q) \<Longrightarrow>
   ranges_from si i ls current =
     (case current of None \<Rightarrow> [] | Some s \<Rightarrow> [(s, i + length p)]) @ offsets (i + length p) bs"
proof (induction ls arbitrary: i current p bs q)
  case (Cons l ls)
  obtain p' bs' q' where sp: "split_blocks si ls = (p', bs', q')" by (metis prod_cases3)
  show ?case
    using Cons.prems Cons.IH [OF sp, of "Suc i" current] Cons.IH [OF sp, of "Suc i" "Some i"] sp
    by (auto simp: top_level_def opens_block_def split: if_splits option.splits)
qed (auto split: option.splits)

text \<open>What the scan yields, in terms of the blocks.\<close>

definition file_blocks ::
  "string list \<Rightarrow> (nat \<times> string list \<times> string list list \<times> string list) option" where
  "file_blocks ls =
     (case position services_line ls of
        None \<Rightarrow> None
      | Some idx \<Rightarrow>
          (let after = drop (Suc idx) ls; si = service_indent after
           in if si = 0 then None
              else (case split_blocks si after of
                      (p, bs, q) \<Rightarrow> Some (si, take (Suc idx) ls @ p, bs, q))))"

lemma position_Some: "position P xs = Some n \<Longrightarrow> n < length xs \<and> P (xs ! n) \<and> (\<forall>i < n. \<not> P (xs ! i))"
proof (induction xs arbitrary: n)
  case (Cons x xs)
  then show ?case by (auto simp: nth_Cons split: if_splits nat.splits)
qed simp

lemma position_append_found: "position P xs = Some n \<Longrightarrow> position P (xs @ ys) = Some n"
  by (induction xs arbitrary: n) (auto split: if_splits)

lemma position_take: "position P xs = Some n \<Longrightarrow> position P (take (Suc n) xs) = Some n"
  by (induction xs arbitrary: n) (auto split: if_splits)

lemma position_None: "position P xs = None \<longleftrightarrow> (\<forall>x \<in> set xs. \<not> P x)"
  by (induction xs) auto

lemma service_scan_blocks:
  "service_scan ls =
     map_option (\<lambda>(si, pre, bs, q). (si, offsets (length pre) bs)) (file_blocks ls)"
proof (cases "position services_line ls")
  case (Some idx)
  have "idx < length ls" using position_Some [OF Some] by simp
  then show ?thesis
    using Some ranges_from_blocks [of "service_indent (drop (Suc idx) ls)" "drop (Suc idx) ls"]
    by (auto simp: service_scan_def file_blocks_def Let_def min_def split: prod.splits)
qed (simp add: service_scan_def file_blocks_def)

text \<open>The parts of a file, and a file with the same first lines of its blocks.\<close>

lemma file_blocks_parts:
  assumes "file_blocks ls = Some (si, pre, bs, q)"
  shows "ls = pre @ concat bs @ q \<and> 0 < si \<and> list_all (block_ok si) bs \<and>
    (q = [] \<or> top_level (hd q)) \<and>
    (\<exists>idx. position services_line ls = Some idx \<and> Suc idx \<le> length pre \<and>
       list_all (inner si) (drop (Suc idx) pre))"
proof -
  obtain idx p where idx: "position services_line ls = Some idx"
    and sp: "split_blocks si (drop (Suc idx) ls) = (p, bs, q)"
    and pre: "pre = take (Suc idx) ls @ p" and si: "0 < si"
    using assms by (auto simp: file_blocks_def Let_def split: option.splits if_splits prod.splits)
  have "idx < length ls" using position_Some [OF idx] by simp
  then show ?thesis
    using idx si pre split_blocks_concat [OF sp] split_blocks_parts [OF sp]
    by (metis append.assoc append_eq_conv_conj append_take_drop_id length_append length_take
        less_eq_Suc_le min.absorb2 le_add1)
qed

lemma find_append:
  "find P (xs @ ys) = (case find P xs of None \<Rightarrow> find P ys | Some x \<Rightarrow> Some x)"
  by (induction xs) auto

lemma first_nonblank_heads:
  assumes "list_all (block_ok si) bs" "list_all (block_ok si) cs" "map hd cs = map hd bs"
  shows "find (\<lambda>l. \<not> blank l) (concat cs @ q) = find (\<lambda>l. \<not> blank l) (concat bs @ q)"
proof (cases bs)
  case (Cons b bs')
  then obtain c cs' where "cs = c # cs'" "hd c = hd b" using assms(3) by auto
  then show ?thesis
    using assms(1,2) Cons by (auto simp: block_ok_def opens_block_def split: list.splits)
qed (use assms(3) in simp)

lemma file_blocks_change:
  assumes f: "file_blocks ls = Some (si, pre, bs, q)"
    and ok: "list_all (block_ok si) cs" and heads: "map hd cs = map hd bs"
  shows "file_blocks (pre @ concat cs @ q) = Some (si, pre, cs, q)"
proof -
  obtain idx where ls: "ls = pre @ concat bs @ q" and idx: "position services_line ls = Some idx"
    and len: "Suc idx \<le> length pre" and inn: "list_all (inner si) (drop (Suc idx) pre)"
    and si: "0 < si" and okb: "list_all (block_ok si) bs" and q: "q = [] \<or> top_level (hd q)"
    using file_blocks_parts [OF f] by blast
  let ?new = "pre @ concat cs @ q"
  have "position services_line pre = Some idx"
    using position_take [OF idx] position_append_found [of services_line "take (Suc idx) pre"]
      len ls by (metis append_take_drop_id take_append diff_is_0_eq take0 append_Nil2)
  then have new: "position services_line ?new = Some idx" by (rule position_append_found)
  have dropn: "drop (Suc idx) (pre @ xs) = drop (Suc idx) pre @ xs" for xs using len by simp
  have "service_indent (drop (Suc idx) ls) = si"
    using f idx by (auto simp: file_blocks_def Let_def split: if_splits prod.splits)
  then have "service_indent (drop (Suc idx) pre @ concat bs @ q) = si"
    unfolding ls dropn .
  then have "service_indent (drop (Suc idx) ?new) = si"
    unfolding dropn service_indent_def find_append [of _ "drop (Suc idx) pre"]
      first_nonblank_heads [OF okb ok heads, of q] .
  then show ?thesis
    using new si split_blocks_join [OF inn ok q] len
    by (simp add: file_blocks_def Let_def dropn)
qed

subsection \<open>Splicing by index is a map over the blocks\<close>

text \<open>What an injector promises: the edit of the range of a block replaces that block by one that
  depends on the block alone, keeps its first line and adds only lines of a body; a second edit
  of a block changes nothing.\<close>

locale block_editor =
  fixes edit :: range_edit and block :: "nat \<Rightarrow> string list \<Rightarrow> string list"
    and tidy :: "nat \<Rightarrow> string list \<Rightarrow> bool"
  assumes edit_block:
      "\<And>si a b c. 0 < si \<Longrightarrow> block_ok si b \<Longrightarrow>
         edit si (length a, length a + length b) (a @ b @ c) = a @ block si b @ c"
    and block_ok_block: "\<And>si b. 0 < si \<Longrightarrow> block_ok si b \<Longrightarrow> block_ok si (block si b)"
    and head_kept: "\<And>si b. 0 < si \<Longrightarrow> block_ok si b \<Longrightarrow> hd (block si b) = hd b"
    and tidy_block: "\<And>si b. 0 < si \<Longrightarrow> block_ok si b \<Longrightarrow> tidy si b \<Longrightarrow> tidy si (block si b)"
    and block_idem:
      "\<And>si b. 0 < si \<Longrightarrow> block_ok si b \<Longrightarrow> tidy si b \<Longrightarrow> block si (block si b) = block si b"
begin

lemma fold_blocks:
  assumes "0 < si" "list_all (block_ok si) bs"
  shows "fold (edit si) (rev (offsets (length a) bs)) (a @ concat bs @ q) =
         a @ concat (map (block si) bs) @ q"
  using assms(2)
proof (induction bs arbitrary: a)
  case (Cons b bs)
  have "fold (edit si) (rev (offsets (length (a @ b)) bs)) ((a @ b) @ concat bs @ q) =
        (a @ b) @ concat (map (block si) bs) @ q"
    using Cons.IH [of "a @ b"] Cons.prems by simp
  then show ?case using edit_block [OF assms(1), of b a] Cons.prems by simp
qed simp

theorem rewrite_map:
  "rewrite_ranges edit ls =
     map_option (\<lambda>(si, pre, bs, q). pre @ concat (map (block si) bs) @ q) (file_blocks ls)"
proof (cases "file_blocks ls")
  case (Some f)
  obtain si pre bs q where f: "f = (si, pre, bs, q)" by (metis prod_cases4)
  have "ls = pre @ concat bs @ q" "0 < si" "list_all (block_ok si) bs"
    using file_blocks_parts [of ls] Some f by auto
  then show ?thesis
    using fold_blocks [of si bs pre q] Some f
    by (simp add: rewrite_ranges_def service_scan_blocks)
qed (simp add: rewrite_ranges_def service_scan_blocks)

text \<open>The rewritten file has the rewritten blocks.\<close>

lemma file_blocks_rewrite:
  assumes "file_blocks ls = Some (si, pre, bs, q)"
  shows "file_blocks (pre @ concat (map (block si) bs) @ q) = Some (si, pre, map (block si) bs, q)"
proof (rule file_blocks_change [OF assms])
  have ok: "0 < si" "list_all (block_ok si) bs" using file_blocks_parts [OF assms] by auto
  then show "list_all (block_ok si) (map (block si) bs)"
    by (simp add: list_all_iff block_ok_block)
  show "map hd (map (block si) bs) = map hd bs"
    using ok by (simp add: list_all_iff head_kept)
qed

theorem rewrite_idem:
  assumes "file_blocks ls = Some (si, pre, bs, q)" "list_all (tidy si) bs"
    "rewrite_ranges edit ls = Some out"
  shows "rewrite_ranges edit out = Some out"
proof -
  have ok: "0 < si" "list_all (block_ok si) bs" using file_blocks_parts [OF assms(1)] by auto
  have "out = pre @ concat (map (block si) bs) @ q" using assms(1,3) by (simp add: rewrite_map)
  moreover have "map (block si) (map (block si) bs) = map (block si) bs"
    using ok assms(2) by (simp add: list_all_iff block_idem)
  ultimately show ?thesis
    using file_blocks_rewrite [OF assms(1)] by (simp add: rewrite_map del: map_map)
qed

end

section \<open>Facts about lines\<close>

lemma byte_len_append [simp]: "byte_len (a @ b) = byte_len a + byte_len b"
  by (simp add: byte_len_def)

lemma byte_len_pad [simp]: "byte_len (pad n) = n"
  by (induction n) (simp_all add: byte_len_def pad_def char_len_def)

lemma pad_ws: "c \<in> set (pad n) \<Longrightarrow> is_ws c"
  by (auto simp: pad_def is_ws_def split: if_splits)

lemma trim_start_pad [simp]: "trim_start (pad n @ s) = trim_start s"
  by (simp add: trim_start_def dropWhile_append2 pad_ws)

lemma trim_pad [simp]: "trim (pad n @ s) = trim s"
  by (simp add: trim_def)

lemma indent_pad [simp]: "\<not> is_ws c \<Longrightarrow> indent_width (pad n @ c # s) = n"
  by (simp add: indent_width_def) (simp add: trim_start_def)

lemma byte_len_trim_start: "byte_len (trim_start s) \<le> byte_len s"
  by (induction s) (auto simp: byte_len_def trim_start_def)

lemma indent_pad_ge: "n \<le> indent_width (pad n @ s)"
  using byte_len_trim_start [of s] by (simp add: indent_width_def)

text \<open>A line indented by more than a service is a line of its body.\<close>

lemma deeper_inner: "0 < si \<Longrightarrow> si < indent_width l \<Longrightarrow> inner si l"
  by (simp add: inner_def top_level_def opens_block_def service_head_def)

lemma blank_inner: "blank l \<Longrightarrow> inner si l"
  by (simp add: inner_def top_level_def opens_block_def)

section \<open>The end of a block\<close>

definition core :: "string list \<Rightarrow> string list" where
  "core body = rev (dropWhile blank (rev body))"

definition trail :: "string list \<Rightarrow> string list" where
  "trail body = rev (takeWhile blank (rev body))"

lemma core_trail [simp]: "core body @ trail body = body"
  by (simp add: core_def trail_def flip: rev_append)

lemma trail_blank: "l \<in> set (trail body) \<Longrightarrow> blank l"
  by (auto simp: trail_def dest: set_takeWhileD)

lemma set_core: "l \<in> set (core body) \<Longrightarrow> l \<in> set body"
  by (auto simp: core_def dest: set_dropWhileD)

lemma set_core_trail: "set body = set (core body) \<union> set (trail body)"
  by (metis core_trail set_append)

lemma core_snoc: "core (xs @ [x]) = (if blank x then core xs else xs @ [x])"
  by (simp add: core_def)

lemma core_append: "core (xs @ ys) = (if \<forall>y \<in> set ys. blank y then core xs else xs @ core ys)"
  by (induction ys rule: rev_induct) (auto simp: core_snoc simp flip: append_assoc)

lemma trail_append: "trail (xs @ ys) = (if \<forall>y \<in> set ys. blank y then trail xs @ ys else trail ys)"
  by (simp add: trail_def takeWhile_append)

lemma core_id: "xs = [] \<or> \<not> blank (last xs) \<Longrightarrow> core xs = xs"
  by (cases xs rule: rev_cases) (simp_all add: core_def)

lemma core_last: "core body \<noteq> [] \<Longrightarrow> \<not> blank (last (core body))"
  using hd_dropWhile [of blank "rev body"] by (auto simp: core_def last_rev)

lemma core_core [simp]: "core (core body) = core body"
  using core_id core_last by blast

text \<open>The insertion point of the code is the end of the core of the block.\<close>

lemma insert_point_core:
  "insert_point (a @ h # body @ c) (length a) (Suc (length a + length body)) =
   Suc (length a + length (core body))"
proof (induction body arbitrary: c rule: rev_induct)
  case (snoc x xs)
  have "(a @ h # (xs @ [x]) @ c) ! Suc (length a + length xs) = x"
    by (simp add: nth_append)
  then show ?case using snoc.IH [of "x # c"] by (simp add: core_snoc)
qed (simp add: core_def)

lemma line_range_block [simp]: "line_range (Suc (length a)) (Suc (length a + length body)) (a @ h # body @ c) = body"
  by (simp add: line_range_def)

lemma core_trail_append [simp]: "core body @ trail body @ c = body @ c"
  by (simp flip: append_assoc)

lemma insert_lines_mid: "insert_lines (length xs) new (xs @ ys) = xs @ new @ ys"
  by (simp add: insert_lines_def)

lemma insert_core:
  "insert_lines (Suc (length a + length (core body))) new (a @ h # body @ c) =
   a @ h # core body @ new @ trail body @ c"
  using insert_lines_mid [of "a @ h # core body" new "trail body @ c"] by simp

lemma find_core: "(\<And>l. P l \<Longrightarrow> \<not> blank l) \<Longrightarrow> find P (core body) = find P body"
proof -
  assume P: "\<And>l. P l \<Longrightarrow> \<not> blank l"
  have "find P (trail body) = None" using P trail_blank by (fastforce simp: find_None_iff)
  then show ?thesis
    using find_append [of P "core body" "trail body"] by (simp split: option.splits)
qed

text \<open>The property indent of a block survives an addition at the end of its core.\<close>

lemma prop_indent_add:
  assumes "new \<noteq> []" "\<not> blank (hd new)" "indent_width (hd new) = prop_indent si body"
  shows "prop_indent si (core body @ new @ trail body) = prop_indent si body"
proof -
  let ?P = "\<lambda>l. \<not> blank l \<and> si < indent_width l"
  have fc: "find ?P (core body) = find ?P body" by (rule find_core) simp
  show ?thesis
  proof (cases "find ?P body")
    case None
    then have "indent_width (hd new) = si + 2" using assms(3) by (simp add: prop_indent_def)
    then have "find ?P (new @ trail body) = Some (hd new)"
      using assms(1,2) by (cases new) simp_all
    then show ?thesis using None fc assms(3) by (simp add: prop_indent_def find_append)
  qed (use fc in \<open>simp add: prop_indent_def find_append\<close>)
qed

lemma prop_indent_gt: "si < prop_indent si body"
proof (cases "find (\<lambda>l. \<not> blank l \<and> si < indent_width l) body")
  case (Some l)
  then show ?thesis using find_Some_iff [of "\<lambda>l. \<not> blank l \<and> si < indent_width l" body l]
    by (auto simp: prop_indent_def)
qed (simp add: prop_indent_def)

section \<open>The appending injectors, block by block\<close>

definition append_block ::
  "(nat \<Rightarrow> string \<Rightarrow> bool) \<Rightarrow> (nat \<Rightarrow> string list) \<Rightarrow> nat \<Rightarrow> string list \<Rightarrow> string list" where
  "append_block declares new si b =
     (let body = tl b; pi = prop_indent si body
      in if \<exists>l \<in> set body. declares pi l then b
         else hd b # core body @ new pi @ trail body)"

locale appended_property =
  fixes declares :: "nat \<Rightarrow> string \<Rightarrow> bool" and new :: "nat \<Rightarrow> string list"
  assumes new_ne: "\<And>pi. new pi \<noteq> []"
    and new_first: "\<And>pi. \<not> blank (hd (new pi)) \<and> indent_width (hd (new pi)) = pi"
    and new_declares: "\<And>pi. declares pi (hd (new pi))"
    and new_deep: "\<And>pi l. l \<in> set (new pi) \<Longrightarrow> pi \<le> indent_width l"
begin

lemma edit_range:
  assumes "block_ok si b"
  shows "inject_property declares new si (length a, length a + length b) (a @ b @ c) =
         a @ append_block declares new si b @ c"
proof -
  obtain h body where b: "b = h # body" using assms by (cases b) (auto simp: block_ok_def)
  show ?thesis
    by (simp add: b inject_property_def append_block_def Let_def insert_point_core insert_core
        del: insert_point.simps)
qed

lemma new_inner: "0 < si \<Longrightarrow> l \<in> set (new (prop_indent si body)) \<Longrightarrow> inner si l"
  using new_deep [of l "prop_indent si body"] prop_indent_gt [of si body]
  by (auto intro!: deeper_inner)

lemma append_ok: "0 < si \<Longrightarrow> block_ok si b \<Longrightarrow> block_ok si (append_block declares new si b)"
  using new_inner set_core_trail [of "tl b"]
  by (auto simp: block_ok_def append_block_def Let_def list_all_iff split: list.splits)

lemma append_hd: "b \<noteq> [] \<Longrightarrow> hd (append_block declares new si b) = hd b"
  by (auto simp: append_block_def Let_def)

lemma append_declared:
  "declares (prop_indent si (tl (append_block declares new si b)))
     (hd (new (prop_indent si (tl b)))) \<or> (\<exists>l \<in> set (tl b). declares (prop_indent si (tl b)) l)"
  using prop_indent_add [OF new_ne, of _ si "tl b"] new_first new_declares
  by (auto simp: append_block_def Let_def)

lemma append_idem:
  "append_block declares new si (append_block declares new si b) = append_block declares new si b"
proof (cases "\<exists>l \<in> set (tl b). declares (prop_indent si (tl b)) l")
  case False
  let ?n = "new (prop_indent si (tl b))"
  have "prop_indent si (core (tl b) @ ?n @ trail (tl b)) = prop_indent si (tl b)"
    using prop_indent_add [OF new_ne] new_first by blast
  moreover have "hd ?n \<in> set ?n" using new_ne by simp
  ultimately show ?thesis
    using new_declares False by (auto simp: append_block_def Let_def)
qed (simp add: append_block_def Let_def)

end

sublocale appended_property \<subseteq> block_editor "inject_property declares new"
  "append_block declares new" "\<lambda>_ _. True"
proof unfold_locales
  fix si :: nat and b :: "string list"
  assume "block_ok si b"
  then have "b \<noteq> []" by (auto simp: block_ok_def)
  then show "hd (append_block declares new si b) = hd b" by (rule append_hd)
qed (simp_all add: edit_range append_ok append_idem)

lemma trim_start_Cons_nonws: "\<not> is_ws c \<Longrightarrow> trim_start (c # s) = c # s"
  by (simp add: trim_start_def)

lemmas property_line_simps =
  is_ws_def trim_Cons_nonws trim_end_Cons_nonws trim_start_Cons_nonws starts_with_def indent_pad_ge

interpretation env_file: appended_property declares_env_file env_file_lines
  by unfold_locales
     (auto simp: env_file_lines_def declares_env_file_def property_line_simps)

interpretation extra_hosts: appended_property declares_extra_hosts "extra_hosts_lines hosts"
  for hosts
  by unfold_locales
     (auto simp: extra_hosts_lines_def declares_extra_hosts_def property_line_simps)

interpretation init: appended_property declares_init init_lines
  by unfold_locales
     (auto simp: init_lines_def declares_init_def property_line_simps trim_end_def)

section \<open>From lines to text\<close>

text \<open>What \<open>lines\<close> reads back from joined lines: the last line is lost when it is empty.\<close>

lemma lines_acc_end: "NL \<notin> set l \<Longrightarrow> lines_acc acc l = (if acc = [] \<and> l = [] then [] else [rev acc @ l])"
  by (induction l arbitrary: acc) auto

lemma lines_join:
  "list_all clean_line ls \<Longrightarrow>
   lines (join_nl ls) = (if ls \<noteq> [] \<and> last ls = [] then butlast ls else ls)"
proof (induction ls rule: join_nl.induct)
  case (2 l)
  then show ?case using lines_acc_end [of l "[]"] by (auto simp: lines_def clean_line_def)
next
  case (3 l m ls)
  then show ?case by (auto simp: lines_line)
qed simp

lemma lines_join_nl: "list_all clean_line ls \<Longrightarrow> ls \<noteq> [] \<Longrightarrow> lines (join_nl ls @ [NL]) = ls"
proof (induction ls rule: join_nl.induct)
  case (2 l)
  then show ?case using lines_line [of l "[]"] by simp
next
  case (3 l m ls)
  then show ?case using lines_line [of l "join_nl (m # ls) @ [NL]"] by simp
qed simp

section \<open>The label injector, block by block\<close>

definition labels_block :: "string \<Rightarrow> string \<Rightarrow> nat \<Rightarrow> string list \<Rightarrow> string list" where
  "labels_block service_id catalog_id si b =
     (let body = tl b; pi = prop_indent si body
      in if \<exists>l \<in> set body. contains_str l ''pier.service.id'' then b
         else (case position (\<lambda>l. indent_width l = pi \<and> trim l = ''labels:'') body of
                 Some rel \<Rightarrow>
                   (case labels_child pi (drop (Suc rel) body) of
                      (child, is_list) \<Rightarrow>
                        hd b # take (Suc rel) body @
                        label_lines is_list child service_id catalog_id @ drop (Suc rel) body)
               | None \<Rightarrow>
                   hd b # core body @
                   ((pad pi @ ''labels:'') # label_lines False (pi + 2) service_id catalog_id) @
                   trail body))"

lemma find_str_append: "find_str p (p @ b) \<noteq> None"
  by (cases "p @ b") (auto simp: starts_with_def append_eq_Cons_conv)

lemma contains_str_mid: "contains_str (a @ p @ b) p"
proof (induction a)
  case Nil
  then show ?case using find_str_append by (simp add: contains_str_def)
qed (simp add: contains_str_def)

lemma label_lines_service: "\<exists>l \<in> set (label_lines k n s c). contains_str l ''pier.service.id''"
proof (cases k)
  case True
  have "contains_str ((pad n @ ''- '' @ [CHR 0x22]) @ ''pier.service.id'' @ (''='' @ s @ [CHR 0x22]))
          ''pier.service.id''" by (rule contains_str_mid)
  then show ?thesis using True by (simp add: label_lines_def)
next
  case False
  have "contains_str (pad n @ ''pier.service.id'' @ ('': '' @ [CHR 0x22] @ s @ [CHR 0x22]))
          ''pier.service.id''" by (rule contains_str_mid)
  then show ?thesis using False by (simp add: label_lines_def)
qed

lemma label_lines_deep: "l \<in> set (label_lines k n s c) \<Longrightarrow> n \<le> indent_width l"
  by (auto simp: label_lines_def indent_pad_ge split: if_splits)

lemma labels_child_deep: "pi < fst (labels_child pi below)"
  using find_Some_iff [of "\<lambda>l. \<not> blank l \<and> pi < indent_width l" below]
  by (auto simp: labels_child_def split: option.splits)

lemma inject_labels_block:
  assumes "block_ok si b"
  shows "inject_labels s c si (length a, length a + length b) (a @ b @ rest) =
         a @ labels_block s c si b @ rest"
proof -
  obtain h body where b: "b = h # body" using assms by (cases b) (auto simp: block_ok_def)
  let ?is = "\<lambda>l. indent_width l = prop_indent si body \<and> trim l = ''labels:''"
  show ?thesis
  proof (cases "position ?is body")
    case None
    then show ?thesis
      by (simp add: b inject_labels_def labels_block_def Let_def insert_point_core insert_core
          del: insert_point.simps)
  next
    case (Some rel)
    then have len: "rel < length body" using position_Some [OF Some] by simp
    have sl: "line_range (Suc (Suc (length a + rel))) (Suc (length a + length body)) (a @ h # body @ rest)
        = drop (Suc rel) body"
      using len by (simp add: line_range_def)
    have ins: "insert_lines (Suc (Suc (length a + rel))) new (a @ h # body @ rest) =
        a @ h # take (Suc rel) body @ new @ drop (Suc rel) body @ rest" for new
    proof -
      have "length (a @ h # take (Suc rel) body) = Suc (Suc (length a + rel))" using len by simp
      moreover have "take (Suc rel) body @ drop (Suc rel) body @ rest = body @ rest"
        by (simp flip: append_assoc)
      ultimately show ?thesis
        using insert_lines_mid [of "a @ h # take (Suc rel) body" new "drop (Suc rel) body @ rest"]
        by (metis append.assoc append_Cons)
    qed
    show ?thesis
      using Some
      by (simp add: b inject_labels_def labels_block_def Let_def sl ins split: prod.splits)
  qed
qed

lemma labels_block_ok: "0 < si \<Longrightarrow> block_ok si b \<Longrightarrow> block_ok si (labels_block s c si b)"
proof -
  assume si: "0 < si" and ok: "block_ok si b"
  let ?body = "tl b" and ?pi = "prop_indent si (tl b)"
  have gt: "si < ?pi" by (rule prop_indent_gt)
  then have inn: "list_all (inner si) (label_lines k n s c)" if q: "?pi \<le> n" for k n
    using that si label_lines_deep [of _ k n s c]
    by (fastforce simp: list_all_iff intro!: deeper_inner)
  have child: "?pi \<le> fst (labels_child ?pi below)" for below
    using labels_child_deep [of ?pi below] by simp
  have body: "list_all (inner si) ?body" "\<not> top_level (hd b)" "opens_block si (hd b)" "b \<noteq> []"
    using ok by (auto simp: block_ok_def split: list.splits)
  have parts: "list_all (inner si) (core ?body)" "list_all (inner si) (trail ?body)"
    "list_all (inner si) (take k ?body)" "list_all (inner si) (drop k ?body)" for k
    using body(1) set_core_trail [of ?body] by (auto simp: list_all_iff dest: in_set_takeD in_set_dropD)
  have head: "inner si (pad ?pi @ ''labels:'')"
    using gt si indent_pad_ge [of ?pi "''labels:''"] by (intro deeper_inner) linarith+
  show ?thesis
    using ok body(2-4) parts head inn [of "?pi + 2"] inn [OF child]
    by (auto simp: labels_block_def Let_def block_ok_def split: option.splits prod.splits)
       (metis fst_conv)+
qed

lemma labels_block_idem:
  "labels_block s c si (labels_block s c si b) = labels_block s c si b"
proof (cases "\<exists>l \<in> set (tl b). contains_str l ''pier.service.id''")
  case False
  have "\<exists>l \<in> set (tl (labels_block s c si b)). contains_str l ''pier.service.id''"
    using False label_lines_service [of _ _ s c]
    by (fastforce simp: labels_block_def Let_def split: option.splits prod.splits)
  then show ?thesis by (subst (1) labels_block_def) (simp add: Let_def)
qed (simp add: labels_block_def Let_def)

lemma labels_block_hd: "b \<noteq> [] \<Longrightarrow> hd (labels_block s c si b) = hd b"
  by (simp add: labels_block_def Let_def split: option.splits prod.splits)

interpretation labels: block_editor "inject_labels s c" "labels_block s c" "\<lambda>_ _. True" for s c
proof unfold_locales
  fix si :: nat and b :: "string list"
  assume "block_ok si b"
  then have "b \<noteq> []" by (auto simp: block_ok_def)
  then show "hd (labels_block s c si b) = hd b" by (rule labels_block_hd)
qed (simp_all add: inject_labels_block labels_block_ok labels_block_idem)

section \<open>Properties of the injectors\<close>

lemma ends_nl: "ends_with s [NL] \<longleftrightarrow> s \<noteq> [] \<and> last s = NL"
  by (cases s rule: rev_cases) (auto simp: ends_with_def)

lemma init_block_cases:
  "append_block declares_init init_lines si b = b \<or>
   append_block declares_init init_lines si b =
     hd b # core (tl b) @ [pad (prop_indent si (tl b)) @ ''init: true''] @ trail (tl b)"
  by (simp add: append_block_def Let_def init_lines_def)

lemma init_block_declares:
  "\<exists>l \<in> set (tl (append_block declares_init init_lines si b)).
     declares_init (prop_indent si (tl (append_block declares_init init_lines si b))) l"
proof (cases "\<exists>l \<in> set (tl b). declares_init (prop_indent si (tl b)) l")
  case False
  let ?n = "init_lines (prop_indent si (tl b))"
  have "prop_indent si (core (tl b) @ ?n @ trail (tl b)) = prop_indent si (tl b)"
    using prop_indent_add [OF init.new_ne] init.new_first by blast
  moreover have "hd ?n \<in> set ?n" using init.new_ne by simp
  ultimately show ?thesis
    using init.new_declares [of "prop_indent si (tl b)"] False
    by (auto simp: append_block_def Let_def)
qed (simp add: append_block_def Let_def)

text \<open>After the injection every service declares an init process: each service either already
  declared one and is unchanged, or gains exactly the line \<open>init: true\<close> at its property indent before
  the blank lines that end it. The lines before, between and after the services are unchanged.\<close>

theorem every_service_gets_init:
  assumes "file_blocks (lines yaml) = Some (si, pre, bs, q)"
  shows "\<exists>bs'. inject_init_into_services yaml =
      join_nl (pre @ concat bs' @ q) @ (if ends_with yaml [NL] then [NL] else []) \<and>
    file_blocks (pre @ concat bs' @ q) = Some (si, pre, bs', q) \<and>
    list_all2 (\<lambda>b b'.
      (b' = b \<or> b' = hd b # core (tl b) @ [pad (prop_indent si (tl b)) @ ''init: true''] @ trail (tl b)) \<and>
      (\<exists>l \<in> set (tl b'). declares_init (prop_indent si (tl b')) l)) bs bs'"
proof (intro exI conjI)
  let ?g = "append_block declares_init init_lines si"
  show "inject_init_into_services yaml =
      join_nl (pre @ concat (map ?g bs) @ q) @ (if ends_with yaml [NL] then [NL] else [])"
    using assms by (simp add: inject_init_into_services_def init.rewrite_map)
  show "file_blocks (pre @ concat (map ?g bs) @ q) = Some (si, pre, map ?g bs, q)"
    by (rule init.file_blocks_rewrite [OF assms])
  show "list_all2 (\<lambda>b b'.
      (b' = b \<or> b' = hd b # core (tl b) @ [pad (prop_indent si (tl b)) @ ''init: true''] @ trail (tl b)) \<and>
      (\<exists>l \<in> set (tl b'). declares_init (prop_indent si (tl b')) l)) bs (map ?g bs)"
    using init_block_cases init_block_declares by (simp add: list_all2_conv_all_nth)
qed

definition two_services :: string where
  "two_services = unlines [''services:'', ''  web:'', ''    image: a'', '''', ''  db:'', ''    init: false'']"

theorem every_service_gets_init_witness:
  "\<exists>si pre bs q bs'. file_blocks (lines two_services) = Some (si, pre, bs, q) \<and>
    inject_init_into_services two_services = join_nl (pre @ concat bs' @ q) @ [NL]"
proof -
  have "file_blocks (lines two_services) \<noteq> None" by code_simp
  then obtain si pre bs q where f: "file_blocks (lines two_services) = Some (si, pre, bs, q)"
    by (metis not_None_eq prod_cases4)
  have "ends_with two_services [NL]" by code_simp
  then show ?thesis using every_service_gets_init [OF f] f by auto
qed

text \<open>A second injection of \<open>init\<close> changes nothing: redeploying a stored file does not grow it.\<close>

theorem inject_init_idempotent:
  assumes "ends_with yaml [NL]" "list_all clean_line (lines yaml)"
  shows "inject_init_into_services (inject_init_into_services yaml) = inject_init_into_services yaml"
proof (cases "file_blocks (lines yaml)")
  case None
  then show ?thesis by (simp add: inject_init_into_services_def init.rewrite_map)
next
  case (Some f)
  obtain si pre bs q where f: "file_blocks (lines yaml) = Some (si, pre, bs, q)"
    using Some by (metis prod_cases4)
  let ?g = "append_block declares_init init_lines si"
  let ?out = "pre @ concat (map ?g bs) @ q"
  have ls: "lines yaml = pre @ concat bs @ q" using file_blocks_parts [OF f] by blast
  have one: "inject_init_into_services yaml = join_nl ?out @ [NL]"
    using f assms(1) by (simp add: inject_init_into_services_def init.rewrite_map)
  have key: "clean_line (pad n @ ''init: true'')" for n by (auto simp: clean_line_def pad_def split: if_splits)
  have "clean_line l" if q: "b \<in> set bs" "l \<in> set (?g b)" for b l
  proof -
    have "b \<noteq> []" using file_blocks_parts [OF f] q(1) by (auto simp: list_all_iff block_ok_def)
    then have "l \<in> set b \<or> (\<exists>n. l = pad n @ ''init: true'')"
      using q(2) set_core_trail [of "tl b"] by (cases b) (auto simp: append_block_def Let_def init_lines_def split: if_splits)
    then show ?thesis using key assms(2) q(1) by (auto simp: ls list_all_iff)
  qed
  then have "list_all clean_line ?out" using assms(2) by (auto simp: ls list_all_iff)
  moreover have "?out \<noteq> []"
    using file_blocks_parts [OF f] by (auto dest: position_Some)
  ultimately have "lines (inject_init_into_services yaml) = ?out" by (simp add: one lines_join_nl)
  moreover have "rewrite_ranges (inject_property declares_init init_lines) ?out = Some ?out"
    using init.rewrite_idem [OF f] f by (simp add: init.rewrite_map list_all_iff)
  moreover have "ends_with (inject_init_into_services yaml) [NL]" by (simp add: one ends_nl)
  ultimately show ?thesis
    by (subst (1) inject_init_into_services_def) (simp add: one)
qed

theorem inject_init_idempotent_witness:
  "ends_with two_services [NL] \<and> list_all clean_line (lines two_services) \<and>
   inject_init_into_services (inject_init_into_services two_services) = inject_init_into_services two_services"
proof -
  have "ends_with two_services [NL]" "list_all clean_line (lines two_services)" by code_simp+
  then show ?thesis using inject_init_idempotent by blast
qed

text \<open>Finding: a file whose services already carry a service label keeps it, whichever service it
  names, so a file copied from another service deploys containers that are found as that other
  service's.\<close>

theorem foreign_label_kept:
  assumes "file_blocks (lines yaml) = Some (si, pre, bs, q)"
    "list_all (\<lambda>b. \<exists>l \<in> set (tl b). contains_str l ''pier.service.id'') bs"
  shows "inject_pier_labels yaml service_id catalog_id = join_nl (lines yaml)"
proof -
  have "map (labels_block service_id catalog_id si) bs = bs"
    using assms(2) by (intro map_idI) (simp add: labels_block_def Let_def list_all_iff)
  moreover have "lines yaml = pre @ concat bs @ q" using file_blocks_parts [OF assms(1)] by blast
  ultimately show ?thesis
    using assms(1) by (simp add: inject_pier_labels_def labels.rewrite_map)
qed

theorem foreign_label_kept_witness:
  "\<exists>yaml. inject_pier_labels yaml ''mine'' ''c'' = join_nl (lines yaml) \<and>
     list_ex (\<lambda>l. contains_str l ''theirs'') (lines yaml)"
proof -
  let ?y = "unlines [''services:'', ''  web:'', ''    labels:'', ''      pier.service.id: theirs'']"
  have fb: "file_blocks (lines ?y) =
      Some (2, [''services:''], [[''  web:'', ''    labels:'', ''      pier.service.id: theirs'']], [])"
    by code_simp
  have c: "list_all (\<lambda>b. \<exists>l \<in> set (tl b). contains_str l ''pier.service.id'')
      [[''  web:'', ''    labels:'', ''      pier.service.id: theirs'']]"
    by code_simp
  have "list_ex (\<lambda>l. contains_str l ''theirs'') (lines ?y)" by code_simp
  then show ?thesis using foreign_label_kept [OF fb c, of "''mine''" "''c''"] by blast
qed

text \<open>A comment line at the indent of the services is given properties of its own, which compose reads
  as a second \<open>env_file\<close> of the service above it.\<close>

lemma comment_gets_env_file:
  "lines (inject_env_file_into_services
     (unlines [''services:'', ''  web:'', ''    image: a'', ''  # databases:'', ''  db:'', ''    image: b''])) =
   [''services:'', ''  web:'', ''    image: a'', ''    env_file:'', ''      - .env'', ''  # databases:'',
    ''    env_file:'', ''      - .env'', ''  db:'', ''    image: b'', ''    env_file:'', ''      - .env'']"
  by code_simp

end
