(* ===== verification/ComposePorts.thy ===== *)
theory ComposePorts
  imports Compose Ports
begin

text \<open>
  The ports of a compose stack (\<open>deploy/mod.rs\<close>): the injection of the \<open>ports:\<close> blocks from the
  rows of \<open>port_allocations\<close> as a map over the services, the parser that reads services and ports
  back (\<open>parse_compose_services\<close>), and the database side of a deploy (\<open>update_ports_from_compose\<close>,
  the backfill of untagged rows and the upsert), composed the way the deploy paths compose them.
  The lemmas show that injecting is idempotent on well-indented files, that the parser reads from
  an injected file exactly the bindings of the rows, and what a deploy keeps of the table.
\<close>

section \<open>The ports injector, block by block\<close>

definition is_ports :: "nat \<Rightarrow> string \<Rightarrow> bool" where
  "is_ports pi l = (trim l = ''ports:'' \<and> indent_width l = pi)"

definition below_ports :: "nat \<Rightarrow> string \<Rightarrow> bool" where
  "below_ports pi l = (blank l \<or> pi < indent_width l)"

definition without_ports :: "nat \<Rightarrow> string list \<Rightarrow> string list" where
  "without_ports pi body =
     (case position (is_ports pi) body of
        None \<Rightarrow> body
      | Some rel \<Rightarrow>
          take rel body @ trail (takeWhile (below_ports pi) (drop (Suc rel) body)) @
          dropWhile (below_ports pi) (drop (Suc rel) body))"

definition ports_block :: "bool \<Rightarrow> port_row list \<Rightarrow> nat \<Rightarrow> string list \<Rightarrow> string list" where
  "ports_block only_one rows si b =
     (let svc_rows = rows_of_service only_one (service_name (hd b)) rows
      in if svc_rows = [] then b
         else
           (let pi = prop_indent si (tl b); body = without_ports pi (tl b);
                new = port_lines pi svc_rows
            in if new = [] then hd b # body
               else hd b # core body @ ((pad pi @ ''ports:'') # new) @ trail body))"

lemma ports_scan_eq:
  "at + n \<le> length ls \<Longrightarrow>
   ports_scan ls pi n at = at + length (takeWhile (below_ports pi) (take n (drop at ls)))"
proof (induction n arbitrary: at)
  case (Suc n)
  then have "drop at ls = ls ! at # drop (Suc at) ls" by (simp add: Cons_nth_drop_Suc)
  then show ?case using Suc.IH [of "Suc at"] Suc.prems by (auto simp: below_ports_def)
qed simp

lemma takeWhile_drop_length: "drop (length (takeWhile P xs)) xs = dropWhile P xs"
  by (induction xs) auto

lemma find_ports_block:
  assumes ls: "ls = a @ h # body @ c"
  shows "find_dash_list_ports_block ls (Suc (length a)) (Suc (length a + length body)) pi =
    (case position (is_ports pi) body of
       None \<Rightarrow> None
     | Some rel \<Rightarrow>
         Some (Suc (length a + rel),
           Suc (Suc (length a + rel)) +
             length (core (takeWhile (below_ports pi) (drop (Suc rel) body)))))"
proof -
  have isp: "(\<lambda>l. trim l = ''ports:'' \<and> indent_width l = pi) = is_ports pi"
    by (simp add: is_ports_def fun_eq_iff)
  have sl: "line_range (Suc (length a)) (Suc (length a + length body)) ls = body" by (simp add: ls)
  show ?thesis
  proof (cases "position (is_ports pi) body")
    case (Some rel)
    have len: "rel < length body" using position_Some [OF Some] by simp
    define rest where "rest = drop (Suc rel) body"
    define blk where "blk = takeWhile (below_ports pi) rest"
    define tl where "tl = dropWhile (below_ports pi) rest"
    have bodyeq: "body = take rel body @ (body ! rel) # blk @ tl"
      using len by (simp add: blk_def tl_def rest_def id_take_nth_drop)
    have lseq: "ls = (a @ h # take rel body) @ (body ! rel) # blk @ tl @ c"
      using bodyeq ls by (metis append.assoc append_Cons)
    have scan: "ports_scan ls pi (length body - Suc rel) (Suc (Suc (length a + rel))) =
        Suc (Suc (length a + rel)) + length blk"
    proof -
      have "drop (Suc (Suc (length a + rel))) ls = rest @ c"
        using len by (simp add: ls rest_def)
      then show ?thesis
        using len by (simp add: ports_scan_eq ls blk_def rest_def)
    qed
    have "length (a @ h # take rel body) = Suc (length a + rel)" using len by simp
    then have ip: "insert_point ls (Suc (length a + rel)) (Suc (Suc (length a + rel)) + length blk) =
        Suc (Suc (length a + rel)) + length (core blk)"
      using insert_point_core [of "a @ h # take rel body" "body ! rel" blk "tl @ c"]
      unfolding lseq [symmetric] by (simp del: insert_point.simps)
    show ?thesis
      using Some scan ip len
      by (simp add: find_dash_list_ports_block_def isp sl Let_def blk_def rest_def
          del: insert_point.simps)
  qed (simp add: find_dash_list_ports_block_def isp sl)
qed

lemma length_core: "length (core b) \<le> length b"
  by (metis core_trail le_add1 length_append)

lemma without_ports_splice:
  assumes "position (is_ports pi) body = Some rel"
    and "n = Suc rel + length (core (takeWhile (below_ports pi) (drop (Suc rel) body)))"
  shows "take rel body @ drop n body = without_ports pi body \<and> n \<le> length body"
proof -
  define blk where "blk = takeWhile (below_ports pi) (drop (Suc rel) body)"
  have len: "rel < length body" using position_Some [OF assms(1)] by simp
  have split: "drop (Suc rel) body = core blk @ trail blk @ dropWhile (below_ports pi) (drop (Suc rel) body)"
    by (simp add: blk_def)
  then have "drop n body = trail blk @ dropWhile (below_ports pi) (drop (Suc rel) body)"
    unfolding assms(2) blk_def [symmetric]
    by (metis add.commute append_eq_conv_conj drop_drop)
  moreover have "length (core blk) \<le> length body - Suc rel"
    using length_core [of blk] length_takeWhile_le [of "below_ports pi" "drop (Suc rel) body"]
    by (simp add: blk_def)
  ultimately show ?thesis
    using assms(1) len unfolding assms(2) by (simp add: without_ports_def blk_def)
qed

lemma inject_ports_block:
  assumes "block_ok si b"
  shows "inject_ports only rows si (length a, length a + length b) (a @ b @ c) =
         a @ ports_block only rows si b @ c"
proof -
  obtain h body where b: "b = h # body" using assms by (cases b) (auto simp: block_ok_def)
  define pi where "pi = prop_indent si body"
  define rws where "rws = rows_of_service only (service_name h) rows"
  define body' where "body' = without_ports pi body"
  have cut: "(case find_dash_list_ports_block (a @ h # body @ c) (Suc (length a))
               (Suc (length a + length body)) pi of
             None \<Rightarrow> (a @ h # body @ c, Suc (length a + length body))
           | Some (x, y) \<Rightarrow> (take x (a @ h # body @ c) @ drop y (a @ h # body @ c),
               Suc (length a + length body) - (y - x))) =
        (a @ h # body' @ c, Suc (length a + length body'))"
  proof (cases "position (is_ports pi) body")
    case (Some rel)
    define n where "n = Suc rel + length (core (takeWhile (below_ports pi) (drop (Suc rel) body)))"
    have sp: "take rel body @ drop n body = body'" "n \<le> length body"
      using without_ports_splice [OF Some n_def] by (simp_all add: body'_def)
    have len: "rel < length body" using position_Some [OF Some] by simp
    have rn: "rel < n" by (simp add: n_def)
    have "length (take rel body @ drop n body) = length body - (n - rel)"
      using sp(2) len rn by simp
    then have l': "length body' = length body - (n - rel)" using sp(1) by simp
    have fp: "find_dash_list_ports_block (a @ h # body @ c) (Suc (length a))
        (Suc (length a + length body)) pi = Some (Suc (length a + rel), Suc (length a + n))"
      using Some by (simp add: find_ports_block [OF refl] n_def)
    have tk: "take (Suc (length a + rel)) (a @ h # body @ c) = a @ h # take rel body"
      using len by simp
    have dr: "drop (Suc (length a + n)) (a @ h # body @ c) = drop n body @ c"
      using sp(2) by simp
    have "Suc (length a + length body) - (Suc (length a + n) - Suc (length a + rel)) =
        Suc (length a + length body')"
      using l' sp(2) rn by simp
    moreover have "(a @ h # take rel body) @ drop n body @ c = a @ h # body' @ c"
      using sp(1) by (metis append.assoc append_Cons)
    ultimately show ?thesis unfolding fp by (simp only: option.case prod.case tk dr)
  qed (simp add: find_ports_block [OF refl] body'_def without_ports_def)
  have len_b: "length a + length b = Suc (length a + length body)"
    and hd: "(a @ b @ c) ! length a = h" and app: "a @ b @ c = a @ h # body @ c"
    and sl: "line_range (length a + 1) (length a + length b) (a @ b @ c) = body"
    by (simp_all add: b)
  show ?thesis
    unfolding inject_ports_def prod.case Let_def hd sl pi_def [symmetric] rws_def [symmetric]
    unfolding len_b app
    using cut
    by (simp add: b ports_block_def Let_def insert_point_core insert_core
        flip: pi_def rws_def body'_def del: insert_point.simps)
qed

subsection \<open>Well-indented services\<close>

text \<open>No line of the body is to the left of its properties, and at most one \<open>ports:\<close> list.\<close>

definition well_indented :: "nat \<Rightarrow> string list \<Rightarrow> bool" where
  "well_indented si b =
     (let body = tl b; pi = prop_indent si body
      in list_all (\<lambda>l. blank l \<or> pi \<le> indent_width l) body \<and>
         length (filter (is_ports pi) body) \<le> 1)"

lemma is_ports_not_blank: "is_ports pi l \<Longrightarrow> \<not> blank l"
  by (auto simp: is_ports_def)

lemma set_without_ports: "l \<in> set (without_ports pi body) \<Longrightarrow> l \<in> set body"
  by (auto simp: without_ports_def dest: in_set_takeD set_dropWhileD in_set_dropD set_takeWhileD
      trail_blank split: option.splits)
     (metis UnCI in_set_dropD set_core_trail set_takeWhileD)

lemma without_ports_none: "position (is_ports pi) body = None \<Longrightarrow> without_ports pi body = body"
  by (simp add: without_ports_def)

text \<open>Once the list is taken out of a well-indented body none is left.\<close>

lemma without_ports_no_ports:
  assumes "length (filter (is_ports pi) body) \<le> 1" "l \<in> set (without_ports pi body)"
  shows "\<not> is_ports pi l"
proof (cases "position (is_ports pi) body")
  case (Some rel)
  let ?rest = "drop (Suc rel) body"
  have len: "rel < length body" "is_ports pi (body ! rel)" using position_Some [OF Some] by auto
  then have "filter (is_ports pi) body =
      filter (is_ports pi) (take rel body) @ (body ! rel) # filter (is_ports pi) ?rest"
    by (metis filter.simps(2) filter_append id_take_nth_drop)
  then have "filter (is_ports pi) (take rel body) = []" "filter (is_ports pi) ?rest = []"
    using assms(1) by auto
  then have "\<forall>x \<in> set (take rel body). \<not> is_ports pi x" "\<forall>x \<in> set ?rest. \<not> is_ports pi x"
    by (auto simp: filter_empty_conv)
  moreover have "l \<in> set (take rel body) \<or> l \<in> set ?rest"
    using assms(2) Some
    by (auto simp: without_ports_def dest: set_dropWhileD)
       (metis UnCI set_core_trail set_takeWhileD)
  ultimately show ?thesis by blast
next
  case None
  then show ?thesis using assms(2) by (auto simp: without_ports_none position_None)
qed

text \<open>The first line that is not blank stays at the indent of the properties.\<close>

definition starts_at :: "nat \<Rightarrow> string list \<Rightarrow> bool" where
  "starts_at pi body =
     (case find (\<lambda>l. \<not> blank l) body of None \<Rightarrow> True | Some l \<Rightarrow> indent_width l = pi)"

lemma find_dropWhile: "(\<And>x. x \<in> set xs \<Longrightarrow> Q x \<Longrightarrow> \<not> P x) \<Longrightarrow> find P (dropWhile Q xs) = find P xs"
  by (induction xs) auto

lemma find_deeper:
  assumes "si < pi" "list_all (\<lambda>l. blank l \<or> pi \<le> indent_width l) body"
  shows "find (\<lambda>l. \<not> blank l \<and> si < indent_width l) body = find (\<lambda>l. \<not> blank l) body"
  using assms(2)
proof (induction body)
  case (Cons x xs)
  then show ?case using assms(1) by (cases "blank x") auto
qed simp

lemma starts_at_indented:
  assumes "si < pi" "list_all (\<lambda>l. blank l \<or> pi \<le> indent_width l) body" "starts_at pi body"
    "\<exists>l \<in> set body. \<not> blank l"
  shows "prop_indent si body = pi"
proof -
  have "find (\<lambda>l. \<not> blank l) body \<noteq> None" using assms(4) by (auto simp: find_None_iff)
  then obtain l where l: "find (\<lambda>l. \<not> blank l) body = Some l" by blast
  have "find (\<lambda>l. \<not> blank l \<and> si < indent_width l) body = find (\<lambda>l. \<not> blank l) body"
    using assms(1,2) by (rule find_deeper)
  then show ?thesis using l assms(3) by (simp add: prop_indent_def starts_at_def)
qed

lemma indented_starts_at:
  assumes "list_all (\<lambda>l. blank l \<or> prop_indent si body \<le> indent_width l) body"
  shows "starts_at (prop_indent si body) body"
proof (cases "find (\<lambda>l. \<not> blank l) body")
  case (Some l)
  have "find (\<lambda>l. \<not> blank l \<and> si < indent_width l) body = find (\<lambda>l. \<not> blank l) body"
    using prop_indent_gt assms by (rule find_deeper)
  then show ?thesis using Some by (simp add: prop_indent_def starts_at_def)
qed (simp add: starts_at_def)

lemma without_ports_starts_at:
  assumes "list_all (\<lambda>l. blank l \<or> pi \<le> indent_width l) body" "starts_at pi body"
  shows "starts_at pi (without_ports pi body)"
proof (cases "position (is_ports pi) body")
  case (Some rel)
  let ?rest = "drop (Suc rel) body" and ?nb = "\<lambda>l::string. \<not> blank l"
  have len: "rel < length body" "is_ports pi (body ! rel)" using position_Some [OF Some] by auto
  have wo: "without_ports pi body = take rel body @ trail (takeWhile (below_ports pi) ?rest) @
      dropWhile (below_ports pi) ?rest"
    using Some by (simp add: without_ports_def)
  have body: "body = take rel body @ body ! rel # ?rest" using len(1) by (rule id_take_nth_drop)
  show ?thesis
  proof (cases "find ?nb (take rel body)")
    case (Some l)
    then have "find ?nb body = Some l" by (subst body) (simp add: find_append)
    then show ?thesis using Some assms(2) by (simp add: wo starts_at_def find_append)
  next
    case None
    have t: "find ?nb (trail (takeWhile (below_ports pi) ?rest)) = None"
      using trail_blank by (fastforce simp: find_None_iff)
    show ?thesis
    proof (cases "dropWhile (below_ports pi) ?rest")
      case (Cons x xs)
      then have x: "\<not> below_ports pi x" and xin: "x \<in> set body"
        using hd_dropWhile [of "below_ports pi" ?rest]
        by (auto dest: in_set_dropD set_dropWhileD) (metis list.set_intros(1) in_set_dropD set_dropWhileD)
      then have "\<not> blank x" "indent_width x \<le> pi" by (auto simp: below_ports_def)
      moreover have "pi \<le> indent_width x" using assms(1) xin \<open>\<not> blank x\<close> by (auto simp: list_all_iff)
      ultimately show ?thesis using None t Cons by (simp add: wo starts_at_def find_append)
    next
      case Nil
      show ?thesis unfolding wo Nil starts_at_def using None t by (simp add: find_append)
    qed
  qed
qed (use assms(2) in \<open>simp add: without_ports_none\<close>)

subsection \<open>The injector as a block editor\<close>

lemma port_line_deep: "l \<in> set (port_line pi r) \<Longrightarrow> pi + 2 \<le> indent_width l"
  by (auto simp: port_line_def indent_pad_ge split: if_splits option.splits)

lemma port_lines_in: "l \<in> set (port_lines pi rows) \<Longrightarrow> \<exists>r. l \<in> set (port_line pi r)"
  by (auto simp: port_lines_def)

lemma port_lines_deep: "l \<in> set (port_lines pi rows) \<Longrightarrow> pi + 2 \<le> indent_width l"
  using port_line_deep port_lines_in by blast

lemma dash_not_ws [simp]: "\<not> is_ws (CHR ''-'')"
  by (simp add: is_ws_def)

lemma port_line_shape: "l \<in> set (port_line pi r) \<Longrightarrow> \<exists>s. l = pad (pi + 2) @ CHR ''-'' # s"
  unfolding port_line_def by (auto split: if_splits option.splits)

lemma port_line_trim: "l \<in> set (port_line pi r) \<Longrightarrow> hd (trim l) = CHR ''-'' \<and> trim l \<noteq> []"
  using port_line_shape [of l pi r] by (auto simp: trim_Cons_nonws)

lemma port_lines_not_blank: "l \<in> set (port_lines pi rows) \<Longrightarrow> \<not> blank l"
  using port_line_trim port_lines_in by blast

lemma port_line_Nil: "port_line pi r = [] \<longleftrightarrow> pr_public r \<and> pr_public_port r = None"
  by (simp add: port_line_def split: option.split)

lemma port_lines_empty: "port_lines pi rows = [] \<longleftrightarrow> port_lines qi rows = []"
  by (simp add: port_lines_def port_line_Nil)

lemma ports_key [simp]: "is_ports pi (pad pi @ ''ports:'')"
  by (simp add: is_ports_def trim_Cons_nonws trim_end_Cons_nonws is_ws_def)
     (simp add: trim_end_def)

lemma ports_block_hd: "b \<noteq> [] \<Longrightarrow> hd (ports_block only rows si b) = hd b"
  by (simp add: ports_block_def Let_def)

lemma ports_block_ok: "0 < si \<Longrightarrow> block_ok si b \<Longrightarrow> block_ok si (ports_block only rows si b)"
proof -
  assume si: "0 < si" and ok: "block_ok si b"
  let ?pi = "prop_indent si (tl b)" and ?body = "without_ports (prop_indent si (tl b)) (tl b)"
  have gt: "si < ?pi" by (rule prop_indent_gt)
  have b: "list_all (inner si) (tl b)" "\<not> top_level (hd b)" "opens_block si (hd b)" "b \<noteq> []"
    using ok by (auto simp: block_ok_def split: list.splits)
  have inn: "inner si l" if q: "l \<in> set ?body" for l
    using set_without_ports [OF q] b(1) by (simp add: list_all_iff)
  then have "inner si l" if q: "l \<in> set (core ?body) \<union> set (trail ?body)" for l
    using q set_core_trail by blast
  moreover have "inner si l" if q: "l \<in> set (port_lines ?pi rs)" for l rs
    using port_lines_deep [OF q] gt si by (intro deeper_inner) simp_all
  moreover have "inner si (pad ?pi @ ''ports:'')"
    using gt si indent_pad_ge [of ?pi "''ports:''"] by (intro deeper_inner) linarith+
  ultimately show ?thesis
    using ok b(2,3) inn
    by (auto simp: ports_block_def Let_def block_ok_def list_all_iff)
qed

text \<open>The block the injector writes: a body without \<open>ports:\<close> and the fresh list at its end.\<close>

lemma position_first: "\<forall>x \<in> set xs. \<not> P x \<Longrightarrow> P y \<Longrightarrow> position P (xs @ y # ys) = Some (length xs)"
  by (induction xs) auto

lemma without_fresh_ports:
  assumes "\<forall>l \<in> set body. \<not> is_ports pi l" "new = port_lines pi rs" "new \<noteq> []"
  shows "without_ports pi (core body @ ((pad pi @ ''ports:'') # new) @ trail body) = body"
proof -
  let ?p = "pad pi @ ''ports:''"
  have "position (is_ports pi) (core body @ (?p # new) @ trail body) = Some (length (core body))"
  proof -
    have "\<forall>l \<in> set (core body). \<not> is_ports pi l" using assms(1) set_core by blast
    then show ?thesis using position_first [of "core body" "is_ports pi" ?p] by simp
  qed
  moreover have below: "\<forall>l \<in> set (new @ trail body). below_ports pi l"
    using port_lines_deep [of _ pi rs] trail_blank assms(2) by (fastforce simp: below_ports_def)
  moreover have "trail (new @ trail body) = trail body"
  proof -
    have "\<not> blank (last new)"
      using assms(2,3) port_lines_not_blank [of "last new" pi rs] by simp
    then have "core new = new" by (intro core_id) simp
    then have "trail new = []" using core_trail [of new] by simp
    moreover have "\<forall>y \<in> set (trail body). blank y" using trail_blank by blast
    ultimately show ?thesis by (simp add: trail_append)
  qed
  ultimately show ?thesis
    by (simp add: without_ports_def takeWhile_eq_all_conv [THEN iffD2] dropWhile_eq_Nil_conv [THEN iffD2])
qed

lemma prop_indent_fresh_ports:
  assumes "prop_indent si b = pi" "list_all (\<lambda>l. blank l \<or> pi \<le> indent_width l) body"
    "starts_at pi body"
  shows "prop_indent si (core body @ ((pad pi @ ''ports:'') # new) @ trail body) = pi"
proof -
  have gt: "si < pi" using assms(1) prop_indent_gt by blast
  have k: "\<not> blank (pad pi @ ''ports:'')" "indent_width (pad pi @ ''ports:'') = pi"
    using ports_key [of pi] is_ports_not_blank unfolding is_ports_def by auto
  show ?thesis
  proof (cases "\<exists>l \<in> set body. \<not> blank l")
    case True
    then have "prop_indent si body = pi" using starts_at_indented [OF gt assms(2,3)] by simp
    then show ?thesis
      using prop_indent_add [of "(pad pi @ ''ports:'') # new" si body] k by simp
  next
    case False
    then have "core body = []" using core_last [of body] set_core [of _ body] last_in_set by blast
    then show ?thesis using k gt by (simp add: prop_indent_def)
  qed
qed

text \<open>The body of a well-indented service without its \<open>ports:\<close>.\<close>

lemma without_ports_facts:
  assumes "well_indented si b"
  defines "pi \<equiv> prop_indent si (tl b)"
  defines "body \<equiv> without_ports pi (tl b)"
  shows "list_all (\<lambda>l. blank l \<or> pi \<le> indent_width l) body" "\<forall>l \<in> set body. \<not> is_ports pi l"
    "starts_at pi body"
proof -
  have all: "list_all (\<lambda>l. blank l \<or> pi \<le> indent_width l) (tl b)"
    and one: "length (filter (is_ports pi) (tl b)) \<le> 1"
    using assms(1) by (simp_all add: well_indented_def Let_def pi_def)
  show "list_all (\<lambda>l. blank l \<or> pi \<le> indent_width l) body"
    using all set_without_ports by (fastforce simp: list_all_iff body_def)
  show "\<forall>l \<in> set body. \<not> is_ports pi l"
    using without_ports_no_ports [OF one] by (simp add: body_def)
  show "starts_at pi body"
    unfolding body_def
    by (rule without_ports_starts_at [OF all]) (use all indented_starts_at in \<open>simp add: pi_def\<close>)
qed

lemma ports_block_facts:
  assumes "well_indented si b" and rs: "rows_of_service only (service_name (hd b)) rows = rs" "rs \<noteq> []"
  defines "pi \<equiv> prop_indent si (tl b)"
  defines "body \<equiv> without_ports pi (tl b)"
  defines "new \<equiv> port_lines pi rs"
  shows "ports_block only rows si b = hd b # (if new = [] then body
           else core body @ ((pad pi @ ''ports:'') # new) @ trail body)"
    "new \<noteq> [] \<Longrightarrow> prop_indent si (tl (ports_block only rows si b)) = pi"
    "without_ports (prop_indent si (tl (ports_block only rows si b)))
       (tl (ports_block only rows si b)) = body"
proof -
  have eq: "ports_block only rows si b = hd b # (if new = [] then body
           else core body @ ((pad pi @ ''ports:'') # new) @ trail body)"
    using rs by (simp add: ports_block_def Let_def pi_def body_def new_def)
  have f: "list_all (\<lambda>l. blank l \<or> pi \<le> indent_width l) body" "\<forall>l \<in> set body. \<not> is_ports pi l"
    "starts_at pi body"
    using without_ports_facts [OF assms(1)] by (simp_all add: pi_def body_def)
  have gt: "si < pi" by (simp add: pi_def prop_indent_gt)
  show "ports_block only rows si b = hd b # (if new = [] then body
           else core body @ ((pad pi @ ''ports:'') # new) @ trail body)" by (rule eq)
  have pi': "prop_indent si (tl (ports_block only rows si b)) = pi" if q: "new \<noteq> []"
    using q prop_indent_fresh_ports [OF _ f(1,3), of si "tl b" new] by (simp add: eq pi_def)
  then show "new \<noteq> [] \<Longrightarrow> prop_indent si (tl (ports_block only rows si b)) = pi" .
  show "without_ports (prop_indent si (tl (ports_block only rows si b)))
       (tl (ports_block only rows si b)) = body"
  proof (cases "new = []")
    case True
    show ?thesis
    proof (cases "\<exists>l \<in> set body. \<not> blank l")
      case True
      then have "prop_indent si body = pi" by (rule starts_at_indented [OF gt f(1,3)])
      then show ?thesis using f(2) \<open>new = []\<close> by (simp add: eq without_ports_none position_None)
    next
      case False
      then have "\<forall>l \<in> set body. \<not> is_ports (prop_indent si body) l"
        using is_ports_not_blank by blast
      then show ?thesis using \<open>new = []\<close> by (simp add: eq without_ports_none position_None)
    qed
  next
    case False
    have "without_ports pi (tl (ports_block only rows si b)) = body"
      using without_fresh_ports [OF f(2), of new rs] False by (simp add: eq new_def)
    then show ?thesis unfolding pi' [OF False] .
  qed
qed

lemma ports_block_idem:
  assumes "well_indented si b"
  shows "ports_block only rows si (ports_block only rows si b) = ports_block only rows si b"
proof (cases "rows_of_service only (service_name (hd b)) rows = []")
  case False
  note f = ports_block_facts [OF assms refl False]
  let ?rs = "rows_of_service only (service_name (hd b)) rows"
  have hd: "hd (ports_block only rows si b) = hd b" by (simp add: f(1))
  show ?thesis
  proof (cases "port_lines (prop_indent si (tl b)) ?rs = []")
    case True
    then have "port_lines qi ?rs = []" for qi using port_lines_empty by blast
    then show ?thesis using False f(3) hd True
      by (subst (1) ports_block_def) (simp add: Let_def f(1))
  next
    case ne: False
    show ?thesis
      using False f(3) ne
      by (subst (1) ports_block_def) (simp add: hd Let_def f(2) [OF ne], simp add: f(1))
  qed
qed (simp add: ports_block_def)

lemma ports_block_indented:
  assumes "well_indented si b"
  shows "well_indented si (ports_block only rows si b)"
proof (cases "rows_of_service only (service_name (hd b)) rows = []")
  case False
  let ?pi = "prop_indent si (tl b)" and ?rs = "rows_of_service only (service_name (hd b)) rows"
  let ?body = "without_ports ?pi (tl b)" and ?new = "port_lines ?pi ?rs"
  note f = ports_block_facts [OF assms refl False]
  note w = without_ports_facts [OF assms]
  have gt: "si < ?pi" by (rule prop_indent_gt)
  show ?thesis
  proof (cases "?new = []")
    case True
    show ?thesis
    proof (cases "\<exists>l \<in> set ?body. \<not> blank l")
      case t: True
      then have "prop_indent si ?body = ?pi" by (rule starts_at_indented [OF gt w(1,3)])
      then show ?thesis using True w(1,2) by (simp add: f(1) well_indented_def Let_def)
    next
      case f': False
      then have "filter (is_ports qi) ?body = []" for qi
        using is_ports_not_blank by (auto simp: filter_empty_conv)
      then show ?thesis using True f' by (auto simp: f(1) well_indented_def Let_def list_all_iff)
    qed
  next
    case ne: False
    have c: "list_all (\<lambda>l. blank l \<or> ?pi \<le> indent_width l) (core ?body)"
      "list_all (\<lambda>l. blank l \<or> ?pi \<le> indent_width l) (trail ?body)"
      "filter (is_ports ?pi) (core ?body) = []" "filter (is_ports ?pi) (trail ?body) = []"
      using w(1,2) set_core_trail [of ?body] by (auto simp: list_all_iff filter_empty_conv)
    have n: "list_all (\<lambda>l. blank l \<or> ?pi \<le> indent_width l) ?new" "filter (is_ports ?pi) ?new = []"
      using port_lines_deep [of _ ?pi ?rs]
      by (fastforce simp: list_all_iff filter_empty_conv is_ports_def)+
    show ?thesis
      using c n ne indent_pad_ge [of ?pi "''ports:''"]
      by (simp add: well_indented_def Let_def f(2) [OF ne]) (simp add: f(1))
  qed
qed (use assms in \<open>simp add: ports_block_def\<close>)

interpretation ports: block_editor "inject_ports only rows" "ports_block only rows" well_indented
  for only rows
proof unfold_locales
  fix si :: nat and b :: "string list"
  assume "block_ok si b"
  then have "b \<noteq> []" by (auto simp: block_ok_def)
  then show "hd (ports_block only rows si b) = hd b" by (rule ports_block_hd)
qed (simp_all add: inject_ports_block ports_block_ok ports_block_idem ports_block_indented)

section \<open>Reading the services back\<close>

text \<open>\<open>substitute_compose_vars\<close>: \<open>${VAR}\<close> and \<open>${VAR:-default}\<close>; every other byte is pushed as the
  character with its code, so a character outside ASCII becomes two.\<close>

definition push_bytes :: "char \<Rightarrow> string" where
  "push_bytes c =
     (let n = (of_char c :: nat)
      in if n < 128 then [c] else [char_of (192 + n div 64), char_of (128 + n mod 64)])"

type_synonym env_map = "string \<Rightarrow> string option"

definition resolve_var :: "env_map \<Rightarrow> string \<Rightarrow> string" where
  "resolve_var env inner_text =
     (case find_str '':-'' inner_text of
        Some idx \<Rightarrow>
          (case env (take idx inner_text) of None \<Rightarrow> drop (idx + 2) inner_text | Some v \<Rightarrow> v)
      | None \<Rightarrow> (case env inner_text of None \<Rightarrow> [] | Some v \<Rightarrow> v))"

function substitute_compose_vars :: "env_map \<Rightarrow> string \<Rightarrow> string" where
  "substitute_compose_vars env s =
     (case s of
        [] \<Rightarrow> []
      | c # r \<Rightarrow>
          (case (if c = CHR ''$'' \<and> r \<noteq> [] \<and> hd r = CHR ''{'' then split_once (CHR ''}'') (tl r)
                 else None) of
             Some (inner_text, after) \<Rightarrow>
               resolve_var env inner_text @ substitute_compose_vars env after
           | None \<Rightarrow> push_bytes c @ substitute_compose_vars env r))"
  by pat_completeness auto

termination
proof (relation "measure (\<lambda>(env, s). length s)")
  fix env :: env_map and s c r x inner_text after
  assume "s = c # r" "(if c = CHR ''$'' \<and> r \<noteq> [] \<and> hd r = CHR ''{'' then split_once (CHR ''}'') (tl r)
    else None) = Some x" "(inner_text, after) = x"
  then have "split_once (CHR ''}'') (tl r) = Some (inner_text, after)" by (auto split: if_splits)
  then have "length after < Suc (length (tl r))" using split_once_Some by fastforce
  then show "((env, after), env, s) \<in> measure (\<lambda>(env, s). length s)" using \<open>s = c # r\<close> by simp
qed simp_all

declare substitute_compose_vars.simps [simp del]

record compose_service =
  cs_name :: string
  cs_container :: string
  cs_ports :: "(nat \<times> nat) list"

record parse_state =
  ps_services :: "compose_service list"
  ps_in_services :: bool
  ps_service_indent :: "nat option"
  ps_prop_indent :: "nat option"
  ps_in_ports :: bool
  ps_item_indent :: "nat option"
  ps_name :: "string option"
  ps_container :: string
  ps_ports :: "(nat \<times> nat) list"

definition push_current :: "parse_state \<Rightarrow> parse_state" where
  "push_current st =
     (case ps_name st of
        None \<Rightarrow> st
      | Some n \<Rightarrow>
          st\<lparr>ps_services := ps_services st @
               [\<lparr>cs_name = n, cs_container = ps_container st, cs_ports = ps_ports st\<rparr>],
             ps_name := None, ps_container := [], ps_ports := []\<rparr>)"

text \<open>The mapping of one \<open>ports:\<close> item: \<open>container\<close>, \<open>host:container\<close> or \<open>ip:host:container\<close>.\<close>

definition parse_port_item :: "env_map \<Rightarrow> string \<Rightarrow> (nat \<times> nat) option" where
  "parse_port_item env trimmed =
     (let port_str = trim_matches (CHR 0x27) (trim_matches (CHR 0x22)
            (trim (case strip_prefix trimmed ''- '' of None \<Rightarrow> [] | Some r \<Rightarrow> r)));
          parts = split_on (CHR '':'') (hd (split_on (CHR ''/'') (substitute_compose_vars env port_str)));
          u16 = parse_uint 65535;
          zip2 = (\<lambda>a b. case a of None \<Rightarrow> None | Some x \<Rightarrow> map_option (Pair x) b)
      in if length parts = 2 then zip2 (u16 (parts ! 0)) (u16 (parts ! 1))
         else if length parts = 3 then zip2 (u16 (parts ! 1)) (u16 (parts ! 2))
         else if length parts = 1 then map_option (\<lambda>p. (p, p)) (u16 (parts ! 0))
         else None)"

definition strip_comment :: "string \<Rightarrow> string" where
  "strip_comment raw = (case find_str '' #'' raw of Some idx \<Rightarrow> take idx raw | None \<Rightarrow> raw)"

text \<open>A line at the indent of the properties.\<close>

definition parse_property :: "string \<Rightarrow> parse_state \<Rightarrow> parse_state" where
  "parse_property trimmed st =
     (case strip_prefix trimmed ''container_name:'' of
        Some rest \<Rightarrow>
          st\<lparr>ps_in_ports := False,
             ps_container := trim_matches (CHR 0x27) (trim_matches (CHR 0x22) (trim rest))\<rparr>
      | None \<Rightarrow>
          if trimmed = ''ports:'' then st\<lparr>ps_in_ports := True, ps_item_indent := None\<rparr>
          else st\<lparr>ps_in_ports := False\<rparr>)"

text \<open>A line of the body of a service.\<close>

definition parse_body_line :: "env_map \<Rightarrow> nat \<Rightarrow> nat \<Rightarrow> string \<Rightarrow> parse_state \<Rightarrow> parse_state" where
  "parse_body_line env svc indent trimmed st =
     (let st = (if ps_prop_indent st = None \<and> svc < indent
                then st\<lparr>ps_prop_indent := Some indent\<rparr> else st);
          pi = (case ps_prop_indent st of None \<Rightarrow> svc + 2 | Some p \<Rightarrow> p)
      in if indent = pi then parse_property trimmed st
         else if ps_in_ports st \<and> pi < indent \<and> starts_with trimmed ''- '' then
           (let st = (if ps_item_indent st = None then st\<lparr>ps_item_indent := Some indent\<rparr> else st)
            in if ps_item_indent st = Some indent then
                 (case parse_port_item env trimmed of
                    None \<Rightarrow> st | Some p \<Rightarrow> st\<lparr>ps_ports := ps_ports st @ [p]\<rparr>)
               else st)
         else st)"

definition parse_line :: "env_map \<Rightarrow> string \<Rightarrow> parse_state \<Rightarrow> parse_state" where
  "parse_line env raw st =
     (let line = strip_comment raw; trimmed = trim line; indent = indent_width line
      in if trimmed = [] then st
         else if indent = 0 then
           (push_current st)\<lparr>ps_in_services := (trimmed = ''services:''), ps_service_indent := None,
              ps_prop_indent := None, ps_in_ports := False, ps_item_indent := None\<rparr>
         else if \<not> ps_in_services st then st
         else
           (let svc = (case ps_service_indent st of None \<Rightarrow> indent | Some s \<Rightarrow> s);
                st = st\<lparr>ps_service_indent := Some svc\<rparr>
            in if indent = svc \<and> ends_with trimmed '':'' then
                 (push_current st)\<lparr>ps_name := Some (trim_chars_end (\<lambda>c. c = CHR '':'') trimmed),
                    ps_container := [], ps_ports := [], ps_prop_indent := None,
                    ps_in_ports := False, ps_item_indent := None\<rparr>
               else if ps_name st = None then st
               else parse_body_line env svc indent trimmed st))"

definition parse_start :: parse_state where
  "parse_start =
     \<lparr>ps_services = [], ps_in_services = False, ps_service_indent = None, ps_prop_indent = None,
      ps_in_ports = False, ps_item_indent = None, ps_name = None, ps_container = [], ps_ports = []\<rparr>"

definition parse_compose_services :: "string \<Rightarrow> env_map \<Rightarrow> compose_service list" where
  "parse_compose_services yaml env =
     ps_services (push_current (fold (parse_line env) (lines yaml) parse_start))"

section \<open>What the parser reads from a block\<close>

lemma find_str_None: "c \<in> set p \<Longrightarrow> c \<notin> set s \<Longrightarrow> find_str p s = None"
proof (induction s)
  case (Cons x xs)
  have "take (length p) (x # xs) \<noteq> p"
    using Cons.prems by (metis in_set_takeD)
  then show ?case using Cons by (simp add: starts_with_def)
qed auto

text \<open>No line has a comment after other text.\<close>

definition no_comment :: "string \<Rightarrow> bool" where
  "no_comment l = (\<not> contains_str l '' #'')"

lemma strip_no_comment: "no_comment l \<Longrightarrow> strip_comment l = l"
  by (simp add: no_comment_def contains_str_def strip_comment_def)

lemma parse_blank: "blank l \<Longrightarrow> no_comment l \<Longrightarrow> parse_line env l st = st"
  by (simp add: parse_line_def strip_no_comment)

text \<open>The state in the body of a service.\<close>

definition in_body :: "nat \<Rightarrow> parse_state \<Rightarrow> bool" where
  "in_body si st = (ps_in_services st \<and> ps_service_indent st = Some si \<and> ps_name st \<noteq> None)"

lemma parse_body_in_body: "in_body si st \<Longrightarrow> in_body si (parse_body_line env si i l st)"
  by (simp add: in_body_def parse_body_line_def parse_property_def Let_def split: option.splits)

lemma parse_inner:
  assumes "in_body si st" "inner si l" "no_comment l" "\<not> blank l"
  shows "parse_line env l st = parse_body_line env si (indent_width l) (trim l) st"
proof -
  have i: "indent_width l \<noteq> 0" "\<not> (indent_width l = si \<and> ends_with (trim l) '':'')"
    using assms(2,4) by (auto simp: inner_def top_level_def opens_block_def service_head_def)
  have st: "st\<lparr>ps_service_indent := Some si\<rparr> = st" using assms(1) by (simp add: in_body_def)
  show ?thesis
    using assms i by (auto simp: parse_line_def strip_no_comment Let_def in_body_def st)
qed

text \<open>A run over lines that are not at the left of the properties.\<close>

definition plain_line :: "nat \<Rightarrow> nat \<Rightarrow> string \<Rightarrow> bool" where
  "plain_line si pi l = (no_comment l \<and> inner si l \<and> (blank l \<or> pi \<le> indent_width l))"

text \<open>The container name a body declares, last one first.\<close>

definition container_at :: "nat \<Rightarrow> string \<Rightarrow> string \<Rightarrow> string" where
  "container_at pi l old =
     (if \<not> blank l \<and> indent_width l = pi then
        (case strip_prefix (trim l) ''container_name:'' of
           None \<Rightarrow> old
         | Some rest \<Rightarrow> trim_matches (CHR 0x27) (trim_matches (CHR 0x22) (trim rest)))
      else old)"

lemma body_line_props:
  assumes "in_body si st" "ps_prop_indent st = Some pi" "plain_line si pi l" "si < pi"
  shows "in_body si (parse_line env l st) \<and> ps_prop_indent (parse_line env l st) = Some pi \<and>
    ps_services (parse_line env l st) = ps_services st \<and>
    ps_name (parse_line env l st) = ps_name st \<and>
    ps_container (parse_line env l st) = container_at pi l (ps_container st) \<and>
    (\<not> ps_in_ports st \<and> \<not> is_ports pi l \<longrightarrow>
       \<not> ps_in_ports (parse_line env l st) \<and> ps_ports (parse_line env l st) = ps_ports st)"
proof (cases "blank l")
  case False
  have p: "parse_line env l st = parse_body_line env si (indent_width l) (trim l) st"
    using assms(1,3) False by (intro parse_inner) (simp_all add: plain_line_def)
  have ge: "pi \<le> indent_width l" using assms(3) False by (simp add: plain_line_def)
  show ?thesis
  proof (cases "indent_width l = pi")
    case True
    then show ?thesis
      using assms(2) False parse_body_in_body [OF assms(1), of env "indent_width l" "trim l"]
      by (simp add: p parse_body_line_def parse_property_def Let_def container_at_def is_ports_def
          split: option.splits)
  next
    case False
    then show ?thesis
      using assms(2) ge parse_body_in_body [OF assms(1), of env "indent_width l" "trim l"]
      by (simp add: p parse_body_line_def Let_def container_at_def split: option.splits)
  qed
qed (use assms in \<open>simp add: parse_blank plain_line_def container_at_def\<close>)

lemma body_lines_props:
  assumes "in_body si st" "ps_prop_indent st = Some pi" "list_all (plain_line si pi) ls" "si < pi"
  shows "in_body si (fold (parse_line env) ls st) \<and>
    ps_prop_indent (fold (parse_line env) ls st) = Some pi \<and>
    ps_services (fold (parse_line env) ls st) = ps_services st \<and>
    ps_name (fold (parse_line env) ls st) = ps_name st \<and>
    ps_container (fold (parse_line env) ls st) = fold (container_at pi) ls (ps_container st) \<and>
    (\<not> ps_in_ports st \<and> (\<forall>l \<in> set ls. \<not> is_ports pi l) \<longrightarrow>
       \<not> ps_in_ports (fold (parse_line env) ls st) \<and>
       ps_ports (fold (parse_line env) ls st) = ps_ports st)"
  using assms(1-3)
proof (induction ls arbitrary: st)
  case (Cons l ls)
  have l: "plain_line si pi l" "list_all (plain_line si pi) ls" using Cons.prems(3) by simp_all
  note p = body_line_props [OF Cons.prems(1,2) l(1) assms(4), of env]
  note q = Cons.IH [of "parse_line env l st", OF _ _ l(2)]
  show ?case using p q by auto
qed simp

text \<open>The first line that is not blank sets the indent of the properties; nothing is lost by
  setting it before.\<close>

lemma preset_indent:
  assumes "in_body si st" "ps_prop_indent st = None" "si < pi" "list_all (plain_line si pi) ls"
    "starts_at pi ls" "\<exists>l \<in> set ls. \<not> blank l"
  shows "fold (parse_line env) ls st = fold (parse_line env) ls (st\<lparr>ps_prop_indent := Some pi\<rparr>)"
  using assms(4-6)
proof (induction ls)
  case (Cons l ls)
  show ?case
  proof (cases "blank l")
    case True
    then show ?thesis using Cons by (auto simp: parse_blank plain_line_def starts_at_def)
  next
    case False
    then have i: "indent_width l = pi" using Cons.prems(2) by (simp add: starts_at_def)
    have b: "in_body si (st\<lparr>ps_prop_indent := Some pi\<rparr>)" using assms(1) by (simp add: in_body_def)
    have "parse_line env l st = parse_line env l (st\<lparr>ps_prop_indent := Some pi\<rparr>)"
      using parse_inner [OF assms(1)] parse_inner [OF b] False Cons.prems(1) assms(2,3) i
      by (simp add: plain_line_def parse_body_line_def)
    then show ?thesis by simp
  qed
qed simp

subsection \<open>The binding lines\<close>

definition plain_char :: "char \<Rightarrow> bool" where
  "plain_char c = (c \<noteq> CHR ''$'' \<and> (of_char c :: nat) < 128)"

lemma substitute_plain: "list_all plain_char s \<Longrightarrow> substitute_compose_vars env s = s"
proof (induction s)
  case (Cons c s)
  then show ?case
    by (subst substitute_compose_vars.simps) (simp add: plain_char_def push_bytes_def)
qed (simp add: substitute_compose_vars.simps)

lemma digit_plain: "is_digit c \<Longrightarrow> plain_char c"
  by (auto simp: is_digit_def plain_char_def Let_def)

lemma dec_plain: "list_all plain_char (dec n)"
  using dec_digits [of n] digit_plain by (auto simp: list_all_iff)

lemma dec_notin: "\<not> is_digit c \<Longrightarrow> c \<notin> set (dec n)"
  using dec_set by blast

lemma dec_hd_last: "is_digit (hd (dec n))" "is_digit (last (dec n))"
  using dec_set [of _ n] by (simp_all add: dec_ne)

lemma trim_matches_id: "x \<noteq> [] \<Longrightarrow> hd x \<noteq> c \<Longrightarrow> last x \<noteq> c \<Longrightarrow> trim_matches c x = x"
proof -
  assume a: "x \<noteq> []" "hd x \<noteq> c" "last x \<noteq> c"
  have "dropWhile (\<lambda>y. y = c) x = x" using a by (cases x) simp_all
  moreover have "dropWhile (\<lambda>y. y = c) (rev x) = rev x"
    using a by (cases x rule: rev_cases) simp_all
  ultimately show ?thesis
    by (simp add: trim_matches_def trim_chars_start_def trim_chars_end_def)
qed

lemma trim_matches_quoted:
  assumes "x \<noteq> []" "hd x \<noteq> c" "last x \<noteq> c"
  shows "trim_matches c (c # x @ [c]) = x"
proof -
  have "dropWhile (\<lambda>y. y = c) (c # x @ [c]) = x @ [c]" using assms by (cases x) simp_all
  moreover have "dropWhile (\<lambda>y. y = c) (rev (x @ [c])) = rev x"
    using assms by (cases x rule: rev_cases) simp_all
  ultimately show ?thesis
    by (simp add: trim_matches_def trim_chars_start_def trim_chars_end_def)
qed

definition quoted_binding :: "string \<Rightarrow> nat \<Rightarrow> nat \<Rightarrow> string" where
  "quoted_binding ip h c = ip @ '':'' @ dec h @ '':'' @ dec c"

lemma parse_quoted_binding:
  assumes ip: "ip = ''0.0.0.0'' \<or> ip = ''127.0.0.1''" and "h \<le> 65535" "c \<le> 65535"
  shows "parse_port_item env (''- '' @ [CHR 0x22] @ quoted_binding ip h c @ [CHR 0x22]) = Some (h, c)"
proof -
  let ?x = "quoted_binding ip h c"
  have ne: "?x \<noteq> []" by (simp add: quoted_binding_def)
  have hd: "is_digit (hd ?x)"
    using ip by (auto simp: quoted_binding_def is_digit_def)
  have last: "is_digit (last ?x)"
    using dec_hd_last(2) [of c] by (simp add: quoted_binding_def)
  have q: "hd ?x \<noteq> CHR 0x22" "last ?x \<noteq> CHR 0x22" "hd ?x \<noteq> CHR 0x27" "last ?x \<noteq> CHR 0x27"
    using hd last by (auto simp: is_digit_def)
  have t: "trim (CHR 0x22 # ?x @ [CHR 0x22]) = CHR 0x22 # ?x @ [CHR 0x22]"
    by (rule trim_id) (simp add: is_ws_def)
  have plain: "list_all plain_char ?x"
    using ip dec_plain by (auto simp: quoted_binding_def plain_char_def)
  have noslash: "CHR ''/'' \<notin> set ?x"
    using ip dec_notin [of "CHR ''/''"] by (auto simp: quoted_binding_def is_digit_def)
  have nocolon: "CHR '':'' \<notin> set (dec n)" for n by (rule dec_notin) (simp add: is_digit_def)
  have parts: "split_on (CHR '':'') ?x = [ip, dec h, dec c]"
  proof -
    have "CHR '':'' \<notin> set ip" using ip by auto
    then show ?thesis
      using nocolon split_on_append [of "CHR '':''" ip "dec h @ '':'' @ dec c"]
        split_on_append [of "CHR '':''" "dec h" "dec c"] split_on_notin [of "CHR '':''" "dec c"]
      by (simp add: quoted_binding_def)
  qed
  have "trim_matches (CHR 0x27) (trim_matches (CHR 0x22) (trim (CHR 0x22 # ?x @ [CHR 0x22]))) = ?x"
    unfolding t using trim_matches_quoted [OF ne q(1,2)] trim_matches_id [OF ne q(3,4)] by simp
  then show ?thesis
    using assms(2,3)
    by (simp add: parse_port_item_def strip_prefix_def starts_with_def Let_def
        substitute_plain [OF plain] split_on_notin [OF noslash] parts parse_dec)
qed

text \<open>The binding a row stands for.\<close>

definition row_binding :: "port_row \<Rightarrow> (nat \<times> nat) option" where
  "row_binding r =
     (if pr_public r then map_option (\<lambda>pp. (pp, pr_container r)) (pr_public_port r)
      else Some (pr_host r, pr_container r))"

definition u16_row :: "port_row \<Rightarrow> bool" where
  "u16_row r = (pr_container r \<le> 65535 \<and> pr_host r \<le> 65535 \<and>
     (case pr_public_port r of None \<Rightarrow> True | Some pp \<Rightarrow> pp \<le> 65535))"

lemma port_line_quoted:
  "port_line pi r =
     (case row_binding r of
        None \<Rightarrow> []
      | Some (h, c) \<Rightarrow>
          [pad (pi + 2) @ ''- '' @ [CHR 0x22] @
           quoted_binding (if pr_public r then ''0.0.0.0'' else ''127.0.0.1'') h c @ [CHR 0x22]])"
  by (simp add: port_line_def row_binding_def quoted_binding_def split: option.splits)

lemma row_binding_u16: "u16_row r \<Longrightarrow> row_binding r = Some (h, c) \<Longrightarrow> h \<le> 65535 \<and> c \<le> 65535"
  by (auto simp: u16_row_def row_binding_def split: if_splits option.splits)

lemma quoted_line:
  assumes ip: "ip = ''0.0.0.0'' \<or> ip = ''127.0.0.1''" and h: "h \<le> 65535" "c \<le> 65535"
    and l: "l = pad (pi + 2) @ ''- '' @ [CHR 0x22] @ quoted_binding ip h c @ [CHR 0x22]"
  shows "no_comment l \<and> clean_line l \<and> indent_width l = pi + 2 \<and> \<not> blank l \<and>
    starts_with (trim l) ''- '' \<and> parse_port_item env (trim l) = Some (h, c)"
proof -
  let ?x = "''- '' @ [CHR 0x22] @ quoted_binding ip h c @ [CHR 0x22]"
  have t: "trim l = ?x"
    unfolding l trim_pad by (rule trim_id) (simp add: is_ws_def)
  have chars: "CHR ''#'' \<notin> set l" "NL \<notin> set l"
    using ip dec_notin [of "CHR ''#''"] dec_notin [of NL]
    by (auto simp: l quoted_binding_def pad_def is_digit_def split: if_splits)
  have "no_comment l"
    using chars(1) find_str_None [of "CHR ''#''" "'' #''" l]
    by (simp add: no_comment_def contains_str_def)
  moreover have "clean_line l" using chars(2) by (simp add: clean_line_def l)
  moreover have "indent_width l = pi + 2" by (simp add: l)
  ultimately show ?thesis
    using t parse_quoted_binding [OF ip h, of env] by (simp add: starts_with_def)
qed

definition bindings :: "port_row list \<Rightarrow> (nat \<times> nat) list" where
  "bindings rows = concat (map (\<lambda>r. case row_binding r of None \<Rightarrow> [] | Some b \<Rightarrow> [b]) (first_rows [] rows))"

lemma first_rows_subset: "r \<in> set (first_rows seen rows) \<Longrightarrow> r \<in> set rows"
  by (induction rows arbitrary: seen) (auto split: if_splits)

lemma parse_item_line:
  assumes "in_body si st" "ps_prop_indent st = Some pi" "ps_in_ports st" "si < pi"
    "ps_item_indent st = None \<or> ps_item_indent st = Some (pi + 2)"
    "no_comment l" "indent_width l = pi + 2" "\<not> blank l" "starts_with (trim l) ''- ''"
    "parse_port_item env (trim l) = Some b"
  shows "parse_line env l st =
    st\<lparr>ps_item_indent := Some (pi + 2), ps_ports := ps_ports st @ [b]\<rparr>"
proof -
  have "inner si l" using assms(1,4,7) by (simp add: inner_def top_level_def opens_block_def service_head_def)
  then have "parse_line env l st = parse_body_line env si (pi + 2) (trim l) st"
    using parse_inner [OF assms(1)] assms(6-8) by simp
  then show ?thesis
    using assms(2,3,5,9,10) by (cases st) (auto simp: parse_body_line_def Let_def)
qed

lemma parse_items:
  assumes "si < pi" "\<forall>r \<in> set rs. u16_row r" "in_body si st" "ps_prop_indent st = Some pi"
    "ps_in_ports st" "ps_item_indent st = None \<or> ps_item_indent st = Some (pi + 2)"
  shows "ps_ports (fold (parse_line env) (concat (map (port_line pi) rs)) st) =
      ps_ports st @ concat (map (\<lambda>r. case row_binding r of None \<Rightarrow> [] | Some b \<Rightarrow> [b]) rs) \<and>
    in_body si (fold (parse_line env) (concat (map (port_line pi) rs)) st) \<and>
    ps_prop_indent (fold (parse_line env) (concat (map (port_line pi) rs)) st) = Some pi"
  using assms(2-6)
proof (induction rs arbitrary: st)
  case (Cons r rs)
  have u: "u16_row r" "\<forall>r \<in> set rs. u16_row r" using Cons.prems(1) by auto
  show ?case
  proof (cases "row_binding r")
    case None
    then show ?thesis using Cons.IH [OF u(2) Cons.prems(2-5)] by (simp add: port_line_quoted)
  next
    case (Some b)
    obtain h c where b: "b = (h, c)" by fastforce
    let ?ip = "if pr_public r then ''0.0.0.0'' else ''127.0.0.1''"
    let ?l = "pad (pi + 2) @ ''- '' @ [CHR 0x22] @ quoted_binding ?ip h c @ [CHR 0x22]"
    have hc: "h \<le> 65535" "c \<le> 65535" using row_binding_u16 [OF u(1)] Some b by auto
    have q: "no_comment ?l \<and> clean_line ?l \<and> indent_width ?l = pi + 2 \<and> \<not> blank ?l \<and>
        starts_with (trim ?l) ''- '' \<and> parse_port_item env (trim ?l) = Some (h, c)"
      by (rule quoted_line [OF _ hc refl]) simp
    have one: "parse_line env ?l st =
        st\<lparr>ps_item_indent := Some (pi + 2), ps_ports := ps_ports st @ [(h, c)]\<rparr>"
      using q by (intro parse_item_line [OF Cons.prems(2-4) assms(1) Cons.prems(5)]) auto
    have pl: "port_line pi r = [?l]" using Some b by (simp add: port_line_quoted)
    let ?st = "st\<lparr>ps_item_indent := Some (pi + 2), ps_ports := ps_ports st @ [(h, c)]\<rparr>"
    have "in_body si ?st" using Cons.prems(2) by (simp add: in_body_def)
    then show ?thesis
      using Cons.IH [OF u(2), of ?st] Cons.prems(3,4) Some b one
      by (simp only: pl list.map concat.simps append_Cons append_Nil fold_simps) simp
  qed
qed simp

text \<open>The service a block is read as: the parser starts with its first line and runs over its
  body.\<close>

definition parsed_name :: "string \<Rightarrow> string" where
  "parsed_name h = trim_chars_end (\<lambda>c. c = CHR '':'') (trim h)"

definition body_state :: "nat \<Rightarrow> string \<Rightarrow> compose_service list \<Rightarrow> parse_state" where
  "body_state si h done_services =
     \<lparr>ps_services = done_services, ps_in_services = True, ps_service_indent = Some si,
      ps_prop_indent = None, ps_in_ports = False, ps_item_indent = None,
      ps_name = Some (parsed_name h), ps_container = [], ps_ports = []\<rparr>"

definition block_service :: "env_map \<Rightarrow> nat \<Rightarrow> string list \<Rightarrow> compose_service" where
  "block_service env si b =
     (let st = fold (parse_line env) (tl b) (body_state si (hd b) [])
      in \<lparr>cs_name = parsed_name (hd b), cs_container = ps_container st, cs_ports = ps_ports st\<rparr>)"

text \<open>The services read before do not matter.\<close>

definition with_done :: "compose_service list \<Rightarrow> parse_state \<Rightarrow> parse_state" where
  "with_done S st = st\<lparr>ps_services := S @ ps_services st\<rparr>"

lemma with_done_sel:
  "ps_in_services (with_done S st) = ps_in_services st"
  "ps_service_indent (with_done S st) = ps_service_indent st"
  "ps_prop_indent (with_done S st) = ps_prop_indent st"
  "ps_in_ports (with_done S st) = ps_in_ports st"
  "ps_item_indent (with_done S st) = ps_item_indent st"
  "ps_name (with_done S st) = ps_name st"
  "ps_ports (with_done S st) = ps_ports st"
  by (simp_all add: with_done_def)

lemma with_done_upd:
  "(with_done S st)\<lparr>ps_in_services := b\<rparr> = with_done S (st\<lparr>ps_in_services := b\<rparr>)"
  "(with_done S st)\<lparr>ps_service_indent := n\<rparr> = with_done S (st\<lparr>ps_service_indent := n\<rparr>)"
  "(with_done S st)\<lparr>ps_prop_indent := n\<rparr> = with_done S (st\<lparr>ps_prop_indent := n\<rparr>)"
  "(with_done S st)\<lparr>ps_in_ports := b\<rparr> = with_done S (st\<lparr>ps_in_ports := b\<rparr>)"
  "(with_done S st)\<lparr>ps_item_indent := n\<rparr> = with_done S (st\<lparr>ps_item_indent := n\<rparr>)"
  "(with_done S st)\<lparr>ps_name := m\<rparr> = with_done S (st\<lparr>ps_name := m\<rparr>)"
  "(with_done S st)\<lparr>ps_container := c\<rparr> = with_done S (st\<lparr>ps_container := c\<rparr>)"
  "(with_done S st)\<lparr>ps_ports := p\<rparr> = with_done S (st\<lparr>ps_ports := p\<rparr>)"
  by (simp_all add: with_done_def)

lemma push_current_done: "push_current (with_done S st) = with_done S (push_current st)"
  by (simp add: push_current_def with_done_def split: option.split)

lemma parse_property_done:
  "parse_property l (with_done S st) = with_done S (parse_property l st)"
  by (simp add: parse_property_def with_done_upd split: option.split)

lemma parse_body_line_done:
  "parse_body_line env svc i l (with_done S st) = with_done S (parse_body_line env svc i l st)"
  by (simp add: parse_body_line_def Let_def with_done_sel with_done_upd parse_property_done
      split: option.split)

lemma parse_line_done: "parse_line env l (with_done S st) = with_done S (parse_line env l st)"
  by (simp add: parse_line_def Let_def with_done_sel with_done_upd push_current_done
      parse_body_line_done)

lemma fold_done: "fold (parse_line env) ls (with_done S st) = with_done S (fold (parse_line env) ls st)"
  by (induction ls arbitrary: st) (simp_all add: parse_line_done)

subsection \<open>A file is read block by block\<close>

definition readable :: "nat \<Rightarrow> string list \<Rightarrow> bool" where
  "readable si b = (block_ok si b \<and> well_indented si b \<and> list_all no_comment b)"

definition at_services :: "nat \<Rightarrow> parse_state \<Rightarrow> bool" where
  "at_services si st =
     (ps_in_services st \<and> (ps_service_indent st = None \<or> ps_service_indent st = Some si))"

lemma parse_head:
  assumes "0 < si" "at_services si st" "opens_block si h" "no_comment h"
  shows "parse_line env h st = body_state si h (ps_services (push_current st))"
proof -
  have h: "\<not> blank h" "indent_width h = si" "ends_with (trim h) '':''"
    using assms(3) by (simp_all add: opens_block_def service_head_def)
  have svc: "(case ps_service_indent st of None \<Rightarrow> indent_width h | Some s \<Rightarrow> s) = si"
    and ins: "ps_in_services st"
    using assms(2) h(2) by (auto simp: at_services_def)
  have "parse_line env h st =
      (push_current (st\<lparr>ps_service_indent := Some si\<rparr>))\<lparr>ps_name := Some (parsed_name h),
         ps_container := [], ps_ports := [], ps_prop_indent := None, ps_in_ports := False,
         ps_item_indent := None\<rparr>"
    using h assms(1) ins
    by (simp add: parse_line_def strip_no_comment [OF assms(4)] Let_def svc parsed_name_def)
  then show ?thesis
    using ins by (simp add: push_current_def body_state_def split: option.split)
qed

lemma readable_body:
  assumes "readable si b"
  defines "pi \<equiv> prop_indent si (tl b)"
  shows "b = hd b # tl b" "opens_block si (hd b)" "no_comment (hd b)"
    "list_all (plain_line si pi) (tl b)" "starts_at pi (tl b)" "si < pi"
proof -
  have b: "block_ok si b" "well_indented si b" "list_all no_comment b"
    using assms(1) by (simp_all add: readable_def)
  then show "b = hd b # tl b" "opens_block si (hd b)" "no_comment (hd b)"
    by (auto simp: block_ok_def split: list.splits)
  have w: "list_all (\<lambda>l. blank l \<or> pi \<le> indent_width l) (tl b)"
    using b(2) by (simp add: well_indented_def Let_def pi_def)
  show "list_all (plain_line si pi) (tl b)"
    using b(1,3) w by (cases b) (auto simp: block_ok_def plain_line_def list_all_iff)
  show "starts_at pi (tl b)" using indented_starts_at w by (simp add: pi_def)
  show "si < pi" by (simp add: pi_def prop_indent_gt)
qed

lemma body_state_in: "in_body si (body_state si h S)"
  by (simp add: in_body_def body_state_def)

text \<open>The run over the body of a readable block, with the indent of the properties preset.\<close>

lemma fold_blank: "\<forall>l \<in> set ls. blank l \<and> no_comment l \<Longrightarrow> fold (parse_line env) ls st = st"
  by (induction ls) (simp_all add: parse_blank)

lemma body_run:
  assumes "readable si b"
  defines "pi \<equiv> prop_indent si (tl b)"
  shows "fold (parse_line env) (tl b) (body_state si (hd b) S) =
     (if \<exists>l \<in> set (tl b). \<not> blank l
      then fold (parse_line env) (tl b) ((body_state si (hd b) S)\<lparr>ps_prop_indent := Some pi\<rparr>)
      else body_state si (hd b) S)"
proof (cases "\<exists>l \<in> set (tl b). \<not> blank l")
  case True
  have "ps_prop_indent (body_state si (hd b) S) = None" by (simp add: body_state_def)
  then show ?thesis
    using preset_indent [OF body_state_in _ readable_body(6) [OF assms(1)]
        readable_body(4) [OF assms(1)] readable_body(5) [OF assms(1)] True] True
    by (simp add: pi_def)
next
  case False
  have "\<forall>l \<in> set (tl b). no_comment l"
    using readable_body(4) [OF assms(1)] by (simp add: plain_line_def list_all_iff)
  then have "\<forall>l \<in> set (tl b). blank l \<and> no_comment l" using False by blast
  then show ?thesis using False fold_blank by auto
qed

lemma container_blank: "\<forall>l \<in> set ls. blank l \<Longrightarrow> fold (container_at pi) ls c = c"
  by (induction ls arbitrary: c) (simp_all add: container_at_def)

lemma body_run_facts:
  assumes "readable si b"
    and "st = fold (parse_line env) (tl b) (body_state si (hd b) S)"
  shows "in_body si st" "ps_services st = S" "ps_name st = Some (parsed_name (hd b))"
    "ps_container st = fold (container_at (prop_indent si (tl b))) (tl b) []"
proof -
  let ?pi = "prop_indent si (tl b)" and ?st = "body_state si (hd b) S"
  have "in_body si st \<and> ps_services st = S \<and> ps_name st = Some (parsed_name (hd b)) \<and>
    ps_container st = fold (container_at ?pi) (tl b) []"
  proof (cases "\<exists>l \<in> set (tl b). \<not> blank l")
    case True
    have "in_body si (?st\<lparr>ps_prop_indent := Some ?pi\<rparr>)" by (simp add: in_body_def body_state_def)
    from body_lines_props [OF this _ readable_body(4,6) [OF assms(1)], of env]
    show ?thesis using body_run [OF assms(1), of env S] True
      by (simp add: assms(2)) (simp add: body_state_def)
  next
    case False
    then have "fold (container_at ?pi) (tl b) c = c" for c
      by (intro container_blank) simp
    then show ?thesis using body_run [OF assms(1), of env S] False body_state_in
      by (simp add: assms(2)) (simp add: body_state_def)
  qed
  then show "in_body si st" "ps_services st = S" "ps_name st = Some (parsed_name (hd b))"
    "ps_container st = fold (container_at ?pi) (tl b) []" by blast+
qed

lemma parse_block:
  assumes "0 < si" "at_services si st" "readable si b"
    and st'_def: "st' = fold (parse_line env) b st"
  shows "at_services si st' \<and>
    ps_services (push_current st') = ps_services (push_current st) @ [block_service env si b]"
proof -
  let ?S = "ps_services (push_current st)" and ?start = "body_state si (hd b)"
  note r = readable_body [OF assms(3)]
  have "st' = fold (parse_line env) (tl b) (parse_line env (hd b) st)"
    unfolding st'_def by (subst r(1)) simp
  then have st': "st' = fold (parse_line env) (tl b) (?start ?S)"
    using parse_head [OF assms(1,2) r(2,3)] by simp
  have "?start ?S = with_done ?S (?start [])" by (simp add: with_done_def body_state_def)
  then have eq: "st' = with_done ?S (fold (parse_line env) (tl b) (?start []))"
    using st' fold_done by metis
  note f = body_run_facts [OF assms(3) st']
  note g = body_run_facts [OF assms(3) refl, of env "[]"]
  have "ps_ports st' = ps_ports (fold (parse_line env) (tl b) (?start []))"
    by (simp add: eq with_done_sel)
  then show ?thesis
    using f g(4) by (simp add: at_services_def in_body_def push_current_def block_service_def Let_def)
qed

lemma parse_blocks:
  assumes "0 < si" "at_services si st" "list_all (readable si) bs"
  shows "at_services si (fold (parse_line env) (concat bs) st) \<and>
    ps_services (push_current (fold (parse_line env) (concat bs) st)) =
      ps_services (push_current st) @ map (block_service env si) bs"
  using assms(2,3)
proof (induction bs arbitrary: st)
  case (Cons b bs)
  then show ?case using parse_block [OF assms(1) Cons.prems(1) _ refl, of b env] by auto
qed simp

subsection \<open>The injected block, read back\<close>

lemma container_neutral:
  "blank l \<or> indent_width l \<noteq> pi \<or> is_ports pi l \<Longrightarrow> container_at pi l c = c"
  by (auto simp: container_at_def is_ports_def strip_prefix_def starts_with_def)

lemma container_neutral_fold:
  "\<forall>l \<in> set ls. blank l \<or> indent_width l \<noteq> pi \<or> is_ports pi l \<Longrightarrow>
   fold (container_at pi) ls c = c"
  by (induction ls arbitrary: c) (auto simp: container_neutral)

lemma container_without_ports:
  "fold (container_at pi) (without_ports pi body) c = fold (container_at pi) body c"
proof (cases "position (is_ports pi) body")
  case (Some rel)
  let ?rest = "drop (Suc rel) body"
  have len: "rel < length body" "is_ports pi (body ! rel)" using position_Some [OF Some] by auto
  have body: "body = take rel body @ (body ! rel) # takeWhile (below_ports pi) ?rest @
      dropWhile (below_ports pi) ?rest"
    using len(1) by (simp add: id_take_nth_drop)
  have tw: "fold (container_at pi) (takeWhile (below_ports pi) ?rest) d = d" for d
    by (intro container_neutral_fold) (auto simp: below_ports_def dest!: set_takeWhileD)
  have tr: "fold (container_at pi) (trail (takeWhile (below_ports pi) ?rest)) d = d" for d
    by (intro container_blank) (auto dest: trail_blank)
  have "fold (container_at pi) body c =
      fold (container_at pi) (dropWhile (below_ports pi) ?rest) (fold (container_at pi) (take rel body) c)"
    by (subst body)
       (simp add: tw container_neutral len(2) del: takeWhile_dropWhile_id)
  then show ?thesis using Some by (simp add: without_ports_def tr)
qed (simp add: without_ports_none)

lemma container_fresh_ports:
  "fold (container_at pi) (core body @ ((pad pi @ ''ports:'') # port_lines pi rs) @ trail body) c =
   fold (container_at pi) body c"
proof -
  have "fold (container_at pi) (port_lines pi rs) d = d" for d
    using port_lines_deep by (intro container_neutral_fold) fastforce
  moreover have "fold (container_at pi) (trail body) d = d" for d
    by (intro container_blank) (auto dest: trail_blank)
  moreover have "fold (container_at pi) body c =
      fold (container_at pi) (trail body) (fold (container_at pi) (core body) c)"
    by (metis core_trail fold_append comp_apply)
  ultimately show ?thesis by (simp add: container_neutral)
qed

lemma bindings_Nil: "bindings rs = [] \<longleftrightarrow> port_lines pi rs = []"
  by (auto simp: bindings_def port_lines_def port_line_quoted split: option.splits)

text \<open>The lines the injector adds carry no comment and no line end.\<close>

lemma port_lines_plain:
  assumes "\<forall>r \<in> set rs. u16_row r" "l \<in> set (port_lines pi rs)"
  shows "no_comment l \<and> clean_line l"
proof -
  obtain r where r: "r \<in> set (first_rows [] rs)" "l \<in> set (port_line pi r)"
    using assms(2) by (auto simp: port_lines_def)
  have "row_binding r \<noteq> None"
  proof
    assume "row_binding r = None"
    then show False using r(2) by (simp add: port_line_quoted)
  qed
  then obtain bd where bd: "row_binding r = Some bd" by blast
  obtain h c where hc: "bd = (h, c)" by fastforce
  have b: "row_binding r = Some (h, c)" using bd hc by simp
  have l: "l = pad (pi + 2) @ ''- '' @ [CHR 0x22] @
      quoted_binding (if pr_public r then ''0.0.0.0'' else ''127.0.0.1'') h c @ [CHR 0x22]"
    using r(2) b by (simp add: port_line_quoted)
  have "u16_row r" using assms(1) first_rows_subset [OF r(1)] by blast
  then have "h \<le> 65535" "c \<le> 65535" using row_binding_u16 b by blast+
  then show ?thesis using quoted_line [OF _ _ _ l] by (auto split: if_splits)
qed

lemma ports_key_plain: "no_comment (pad pi @ ''ports:'') \<and> clean_line (pad pi @ ''ports:'')"
proof -
  have "CHR ''#'' \<notin> set (pad pi @ ''ports:'')" "NL \<notin> set (pad pi @ ''ports:'')"
    by (auto simp: pad_def split: if_splits)
  then show ?thesis
    using find_str_None [of "CHR ''#''" "'' #''"]
    by (simp add: no_comment_def contains_str_def clean_line_def)
qed

lemma ports_block_lines:
  assumes "\<forall>r \<in> set rows. u16_row r" "b \<noteq> []" "l \<in> set (ports_block only rows si b)"
  shows "l \<in> set b \<or> (no_comment l \<and> clean_line l)"
proof -
  let ?rs = "rows_of_service only (service_name (hd b)) rows" and ?pi = "prop_indent si (tl b)"
  have u: "\<forall>r \<in> set ?rs. u16_row r" using assms(1) by (simp add: rows_of_service_def)
  have "l \<in> set b \<or> l \<in> set (without_ports ?pi (tl b)) \<or> l = pad ?pi @ ''ports:'' \<or>
      l \<in> set (port_lines ?pi ?rs)"
    using assms(2,3) set_core [of l] set_core_trail [of "without_ports ?pi (tl b)"]
    by (auto simp: ports_block_def Let_def split: if_splits)
  then show ?thesis
    using set_without_ports [of l ?pi "tl b"] port_lines_plain [OF u] ports_key_plain assms(2)
    by (metis list.set_sel(2))
qed

lemma ports_block_readable:
  assumes "0 < si" "\<forall>r \<in> set rows. u16_row r" "readable si b"
  shows "readable si (ports_block only rows si b)"
proof -
  have b: "block_ok si b" "well_indented si b" "list_all no_comment b"
    using assms(3) by (simp_all add: readable_def)
  then have "b \<noteq> []" by (auto simp: block_ok_def)
  then have "list_all no_comment (ports_block only rows si b)"
    using ports_block_lines [OF assms(2)] b(3) by (fastforce simp: list_all_iff)
  then show ?thesis
    using ports_block_ok [OF assms(1) b(1)] ports_block_indented [OF b(2)] by (simp add: readable_def)
qed

lemma readable_ports_service:
  assumes "0 < si" "\<forall>r \<in> set rows. u16_row r" "readable si b"
    and rs: "rows_of_service only (service_name (hd b)) rows = rs" "rs \<noteq> []"
  shows "cs_ports (block_service env si (ports_block only rows si b)) = bindings rs"
proof -
  define pi where "pi = prop_indent si (tl b)"
  define body where "body = without_ports pi (tl b)"
  define new where "new = port_lines pi rs"
  define b' where "b' = ports_block only rows si b"
  have wi: "well_indented si b" using assms(3) by (simp add: readable_def)
  note f = ports_block_facts [OF wi rs, folded pi_def, folded body_def new_def, folded b'_def]
  note w = without_ports_facts [OF wi, folded pi_def, folded body_def]
  have rb: "readable si b'" unfolding b'_def by (rule ports_block_readable [OF assms(1-3)])
  have gt: "si < pi" by (simp add: pi_def prop_indent_gt)
  have u: "\<forall>r \<in> set (first_rows [] rs). u16_row r"
    using assms(2) rs(1) first_rows_subset by (fastforce simp: rows_of_service_def)
  let ?start = "body_state si (hd b') []"
  let ?set = "?start\<lparr>ps_prop_indent := Some pi\<rparr>"
  have st0: "in_body si ?set" "ps_prop_indent ?set = Some pi" "\<not> ps_in_ports ?set" "ps_ports ?set = []"
    by (simp_all add: in_body_def body_state_def)
  have "ps_ports (fold (parse_line env) (tl b') ?start) = bindings rs"
  proof (cases "new = []")
    case True
    then have tl: "tl b' = body" using f(1) by simp
    have nil: "bindings rs = []" using True bindings_Nil by (simp add: new_def)
    show ?thesis
    proof (cases "\<exists>l \<in> set body. \<not> blank l")
      case nb: True
      then have pi': "prop_indent si body = pi" by (rule starts_at_indented [OF gt w(1,3)])
      have pl: "list_all (plain_line si pi) body"
        using readable_body(4) [OF rb] unfolding tl pi' .
      have "ps_ports (fold (parse_line env) body ?set) = []"
        using body_lines_props [OF st0(1,2) pl gt, of env] st0(3,4) w(2) by simp
      then show ?thesis using body_run [OF rb, of env "[]"] nb by (simp add: tl pi' nil)
    next
      case False
      then show ?thesis
        using body_run [OF rb, of env "[]"] by (simp add: tl nil) (simp add: body_state_def)
    qed
  next
    case False
    have tl: "tl b' = core body @ ((pad pi @ ''ports:'') # new) @ trail body" using f(1) False by simp
    have pi': "prop_indent si (tl b') = pi" using f(2) False by simp
    have pl: "list_all (plain_line si pi) (tl b')" using readable_body(4) [OF rb] unfolding pi' .
    have plc: "list_all (plain_line si pi) (core body)" "plain_line si pi (pad pi @ ''ports:'')"
      "list_all (plain_line si pi) (trail body)"
      using pl unfolding tl by simp_all
    have nb: "\<exists>l \<in> set (tl b'). \<not> blank l"
      using is_ports_not_blank [OF ports_key [of pi]] unfolding tl by auto
    define s1 where "s1 = fold (parse_line env) (core body) ?set"
    have s1: "in_body si s1" "ps_prop_indent s1 = Some pi" "ps_ports s1 = []"
      using body_lines_props [OF st0(1,2) plc(1) gt, of env] st0(3,4) w(2) set_core [of _ body]
      by (auto simp: s1_def)
    define s2 where "s2 = s1\<lparr>ps_in_ports := True, ps_item_indent := None\<rparr>"
    have "parse_line env (pad pi @ ''ports:'') s1 =
        parse_body_line env si (indent_width (pad pi @ ''ports:'')) (trim (pad pi @ ''ports:'')) s1"
      using plc(2) is_ports_not_blank [OF ports_key [of pi]]
      by (intro parse_inner [OF s1(1)]) (simp_all add: plain_line_def)
    then have key: "parse_line env (pad pi @ ''ports:'') s1 = s2"
      using ports_key [of pi] s1(2)
      by (simp add: is_ports_def parse_body_line_def parse_property_def s2_def strip_prefix_def
          starts_with_def)
    have s2: "in_body si s2" "ps_prop_indent s2 = Some pi" "ps_in_ports s2" "ps_item_indent s2 = None"
      "ps_ports s2 = []"
      using s1 by (simp_all add: s2_def in_body_def)
    have items: "ps_ports (fold (parse_line env) new s2) = bindings rs"
      using parse_items [OF gt u s2(1-3)] s2(4,5) by (simp add: new_def port_lines_def bindings_def)
    have "fold (parse_line env) (trail body) s = s" for s
      using plc(3) trail_blank by (intro fold_blank) (auto simp: list_all_iff plain_line_def)
    then have "ps_ports (fold (parse_line env) (tl b') ?set) = bindings rs"
      using items key by (simp add: tl flip: s1_def)
    then show ?thesis using body_run [OF rb, of env "[]"] nb pi' by simp
  qed
  then show ?thesis by (simp add: block_service_def Let_def b'_def)
qed

lemma readable_ports_container:
  assumes "0 < si" "\<forall>r \<in> set rows. u16_row r" "readable si b"
  shows "cs_container (block_service env si (ports_block only rows si b)) =
         cs_container (block_service env si b)"
proof (cases "rows_of_service only (service_name (hd b)) rows = []")
  case False
  define pi where "pi = prop_indent si (tl b)"
  define body where "body = without_ports pi (tl b)"
  define b' where "b' = ports_block only rows si b"
  let ?rs = "rows_of_service only (service_name (hd b)) rows"
  have wi: "well_indented si b" using assms(3) by (simp add: readable_def)
  note f = ports_block_facts [OF wi refl False, folded pi_def, folded body_def, folded b'_def]
  note w = without_ports_facts [OF wi, folded pi_def, folded body_def]
  have rb: "readable si b'" unfolding b'_def by (rule ports_block_readable [OF assms])
  have gt: "si < pi" by (simp add: pi_def prop_indent_gt)
  have "fold (container_at (prop_indent si (tl b'))) (tl b') [] = fold (container_at pi) body []"
  proof (cases "port_lines pi ?rs = []")
    case True
    then have tl: "tl b' = body" using f(1) by simp
    show ?thesis
    proof (cases "\<exists>l \<in> set body. \<not> blank l")
      case nb: True
      then have "prop_indent si body = pi" by (rule starts_at_indented [OF gt w(1,3)])
      then show ?thesis using tl by simp
    qed (simp add: tl container_blank)
  next
    case ne: False
    then show ?thesis using f(1) f(2) [OF ne] container_fresh_ports [of pi body ?rs "[]"] by simp
  qed
  then show ?thesis
    using body_run_facts(4) [OF rb refl, of env "[]"] body_run_facts(4) [OF assms(3) refl, of env "[]"]
      container_without_ports [of pi "tl b" "[]"]
    by (simp add: block_service_def Let_def pi_def body_def flip: b'_def)
qed (simp add: ports_block_def)

lemma injected_service:
  assumes "0 < si" "\<forall>r \<in> set rows. u16_row r" "readable si b"
  shows "block_service env si (ports_block only rows si b) =
    (let rs = rows_of_service only (service_name (hd b)) rows
     in if rs = [] then block_service env si b
        else (block_service env si b)\<lparr>cs_ports := bindings rs\<rparr>)"
proof (cases "rows_of_service only (service_name (hd b)) rows = []")
  case False
  have "b \<noteq> []" using assms(3) by (auto simp: readable_def block_ok_def)
  then have hd: "hd (ports_block only rows si b) = hd b" by (rule ports_block_hd)
  show ?thesis
    using readable_ports_container [OF assms, of env only]
      readable_ports_service [OF assms refl False, of env] False hd
    by (simp add: block_service_def Let_def)
qed (simp add: ports_block_def)

subsection \<open>The lines around the services\<close>

lemma indent_zero_start: "indent_width l = 0 \<Longrightarrow> trim_start l = l"
proof (cases l)
  case (Cons c s)
  assume i: "indent_width l = 0"
  show ?thesis
  proof (cases "is_ws c")
    case True
    have "0 < char_len c" by (simp add: char_len_def)
    then show ?thesis
      using True i Cons byte_len_trim_start [of s]
      by (simp add: indent_width_def byte_len_def trim_start_def)
  qed (use Cons in \<open>simp add: trim_start_def\<close>)
qed (simp add: trim_start_def)

lemma services_at_zero: "indent_width l = 0 \<Longrightarrow> trim l = ''services:'' \<Longrightarrow> services_line l"
proof -
  assume i: "indent_width l = 0" and t: "trim l = ''services:''"
  then have "trim_end l = ''services:''" using indent_zero_start by (simp add: trim_def)
  then obtain s where "l = ''services:'' @ s"
    by (metis append_eq_conv_conj rev_append rev_rev_ident takeWhile_dropWhile_id trim_end_def)
  then show ?thesis using t by (simp add: services_line_def starts_with_def)
qed

text \<open>Outside of the services nothing is read.\<close>

definition outside :: "compose_service list \<Rightarrow> parse_state \<Rightarrow> bool" where
  "outside S st = (\<not> ps_in_services st \<and> ps_name st = None \<and> ps_services st = S)"

lemma parse_outside:
  assumes "outside S st" "list_all (\<lambda>l. no_comment l \<and> \<not> services_line l) ls"
  shows "outside S (fold (parse_line env) ls st)"
  using assms
proof (induction ls arbitrary: st)
  case (Cons l ls)
  have "\<not> (indent_width l = 0 \<and> trim l = ''services:'')" "no_comment l"
    using services_at_zero Cons.prems(2) by auto
  then have "outside S (parse_line env l st)"
    using Cons.prems(1)
    by (auto simp: outside_def parse_line_def strip_no_comment Let_def push_current_def)
  then show ?case using Cons by simp
qed simp

lemma parse_rest:
  assumes "q = [] \<or> top_level (hd q)" "list_all (\<lambda>l. no_comment l \<and> \<not> services_line l) q"
    "ps_services (push_current st) = S"
  shows "ps_services (push_current (fold (parse_line env) q st)) = S"
proof (cases q)
  case (Cons l ls)
  have "indent_width l = 0" "\<not> blank l" "no_comment l" "\<not> services_line l"
    using assms(1,2) Cons by (auto simp: top_level_def)
  then have "outside S (parse_line env l st)"
    using services_at_zero [of l] assms(3)
    by (auto simp: outside_def parse_line_def strip_no_comment Let_def push_current_def
        split: option.splits)
  then have "outside S (fold (parse_line env) ls (parse_line env l st))"
    using assms(2) Cons by (intro parse_outside) simp_all
  then show ?thesis using Cons by (simp add: outside_def push_current_def)
qed (use assms(3) in simp)

text \<open>The lines between \<open>services:\<close> and the first service.\<close>

lemma parse_before:
  assumes "0 < si" "at_services si st" "ps_name st = None"
    "list_all (\<lambda>l. no_comment l \<and> inner si l) p"
    "ps_service_indent st = None \<longrightarrow> (case find (\<lambda>l. \<not> blank l) p of None \<Rightarrow> True | Some l \<Rightarrow> indent_width l = si)"
  shows "at_services si (fold (parse_line env) p st) \<and> ps_name (fold (parse_line env) p st) = None \<and>
    ps_services (fold (parse_line env) p st) = ps_services st"
  using assms(2-5)
proof (induction p arbitrary: st)
  case (Cons l p)
  show ?case
  proof (cases "blank l")
    case True
    then show ?thesis using Cons by (simp add: parse_blank)
  next
    case False
    have l: "indent_width l \<noteq> 0" "\<not> (indent_width l = si \<and> ends_with (trim l) '':'')" "no_comment l"
      using Cons.prems(3) False by (auto simp: inner_def top_level_def opens_block_def service_head_def)
    have svc: "(case ps_service_indent st of None \<Rightarrow> indent_width l | Some s \<Rightarrow> s) = si"
      using Cons.prems(1,4) False by (auto simp: at_services_def)
    have "parse_line env l st = st\<lparr>ps_service_indent := Some si\<rparr>"
      using l False Cons.prems(1,2)
      by (auto simp: parse_line_def strip_no_comment Let_def svc at_services_def)
    then show ?thesis
      using Cons.IH [of "st\<lparr>ps_service_indent := Some si\<rparr>"] Cons.prems
      by (simp add: at_services_def)
  qed
qed simp

subsection \<open>Injecting and reading back\<close>

text \<open>A compose file as it is conventionally written: one \<open>services:\<close> key in the first column, no
  comment after white space, no carriage returns, at least one service, every service well
  indented.\<close>

definition conventional :: "string list \<Rightarrow> bool" where
  "conventional ls =
     (case file_blocks ls of
        None \<Rightarrow> False
      | Some (si, pre, bs, q) \<Rightarrow>
          list_all no_comment ls \<and> list_all clean_line ls \<and> bs \<noteq> [] \<and>
          list_all (well_indented si) bs \<and>
          list_all (\<lambda>l. indent_width l = 0 \<or> \<not> services_line l) pre \<and>
          list_all (\<lambda>l. \<not> services_line l) q)"

definition parse_lines :: "env_map \<Rightarrow> string list \<Rightarrow> compose_service list" where
  "parse_lines env ls = ps_services (push_current (fold (parse_line env) ls parse_start))"

lemma parse_lines_eq: "parse_compose_services yaml env = parse_lines env (lines yaml)"
  by (simp add: parse_lines_def parse_compose_services_def)

lemma file_blocks_indent:
  assumes "file_blocks ls = Some (si, pre, bs, q)" "position services_line ls = Some idx"
    "Suc idx \<le> length pre"
  shows "service_indent (drop (Suc idx) pre @ concat bs @ q) = si"
proof -
  have "ls = pre @ concat bs @ q" using file_blocks_parts [OF assms(1)] by blast
  then have "drop (Suc idx) ls = drop (Suc idx) pre @ concat bs @ q" using assms(3) by simp
  moreover have "service_indent (drop (Suc idx) ls) = si"
    using assms(1,2) by (auto simp: file_blocks_def Let_def split: if_splits prod.splits)
  ultimately show ?thesis by simp
qed

lemma parse_blocks_file:
  assumes f: "file_blocks ls = Some (si, pre, bs, q)"
    and nc: "list_all no_comment ls" and wi: "list_all (well_indented si) bs"
    and sv: "list_all (\<lambda>l. indent_width l = 0 \<or> \<not> services_line l) pre"
      "list_all (\<lambda>l. \<not> services_line l) q"
  shows "parse_lines env ls = map (block_service env si) bs"
proof -
  obtain idx where ls: "ls = pre @ concat bs @ q" and si: "0 < si"
    and ok: "list_all (block_ok si) bs" and q: "q = [] \<or> top_level (hd q)"
    and idx: "position services_line ls = Some idx" "Suc idx \<le> length pre"
    and inn: "list_all (inner si) (drop (Suc idx) pre)"
    using file_blocks_parts [OF f] by blast
  define p where "p = drop (Suc idx) pre"
  have nth: "pre ! idx = ls ! idx" using idx(2) by (simp add: ls nth_append)
  have pre: "pre = take idx pre @ pre ! idx # p"
    using idx(2) by (simp add: p_def id_take_nth_drop)
  have pos: "services_line (pre ! idx)" "\<forall>i < idx. \<not> services_line (ls ! i)"
    using position_Some [OF idx(1)] nth by auto
  have before: "list_all (\<lambda>l. no_comment l \<and> \<not> services_line l) (take idx pre)"
  proof -
    have "\<not> services_line l" if m: "l \<in> set (take idx pre)" for l
    proof -
      obtain i where "i < idx" "l = pre ! i" using m idx(2) by (auto simp: in_set_conv_nth)
      then show ?thesis using pos(2) idx(2) by (simp add: ls nth_append)
    qed
    moreover have "\<forall>l \<in> set (take idx pre). no_comment l"
      using nc by (auto simp: ls list_all_iff dest: in_set_takeD)
    ultimately show ?thesis by (simp add: list_all_iff)
  qed
  have "outside [] parse_start" by (simp add: outside_def parse_start_def)
  then have o: "outside [] (fold (parse_line env) (take idx pre) parse_start)"
    using before by (rule parse_outside)
  define s1 where "s1 = parse_line env (pre ! idx) (fold (parse_line env) (take idx pre) parse_start)"
  have in_pre: "pre ! idx \<in> set pre" using idx(2) by simp
  then have "indent_width (pre ! idx) = 0" "no_comment (pre ! idx)" "trim (pre ! idx) = ''services:''"
    using sv(1) pos(1) nc by (auto simp: list_all_iff ls services_line_def)
  then have s1: "at_services si s1" "ps_name s1 = None" "ps_services s1 = []" "ps_service_indent s1 = None"
    using o by (auto simp: s1_def parse_line_def strip_no_comment Let_def at_services_def outside_def
        push_current_def)
  have find: "case find (\<lambda>l. \<not> blank l) p of None \<Rightarrow> True | Some l \<Rightarrow> indent_width l = si"
    using file_blocks_indent [OF f idx] by (simp add: p_def service_indent_def find_append split: option.splits)
  have pin: "list_all (\<lambda>l. no_comment l \<and> inner si l) p"
    using nc inn by (auto simp: ls p_def list_all_iff dest: in_set_dropD)
  define s2 where "s2 = fold (parse_line env) p s1"
  have s2: "at_services si s2" "ps_name s2 = None" "ps_services s2 = []"
    using parse_before [OF si s1(1,2) pin] find s1(3) by (auto simp: s2_def)
  have rd: "list_all (readable si) bs"
    using ok wi nc by (auto simp: readable_def list_all_iff ls)
  have "ps_services (push_current (fold (parse_line env) (concat bs) s2)) = map (block_service env si) bs"
    using parse_blocks [OF si s2(1) rd, of env] s2(2,3) by (simp add: push_current_def)
  then have "ps_services (push_current (fold (parse_line env) q
      (fold (parse_line env) (concat bs) s2))) = map (block_service env si) bs"
    using nc sv(2) by (intro parse_rest [OF q]) (auto simp: ls list_all_iff)
  moreover have "fold (parse_line env) ls parse_start =
      fold (parse_line env) q (fold (parse_line env) (concat bs) s2)"
    by (subst ls, subst pre) (simp add: s2_def s1_def)
  ultimately show ?thesis by (simp add: parse_lines_def)
qed

lemma inject_lines_blocks:
  "inject_ports_lines rows ls =
     (case file_blocks ls of
        None \<Rightarrow> None
      | Some (si, pre, bs, q) \<Rightarrow>
          if bs = [] then None
          else Some (pre @ concat (map (ports_block (length bs = 1) rows si) bs) @ q))"
proof (cases "file_blocks ls")
  case (Some f)
  obtain si pre bs q where f: "f = (si, pre, bs, q)" by (metis prod_cases4)
  have ls: "ls = pre @ concat bs @ q" and si: "0 < si" and ok: "list_all (block_ok si) bs"
    using file_blocks_parts [of ls] Some f by auto
  have off: "length (offsets n bs) = length bs" for n by (induction bs arbitrary: n) simp_all
  then have ne: "offsets (length pre) bs = [] \<longleftrightarrow> bs = []" by (metis length_0_conv)
  show ?thesis
    using ports.fold_blocks [OF si ok, of "length bs = 1" rows pre q] Some f ls
    by (simp add: inject_ports_lines_def service_scan_blocks off ne)
qed (simp add: inject_ports_lines_def service_scan_blocks)

lemma parse_lines_drop_blank: "parse_lines env (ls @ [[]]) = parse_lines env ls"
  by (simp add: parse_lines_def parse_line_def strip_comment_def)

text \<open>Reading the lines of a joined text loses at most an empty last line.\<close>

lemma lines_of_join:
  assumes "list_all clean_line ls"
  shows "parse_lines env (lines (join_nl ls @ (if nl then [NL] else []))) = parse_lines env ls"
proof (cases "nl \<and> ls \<noteq> []")
  case True
  then show ?thesis using lines_join_nl [OF assms] by simp
next
  case False
  show ?thesis
  proof (cases "ls = []")
    case True
    then show ?thesis using lines_line [of "[]" "[]"] parse_lines_drop_blank [of env "[]"]
      by (simp add: clean_line_def)
  next
    case ne: False
    then have e: "join_nl ls @ (if nl then [NL] else []) = join_nl ls" using False by simp
    show ?thesis
    proof (cases "last ls = []")
      case True
      then have "ls = butlast ls @ [[]]" using ne by (metis append_butlast_last_id)
      then show ?thesis
        unfolding e using lines_join [OF assms] True ne parse_lines_drop_blank [of env "butlast ls"] by simp
    qed (unfold e, simp add: lines_join [OF assms])
  qed
qed

text \<open>The binding lines the injector writes are clean, so the written text is read line by line.\<close>

lemma injected_clean:
  assumes "list_all clean_line ls" "\<forall>r \<in> set rows. u16_row r"
    "inject_ports_lines rows ls = Some out"
  shows "list_all clean_line out"
proof -
  obtain si pre bs q where f: "file_blocks ls = Some (si, pre, bs, q)"
    and out: "out = pre @ concat (map (ports_block (length bs = 1) rows si) bs) @ q"
    using assms(3) by (auto simp: inject_lines_blocks split: option.splits if_splits prod.splits)
  have ls: "ls = pre @ concat bs @ q" and ok: "list_all (block_ok si) bs"
    using file_blocks_parts [OF f] by auto
  have "clean_line l" if m: "b \<in> set bs" "l \<in> set (ports_block (length bs = 1) rows si b)" for b l
  proof -
    have "b \<noteq> []" using ok m(1) by (auto simp: list_all_iff block_ok_def)
    then have "l \<in> set b \<or> clean_line l" using ports_block_lines [OF assms(2) _ m(2)] by blast
    then show ?thesis using assms(1) m(1) by (auto simp: ls list_all_iff)
  qed
  then show ?thesis using assms(1) by (auto simp: out ls list_all_iff)
qed

lemma parse_injected_text:
  assumes "list_all clean_line (lines yaml)" "\<forall>r \<in> set rows. u16_row r"
    "inject_ports_lines rows (lines yaml) = Some out"
  shows "parse_compose_services (inject_ports_into_yaml yaml rows) env = parse_lines env out"
proof -
  let ?nl = "ends_with yaml [NL] \<and> \<not> ends_with (join_nl out) [NL]"
  have "inject_ports_into_yaml yaml rows = join_nl out @ (if ?nl then [NL] else [])"
    using assms(3) by (simp add: inject_ports_into_yaml_def Let_def)
  then show ?thesis
    using lines_of_join [OF injected_clean [OF assms]] by (simp add: parse_lines_eq)
qed


definition sample_compose :: string where
  "sample_compose =
     unlines [''services:'', ''  web:'', ''    image: a'', ''    ports:'', ''      - 80:80'',
              ''  db:'', ''    image: b'', ''networks:'', ''  n:'']"

definition sample_row :: port_row where
  "sample_row = \<lparr>pr_service = Some ''web'', pr_container = 80, pr_public = True, pr_host = 7,
     pr_public_port = Some 9\<rparr>"
lemma sample_compose_conventional: "conventional (lines sample_compose)"
  by code_simp


text \<open>A comment behind the \<open>ports:\<close> key keeps the old list in the file beside the new one, and a
  comment behind the name of a service makes the injector pass the service by.\<close>

definition low_row :: port_row where
  "low_row = \<lparr>pr_service = Some ''web'', pr_container = 1, pr_public = True, pr_host = 3, pr_public_port = Some 2\<rparr>"

theorem comments_break_injection:
  "lines (inject_ports_into_yaml
      (unlines [''services:'', ''  web:'', ''    ports: # c'', ''      - 1:1'', ''    image: a'']) [low_row]) =
    [''services:'', ''  web:'', ''    ports: # c'', ''      - 1:1'', ''    image: a'', ''    ports:'',
     ''      - '' @ [CHR 0x22] @ ''0.0.0.0:2:1'' @ [CHR 0x22]]"
  "inject_ports_into_yaml (unlines [''services:'', ''  web: # c'', ''    image: a'']) [low_row] =
    unlines [''services:'', ''  web: # c'', ''    image: a'']"
  by code_simp+

text \<open>Injecting the ports again into the lines of an injected file changes nothing, for a file
  whose services are well indented.\<close>

theorem inject_ports_idempotent:
  assumes "file_blocks ls = Some (si, pre, bs, q)" "list_all (well_indented si) bs"
    "inject_ports_lines rows ls = Some out"
  shows "inject_ports_lines rows out = Some out"
proof -
  let ?only = "length bs = 1"
  have ne: "bs \<noteq> []" and out: "out = pre @ concat (map (ports_block ?only rows si) bs) @ q"
    using assms(1,3) by (auto simp: inject_lines_blocks split: if_splits)
  have ok: "0 < si" "list_all (block_ok si) bs" using file_blocks_parts [OF assms(1)] by auto
  have "map (ports_block ?only rows si) (map (ports_block ?only rows si) bs) =
      map (ports_block ?only rows si) bs"
    using assms(2) by (simp add: list_all_iff ports_block_idem)
  then show ?thesis
    using ports.file_blocks_rewrite [OF assms(1), of ?only rows] ne
    by (simp add: inject_lines_blocks out del: map_map)
qed

theorem inject_ports_idempotent_witness:
  "\<exists>si pre bs q out. file_blocks (lines sample_compose) = Some (si, pre, bs, q) \<and>
     list_all (well_indented si) bs \<and>
     inject_ports_lines [sample_row] (lines sample_compose) = Some out \<and>
     inject_ports_lines [sample_row] out = Some out"
proof -
  obtain si pre bs q where f: "file_blocks (lines sample_compose) = Some (si, pre, bs, q)"
    and w: "list_all (well_indented si) bs" and ne: "bs \<noteq> []"
    using sample_compose_conventional
    by (auto simp: conventional_def split: option.splits prod.splits)
  obtain out where o: "inject_ports_lines [sample_row] (lines sample_compose) = Some out"
    using f ne by (simp add: inject_lines_blocks)
  show ?thesis using inject_ports_idempotent [OF f w o] f w o by blast
qed

end
