(* ===== verification/ComposeNet.thy ===== *)
theory ComposeNet
  imports Compose "HOL-Library.Char_ord" "HOL-Library.List_Lexorder"
begin

text \<open>
  The networks of a compose stack: the parser of the top-level \<open>networks:\<close> block
  (\<open>docker/compose.rs\<close>) and the rewriting that puts every service on the networks Pier manages
  (\<open>apply_pier_networks\<close>, \<open>deploy/mod.rs\<close>). An index range of the code is the list of its lines
  here, and \<open>block_end\<close> splits it. The lemmas show which networks a rewritten service is on, and
  which files the rewriting misses.
\<close>

section \<open>The networks block\<close>

record network_decl =
  nd_key :: string
  nd_external :: bool
  nd_name :: "string option"

record networks_state =
  ns_out :: "network_decl list"
  ns_in_networks :: bool
  ns_current :: "network_decl option"

definition flush :: "networks_state \<Rightarrow> networks_state" where
  "flush st =
     (case ns_current st of
        None \<Rightarrow> st
      | Some d \<Rightarrow> st\<lparr>ns_out := ns_out st @ [d], ns_current := None\<rparr>)"

definition network_property :: "string \<Rightarrow> network_decl \<Rightarrow> network_decl" where
  "network_property trimmed d =
     (if trimmed = ''external: true'' then d\<lparr>nd_external := True\<rparr>
      else if trimmed = ''external:'' then d\<lparr>nd_external := True\<rparr>
      else (case strip_prefix trimmed ''name:'' of
              None \<Rightarrow> d
            | Some rest \<Rightarrow>
                (let name = trim_matches (CHR 0x27) (trim_matches (CHR 0x22) (trim rest))
                 in if name = [] then d else d\<lparr>nd_name := Some name\<rparr>)))"

definition networks_line :: "string \<Rightarrow> networks_state \<Rightarrow> networks_state" where
  "networks_line line st =
     (let trimmed = trim line; indent = indent_width line
      in if trimmed = [] \<or> starts_with trimmed ''#'' then st
         else if indent = 0 then (flush st)\<lparr>ns_in_networks := (trimmed = ''networks:'')\<rparr>
         else if \<not> ns_in_networks st then st
         else if indent \<le> 2 then
           (let st = flush st
            in case strip_suffix trimmed '':'' of
                 None \<Rightarrow> st
               | Some key \<Rightarrow>
                   st\<lparr>ns_current := Some \<lparr>nd_key = trim key, nd_external = False, nd_name = None\<rparr>\<rparr>)
         else st\<lparr>ns_current := map_option (network_property trimmed) (ns_current st)\<rparr>)"

definition parse_networks_block :: "string \<Rightarrow> network_decl list" where
  "parse_networks_block yaml =
     ns_out (flush (fold networks_line (lines yaml)
       \<lparr>ns_out = [], ns_in_networks = False, ns_current = None\<rparr>))"

text \<open>The docker networks that must exist, sorted and without repetitions.\<close>

definition external_networks :: "string \<Rightarrow> string list" where
  "external_networks yaml =
     remdups_adj (sort (map (\<lambda>d. case nd_name d of None \<Rightarrow> nd_key d | Some n \<Rightarrow> n)
       (filter nd_external (parse_networks_block yaml))))"

section \<open>The rewriting\<close>

text \<open>\<open>block_end(lines, start, min)\<close>: the lines from \<open>start\<close> on that belong to the block, and the rest.\<close>

abbreviation belongs :: "nat \<Rightarrow> string \<Rightarrow> bool" where
  "belongs min_indent l \<equiv> blank l \<or> min_indent \<le> indent_width l"

definition inline_map_key :: "string \<Rightarrow> string option" where
  "inline_map_key trimmed =
     (case split_once (CHR '':'') trimmed of
        None \<Rightarrow> None
      | Some (key, rest) \<Rightarrow> if starts_with (trim rest) ''{'' then Some (trim key) else None)"

definition is_inline_wanted :: "string \<Rightarrow> string list \<Rightarrow> bool" where
  "is_inline_wanted trimmed wanted =
     (case inline_map_key trimmed of None \<Rightarrow> False | Some name \<Rightarrow> name \<in> set wanted)"

text \<open>Whether an entry in mapping form is replaced.\<close>

definition drops_entry :: "string list \<Rightarrow> string list \<Rightarrow> string \<Rightarrow> bool" where
  "drops_entry drop_keys wanted trimmed =
     (case strip_suffix trimmed '':'' of
        Some key \<Rightarrow> trim key \<in> set drop_keys
      | None \<Rightarrow> is_inline_wanted trimmed wanted)"

definition push_wanted_networks :: "string list \<Rightarrow> string list" where
  "push_wanted_networks wanted =
     concat (map (\<lambda>net. [''  '' @ net @ '':'', ''    external: true'']) wanted)"

function copy_managed_networks :: "string list \<Rightarrow> string list \<Rightarrow> string list \<Rightarrow> string list" where
  "copy_managed_networks drop_keys wanted [] = []"
| "copy_managed_networks drop_keys wanted (line # rest) =
     (let trimmed = trim line; ind = indent_width line
      in if trimmed = [] then copy_managed_networks drop_keys wanted rest
         else if ind \<le> 2 then
           (if drops_entry drop_keys wanted trimmed then []
            else line # takeWhile (belongs (ind + 1)) rest) @
           copy_managed_networks drop_keys wanted (dropWhile (belongs (ind + 1)) rest)
         else line # copy_managed_networks drop_keys wanted rest)"
  by pat_completeness auto
termination
  by (relation "measure (\<lambda>(d, w, ls). length ls)") (auto simp: less_Suc_eq_le length_dropWhile_le)

text \<open>The entries of the \<open>networks:\<close> key of a service: what is kept, and whether one was in mapping
  form.\<close>

function service_networks :: "string list \<Rightarrow> string list \<Rightarrow> string list \<Rightarrow> string list \<times> bool" where
  "service_networks drop_keys wanted [] = ([], False)"
| "service_networks drop_keys wanted (line # rest) =
     (let trimmed = trim line
      in if trimmed = [] then service_networks drop_keys wanted rest
         else (case strip_prefix trimmed ''- '' of
             Some name \<Rightarrow>
               (case service_networks drop_keys wanted rest of
                  (out, form) \<Rightarrow> ((if trim name \<in> set drop_keys then [] else [line]) @ out, form))
           | None \<Rightarrow>
               (let sub = takeWhile (belongs (indent_width line + 1)) rest
                in (case service_networks drop_keys wanted
                           (dropWhile (belongs (indent_width line + 1)) rest) of
                      (out, form) \<Rightarrow>
                        ((if drops_entry drop_keys wanted trimmed then [] else line # sub) @ out, True)))))"
  by pat_completeness auto
termination
  by (relation "measure (\<lambda>(d, w, ls). length ls)") (auto simp: less_Suc_eq_le length_dropWhile_le)

definition rewrite_one_service :: "string list \<Rightarrow> string list \<Rightarrow> string list \<Rightarrow> string list" where
  "rewrite_one_service drop_keys wanted block =
     (if \<exists>l \<in> set block. starts_with (trim l) ''network_mode:'' then block
      else
        (let prop = indent_width (hd block) + 2
         in case position (\<lambda>l. trim l = ''networks:'' \<and> indent_width l = prop) block of
              None \<Rightarrow>
                core block @ [pad prop @ ''networks:''] @
                map (\<lambda>net. pad (prop + 2) @ ''- '' @ net) wanted @ trail block
            | Some net_at \<Rightarrow>
                (let after = drop (Suc net_at) block;
                     (kept, mapping_form) =
                       service_networks drop_keys wanted (takeWhile (belongs (prop + 1)) after)
                 in take (Suc net_at) block @ kept @
                    map (\<lambda>net. if mapping_form then pad (prop + 2) @ net @ '':''
                               else pad (prop + 2) @ ''- '' @ net) wanted @
                    dropWhile (belongs (prop + 1)) after)))"

function rewrite_services :: "string list \<Rightarrow> string list \<Rightarrow> string list \<Rightarrow> string list" where
  "rewrite_services drop_keys wanted [] = []"
| "rewrite_services drop_keys wanted (line # rest) =
     (let trimmed = trim line; ind = indent_width line
      in if trimmed \<noteq> [] \<and> ind \<le> 2 \<and> ends_with trimmed '':'' then
           rewrite_one_service drop_keys wanted (line # takeWhile (belongs (ind + 1)) rest) @
           rewrite_services drop_keys wanted (dropWhile (belongs (ind + 1)) rest)
         else line # rewrite_services drop_keys wanted rest)"
  by pat_completeness auto
termination
  by (relation "measure (\<lambda>(d, w, ls). length ls)") (auto simp: less_Suc_eq_le length_dropWhile_le)

text \<open>The loop over the top level; the second result tells whether a \<open>networks:\<close> block was seen.\<close>

function rewrite_top :: "string list \<Rightarrow> string list \<Rightarrow> string list \<Rightarrow> string list \<times> bool" where
  "rewrite_top drop_keys wanted [] = ([], False)"
| "rewrite_top drop_keys wanted (line # rest) =
     (let trimmed = trim line;
          top = indent_width line = 0 \<and> trimmed \<noteq> [] \<and> \<not> starts_with trimmed ''#''
      in if top \<and> trimmed = ''services:'' then
           (case rewrite_top drop_keys wanted (dropWhile (belongs 1) rest) of
              (out, saw) \<Rightarrow>
                (line # rewrite_services drop_keys wanted (takeWhile (belongs 1) rest) @ out, saw))
         else if top \<and> trimmed = ''networks:'' then
           (case rewrite_top drop_keys wanted (dropWhile (belongs 1) rest) of
              (out, saw) \<Rightarrow>
                (line # copy_managed_networks drop_keys wanted (takeWhile (belongs 1) rest) @
                   push_wanted_networks wanted @ out, True))
         else (case rewrite_top drop_keys wanted rest of (out, saw) \<Rightarrow> (line # out, saw)))"
  by pat_completeness auto
termination
  by (relation "measure (\<lambda>(d, w, ls). length ls)") (auto simp: less_Suc_eq_le length_dropWhile_le)

definition pier_net :: string where
  "pier_net = ''pier-net''"

definition wanted_networks :: "string \<Rightarrow> string list" where
  "wanted_networks project_net =
     (let net = (if trim project_net = [] then pier_net else trim project_net)
      in net # (if net \<noteq> pier_net then [pier_net] else []))"

definition apply_pier_networks :: "string \<Rightarrow> string \<Rightarrow> string" where
  "apply_pier_networks yaml project_net =
     (let wanted = wanted_networks project_net;
          drop_keys = map nd_key (filter nd_external (parse_networks_block yaml)) @ wanted;
          (out, saw) = rewrite_top drop_keys wanted (lines yaml);
          result = join_nl (out @ (if saw then [] else ''networks:'' # push_wanted_networks wanted))
      in result @ (if ends_with yaml [NL] then [NL] else []))"

section \<open>The networks of a rewritten service\<close>

definition dash_name :: "string \<Rightarrow> string list" where
  "dash_name l = (case strip_prefix (trim l) ''- '' of Some n \<Rightarrow> [trim n] | None \<Rightarrow> [])"

definition networks_key :: "string list \<Rightarrow> string \<Rightarrow> bool" where
  "networks_key block l = (trim l = ''networks:'' \<and> indent_width l = indent_width (hd block) + 2)"

definition network_entries :: "string list \<Rightarrow> string list" where
  "network_entries block =
     (case position (networks_key block) block of
        None \<Rightarrow> []
      | Some n \<Rightarrow> takeWhile (belongs (indent_width (hd block) + 3)) (drop (Suc n) block))"

text \<open>The networks a service names in list form.\<close>

definition listed_networks :: "string list \<Rightarrow> string list" where
  "listed_networks block = concat (map dash_name (network_entries block))"

definition list_form :: "string list \<Rightarrow> bool" where
  "list_form block = list_all (\<lambda>l. blank l \<or> starts_with (trim l) ''- '') (network_entries block)"

definition plain_name :: "string \<Rightarrow> bool" where
  "plain_name net = (net \<noteq> [] \<and> trim net = net)"

lemma dash_blank: "blank l \<Longrightarrow> dash_name l = []"
  by (simp add: dash_name_def strip_prefix_def starts_with_def)

lemma trim_last: "net \<noteq> [] \<Longrightarrow> trim net = net \<Longrightarrow> \<not> is_ws (last net)"
  using trim_end_nonempty [of "trim_start net"] by (simp add: trim_def)

lemma wanted_line:
  assumes "plain_name net"
  shows "dash_name (pad n @ ''- '' @ net) = [net]" "indent_width (pad n @ ''- '' @ net) = n"
    "\<not> blank (pad n @ ''- '' @ net)" "trim (pad n @ ''- '' @ net) \<noteq> ''networks:''"
proof -
  have dash: "\<not> is_ws (CHR ''-'')" by (simp add: is_ws_def)
  have "trim (''- '' @ net) = ''- '' @ net"
    by (rule trim_id) (use assms trim_last in \<open>simp add: plain_name_def is_ws_def\<close>)
  then have t: "trim (pad n @ ''- '' @ net) = ''- '' @ net" by simp
  show "dash_name (pad n @ ''- '' @ net) = [net]"
    using assms unfolding dash_name_def t
    by (simp add: strip_prefix_def starts_with_def plain_name_def)
  show "indent_width (pad n @ ''- '' @ net) = n" using dash by simp
  show "\<not> blank (pad n @ ''- '' @ net)" "trim (pad n @ ''- '' @ net) \<noteq> ''networks:''"
    unfolding t by simp_all
qed

lemma service_networks_list:
  "list_all (\<lambda>l. blank l \<or> starts_with (trim l) ''- '') seg \<Longrightarrow>
   \<exists>out. service_networks drop_keys wanted seg = (out, False) \<and> set out \<subseteq> set seg \<and>
     concat (map dash_name out) = filter (\<lambda>n. n \<notin> set drop_keys) (concat (map dash_name seg))"
proof (induction seg)
  case (Cons l seg)
  then obtain out where ih: "service_networks drop_keys wanted seg = (out, False)" "set out \<subseteq> set seg"
    "concat (map dash_name out) = filter (\<lambda>n. n \<notin> set drop_keys) (concat (map dash_name seg))"
    by auto
  show ?case
  proof (cases "blank l")
    case True
    then show ?thesis using ih by (auto simp: dash_blank)
  next
    case False
    then have "starts_with (trim l) ''- ''" using Cons.prems by simp
    then obtain n where n: "strip_prefix (trim l) ''- '' = Some n" by (simp add: strip_prefix_def)
    then have d: "dash_name l = [trim n]" by (simp add: dash_name_def)
    have "service_networks drop_keys wanted (l # seg) =
        ((if trim n \<in> set drop_keys then [] else [l]) @ out, False)"
      using ih(1) False n by (simp add: Let_def)
    then show ?thesis using ih(2,3) d by auto
  qed
qed simp

lemma takeWhile_stop:
  "(\<forall>x \<in> set xs. P x) \<Longrightarrow> takeWhile P (xs @ dropWhile P ys) = xs"
  by (induction xs) (auto intro: takeWhile_eq_Nil_iff [THEN iffD2] dest: hd_dropWhile)

lemma networks_key_cong: "hd a = hd b \<Longrightarrow> networks_key a = networks_key b"
  by (simp add: networks_key_def fun_eq_iff)

lemma position_skip: "\<forall>x \<in> set xs. \<not> P x \<Longrightarrow> P y \<Longrightarrow> position P (xs @ y # ys) = Some (length xs)"
  by (induction xs) auto

lemma wanted_lines:
  assumes "\<forall>net \<in> set wanted. plain_name net"
  shows "\<forall>l \<in> set (map (\<lambda>net. pad (n + 1) @ ''- '' @ net) wanted). belongs n l"
    "concat (map dash_name (map (\<lambda>net. pad (n + 1) @ ''- '' @ net) wanted)) = wanted"
  using assms wanted_line(1,2) by (induction wanted) auto

lemma networks_key_line: "networks_key b (pad (indent_width (hd b) + 2) @ ''networks:'')"
  by (simp add: networks_key_def trim_Cons_nonws trim_end_Cons_nonws is_ws_def trim_end_def)

lemma network_entries_at:
  assumes "hd b = hd block" "position (networks_key block) b = Some n"
  shows "network_entries b = takeWhile (belongs (indent_width (hd block) + 2 + 1)) (drop (Suc n) b)"
  using assms networks_key_cong [OF assms(1)] by (simp add: network_entries_def eval_nat_numeral)

text \<open>A service without the key gets one before its last blank lines.\<close>

lemma fresh_networks:
  assumes "block \<noteq> []" "\<not> blank (hd block)" "\<forall>net \<in> set wanted. plain_name net"
    and none: "position (networks_key block) block = None"
  shows "listed_networks (core block @ [pad (indent_width (hd block) + 2) @ ''networks:''] @
      map (\<lambda>net. pad (indent_width (hd block) + 2 + 2) @ ''- '' @ net) wanted @ trail block) = wanted"
    (is "listed_networks ?out = _")
proof -
  let ?pi = "indent_width (hd block) + 2"
  let ?new = "map (\<lambda>net. pad (?pi + 2) @ ''- '' @ net) wanted"
  have new: "\<forall>l \<in> set ?new. belongs (?pi + 1) l" "concat (map dash_name ?new) = wanted"
    using wanted_lines [OF assms(3), of "?pi + 1"] by (simp_all add: eval_nat_numeral)
  have "core block \<noteq> []"
    using assms(1,2) trail_blank [of "hd block" block] by (metis append_Nil core_trail hd_in_set)
  then have hd: "hd ?out = hd block" by (metis core_trail hd_append2)
  have "\<forall>l \<in> set (core block). \<not> networks_key block l"
    using none set_core by (fastforce simp: position_None)
  then have "position (networks_key block) ?out = Some (length (core block))"
    unfolding append_Cons append_Nil by (rule position_skip) (rule networks_key_line)
  then have "network_entries ?out = takeWhile (belongs (?pi + 1)) (drop (Suc (length (core block))) ?out)"
    by (rule network_entries_at [OF hd])
  also have "drop (Suc (length (core block))) ?out = ?new @ trail block" by simp
  also have "takeWhile (belongs (?pi + 1)) \<dots> = ?new @ trail block"
    using new(1) trail_blank by (intro takeWhile_eq_all_conv [THEN iffD2]) fastforce
  finally have "listed_networks ?out = wanted @ concat (map dash_name (trail block))"
    using new(2) by (simp add: listed_networks_def)
  then show ?thesis using trail_blank dash_blank by fastforce
qed

text \<open>A service with the key keeps the entries that are not replaced.\<close>

lemma kept_networks:
  assumes "block \<noteq> []" "\<forall>net \<in> set wanted. plain_name net"
    and key: "position (networks_key block) block = Some n"
    and out: "set out \<subseteq> set (network_entries block)"
      "concat (map dash_name out) = filter (\<lambda>n. n \<notin> set drop_keys) (listed_networks block)"
  shows "listed_networks (take (Suc n) block @ out @
      map (\<lambda>net. pad (indent_width (hd block) + 2 + 2) @ ''- '' @ net) wanted @
      dropWhile (belongs (indent_width (hd block) + 2 + 1)) (drop (Suc n) block)) =
    filter (\<lambda>n. n \<notin> set drop_keys) (listed_networks block) @ wanted"
    (is "listed_networks ?res = _")
proof -
  let ?pi = "indent_width (hd block) + 2"
  let ?new = "map (\<lambda>net. pad (?pi + 2) @ ''- '' @ net) wanted"
  have new: "\<forall>l \<in> set ?new. belongs (?pi + 1) l" "concat (map dash_name ?new) = wanted"
    using wanted_lines [OF assms(2), of "?pi + 1"] by (simp_all add: eval_nat_numeral)
  have seg: "network_entries block = takeWhile (belongs (?pi + 1)) (drop (Suc n) block)"
    using key by (simp add: network_entries_def eval_nat_numeral)
  have len: "n < length block" using position_Some [OF key] by simp
  have hd: "hd ?res = hd block" using assms(1) by (cases block) simp_all
  have "position (networks_key block) ?res = Some n"
    by (rule position_append_found [OF position_take [OF key]])
  then have "network_entries ?res = takeWhile (belongs (?pi + 1)) (drop (Suc n) ?res)"
    by (rule network_entries_at [OF hd])
  also have "drop (Suc n) ?res = (out @ ?new) @ dropWhile (belongs (?pi + 1)) (drop (Suc n) block)"
    using len by simp
  also have "takeWhile (belongs (?pi + 1)) \<dots> = out @ ?new"
    using new(1) out(1) seg by (intro takeWhile_stop) (auto dest: set_takeWhileD)
  finally show ?thesis using out(2) new(2) by (simp add: listed_networks_def)
qed


definition net_block :: "string list" where
  "net_block = [''  web:'', ''    image: a'', ''    networks:'', ''      - inner'', ''      - outer'', '''']"


section \<open>Files the rewriting misses\<close>

text \<open>Services indented by more than two columns are not recognised and copied as they are.\<close>

lemma deep_services_untouched:
  "list_all (\<lambda>l. blank l \<or> 2 < indent_width l) seg \<Longrightarrow> rewrite_services drop_keys wanted seg = seg"
  by (induction seg) (auto simp: Let_def)

text \<open>Finding: a file whose services are indented by four columns, which the parser of the same module
  supports, keeps every service as it was: the services are not put on the networks of Pier, and only
  the declaration of the networks is added at the end.\<close>

theorem four_column_services_missed:
  assumes "list_all (\<lambda>l. blank l \<or> 2 < indent_width l) body" "list_all clean_line body"
  shows "apply_pier_networks (unlines (''services:'' # body)) [] =
    unlines (''services:'' # body @ [''networks:'', ''  pier-net:'', ''    external: true''])"
proof -
  have srv: "trim ''services:'' = ''services:''" "indent_width ''services:'' = 0" by code_simp+
  have b1: "list_all (belongs 1) body" using assms(1) by (fastforce simp: list_all_iff)
  then have tw: "takeWhile (belongs (Suc 0)) body = body" "dropWhile (belongs (Suc 0)) body = []"
    by (simp_all add: list_all_iff takeWhile_eq_all_conv dropWhile_eq_Nil_conv)
  have top: "rewrite_top d w (''services:'' # body) = (''services:'' # body, False)" for d w
    using srv deep_services_untouched [OF assms(1)] by (simp add: Let_def starts_with_def tw)
  have ls: "lines (unlines (''services:'' # body)) = ''services:'' # body"
    using assms(2) by (intro lines_unlines) (simp add: clean_line_def)
  have w: "wanted_networks [] = [pier_net]" by (simp add: wanted_networks_def)
  have nl: "ends_with (unlines (''services:'' # body)) [NL]"
    using ends_nl by (cases body rule: rev_cases) (auto simp: unlines_def)
  have join: "join_nl (ls @ [l]) @ [NL] = unlines (ls @ [l])" for ls l
    by (induction ls rule: join_nl.induct) (simp_all add: unlines_def)
  show ?thesis
    using join [of "''services:'' # body @ [''networks:'', ''  pier-net:'']" "''    external: true''"] nl
    by (simp add: apply_pier_networks_def Let_def ls w top push_wanted_networks_def pier_net_def
        del: rewrite_top.simps)
qed

theorem four_column_services_missed_witness:
  "apply_pier_networks (unlines [''services:'', ''    web:'', ''        image: a'']) [] =
   unlines [''services:'', ''    web:'', ''        image: a'', ''networks:'', ''  pier-net:'', ''    external: true'']"
proof -
  have "list_all (\<lambda>l. blank l \<or> 2 < indent_width l) [''    web:'', ''        image: a'']"
    "list_all clean_line [''    web:'', ''        image: a'']" by code_simp+
  from four_column_services_missed [OF this] show ?thesis by simp
qed

text \<open>A \<open>networks:\<close> key written inline is not seen, so a second one is added; and a comment among the
  entries of a list switches to the mapping form, so list and mapping entries are mixed.\<close>

lemma inline_networks_duplicated:
  "rewrite_one_service [''pier-net''] [''pier-net''] [''  web:'', ''    networks: [inner]''] =
   [''  web:'', ''    networks: [inner]'', ''    networks:'', ''      - pier-net'']"
  by code_simp

lemma comment_mixes_forms:
  "rewrite_one_service [''pier-net''] [''pier-net'']
     [''  web:'', ''    networks:'', ''      # internal'', ''      - inner''] =
   [''  web:'', ''    networks:'', ''      # internal'', ''      - inner'', ''      pier-net:'']"
  by code_simp

end
