(* ===== verification/DeployPorts.thy ===== *)
theory DeployPorts
  imports ComposePorts
begin

text \<open>
  The database side of a compose deploy: the rows of \<open>port_allocations\<close> a compose file turns into
  (\<open>update_ports_from_compose\<close> with its backfill and upsert, \<open>deploy/mod.rs\<close>), the injection from the
  database, and the stages the deploy wrappers compose (\<open>docker/compose_service.rs\<close> and the pipeline).
  The lemmas show what a deploy keeps of the table, that a row is only tagged with its one owner,
  that the deployed file publishes exactly the rows of the database, and where the code does not
  keep what its comments promise.
\<close>

section \<open>Rows\<close>

text \<open>The columns are 64-bit integers read with \<open>as u16\<close>.\<close>

definition as_u16 :: "int \<Rightarrow> nat" where
  "as_u16 x = nat (x mod 65536)"

text \<open>Rows without a compose service, tagged with the one service that declares their container
  port. A row is addressed by its key here, by its rowid in the code.\<close>

definition port_owners :: "compose_service list \<Rightarrow> nat \<Rightarrow> string list" where
  "port_owners services cp =
     map cs_name (filter (\<lambda>svc. list_ex (\<lambda>(h, c). c = cp) (cs_ports svc)) services)"

definition retag :: "compose_service list \<Rightarrow> string \<times> nat \<Rightarrow> port_alloc list \<Rightarrow> port_alloc list" where
  "retag services orphan rows =
     (case orphan of (rid, cp) \<Rightarrow>
       (case port_owners services cp of
          [owner] \<Rightarrow> sql_update (\<lambda>r. pa_id r = rid) (\<lambda>r. r\<lparr>pa_compose := Some owner\<rparr>) rows
        | _ \<Rightarrow> rows))"

definition backfill_orphan_port_rows ::
  "string \<Rightarrow> compose_service list \<Rightarrow> port_db \<Rightarrow> port_db" where
  "backfill_orphan_port_rows sid services db =
     (let orphans = map (\<lambda>r. (pa_id r, as_u16 (pa_container r)))
            (filter (\<lambda>r. pa_service r = sid \<and> pa_compose r = None) (port_rows db))
      in db\<lparr>port_rows := fold (retag services) orphans (port_rows db)\<rparr>)"

definition backfill_orphan_ports :: "env_map \<Rightarrow> string \<Rightarrow> string \<Rightarrow> port_db \<Rightarrow> port_db" where
  "backfill_orphan_ports env sid yaml db =
     (let services = parse_compose_services yaml env
      in if length services \<le> 1 then db else backfill_orphan_port_rows sid services db)"

section \<open>The upsert\<close>

definition coalesce_text :: "string option \<Rightarrow> string" where
  "coalesce_text s = (case s of None \<Rightarrow> [] | Some x \<Rightarrow> x)"

text \<open>One declared port: the compose service, the name, the host and the container port.\<close>

record declared_port =
  dp_service :: "string option"
  dp_name :: string
  dp_host :: nat
  dp_container :: nat

definition same_port :: "string \<Rightarrow> declared_port \<Rightarrow> port_alloc \<Rightarrow> bool" where
  "same_port sid d r =
     (pa_service r = sid \<and> pa_name r = dp_name d \<and> coalesce_text (pa_compose r) = coalesce_text (dp_service d))"

text \<open>An \<open>UPDATE\<close> that would repeat a host port fails and changes nothing; both failures are only
  logged.\<close>

definition upsert_port ::
  "string \<Rightarrow> string \<Rightarrow> string \<Rightarrow> declared_port \<Rightarrow> port_db \<Rightarrow> port_db" where
  "upsert_port now new_id sid d db =
     (case sql_first (same_port sid d) (port_rows db) of
        Some row \<Rightarrow>
          if list_ex (\<lambda>r. pa_id r \<noteq> pa_id row \<and> pa_host r = int (dp_host d)) (port_rows db) then db
          else db\<lparr>port_rows := sql_update (\<lambda>r. pa_id r = pa_id row)
                     (\<lambda>r. r\<lparr>pa_host := int (dp_host d), pa_container := int (dp_container d),
                             pa_compose := dp_service d\<rparr>) (port_rows db)\<rparr>
      | None \<Rightarrow>
          (case insert_port
                  \<lparr>pa_id = new_id, pa_service = sid, pa_name = dp_name d, pa_host = int (dp_host d),
                   pa_container = int (dp_container d), pa_protocol = ''tcp'', pa_public = False,
                   pa_public_port = None, pa_created = now, pa_compose = dp_service d\<rparr> db of
             Inl e \<Rightarrow> db
           | Inr db' \<Rightarrow> db'))"

fun upsert_port_rows ::
  "string \<Rightarrow> (nat \<Rightarrow> string) \<Rightarrow> nat \<Rightarrow> string \<Rightarrow> declared_port list \<Rightarrow> port_db \<Rightarrow> port_db" where
  "upsert_port_rows now uuid n sid [] db = db"
| "upsert_port_rows now uuid n sid (d # ds) db =
     upsert_port_rows now uuid (Suc n) sid ds (upsert_port now (uuid n) sid d db)"

section \<open>What a compose file declares\<close>

fun first_by_container :: "nat list \<Rightarrow> (nat \<times> nat) list \<Rightarrow> (nat \<times> nat) list" where
  "first_by_container seen [] = []"
| "first_by_container seen ((h, c) # ps) =
     (if c \<in> set seen then first_by_container seen ps
      else (h, c) # first_by_container (c # seen) ps)"

definition declared_of_service :: "bool \<Rightarrow> compose_service \<Rightarrow> declared_port list" where
  "declared_of_service multi svc =
     map (\<lambda>(i, (h, c)).
            \<lparr>dp_service = (if multi then Some (cs_name svc) else None), dp_name = spec_name i,
             dp_host = h, dp_container = c\<rparr>)
         (List.enumerate 0 (first_by_container [] (cs_ports svc)))"

definition declared_ports :: "compose_service list \<Rightarrow> declared_port list" where
  "declared_ports services =
     concat (map (declared_of_service (1 < length services)) services)"

definition update_ports_from_compose ::
  "string \<Rightarrow> (nat \<Rightarrow> string) \<Rightarrow> env_map \<Rightarrow> string \<Rightarrow> string \<Rightarrow> port_db \<Rightarrow> port_db" where
  "update_ports_from_compose now uuid env sid yaml db =
     (let services = parse_compose_services yaml env; flat = declared_ports services
      in case flat of
           [] \<Rightarrow> db
         | first # _ \<Rightarrow>
             (let db1 = (if 1 < length services then backfill_orphan_port_rows sid services db else db);
                  db2 = upsert_port_rows now uuid 0 sid flat db1
              in db2\<lparr>svc_rows := sql_update (\<lambda>s. sv_id s = sid)
                        (\<lambda>s. s\<lparr>sv_port := Some (int (dp_host first))\<rparr>) (svc_rows db2)\<rparr>))"

section \<open>The injection from the database and the stages of a deploy\<close>

definition port_row_of :: "port_alloc \<Rightarrow> port_row" where
  "port_row_of r =
     \<lparr>pr_service = pa_compose r, pr_container = as_u16 (pa_container r), pr_public = pa_public r,
      pr_host = as_u16 (pa_host r), pr_public_port = map_option as_u16 (pa_public_port r)\<rparr>"

definition service_port_rows :: "string \<Rightarrow> port_db \<Rightarrow> port_row list" where
  "service_port_rows sid db = map port_row_of (filter (\<lambda>r. pa_service r = sid) (port_rows db))"

definition inject_ports_from_db :: "string \<Rightarrow> string \<Rightarrow> port_db \<Rightarrow> string" where
  "inject_ports_from_db sid yaml db =
     (let rows = service_port_rows sid db
      in if rows = [] then yaml else inject_ports_into_yaml yaml rows)"

definition with_pier_ports :: "env_map \<Rightarrow> string \<Rightarrow> string \<Rightarrow> port_db \<Rightarrow> string \<times> port_db" where
  "with_pier_ports env sid yaml db =
     (if sql_count (\<lambda>r. pa_service r = sid) (port_rows db) = 0 then (yaml, db)
      else (let db1 = backfill_orphan_ports env sid yaml db
            in (inject_ports_from_db sid (strip_compose_ports yaml) db1, db1)))"

text \<open>\<open>reload_compose_ports\<close> and the pipeline drop the obsolete \<open>version:\<close> key first.\<close>

definition strip_compose_version :: "string \<Rightarrow> string" where
  "strip_compose_version yaml =
     join_nl (filter (\<lambda>l. \<not> starts_with (trim l) ''version:'') (lines yaml))"

definition reload_compose_ports ::
  "string \<Rightarrow> (nat \<Rightarrow> string) \<Rightarrow> env_map \<Rightarrow> string \<Rightarrow> string \<Rightarrow> port_db \<Rightarrow> port_db" where
  "reload_compose_ports now uuid env sid yaml db =
     update_ports_from_compose now uuid env sid (strip_compose_version yaml) db"

section \<open>The backfill as a map\<close>

definition backfilled :: "string \<Rightarrow> compose_service list \<Rightarrow> port_alloc \<Rightarrow> port_alloc" where
  "backfilled sid services r =
     (if pa_service r = sid \<and> pa_compose r = None then
        (case port_owners services (as_u16 (pa_container r)) of
           [owner] \<Rightarrow> r\<lparr>pa_compose := Some owner\<rparr>
         | _ \<Rightarrow> r)
      else r)"

lemma retag_map:
  "retag services (rid, cp) rows =
   map (\<lambda>r. if pa_id r = rid then
              (case port_owners services cp of [owner] \<Rightarrow> r\<lparr>pa_compose := Some owner\<rparr> | _ \<Rightarrow> r)
            else r) rows"
proof -
  let ?f = "\<lambda>r. if pa_id r = rid then
              (case port_owners services cp of [owner] \<Rightarrow> r\<lparr>pa_compose := Some owner\<rparr> | _ \<Rightarrow> r)
            else r"
  show ?thesis
  proof (cases "\<exists>owner. port_owners services cp = [owner]")
    case True
    then show ?thesis by (auto simp: retag_def sql_update_def)
  next
    case False
    then have "retag services (rid, cp) rows = rows" by (auto simp: retag_def split: list.split)
    moreover have "map ?f rows = rows"
      using False by (intro map_idI) (auto split: list.split)
    ultimately show ?thesis by simp
  qed
qed

lemma retag_append: "retag services x (a @ b) = retag services x a @ retag services x b"
  by (cases x) (simp add: retag_map)

lemma retag_other: "fst x \<notin> pa_id ` set rows \<Longrightarrow> retag services x rows = rows"
  by (cases x) (force simp: retag_map intro!: map_idI)

lemma fold_retag_append:
  "fold (retag services) xs (a @ b) = fold (retag services) xs a @ fold (retag services) xs b"
  by (induction xs arbitrary: a b) (simp_all add: retag_append)

lemma fold_retag_other:
  "fst ` set xs \<inter> pa_id ` set rows = {} \<Longrightarrow> fold (retag services) xs rows = rows"
  by (induction xs) (auto simp: retag_other)

lemma fold_retag_backfilled:
  assumes "distinct (map pa_id rows)"
  shows "fold (retag services)
      (map (\<lambda>r. (pa_id r, as_u16 (pa_container r)))
        (filter (\<lambda>r. pa_service r = sid \<and> pa_compose r = None) rows)) rows =
    map (backfilled sid services) rows"
  using assms
proof (induction rows)
  case (Cons r rows)
  let ?xs = "map (\<lambda>r. (pa_id r, as_u16 (pa_container r)))
        (filter (\<lambda>r. pa_service r = sid \<and> pa_compose r = None) rows)"
  let ?o = "(pa_id r, as_u16 (pa_container r))"
  have other: "fst ` set ?xs \<inter> pa_id ` set [x] = {}" if q: "pa_id x = pa_id r" for x :: port_alloc
    using Cons.prems q by (auto simp: image_iff)
  have one: "retag services ?o [r] = [if pa_service r = sid \<and> pa_compose r = None
      then backfilled sid services r else hd (retag services ?o [r])]"
    by (simp add: retag_map backfilled_def split: list.split)
  have id: "pa_id (hd (retag services ?o [r])) = pa_id r"
    by (simp add: retag_map split: list.split)
  have rest: "retag services ?o rows = rows" using Cons.prems by (intro retag_other) simp
  have ih: "fold (retag services) ?xs rows = map (backfilled sid services) rows"
    using Cons by simp
  show ?case
  proof (cases "pa_service r = sid \<and> pa_compose r = None")
    case True
    have "retag services ?o (r # rows) = backfilled sid services r # rows"
      using retag_append [of services ?o "[r]" rows] one rest True by simp
    moreover have "fold (retag services) ?xs ([backfilled sid services r] @ rows) =
        [backfilled sid services r] @ map (backfilled sid services) rows"
      unfolding fold_retag_append ih
      by (subst fold_retag_other [OF other]) (simp_all add: backfilled_def split: list.split)
    ultimately show ?thesis using True by simp
  next
    case False
    have "fold (retag services) ?xs ([r] @ rows) = [r] @ map (backfilled sid services) rows"
      unfolding fold_retag_append ih by (subst fold_retag_other [OF other]) simp_all
    moreover have "backfilled sid services r = r" using False by (auto simp: backfilled_def)
    ultimately show ?thesis using False by auto
  qed
qed simp

text \<open>The backfill touches only rows of the service that carry no compose service, and tags such a
  row exactly when one compose service declares its container port, with that service; the loop
  over a snapshot of the rows is the same as looking at each row once.\<close>

theorem backfill_tags_the_owner:
  assumes "distinct (map pa_id (port_rows db))"
  shows "backfill_orphan_port_rows sid services db =
    db\<lparr>port_rows := map (\<lambda>r.
         if pa_service r = sid \<and> pa_compose r = None then
           (case port_owners services (as_u16 (pa_container r)) of
              [owner] \<Rightarrow> r\<lparr>pa_compose := Some owner\<rparr>
            | _ \<Rightarrow> r)
         else r) (port_rows db)\<rparr>"
  using fold_retag_backfilled [OF assms]
  by (simp add: backfill_orphan_port_rows_def Let_def backfilled_def)

section \<open>The upsert keeps the rows\<close>

text \<open>What identifies a row and says whether it is exposed.\<close>

definition exposure :: "port_alloc \<Rightarrow> string \<times> string \<times> string \<times> string \<times> bool \<times> int option" where
  "exposure r = (pa_id r, pa_service r, pa_name r, pa_protocol r, pa_public r, pa_public_port r)"

lemma exposure_map:
  assumes "\<And>r. exposure (f r) = exposure r"
  shows "map exposure (sql_update P f rows) = map exposure rows"
  by (rule map_sql_update) (simp add: assms)

lemma upsert_port_rows_prefix:
  "\<exists>new. map exposure (port_rows (upsert_port now i sid d db)) = map exposure (port_rows db) @ new \<and>
     (\<forall>e \<in> set new. \<exists>n. e = (i, sid, n, ''tcp'', False, None))"
proof (cases "sql_first (same_port sid d) (port_rows db)")
  case None
  then show ?thesis
    by (auto simp: upsert_port_def insert_port_def exposure_def)
next
  case (Some row)
  have "map exposure (sql_update (\<lambda>r. pa_id r = pa_id row)
      (\<lambda>r. r\<lparr>pa_host := int (dp_host d), pa_container := int (dp_container d),
             pa_compose := dp_service d\<rparr>) (port_rows db)) = map exposure (port_rows db)"
    by (rule exposure_map) (simp add: exposure_def)
  then show ?thesis using Some by (simp add: upsert_port_def)
qed

lemma upsert_rows_prefix:
  "\<exists>new. map exposure (port_rows (upsert_port_rows now uuid n sid ds db)) =
     map exposure (port_rows db) @ new \<and> (\<forall>e \<in> set new. \<exists>i m. e = (i, sid, m, ''tcp'', False, None))"
proof (induction ds arbitrary: n db)
  case (Cons d ds)
  obtain a where "map exposure (port_rows (upsert_port now (uuid n) sid d db)) =
      map exposure (port_rows db) @ a" "\<forall>e \<in> set a. \<exists>m. e = (uuid n, sid, m, ''tcp'', False, None)"
    using upsert_port_rows_prefix by blast
  moreover obtain b where "map exposure (port_rows (upsert_port_rows now uuid (Suc n) sid ds
        (upsert_port now (uuid n) sid d db))) =
      map exposure (port_rows (upsert_port now (uuid n) sid d db)) @ b"
    "\<forall>e \<in> set b. \<exists>i m. e = (i, sid, m, ''tcp'', False, None)"
    using Cons.IH by blast
  ultimately show ?case by (intro exI [of _ "a @ b"]) auto
qed simp

lemma ports_ok_update:
  assumes "ports_ok rows" "row \<in> set rows" "\<not> list_ex (\<lambda>r. pa_id r \<noteq> pa_id row \<and> pa_host r = h) rows"
    "0 \<le> h" "h < 65536" "\<And>r. pa_id (f r) = pa_id r" "\<And>r. pa_host (f r) = h"
  shows "ports_ok (sql_update (\<lambda>r. pa_id r = pa_id row) f rows)"
proof -
  let ?g = "\<lambda>r. if pa_id r = pa_id row then f r else r"
  have d: "distinct (map pa_id rows)" "distinct (map pa_host rows)"
    "\<forall>r \<in> set rows. 0 \<le> pa_host r \<and> pa_host r < 65536"
    using assms(1) by (auto simp: ports_ok_def list_all_iff)
  have upd: "sql_update (\<lambda>r. pa_id r = pa_id row) f rows = map ?g rows"
    by (simp add: sql_update_def)
  have "map pa_id (map ?g rows) = map pa_id rows" using assms(6) by simp
  moreover have "distinct (map pa_host (map ?g rows))"
  proof -
    have inj: "inj_on pa_host (set rows)" "distinct rows" "inj_on pa_id (set rows)"
      using d by (auto simp: distinct_map)
    have other: "pa_host r \<noteq> h" if q: "r \<in> set rows" "pa_id r \<noteq> pa_id row" for r
      using assms(3) q by (auto simp: list_ex_iff)
    have "x = y" if xy: "x \<in> set rows" "y \<in> set rows" "(pa_host \<circ> ?g) x = (pa_host \<circ> ?g) y" for x y
    proof (cases "pa_id x = pa_id row")
      case True
      then have "pa_id y = pa_id row" using xy other [of y] assms(7) by (auto split: if_splits)
      then show ?thesis using True xy(1,2) inj(3) by (metis inj_onD)
    next
      case False
      then have "pa_id y \<noteq> pa_id row" using xy other [of x] assms(7) by (auto split: if_splits)
      then show ?thesis using False xy inj(1) by (simp add: inj_onD)
    qed
    then have "inj_on (pa_host \<circ> ?g) (set rows)" by (rule inj_onI)
    then show ?thesis using inj(2) by (simp add: distinct_map)
  qed
  moreover have "\<forall>r \<in> set (map ?g rows). 0 \<le> pa_host r \<and> pa_host r < 65536"
    using d(3) assms(4,5,7) by auto
  ultimately show ?thesis unfolding upd ports_ok_def list_all_iff using d(1) by (metis (no_types, lifting))
qed

lemma insert_ok:
  assumes "ports_ok (port_rows db)" "insert_port r db = Inr db'" "0 \<le> pa_host r \<and> pa_host r < 65536"
  shows "ports_ok (port_rows db')"
proof -
  have new: "\<forall>x \<in> set (port_rows db). pa_id x \<noteq> pa_id r \<and> pa_host x \<noteq> pa_host r"
    and db': "port_rows db' = port_rows db @ [r]"
    using assms(2) by (auto simp: insert_port_def list_ex_iff split: if_splits)
  have "pa_id r \<notin> pa_id ` set (port_rows db)" "pa_host r \<notin> pa_host ` set (port_rows db)"
    using new by auto
  then show ?thesis using assms(1,3) by (simp add: ports_ok_def db')
qed

lemma upsert_port_ok:
  assumes "ports_ok (port_rows db)" "dp_host d \<le> 65535"
  shows "ports_ok (port_rows (upsert_port now i sid d db))"
proof (cases "sql_first (same_port sid d) (port_rows db)")
  case None
  let ?r = "\<lparr>pa_id = i, pa_service = sid, pa_name = dp_name d, pa_host = int (dp_host d),
      pa_container = int (dp_container d), pa_protocol = ''tcp'', pa_public = False,
      pa_public_port = None, pa_created = now, pa_compose = dp_service d\<rparr>"
  show ?thesis
  proof (cases "insert_port ?r db")
    case (Inr db')
    have "ports_ok (port_rows db')"
      by (rule insert_ok [OF assms(1) Inr]) (use assms(2) in simp)
    then show ?thesis using None Inr by (simp add: upsert_port_def)
  qed (use None assms(1) in \<open>simp add: upsert_port_def\<close>)
next
  case (Some row)
  have row: "row \<in> set (port_rows db)" using sql_first_Some [OF Some] by simp
  show ?thesis
  proof (cases "list_ex (\<lambda>r. pa_id r \<noteq> pa_id row \<and> pa_host r = int (dp_host d)) (port_rows db)")
    case False
    have "ports_ok (sql_update (\<lambda>r. pa_id r = pa_id row)
        (\<lambda>r. r\<lparr>pa_host := int (dp_host d), pa_container := int (dp_container d),
               pa_compose := dp_service d\<rparr>) (port_rows db))"
      by (rule ports_ok_update [OF assms(1) row False]) (use assms(2) in simp_all)
    then show ?thesis using Some False by (simp add: upsert_port_def)
  qed (use Some assms(1) in \<open>simp add: upsert_port_def\<close>)
qed

lemma upsert_rows_ok:
  "ports_ok (port_rows db) \<Longrightarrow> \<forall>d \<in> set ds. dp_host d \<le> 65535 \<Longrightarrow>
   ports_ok (port_rows (upsert_port_rows now uuid n sid ds db))"
  by (induction ds arbitrary: n db) (simp_all add: upsert_port_ok)

subsection \<open>Parsed ports are ports\<close>

definition u16_pair :: "nat \<times> nat \<Rightarrow> bool" where
  "u16_pair p = (fst p \<le> 65535 \<and> snd p \<le> 65535)"

definition u16_state :: "parse_state \<Rightarrow> bool" where
  "u16_state st = (list_all u16_pair (ps_ports st) \<and>
     list_all (\<lambda>svc. list_all u16_pair (cs_ports svc)) (ps_services st))"

lemma parse_port_item_u16: "parse_port_item env l = Some p \<Longrightarrow> u16_pair p"
  by (auto simp: parse_port_item_def Let_def u16_pair_def dest!: parse_uint_bound
      split: if_splits option.splits)

lemma push_current_u16: "u16_state st \<Longrightarrow> u16_state (push_current st)"
  by (simp add: u16_state_def push_current_def split: option.split)

lemma parse_body_line_u16: "u16_state st \<Longrightarrow> u16_state (parse_body_line env svc i l st)"
  using parse_port_item_u16 [of env l]
  by (auto simp: u16_state_def parse_body_line_def parse_property_def Let_def split: option.split)

lemma parse_line_u16: "u16_state st \<Longrightarrow> u16_state (parse_line env l st)"
proof -
  assume st: "u16_state st"
  have upd: "u16_state (st\<lparr>ps_service_indent := n\<rparr>)" for n using st by (simp add: u16_state_def)
  have a: "u16_state (push_current st)" using st by (rule push_current_u16)
  have b: "u16_state (push_current (st\<lparr>ps_service_indent := n\<rparr>))" for n
    using upd by (rule push_current_u16)
  have c: "u16_state (parse_body_line env svc i t (st\<lparr>ps_service_indent := n\<rparr>))" for svc i t n
    using upd by (rule parse_body_line_u16)
  show ?thesis
    using st a b c by (simp add: parse_line_def Let_def u16_state_def)
qed

lemma parse_services_u16:
  "svc \<in> set (parse_compose_services yaml env) \<Longrightarrow> p \<in> set (cs_ports svc) \<Longrightarrow> u16_pair p"
proof -
  assume a: "svc \<in> set (parse_compose_services yaml env)" "p \<in> set (cs_ports svc)"
  have "u16_state (fold (parse_line env) ls st)" if q: "u16_state st" for ls st
    using q by (induction ls arbitrary: st) (simp_all add: parse_line_u16)
  moreover have "u16_state parse_start" by (simp add: u16_state_def parse_start_def)
  ultimately have "u16_state (push_current (fold (parse_line env) (lines yaml) parse_start))"
    using push_current_u16 by blast
  then show ?thesis using a by (auto simp: u16_state_def parse_compose_services_def list_all_iff)
qed

lemma first_by_container_subset: "p \<in> set (first_by_container seen ps) \<Longrightarrow> p \<in> set ps"
  by (induction seen ps rule: first_by_container.induct) (auto split: if_splits)

lemma declared_u16:
  "d \<in> set (declared_ports (parse_compose_services yaml env)) \<Longrightarrow> dp_host d \<le> 65535"
  using parse_services_u16 first_by_container_subset
  by (fastforce simp: declared_ports_def declared_of_service_def u16_pair_def in_set_enumerate_eq
      dest!: nth_mem)

subsection \<open>What a deploy keeps of the table\<close>

definition rows_of_others :: "string \<Rightarrow> port_db \<Rightarrow> port_alloc list" where
  "rows_of_others sid db = filter (\<lambda>r. pa_service r \<noteq> sid) (port_rows db)"

lemma upsert_port_others:
  assumes "ports_ok (port_rows db)"
  shows "rows_of_others sid (upsert_port now i sid d db) = rows_of_others sid db"
proof (cases "sql_first (same_port sid d) (port_rows db)")
  case None
  then show ?thesis by (simp add: upsert_port_def insert_port_def rows_of_others_def)
next
  case (Some row)
  have row: "row \<in> set (port_rows db)" "pa_service row = sid"
    using sql_first_Some [OF Some] by (simp_all add: same_port_def)
  have inj: "inj_on pa_id (set (port_rows db))" using assms by (simp add: ports_ok_def distinct_map)
  have "filter (\<lambda>r. pa_service r \<noteq> sid) (sql_update (\<lambda>r. pa_id r = pa_id row) f rows) =
      filter (\<lambda>r. pa_service r \<noteq> sid) rows"
    if q: "\<And>r. pa_service (f r) = pa_service r" "set rows \<subseteq> set (port_rows db)" for f rows
    using q(2)
  proof (induction rows)
    case (Cons r rows)
    have "pa_id r = pa_id row \<Longrightarrow> pa_service r = sid"
      using inj row Cons.prems by (auto dest: inj_onD)
    then show ?case using Cons q(1) by (auto simp: sql_update_def)
  qed (simp add: sql_update_def)
  then show ?thesis using Some by (simp add: upsert_port_def rows_of_others_def)
qed

lemma upsert_rows_others:
  "ports_ok (port_rows db) \<Longrightarrow> \<forall>d \<in> set ds. dp_host d \<le> 65535 \<Longrightarrow>
   rows_of_others sid (upsert_port_rows now uuid n sid ds db) = rows_of_others sid db"
  by (induction ds arbitrary: n db) (simp_all add: upsert_port_others upsert_port_ok)

lemma backfilled_keeps:
  "exposure (backfilled sid services r) = exposure r" "pa_host (backfilled sid services r) = pa_host r"
  by (simp_all add: backfilled_def exposure_def split: list.split)

lemma backfill_keeps:
  assumes "ports_ok (port_rows db)"
    and db'_def: "db' = backfill_orphan_port_rows sid services db"
  shows "ports_ok (port_rows db') \<and> map exposure (port_rows db') = map exposure (port_rows db) \<and>
    rows_of_others sid db' = rows_of_others sid db \<and> svc_rows db' = svc_rows db"
proof -
  have "distinct (map pa_id (port_rows db))" using assms(1) by (simp add: ports_ok_def)
  then have rows: "port_rows db' = map (backfilled sid services) (port_rows db)"
    and svc: "svc_rows db' = svc_rows db"
    using fold_retag_backfilled by (simp_all add: db'_def backfill_orphan_port_rows_def Let_def)
  have id: "pa_id (backfilled sid services r) = pa_id r" for r
    using backfilled_keeps(1) [of sid services r] by (simp add: exposure_def)
  have "rows_of_others sid db' = rows_of_others sid db"
    unfolding rows_of_others_def rows
  proof (induction "port_rows db" arbitrary: db)
    case (Cons r rs)
    have "filter (\<lambda>r. pa_service r \<noteq> sid) (map (backfilled sid services) rs) =
        filter (\<lambda>r. pa_service r \<noteq> sid) rs"
      using Cons.hyps(1) [of "db\<lparr>port_rows := rs\<rparr>"] by simp
    then show ?case
      by (simp flip: Cons.hyps(2)) (simp add: backfilled_def split: list.split)
  qed simp
  then show ?thesis
    using assms(1) svc
    by (simp add: rows ports_ok_def list_all_iff backfilled_keeps id o_def cong: map_cong)
qed

text \<open>C8: Updating the table from a compose file keeps it sound, never deletes a row and never changes
  whether or on which port an existing row is exposed, adds only private rows of the service, and
  leaves the rows of other services alone.\<close>

theorem update_keeps_exposure:
  assumes "ports_ok (port_rows db)"
  shows "ports_ok (port_rows (update_ports_from_compose now uuid env sid yaml db)) \<and>
    rows_of_others sid (update_ports_from_compose now uuid env sid yaml db) = rows_of_others sid db \<and>
    (\<exists>new. map exposure (port_rows (update_ports_from_compose now uuid env sid yaml db)) =
        map exposure (port_rows db) @ new \<and>
      (\<forall>e \<in> set new. \<exists>i m. e = (i, sid, m, ''tcp'', False, None)))"
proof (cases "declared_ports (parse_compose_services yaml env)")
  case Nil
  then show ?thesis using assms by (simp add: update_ports_from_compose_def)
next
  case (Cons d ds)
  define services where "services = parse_compose_services yaml env"
  define db1 where
    "db1 = (if 1 < length services then backfill_orphan_port_rows sid services db else db)"
  define db2 where "db2 = upsert_port_rows now uuid 0 sid (d # ds) db1"
  have u16: "\<forall>x \<in> set (d # ds). dp_host x \<le> 65535"
    using declared_u16 [of _ yaml env] Cons by simp
  have db1: "ports_ok (port_rows db1) \<and> map exposure (port_rows db1) = map exposure (port_rows db) \<and>
      rows_of_others sid db1 = rows_of_others sid db"
    using backfill_keeps [OF assms refl, of sid services] assms by (simp add: db1_def)
  then have db2: "ports_ok (port_rows db2)" "rows_of_others sid db2 = rows_of_others sid db1"
    using upsert_rows_ok upsert_rows_others u16 unfolding db2_def by blast+
  have eq: "update_ports_from_compose now uuid env sid yaml db =
      db2\<lparr>svc_rows := sql_update (\<lambda>s. sv_id s = sid)
             (\<lambda>s. s\<lparr>sv_port := Some (int (dp_host d))\<rparr>) (svc_rows db2)\<rparr>"
    using Cons
    by (simp add: update_ports_from_compose_def Let_def db2_def db1_def services_def)
  show ?thesis
    using db1 db2 upsert_rows_prefix [of now uuid 0 sid "d # ds" db1, folded db2_def]
    unfolding eq by (simp add: rows_of_others_def)
qed

theorem update_keeps_exposure_witness:
  "ports_ok (port_rows sample_ports) \<and>
   ports_ok (port_rows (update_ports_from_compose [] sample_uuid Map.empty ''s2'' sample_compose sample_ports))"
  using update_keeps_exposure [OF sample_ports_ok] sample_ports_ok by blast

theorem backfill_tags_the_owner_witness:
  "distinct (map pa_id (port_rows sample_ports)) \<and>
   backfill_orphan_port_rows ''s1'' [\<lparr>cs_name = ''db'', cs_container = [], cs_ports = [(5432, 5432)]\<rparr>]
     sample_ports =
   sample_ports\<lparr>port_rows := [(new_row [] ''r0'' ''s1'' ''primary'' 5432 5432)\<lparr>pa_compose := Some ''db''\<rparr>]\<rparr>"
proof -
  have d: "distinct (map pa_id (port_rows sample_ports))" by (simp add: sample_ports_def)
  show ?thesis
    using d backfill_tags_the_owner [OF d, of "''s1''"
        "[\<lparr>cs_name = ''db'', cs_container = [], cs_ports = [(5432, 5432)]\<rparr>]"]
    by (simp add: sample_ports_def new_row_def port_owners_def as_u16_def)
qed

section \<open>The deployed file\<close>

lemma service_rows_u16: "\<forall>r \<in> set (service_port_rows sid db). u16_row r"
  by (auto simp: service_port_rows_def port_row_of_def u16_row_def as_u16_def split: option.split)


definition public_row :: port_alloc where
  "public_row = \<lparr>pa_id = ''r'', pa_service = ''s'', pa_name = ''primary'', pa_host = 7, pa_container = 80,
     pa_protocol = ''tcp'', pa_public = True, pa_public_port = Some 9, pa_created = [], pa_compose = None\<rparr>"

definition one_service :: "port_alloc list \<Rightarrow> port_db" where
  "one_service rows = \<lparr>port_rows = rows,
     svc_rows = [\<lparr>sv_id = ''s'', sv_project = None, sv_port = None, sv_updated = []\<rparr>], project_rows = []\<rparr>"

definition plain_compose :: "string list \<Rightarrow> string" where
  "plain_compose comment = unlines ([''services:''] @ comment @ [''  web:'', ''    image: a''])"

lemma plain_conventional: "conventional (lines (strip_compose_ports (plain_compose [])))"
  by code_simp


section \<open>Where the code departs from its comments\<close>

text \<open>Finding: a comment line at the indent of the services that ends in a colon counts as a second
  service for the injector but not for the parser. The row of a single-service stack is not tagged,
  the injector skips it because there seem to be two services, and the deployed file publishes
  nothing: the outage the backfill is there to prevent. Without the comment the port is published.\<close>

theorem comment_unpublishes:
  "map cs_name (parse_compose_services (plain_compose [''  # app:'']) Map.empty) = [''web''] \<and>
   map cs_ports (parse_compose_services
     (fst (with_pier_ports Map.empty ''s'' (plain_compose [''  # app:'']) (one_service [public_row])))
     Map.empty) = [[]] \<and>
   filter (\<lambda>l. trim l = ''ports:'')
     (lines (fst (with_pier_ports Map.empty ''s'' (plain_compose []) (one_service [public_row])))) \<noteq> []"
  by code_simp

text \<open>Finding: the upsert finds a row by the position of the port in the file, so a port inserted
  above a public one takes over its exposure: the new container port is published on the public
  port and the old one becomes private.\<close>

theorem inserted_port_takes_exposure:
  "map (\<lambda>r. (pa_container r, row_binding (port_row_of r)))
     (port_rows (upsert_port_rows [] (\<lambda>n. replicate n (CHR ''u'')) 0 ''s''
        (declared_ports [\<lparr>cs_name = ''web'', cs_container = [], cs_ports = [(5, 50), (7, 80)]\<rparr>])
        (one_service [public_row]))) =
   [(50, Some (9, 50)), (80, Some (7, 80))]"
  by code_simp

text \<open>Finding: stripping the ports removes only lines that start with a dash, so the further lines of
  a port written as a mapping stay behind, attached to the property above.\<close>

theorem long_ports_leave_debris:
  "lines (strip_compose_ports (unlines [''services:'', ''  web:'', ''    image: a'', ''    ports:'',
     ''      - target: 80'', ''        published: 8080'', ''    init: true''])) =
   [''services:'', ''  web:'', ''    image: a'', ''        published: 8080'', ''    init: true'']"
  by code_simp

end
