(* ===== verification/PeerMesh.thy ===== *)
theory PeerMesh
  imports Mesh
begin

text \<open>
  Pairing of the meshes of two cores: the endpoints a remote core calls
  (\<open>describe\<close>, \<open>propose\<close>, \<open>teardown\<close>; api/peer_mesh.rs) and the side that initiates a
  pairing (\<open>pair\<close>, \<open>unpair\<close>; network/core_mesh.rs). With them the tables of the mesh have all
  their writers, and the steps of the whole are a relation here. The lemmas show that the plan of
  an initiator is an honest one, and what honest plans keep.
\<close>

section \<open>Messages\<close>

record node_descriptor =
  nd_uid :: string
  nd_name :: string
  nd_key :: "string option"
  nd_endpoint :: string
  nd_ip :: string
  nd_server :: string

record describe_response =
  de_uid :: string
  de_subnet :: string
  de_port :: "16 word"
  de_enabled :: bool
  de_nodes :: "node_descriptor list"

record propose_request =
  pq_uid :: string
  pq_url :: string
  pq_subnet :: string
  pq_port :: "16 word"
  pq_keepalive :: "16 word"
  pq_nodes :: "node_descriptor list"
  pq_assignments :: "(string \<times> string) list"

section \<open>The owner by its address\<close>

text \<open>\<open>str::trim_start_matches\<close> with a text.\<close>

function trim_start_matches :: "string \<Rightarrow> string \<Rightarrow> string" where
  "trim_start_matches p s =
     (if p \<noteq> [] \<and> starts_with s p then trim_start_matches p (drop (length p) s) else s)"
  by pat_completeness auto

termination trim_start_matches
  by (relation "measure (length o snd)") (auto simp: starts_with_def intro!: diff_less)

declare trim_start_matches.simps [simp del]

definition norm_base_url :: "string \<Rightarrow> string" where
  "norm_base_url s =
     lower (trim_start_matches ''http://'' (trim_start_matches ''https://''
       (trim_chars_end (\<lambda>c. c = CHR ''/'') (trim s))))"

definition same_base_url :: "string \<Rightarrow> string \<Rightarrow> bool" where
  "same_base_url a b = (norm_base_url a = norm_base_url b)"

text \<open>\<open>urls\<close> is the column \<open>servers.url\<close>.\<close>

definition find_peer_by_base_url :: "(string \<Rightarrow> string option) \<Rightarrow> mesh_db \<Rightarrow> string \<Rightarrow> string option" where
  "find_peer_by_base_url urls db base =
     map_option sr_id (sql_first (\<lambda>s. sr_kind s = Some ''peer'' \<and>
       (let url = coalesce (urls (sr_id s)) [] in url \<noteq> [] \<and> same_base_url url base)) (servers db))"

section \<open>Describing the nodes\<close>

text \<open>The nodes of this core, the local ones first, then by creation.\<close>

definition our_nodes :: "mesh_db \<Rightarrow> server_row list" where
  "our_nodes db =
     (let rows = filter (\<lambda>s. coalesce (sr_kind s) ''local'' \<noteq> ''peer'') (servers db)
      in sort_key sr_created (filter sr_local rows) @ sort_key sr_created (filter (\<lambda>s. \<not> sr_local s) rows))"

definition descriptor :: "string \<Rightarrow> 16 word \<Rightarrow> server_row \<Rightarrow> peer_row option \<Rightarrow> node_descriptor" where
  "descriptor core_uid port s wp =
     \<lparr>nd_uid = core_uid @ '':'' @ sr_id s, nd_name = sr_name s, nd_key = Option.bind wp wp_key,
      nd_endpoint = authority (sr_host s) (unat port),
      nd_ip = coalesce (map_option wp_ip wp) [], nd_server = sr_id s\<rparr>"

definition local_node_descriptors :: "mesh_db \<Rightarrow> string \<Rightarrow> 16 word \<Rightarrow> node_descriptor list" where
  "local_node_descriptors db core_uid port =
     map (\<lambda>s. descriptor core_uid port s (sql_first (\<lambda>r. wp_server r = sr_id s) (peers db))) (our_nodes db)"

definition describe :: "string \<Rightarrow> mesh_db \<Rightarrow> (app_error + describe_response) \<times> mesh_db" where
  "describe uuid db =
     (case mesh_config_load db of
        Inl e \<Rightarrow> (Inl e, db)
      | Inr cfg \<Rightarrow>
          (let (uid, db1) = ensure_core_uid uuid db
           in (Inr \<lparr>de_uid = uid, de_subnet = mc_subnet cfg, de_port = mc_port cfg,
                    de_enabled = mc_enabled cfg,
                    de_nodes = local_node_descriptors db1 uid (mc_port cfg)\<rparr>, db1)))"

section \<open>The responder\<close>

text \<open>The assignments as a hash map: the last entry of a server counts.\<close>

definition assigned :: "(string \<times> string) list \<Rightarrow> string \<Rightarrow> string option" where
  "assigned as = map_of (rev as)"

text \<open>\<open>INSERT OR REPLACE\<close>: a row with the same server or the same address gives way.\<close>

definition replace_peer :: "peer_row \<Rightarrow> peer_row list \<Rightarrow> peer_row list" where
  "replace_peer row rows =
     sql_delete (\<lambda>r. wp_server r = wp_server row \<or> wp_ip r = wp_ip row) rows @ [row]"

definition proposed_row :: "time \<Rightarrow> 16 word \<Rightarrow> server_row \<Rightarrow> string \<Rightarrow> peer_row" where
  "proposed_row now port s ip =
     \<lparr>wp_server = sr_id s, wp_ip = ip, wp_key = None, wp_endpoint = authority (sr_host s) (unat port),
      wp_status = ''pending'', wp_error = None, wp_handshake = None, wp_deployed = None, wp_created = now\<rparr>"

fun adopt_nodes ::
  "(string \<Rightarrow> string option) \<Rightarrow> time \<Rightarrow> 16 word \<Rightarrow> peer_row list \<Rightarrow> server_row list \<Rightarrow> app_error + peer_row list" where
  "adopt_nodes assign now port rows [] = Inr rows"
| "adopt_nodes assign now port rows (s # rest) =
     (case assign (sr_id s) of
        None \<Rightarrow> Inl (BadRequest (Lit (''owner sent no IP assignment for our node '' @ sr_id s)))
      | Some ip \<Rightarrow> adopt_nodes assign now port (replace_peer (proposed_row now port s ip) rows) rest)"

definition external_of :: "string \<Rightarrow> node_descriptor \<Rightarrow> external_row" where
  "external_of owner n =
     \<lparr>ex_uid = nd_uid n, ex_name = nd_name n, ex_key = nd_key n, ex_endpoint = nd_endpoint n,
      ex_ip = nd_ip n, ex_owner = owner\<rparr>"

text \<open>The nodes of a paired core are deleted and stored anew.\<close>

definition store_externals :: "string \<Rightarrow> node_descriptor list \<Rightarrow> external_row list \<Rightarrow> external_row list" where
  "store_externals owner nodes rows =
     foldl (\<lambda>xs n. sql_delete (\<lambda>x. ex_uid x = nd_uid n) xs @ [external_of owner n])
       (sql_delete (\<lambda>x. ex_owner x = owner) rows) nodes"

text \<open>Phase A of \<open>propose\<close>, one transaction after the identity is ensured.\<close>

definition adopt_plan ::
  "(string \<Rightarrow> string option) \<Rightarrow> string \<Rightarrow> time \<Rightarrow> propose_request \<Rightarrow> mesh_db \<Rightarrow> (app_error + unit) \<times> mesh_db" where
  "adopt_plan urls uuid now body db =
     (case mesh_config_load db of
        Inl e \<Rightarrow> (Inl e, db)
      | Inr cfg \<Rightarrow>
          if mc_enabled cfg then
            (Inl (Conflict (Lit ''disable this core's mesh before pairing'')), db)
          else
            (case find_peer_by_base_url urls db (pq_url body) of
               None \<Rightarrow> (Inl (BadRequest (Lit ''the initiating core is not registered as a peer here'')), db)
             | Some owner \<Rightarrow>
                 (let (uid, db1) = ensure_core_uid uuid db
                  in case adopt_nodes (assigned (pq_assignments body)) now (pq_port body) (peers db1) (our_nodes db1) of
                       Inl e \<Rightarrow> (Inl e, db1)
                     | Inr rows \<Rightarrow>
                         (Inr (), db1\<lparr>
                            config := map_option (\<lambda>r. r\<lparr>cr_subnet := pq_subnet body, cr_port := uint (pq_port body),
                               cr_keepalive := uint (pq_keepalive body), cr_enabled := 1,
                               cr_core_uid := Some (coalesce (cr_core_uid r) uid), cr_updated := now\<rparr>) (config db1),
                            peers := rows,
                            externals := store_externals owner (pq_nodes body) (externals db1)\<rparr>))))"

definition propose ::
  "(string \<Rightarrow> string option) \<Rightarrow> string \<Rightarrow> 'w caller \<Rightarrow> time \<Rightarrow> propose_request \<Rightarrow> mesh_db \<Rightarrow> 'w \<Rightarrow>
   (app_error + string \<times> node_descriptor list) \<times> mesh_db \<times> 'w" where
  "propose urls uuid call now body db w =
     (case adopt_plan urls uuid now body db of
        (Inl e, db1) \<Rightarrow> (Inl e, db1, w)
      | (Inr _, db1) \<Rightarrow>
          (case configure_mesh call now db1 w of
             (Inl e, db2, w2) \<Rightarrow> (Inl e, db2, w2)
           | (Inr _, db2, w2) \<Rightarrow>
               (case mesh_config_load db2 of
                  Inl e \<Rightarrow> (Inl e, db2, w2)
                | Inr cfg \<Rightarrow>
                    (let (uid, db3) = ensure_core_uid uuid db2
                     in (Inr (uid, local_node_descriptors db3 uid (mc_port cfg)), db3, w2)))))"

text \<open>\<open>teardown\<close>: the answer says whether the owner was known.\<close>

definition peer_teardown ::
  "(string \<Rightarrow> string option) \<Rightarrow> 'w caller \<Rightarrow> time \<Rightarrow> string \<Rightarrow> mesh_db \<Rightarrow> 'w \<Rightarrow> (app_error + bool) \<times> mesh_db \<times> 'w" where
  "peer_teardown urls call now owner_url db w =
     (case mesh_config_load db of
        Inl e \<Rightarrow> (Inl e, db, w)
      | Inr cfg \<Rightarrow>
          (case find_peer_by_base_url urls db owner_url of
             None \<Rightarrow> (Inr False, db, w)
           | Some owner \<Rightarrow>
               (let db1 = db\<lparr>externals := store_externals owner [] (externals db)\<rparr>
                in if mc_enabled cfg then
                     (let (_, db2, w2) = configure_mesh call now db1 w in (Inr True, db2, w2))
                   else (Inr True, db1, w))))"

section \<open>The initiator\<close>

text \<open>The addresses for the remote nodes.\<close>

fun assign_remote ::
  "subnet \<Rightarrow> ipv4 list \<Rightarrow> node_descriptor list \<Rightarrow> (app_error + (string \<times> string) list) option" where
  "assign_remote sn used [] = Some (Inr [])"
| "assign_remote sn used (n # ns) =
     (case allocate_ip sn used of
        None \<Rightarrow> None
      | Some (Inl e) \<Rightarrow> Some (Inl (BadRequest (Lit (''IP allocation for remote nodes: '' @ e))))
      | Some (Inr ip) \<Rightarrow>
          (case assign_remote sn (used @ [ip]) ns of
             Some (Inr as) \<Rightarrow> Some (Inr ((nd_server n, show_ipv4 ip) # as))
           | r \<Rightarrow> r))"

text \<open>The addresses in use here.\<close>

definition used_addresses :: "mesh_db \<Rightarrow> ipv4 list" where
  "used_addresses db =
     List.map_filter (\<lambda>r. parse_ipv4 (wp_ip r)) (peers db) @ List.map_filter (\<lambda>r. parse_ipv4 (ex_ip r)) (externals db)"

text \<open>The answer of the remote core is stored: its nodes with a key and an address.\<close>

definition store_pairing :: "string \<Rightarrow> node_descriptor list \<Rightarrow> mesh_db \<Rightarrow> mesh_db" where
  "store_pairing peer_id nodes db =
     db\<lparr>externals := store_externals peer_id
          (filter (\<lambda>n. \<not> (nd_key n = None \<or> nd_ip n = [])) nodes) (externals db)\<rparr>"

text \<open>\<open>pair\<close>. The address of this core (\<open>own_base_url\<close>, from the settings), that of the peer
  (\<open>peer_endpoint\<close>) and the two calls of the remote core are parameters. First the exchange with
  the remote core, without the database.\<close>

definition pair_exchange ::
  "('w \<Rightarrow> (app_error + describe_response) \<times> 'w) \<Rightarrow>
   (propose_request \<Rightarrow> 'w \<Rightarrow> (app_error + string \<times> node_descriptor list) \<times> 'w) \<Rightarrow>
   subnet \<Rightarrow> ipv4 list \<Rightarrow> propose_request \<Rightarrow> 'w \<Rightarrow> ((app_error + string \<times> node_descriptor list) \<times> 'w) option" where
  "pair_exchange remote_describe remote_propose sn used plan w =
     (case remote_describe w of
        (Inl e, w1) \<Rightarrow> Some (Inl e, w1)
      | (Inr desc, w1) \<Rightarrow>
          if de_uid desc = pq_uid plan then
            Some (Inl (BadRequest (Lit ''refusing to pair a core with itself'')), w1)
          else if de_enabled desc then
            Some (Inl (Conflict (Lit ''the target core's mesh is enabled'')), w1)
          else
            (case assign_remote sn used (de_nodes desc) of
               None \<Rightarrow> None
             | Some (Inl e) \<Rightarrow> Some (Inl e, w1)
             | Some (Inr as) \<Rightarrow> Some (remote_propose (plan\<lparr>pq_assignments := as\<rparr>) w1)))"

definition pair_cores ::
  "string \<Rightarrow> app_error + string \<Rightarrow> app_error + unit \<Rightarrow>
   ('w \<Rightarrow> (app_error + describe_response) \<times> 'w) \<Rightarrow>
   (propose_request \<Rightarrow> 'w \<Rightarrow> (app_error + string \<times> node_descriptor list) \<times> 'w) \<Rightarrow>
   'w caller \<Rightarrow> time \<Rightarrow> string \<Rightarrow> mesh_db \<Rightarrow> 'w \<Rightarrow> ((app_error + string) \<times> mesh_db \<times> 'w) option" where
  "pair_cores uuid own_url peer_url remote_describe remote_propose call now peer_id db w =
     (case mesh_config_load db of
        Inl e \<Rightarrow> Some (Inl e, db, w)
      | Inr cfg \<Rightarrow>
          if \<not> mc_enabled cfg then
            Some (Inl (BadRequest (Lit ''enable and configure this core's own mesh before pairing'')), db, w)
          else
            (let (uid, db1) = ensure_core_uid uuid db;
                 ours = local_node_descriptors db1 uid (mc_port cfg)
             in case own_url of
                  Inl e \<Rightarrow> Some (Inl e, db1, w)
                | Inr base_url \<Rightarrow>
                    if list_ex (\<lambda>n. nd_key n = None \<or> nd_ip n = []) ours then
                      Some (Inl (BadRequest (Lit ''configure this core's mesh first'')), db1, w)
                    else
                      (case peer_url of
                         Inl e \<Rightarrow> Some (Inl e, db1, w)
                       | Inr _ \<Rightarrow>
                           (case subnet_parse (mc_subnet cfg) of
                              Inl e \<Rightarrow> Some (Inl (Internal e), db1, w)
                            | Inr sn \<Rightarrow>
                                (case pair_exchange remote_describe remote_propose sn (used_addresses db1)
                                        \<lparr>pq_uid = uid, pq_url = base_url, pq_subnet = mc_subnet cfg,
                                         pq_port = mc_port cfg, pq_keepalive = mc_keepalive cfg,
                                         pq_nodes = ours, pq_assignments = []\<rparr> w of
                                   None \<Rightarrow> None
                                 | Some (Inl e, w1) \<Rightarrow> Some (Inl e, db1, w1)
                                 | Some (Inr (ruid, nodes), w1) \<Rightarrow>
                                     (case configure_mesh call now (store_pairing peer_id nodes db1) w1 of
                                        (Inl e, db2, w2) \<Rightarrow> Some (Inl e, db2, w2)
                                      | (Inr _, db2, w2) \<Rightarrow> Some (Inr ruid, db2, w2)))))))"

text \<open>\<open>unpair\<close>; the call of the remote core is best effort and a parameter.\<close>

definition unpair_cores ::
  "string \<Rightarrow> app_error + unit \<Rightarrow> ('w \<Rightarrow> 'w) \<Rightarrow> 'w caller \<Rightarrow> time \<Rightarrow> string \<Rightarrow> mesh_db \<Rightarrow> 'w \<Rightarrow>
   (app_error + unit) \<times> mesh_db \<times> 'w" where
  "unpair_cores uuid peer_url remote_teardown call now peer_id db w =
     (case mesh_config_load db of
        Inl e \<Rightarrow> (Inl e, db, w)
      | Inr cfg \<Rightarrow>
          (let (_, db1) = ensure_core_uid uuid db
           in case peer_url of
                Inl e \<Rightarrow> (Inl e, db1, w)
              | Inr _ \<Rightarrow>
                  (let w1 = remote_teardown w;
                       db2 = db1\<lparr>externals := store_externals peer_id [] (externals db1)\<rparr>
                   in if mc_enabled cfg then
                        (let (_, db3, w2) = configure_mesh call now db2 w1 in (Inr (), db3, w2))
                      else (Inr (), db2, w1))))"

section \<open>Steps of the mesh tables\<close>

text \<open>A proposal is honest when its network is one and its addresses for the nodes of this core
  are pairwise distinct usable hosts of it; the endpoint itself checks neither.\<close>

definition honest_plan :: "propose_request \<Rightarrow> mesh_db \<Rightarrow> bool" where
  "honest_plan body db \<longleftrightarrow>
     (case subnet_parse (pq_subnet body) of
        Inl _ \<Rightarrow> False
      | Inr sn \<Rightarrow>
          (let ips = List.map_filter (assigned (pq_assignments body)) (map sr_id (our_nodes db))
           in distinct ips \<and> list_all (\<lambda>ip. ip \<in> show_ipv4 ` set (host_list sn)) ips))"

text \<open>The writers of the mesh tables: the handlers of api/network.rs, whatever the helpers answer;
  the transaction of an honest proposal; the rows of paired cores and the identity; and, since
  configuring and disabling release the database between the calls of the nodes, their single
  writes too, at any later time.\<close>

inductive mesh_step :: "mesh_db \<Rightarrow> mesh_db \<Rightarrow> bool" where
  put: "mesh_step db (snd (put_mesh now body db))"
| enable: "enable_mesh now db = Some (r, db') \<Longrightarrow> mesh_step db db'"
| configure: "mesh_step db (fst (snd (configure_mesh (call :: nat caller) now db w)))"
| disable: "mesh_step db (fst (snd (disable_mesh (call :: nat caller) uninstall now db w)))"
| adopt: "honest_plan body db \<Longrightarrow> mesh_step db (snd (adopt_plan urls uuid now body db))"
| identify: "mesh_step db (snd (ensure_core_uid uuid db))"
| store: "mesh_step db (db\<lparr>externals := store_externals owner nodes (externals db)\<rparr>)"
| mark: "(\<And>r. wp_server (f r) = wp_server r \<and> wp_ip (f r) = wp_ip r) \<Longrightarrow> mesh_step db (upd_peer sid f db)"
| clear: "mesh_step db (db\<lparr>peers := [],
    config := map_option (\<lambda>r. r\<lparr>cr_enabled := 0, cr_updated := now\<rparr>) (config db)\<rparr>)"

inductive_cases mesh_stepE: "mesh_step db db'"

section \<open>Lemmas\<close>

lemma ensure_core_uid_fields [simp]:
  "servers (snd (ensure_core_uid uuid db)) = servers db" "peers (snd (ensure_core_uid uuid db)) = peers db"
  "externals (snd (ensure_core_uid uuid db)) = externals db"
  by (auto simp: ensure_core_uid_def split: option.split)

lemma ensure_core_uid_config:
  "\<exists>f. config (snd (ensure_core_uid uuid db)) = map_option f (config db) \<and>
       (\<forall>r. cr_subnet (f r) = cr_subnet r \<and> cr_enabled (f r) = cr_enabled r)"
proof (cases "Option.bind (config db) cr_core_uid")
  case None
  then show ?thesis
    by (intro exI [of _ "\<lambda>r. r\<lparr>cr_core_uid := Some uuid\<rparr>"]) (simp add: ensure_core_uid_def)
next
  case (Some uid)
  show ?thesis
  proof (cases "uid = []")
    case True
    then show ?thesis using Some
      by (intro exI [of _ "\<lambda>r. r\<lparr>cr_core_uid := Some uuid\<rparr>"]) (simp add: ensure_core_uid_def)
  next
    case False
    then show ?thesis using Some
      by (intro exI [of _ "\<lambda>r. r"]) (simp add: ensure_core_uid_def option.map_ident)
  qed
qed

lemma our_nodes_fields: "our_nodes (snd (ensure_core_uid uuid db)) = our_nodes db"
  by (simp add: our_nodes_def)

lemma set_our_nodes: "set (our_nodes db) \<subseteq> set (servers db)"
  by (auto simp: our_nodes_def Let_def)

lemma distinct_our_nodes:
  assumes "distinct (map sr_id (servers db))"
  shows "distinct (map sr_id (our_nodes db))"
proof -
  have "distinct (our_nodes db)" using assms by (auto simp: our_nodes_def Let_def distinct_map)
  then show ?thesis
    using assms set_our_nodes [of db] inj_on_subset by (auto simp: distinct_map)
qed

lemma replace_peer_new:
  "wp_server row \<notin> wp_server ` set rows \<Longrightarrow> wp_ip row \<notin> wp_ip ` set rows \<Longrightarrow> replace_peer row rows = rows @ [row]"
  unfolding replace_peer_def sql_delete_def by (subst filter_True) (auto intro: rev_image_eqI)

text \<open>With distinct servers and distinct addresses no row gives way: the rows are appended.\<close>

lemma adopt_nodes_Inr:
  "adopt_nodes assign now port rows ss = Inr rows' \<Longrightarrow>
   distinct (map wp_server rows @ map sr_id ss) \<Longrightarrow>
   distinct (map wp_ip rows @ List.map_filter assign (map sr_id ss)) \<Longrightarrow>
   map wp_server rows' = map wp_server rows @ map sr_id ss \<and>
   map wp_ip rows' = map wp_ip rows @ List.map_filter assign (map sr_id ss)"
proof (induction ss arbitrary: rows)
  case (Cons s ss)
  then obtain ip where ip: "assign (sr_id s) = Some ip" by (auto split: option.splits)
  let ?row = "proposed_row now port s ip"
  have f: "wp_server ?row = sr_id s" "wp_ip ?row = ip" by (simp_all add: proposed_row_def)
  have "replace_peer ?row rows = rows @ [?row]"
    using Cons.prems(2,3) ip by (intro replace_peer_new) (auto simp: f List.map_filter_simps)
  then have a: "adopt_nodes assign now port (rows @ [?row]) ss = Inr rows'"
    using Cons.prems(1) ip by simp
  show ?case
    using Cons.IH [OF a] Cons.prems(2,3) ip by (auto simp: f List.map_filter_simps)
qed (simp add: List.map_filter_simps)

lemma adopt_plan_cases:
  assumes "adopt_plan urls uuid now body db = (r, db')"
  shows "db' = db \<or> db' = snd (ensure_core_uid uuid db) \<or>
    (\<exists>cfg f rows xs. mesh_config_load db = Inr cfg \<and> \<not> mc_enabled cfg \<and>
       adopt_nodes (assigned (pq_assignments body)) now (pq_port body) (peers db) (our_nodes db) = Inr rows \<and>
       db' = db\<lparr>config := map_option f (config db), peers := rows, externals := xs\<rparr> \<and>
       (\<forall>c. cr_subnet (f c) = pq_subnet body \<and> cr_enabled (f c) = 1))"
proof -
  obtain uid db1 where e: "ensure_core_uid uuid db = (uid, db1)" by fastforce
  have k: "servers db1 = servers db" "peers db1 = peers db" "our_nodes db1 = our_nodes db"
    using ensure_core_uid_fields [of uuid db] our_nodes_fields [of uuid db] by (simp_all add: e)
  obtain f where f: "config db1 = map_option f (config db)"
    using ensure_core_uid_config [of uuid db] by (auto simp: e)
  show ?thesis
  proof (rule ccontr)
    assume no: "\<not> ?thesis"
    then obtain cfg owner rows where o1: "mesh_config_load db = Inr cfg" "\<not> mc_enabled cfg"
      "adopt_nodes (assigned (pq_assignments body)) now (pq_port body) (peers db) (our_nodes db) = Inr rows"
      "db' = db1\<lparr>config := map_option (\<lambda>r. r\<lparr>cr_subnet := pq_subnet body, cr_port := uint (pq_port body),
           cr_keepalive := uint (pq_keepalive body), cr_enabled := 1,
           cr_core_uid := Some (coalesce (cr_core_uid r) uid), cr_updated := now\<rparr>) (config db1),
         peers := rows, externals := store_externals owner (pq_nodes body) (externals db1)\<rparr>"
      using assms by (auto simp: adopt_plan_def e k split: sum.splits option.splits if_splits)
    have "db' = db\<lparr>config := map_option ((\<lambda>r. r\<lparr>cr_subnet := pq_subnet body, cr_port := uint (pq_port body),
           cr_keepalive := uint (pq_keepalive body), cr_enabled := 1,
           cr_core_uid := Some (coalesce (cr_core_uid r) uid), cr_updated := now\<rparr>) o f) (config db),
         peers := rows, externals := store_externals owner (pq_nodes body) (externals db1)\<rparr>"
      unfolding o1(4) f using k by (simp add: option.map_comp)
    with o1(1-3) no show False by fastforce
  qed
qed

lemma ensure_core_uid_inv: "mesh_inv db \<Longrightarrow> mesh_inv (snd (ensure_core_uid uuid db))"
  using ensure_core_uid_config [of uuid db]
  by (auto simp: mesh_inv_def plan_ok_def split: option.splits)

lemma adopt_plan_inv:
  assumes iv: "mesh_inv db" and h: "honest_plan body db"
  shows "mesh_inv (snd (adopt_plan urls uuid now body db))"
proof -
  obtain r db' where a: "adopt_plan urls uuid now body db = (r, db')" by fastforce
  have "mesh_inv db'" if c: "mesh_config_load db = Inr cfg" "\<not> mc_enabled cfg"
      "adopt_nodes (assigned (pq_assignments body)) now (pq_port body) (peers db) (our_nodes db) = Inr rows"
      "db' = db\<lparr>config := map_option f (config db), peers := rows, externals := xs\<rparr>"
      "\<forall>c. cr_subnet (f c) = pq_subnet body \<and> cr_enabled (f c) = 1" for cfg rows f xs
  proof -
    have p: "peers db = []" and d: "distinct (map sr_id (servers db))"
      using iv c(1,2) by (auto simp: mesh_inv_def plan_ok_def mesh_config_load_def split: option.splits)
    let ?ips = "List.map_filter (assigned (pq_assignments body)) (map sr_id (our_nodes db))"
    obtain sn where sn: "subnet_parse (pq_subnet body) = Inr sn" "distinct ?ips"
      "list_all (\<lambda>ip. ip \<in> show_ipv4 ` set (host_list sn)) ?ips"
      using h by (auto simp: honest_plan_def Let_def split: sum.splits)
    have rows: "map wp_server rows = map sr_id (our_nodes db)" "map wp_ip rows = ?ips"
      using adopt_nodes_Inr [OF c(3)] distinct_our_nodes [OF d] sn(2) by (simp_all add: p)
    have "list_all (\<lambda>ip. ip \<in> show_ipv4 ` set (host_list sn)) (map wp_ip rows)" using sn(3) rows(2) by simp
    then have "list_all (\<lambda>p. wp_ip p \<in> show_ipv4 ` set (host_list sn)) rows"
      by (simp add: list.pred_map o_def)
    then show ?thesis
      using c(1,4,5) d sn(1,2) rows distinct_our_nodes [OF d]
      by (auto simp: mesh_inv_def plan_ok_def mesh_config_load_def split: option.splits)
  qed
  then show ?thesis
    using adopt_plan_cases [OF a] iv ensure_core_uid_inv [OF iv] by (auto simp: a)
qed

lemma upd_peer_inv:
  "(\<And>r. wp_server (f r) = wp_server r \<and> wp_ip (f r) = wp_ip r) \<Longrightarrow> mesh_inv db \<Longrightarrow> mesh_inv (upd_peer sid f db)"
  by (rule mesh_inv_same [OF upd_peer_same])

lemma mesh_step_inv: "mesh_step s t \<Longrightarrow> mesh_inv s \<Longrightarrow> mesh_inv t"
proof (induction rule: mesh_step.induct)
  case (put db now body)
  then show ?case by (rule put_mesh_inv)
next
  case (enable now db r db')
  then show ?case by (rule enable_mesh_inv)
next
  case (configure db call now w)
  show ?case by (rule mesh_inv_same [OF configure_mesh_same configure])
next
  case (disable db call uninstall now w)
  then show ?case by (rule disable_mesh_inv)
next
  case (adopt body db urls uuid now)
  then show ?case by (intro adopt_plan_inv)
next
  case (identify db uuid)
  then show ?case by (rule ensure_core_uid_inv)
next
  case (mark f db sid)
  then show ?case by (intro upd_peer_inv)
qed (auto simp: mesh_inv_def plan_ok_def split: option.splits sum.splits)

interpretation mesh_runs: invariant_system mesh_step mesh_inv
  by unfold_locales (rule mesh_step_inv)

text \<open>The whole handlers are runs of these steps.\<close>

lemma propose_run:
  assumes "honest_plan body db"
  shows "mesh_step\<^sup>*\<^sup>* db (fst (snd (propose urls uuid (call :: nat caller) now body db w)))"
proof -
  let ?a = "snd (adopt_plan urls uuid now body db)"
  let ?c = "fst (snd (configure_mesh call now ?a w))"
  have 1: "mesh_step db ?a" using assms by (rule adopt)
  have 2: "mesh_step ?a ?c" by (rule configure)
  have 3: "mesh_step ?c (snd (ensure_core_uid uuid ?c))" by (rule identify)
  have "fst (snd (propose urls uuid call now body db w)) \<in> {?a, ?c, snd (ensure_core_uid uuid ?c)}"
    by (auto simp: propose_def split: prod.splits sum.splits)
  with 1 2 3 show ?thesis
    by (auto intro: r_into_rtranclp converse_rtranclp_into_rtranclp)
qed

lemma case_sum_eqE:
  assumes "(case x of Inl e \<Rightarrow> f e | Inr y \<Rightarrow> g y) = z"
  obtains e where "x = Inl e" "f e = z" | y where "x = Inr y" "g y = z"
  using assms by (cases x) auto

lemma case_option_eqE:
  assumes "(case x of None \<Rightarrow> f | Some y \<Rightarrow> g y) = z"
  obtains "x = None" "f = z" | y where "x = Some y" "g y = z"
  using assms by (cases x) auto

lemma case_prod_eqE:
  assumes "(case x of (a, b) \<Rightarrow> f a b) = z"
  obtains a b where "x = (a, b)" "f a b = z"
  using assms by (cases x) auto

lemma if_eqE:
  assumes "(if b then x else y) = z"
  obtains "b" "x = z" | "\<not> b" "y = z"
  using assms by (cases b) auto

lemmas case_elims = case_sum_eqE case_option_eqE case_prod_eqE if_eqE

lemma pair_run:
  assumes "pair_cores uuid own_url peer_url rd rp (call :: nat caller) now peer_id db w = Some (r, db', w')"
  shows "mesh_step\<^sup>*\<^sup>* db db'"
proof -
  obtain uid a where e: "ensure_core_uid uuid db = (uid, a)" by fastforce
  have 1: "mesh_step db a" using identify [of db uuid] by (simp add: e)
  have 2: "mesh_step a (store_pairing peer_id nodes a)" for nodes unfolding store_pairing_def by (rule store)
  have 3: "mesh_step x y" if "configure_mesh call now x w2 = (v, y, w3)" for x y v w2 w3
    using configure [of x call now w2] by (simp add: that)
  have 4: "mesh_step\<^sup>*\<^sup>* db y" if "configure_mesh call now (store_pairing peer_id nodes a) w2 = (v, y, w3)" for nodes y v w2 w3
    using 1 2 3 [OF that] by (meson converse_rtranclp_into_rtranclp r_into_rtranclp)
  have 5: "mesh_step\<^sup>*\<^sup>* db a" using 1 by (rule r_into_rtranclp)
  show ?thesis
    using assms unfolding pair_cores_def e Let_def prod.case
    by (elim case_elims) (use 5 in \<open>auto dest: 4\<close>)
qed

text \<open>A pairing core proposes distinct usable hosts of its network that are not in use there.\<close>

lemma assign_remote_fresh:
  assumes "subnet_ok sn"
  shows "assign_remote sn used nodes = Some (Inr as) \<Longrightarrow>
    map fst as = map nd_server nodes \<and> distinct (map snd as) \<and>
    (\<forall>x \<in> set as. snd x \<in> show_ipv4 ` (set (host_list sn) - set used))"
proof (induction nodes arbitrary: used as)
  case (Cons n ns)
  then obtain ip as' where a: "allocate_ip sn used = Some (Inr ip)" "assign_remote sn (used @ [ip]) ns = Some (Inr as')"
    "as = (nd_server n, show_ipv4 ip) # as'"
    by (auto split: option.splits sum.splits)
  then have "alloc_search (sn, used) = Some ip"
    using allocate_ip_search [OF assms, of used] by (auto split: option.splits)
  then have "ip \<in> set (host_list sn)" "ip \<notin> set used"
    using alloc.found_pool [of "(sn, used)" ip] alloc.found_free [of "(sn, used)" ip] assms by simp_all
  then show ?case using Cons.IH [OF a(2)] by (auto simp: a(3) show_ipv4_inj)
qed simp

lemma map_filter_map_of:
  assumes "distinct ks" "distinct (map snd as)"
  shows "distinct (List.map_filter (map_of as) ks)" "set (List.map_filter (map_of as) ks) \<subseteq> snd ` set as"
proof -
  show s: "set (List.map_filter (map_of as) ks) \<subseteq> snd ` set as" for ks
    by (induction ks) (force simp: List.map_filter_simps dest: map_of_SomeD split: option.splits)+
  show "distinct (List.map_filter (map_of as) ks)" using assms(1)
  proof (induction ks)
    case (Cons k ks)
    have "v \<notin> set (List.map_filter (map_of as) ks)" if v: "map_of as k = Some v" for v
    proof
      assume "v \<in> set (List.map_filter (map_of as) ks)"
      then obtain k' where k': "k' \<in> set ks" "map_of as k' = Some v"
        by (induction ks) (auto simp: List.map_filter_simps split: option.splits)
      have "(k, v) \<in> set as" "(k', v) \<in> set as" using v k'(2) by (simp_all add: map_of_SomeD)
      then have "(k, v) = (k', v)" using assms(2) by (metis distinct_map inj_onD snd_conv)
      then show False using k'(1) Cons.prems by simp
    qed
    then show ?case using Cons by (cases "map_of as k") (auto simp: List.map_filter_simps)
  qed (simp add: List.map_filter_simps)
qed

lemma pair_plan_honest:
  assumes "subnet_parse (pq_subnet body) = Inr sn"
    and "assign_remote sn used nodes = Some (Inr (pq_assignments body))"
    and "distinct (map sr_id (servers db))"
  shows "honest_plan body db"
proof -
  let ?as = "pq_assignments body"
  have f: "distinct (map snd ?as)" "\<forall>x \<in> set ?as. snd x \<in> show_ipv4 ` (set (host_list sn) - set used)"
    using assign_remote_fresh [OF subnet_parse_ok [OF assms(1)] assms(2)] by simp_all
  have "distinct (map snd (rev ?as))" using f(1) by (simp add: rev_map [symmetric])
  note m = map_filter_map_of [OF distinct_our_nodes [OF assms(3)] this]
  have "ip \<in> show_ipv4 ` set (host_list sn)"
    if "ip \<in> set (List.map_filter (map_of (rev ?as)) (map sr_id (our_nodes db)))" for ip
    using subsetD [OF m(2) that] f(2) by auto
  then show ?thesis using m(1) by (simp add: honest_plan_def assms(1) Let_def assigned_def list_all_iff)
qed

section \<open>Properties\<close>

text \<open>C5: in every state the writers of the mesh tables reach from a sound plan, whatever the helpers
  answer and however the calls of the nodes are interleaved with other requests, the stored network
  parses, the peers' addresses are pairwise distinct usable hosts of it, one per server, and there
  are no peers while the mesh is off; so an address is never handed out twice, and the network never
  changes under allocated addresses. The condition is that the plans other cores propose are honest
  (a network, and distinct usable hosts of it for the nodes of this core): the endpoint checks
  neither (\<open>unusable_proposal_locks_mesh\<close>), but every plan a pairing core makes is
  (\<open>pair_plan_honest\<close>).\<close>

theorem mesh_addresses_sound:
  assumes "mesh_step\<^sup>*\<^sup>* db db'" "mesh_inv db" "config db' = Some r"
  shows "\<exists>sn. subnet_parse (cr_subnet r) = Inr sn \<and> distinct (map wp_server (peers db')) \<and>
    distinct (map wp_ip (peers db')) \<and>
    (\<forall>p \<in> set (peers db'). \<exists>h \<in> set (host_list sn). wp_ip p = show_ipv4 h) \<and>
    (cr_enabled r = 0 \<longrightarrow> peers db' = [])"
  using mesh_runs.run_inv [OF assms(1,2)] assms(3)
  by (auto simp: mesh_inv_def plan_ok_def list_all_iff image_iff split: sum.splits)

lemma mesh_addresses_sound_witness:
  "\<exists>db sn. enable_mesh 7 sample_mesh = Some (Inr 2, db) \<and> subnet_parse ''10.42.0.0/30'' = Inr sn \<and>
     distinct (map wp_ip (peers db))"
proof -
  obtain db where e: "enable_mesh 7 sample_mesh = Some (Inr 2, db)"
      "config db = Some (sample_config\<lparr>cr_enabled := 1, cr_updated := 7\<rparr>)"
    using enable_mesh_ready [OF sample_ready, of 7]
    by (simp add: sample_mesh_def provisioned_def sample_server_def coalesce_def host_list_length sample_net_def
        subnet_ok_def host_bits_def)
  have r: "mesh_step\<^sup>*\<^sup>* sample_mesh db" by (rule r_into_rtranclp, rule enable, rule e(1))
  from mesh_addresses_sound [OF r sample_inv e(2)] e
  show ?thesis by (auto simp: sample_config_def)
qed


text \<open>A proposal with an address that is none is adopted: the mesh is on, and from then on it can be
  neither configured nor disabled, since both fail to read the peers.\<close>

definition sample_owner :: server_row where
  "sample_owner = (sample_server ''p'' False)\<lparr>sr_kind := Some ''peer''\<rparr>"

definition sample_paired :: mesh_db where
  "sample_paired = sample_mesh\<lparr>servers := [sample_server ''a'' True, sample_owner]\<rparr>"

definition bad_proposal :: propose_request where
  "bad_proposal = \<lparr>pq_uid = ''u'', pq_url = ''https://192.0.2.9:8443'', pq_subnet = ''10.9.0.0/24'', pq_port = 51820,
     pq_keepalive = 25, pq_nodes = [], pq_assignments = [(''a'', ''10.9.0.2/24'')]\<rparr>"

lemma sample_adopts:
  assumes "body = bad_proposal\<lparr>pq_assignments := as\<rparr>"
    and "adopt_nodes (assigned as) 7 51820 [] [sample_server ''a'' True] = Inr rows"
  shows "adopt_plan (\<lambda>_. Some ''http://192.0.2.9:8443/'') ''me'' 7 body sample_paired =
    (Inr (), sample_paired\<lparr>config := Some (sample_config\<lparr>cr_subnet := ''10.9.0.0/24'', cr_enabled := 1,
      cr_core_uid := Some ''me'', cr_updated := 7\<rparr>), peers := rows\<rparr>)"
proof -
  have u: "find_peer_by_base_url (\<lambda>_. Some ''http://192.0.2.9:8443/'') sample_paired ''https://192.0.2.9:8443'' = Some ''p''"
    by code_simp
  have n: "our_nodes sample_paired = [sample_server ''a'' True]" by code_simp
  have n': "our_nodes (sample_paired\<lparr>config := c\<rparr>) = [sample_server ''a'' True]" for c
    using n by (simp add: our_nodes_def)
  have e: "ensure_core_uid ''me'' sample_paired =
      (''me'', sample_paired\<lparr>config := Some (sample_config\<lparr>cr_core_uid := Some ''me''\<rparr>)\<rparr>)"
    by (simp add: ensure_core_uid_def sample_paired_def sample_mesh_def sample_config_def)
  have c: "\<exists>cfg. mesh_config_load sample_paired = Inr cfg \<and> \<not> mc_enabled cfg"
    by (simp add: mesh_config_load_def sample_paired_def sample_mesh_def sample_config_def)
  have p: "peers sample_paired = []" "externals sample_paired = []"
    by (simp_all add: sample_paired_def sample_mesh_def)
  from c show ?thesis
    by (auto simp: adopt_plan_def u e n' p assms bad_proposal_def store_externals_def coalesce_def
        sample_config_def sql_delete_def simp del: adopt_nodes.simps)
qed

theorem unusable_proposal_locks_mesh:
  "\<exists>db. adopt_plan (\<lambda>_. Some ''http://192.0.2.9:8443/'') ''me'' 7 bad_proposal sample_paired = (Inr (), db) \<and>
     map wp_ip (peers db) = [''10.9.0.2/24''] \<and>
     configure_mesh (call :: 'w caller) now db w = (Inl conversion_error, db, w) \<and>
     disable_mesh call uninstall now db w = (Inl conversion_error, db, w)"
proof -
  let ?row = "proposed_row 7 51820 (sample_server ''a'' True) ''10.9.0.2/24''"
  let ?db = "sample_paired\<lparr>config := Some (sample_config\<lparr>cr_subnet := ''10.9.0.0/24'', cr_enabled := 1,
      cr_core_uid := Some ''me'', cr_updated := 7\<rparr>), peers := [?row]\<rparr>"
  have r: "adopt_nodes (assigned [(''a'', ''10.9.0.2/24'')]) 7 51820 [] [sample_server ''a'' True] = Inr [?row]"
    by (simp add: assigned_def sample_server_def replace_peer_def sql_simps)
  have a: "adopt_plan (\<lambda>_. Some ''http://192.0.2.9:8443/'') ''me'' 7 bad_proposal sample_paired = (Inr (), ?db)"
    by (rule sample_adopts [OF _ r]) (simp add: bad_proposal_def)
  have "parse_ipv4 ''10.9.0.2/24'' = None" by code_simp
  then have "peers_load_all ?db = Inl conversion_error"
    by (simp add: peers_load_all_def List.map_filter_simps sql_first_def peer_of_row_def proposed_row_def
        sample_paired_def sample_server_def)
  then have "configure_mesh call now ?db w = (Inl conversion_error, ?db, w)"
    "disable_mesh call uninstall now ?db w = (Inl conversion_error, ?db, w)"
    by (simp_all add: configure_mesh_def disable_mesh_def mesh_config_load_def)
  with a show ?thesis by (intro exI [of _ ?db]) (simp add: proposed_row_def)
qed

end
