(* ===== verification/ServiceDns.thy ===== *)
theory ServiceDns
  imports PeerMesh
begin

text \<open>
  The logical names of the mesh (\<open>api/service_dns.rs\<close>) and the host entries a deploy injects
  (\<open>mesh_hosts_for_inject\<close> and \<open>normalize_mesh_hostname\<close>, \<open>deploy/mod.rs\<close>). The handlers are
  functions on the table of names and the mesh tables; the lemmas show what every reachable table
  holds, that the injected names are host names, and that no logical name shadows a server.
\<close>

section \<open>Tables and checks\<close>

record dns_row =
  dr_name :: string
  dr_server :: string
  dr_service :: "string option"
  dr_port :: int
  dr_created :: time
  dr_updated :: time

record dns_db =
  dns_rows :: "dns_row list"
  dns_mesh :: mesh_db

definition lower_or_digit :: "char \<Rightarrow> bool" where
  "lower_or_digit c = (is_digit c \<or> (let n = (of_char c :: nat) in 97 \<le> n \<and> n \<le> 122))"

text \<open>The bytes of the UTF-8 encoding; two for a character outside ASCII.\<close>

definition utf8_len :: "string \<Rightarrow> nat" where
  "utf8_len s = sum_list (map (\<lambda>c. if (of_char c :: nat) < 128 then 1 else 2) s)"

definition validate_name :: "string \<Rightarrow> app_error + unit" where
  "validate_name name =
     (if name = [] \<or> 31 < utf8_len name then Inl (BadRequest (te ''errors.service_dns.name_length''))
      else if \<not> lower_or_digit (hd name) then
        Inl (BadRequest (te ''errors.service_dns.name_must_start''))
      else if \<not> lower_or_digit (last name) then
        Inl (BadRequest (te ''errors.service_dns.name_must_end''))
      else if \<not> list_all (\<lambda>c. lower_or_digit c \<or> c = CHR ''-'') name then
        Inl (BadRequest (te ''errors.service_dns.name_invalid_chars''))
      else Inr ())"

definition validate_port :: "int \<Rightarrow> app_error + unit" where
  "validate_port port =
     (if port < 1 \<or> 65535 < port then Inl (BadRequest (te ''errors.service_dns.port_range''))
      else Inr ())"

section \<open>Handlers\<close>

record mapping_request =
  mq_server :: string
  mq_service :: "string option"
  mq_port :: int

definition dns_create ::
  "time \<Rightarrow> string \<Rightarrow> mapping_request \<Rightarrow> dns_db \<Rightarrow> (app_error + string) \<times> dns_db" where
  "dns_create now raw_name body db =
     (let name = lower (trim raw_name)
      in case validate_name name of
           Inl e \<Rightarrow> (Inl e, db)
         | Inr _ \<Rightarrow>
             (case validate_port (mq_port body) of
                Inl e \<Rightarrow> (Inl e, db)
              | Inr _ \<Rightarrow>
                  if \<exists>s \<in> set (servers (dns_mesh db)). lower (sr_name s) = name then
                    (Inl (Conflict (Te ''errors.service_dns.name_refers_to_server'' [(''v'', name)])), db)
                  else if \<exists>r \<in> set (dns_rows db). dr_name r = name then
                    (Inl (Conflict (Te ''errors.service_dns.name_already_registered'' [(''v'', name)])), db)
                  else if \<not> (\<exists>s \<in> set (servers (dns_mesh db)). sr_id s = mq_server body) then
                    (Inl (BadRequest (Te ''errors.service_dns.server_id_not_found''
                       [(''v'', mq_server body)])), db)
                  else
                    (Inr name,
                     db\<lparr>dns_rows := dns_rows db @
                       [\<lparr>dr_name = name, dr_server = mq_server body, dr_service = mq_service body,
                         dr_port = mq_port body, dr_created = now, dr_updated = now\<rparr>]\<rparr>)))"

definition dns_update ::
  "time \<Rightarrow> string \<Rightarrow> mapping_request \<Rightarrow> dns_db \<Rightarrow> (app_error + string) \<times> dns_db" where
  "dns_update now raw_name body db =
     (let name = lower (trim raw_name)
      in case validate_name name of
           Inl e \<Rightarrow> (Inl e, db)
         | Inr _ \<Rightarrow>
             (case validate_port (mq_port body) of
                Inl e \<Rightarrow> (Inl e, db)
              | Inr _ \<Rightarrow>
                  if sql_count (\<lambda>r. dr_name r = name) (dns_rows db) = 0 then
                    (Inl (NotFound (Te ''errors.service_dns.mapping_not_found'' [(''v'', name)])), db)
                  else if \<not> (\<exists>s \<in> set (servers (dns_mesh db)). sr_id s = mq_server body) then
                    (Inl (DatabaseError ''FOREIGN KEY constraint failed''), db)
                  else
                    (Inr name,
                     db\<lparr>dns_rows := sql_update (\<lambda>r. dr_name r = name)
                          (\<lambda>r. r\<lparr>dr_server := mq_server body, dr_service := mq_service body,
                                  dr_port := mq_port body, dr_updated := now\<rparr>) (dns_rows db)\<rparr>)))"

definition dns_remove :: "string \<Rightarrow> dns_db \<Rightarrow> (app_error + unit) \<times> dns_db" where
  "dns_remove raw_name db =
     (let name = lower (trim raw_name)
      in if sql_count (\<lambda>r. dr_name r = name) (dns_rows db) = 0 then
           (Inl (NotFound (Te ''errors.service_dns.mapping_not_found'' [(''v'', name)])), db)
         else (Inr (), db\<lparr>dns_rows := sql_delete (\<lambda>r. dr_name r = name) (dns_rows db)\<rparr>))"

text \<open>The name, server, name of the server and port of every mapping, by name.\<close>

definition dns_list :: "dns_db \<Rightarrow> (string \<times> string \<times> string option \<times> int) list" where
  "dns_list db =
     map (\<lambda>r. (dr_name r, dr_server r,
                map_option sr_name (sql_first (\<lambda>s. sr_id s = dr_server r) (servers (dns_mesh db))),
                dr_port r))
       (sort_key dr_name (dns_rows db))"

section \<open>The injected hosts\<close>

text \<open>The loop over the characters of a server name: the text so far and \<open>prev_dash\<close>.\<close>

definition normalize_char :: "char \<Rightarrow> string \<times> bool \<Rightarrow> string \<times> bool" where
  "normalize_char c st =
     (case st of (s, prev_dash) \<Rightarrow>
       (let ch = lower_char c;
            allowed = is_alpha ch \<or> is_digit ch \<or> ch = CHR ''.'' \<or> ch = CHR ''-''
        in if allowed then (s @ [ch], ch = CHR ''-'' \<or> ch = CHR ''.'')
           else if \<not> prev_dash then (s @ [CHR ''-''], True)
           else (s, prev_dash)))"

definition normalize_mesh_hostname :: "string \<Rightarrow> string" where
  "normalize_mesh_hostname name =
     (let s = trim_chars_end (\<lambda>c. c = CHR ''-'' \<or> c = CHR ''.'')
            (fst (fold normalize_char name ([], True)))
      in (if s = [] then ''peer'' else s) @ ''.mesh'')"

definition server_hosts :: "mesh_db \<Rightarrow> (string \<times> string) list" where
  "server_hosts db =
     concat (map (\<lambda>wp. if wp_status wp = ''active'' \<and> wp_key wp \<noteq> None
        then map (\<lambda>s. (normalize_mesh_hostname (sr_name s), wp_ip wp))
               (filter (\<lambda>s. sr_id s = wp_server wp) (servers db))
        else []) (peers db))"

definition service_hosts :: "dns_db \<Rightarrow> (string \<times> string) list" where
  "service_hosts db =
     concat (map (\<lambda>sd. map (\<lambda>wp. (dr_name sd @ ''.mesh'', wp_ip wp))
        (filter (\<lambda>wp. wp_server wp = dr_server sd \<and> wp_status wp = ''active'') (peers (dns_mesh db))))
       (dns_rows db))"

definition mesh_hosts_for_inject :: "dns_db \<Rightarrow> (string \<times> string) list" where
  "mesh_hosts_for_inject db =
     (if (case config (dns_mesh db) of None \<Rightarrow> 0 | Some r \<Rightarrow> cr_enabled r) \<noteq> 1 then []
      else (let out = server_hosts (dns_mesh db)
            in out @ filter (\<lambda>h. fst h \<notin> fst ` set out) (service_hosts db)))"

section \<open>Servers come and go\<close>

text \<open>The columns of a new agent (\<open>create\<close>, api/servers.rs, for kind \<open>agent\<close>), a rename and a
  deletion with its cascades to the peers and the names.\<close>

definition server_insert :: "server_row \<Rightarrow> dns_db \<Rightarrow> dns_db" where
  "server_insert row db =
     (if \<exists>s \<in> set (servers (dns_mesh db)). sr_id s = sr_id row then db
      else db\<lparr>dns_mesh := (dns_mesh db)\<lparr>servers := servers (dns_mesh db) @ [row]\<rparr>\<rparr>)"

definition server_rename :: "string \<Rightarrow> string \<Rightarrow> dns_db \<Rightarrow> (app_error + string) \<times> dns_db" where
  "server_rename sid raw db =
     (let name = trim raw; ss = servers (dns_mesh db)
      in if name = [] then (Inl (BadRequest (te ''errors.servers.name_required'')), db)
         else if sql_count (\<lambda>s. sr_id s = sid) ss = 0 then
           (Inl (NotFound (Te ''errors.servers.server_not_found'' [(''id'', sid)])), db)
         else (Inr name,
           db\<lparr>dns_mesh := (dns_mesh db)\<lparr>servers := sql_update (\<lambda>s. sr_id s = sid) (\<lambda>s. s\<lparr>sr_name := name\<rparr>) ss\<rparr>\<rparr>))"

definition server_remove :: "string \<Rightarrow> dns_db \<Rightarrow> (app_error + unit) \<times> dns_db" where
  "server_remove sid db =
     (let m = dns_mesh db
      in if sql_count (\<lambda>s. sr_id s = sid \<and> \<not> sr_local s) (servers m) = 0 then
           (Inl (BadRequest (te ''errors.servers.server_not_found_or_local'')), db)
         else (Inr (),
           \<lparr>dns_rows = sql_delete (\<lambda>r. dr_server r = sid) (dns_rows db),
            dns_mesh = m\<lparr>servers := sql_delete (\<lambda>s. sr_id s = sid \<and> \<not> sr_local s) (servers m),
                         peers := sql_delete (\<lambda>p. wp_server p = sid) (peers m)\<rparr>\<rparr>))"

text \<open>A step of the tables: a handler here, one of api/network.rs, or a change of the servers.\<close>

inductive dns_step :: "dns_db \<Rightarrow> dns_db \<Rightarrow> bool" where
  create: "dns_step db (snd (dns_create now name body db))"
| update: "dns_step db (snd (dns_update now name body db))"
| delete: "dns_step db (snd (dns_remove name db))"
| mesh: "mesh_step (dns_mesh db) m \<Longrightarrow> dns_step db (db\<lparr>dns_mesh := m\<rparr>)"
| insert: "dns_step db (server_insert row db)"
| rename: "dns_step db (snd (server_rename sid raw db))"
| remove: "dns_step db (snd (server_remove sid db))"

inductive_cases dns_stepE: "dns_step db db'"

definition valid_row :: "server_row list \<Rightarrow> dns_row \<Rightarrow> bool" where
  "valid_row ss r \<longleftrightarrow> validate_name (dr_name r) = Inr () \<and> validate_port (dr_port r) = Inr () \<and>
     dr_server r \<in> sr_id ` set ss"

definition dns_inv :: "dns_db \<Rightarrow> bool" where
  "dns_inv db \<longleftrightarrow> mesh_inv (dns_mesh db) \<and> peers_known (dns_mesh db) \<and>
     distinct (map dr_name (dns_rows db)) \<and> list_all (valid_row (servers (dns_mesh db))) (dns_rows db)"

section \<open>Lemmas on the tables\<close>

lemma adopt_plan_servers: "servers (snd (adopt_plan urls uuid now body db)) = servers db"
proof -
  obtain r db' where a: "adopt_plan urls uuid now body db = (r, db')" by fastforce
  show ?thesis using adopt_plan_cases [OF a] by (auto simp: a)
qed

lemma mesh_step_servers: "mesh_step s t \<Longrightarrow> servers t = servers s"
proof (induction rule: mesh_step.induct)
  case (put db now body)
  then show ?case by (auto simp: put_mesh_def split: option.splits sum.splits)
next
  case (enable now db r db')
  then show ?case by (auto simp: enable_mesh_def Let_def split: option.splits sum.splits if_splits)
next
  case (configure db call now w)
  then show ?case using configure_mesh_same [of db call now w] by (simp add: mesh_same_def)
next
  case (disable db call uninstall now w)
  then show ?case by (simp add: disable_mesh_db split: sum.split)
qed (simp_all add: adopt_plan_servers upd_peer_def)

lemma peers_known_set: "peers_known db \<longleftrightarrow> wp_server ` set (peers db) \<subseteq> sr_id ` set (servers db)"
  by (auto simp: peers_known_def list_all_iff)

lemma peers_known_same: "mesh_same s t \<Longrightarrow> peers_known s \<Longrightarrow> peers_known t"
proof -
  assume m: "mesh_same s t" and k: "peers_known s"
  then have "map (\<lambda>r. (wp_server r, wp_ip r)) (peers t) = map (\<lambda>r. (wp_server r, wp_ip r)) (peers s)"
    by (simp add: mesh_same_def)
  from arg_cong [OF this, of "\<lambda>xs. map fst xs"]
  have "map wp_server (peers t) = map wp_server (peers s)" by (simp add: o_def)
  then have "wp_server ` set (peers t) = wp_server ` set (peers s)" by (metis list.set_map)
  then show ?thesis using k m by (simp add: peers_known_set mesh_same_def)
qed

lemma adopt_nodes_known:
  "adopt_nodes assign now port rows ss = Inr rows' \<Longrightarrow> wp_server ` set rows' \<subseteq> wp_server ` set rows \<union> sr_id ` set ss"
proof (induction ss arbitrary: rows)
  case (Cons s ss)
  then obtain ip where a: "adopt_nodes assign now port (replace_peer (proposed_row now port s ip) rows) ss = Inr rows'"
    by (auto split: option.splits)
  have "wp_server ` set (replace_peer (proposed_row now port s ip) rows) \<subseteq> insert (sr_id s) (wp_server ` set rows)"
    by (auto simp: replace_peer_def set_sql_delete proposed_row_def)
  with Cons.IH [OF a] show ?case by auto
qed simp

lemma adopt_plan_known: "peers_known db \<Longrightarrow> peers_known (snd (adopt_plan urls uuid now body db))"
proof -
  assume k: "peers_known db"
  obtain r db' where a: "adopt_plan urls uuid now body db = (r, db')" by fastforce
  have "peers_known db'"
    if c: "adopt_nodes (assigned (pq_assignments body)) now (pq_port body) (peers db) (our_nodes db) = Inr rows"
      "db' = db\<lparr>config := cfg, peers := rows, externals := xs\<rparr>" for rows cfg xs
    using adopt_nodes_known [OF c(1)] image_mono [OF set_our_nodes [of db], of sr_id] k
    by (simp add: c(2) peers_known_set) blast
  moreover have "peers_known (snd (ensure_core_uid uuid db))" using k by (simp add: peers_known_set)
  ultimately have "peers_known db'" using adopt_plan_cases [OF a] k by (elim disjE exE conjE) simp_all
  then show ?thesis by (simp add: a)
qed

lemma enable_mesh_known:
  assumes e: "enable_mesh now db = Some (r, db')" and iv: "mesh_inv db" and k: "peers_known db"
  shows "peers_known db'"
proof (cases "\<exists>cfg sn. mesh_ready db cfg sn")
  case True
  then obtain cfg sn where rdy: "mesh_ready db cfg sn" by blast
  have "wp_server p \<in> sr_id ` set (servers db)"
    if p: "p \<in> set (plan_rows cfg now (provisioned db) (host_list sn))" for p
  proof -
    have "wp_server p \<in> set (map wp_server (plan_rows cfg now (provisioned db) (host_list sn)))" using p by simp
    then have "wp_server p \<in> sr_id ` set (provisioned db)"
      unfolding wp_server_plan_rows using set_take_subset by fastforce
    then show ?thesis by (auto simp: provisioned_def Let_def)
  qed
  then show ?thesis using e k
    by (auto simp: enable_mesh_ready [OF rdy] peers_known_def list_all_iff split: if_splits)
next
  case False
  then have "db' = db" using enable_mesh_unready [OF e iv] by simp
  then show ?thesis using k by simp
qed

lemma mesh_step_known: "mesh_step s t \<Longrightarrow> mesh_inv s \<Longrightarrow> peers_known s \<Longrightarrow> peers_known t"
proof (induction rule: mesh_step.induct)
  case (put db now body)
  then show ?case by (auto simp: put_mesh_def peers_known_def split: option.splits sum.splits)
next
  case (enable now db r db')
  then show ?case by (rule enable_mesh_known)
next
  case (configure db call now w)
  then show ?case by (intro peers_known_same [OF configure_mesh_same])
next
  case (disable db call uninstall now w)
  then show ?case by (auto simp: disable_mesh_db peers_known_def split: sum.splits)
next
  case (adopt body db urls uuid now)
  then show ?case by (intro adopt_plan_known)
next
  case (mark f db sid)
  then show ?case by (intro peers_known_same [OF upd_peer_same]) auto
qed (simp_all add: peers_known_set)

lemma in_ids: "s \<in> set ss \<Longrightarrow> sr_id s = i \<Longrightarrow> i \<in> sr_id ` set ss"
  by blast

lemma dns_create_inv: "dns_inv db \<Longrightarrow> dns_inv (snd (dns_create now name body db))"
  by (auto simp: dns_create_def Let_def dns_inv_def valid_row_def intro: in_ids split: sum.splits)

lemma dns_update_inv: "dns_inv db \<Longrightarrow> dns_inv (snd (dns_update now name body db))"
  by (auto simp: dns_update_def Let_def dns_inv_def valid_row_def map_sql_update list_all_iff set_sql_update
      intro: in_ids split: sum.splits)

lemma dns_remove_inv: "dns_inv db \<Longrightarrow> dns_inv (snd (dns_remove name db))"
  by (auto simp: dns_remove_def Let_def dns_inv_def list_all_iff set_sql_delete distinct_map_sql_delete)

lemma dns_mesh_inv: "mesh_step (dns_mesh db) m \<Longrightarrow> dns_inv db \<Longrightarrow> dns_inv (db\<lparr>dns_mesh := m\<rparr>)"
  by (simp add: dns_inv_def mesh_step_inv mesh_step_known mesh_step_servers)

lemma server_insert_inv: "dns_inv db \<Longrightarrow> dns_inv (server_insert row db)"
  by (auto simp: server_insert_def dns_inv_def mesh_inv_def peers_known_def valid_row_def list_all_iff
      split: option.split)

lemma server_rename_inv: "dns_inv db \<Longrightarrow> dns_inv (snd (server_rename sid raw db))"
proof -
  assume iv: "dns_inv db"
  have ids: "map sr_id (sql_update P (\<lambda>s. s\<lparr>sr_name := n\<rparr>) ss) = map sr_id ss" for P n ss
    by (simp add: map_sql_update)
  have img: "sr_id ` set (sql_update P (\<lambda>s. s\<lparr>sr_name := n\<rparr>) ss) = sr_id ` set ss" for P n ss
    using arg_cong [OF ids, of set] by simp
  have "valid_row (sql_update P (\<lambda>s. s\<lparr>sr_name := n\<rparr>) ss) = valid_row ss" for P n ss
    by (simp add: fun_eq_iff valid_row_def img)
  then show ?thesis using iv
    by (auto simp: server_rename_def Let_def dns_inv_def mesh_inv_def peers_known_def ids img split: option.split)
qed

lemma plan_ok_filter: "plan_ok r ps \<Longrightarrow> plan_ok r (sql_delete P ps)"
  by (auto simp: plan_ok_def distinct_map_sql_delete list_all_iff set_sql_delete sql_delete_Nil split: sum.splits)

lemma server_remove_inv: "dns_inv db \<Longrightarrow> dns_inv (snd (server_remove sid db))"
  by (auto simp: server_remove_def Let_def dns_inv_def mesh_inv_def peers_known_def valid_row_def list_all_iff
      set_sql_delete distinct_map_sql_delete plan_ok_filter sql_delete_Nil image_iff split: option.splits)

interpretation dns_runs: invariant_system dns_step dns_inv
  by unfold_locales (auto elim!: dns_stepE intro: dns_create_inv dns_update_inv dns_remove_inv dns_mesh_inv
      server_insert_inv server_rename_inv server_remove_inv)

section \<open>Lemmas on the injected hosts\<close>

definition host_char :: "char \<Rightarrow> bool" where
  "host_char c = (lower_or_digit c \<or> c = CHR ''.'' \<or> c = CHR ''-'')"

lemma lower_char_alpha: "is_alpha (lower_char c) \<Longrightarrow> lower_or_digit (lower_char c)"
  by (auto simp: is_alpha_def lower_char_def lower_or_digit_def Let_def split: if_splits)

lemma normalize_char_host:
  "list_all host_char (fst st) \<Longrightarrow> list_all host_char (fst (normalize_char c st))"
  by (auto simp: normalize_char_def Let_def host_char_def lower_char_alpha split: prod.split)
    (auto simp: lower_or_digit_def)

lemma fold_normalize_host:
  "list_all host_char (fst st) \<Longrightarrow> list_all host_char (fst (fold normalize_char s st))"
  by (induction s arbitrary: st) (simp_all add: normalize_char_host)

lemma set_trim_chars_end: "set (trim_chars_end P s) \<subseteq> set s"
  using set_dropWhileD by (fastforce simp: trim_chars_end_def)

lemma trim_chars_end_last: "trim_chars_end P s \<noteq> [] \<Longrightarrow> \<not> P (last (trim_chars_end P s))"
  by (metis (mono_tags) hd_dropWhile last_rev rev_is_Nil_conv trim_chars_end_def)

text \<open>A host name of the mesh: lower-case letters, digits, dots and dashes, and the suffix.\<close>

definition mesh_host :: "string \<Rightarrow> bool" where
  "mesh_host h \<longleftrightarrow> (\<exists>l. h = l @ ''.mesh'' \<and> l \<noteq> [] \<and> list_all host_char l \<and> lower_or_digit (last l))"

lemma normalize_mesh_host: "mesh_host (normalize_mesh_hostname name)"
proof -
  let ?P = "\<lambda>c. c = CHR ''-'' \<or> c = CHR ''.''"
  let ?s = "trim_chars_end ?P (fst (fold normalize_char name ([], True)))"
  have h: "list_all host_char ?s"
    using fold_normalize_host [of "([], True)" name] set_trim_chars_end [of ?P] by (fastforce simp: list_all_iff)
  have "?s \<noteq> [] \<Longrightarrow> lower_or_digit (last ?s)"
    using h trim_chars_end_last [of ?P] last_in_set [of ?s] unfolding list_all_iff host_char_def by blast
  moreover have "mesh_host ''peer.mesh''"
    unfolding mesh_host_def by (rule exI [of _ "''peer''"]) (simp add: host_char_def lower_or_digit_def)
  ultimately show ?thesis using h
    by (auto simp: normalize_mesh_hostname_def Let_def mesh_host_def)
qed

lemma validate_name_label:
  "validate_name n = Inr () \<longleftrightarrow> n \<noteq> [] \<and> utf8_len n \<le> 31 \<and> lower_or_digit (hd n) \<and> lower_or_digit (last n) \<and>
     list_all (\<lambda>c. lower_or_digit c \<or> c = CHR ''-'') n"
  by (auto simp: validate_name_def)

lemma valid_mesh_host: "validate_name n = Inr () \<Longrightarrow> mesh_host (n @ ''.mesh'')"
  by (auto simp: validate_name_label mesh_host_def host_char_def list_all_iff)

lemma length_utf8_len: "length s \<le> utf8_len s"
  by (induction s) (auto simp: utf8_len_def)

lemma plan_ok_ip: "plan_ok r ps \<Longrightarrow> p \<in> set ps \<Longrightarrow> \<exists>w. wp_ip p = show_ipv4 w"
  by (auto simp: plan_ok_def list_all_iff split: sum.splits)

lemma mesh_inv_ip: "mesh_inv m \<Longrightarrow> p \<in> set (peers m) \<Longrightarrow> \<exists>w. wp_ip p = show_ipv4 w"
  by (auto simp: mesh_inv_def split: option.splits intro: plan_ok_ip)

lemma server_hosts_in:
  "(h, ip) \<in> set (server_hosts m) \<Longrightarrow>
     \<exists>p s. p \<in> set (peers m) \<and> s \<in> set (servers m) \<and> ip = wp_ip p \<and> h = normalize_mesh_hostname (sr_name s)"
  by (auto simp: server_hosts_def split: if_splits)

lemma service_hosts_in:
  "(h, ip) \<in> set (service_hosts db) \<Longrightarrow>
     \<exists>p r. p \<in> set (peers (dns_mesh db)) \<and> r \<in> set (dns_rows db) \<and> ip = wp_ip p \<and> h = dr_name r @ ''.mesh''"
  by (auto simp: service_hosts_def)

lemma hosts_in:
  "h \<in> set (mesh_hosts_for_inject db) \<Longrightarrow> h \<in> set (server_hosts (dns_mesh db)) \<union> set (service_hosts db)"
  by (auto simp: mesh_hosts_for_inject_def Let_def split: if_splits)

lemma filter_key: "distinct (map f xs) \<Longrightarrow> x \<in> set xs \<Longrightarrow> filter (\<lambda>y. f y = f x) xs = [x]"
proof (induction xs)
  case (Cons a xs)
  have no: "filter (\<lambda>y. f y = f a) xs = []" using Cons.prems(1) by (simp add: filter_empty_conv) (metis imageI)
  then show ?case using Cons by (cases "x = a") auto
qed simp

lemma mesh_inv_servers: "mesh_inv m \<Longrightarrow> distinct (map wp_server (peers m))"
  by (auto simp: mesh_inv_def plan_ok_def split: option.splits sum.splits)

text \<open>A mapped name that no server shadows is injected once, with the address of its server.\<close>

lemma mapped_name_resolves:
  assumes iv: "dns_inv db" and r: "r \<in> set (dns_rows db)"
    and p: "p \<in> set (peers (dns_mesh db))" "wp_server p = dr_server r" "wp_status p = ''active''"
    and on: "config (dns_mesh db) = Some c" "cr_enabled c = 1"
    and free: "\<forall>s \<in> set (servers (dns_mesh db)). normalize_mesh_hostname (sr_name s) \<noteq> dr_name r @ ''.mesh''"
  shows "filter (\<lambda>h. fst h = dr_name r @ ''.mesh'') (mesh_hosts_for_inject db) = [(dr_name r @ ''.mesh'', wp_ip p)]"
proof -
  let ?n = "dr_name r @ ''.mesh''" and ?m = "dns_mesh db"
  have none: "?n \<notin> fst ` set (server_hosts ?m)" using free server_hosts_in by fastforce
  have e: "filter (\<lambda>h. fst h = ?n) (server_hosts ?m) = []" using none by (force simp: filter_empty_conv)
  have "distinct (map wp_server (peers ?m))" using iv by (simp add: dns_inv_def mesh_inv_servers)
  from filter_key [OF this p(1)] have "filter (\<lambda>q. wp_server q = dr_server r) (peers ?m) = [p]" by (simp add: p(2))
  then have "filter (\<lambda>q. wp_status q = ''active'') (filter (\<lambda>q. wp_server q = dr_server r) (peers ?m)) = [p]"
    by (simp add: p(3))
  then have ps: "filter (\<lambda>q. wp_server q = dr_server r \<and> wp_status q = ''active'') (peers ?m) = [p]" by simp
  have one: "filter (\<lambda>h. fst h = ?n) (concat (map g rows)) = concat (map g (filter (\<lambda>x. dr_name x = dr_name r) rows))"
    if "\<And>x. \<forall>h \<in> set (g x). fst h = dr_name x @ ''.mesh''" for g :: "dns_row \<Rightarrow> (string \<times> string) list" and rows
  proof (induction rows)
    case (Cons x rows)
    have "filter (\<lambda>h. fst h = ?n) (g x) = (if dr_name x = dr_name r then g x else [])"
      using that [of x] by (auto simp: filter_id_conv filter_empty_conv)
    then show ?case using Cons by simp
  qed simp
  have "filter (\<lambda>h. fst h = ?n) (service_hosts db) = [(?n, wp_ip p)]"
    unfolding service_hosts_def
    using filter_key [of dr_name "dns_rows db", OF _ r] iv by (subst one) (auto simp: dns_inv_def ps)
  moreover have "filter (\<lambda>h. fst h = ?n) (filter (\<lambda>h. fst h \<notin> fst ` set (server_hosts ?m)) (service_hosts db)) =
      filter (\<lambda>h. fst h = ?n) (service_hosts db)"
    unfolding filter_filter using none by (intro filter_cong refl) metis
  ultimately show ?thesis using on by (simp add: mesh_hosts_for_inject_def Let_def e)
qed

section \<open>Properties\<close>

text \<open>Two servers with active peers, the first of them named \<open>n\<close>, and the given mappings.\<close>

definition sample_named :: "string \<Rightarrow> dns_row list \<Rightarrow> dns_db" where
  "sample_named n rs =
     \<lparr>dns_rows = rs,
      dns_mesh =
        \<lparr>config = Some (sample_config\<lparr>cr_enabled := 1\<rparr>),
         servers = [(sample_server ''a'' True)\<lparr>sr_name := n\<rparr>, sample_server ''b'' False],
         peers = map (\<lambda>(s, ip). (pending_row 0 s ip ''192.0.2.7:51820'')\<lparr>wp_status := ''active'', wp_key := Some ''K''\<rparr>)
                   [(''a'', 0x0A2A0001), (''b'', 0x0A2A0002)],
         externals = []\<rparr>\<rparr>"

definition sample_dns :: dns_db where
  "sample_dns = sample_named ''db 1'' []"

definition sample_row :: "string \<Rightarrow> string \<Rightarrow> dns_row" where
  "sample_row n sid = \<lparr>dr_name = n, dr_server = sid, dr_service = None, dr_port = 5432, dr_created = 5, dr_updated = 5\<rparr>"

definition sample_mapping :: "string \<Rightarrow> mapping_request" where
  "sample_mapping sid = \<lparr>mq_server = sid, mq_service = None, mq_port = 5432\<rparr>"

lemma sample_dns_inv: "dns_inv sample_dns"
  by (simp add: dns_inv_def mesh_inv_def plan_ok_def peers_known_def sample_dns_def sample_named_def sample_config_def
      sample_net_parse sample_net_hosts sample_server_def pending_row_def sample_addresses)

lemma sample_create:
  assumes "validate_name (lower (trim raw)) = Inr ()" "lower (trim raw) \<noteq> lower n" "lower (trim raw) \<noteq> ''nb''"
    "sid = ''a'' \<or> sid = ''b''"
  shows "dns_create 5 raw (sample_mapping sid) (sample_named n []) =
    (Inr (lower (trim raw)), sample_named n [sample_row (lower (trim raw)) sid])"
proof -
  have "lower ''nb'' = ''nb''" by code_simp
  then show ?thesis using assms
    by (auto simp: dns_create_def Let_def validate_port_def sample_mapping_def sample_row_def sample_named_def sample_server_def)
qed

lemma sample_hosts:
  "mesh_hosts_for_inject (sample_named n rs) =
     (let out = [(normalize_mesh_hostname n, ''10.42.0.1''), (''nb.mesh'', ''10.42.0.2'')]
      in out @ filter (\<lambda>h. fst h \<notin> fst ` set out) (concat (map (\<lambda>r.
           (if dr_server r = ''a'' then [(dr_name r @ ''.mesh'', ''10.42.0.1'')] else []) @
           (if dr_server r = ''b'' then [(dr_name r @ ''.mesh'', ''10.42.0.2'')] else [])) rs)))"
proof -
  have p: "peers (dns_mesh (sample_named n rs)) =
      [(pending_row 0 ''a'' 0x0A2A0001 ''192.0.2.7:51820'')\<lparr>wp_status := ''active'', wp_key := Some ''K''\<rparr>,
       (pending_row 0 ''b'' 0x0A2A0002 ''192.0.2.7:51820'')\<lparr>wp_status := ''active'', wp_key := Some ''K''\<rparr>]"
    by (simp add: sample_named_def)
  have "normalize_mesh_hostname ''nb'' = ''nb.mesh''" by code_simp
  then have "server_hosts (dns_mesh (sample_named n rs)) =
      [(normalize_mesh_hostname n, ''10.42.0.1''), (''nb.mesh'', ''10.42.0.2'')]"
    by (simp add: server_hosts_def p) (simp add: sample_named_def sample_server_def pending_row_def sample_addresses)
  moreover have "service_hosts (sample_named n rs) = concat (map (\<lambda>r.
           (if dr_server r = ''a'' then [(dr_name r @ ''.mesh'', ''10.42.0.1'')] else []) @
           (if dr_server r = ''b'' then [(dr_name r @ ''.mesh'', ''10.42.0.2'')] else [])) rs)"
    unfolding service_hosts_def p
    by (rule arg_cong [of _ _ concat]) (auto simp: pending_row_def sample_addresses sample_named_def)
  moreover have "config (dns_mesh (sample_named n rs)) = Some (sample_config\<lparr>cr_enabled := 1\<rparr>)"
    by (simp add: sample_named_def)
  ultimately show ?thesis by (simp add: mesh_hosts_for_inject_def)
qed

lemma sample_names:
  "lower (trim '' Cache '') = ''cache''" "lower (trim ''cache'') = ''cache''" "lower (trim ''db-1'') = ''db-1''"
  "lower ''db 1'' = ''db 1''" "lower ''cache'' = ''cache''" "trim ''cache'' = ''cache''"
  "validate_name ''cache'' = Inr ()" "validate_name ''db-1'' = Inr ()"
  "normalize_mesh_hostname ''db 1'' = ''db-1.mesh''" "normalize_mesh_hostname ''cache'' = ''cache.mesh''"
  "normalize_mesh_hostname ''nb'' = ''nb.mesh''"
  by code_simp+

lemma sample_cache:
  "sid = ''a'' \<or> sid = ''b'' \<Longrightarrow> dns_create 5 '' Cache '' (sample_mapping sid) sample_dns =
     (Inr ''cache'', sample_named ''db 1'' [sample_row ''cache'' sid])"
  using sample_create [of "'' Cache ''" "''db 1''" sid] by (simp add: sample_names sample_dns_def)

text \<open>C29: in every state the handlers, the mesh and changes of the servers reach from sound tables, the
  logical names are pairwise distinct, each is a label of 1 to 31 lower-case letters, digits and dashes
  that neither starts nor ends with a dash, its port is in range and its server exists.\<close>

theorem dns_names_sound:
  assumes "dns_step\<^sup>*\<^sup>* db db'" "dns_inv db"
  shows "distinct (map dr_name (dns_rows db')) \<and>
    (\<forall>r \<in> set (dns_rows db').
       1 \<le> length (dr_name r) \<and> length (dr_name r) \<le> 31 \<and> lower_or_digit (hd (dr_name r)) \<and>
       lower_or_digit (last (dr_name r)) \<and> list_all (\<lambda>c. lower_or_digit c \<or> c = CHR ''-'') (dr_name r) \<and>
       1 \<le> dr_port r \<and> dr_port r \<le> 65535 \<and> dr_server r \<in> sr_id ` set (servers (dns_mesh db')))"
proof -
  have iv: "dns_inv db'" using dns_runs.run_inv [OF assms] .
  have "valid_row (servers (dns_mesh db')) r" if "r \<in> set (dns_rows db')" for r
    using iv that by (simp add: dns_inv_def list_all_iff)
  then have v: "validate_name (dr_name r) = Inr ()" "validate_port (dr_port r) = Inr ()"
      "dr_server r \<in> sr_id ` set (servers (dns_mesh db'))" if "r \<in> set (dns_rows db')" for r
    using that by (simp_all add: valid_row_def)
  have n: "1 \<le> length n \<and> length n \<le> 31" if "validate_name n = Inr ()" for n
    using that length_utf8_len [of n] by (cases n) (simp_all add: validate_name_label)
  have p: "1 \<le> k \<and> k \<le> 65535" if "validate_port k = Inr ()" for k
    using that by (simp add: validate_port_def split: if_splits)
  show ?thesis
  proof (intro conjI ballI)
    show "distinct (map dr_name (dns_rows db'))" using iv by (simp add: dns_inv_def)
  qed (use v n p in \<open>simp_all add: validate_name_label\<close>)
qed

lemma dns_names_sound_witness:
  "\<exists>db. dns_step\<^sup>*\<^sup>* sample_dns db \<and> map dr_name (dns_rows db) = [''cache''] \<and> distinct (map dr_name (dns_rows db)) \<and>
     ''b'' \<in> sr_id ` set (servers (dns_mesh db))"
proof -
  let ?db = "snd (dns_create 5 '' Cache '' (sample_mapping ''b'') sample_dns)"
  have s: "dns_step\<^sup>*\<^sup>* sample_dns ?db" by (rule r_into_rtranclp, rule dns_step.create)
  show ?thesis using s dns_names_sound [OF s sample_dns_inv] by (intro exI [of _ ?db]) (simp add: sample_cache sample_row_def sample_named_def)
qed

lemma host_char_plain: "host_char c \<Longrightarrow> c \<noteq> CHR 0x22 \<and> \<not> is_ws c"
  by (auto simp: host_char_def lower_or_digit_def is_digit_def is_ws_def Let_def)

text \<open>C30: in every state the handlers, the mesh and changes of the servers reach from sound tables,
  whatever the servers are named, every host a deploy injects is made of lower-case letters, digits,
  dots and dashes in front of the suffix and ends in a letter or digit there, every address is a
  dotted quad, and so the quoted line written into the compose file holds no quote, no line break
  and no white space. As for the addresses themselves, the plans other cores propose must be honest
  (a step of \<open>mesh_step\<close>); \<open>proposed_address_unchecked\<close> shows what any other can store.\<close>

theorem injected_hosts_safe:
  assumes "dns_step\<^sup>*\<^sup>* db db'" "dns_inv db" "(h, ip) \<in> set (mesh_hosts_for_inject db')"
  shows "mesh_host h \<and> (\<exists>w. ip = show_ipv4 w) \<and>
    (\<forall>c \<in> set (h @ '':'' @ ip). c \<noteq> CHR 0x22 \<and> \<not> is_ws c)"
proof -
  have iv: "dns_inv db'" using dns_runs.run_inv [OF assms(1,2)] .
  have m: "mesh_host h \<and> (\<exists>w. ip = show_ipv4 w)"
  proof (cases "(h, ip) \<in> set (server_hosts (dns_mesh db'))")
    case True
    then show ?thesis using server_hosts_in [OF True] iv mesh_inv_ip normalize_mesh_host
      by (fastforce simp: dns_inv_def)
  next
    case False
    then have s: "(h, ip) \<in> set (service_hosts db')" using hosts_in [OF assms(3)] by simp
    show ?thesis using service_hosts_in [OF s] iv mesh_inv_ip valid_mesh_host
      by (fastforce simp: dns_inv_def list_all_iff valid_row_def)
  qed
  then obtain l w where "h = l @ ''.mesh''" "list_all host_char l" and w: "ip = show_ipv4 w"
    unfolding mesh_host_def by blast
  then have "c \<noteq> CHR 0x22 \<and> \<not> is_ws c" if "c \<in> set h" for c
    using that host_char_plain [of c] by (auto simp: list_all_iff) (simp_all add: is_ws_def)
  moreover have "c \<noteq> CHR 0x22 \<and> \<not> is_ws c" if "c \<in> set ip" for c
    using that by (auto simp: w show_ipv4_def is_ws_def dest!: dec_set) (auto simp: is_digit_def Let_def)
  ultimately show ?thesis using m by (auto simp: is_ws_def)
qed

lemma injected_hosts_safe_witness:
  "\<exists>db. dns_step\<^sup>*\<^sup>* sample_dns db \<and> (''cache.mesh'', ''10.42.0.2'') \<in> set (mesh_hosts_for_inject db) \<and>
     mesh_host ''cache.mesh'' \<and> list_all (\<lambda>c. c \<noteq> CHR 0x22 \<and> \<not> is_ws c) (''cache.mesh'' @ '':'' @ ''10.42.0.2'')"
proof -
  let ?db = "sample_named ''db 1'' [sample_row ''cache'' ''b'']"
  have "dns_step sample_dns (snd (dns_create 5 '' Cache '' (sample_mapping ''b'') sample_dns))" by (rule dns_step.create)
  then have r: "dns_step\<^sup>*\<^sup>* sample_dns ?db" by (simp add: sample_cache r_into_rtranclp)
  have h: "(''cache.mesh'', ''10.42.0.2'') \<in> set (mesh_hosts_for_inject ?db)"
    by (simp add: sample_hosts sample_names sample_row_def)
  from injected_hosts_safe [OF r sample_dns_inv h] r h show ?thesis
    unfolding list_all_iff by blast
qed

text \<open>An address a remote core proposes is stored as it is, a quote and a line break included.\<close>

definition quote_proposal :: "string \<Rightarrow> propose_request" where
  "quote_proposal ip = bad_proposal\<lparr>pq_assignments := [(''a'', ip)]\<rparr>"

theorem proposed_address_unchecked:
  "\<exists>db. adopt_plan (\<lambda>_. Some ''http://192.0.2.9:8443/'') ''me'' 7 (quote_proposal ip) sample_paired = (Inr (), db) \<and>
     map wp_ip (peers db) = [ip]"
proof -
  have a: "adopt_nodes (assigned [(''a'', ip)]) 7 51820 [] [sample_server ''a'' True] =
      Inr [proposed_row 7 51820 (sample_server ''a'' True) ip]"
    by (simp add: assigned_def sample_server_def replace_peer_def sql_simps)
  show ?thesis
    using sample_adopts [OF _ a] by (simp add: quote_proposal_def bad_proposal_def proposed_row_def)
qed

text \<open>after a name is repointed to a server whose peer is active, and as long as no server's own host
  name is the same, every deploy while the mesh is on injects the name exactly once, with that server's
  address in the mesh.\<close>

theorem repointed_name_resolves:
  assumes "dns_update now raw body db = (Inr n, db')" "dns_inv db"
    and "p \<in> set (peers (dns_mesh db))" "wp_server p = mq_server body" "wp_status p = ''active''"
    and "config (dns_mesh db) = Some c" "cr_enabled c = 1"
    and "\<forall>s \<in> set (servers (dns_mesh db)). normalize_mesh_hostname (sr_name s) \<noteq> n @ ''.mesh''"
  shows "filter (\<lambda>h. fst h = n @ ''.mesh'') (mesh_hosts_for_inject db') = [(n @ ''.mesh'', wp_ip p)]"
proof -
  have iv: "dns_inv db'" using dns_update_inv [OF assms(2), of now raw body] assms(1) by simp
  have m: "dns_mesh db' = dns_mesh db" and n: "n = lower (trim raw)"
    using assms(1) by (auto simp: dns_update_def Let_def split: sum.splits if_splits)
  obtain r where r: "r \<in> set (dns_rows db')" "dr_name r = n" "dr_server r = mq_server body"
  proof -
    have c: "0 < sql_count (\<lambda>r. dr_name r = n) (dns_rows db)"
      and rows: "dns_rows db' = sql_update (\<lambda>r. dr_name r = n) (\<lambda>r. r\<lparr>dr_server := mq_server body,
         dr_service := mq_service body, dr_port := mq_port body, dr_updated := now\<rparr>) (dns_rows db)"
      using assms(1) by (auto simp: dns_update_def Let_def split: sum.splits if_splits)
    obtain q where "q \<in> set (dns_rows db)" "dr_name q = n" using c unfolding sql_count_pos by blast
    then show thesis
      by (intro that [of "q\<lparr>dr_server := mq_server body, dr_service := mq_service body, dr_port := mq_port body,
         dr_updated := now\<rparr>"]) (auto simp: rows set_sql_update image_iff intro!: bexI [of _ q])
  qed
  show ?thesis
    using mapped_name_resolves [OF iv r(1), of p c] assms(3-8) by (simp add: m r)
qed

lemma repointed_name_resolves_witness:
  "\<exists>db db'. dns_update 9 ''cache'' (sample_mapping ''b'') db = (Inr ''cache'', db') \<and>
     map dr_server (dns_rows db) = [''a''] \<and>
     filter (\<lambda>h. fst h = ''cache.mesh'') (mesh_hosts_for_inject db') = [(''cache.mesh'', ''10.42.0.2'')]"
proof -
  let ?db = "sample_named ''db 1'' [sample_row ''cache'' ''a'']"
  let ?db' = "sample_named ''db 1'' [(sample_row ''cache'' ''b'')\<lparr>dr_updated := 9\<rparr>]"
  let ?p = "(pending_row 0 ''b'' 0x0A2A0002 ''192.0.2.7:51820'')\<lparr>wp_status := ''active'', wp_key := Some ''K''\<rparr>"
  have u: "dns_update 9 ''cache'' (sample_mapping ''b'') ?db = (Inr ''cache'', ?db')"
    by (simp add: dns_update_def Let_def sample_names validate_port_def sample_mapping_def sql_simps
        sample_named_def sample_row_def sample_server_def)
  have iv: "dns_inv ?db"
    using dns_create_inv [OF sample_dns_inv, of 5 "'' Cache ''" "sample_mapping ''a''"] by (simp add: sample_cache)
  have "filter (\<lambda>h. fst h = ''cache'' @ ''.mesh'') (mesh_hosts_for_inject ?db') = [(''cache'' @ ''.mesh'', wp_ip ?p)]"
    by (rule repointed_name_resolves [OF u iv, of ?p "sample_config\<lparr>cr_enabled := 1\<rparr>"])
      (auto simp: sample_named_def sample_mapping_def sample_names sample_server_def pending_row_def)
  then show ?thesis using u
    by (intro exI [of _ ?db] exI [of _ ?db'])
      (simp add: sample_addresses pending_row_def, simp add: sample_named_def sample_row_def)
qed

text \<open>the collision check compares the logical name with the servers' stored names, not with the host
  names injected for them: with a server called "db 1", the name \<open>db-1\<close> is accepted for another server,
  yet the one entry injected for it is the first server's; and renaming a server repeats no check at all, so
  a name that resolved is taken over by the renamed server.\<close>

theorem mapping_resolves_elsewhere:
  "\<exists>db db1 db2. dns_create 5 ''db-1'' (sample_mapping ''b'') sample_dns = (Inr ''db-1'', db) \<and>
     filter (\<lambda>h. fst h = ''db-1.mesh'') (mesh_hosts_for_inject db) = [(''db-1.mesh'', ''10.42.0.1'')] \<and>
     dns_create 5 '' Cache '' (sample_mapping ''b'') sample_dns = (Inr ''cache'', db1) \<and>
     filter (\<lambda>h. fst h = ''cache.mesh'') (mesh_hosts_for_inject db1) = [(''cache.mesh'', ''10.42.0.2'')] \<and>
     server_rename ''a'' ''cache'' db1 = (Inr ''cache'', db2) \<and>
     filter (\<lambda>h. fst h = ''cache.mesh'') (mesh_hosts_for_inject db2) = [(''cache.mesh'', ''10.42.0.1'')]"
proof -
  let ?db = "sample_named ''db 1'' [sample_row ''db-1'' ''b'']"
  let ?db1 = "sample_named ''db 1'' [sample_row ''cache'' ''b'']"
  let ?db2 = "sample_named ''cache'' [sample_row ''cache'' ''b'']"
  have c: "dns_create 5 ''db-1'' (sample_mapping ''b'') sample_dns = (Inr ''db-1'', ?db)"
    using sample_create [of "''db-1''" "''db 1''" "''b''"] by (simp add: sample_names sample_dns_def)
  have r: "server_rename ''a'' ''cache'' ?db1 = (Inr ''cache'', ?db2)"
    by (simp add: server_rename_def Let_def sample_names sample_named_def sample_server_def sql_simps)
  show ?thesis
    by (intro exI [of _ ?db] exI [of _ ?db1] exI [of _ ?db2] conjI c r sample_cache)
      (simp_all add: sample_hosts sample_names sample_row_def)
qed

end
