(* ===== verification/Servers.thy ===== *)
theory Servers
  imports MeshCall Tokens "HOL-Library.Product_Lexorder"
begin

text \<open>
  The servers a core manages and their credentials (api/servers.rs, auth/server_token.rs,
  auth/rotation.rs): the handlers that register, rename and delete a server, redeem a bootstrap
  token, take a heartbeat, rotate the long-term token and pair a peer, and the agent's side of a
  rotation (pier-agent main.rs). SHA-256, random bytes, clock readings and the transport are
  arguments. The lemmas show which credential authenticates which server, that a bootstrap token
  is spent once, and when the two sides of a rotation keep the same token.
\<close>

section \<open>Rows\<close>

text \<open>The columns of \<open>servers\<close> beyond those the mesh reads.\<close>

record server = server_row +
  sv_url :: "string option"
  sv_status :: string
  sv_beat :: "time option"
  sv_os :: "string option"
  sv_cpus :: "int option"
  sv_memory :: "int option"
  sv_docker :: "string option"
  sv_remote :: "string option"
  sv_error :: "string option"
  sv_boot :: "string option"
  sv_boot_exp :: "time option"
  sv_hash :: "string option"
  sv_prefix :: "string option"
  sv_rotated :: "time option"
  sv_version :: int
  sv_fed :: "string option"
  sv_fed_rotated :: "time option"
  sv_ssh_user :: "string option"
  sv_ssh_port :: int
  sv_updated :: time

record servers_db =
  sd_servers :: "server list"
  sd_config :: "config_row option"
  sd_peers :: "peer_row list"

text \<open>A row with the defaults of the migrations.\<close>

definition default_server :: "time \<Rightarrow> string \<Rightarrow> string \<Rightarrow> string \<Rightarrow> server" where
  "default_server now sid name kind =
     \<lparr>sr_id = sid, sr_name = name, sr_host = [], sr_local = False, sr_kind = Some kind, sr_created = now,
      sr_port = 3001, sr_token = [], sr_tls = None, sv_url = None, sv_status = ''pending'', sv_beat = None,
      sv_os = None, sv_cpus = None, sv_memory = None, sv_docker = None, sv_remote = None, sv_error = None,
      sv_boot = None, sv_boot_exp = None, sv_hash = None, sv_prefix = None, sv_rotated = None, sv_version = 1,
      sv_fed = None, sv_fed_rotated = None, sv_ssh_user = None, sv_ssh_port = 22, sv_updated = now\<rparr>"

definition update_server :: "string \<Rightarrow> (server \<Rightarrow> server) \<Rightarrow> servers_db \<Rightarrow> servers_db" where
  "update_server sid f db = db\<lparr>sd_servers := sql_update (\<lambda>r. sr_id r = sid) f (sd_servers db)\<rparr>"

section \<open>Tokens\<close>

record server_token =
  st_plaintext :: string
  st_prefix :: string

definition generate_with_prefix :: "string \<Rightarrow> 8 word list \<Rightarrow> server_token" where
  "generate_with_prefix pre bytes =
     (let plaintext = pre @ hex_encode bytes in \<lparr>st_plaintext = plaintext, st_prefix = take 16 plaintext\<rparr>)"

definition generate_bootstrap :: "8 word list \<Rightarrow> server_token" where
  "generate_bootstrap = generate_with_prefix ''pier_boot_''"

definition generate_agent :: "8 word list \<Rightarrow> server_token" where
  "generate_agent = generate_with_prefix ''pier_srv_''"

definition BOOTSTRAP_TTL_SECS :: int where
  "BOOTSTRAP_TTL_SECS = 60 * 60"

definition bootstrap_alive :: "time option \<Rightarrow> time \<Rightarrow> bool" where
  "bootstrap_alive expires now = (case expires of None \<Rightarrow> False | Some e \<Rightarrow> e > now)"

section \<open>Registering, renaming and deleting\<close>

record create_request =
  cq_name :: string
  cq_kind :: string
  cq_host :: "string option"
  cq_port :: int
  cq_ssh_user :: "string option"
  cq_ssh_port :: "int option"
  cq_url :: "string option"
  cq_token :: "string option"

datatype created =
    CreatedAgent string string time
  | CreatedPeer string

definition insert_server :: "server \<Rightarrow> servers_db \<Rightarrow> string + servers_db" where
  "insert_server row db =
     (if \<exists>r \<in> set (sd_servers db). sr_id r = sr_id row then Inl ''UNIQUE constraint failed''
      else Inr (db\<lparr>sd_servers := sd_servers db @ [row]\<rparr>))"

definition non_empty :: "string option \<Rightarrow> string option" where
  "non_empty x = (case x of Some s \<Rightarrow> if s = [] then None else Some s | None \<Rightarrow> None)"

definition create_agent ::
  "(string \<Rightarrow> string) \<Rightarrow> time \<Rightarrow> string \<Rightarrow> 8 word list \<Rightarrow> string \<Rightarrow> create_request \<Rightarrow> servers_db \<Rightarrow>
   (app_error + created) \<times> servers_db" where
  "create_agent sha now uuid bytes name body db =
     (case non_empty (map_option normalize_host (cq_host body)) of
        None \<Rightarrow> (Inl (BadRequest (te ''errors.servers.host_required_for_agent'')), db)
      | Some host \<Rightarrow>
          (let bootstrap = generate_bootstrap bytes;
               expires_at = now + BOOTSTRAP_TTL_SECS;
               row = (default_server now uuid name ''agent'')
                       \<lparr>sr_host := host, sr_port := cq_port body, sr_token := [],
                        sv_boot := Some (sha (st_plaintext bootstrap)), sv_boot_exp := Some expires_at,
                        sv_ssh_user := cq_ssh_user body, sv_ssh_port := coalesce (cq_ssh_port body) 22\<rparr>
           in case insert_server row db of
                Inl e \<Rightarrow> (Inl (DatabaseError e), db)
              | Inr db' \<Rightarrow> (Inr (CreatedAgent uuid (st_plaintext bootstrap) expires_at), db')))"

text \<open>What a call of a peer core brings: its version, a status with a text, or no answer.\<close>

datatype probe_reply = ProbeOk "string option" | ProbeStatus string string | ProbeDown string

definition normalize_peer_url :: "string \<Rightarrow> string" where
  "normalize_peer_url url =
     (case strip_prefix url ''http://'' of Some rest \<Rightarrow> ''https://'' @ rest | None \<Rightarrow> url)"

definition mark_peer_error :: "time \<Rightarrow> string \<Rightarrow> string \<Rightarrow> servers_db \<Rightarrow> servers_db" where
  "mark_peer_error now sid m db =
     update_server sid (\<lambda>r. r\<lparr>sv_status := ''offline'', sv_error := Some m, sv_updated := now\<rparr>) db"

definition probe_peer ::
  "(string \<Rightarrow> string \<Rightarrow> probe_reply) \<Rightarrow> time \<Rightarrow> string \<Rightarrow> servers_db \<Rightarrow> (app_error + string option) \<times> servers_db" where
  "probe_peer http now sid db =
     (case sql_first (\<lambda>r. sr_id r = sid \<and> sr_kind r = Some ''peer'') (sd_servers db) of
        None \<Rightarrow> (Inl (NotFound (Te ''errors.servers.peer_not_found'' [(''id'', sid)])), db)
      | Some r \<Rightarrow>
          (case http (normalize_peer_url (coalesce (sv_url r) []) @ ''/api/v1/peers/probe'') (sr_token r) of
             ProbeOk version \<Rightarrow>
               (Inr version,
                update_server sid (\<lambda>r. r\<lparr>sv_status := ''online'', sv_beat := Some now,
                  sv_remote := (case version of Some v \<Rightarrow> Some v | None \<Rightarrow> sv_remote r), sv_error := None,
                  sv_updated := now\<rparr>) db)
           | ProbeStatus code body \<Rightarrow>
               (let err = ''HTTP '' @ code @ '': '' @ body
                in (Inl (BadRequest (Lit err)), mark_peer_error now sid err db))
           | ProbeDown e \<Rightarrow>
               (let err = ''unreachable: '' @ e
                in (Inl (BadRequest (Lit err)), mark_peer_error now sid err db))))"

definition create_peer ::
  "(string \<Rightarrow> string \<Rightarrow> probe_reply) \<Rightarrow> time \<Rightarrow> string \<Rightarrow> string \<Rightarrow> create_request \<Rightarrow> servers_db \<Rightarrow>
   (app_error + created) \<times> servers_db" where
  "create_peer http now uuid name body db =
     (case non_empty (map_option (\<lambda>s. trim_chars_end (\<lambda>c. c = CHR ''/'') (trim s)) (cq_url body)) of
        None \<Rightarrow> (Inl (BadRequest (te ''errors.servers.url_required_for_peer'')), db)
      | Some url \<Rightarrow>
          if \<not> starts_with url ''http://'' \<and> \<not> starts_with url ''https://'' then
            (Inl (BadRequest (te ''errors.servers.url_must_be_http'')), db)
          else
            (case non_empty (map_option trim (cq_token body)) of
               None \<Rightarrow> (Inl (BadRequest (te ''errors.servers.api_token_required_for_peer'')), db)
             | Some token \<Rightarrow>
                 (case insert_server ((default_server now uuid name ''peer'')
                         \<lparr>sr_host := [], sr_port := 0, sv_url := Some url, sr_token := token\<rparr>) db of
                    Inl e \<Rightarrow> (Inl (DatabaseError e), db)
                  | Inr db' \<Rightarrow> (Inr (CreatedPeer uuid), snd (probe_peer http now uuid db')))))"

definition create_server ::
  "(string \<Rightarrow> string) \<Rightarrow> (string \<Rightarrow> string \<Rightarrow> probe_reply) \<Rightarrow> time \<Rightarrow> string \<Rightarrow> 8 word list \<Rightarrow> create_request \<Rightarrow>
   servers_db \<Rightarrow> (app_error + created) \<times> servers_db" where
  "create_server sha http now uuid bytes body db =
     (let name = trim (cq_name body)
      in if name = [] then (Inl (BadRequest (te ''errors.servers.name_required'')), db)
         else if cq_kind body = ''agent'' then create_agent sha now uuid bytes name body db
         else if cq_kind body = ''peer'' then create_peer http now uuid name body db
         else (Inl (BadRequest (Te ''errors.servers.unknown_kind_expected'' [(''kind'', cq_kind body)])), db))"

definition rename_server :: "time \<Rightarrow> string \<Rightarrow> string \<Rightarrow> servers_db \<Rightarrow> (app_error + string) \<times> servers_db" where
  "rename_server now sid raw db =
     (let name = trim raw
      in if name = [] then (Inl (BadRequest (te ''errors.servers.name_required'')), db)
         else if sql_count (\<lambda>r. sr_id r = sid) (sd_servers db) = 0 then
           (Inl (NotFound (Te ''errors.servers.server_not_found'' [(''id'', sid)])), db)
         else (Inr name, update_server sid (\<lambda>r. r\<lparr>sr_name := name, sv_updated := now\<rparr>) db))"

text \<open>Deleting a server takes its peer row with it.\<close>

definition remove_server :: "string \<Rightarrow> servers_db \<Rightarrow> (app_error + unit) \<times> servers_db" where
  "remove_server sid db =
     (let P = (\<lambda>r. sr_id r = sid \<and> \<not> sr_local r)
      in if sql_count P (sd_servers db) = 0 then
           (Inl (BadRequest (te ''errors.servers.server_not_found_or_local'')), db)
         else (Inr (), db\<lparr>sd_servers := sql_delete P (sd_servers db),
                         sd_peers := sql_delete (\<lambda>p. wp_server p = sid) (sd_peers db)\<rparr>))"

definition set_federation_token ::
  "time \<Rightarrow> string \<Rightarrow> string \<Rightarrow> servers_db \<Rightarrow> (app_error + bool) \<times> servers_db" where
  "set_federation_token now sid raw db =
     (let token = trim raw; store_value = (if token = [] then None else Some token);
          P = (\<lambda>r. sr_id r = sid \<and> sr_kind r = Some ''peer'')
      in if sql_count P (sd_servers db) = 0 then
           (Inl (NotFound (Te ''errors.servers.peer_not_found_federation'' [(''id'', sid)])), db)
         else (Inr (store_value \<noteq> None),
               db\<lparr>sd_servers := sql_update P (\<lambda>r. r\<lparr>sv_fed := store_value, sv_updated := now\<rparr>) (sd_servers db)\<rparr>))"

section \<open>Handshake and heartbeat\<close>

record host_facts =
  hf_os :: "string option"
  hf_cpus :: "int option"
  hf_memory :: "int option"
  hf_docker :: "string option"
  hf_tls :: "string option"

text \<open>\<open>COALESCE(?n, column)\<close>\<close>

definition keep :: "'a option \<Rightarrow> 'a option \<Rightarrow> 'a option" where
  "keep new old = (case new of Some v \<Rightarrow> Some v | None \<Rightarrow> old)"

text \<open>The handler takes the database lock twice: it reads and checks the row, then it updates the row if
  the bootstrap is still there.\<close>

definition handshake_check ::
  "(string \<Rightarrow> string) \<Rightarrow> time \<Rightarrow> string \<Rightarrow> string \<Rightarrow> servers_db \<Rightarrow> app_error + string" where
  "handshake_check sha now sid raw db =
     (let bootstrap = trim raw; bootstrap_hash = sha bootstrap
      in if bootstrap = [] then Inl (BadRequest (te ''errors.servers.bootstrap_token_required''))
         else
           (case sql_first (\<lambda>r. sr_id r = sid \<and> sr_kind r = Some ''agent'') (sd_servers db) of
              None \<Rightarrow> Inl Unauthorized
            | Some r \<Rightarrow>
                (case sv_boot r of
                   None \<Rightarrow> Inl Unauthorized
                 | Some stored_hash \<Rightarrow>
                     if stored_hash \<noteq> bootstrap_hash then Inl Unauthorized
                     else if \<not> bootstrap_alive (sv_boot_exp r) now then Inl Unauthorized
                     else Inr bootstrap_hash)))"

definition handshake_commit ::
  "(string \<Rightarrow> string) \<Rightarrow> time \<Rightarrow> 8 word list \<Rightarrow> string \<Rightarrow> host_facts \<Rightarrow> string \<Rightarrow> servers_db \<Rightarrow>
   (app_error + server_token) \<times> servers_db" where
  "handshake_commit sha now bytes sid facts bootstrap_hash db =
     (let agent = generate_agent bytes;
          P = (\<lambda>r. sr_id r = sid \<and> sr_kind r = Some ''agent'' \<and> sv_boot r = Some bootstrap_hash);
          f = (\<lambda>r. r\<lparr>sr_token := st_plaintext agent, sv_hash := Some (sha (st_plaintext agent)),
                    sv_prefix := Some (st_prefix agent), sv_boot := None, sv_boot_exp := None,
                    sv_status := ''online'', sv_beat := Some now, sv_os := keep (hf_os facts) (sv_os r),
                    sv_docker := keep (hf_docker facts) (sv_docker r), sr_tls := keep (hf_tls facts) (sr_tls r),
                    sv_rotated := Some now, sv_error := None, sv_updated := now\<rparr>);
          updated = sql_count P (sd_servers db);
          db' = db\<lparr>sd_servers := sql_update P f (sd_servers db)\<rparr>
      in if updated = 0 then (Inl Unauthorized, db') else (Inr agent, db'))"

definition handshake ::
  "(string \<Rightarrow> string) \<Rightarrow> time \<Rightarrow> 8 word list \<Rightarrow> string \<Rightarrow> host_facts \<Rightarrow> string \<Rightarrow> servers_db \<Rightarrow>
   (app_error + server_token) \<times> servers_db" where
  "handshake sha now bytes sid facts raw db =
     (case handshake_check sha now sid raw db of
        Inl e \<Rightarrow> (Inl e, db)
      | Inr h \<Rightarrow> handshake_commit sha now bytes sid facts h db)"

text \<open>The token check of the binary download: the bootstrap must be alive and is not spent.\<close>

definition download_allowed :: "(string \<Rightarrow> string) \<Rightarrow> time \<Rightarrow> string \<Rightarrow> string option \<Rightarrow> servers_db \<Rightarrow> app_error + unit" where
  "download_allowed sha now name authorization db =
     (if name \<noteq> ''pier-agent'' \<and> name \<noteq> ''pier-net-helper'' then Inl (NotFound (Lit ''unknown binary''))
      else
        (let token = trim (case Option.bind authorization (\<lambda>v. strip_prefix v ''Bearer '') of
                             Some t \<Rightarrow> t | None \<Rightarrow> [])
         in if token = [] then Inl Unauthorized
            else
              (case sql_first (\<lambda>r. sv_boot r = Some (sha token) \<and> sr_kind r = Some ''agent'') (sd_servers db) of
                 None \<Rightarrow> Inl Unauthorized
               | Some r \<Rightarrow> if bootstrap_alive (sv_boot_exp r) now then Inr () else Inl Unauthorized)))"

text \<open>A heartbeat also takes the lock twice: it resolves the token, by hash or for an unhashed row by
  the token itself, to a server's id, name and status and whether the hash is to be filled in; then it
  updates that row. The event tells that the server is back.\<close>

definition heartbeat_resolve ::
  "(string \<Rightarrow> string) \<Rightarrow> string \<Rightarrow> servers_db \<Rightarrow> (string \<times> string \<times> string \<times> bool) option" where
  "heartbeat_resolve sha token db =
     (case sql_first (\<lambda>r. sv_hash r = Some (sha token)) (sd_servers db) of
        Some r \<Rightarrow> Some (sr_id r, sr_name r, sv_status r, False)
      | None \<Rightarrow>
          map_option (\<lambda>r. (sr_id r, sr_name r, sv_status r, True))
            (sql_first (\<lambda>r. sr_token r = token \<and> sr_token r \<noteq> [] \<and> sv_hash r = None) (sd_servers db)))"

definition heartbeat_update ::
  "(string \<Rightarrow> string) \<Rightarrow> time \<Rightarrow> string \<Rightarrow> host_facts \<Rightarrow> string \<times> string \<times> string \<times> bool \<Rightarrow> servers_db \<Rightarrow>
   (app_error + string option) \<times> servers_db" where
  "heartbeat_update sha now token facts found db =
     (case found of (sid, name, prev_status, legacy) \<Rightarrow>
        (let facts_of = (\<lambda>r. r\<lparr>sv_status := ''online'', sv_beat := Some now, sv_os := keep (hf_os facts) (sv_os r),
                sv_cpus := keep (hf_cpus facts) (sv_cpus r), sv_memory := keep (hf_memory facts) (sv_memory r),
                sv_docker := keep (hf_docker facts) (sv_docker r), sr_tls := keep (hf_tls facts) (sr_tls r),
                sv_updated := now\<rparr>);
             rows = sql_count (\<lambda>r. sr_id r = sid) (sd_servers db);
             db' = update_server sid
                     (if legacy then (\<lambda>r. (facts_of r)\<lparr>sv_hash := Some (sha token)\<rparr>) else facts_of) db
         in if rows = 0 then (Inl Unauthorized, db')
            else (Inr (if prev_status \<noteq> ''online'' then Some name else None), db')))"

definition heartbeat ::
  "(string \<Rightarrow> string) \<Rightarrow> time \<Rightarrow> string \<Rightarrow> host_facts \<Rightarrow> servers_db \<Rightarrow> (app_error + string option) \<times> servers_db" where
  "heartbeat sha now token facts db =
     (case heartbeat_resolve sha token db of
        None \<Rightarrow> (Inl Unauthorized, db)
      | Some found \<Rightarrow> heartbeat_update sha now token facts found db)"

section \<open>Rotating the long-term token\<close>

record agent_conn =
  ac_host :: string
  ac_port :: int
  ac_token :: string
  ac_local :: bool
  ac_kind :: string
  ac_tls :: "string option"

definition get_server_info :: "servers_db \<Rightarrow> string \<Rightarrow> app_error + agent_conn" where
  "get_server_info db sid =
     (case sql_first (\<lambda>r. sr_id r = sid) (sd_servers db) of
        None \<Rightarrow> Inl (NotFound (Te ''errors.servers.server_not_found'' [(''id'', sid)]))
      | Some s \<Rightarrow>
          (case sr_kind s of
             None \<Rightarrow> Inl (NotFound (Te ''errors.servers.server_not_found'' [(''id'', sid)]))
           | Some kind \<Rightarrow>
               (let wp = sql_first (\<lambda>p. wp_server p = sid) (sd_peers db);
                    mesh_ip = map_option wp_ip wp;
                    mesh_active = (case sd_config db of None \<Rightarrow> 0 | Some c \<Rightarrow> cr_enabled c) = 1 \<and>
                      map_option wp_status wp = Some ''active'' \<and> mesh_ip \<noteq> None;
                    host = (if mesh_active \<and> \<not> sr_local s
                            then (case mesh_ip of Some ip \<Rightarrow> ip | None \<Rightarrow> sr_host s) else sr_host s)
                in Inr \<lparr>ac_host = host, ac_port = sr_port s, ac_token = sr_token s, ac_local = sr_local s,
                     ac_kind = kind, ac_tls = sr_tls s\<rparr>)))"

text \<open>What the agent's endpoint answers: a status with a text, or no answer. A call gets the URL, the
  bearer header and the new token.\<close>

datatype http_reply = HttpStatus nat string | HttpFailed string

type_synonym 'w post_rotate = "string \<Rightarrow> string \<Rightarrow> string \<Rightarrow> 'w \<Rightarrow> http_reply \<times> 'w"

definition rotate_url :: "agent_conn \<Rightarrow> string" where
  "rotate_url c = ''https://'' @ host_for_url (ac_host c) @ '':'' @ show_int (ac_port c) @ ''/api/v1/agent/auth/rotate''"

record rotation_outcome =
  ro_rotated :: time
  ro_prefix :: string

definition rotate_guard :: "servers_db \<Rightarrow> string \<Rightarrow> app_error + agent_conn" where
  "rotate_guard db sid =
     (case get_server_info db sid of
        Inl e \<Rightarrow> Inl e
      | Inr c \<Rightarrow>
          if ac_kind c \<noteq> ''agent'' then Inl (BadRequest (te ''errors.servers.rotate_agent_only''))
          else if ac_local c then Inl (BadRequest (te ''errors.servers.local_no_token_to_rotate''))
          else if ac_token c = [] then Inl (BadRequest (te ''errors.servers.no_active_token''))
          else Inr c)"

definition rotate_commit ::
  "(string \<Rightarrow> string) \<Rightarrow> time \<Rightarrow> server_token \<Rightarrow> string \<Rightarrow> servers_db \<Rightarrow> rotation_outcome \<times> servers_db" where
  "rotate_commit sha now tok sid db =
     (\<lparr>ro_rotated = now, ro_prefix = st_prefix tok\<rparr>,
      update_server sid (\<lambda>r. r\<lparr>sr_token := st_plaintext tok, sv_hash := Some (sha (st_plaintext tok)),
        sv_prefix := Some (st_prefix tok), sv_rotated := Some now, sv_version := sv_version r + 1,
        sv_updated := now\<rparr>) db)"

definition rotate_token_internal ::
  "(string \<Rightarrow> string) \<Rightarrow> 'w post_rotate \<Rightarrow> time \<Rightarrow> 8 word list \<Rightarrow> string \<Rightarrow> servers_db \<Rightarrow> 'w \<Rightarrow>
   (app_error + rotation_outcome) \<times> servers_db \<times> 'w" where
  "rotate_token_internal sha post now bytes sid db w =
     (case rotate_guard db sid of
        Inl e \<Rightarrow> (Inl e, db, w)
      | Inr c \<Rightarrow>
          (let tok = generate_agent bytes
           in case post (rotate_url c) (''Bearer '' @ ac_token c) (st_plaintext tok) w of
                (HttpFailed e, w1) \<Rightarrow>
                  (Inl (BadRequest (Te ''errors.servers.agent_unreachable_at''
                     [(''url'', rotate_url c), (''error'', e)])), db, w1)
              | (HttpStatus code body, w1) \<Rightarrow>
                  if \<not> (200 \<le> code \<and> code < 300) then
                    (Inl (BadRequest (Te ''errors.servers.agent_refused_rotation''
                       [(''status'', dec code), (''body'', body)])), db, w1)
                  else
                    (let (out, db') = rotate_commit sha now tok sid db in (Inr out, db', w1))))"

section \<open>The agent's side of a rotation\<close>

text \<open>The token of the running process, the content of \<open>auth.env\<close>, and whether the process is about to
  exit, half a second after it accepted a token. systemd starts it again with the token that \<open>env_token\<close>
  reads from the file.\<close>

record agent_state =
  ag_token :: string
  ag_file :: string
  ag_exiting :: bool

datatype fs_fault = NoFault | WriteFails string | ChmodFails string | RenameFails string

definition auth_rotate ::
  "fs_fault \<Rightarrow> string option \<Rightarrow> string \<Rightarrow> agent_state \<Rightarrow> http_reply \<times> agent_state" where
  "auth_rotate fault header raw a =
     (if \<not> token_matches header (ag_token a) then (HttpStatus 401 ''unauthorized'', a)
      else
        (let new_token = trim raw
         in if new_token = [] \<or> \<not> starts_with new_token ''pier_srv_'' then
              (HttpStatus 400 ''new_token must be a non-empty pier_srv_ value'', a)
            else
              (case fault of
                 WriteFails e \<Rightarrow> (HttpStatus 500 (''write /etc/pier-agent/auth.env.new: '' @ e), a)
               | ChmodFails e \<Rightarrow> (HttpStatus 500 (''chmod /etc/pier-agent/auth.env.new: '' @ e), a)
               | RenameFails e \<Rightarrow> (HttpStatus 500 (''rename: '' @ e), a)
               | NoFault \<Rightarrow>
                   (HttpStatus 200 ''ok'',
                    a\<lparr>ag_file := ''PIER_AGENT_TOKEN='' @ new_token @ [NL], ag_exiting := True\<rparr>))))"

definition agent_restart :: "(string \<Rightarrow> string) \<Rightarrow> agent_state \<Rightarrow> agent_state" where
  "agent_restart env_token a =
     (if ag_exiting a then a\<lparr>ag_token := env_token (ag_file a), ag_exiting := False\<rparr> else a)"

text \<open>The core's call over a connection that delivers, drops the request or drops the answer; the agent
  is left as it is after its restart.\<close>

definition post_agent :: "(string \<Rightarrow> string) \<Rightarrow> exchange \<Rightarrow> fs_fault \<Rightarrow> agent_state post_rotate" where
  "post_agent env_token link fault url bearer new_token a =
     (let (r, a1) = auth_rotate fault (Some bearer) new_token a
      in case link of
           Unreachable e \<Rightarrow> (HttpFailed e, a)
         | ReplyLost e \<Rightarrow> (HttpFailed e, agent_restart env_token a1)
         | Delivered \<Rightarrow> (r, agent_restart env_token a1))"

section \<open>The rotation schedule\<close>

text \<open>The wrapping 64-bit arithmetic of the cutoff.\<close>

definition wrap64 :: "int \<Rightarrow> int" where
  "wrap64 i = sint (word_of_int i :: 64 word)"

definition rotation_cutoff :: "time \<Rightarrow> int \<Rightarrow> time" where
  "rotation_cutoff now interval_days = wrap64 (now - wrap64 (interval_days * 86400))"

definition due_now :: "time \<Rightarrow> time option \<Rightarrow> bool" where
  "due_now cutoff rotated = (case rotated of None \<Rightarrow> True | Some t \<Rightarrow> t < cutoff)"

definition due_agent :: "time \<Rightarrow> server \<Rightarrow> bool" where
  "due_agent cutoff r = (sr_kind r = Some ''agent'' \<and> \<not> sr_local r \<and> sr_token r \<noteq> [] \<and> due_now cutoff (sv_rotated r))"

text \<open>\<open>ORDER BY token_rotated_at NULLS FIRST, name\<close>\<close>

definition rotation_key :: "server \<Rightarrow> int \<times> int \<times> string" where
  "rotation_key r = (case sv_rotated r of None \<Rightarrow> (0, 0, sr_name r) | Some t \<Rightarrow> (1, t, sr_name r))"

definition collect_due :: "time \<Rightarrow> servers_db \<Rightarrow> (string \<times> string) list" where
  "collect_due cutoff db =
     map (\<lambda>r. (sr_id r, sr_name r)) (sort_key rotation_key (filter (due_agent cutoff) (sd_servers db)))"

text \<open>One tick over the due agents; a failure is logged and the next one follows. \<open>seed i\<close> are the random
  bytes of the \<open>i\<close>-th rotation and \<open>clk i\<close> the time it reads.\<close>

fun rotate_all ::
  "(string \<Rightarrow> string) \<Rightarrow> 'w post_rotate \<Rightarrow> (nat \<Rightarrow> time) \<Rightarrow> (nat \<Rightarrow> 8 word list) \<Rightarrow> nat \<Rightarrow> (string \<times> string) list \<Rightarrow>
   servers_db \<Rightarrow> 'w \<Rightarrow> servers_db \<times> 'w" where
  "rotate_all sha post clk seed i [] db w = (db, w)"
| "rotate_all sha post clk seed i ((sid, name) # rest) db w =
     (let (r, db', w') = rotate_token_internal sha post (clk i) (seed i) sid db w
      in rotate_all sha post clk seed (Suc i) rest db' w')"

definition rotation_tick ::
  "(string \<Rightarrow> string) \<Rightarrow> 'w post_rotate \<Rightarrow> bool \<Rightarrow> int \<Rightarrow> time \<Rightarrow> (nat \<Rightarrow> time) \<Rightarrow> (nat \<Rightarrow> 8 word list) \<Rightarrow>
   servers_db \<Rightarrow> 'w \<Rightarrow> servers_db \<times> 'w" where
  "rotation_tick sha post enabled interval_days now clk seed db w =
     (if \<not> enabled then (db, w)
      else rotate_all sha post clk seed 0 (collect_due (rotation_cutoff now interval_days) db) db w)"

text \<open>The two settings: absent or anything but \<open>false\<close> means enabled; an unreadable interval is 7 days.\<close>

definition rotation_enabled :: "string option \<Rightarrow> bool" where
  "rotation_enabled v = (v \<noteq> Some ''false'')"

definition parse_i64 :: "string \<Rightarrow> int option" where
  "parse_i64 s =
     (case strip_prefix s ''-'' of
        Some t \<Rightarrow> if t = [] \<or> \<not> list_all is_digit t \<or> 2 ^ 63 < dec_val t then None else Some (- int (dec_val t))
      | None \<Rightarrow> map_option int (parse_uint (2 ^ 63 - 1) s))"

definition rotation_interval_days :: "string option \<Rightarrow> int" where
  "rotation_interval_days v =
     (case v of None \<Rightarrow> 7 | Some s \<Rightarrow> (case parse_i64 s of Some n \<Rightarrow> n | None \<Rightarrow> 7))"

section \<open>Two parties that keep one token\<close>

text \<open>One exchange of a rotation: the caller presents its token, the other side installs a new one and
  answers with it, and the caller stores what it was answered, if the answer arrives.\<close>

definition rotate_link ::
  "('t \<Rightarrow> 's \<Rightarrow> 'a \<Rightarrow> 't option \<times> 'a) \<Rightarrow> exchange \<Rightarrow> 's \<Rightarrow> 't \<times> 'a \<Rightarrow> 't \<times> 'a" where
  "rotate_link install link seed st =
     (case st of (c, a) \<Rightarrow>
        let (r, a1) = install c seed a
        in case link of
             Unreachable _ \<Rightarrow> (c, a)
           | ReplyLost _ \<Rightarrow> (c, a1)
           | Delivered \<Rightarrow> (case r of Some t \<Rightarrow> t | None \<Rightarrow> c, a1))"

text \<open>The contract of the side that installs: it refuses any other token than its own and then changes
  nothing; if it accepts, its token is the one it answers with; if it fails, it keeps its token.\<close>

locale token_rotation =
  fixes install :: "'t \<Rightarrow> 's \<Rightarrow> 'a \<Rightarrow> 't option \<times> 'a"
    and held :: "'a \<Rightarrow> 't"
    and ok :: "'a \<Rightarrow> bool"
    and fresh :: "'s \<Rightarrow> bool"
  assumes refuse: "ok a \<Longrightarrow> c \<noteq> held a \<Longrightarrow> install c s a = (None, a)"
    and accept: "ok a \<Longrightarrow> fresh s \<Longrightarrow> install (held a) s a = (Some t, a') \<Longrightarrow> held a' = t \<and> ok a'"
    and failed: "ok a \<Longrightarrow> fresh s \<Longrightarrow> install (held a) s a = (None, a') \<Longrightarrow> held a' = held a \<and> ok a'"
begin

lemma agreement:
  assumes "ok a" "c = held a" "fresh s" "\<And>e. link \<noteq> ReplyLost e"
    and eq: "rotate_link install link s (c, a) = (c', a')"
  shows "c' = held a' \<and> ok a'"
proof -
  obtain r a1 where i: "install (held a) s a = (r, a1)" by fastforce
  show ?thesis using assms accept [of a s _ a1] failed [of a s a1] i
    by (cases link; cases r) (auto simp: rotate_link_def)
qed

lemma stuck: "ok a \<Longrightarrow> c \<noteq> held a \<Longrightarrow> rotate_link install link s (c, a) = (c, a)"
  using refuse [of a c s] by (auto simp: rotate_link_def split: exchange.split)

lemma stuck_forever:
  "ok a \<Longrightarrow> c \<noteq> held a \<Longrightarrow> fold (\<lambda>(link, s). rotate_link install link s) tries (c, a) = (c, a)"
  by (induction tries) (auto simp: stuck)

lemma lost_reply_diverges:
  assumes "ok a" "fresh s" "install (held a) s a = (Some t, a1)" "t \<noteq> held a"
  shows "rotate_link install (ReplyLost e) s (held a, a) = (held a, a1) \<and> held a \<noteq> held a1 \<and> ok a1"
  using accept [OF assms(1-3)] assms(3,4) by (auto simp: rotate_link_def)

end

section \<open>Lemmas on the agent\<close>

lemma hex_encode_chars: "c \<in> set (hex_encode bs) \<Longrightarrow> \<not> is_ws c"
proof (induction bs)
  case (Cons b bs)
  have "\<not> is_ws (hex_digit n)" if "n < 16" for n
    using that by (simp add: hex_digit_def is_ws_def)
  moreover have "unat b div 16 < 16" "unat b mod 16 < 16" using unsigned_less [of b, where ?'a = nat] by auto
  ultimately show ?case using Cons by (auto simp: hex_encode_Cons hex_byte_def)
qed simp

definition agent_file :: "string \<Rightarrow> string" where
  "agent_file t = ''PIER_AGENT_TOKEN='' @ t @ [NL]"

lemma generate_agent_token:
  "trim (st_plaintext (generate_agent bs)) = st_plaintext (generate_agent bs)"
  "starts_with (st_plaintext (generate_agent bs)) ''pier_srv_''"
  "st_plaintext (generate_agent bs) \<noteq> []"
proof -
  let ?t = "st_plaintext (generate_agent bs)"
  have e: "?t = ''pier_srv_'' @ hex_encode bs" by (simp add: generate_agent_def generate_with_prefix_def Let_def)
  have "\<not> is_ws c" if "c \<in> set ?t" for c
    using that hex_encode_chars [of c bs] by (auto simp: e is_ws_def)
  then show "trim ?t = ?t" by (intro trim_id) (simp add: e)
  show "starts_with ?t ''pier_srv_''" "?t \<noteq> []" by (simp_all only: e starts_with_append) simp
qed

lemma token_matches_bearer: "token_matches (Some (''Bearer '' @ c)) t \<longleftrightarrow> t \<noteq> [] \<and> c = t"
  by (simp add: token_matches_def strip_prefix_def starts_with_def)

text \<open>The agent as a party of a rotation; a seed is the random bytes and a fault of its file system.\<close>

definition agent_install ::
  "(string \<Rightarrow> string) \<Rightarrow> string \<Rightarrow> 8 word list \<times> fs_fault \<Rightarrow> agent_state \<Rightarrow> string option \<times> agent_state" where
  "agent_install env_token c seed a =
     (let t = st_plaintext (generate_agent (fst seed));
          (r, a1) = auth_rotate (snd seed) (Some (''Bearer '' @ c)) t a
      in (case r of HttpStatus code _ \<Rightarrow> if 200 \<le> code \<and> code < 300 then Some t else None | HttpFailed _ \<Rightarrow> None,
          agent_restart env_token a1))"

text \<open>What systemd reads back from the file the agent writes.\<close>

definition reads_back :: "(string \<Rightarrow> string) \<Rightarrow> bool" where
  "reads_back env_token \<longleftrightarrow> (\<forall>bs. env_token (agent_file (st_plaintext (generate_agent bs))) = st_plaintext (generate_agent bs))"

lemma agent_rotation:
  assumes "reads_back env_token"
  shows "token_rotation (agent_install env_token) ag_token (\<lambda>a. \<not> ag_exiting a) (\<lambda>_. True)"
proof
  fix a :: agent_state and c s assume "\<not> ag_exiting a" "c \<noteq> ag_token a"
  then show "agent_install env_token c s a = (None, a)"
    by (simp add: agent_install_def auth_rotate_def token_matches_bearer [simplified] agent_restart_def Let_def)
next
  fix a :: agent_state and s t a' assume a: "\<not> ag_exiting a" "agent_install env_token (ag_token a) s a = (Some t, a')"
  then show "ag_token a' = t \<and> \<not> ag_exiting a'"
    using assms generate_agent_token [of "fst s"]
    by (auto simp: agent_install_def auth_rotate_def token_matches_bearer [simplified] agent_restart_def Let_def reads_back_def
        agent_file_def split: if_splits fs_fault.splits)
next
  fix a :: agent_state and s a' assume a: "\<not> ag_exiting a" "agent_install env_token (ag_token a) s a = (None, a')"
  then show "ag_token a' = ag_token a \<and> \<not> ag_exiting a'"
    using generate_agent_token [of "fst s"]
    by (auto simp: agent_install_def auth_rotate_def token_matches_bearer [simplified] agent_restart_def Let_def
        split: if_splits fs_fault.splits)
qed

text \<open>One rotation of the core over a connection is one exchange of the two parties.\<close>

definition credential :: "string \<Rightarrow> servers_db \<Rightarrow> string option" where
  "credential sid db = map_option sr_token (sql_first (\<lambda>r. sr_id r = sid) (sd_servers db))"

lemma sql_first_update_other:
  "(\<And>r. k (f r) = k r) \<Longrightarrow> i \<noteq> j \<Longrightarrow> sql_first (\<lambda>r. k r = j) (sql_update (\<lambda>r. k r = i) f t) =
     sql_first (\<lambda>r. k r = j) t"
  by (induction t) (simp_all add: sql_simps)

lemma rotate_guard_row:
  "rotate_guard db sid = Inr c \<Longrightarrow>
     \<exists>r. sql_first (\<lambda>r. sr_id r = sid) (sd_servers db) = Some r \<and> sr_kind r = Some ''agent'' \<and> \<not> sr_local r \<and>
       sr_token r = ac_token c \<and> ac_token c \<noteq> []"
  by (auto simp: rotate_guard_def get_server_info_def Let_def split: option.splits sum.splits if_splits)

lemma rotate_refines:
  assumes g: "rotate_guard db sid = Inr c"
    and r: "rotate_token_internal sha (post_agent env_token link fault) now bytes sid db a = (res, db', a')"
  shows "\<exists>t. credential sid db' = Some t \<and>
    rotate_link (agent_install env_token) link (bytes, fault) (ac_token c, a) = (t, a')"
proof -
  obtain row where row: "sql_first (\<lambda>r. sr_id r = sid) (sd_servers db) = Some row" "sr_token row = ac_token c"
    using rotate_guard_row [OF g] by blast
  obtain rep a1 where q: "auth_rotate fault (Some (''Bearer '' @ ac_token c)) (st_plaintext (generate_agent bytes)) a = (rep, a1)"
    by fastforce
  show ?thesis
    using r row
    by (auto simp: rotate_token_internal_def g q post_agent_def credential_def rotate_link_def agent_install_def
        rotate_commit_def update_server_def sql_first_update_key Let_def
        simp del: append.simps split: exchange.splits http_reply.splits if_splits)
qed

section \<open>The table as a transition system\<close>

text \<open>A step is one handler on the table, with the ids issued so far, which never repeat; what peers and
  agents answer is arbitrary. The second locks of a handshake, a heartbeat and a rotation may also come
  at any later time, of whatever server was resolved then. Of a late heartbeat that fills in the hash
  of a row, only those are steps that still find the row with the token it resolved
  (\<open>late_backfill_locks_out\<close> shows the others); a rotation only starts for a row with a token, which
  has no bootstrap and never gets one again (\<open>spent_runs\<close>).\<close>

inductive server_step :: "(string \<Rightarrow> string) \<Rightarrow> servers_db \<times> string set \<Rightarrow> servers_db \<times> string set \<Rightarrow> bool"
  for sha where
  create: "uuid \<notin> I \<Longrightarrow> server_step sha (db, I) (snd (create_server sha http now uuid bytes body db), insert uuid I)"
| commit: "server_step sha (db, I) (snd (handshake_commit sha now bytes sid facts h db), I)"
| handshake: "server_step sha (db, I) (snd (handshake sha now bytes sid facts raw db), I)"
| heartbeat: "server_step sha (db, I) (snd (heartbeat sha now tok facts db), I)"
| rotate: "server_step sha (db, I) (fst (snd (rotate_token_internal sha (post :: nat post_rotate) now bytes sid db w)), I)"
| late_beat: "(legacy \<Longrightarrow> tok \<noteq> [] \<and> (\<forall>r \<in> set (sd_servers db). sr_id r = sid \<longrightarrow> sr_token r = tok)) \<Longrightarrow>
    server_step sha (db, I) (snd (heartbeat_update sha now tok facts (sid, name, st, legacy) db), I)"
| late_rotate: "(\<And>r. r \<in> set (sd_servers db) \<Longrightarrow> sr_id r = sid \<Longrightarrow> sv_boot r = None) \<Longrightarrow>
    server_step sha (db, I) (snd (rotate_commit sha now (generate_agent bytes) sid db), I)"
| rename: "server_step sha (db, I) (snd (rename_server now sid raw db), I)"
| remove: "server_step sha (db, I) (snd (remove_server sid db), I)"
| probe: "server_step sha (db, I) (snd (probe_peer http now sid db), I)"
| federate: "server_step sha (db, I) (snd (set_federation_token now sid raw db), I)"

inductive_cases server_stepE: "server_step sha s t"

text \<open>The hash stored with a server is that of its token, and a server that still has a bootstrap has no
  token at all.\<close>

definition credential_ok :: "(string \<Rightarrow> string) \<Rightarrow> server \<Rightarrow> bool" where
  "credential_ok sha r \<longleftrightarrow>
     (\<forall>h. sv_hash r = Some h \<longrightarrow> h = sha (sr_token r) \<and> sr_token r \<noteq> []) \<and>
     (sv_boot r \<noteq> None \<longrightarrow> sr_token r = [] \<and> sv_hash r = None)"

definition server_inv :: "(string \<Rightarrow> string) \<Rightarrow> servers_db \<times> string set \<Rightarrow> bool" where
  "server_inv sha s \<longleftrightarrow> distinct (map sr_id (sd_servers (fst s))) \<and>
     sr_id ` set (sd_servers (fst s)) \<subseteq> snd s \<and> list_all (credential_ok sha) (sd_servers (fst s))"

lemma server_inv_update:
  assumes "server_inv sha (db, I)" "\<And>r. sr_id (f r) = sr_id r"
    and "\<And>r. r \<in> set (sd_servers db) \<Longrightarrow> P r \<Longrightarrow> credential_ok sha r \<Longrightarrow> credential_ok sha (f r)"
  shows "server_inv sha (db\<lparr>sd_servers := sql_update P f (sd_servers db)\<rparr>, I)"
proof -
  have m: "map sr_id (sql_update P f (sd_servers db)) = map sr_id (sd_servers db)"
    by (simp add: map_sql_update assms(2))
  have "sr_id ` set (sql_update P f (sd_servers db)) = sr_id ` set (sd_servers db)"
    using arg_cong [OF m, of set] by simp
  then show ?thesis using assms(1,3) m by (auto simp: server_inv_def list_all_iff set_sql_update)
qed

lemma server_inv_insert:
  assumes "server_inv sha (db, I)" "insert_server row db = Inr db'" "credential_ok sha row"
  shows "server_inv sha (db', insert (sr_id row) I)"
  using assms by (auto simp: server_inv_def insert_server_def split: if_splits) blast+

lemma server_inv_mono: "server_inv sha (db, I) \<Longrightarrow> server_inv sha (db, insert i I)"
  by (auto simp: server_inv_def)

lemma update_server_inv:
  "server_inv sha (db, I) \<Longrightarrow> (\<And>r. sr_id (f r) = sr_id r) \<Longrightarrow>
   (\<And>r. r \<in> set (sd_servers db) \<Longrightarrow> sr_id r = sid \<Longrightarrow> credential_ok sha r \<Longrightarrow> credential_ok sha (f r)) \<Longrightarrow>
   server_inv sha (update_server sid f db, I)"
  unfolding update_server_def by (rule server_inv_update)

lemma mark_peer_error_inv: "server_inv sha (db, I) \<Longrightarrow> server_inv sha (mark_peer_error now sid m db, I)"
  unfolding mark_peer_error_def by (rule update_server_inv) (simp_all add: credential_ok_def)

lemma probe_peer_inv: "server_inv sha (db, I) \<Longrightarrow> server_inv sha (snd (probe_peer http now sid db), I)"
  by (auto simp: probe_peer_def Let_def mark_peer_error_inv credential_ok_def
      intro!: update_server_inv split: option.split probe_reply.split)

lemma create_server_inv:
  assumes "server_inv sha (db, I)"
  shows "server_inv sha (snd (create_server sha http now uuid bytes body db), insert uuid I)"
proof -
  have agent: "server_inv sha (snd (create_agent sha now uuid bytes name body db), insert uuid I)" for name
  proof (cases "non_empty (map_option normalize_host (cq_host body))")
    case None
    then show ?thesis using server_inv_mono [OF assms] by (simp add: create_agent_def)
  next
    case (Some host)
    then show ?thesis using server_inv_mono [OF assms] server_inv_insert [OF assms]
      by (fastforce simp: create_agent_def Let_def credential_ok_def default_server_def split: sum.split)
  qed
  have peer: "server_inv sha (snd (create_peer http now uuid name body db), insert uuid I)" for name
  proof -
    have "server_inv sha (snd (probe_peer http now uuid db'), insert uuid I)"
      if "insert_server ((default_server now uuid name ''peer'')
            \<lparr>sr_host := [], sr_port := 0, sv_url := Some url, sr_token := token\<rparr>) db = Inr db'" for url token db'
      using server_inv_insert [OF assms that] by (intro probe_peer_inv) (simp add: credential_ok_def default_server_def)
    then show ?thesis using server_inv_mono [OF assms]
      by (auto simp: create_peer_def split: option.split sum.split)
  qed
  show ?thesis using agent peer server_inv_mono [OF assms] by (auto simp: create_server_def Let_def)
qed

lemma handshake_commit_inv:
  "server_inv sha (db, I) \<Longrightarrow> server_inv sha (snd (handshake_commit sha now bytes sid facts h db), I)"
  using generate_agent_token(3) [of bytes]
  by (auto simp: handshake_commit_def Let_def credential_ok_def intro!: server_inv_update)

lemma heartbeat_update_inv:
  assumes "server_inv sha (db, I)"
    and "legacy \<Longrightarrow> tok \<noteq> [] \<and> (\<forall>r \<in> set (sd_servers db). sr_id r = sid \<longrightarrow> sr_token r = tok)"
  shows "server_inv sha (snd (heartbeat_update sha now tok facts (sid, name, st, legacy) db), I)"
  using assms
  by (auto simp: heartbeat_update_def Let_def credential_ok_def intro!: update_server_inv split: if_splits)

lemma resolve_row:
  assumes "heartbeat_resolve sha tok db = Some (sid, name, st, legacy)"
  obtains r where "r \<in> set (sd_servers db)" "sr_id r = sid" "sr_name r = name" "sv_status r = st"
    "if legacy then sr_token r = tok \<and> tok \<noteq> [] \<and> sv_hash r = None else sv_hash r = Some (sha tok)"
proof (cases "sql_first (\<lambda>r. sv_hash r = Some (sha tok)) (sd_servers db)")
  case (Some r)
  from sql_first_Some [OF Some] assms Some show ?thesis by (intro that [of r]) (auto simp: heartbeat_resolve_def)
next
  case None
  then obtain r where "sql_first (\<lambda>r. sr_token r = tok \<and> sr_token r \<noteq> [] \<and> sv_hash r = None) (sd_servers db) = Some r"
    "(sr_id r, sr_name r, sv_status r, True) = (sid, name, st, legacy)"
    using assms by (auto simp: heartbeat_resolve_def)
  with sql_first_Some [OF this(1)] show ?thesis by (intro that [of r]) auto
qed

lemma heartbeat_inv:
  assumes "server_inv sha (db, I)"
  shows "server_inv sha (snd (heartbeat sha now tok facts db), I)"
proof (cases "heartbeat_resolve sha tok db")
  case (Some found)
  obtain sid name st legacy where f: "found = (sid, name, st, legacy)" by (cases found)
  have "tok \<noteq> [] \<and> (\<forall>r \<in> set (sd_servers db). sr_id r = sid \<longrightarrow> sr_token r = tok)" if lg: "legacy"
  proof -
    obtain q where "q \<in> set (sd_servers db)" "sr_id q = sid" "sr_token q = tok" "tok \<noteq> []"
      using resolve_row [of sha tok db sid name st legacy] Some f lg by auto
    moreover have "inj_on sr_id (set (sd_servers db))" using assms by (simp add: server_inv_def distinct_map)
    ultimately show ?thesis by (metis inj_onD)
  qed
  then show ?thesis using heartbeat_update_inv [OF assms] by (simp add: heartbeat_def Some f)
qed (simp add: heartbeat_def assms)

lemma rotate_commit_inv:
  assumes "server_inv sha (db, I)" "\<And>r. r \<in> set (sd_servers db) \<Longrightarrow> sr_id r = sid \<Longrightarrow> sv_boot r = None"
  shows "server_inv sha (snd (rotate_commit sha now (generate_agent bytes) sid db), I)"
  using generate_agent_token(3) [of bytes] assms(2)
  unfolding rotate_commit_def snd_conv
  by (intro update_server_inv [OF assms(1)]) (auto simp: credential_ok_def)

lemma rotate_inv:
  assumes "server_inv sha (db, I)"
  shows "server_inv sha (fst (snd (rotate_token_internal sha post now bytes sid db w)), I)"
proof (cases "rotate_guard db sid")
  case (Inr c)
  obtain row where row: "sql_first (\<lambda>r. sr_id r = sid) (sd_servers db) = Some row" "sr_token row \<noteq> []"
    using rotate_guard_row [OF Inr] by force
  have "inj_on sr_id (set (sd_servers db))" using assms by (simp add: server_inv_def distinct_map)
  then have one: "r = row" if "r \<in> set (sd_servers db)" "sr_id r = sid" for r
    using sql_first_Some [OF row(1)] that by (metis inj_onD)
  have "credential_ok sha row" using assms sql_first_Some [OF row(1)] by (simp add: server_inv_def list_all_iff)
  then have "sv_boot row = None" using row(2) by (cases "sv_boot row") (simp_all add: credential_ok_def)
  then have "sv_boot r = None" if "r \<in> set (sd_servers db)" "sr_id r = sid" for r
    using one [OF that] by simp
  from rotate_commit_inv [OF assms this]
  have "server_inv sha (snd (rotate_commit sha now (generate_agent bytes) sid db), I)" by blast
  then show ?thesis using assms
    by (auto simp: rotate_token_internal_def Inr Let_def split: prod.split http_reply.split)
qed (simp add: rotate_token_internal_def assms)

lemma server_step_inv: "server_step sha s t \<Longrightarrow> server_inv sha s \<Longrightarrow> server_inv sha t"
proof (erule server_stepE)
  fix db I now bytes sid facts raw
  assume "server_inv sha s" "s = (db, I)" "t = (snd (handshake sha now bytes sid facts raw db), I)"
  then show ?thesis by (auto simp: handshake_def handshake_commit_inv split: sum.split)
next
  fix db I now sid raw
  assume "server_inv sha s" "s = (db, I)" "t = (snd (rename_server now sid raw db), I)"
  then show ?thesis by (auto simp: rename_server_def Let_def credential_ok_def intro!: update_server_inv)
next
  fix db I sid
  assume "server_inv sha s" "s = (db, I)" "t = (snd (remove_server sid db), I)"
  then show ?thesis
    by (auto simp: remove_server_def Let_def server_inv_def list_all_iff sql_delete_def distinct_map_filter)
next
  fix db I now sid raw
  assume "server_inv sha s" "s = (db, I)" "t = (snd (set_federation_token now sid raw db), I)"
  then show ?thesis
    by (auto simp: set_federation_token_def Let_def credential_ok_def intro!: server_inv_update)
next
  fix legacy tok db sid I now facts name st
  assume "server_inv sha s" "s = (db, I)" "t = (snd (heartbeat_update sha now tok facts (sid, name, st, legacy) db), I)"
    "legacy \<Longrightarrow> tok \<noteq> [] \<and> (\<forall>r \<in> set (sd_servers db). sr_id r = sid \<longrightarrow> sr_token r = tok)"
  then show ?thesis by (simp add: heartbeat_update_inv)
next
  fix db sid I now bytes
  assume "server_inv sha s" "s = (db, I)" "t = (snd (rotate_commit sha now (generate_agent bytes) sid db), I)"
    "\<And>r. r \<in> set (sd_servers db) \<Longrightarrow> sr_id r = sid \<Longrightarrow> sv_boot r = None"
  then show ?thesis by (simp add: rotate_commit_inv)
qed (auto simp: create_server_inv handshake_commit_inv heartbeat_inv rotate_inv probe_peer_inv)

interpretation server_runs: invariant_system "server_step sha" "server_inv sha" for sha
  by unfold_locales (rule server_step_inv)

section \<open>Lemmas on redeeming, heartbeats and the schedule\<close>

text \<open>A server whose bootstrap is spent: it has been issued, and none of its rows has a bootstrap.\<close>

definition spent :: "string \<Rightarrow> servers_db \<times> string set \<Rightarrow> bool" where
  "spent sid s \<longleftrightarrow> sid \<in> snd s \<and> list_all (\<lambda>r. sr_id r = sid \<longrightarrow> sv_boot r = None) (sd_servers (fst s))"

lemma spent_update:
  "spent sid (db, I) \<Longrightarrow> (\<And>r. sr_id (f r) = sr_id r) \<Longrightarrow> (\<And>r. sv_boot r = None \<Longrightarrow> sv_boot (f r) = None) \<Longrightarrow>
   spent sid (db\<lparr>sd_servers := sql_update P f (sd_servers db)\<rparr>, I)"
  by (auto simp: spent_def list_all_iff set_sql_update)

lemma spent_update_server:
  "spent sid (db, I) \<Longrightarrow> (\<And>r. sr_id (f r) = sr_id r) \<Longrightarrow> (\<And>r. sv_boot r = None \<Longrightarrow> sv_boot (f r) = None) \<Longrightarrow>
   spent sid (update_server i f db, I)"
  unfolding update_server_def by (rule spent_update)

lemma spent_insert:
  "spent sid (db, I) \<Longrightarrow> insert_server row db = Inr db' \<Longrightarrow> sr_id row \<noteq> sid \<Longrightarrow> spent sid (db', insert (sr_id row) I)"
  by (auto simp: spent_def insert_server_def split: if_splits)

lemma spent_probe: "spent sid (db, I) \<Longrightarrow> spent sid (snd (probe_peer http now i db), I)"
  by (auto simp: probe_peer_def Let_def mark_peer_error_def intro!: spent_update_server
      split: option.split probe_reply.split)

lemma spent_commit: "spent sid (db, I) \<Longrightarrow> spent sid (snd (handshake_commit sha now bytes i facts h db), I)"
  by (auto simp: handshake_commit_def Let_def intro!: spent_update)

lemma spent_create:
  assumes "spent sid (db, I)" "uuid \<notin> I"
  shows "spent sid (snd (create_server sha http now uuid bytes body db), insert uuid I)"
proof -
  have n: "uuid \<noteq> sid" using assms by (auto simp: spent_def)
  have k: "spent sid (db, insert uuid I)" using assms by (simp add: spent_def)
  have agent: "spent sid (snd (create_agent sha now uuid bytes name body db), insert uuid I)" for name
    using k n spent_insert [OF assms(1)]
    by (fastforce simp: create_agent_def Let_def default_server_def split: option.split sum.split)
  have peer: "spent sid (snd (create_peer http now uuid name body db), insert uuid I)" for name
  proof -
    have "spent sid (snd (probe_peer http now uuid db'), insert uuid I)"
      if "insert_server ((default_server now uuid name ''peer'')
            \<lparr>sr_host := [], sr_port := 0, sv_url := Some url, sr_token := token\<rparr>) db = Inr db'" for url token db'
      using spent_insert [OF assms(1) that] n by (intro spent_probe) (simp add: default_server_def)
    then show ?thesis using k by (auto simp: create_peer_def split: option.split sum.split)
  qed
  show ?thesis using agent peer k by (auto simp: create_server_def Let_def)
qed

lemma spent_step: "server_step sha s t \<Longrightarrow> spent sid s \<Longrightarrow> spent sid t"
proof (erule server_stepE)
  fix db I now bytes i facts raw
  assume "spent sid s" "s = (db, I)" "t = (snd (handshake sha now bytes i facts raw db), I)"
  then show ?thesis by (auto simp: handshake_def spent_commit split: sum.split)
next
  fix db I now tok facts
  assume "spent sid s" "s = (db, I)" "t = (snd (heartbeat sha now tok facts db), I)"
  then show ?thesis
    by (auto simp: heartbeat_def heartbeat_update_def Let_def intro!: spent_update_server split: option.split)
next
  fix legacy tok db i I now facts name st
  assume "spent sid s" "s = (db, I)" "t = (snd (heartbeat_update sha now tok facts (i, name, st, legacy) db), I)"
  then show ?thesis by (auto simp: heartbeat_update_def Let_def intro!: spent_update_server)
next
  fix db i I now bytes
  assume "spent sid s" "s = (db, I)" "t = (snd (rotate_commit sha now (generate_agent bytes) i db), I)"
  then show ?thesis by (auto simp: rotate_commit_def intro!: spent_update_server)
next
  fix db I and post :: "nat post_rotate" and now bytes i w
  assume "spent sid s" "s = (db, I)" "t = (fst (snd (rotate_token_internal sha post now bytes i db w)), I)"
  then show ?thesis
    by (auto simp: rotate_token_internal_def rotate_commit_def Let_def intro!: spent_update_server
        split: sum.split prod.split http_reply.split)
next
  fix db I now i raw
  assume "spent sid s" "s = (db, I)" "t = (snd (rename_server now i raw db), I)"
  then show ?thesis by (auto simp: rename_server_def Let_def intro!: spent_update_server)
next
  fix db I i
  assume "spent sid s" "s = (db, I)" "t = (snd (remove_server i db), I)"
  then show ?thesis by (auto simp: remove_server_def Let_def spent_def list_all_iff set_sql_delete)
next
  fix db I now i raw
  assume "spent sid s" "s = (db, I)" "t = (snd (set_federation_token now i raw db), I)"
  then show ?thesis by (auto simp: set_federation_token_def Let_def intro!: spent_update)
qed (auto simp: spent_create spent_commit spent_probe)

interpretation spent_runs: invariant_system "server_step sha" "spent sid" for sha sid
  by unfold_locales (rule spent_step)

lemma spent_refuses:
  assumes "spent sid (db, I)"
  shows "fst (handshake_commit sha now bytes sid facts h db) = Inl Unauthorized"
    and "\<exists>e. fst (handshake sha now bytes sid facts raw db) = Inl e"
proof -
  show c: "fst (handshake_commit sha now bytes sid facts h db) = Inl Unauthorized" for h
    using assms by (auto simp: handshake_commit_def Let_def spent_def list_all_iff sql_count_pos)
  show "\<exists>e. fst (handshake sha now bytes sid facts raw db) = Inl e"
    using c by (auto simp: handshake_def split: sum.split)
qed

lemma commit_spends:
  assumes "handshake_commit sha now bytes sid facts h db = (Inr tok, db')" "server_inv sha (db, I)"
  shows "spent sid (db', I)"
proof -
  let ?P = "\<lambda>r. sr_id r = sid \<and> sr_kind r = Some ''agent'' \<and> sv_boot r = Some h"
  obtain q where q: "q \<in> set (sd_servers db)" "?P q"
    using assms(1) by (auto simp: handshake_commit_def Let_def sql_count_zero split: if_splits)
  have "inj_on sr_id (set (sd_servers db))" using assms(2) by (simp add: server_inv_def distinct_map)
  then have all: "?P r" if "r \<in> set (sd_servers db)" "sr_id r = sid" for r using that q by (metis inj_onD)
  obtain f where f: "sd_servers db' = sql_update ?P f (sd_servers db)" "\<And>r. sr_id (f r) = sr_id r" "\<And>r. sv_boot (f r) = None"
    using assms(1) by (auto simp: handshake_commit_def Let_def split: if_splits)
  have "sv_boot r = None" if r: "r \<in> set (sd_servers db')" "sr_id r = sid" for r
  proof -
    obtain x where x: "x \<in> set (sd_servers db)" "r = (if ?P x then f x else x)"
      using r(1) unfolding f(1) set_sql_update by blast
    then have "sr_id x = sid" using r(2) f(2) by (metis (full_types))
    from all [OF x(1) this] show ?thesis using x(2) f(3) by simp
  qed
  moreover have "sid \<in> I" using q assms(2) by (auto simp: server_inv_def)
  ultimately show ?thesis by (simp add: spent_def list_all_iff)
qed

lemma resolve_current:
  assumes "inj sha" "server_inv sha (db, I)" "heartbeat_resolve sha tok db = Some (sid, name, st, legacy)"
  shows "\<exists>r \<in> set (sd_servers db). sr_id r = sid \<and> sr_name r = name \<and> sv_status r = st \<and> sr_token r = tok \<and> tok \<noteq> []"
proof -
  obtain r where r: "r \<in> set (sd_servers db)" "sr_id r = sid" "sr_name r = name" "sv_status r = st"
    "if legacy then sr_token r = tok \<and> tok \<noteq> [] \<and> sv_hash r = None else sv_hash r = Some (sha tok)"
    using resolve_row [OF assms(3)] .
  moreover have "credential_ok sha r" using assms(2) r(1) by (simp add: server_inv_def list_all_iff)
  ultimately have "sr_token r = tok \<and> tok \<noteq> []"
    using injD [OF assms(1)] by (auto simp: credential_ok_def split: if_splits)
  with r show ?thesis by blast
qed

lemma resolve_none:
  assumes "server_inv sha (db, I)" "heartbeat_resolve sha tok db = None" "r \<in> set (sd_servers db)" "sr_token r = tok"
  shows "tok = []"
proof (rule ccontr)
  assume ne: "tok \<noteq> []"
  have n: "sql_first (\<lambda>r. sv_hash r = Some (sha tok)) (sd_servers db) = None"
    "sql_first (\<lambda>r. sr_token r = tok \<and> sr_token r \<noteq> [] \<and> sv_hash r = None) (sd_servers db) = None"
    using assms(2) by (auto simp: heartbeat_resolve_def split: option.splits)
  have "credential_ok sha r" using assms(1,3) by (simp add: server_inv_def list_all_iff)
  then have "sv_hash r = None \<or> sv_hash r = Some (sha tok)" using assms(4) by (auto simp: credential_ok_def)
  with n assms(3,4) ne show False by (auto simp: sql_first_None)
qed

abbreviation row_of :: "string \<Rightarrow> servers_db \<Rightarrow> server option" where
  "row_of sid db \<equiv> sql_first (\<lambda>r. sr_id r = sid) (sd_servers db)"

lemma rotate_cases:
  "fst (snd (rotate_token_internal sha post now bytes sid db w)) = db \<or>
   fst (snd (rotate_token_internal sha post now bytes sid db w)) =
     snd (rotate_commit sha now (generate_agent bytes) sid db)"
  by (auto simp: rotate_token_internal_def Let_def split: sum.split prod.split http_reply.split)

lemma row_of_update: "(\<And>r. sr_id (f r) = sr_id r) \<Longrightarrow> row_of sid (update_server sid f db) = map_option f (row_of sid db)"
  by (simp add: update_server_def sql_first_update_key)

lemma rotate_commit_row:
  "row_of sid (snd (rotate_commit sha now tok j db)) =
     (if sid = j then map_option (\<lambda>r. r\<lparr>sr_token := st_plaintext tok, sv_hash := Some (sha (st_plaintext tok)),
        sv_prefix := Some (st_prefix tok), sv_rotated := Some now, sv_version := sv_version r + 1,
        sv_updated := now\<rparr>) (row_of sid db) else row_of sid db)"
  by (simp add: rotate_commit_def update_server_def sql_first_update_key sql_first_update_other)

text \<open>The update of a heartbeat reports for the server that was resolved, and for no other.\<close>

lemma heartbeat_update_row:
  assumes "heartbeat_update sha now tok facts (sid, name, st, legacy) db = (ans, db')"
  shows "row_of j db' = (if j \<noteq> sid then row_of j db else map_option (\<lambda>r. r\<lparr>sv_status := ''online'', sv_beat := Some now,
      sv_os := keep (hf_os facts) (sv_os r), sv_cpus := keep (hf_cpus facts) (sv_cpus r),
      sv_memory := keep (hf_memory facts) (sv_memory r), sv_docker := keep (hf_docker facts) (sv_docker r),
      sr_tls := keep (hf_tls facts) (sr_tls r), sv_updated := now,
      sv_hash := if legacy then Some (sha tok) else sv_hash r\<rparr>) (row_of sid db))"
    "ans = (case row_of sid db of None \<Rightarrow> Inl Unauthorized
            | Some _ \<Rightarrow> Inr (if st \<noteq> ''online'' then Some name else None))"
proof -
  let ?f = "\<lambda>r. r\<lparr>sv_status := ''online'', sv_beat := Some now,
      sv_os := keep (hf_os facts) (sv_os r), sv_cpus := keep (hf_cpus facts) (sv_cpus r),
      sv_memory := keep (hf_memory facts) (sv_memory r), sv_docker := keep (hf_docker facts) (sv_docker r),
      sr_tls := keep (hf_tls facts) (sr_tls r), sv_updated := now,
      sv_hash := if legacy then Some (sha tok) else sv_hash r\<rparr>"
  have "(if legacy then (\<lambda>r. r\<lparr>sv_status := ''online'', sv_beat := Some now,
      sv_os := keep (hf_os facts) (sv_os r), sv_cpus := keep (hf_cpus facts) (sv_cpus r),
      sv_memory := keep (hf_memory facts) (sv_memory r), sv_docker := keep (hf_docker facts) (sv_docker r),
      sr_tls := keep (hf_tls facts) (sr_tls r), sv_updated := now, sv_hash := Some (sha tok)\<rparr>)
    else (\<lambda>r. r\<lparr>sv_status := ''online'', sv_beat := Some now,
      sv_os := keep (hf_os facts) (sv_os r), sv_cpus := keep (hf_cpus facts) (sv_cpus r),
      sv_memory := keep (hf_memory facts) (sv_memory r), sv_docker := keep (hf_docker facts) (sv_docker r),
      sr_tls := keep (hf_tls facts) (sr_tls r), sv_updated := now\<rparr>)) = ?f" by (simp add: fun_eq_iff)
  then have db': "db' = update_server sid ?f db"
    using assms by (auto simp: heartbeat_update_def Let_def split: if_splits)
  show "row_of j db' = (if j \<noteq> sid then row_of j db else map_option ?f (row_of sid db))"
    unfolding db' by (simp add: update_server_def sql_first_update_key sql_first_update_other)
  have "sql_count (\<lambda>r. sr_id r = sid) (sd_servers db) = 0 \<longleftrightarrow> row_of sid db = None"
    by (simp add: sql_count_zero sql_first_None)
  then show "ans = (case row_of sid db of None \<Rightarrow> Inl Unauthorized
            | Some _ \<Rightarrow> Inr (if st \<noteq> ''online'' then Some name else None))"
    using assms by (auto simp: heartbeat_update_def Let_def split: option.split if_splits)
qed

definition settled :: "time \<Rightarrow> string \<Rightarrow> servers_db \<Rightarrow> bool" where
  "settled cutoff sid db \<longleftrightarrow> (\<exists>r. row_of sid db = Some r \<and> \<not> due_agent cutoff r)"

lemma rotate_other:
  "sid \<noteq> j \<Longrightarrow> row_of sid (fst (snd (rotate_token_internal sha post now bytes j db w))) = row_of sid db"
  using rotate_cases [of sha post now bytes j db w] by (auto simp: rotate_commit_row)

lemma rotate_settled:
  "cutoff \<le> now \<Longrightarrow> settled cutoff sid db \<Longrightarrow>
   settled cutoff sid (fst (snd (rotate_token_internal sha post now bytes j db w)))"
  using rotate_cases [of sha post now bytes j db w]
  by (auto simp: settled_def rotate_commit_row due_agent_def due_now_def)

definition can_rotate :: "server \<Rightarrow> bool" where
  "can_rotate r \<longleftrightarrow> sr_kind r = Some ''agent'' \<and> \<not> sr_local r \<and> sr_token r \<noteq> []"

text \<open>A transport that delivers every call with one of the given bearer headers, and gets it accepted.\<close>

definition answers :: "'w post_rotate \<Rightarrow> string set \<Rightarrow> bool" where
  "answers post good \<longleftrightarrow> (\<forall>url b t w. b \<in> good \<longrightarrow> (\<exists>body w'. post url b t w = (HttpStatus 200 body, w')))"

lemma rotate_guard_can:
  assumes "row_of sid db = Some r" "can_rotate r"
  shows "\<exists>c. rotate_guard db sid = Inr c \<and> ac_token c = sr_token r"
  using assms by (auto simp: rotate_guard_def get_server_info_def can_rotate_def Let_def)

lemma rotate_self:
  assumes "row_of sid db = Some r" "can_rotate r" "answers post good" "''Bearer '' @ sr_token r \<in> good" "cutoff \<le> now"
  shows "settled cutoff sid (fst (snd (rotate_token_internal sha post now bytes sid db w)))"
proof -
  obtain c where c: "rotate_guard db sid = Inr c" "ac_token c = sr_token r"
    using rotate_guard_can [OF assms(1,2)] by blast
  obtain body w' where p: "post (rotate_url c) (''Bearer '' @ sr_token r) (st_plaintext (generate_agent bytes)) w =
      (HttpStatus 200 body, w')"
    using assms(3,4) unfolding answers_def by blast
  have "fst (snd (rotate_token_internal sha post now bytes sid db w)) =
      snd (rotate_commit sha now (generate_agent bytes) sid db)"
    unfolding rotate_token_internal_def c sum.case Let_def p by (simp split: prod.split)
  then show ?thesis using assms(1,5)
    by (simp add: settled_def rotate_commit_row due_agent_def due_now_def)
qed

lemma rotate_all_settled:
  "\<forall>k. cutoff \<le> clk k \<Longrightarrow> settled cutoff sid db \<Longrightarrow> settled cutoff sid (fst (rotate_all sha post clk seed i due db w))"
proof (induction due arbitrary: i db w)
  case (Cons d due)
  obtain j name where d: "d = (j, name)" by fastforce
  obtain res db' w' where r: "rotate_token_internal sha post (clk i) (seed i) j db w = (res, db', w')"
    by (metis prod_cases3)
  have "settled cutoff sid db'"
    using rotate_settled [OF _ Cons.prems(2), of "clk i" sha post "seed i" j w] Cons.prems(1) r by simp
  from Cons.IH [OF Cons.prems(1) this] show ?case by (simp add: d r)
qed simp

lemma rotate_all_reaches:
  assumes a: "answers post good" and k: "\<forall>k. cutoff \<le> clk k"
  shows "row_of sid db = Some r \<Longrightarrow> can_rotate r \<Longrightarrow> ''Bearer '' @ sr_token r \<in> good \<Longrightarrow> sid \<in> fst ` set due \<Longrightarrow>
    settled cutoff sid (fst (rotate_all sha post clk seed i due db w))"
proof (induction due arbitrary: i db w)
  case (Cons d due)
  obtain j name where d: "d = (j, name)" by fastforce
  obtain res db' w' where r: "rotate_token_internal sha post (clk i) (seed i) j db w = (res, db', w')"
    by (metis prod_cases3)
  show ?case
  proof (cases "j = sid")
    case True
    have "settled cutoff sid db'"
      using rotate_self [OF Cons.prems(1,2) a Cons.prems(3), of cutoff "clk i" sha "seed i" w] k r True by simp
    then show ?thesis using rotate_all_settled [OF k] by (simp add: d r)
  next
    case False
    then have "row_of sid db' = Some r"
      using rotate_other [of sid j sha post "clk i" "seed i" db w] r Cons.prems(1) by simp
    from Cons.IH [OF this Cons.prems(2,3)] show ?thesis using Cons.prems(4) False by (simp add: d r)
  qed
qed simp

lemma row_of_distinct:
  "distinct (map sr_id (sd_servers db)) \<Longrightarrow> r \<in> set (sd_servers db) \<Longrightarrow> row_of (sr_id r) db = Some r"
proof -
  assume d: "distinct (map sr_id (sd_servers db))" and r: "r \<in> set (sd_servers db)"
  obtain q where q: "row_of (sr_id r) db = Some q" using sql_first_ex [of "\<lambda>x. sr_id x = sr_id r"] r by blast
  have "inj_on sr_id (set (sd_servers db))" using d by (simp add: distinct_map)
  then show ?thesis using q sql_first_Some [OF q] r by (metis inj_onD)
qed

section \<open>Properties\<close>

definition sample_agent :: "string \<Rightarrow> string \<Rightarrow> server" where
  "sample_agent sid tok = (default_server 0 sid (''n'' @ sid) ''agent'')\<lparr>sr_host := ''192.0.2.7'', sr_token := tok\<rparr>"

definition sample_servers :: "server list \<Rightarrow> servers_db" where
  "sample_servers ss = \<lparr>sd_servers = ss, sd_config = None, sd_peers = []\<rparr>"

definition no_facts :: host_facts where
  "no_facts = \<lparr>hf_os = None, hf_cpus = None, hf_memory = None, hf_docker = None, hf_tls = None\<rparr>"

definition sample_pending :: servers_db where
  "sample_pending = sample_servers [(sample_agent ''a'' [])\<lparr>sv_boot := Some ''H'', sv_boot_exp := Some 3600\<rparr>]"

text \<open>C14: a bootstrap token is spent once: after one handshake of a server has gone through, no later
  handshake of that server succeeds, with whatever token, however the other handlers and the update
  halves of concurrent handshakes are interleaved.\<close>

theorem bootstrap_redeemed_once:
  assumes "handshake_commit sha now bytes sid facts h db = (Inr tok, db1)" "server_inv sha (db, I)"
    and "(server_step sha)\<^sup>*\<^sup>* (db1, I) (db2, I2)"
  shows "fst (handshake_commit sha now' bytes' sid facts' h' db2) = Inl Unauthorized \<and>
    (\<exists>e. fst (handshake sha now' bytes' sid facts' raw db2) = Inl e)"
  using spent_refuses [OF spent_runs.run_inv [OF assms(3) commit_spends [OF assms(1,2)]]] by blast

lemma bootstrap_redeemed_once_witness:
  "\<exists>tok db. handshake_commit (\<lambda>s. s) 5 [1] ''a'' no_facts ''H'' sample_pending = (Inr tok, db) \<and>
     fst (handshake_commit (\<lambda>s. s) 6 [2] ''a'' no_facts ''H'' db) = Inl Unauthorized"
proof -
  let ?r = "handshake_commit (\<lambda>s. s) 5 [1] ''a'' no_facts ''H'' sample_pending"
  have c: "?r = (Inr (generate_agent [1]), snd ?r)"
    by (simp add: handshake_commit_def Let_def sample_pending_def sample_servers_def sample_agent_def default_server_def sql_simps)
  have iv: "server_inv (\<lambda>s. s) (sample_pending, {''a''})"
    by (simp add: server_inv_def sample_pending_def sample_servers_def sample_agent_def default_server_def credential_ok_def)
  show ?thesis using bootstrap_redeemed_once [OF c iv rtranclp.rtrancl_refl] c by blast
qed



text \<open>A heartbeat of a row without a hash, resolved before and updated after a rotation of that server,
  stores the hash of the old token beside the new one: from then on the old token is accepted and the
  new one, which the agent has, is refused.\<close>

theorem late_backfill_locks_out:
  "let db = sample_servers [sample_agent ''a'' ''T''];
       new = generate_agent bytes;
       db1 = snd (rotate_commit (\<lambda>s. s) 6 new ''a'' db);
       db2 = snd (heartbeat_update (\<lambda>s. s) 7 ''T'' no_facts (''a'', ''na'', ''pending'', True) db1)
   in heartbeat_resolve (\<lambda>s. s) ''T'' db = Some (''a'', ''na'', ''pending'', True) \<and>
      map sr_token (sd_servers db2) = [st_plaintext new] \<and>
      heartbeat_resolve (\<lambda>s. s) ''T'' db2 \<noteq> None \<and> heartbeat_resolve (\<lambda>s. s) (st_plaintext new) db2 = None"
proof -
  have "st_plaintext (generate_agent bytes) \<noteq> ''T''"
    by (simp add: generate_agent_def generate_with_prefix_def Let_def)
  then show ?thesis
    by (auto simp: Let_def heartbeat_resolve_def heartbeat_update_def rotate_commit_def update_server_def
        sample_servers_def sample_agent_def default_server_def sql_simps)
qed

text \<open>The assignment of the file as systemd documents it, up to the end of its line.\<close>

definition env_of_file :: "string \<Rightarrow> string" where
  "env_of_file s = takeWhile (\<lambda>c. c \<noteq> NL) (drop (length ''PIER_AGENT_TOKEN='') s)"

lemma env_of_file_reads: "reads_back env_of_file"
proof -
  have "NL \<notin> set (st_plaintext (generate_agent bs))" for bs
    using hex_encode_chars [of NL bs] by (auto simp: generate_agent_def generate_with_prefix_def Let_def)
  then have "takeWhile (\<lambda>c. c \<noteq> NL) (st_plaintext (generate_agent bs) @ [NL]) = st_plaintext (generate_agent bs)" for bs
    by (subst takeWhile_append2) auto
  then show ?thesis by (simp add: reads_back_def env_of_file_def agent_file_def)
qed

interpretation agent: token_rotation "agent_install env_of_file" ag_token "\<lambda>a. \<not> ag_exiting a" "\<lambda>_. True"
  by (rule agent_rotation [OF env_of_file_reads])

lemma auth_rotate_status:
  "auth_rotate fault h t a = (rep, a1) \<Longrightarrow> \<exists>code b. rep = HttpStatus code b \<and> (\<not> (200 \<le> code \<and> code < 300) \<longrightarrow> a1 = a)"
  by (auto simp: auth_rotate_def Let_def split: if_splits fs_fault.splits)

lemma rotate_outcome:
  assumes g: "rotate_guard db sid = Inr c"
    and r: "rotate_token_internal sha (post_agent env_token link fault) now bytes sid db a = (res, db', a')"
    and x: "\<not> ag_exiting a" "\<And>e. link \<noteq> ReplyLost e"
  shows "case res of Inr _ \<Rightarrow> credential sid db' = Some (st_plaintext (generate_agent bytes)) | Inl _ \<Rightarrow> db' = db \<and> a' = a"
proof -
  obtain row where row: "sql_first (\<lambda>r. sr_id r = sid) (sd_servers db) = Some row"
    using rotate_guard_row [OF g] by blast
  obtain rep a1 where q: "auth_rotate fault (Some (''Bearer '' @ ac_token c)) (st_plaintext (generate_agent bytes)) a = (rep, a1)"
    by fastforce
  then obtain code b where st: "rep = HttpStatus code b" "\<not> (200 \<le> code \<and> code < 300) \<longrightarrow> a1 = a"
    using auth_rotate_status by blast
  show ?thesis
    using r row x st
    by (auto simp: rotate_token_internal_def g q post_agent_def credential_def rotate_commit_def update_server_def
        sql_first_update_key Let_def agent_restart_def simp del: append.simps
        split: exchange.splits if_splits)
qed

lemma in_collect_due:
  "r \<in> set (sd_servers db) \<Longrightarrow> due_agent cutoff r \<Longrightarrow> sr_id r \<in> fst ` set (collect_due cutoff db)"
  by (force simp: collect_due_def)



text \<open>C12: a rotation keeps the core and the agent on one token as long as its answer is not lost: if it
  succeeds both hold the new token, and if it fails (the call does not reach the agent, the agent refuses,
  its disk fails, or the core's own guards reject it) both are as before.\<close>

theorem rotation_keeps_agreement:
  assumes "reads_back env_token" "\<not> ag_exiting a" "credential sid db = Some (ag_token a)"
    and "rotate_token_internal sha (post_agent env_token link fault) now bytes sid db a = (res, db', a')"
    and "\<And>e. link \<noteq> ReplyLost e"
  shows "credential sid db' = Some (ag_token a') \<and> \<not> ag_exiting a' \<and>
    (case res of Inr _ \<Rightarrow> ag_token a' = st_plaintext (generate_agent bytes) | Inl _ \<Rightarrow> db' = db \<and> a' = a)"
proof (cases "rotate_guard db sid")
  case (Inl e)
  then show ?thesis using assms by (auto simp: rotate_token_internal_def split: prod.splits)
next
  case (Inr c)
  have k: "ac_token c = ag_token a" using rotate_guard_row [OF Inr] assms(3) by (auto simp: credential_def)
  obtain t where t: "credential sid db' = Some t"
      "rotate_link (agent_install env_token) link (bytes, fault) (ag_token a, a) = (t, a')"
    using rotate_refines [OF Inr assms(4)] k by auto
  have "t = ag_token a' \<and> \<not> ag_exiting a'"
    by (rule token_rotation.agreement [OF agent_rotation [OF assms(1)] assms(2) refl TrueI assms(5) t(2)])
  moreover have "case res of Inr _ \<Rightarrow> t = st_plaintext (generate_agent bytes) | Inl _ \<Rightarrow> db' = db \<and> a' = a"
    using rotate_outcome [OF Inr assms(4,2,5)] t(1) by (auto split: sum.splits)
  ultimately show ?thesis using t(1) by (auto split: sum.splits)
qed

lemma rotation_keeps_agreement_witness:
  "\<exists>out db a. rotate_token_internal (\<lambda>s. s) (post_agent env_of_file Delivered NoFault) 9 [7] ''a''
      (sample_servers [sample_agent ''a'' ''T'']) \<lparr>ag_token = ''T'', ag_file = agent_file ''T'', ag_exiting = False\<rparr> =
      (Inr out, db, a) \<and>
     credential ''a'' db = Some (st_plaintext (generate_agent [7])) \<and> ag_token a = st_plaintext (generate_agent [7])"
proof -
  let ?a = "\<lparr>ag_token = ''T'', ag_file = agent_file ''T'', ag_exiting = False\<rparr>"
  let ?r = "rotate_token_internal (\<lambda>s. s) (post_agent env_of_file Delivered NoFault) 9 [7] ''a''
      (sample_servers [sample_agent ''a'' ''T'']) ?a"
  obtain res db a where r: "?r = (res, db, a)" by (metis prod_cases3)
  have m: "token_matches (Some ''Bearer T'') ''T''" by (simp add: token_matches_def strip_prefix_def starts_with_def)
  have "\<exists>out. res = Inr out"
    using r generate_agent_token [of "[7]"]
    by (auto simp: rotate_token_internal_def rotate_guard_def get_server_info_def Let_def sample_servers_def
        sample_agent_def default_server_def sql_simps post_agent_def auth_rotate_def m rotate_commit_def split: if_splits)
  then show ?thesis
    using rotation_keeps_agreement [OF env_of_file_reads _ _ r] r
    by (auto simp: credential_def sample_servers_def sample_agent_def default_server_def sql_simps)
qed

text \<open>The tables as the mesh sees them.\<close>

definition mesh_of :: "servers_db \<Rightarrow> mesh_db" where
  "mesh_of db = \<lparr>config = sd_config db, servers = map server_row.truncate (sd_servers db), peers = sd_peers db, externals = []\<rparr>"

definition contact_of :: "agent_conn \<Rightarrow> contact" where
  "contact_of c = \<lparr>ct_kind = ac_kind c, ct_host = ac_host c, ct_port = ac_port c, ct_token = ac_token c, ct_local = ac_local c\<rparr>"

lemma sql_first_map: "sql_first P (map f xs) = map_option f (sql_first (\<lambda>x. P (f x)) xs)"
  by (induction xs) (simp_all add: sql_simps)

lemma truncate_sel [simp]:
  "sr_id (server_row.truncate r) = sr_id r" "sr_host (server_row.truncate r) = sr_host r"
  "sr_kind (server_row.truncate r) = sr_kind r" "sr_local (server_row.truncate r) = sr_local r"
  "sr_port (server_row.truncate r) = sr_port r" "sr_token (server_row.truncate r) = sr_token r"
  by (simp_all add: server_row.truncate_def)

text \<open>the two lookups of a server's address agree on every state: the one every call of an agent uses and
  the one of the mesh dispatcher find the same servers, and give the same host (the mesh address of an active
  peer while the mesh is on, the stored host otherwise), port, token and kind.\<close>

theorem routes_agree:
  "(case get_server_info db sid of Inl _ \<Rightarrow> None | Inr c \<Rightarrow> Some (contact_of c)) =
   (case lookup_server (mesh_of db) sid of Inl _ \<Rightarrow> None | Inr t \<Rightarrow> Some t)"
proof (cases "row_of sid db")
  case None
  then show ?thesis by (simp add: get_server_info_def lookup_server_def mesh_of_def sql_first_map)
next
  case (Some r)
  show ?thesis
  proof (cases "sr_kind r")
    case None
    then show ?thesis using Some by (simp add: get_server_info_def lookup_server_def mesh_of_def sql_first_map)
  next
    case k: (Some kind)
    show ?thesis
      by (cases "sd_config db"; cases "sql_first (\<lambda>p. wp_server p = sid) (sd_peers db)")
        (auto simp: get_server_info_def lookup_server_def mesh_of_def sql_first_map Some k Let_def contact_of_def)
  qed
qed

text \<open>when only the answer of a rotation is lost, the core keeps the old token while the agent already runs
  on the new one, and no further rotation changes that, although the schedule counts on the next tick to retry:
  every later attempt fails and leaves both sides as they are, over whatever connection.\<close>

theorem lost_answer_locks_out:
  assumes "reads_back env_token" "\<not> ag_exiting a" "credential sid db = Some (ag_token a)" "rotate_guard db sid = Inr c"
    and "st_plaintext (generate_agent bytes) \<noteq> ag_token a"
    and "rotate_token_internal sha (post_agent env_token (ReplyLost e) NoFault) now bytes sid db a = (res, db', a')"
  shows "credential sid db' = Some (ag_token a) \<and> ag_token a' = st_plaintext (generate_agent bytes) \<and>
    (\<exists>err. rotate_token_internal sha (post_agent env_token link fault) now' bytes' sid db' a' = (Inl err, db', a'))"
proof -
  let ?t = "st_plaintext (generate_agent bytes)"
  have k: "ac_token c = ag_token a" "ag_token a \<noteq> []"
    using rotate_guard_row [OF assms(4)] assms(3) by (auto simp: credential_def)
  have m: "token_matches (Some (''Bearer '' @ ag_token a)) (ag_token a)" using k(2) by (simp only: token_matches_bearer) simp
  have q: "auth_rotate NoFault (Some (''Bearer '' @ ag_token a)) ?t a =
      (HttpStatus 200 ''ok'', a\<lparr>ag_file := agent_file ?t, ag_exiting := True\<rparr>)"
    using generate_agent_token [of bytes] m by (simp add: auth_rotate_def Let_def agent_file_def)
  have r: "res = Inl (BadRequest (Te ''errors.servers.agent_unreachable_at'' [(''url'', rotate_url c), (''error'', e)]))"
      "db' = db" "a' = a\<lparr>ag_file := agent_file ?t, ag_exiting := False, ag_token := ?t\<rparr>"
    using assms(6) assms(1)
    by (simp_all only: rotate_token_internal_def assms(4) sum.case Let_def k(1) post_agent_def q)
      (auto simp: agent_restart_def reads_back_def)
  have n: "\<not> token_matches (Some (''Bearer '' @ ag_token a)) ?t" using assms(5) by (simp only: token_matches_bearer) auto
  have q': "auth_rotate fault (Some (''Bearer '' @ ag_token a)) t a' = (HttpStatus 401 ''unauthorized'', a')" for t
    using n by (simp add: auth_rotate_def r(3))
  have "\<exists>err. rotate_token_internal sha (post_agent env_token link fault) now' bytes' sid db' a' = (Inl err, db', a')"
    unfolding r(2) rotate_token_internal_def assms(4) sum.case Let_def k(1) post_agent_def q'
    by (cases link) (simp_all add: agent_restart_def r(3))
  then show ?thesis using assms(3) by (simp add: r)
qed

lemma lost_answer_locks_out_witness:
  "\<exists>res db a. rotate_token_internal (\<lambda>s. s) (post_agent env_of_file (ReplyLost ''timeout'') NoFault) 9 [7] ''a''
      (sample_servers [sample_agent ''a'' ''T'']) \<lparr>ag_token = ''T'', ag_file = agent_file ''T'', ag_exiting = False\<rparr> =
      (res, db, a) \<and> credential ''a'' db = Some ''T'' \<and> ag_token a \<noteq> ''T''"
proof -
  let ?db = "sample_servers [sample_agent ''a'' ''T'']"
  let ?a = "\<lparr>ag_token = ''T'', ag_file = agent_file ''T'', ag_exiting = False\<rparr>"
  have g: "rotate_guard ?db ''a'' = Inr \<lparr>ac_host = ''192.0.2.7'', ac_port = 3001, ac_token = ''T'', ac_local = False,
      ac_kind = ''agent'', ac_tls = None\<rparr>"
    by (simp add: rotate_guard_def get_server_info_def Let_def sample_servers_def sample_agent_def default_server_def sql_simps)
  obtain res db a where r: "rotate_token_internal (\<lambda>s. s) (post_agent env_of_file (ReplyLost ''timeout'') NoFault) 9 [7] ''a''
      ?db ?a = (res, db, a)" by (metis prod_cases3)
  have n: "st_plaintext (generate_agent [7]) \<noteq> ''T''"
    by (simp add: generate_agent_def generate_with_prefix_def Let_def)
  have "credential ''a'' ?db = Some ''T''" by (simp add: credential_def sample_servers_def sample_agent_def default_server_def sql_simps)
  from lost_answer_locks_out [OF env_of_file_reads _ _ g _ r] this n r show ?thesis by auto
qed

text \<open>the update halves of two handlers write by id alone. Two rotations that both read the old token are both
  accepted by the agent before it restarts, and if the core stores them in the other order it keeps a token the
  agent does not run on, although the code expects the race to be detected by the version; and a heartbeat that
  resolved an unhashed row before a rotation finished writes the old token's hash over the new one, after which
  the agent's heartbeats are refused.\<close>

theorem blind_updates_lock_out:
  assumes "inj sha"
  shows "(let a = \<lparr>ag_token = ''T'', ag_file = agent_file ''T'', ag_exiting = False\<rparr>;
       db = sample_servers [sample_agent ''a'' ''T''];
       t1 = generate_agent [1]; t2 = generate_agent [2];
       (r1, a1) = auth_rotate NoFault (Some ''Bearer T'') (st_plaintext t1) a;
       (r2, a2) = auth_rotate NoFault (Some ''Bearer T'') (st_plaintext t2) a1;
       db12 = snd (rotate_commit sha 9 t1 ''a'' (snd (rotate_commit sha 8 t2 ''a'' db)));
       late = snd (heartbeat_update sha 9 ''T'' no_facts (the (heartbeat_resolve sha ''T'' db))
                    (snd (rotate_commit sha 8 t1 ''a'' db)))
     in r1 = HttpStatus 200 ''ok'' \<and> r2 = HttpStatus 200 ''ok'' \<and>
        credential ''a'' db12 = Some (st_plaintext t1) \<and> ag_token (agent_restart env_of_file a2) = st_plaintext t2 \<and>
        st_plaintext t1 \<noteq> st_plaintext t2 \<and>
        heartbeat_resolve sha ''T'' db \<noteq> None \<and> credential ''a'' late = Some (st_plaintext t1) \<and>
        fst (heartbeat sha 10 (st_plaintext t1) no_facts late) = Inl Unauthorized)"
proof -
  have m: "token_matches (Some ''Bearer T'') ''T''" by (simp add: token_matches_def strip_prefix_def starts_with_def)
  have r: "auth_rotate NoFault (Some ''Bearer T'') (st_plaintext (generate_agent bs)) a =
      (HttpStatus 200 ''ok'', a\<lparr>ag_file := agent_file (st_plaintext (generate_agent bs)), ag_exiting := True\<rparr>)"
    if "ag_token a = ''T''" for a bs
    using generate_agent_token [of bs] m that by (simp add: auth_rotate_def Let_def agent_file_def)
  have n: "st_plaintext (generate_agent [1]) \<noteq> st_plaintext (generate_agent [2])"
    by (simp add: generate_agent_def generate_with_prefix_def Let_def hex_encode_inj)
  have o: "sha (st_plaintext (generate_agent [1])) \<noteq> sha ''T''"
    using injD [OF assms, of "st_plaintext (generate_agent [1])" "''T''"]
    by (auto simp: generate_agent_def generate_with_prefix_def Let_def)
  have e: "env_of_file (agent_file (st_plaintext (generate_agent bs))) = st_plaintext (generate_agent bs)" for bs
    using env_of_file_reads by (simp add: reads_back_def)
  show ?thesis
    using n o
    by (simp add: r Let_def credential_def rotate_commit_def update_server_def sample_servers_def sample_agent_def
        default_server_def sql_simps agent_restart_def e heartbeat_resolve_def heartbeat_update_def heartbeat_def) blast
qed

lemma blind_updates_lock_out_witness:
  "fst (heartbeat (\<lambda>s. s) 10 (st_plaintext (generate_agent [1])) no_facts
     (snd (heartbeat_update (\<lambda>s. s) 9 ''T'' no_facts
       (the (heartbeat_resolve (\<lambda>s. s) ''T'' (sample_servers [sample_agent ''a'' ''T''])))
       (snd (rotate_commit (\<lambda>s. s) 8 (generate_agent [1]) ''a'' (sample_servers [sample_agent ''a'' ''T''])))))) = Inl Unauthorized"
  using blind_updates_lock_out [OF inj_on_id2] by (simp add: Let_def split: prod.splits)

end
