(* ===== verification/Federation.thy ===== *)
theory Federation
  imports Servers
begin

text \<open>
  Write federation, on both sides: the tokens a peer mints (api/federation_tokens.rs), the middleware
  that checks them (auth/federation.rs), the handlers a primary reaches with them
  (api/federation_agent.rs), and the primary's lookup and rotation of its token
  (federation/write_client.rs, auth/rotation.rs). Docker is a parameter, and what the handlers ask of
  it is recorded. The lemmas show that a token reaches only the stacks it owns.
\<close>

section \<open>The peer's tables\<close>

record fed_token =
  ft_id :: string
  ft_hash :: string
  ft_prefix :: string
  ft_label :: string
  ft_active :: bool
  ft_created :: time
  ft_used :: "time option"

record stack_row =
  sk_id :: string
  sk_project :: "string option"
  sk_name :: string
  sk_type :: string
  sk_yaml :: "string option"
  sk_status :: string
  sk_owner :: "string option"

datatype docker_op = DownStack string | RemoveStack string | DeployStack string string string

record fed_db =
  fed_tokens :: "fed_token list"
  stacks :: "stack_row list"
  docker_log :: "docker_op list"

text \<open>What Docker answers to a call, which may depend on everything asked before.\<close>

type_synonym docker = "docker_op list \<Rightarrow> docker_op \<Rightarrow> string + string"

definition ask_docker :: "docker \<Rightarrow> docker_op \<Rightarrow> fed_db \<Rightarrow> (string + string) \<times> fed_db" where
  "ask_docker D c db = (D (docker_log db) c, db\<lparr>docker_log := docker_log db @ [c]\<rparr>)"

section \<open>Tokens\<close>

definition fed_generate :: "8 word list \<Rightarrow> server_token" where
  "fed_generate bytes =
     (let plaintext = ''pier_fed_'' @ hex_encode bytes in \<lparr>st_plaintext = plaintext, st_prefix = take 16 plaintext\<rparr>)"

definition fed_create ::
  "(string \<Rightarrow> string) \<Rightarrow> time \<Rightarrow> string \<Rightarrow> 8 word list \<Rightarrow> string \<Rightarrow> fed_db \<Rightarrow> (app_error + server_token) \<times> fed_db" where
  "fed_create sha now uuid bytes raw db =
     (let label = trim raw; issued = fed_generate bytes; token_hash = sha (st_plaintext issued)
      in if label = [] then (Inl (BadRequest (te ''errors.federation_tokens.label_required'')), db)
         else if \<exists>t \<in> set (fed_tokens db). ft_id t = uuid \<or> ft_hash t = token_hash then
           (Inl (DatabaseError ''UNIQUE constraint failed''), db)
         else (Inr issued,
           db\<lparr>fed_tokens := fed_tokens db @
             [\<lparr>ft_id = uuid, ft_hash = token_hash, ft_prefix = st_prefix issued, ft_label = label, ft_active = True,
               ft_created = now, ft_used = None\<rparr>]\<rparr>))"

definition fed_revoke :: "string \<Rightarrow> fed_db \<Rightarrow> (app_error + unit) \<times> fed_db" where
  "fed_revoke i db =
     (if sql_count (\<lambda>t. ft_id t = i) (fed_tokens db) = 0 then
        (Inl (NotFound (Te ''errors.federation_tokens.token_not_found'' [(''v'', i)])), db)
      else (Inr (), db\<lparr>fed_tokens := sql_update (\<lambda>t. ft_id t = i) (\<lambda>t. t\<lparr>ft_active := False\<rparr>) (fed_tokens db)\<rparr>))"

text \<open>The token of a request: the trimmed header if it is not empty, otherwise the first \<open>token\<close>
  parameter of the query that is not empty. \<open>decode\<close> is the URL decoding, which may fail.\<close>

fun query_token :: "(string \<Rightarrow> string option) \<Rightarrow> string list \<Rightarrow> string option" where
  "query_token decode [] = None"
| "query_token decode (pair # rest) =
     (case split_once (CHR ''='') pair of
        None \<Rightarrow> query_token decode rest
      | Some (k, v) \<Rightarrow>
          if k = ''token'' then
            (let decoded = (case decode v of Some d \<Rightarrow> d | None \<Rightarrow> v)
             in if decoded = [] then query_token decode rest else Some decoded)
          else query_token decode rest)"

definition presented_token ::
  "(string \<Rightarrow> string option) \<Rightarrow> string option \<Rightarrow> string option \<Rightarrow> string option" where
  "presented_token decode header query =
     (case non_empty (map_option trim header) of
        Some t \<Rightarrow> Some t
      | None \<Rightarrow> (case query of None \<Rightarrow> None | Some q \<Rightarrow> query_token decode (split_on (CHR ''&'') q)))"

text \<open>\<open>require_federation\<close>: the token's id and label, and the table with its last use.\<close>

definition require_federation ::
  "(string \<Rightarrow> string) \<Rightarrow> (string \<Rightarrow> string option) \<Rightarrow> time \<Rightarrow> string option \<Rightarrow> string option \<Rightarrow> fed_db \<Rightarrow>
   (app_error + string \<times> string) \<times> fed_db" where
  "require_federation sha decode now header query db =
     (case presented_token decode header query of
        None \<Rightarrow> (Inl Unauthorized, db)
      | Some plaintext \<Rightarrow>
          (case sql_first (\<lambda>t. ft_hash t = sha plaintext \<and> ft_active t) (fed_tokens db) of
             None \<Rightarrow> (Inl Unauthorized, db)
           | Some t \<Rightarrow>
               (Inr (ft_id t, ft_label t),
                db\<lparr>fed_tokens := sql_update (\<lambda>x. ft_id x = ft_id t) (\<lambda>x. x\<lparr>ft_used := Some now\<rparr>) (fed_tokens db)\<rparr>)))"

definition fed_rotate ::
  "(string \<Rightarrow> string) \<Rightarrow> 8 word list \<Rightarrow> string \<Rightarrow> fed_db \<Rightarrow> (app_error + server_token) \<times> fed_db" where
  "fed_rotate sha bytes tid db =
     (let issued = fed_generate bytes; h = sha (st_plaintext issued)
      in if \<exists>t \<in> set (fed_tokens db). ft_hash t = h \<and> ft_id t \<noteq> tid then
           (Inl (DatabaseError ''UNIQUE constraint failed''), db)
         else (Inr issued,
           db\<lparr>fed_tokens := sql_update (\<lambda>t. ft_id t = tid)
                (\<lambda>t. t\<lparr>ft_hash := h, ft_prefix := st_prefix issued\<rparr>) (fed_tokens db)\<rparr>))"

section \<open>The stacks of a primary\<close>

definition is_compose :: "string \<Rightarrow> stack_row \<Rightarrow> bool" where
  "is_compose i s \<longleftrightarrow> sk_id s = i \<and> sk_type s = ''compose''"

definition assert_owned :: "fed_db \<Rightarrow> string \<Rightarrow> string \<Rightarrow> app_error + unit" where
  "assert_owned db i tid =
     (case sql_first (is_compose i) (stacks db) of
        None \<Rightarrow> Inl (NotFound (Te ''errors.federation_agent.stack_not_found'' [(''v'', i)]))
      | Some s \<Rightarrow>
          (case sk_owner s of
             Some o' \<Rightarrow> if o' = tid then Inr () else Inl (Conflict (te ''errors.federation_agent.stack_owned_by_other_primary''))
           | None \<Rightarrow> Inl (Conflict (te ''errors.federation_agent.stack_locally_owned''))))"

text \<open>The guard and the row it guards.\<close>

definition owned_stack :: "fed_db \<Rightarrow> string \<Rightarrow> string \<Rightarrow> app_error + stack_row" where
  "owned_stack db i tid =
     (case assert_owned db i tid of
        Inl e \<Rightarrow> Inl e
      | Inr _ \<Rightarrow> (case sql_first (is_compose i) (stacks db) of
                    None \<Rightarrow> Inl (DatabaseError ''QueryReturnedNoRows'') | Some s \<Rightarrow> Inr s))"

definition list_stacks :: "fed_db \<Rightarrow> string \<Rightarrow> (string \<times> string \<times> bool \<times> string) list" where
  "list_stacks db tid =
     map (\<lambda>s. (sk_id s, sk_name s, sk_yaml s \<noteq> None, sk_status s))
       (sort_key sk_name (filter (\<lambda>s. sk_type s = ''compose'' \<and> sk_owner s = Some tid) (stacks db)))"

text \<open>The name is unique within a project; a stack of a primary has no project.\<close>

definition create_stack ::
  "string \<Rightarrow> string \<Rightarrow> string \<Rightarrow> string \<Rightarrow> fed_db \<Rightarrow> (app_error + string) \<times> fed_db" where
  "create_stack uuid raw yaml tid db =
     (if trim raw = [] \<or> trim yaml = [] then
        (Inl (BadRequest (te ''errors.federation_agent.name_and_yaml_required'')), db)
      else if \<exists>s \<in> set (stacks db). sk_id s = uuid \<or> (coalesce (sk_project s) [] = [] \<and> sk_name s = trim raw) then
        (Inl (DatabaseError ''UNIQUE constraint failed''), db)
      else (Inr uuid,
        db\<lparr>stacks := stacks db @ [\<lparr>sk_id = uuid, sk_project = None, sk_name = trim raw, sk_type = ''compose'',
             sk_yaml = Some yaml, sk_status = ''created'', sk_owner = Some tid\<rparr>]\<rparr>))"

definition get_stack :: "string \<Rightarrow> string \<Rightarrow> fed_db \<Rightarrow> app_error + (string \<times> string \<times> string \<times> string)" where
  "get_stack i tid db =
     (case owned_stack db i tid of
        Inl e \<Rightarrow> Inl e
      | Inr s \<Rightarrow> Inr (sk_id s, sk_name s, coalesce (sk_yaml s) [], sk_status s))"

definition update_stack :: "string \<Rightarrow> string \<Rightarrow> string \<Rightarrow> fed_db \<Rightarrow> (app_error + unit) \<times> fed_db" where
  "update_stack i yaml tid db =
     (case assert_owned db i tid of
        Inl e \<Rightarrow> (Inl e, db)
      | Inr _ \<Rightarrow> (Inr (), db\<lparr>stacks := sql_update (is_compose i) (\<lambda>s. s\<lparr>sk_yaml := Some yaml\<rparr>) (stacks db)\<rparr>))"

definition delete_stack :: "docker \<Rightarrow> string \<Rightarrow> string \<Rightarrow> fed_db \<Rightarrow> (app_error + unit) \<times> fed_db" where
  "delete_stack D i tid db =
     (case owned_stack db i tid of
        Inl e \<Rightarrow> (Inl e, db)
      | Inr s \<Rightarrow>
          (let db1 = snd (ask_docker D (DownStack (sk_name s)) db);
               db2 = snd (ask_docker D (RemoveStack (sk_name s)) db1)
           in (Inr (), db2\<lparr>stacks := sql_delete (\<lambda>s. sk_id s = i) (stacks db2)\<rparr>)))"

definition set_status :: "string \<Rightarrow> string \<Rightarrow> fed_db \<Rightarrow> fed_db" where
  "set_status i st db = db\<lparr>stacks := sql_update (\<lambda>s. sk_id s = i) (\<lambda>s. s\<lparr>sk_status := st\<rparr>) (stacks db)\<rparr>"

definition deploy_stack :: "docker \<Rightarrow> string \<Rightarrow> string \<Rightarrow> fed_db \<Rightarrow> (app_error + string) \<times> fed_db" where
  "deploy_stack D i tid db =
     (case owned_stack db i tid of
        Inl e \<Rightarrow> (Inl e, db)
      | Inr s \<Rightarrow>
          (case sk_yaml s of
             None \<Rightarrow> (Inl (BadRequest (te ''errors.federation_agent.stack_no_yaml'')), db)
           | Some yaml \<Rightarrow>
               (case ask_docker D (DeployStack i (sk_name s) yaml) db of
                  (Inl e, db1) \<Rightarrow> (Inl (Internal e), db1)
                | (Inr out, db1) \<Rightarrow> (Inr out, set_status i ''running'' db1))))"

definition down_stack :: "docker \<Rightarrow> string \<Rightarrow> string \<Rightarrow> fed_db \<Rightarrow> (app_error + string) \<times> fed_db" where
  "down_stack D i tid db =
     (case owned_stack db i tid of
        Inl e \<Rightarrow> (Inl e, db)
      | Inr s \<Rightarrow>
          (case ask_docker D (DownStack (sk_name s)) db of
             (Inl e, db1) \<Rightarrow> (Inl (Internal e), db1)
           | (Inr out, db1) \<Rightarrow> (Inr out, set_status i ''stopped'' db1)))"

definition restart_stack :: "docker \<Rightarrow> string \<Rightarrow> string \<Rightarrow> fed_db \<Rightarrow> (app_error + string) \<times> fed_db" where
  "restart_stack D i tid db =
     (case owned_stack db i tid of
        Inl e \<Rightarrow> (Inl e, db)
      | Inr s \<Rightarrow>
          (case sk_yaml s of
             None \<Rightarrow> (Inl (BadRequest (te ''errors.federation_agent.stack_no_yaml'')), db)
           | Some yaml \<Rightarrow>
               (case ask_docker D (DeployStack i (sk_name s) yaml) (snd (ask_docker D (DownStack (sk_name s)) db)) of
                  (Inl e, db1) \<Rightarrow> (Inl (Internal e), db1)
                | (Inr out, db1) \<Rightarrow> (Inr out, set_status i ''running'' db1))))"

definition release_stack :: "string \<Rightarrow> string \<Rightarrow> fed_db \<Rightarrow> (app_error + unit) \<times> fed_db" where
  "release_stack i tid db =
     (case assert_owned db i tid of
        Inl e \<Rightarrow> (Inl e, db)
      | Inr _ \<Rightarrow> (Inr (), db\<lparr>stacks := sql_update (\<lambda>s. sk_id s = i) (\<lambda>s. s\<lparr>sk_owner := None\<rparr>) (stacks db)\<rparr>))"

section \<open>The primary's side\<close>

record write_peer =
  wr_server :: string
  wr_name :: string
  wr_base :: string
  wr_token :: string

definition lookup_write_peer :: "servers_db \<Rightarrow> string \<Rightarrow> write_peer option" where
  "lookup_write_peer db sid =
     (case sql_first (\<lambda>r. sr_id r = sid \<and> sr_kind r = Some ''peer'' \<and> \<not> sr_local r) (sd_servers db) of
        None \<Rightarrow> None
      | Some s \<Rightarrow>
          (case non_empty (sv_fed s) of
             None \<Rightarrow> None
           | Some token \<Rightarrow>
               (let wp = sql_first (\<lambda>p. wp_server p = sid) (sd_peers db);
                    mesh_active = (case sd_config db of None \<Rightarrow> 0 | Some c \<Rightarrow> cr_enabled c) = 1 \<and>
                      map_option wp_status wp = Some ''active'';
                    base = (if mesh_active then
                              ''https://'' @ host_for_url (wp_ip (the wp)) @ '':'' @ show_int (sr_port s)
                            else (case non_empty (sv_url s) of
                                    Some u \<Rightarrow> normalize_peer_url u
                                  | None \<Rightarrow> ''https://'' @ host_for_url (sr_host s) @ '':'' @ show_int (sr_port s)))
                in Some \<lparr>wr_server = sid, wr_name = sr_name s, wr_base = base, wr_token = token\<rparr>)))"

text \<open>A call of a peer's endpoint: the JSON answer's \<open>token\<close> field, or why there is none.\<close>

type_synonym 'w post_peer = "string \<Rightarrow> string \<Rightarrow> 'w \<Rightarrow> (string + string option) \<times> 'w"

definition rotate_federation_token_internal ::
  "'w post_peer \<Rightarrow> time \<Rightarrow> string \<Rightarrow> servers_db \<Rightarrow> 'w \<Rightarrow> (string + string) \<times> servers_db \<times> 'w" where
  "rotate_federation_token_internal post now sid db w =
     (case lookup_write_peer db sid of
        None \<Rightarrow> (Inl (''peer '' @ sid @ '' not paired for federation''), db, w)
      | Some p \<Rightarrow>
          (case post (wr_base p @ ''/api/v1/agent/rotate-token'') (wr_token p) w of
             (Inl e, w1) \<Rightarrow> (Inl e, db, w1)
           | (Inr None, w1) \<Rightarrow> (Inl (''peer '' @ wr_name p @ '' returned no token field''), db, w1)
           | (Inr (Some t), w1) \<Rightarrow>
               (Inr (take 16 t),
                update_server sid (\<lambda>r. r\<lparr>sv_fed := Some t, sv_fed_rotated := Some now, sv_updated := now\<rparr>) db, w1)))"

definition due_federation :: "time \<Rightarrow> server \<Rightarrow> bool" where
  "due_federation cutoff r = (sr_kind r = Some ''peer'' \<and> \<not> sr_local r \<and> non_empty (sv_fed r) \<noteq> None \<and>
     due_now cutoff (sv_fed_rotated r))"

definition federation_key :: "server \<Rightarrow> int \<times> int \<times> string" where
  "federation_key r = (case sv_fed_rotated r of None \<Rightarrow> (0, 0, sr_name r) | Some t \<Rightarrow> (1, t, sr_name r))"

definition collect_due_federation :: "time \<Rightarrow> servers_db \<Rightarrow> (string \<times> string) list" where
  "collect_due_federation cutoff db =
     map (\<lambda>r. (sr_id r, sr_name r)) (sort_key federation_key (filter (due_federation cutoff) (sd_servers db)))"

text \<open>The peer's side of the call, over a connection that delivers or drops the request or the answer.\<close>

definition post_peer ::
  "(string \<Rightarrow> string) \<Rightarrow> (string \<Rightarrow> string option) \<Rightarrow> time \<Rightarrow> 8 word list \<Rightarrow> exchange \<Rightarrow> fed_db post_peer" where
  "post_peer sha decode now bytes link url token db =
     (let (r, db1) = (case require_federation sha decode now (Some token) None db of
                        (Inl e, db') \<Rightarrow> (Inl e, db')
                      | (Inr (tid, label), db') \<Rightarrow> fed_rotate sha bytes tid db');
          reply = (case r of Inl e \<Rightarrow> Inl (''peer returned '' @ dec (status_code e)) | Inr t \<Rightarrow> Inr (Some (st_plaintext t)))
      in case link of
           Unreachable e \<Rightarrow> (Inl e, db)
         | ReplyLost e \<Rightarrow> (Inl e, db1)
         | Delivered \<Rightarrow> (reply, db1))"

section \<open>What one token does\<close>

text \<open>The requests a primary makes with one token, the authenticated id being \<open>tid\<close>.\<close>

inductive fed_step :: "docker \<Rightarrow> string \<Rightarrow> fed_db \<Rightarrow> fed_db \<Rightarrow> bool" for D tid where
  create: "fed_step D tid db (snd (create_stack uuid raw yaml tid db))"
| update: "fed_step D tid db (snd (update_stack i yaml tid db))"
| delete: "fed_step D tid db (snd (delete_stack D i tid db))"
| deploy: "fed_step D tid db (snd (deploy_stack D i tid db))"
| down: "fed_step D tid db (snd (down_stack D i tid db))"
| restart: "fed_step D tid db (snd (restart_stack D i tid db))"
| release: "fed_step D tid db (snd (release_stack i tid db))"
| rotate: "fed_step D tid db (snd (fed_rotate sha bytes tid db))"

inductive_cases fed_stepE: "fed_step D tid db db'"

text \<open>The stacks that are not the token's.\<close>

definition foreign :: "string \<Rightarrow> fed_db \<Rightarrow> stack_row list" where
  "foreign tid db = filter (\<lambda>s. sk_owner s \<noteq> Some tid) (stacks db)"

definition kept :: "stack_row set \<Rightarrow> string \<Rightarrow> fed_db \<Rightarrow> bool" where
  "kept F tid db \<longleftrightarrow> distinct (map sk_id (stacks db)) \<and> F \<subseteq> set (stacks db) \<and> (\<forall>s \<in> F. sk_owner s \<noteq> Some tid)"

lemma assert_owned_row:
  "assert_owned db i tid = Inr x \<Longrightarrow> \<exists>s. sql_first (is_compose i) (stacks db) = Some s \<and> sk_owner s = Some tid \<and> sk_id s = i"
  by (auto simp: assert_owned_def is_compose_def dest!: sql_first_Some split: option.splits if_splits)

lemma owned_stack_row: "owned_stack db i tid = Inr s \<Longrightarrow> \<exists>x. assert_owned db i tid = Inr x"
  by (auto simp: owned_stack_def split: sum.splits)

lemma owned_id:
  assumes "assert_owned db i tid = Inr x" "kept F tid db" "r \<in> F"
  shows "sk_id r \<noteq> i"
proof -
  obtain s where s: "sql_first (is_compose i) (stacks db) = Some s" "sk_owner s = Some tid" "sk_id s = i"
    using assert_owned_row [OF assms(1)] by blast
  have "inj_on sk_id (set (stacks db))" using assms(2) by (simp add: kept_def distinct_map)
  then have "sk_id r = i \<Longrightarrow> r = s"
    using s(3) sql_first_Some [OF s(1)] assms(2,3) by (metis inj_onD kept_def subsetD)
  then show ?thesis using s(2) assms(2,3) by (auto simp: kept_def)
qed

lemma kept_update:
  assumes "kept F tid db" "\<And>r. sk_id (f r) = sk_id r" "\<And>r. r \<in> F \<Longrightarrow> \<not> P r" "stacks db' = sql_update P f (stacks db)"
  shows "kept F tid db'"
proof -
  have "map sk_id (stacks db') = map sk_id (stacks db)" by (simp add: assms(4) map_sql_update assms(2))
  then show ?thesis using assms(1,3) by (auto simp: kept_def assms(4) set_sql_update)
qed

lemma kept_delete:
  "kept F tid db \<Longrightarrow> (\<And>r. r \<in> F \<Longrightarrow> \<not> P r) \<Longrightarrow> stacks db' = sql_delete P (stacks db) \<Longrightarrow> kept F tid db'"
  by (auto simp: kept_def set_sql_delete) (simp add: sql_delete_def distinct_map_filter)

lemma kept_stacks: "stacks db' = stacks db \<Longrightarrow> kept F tid db' = kept F tid db"
  by (simp add: kept_def)

lemma ask_docker_stacks [simp]: "stacks (snd (ask_docker D c db)) = stacks db"
  by (simp add: ask_docker_def)

lemma kept_status:
  "kept F tid db \<Longrightarrow> assert_owned db i tid = Inr x \<Longrightarrow> stacks db1 = stacks db \<Longrightarrow> kept F tid (set_status i st db1)"
  by (rule kept_update [of F tid db "\<lambda>s. s\<lparr>sk_status := st\<rparr>" "\<lambda>s. sk_id s = i"])
    (auto simp: set_status_def owned_id)

lemma kept_step: "fed_step D tid db db' \<Longrightarrow> kept F tid db \<Longrightarrow> kept F tid db'"
proof (erule fed_stepE)
  fix uuid raw yaml assume "kept F tid db" "db' = snd (create_stack uuid raw yaml tid db)"
  then show ?thesis by (auto simp: create_stack_def kept_def)
next
  fix i yaml assume k: "kept F tid db" and e: "db' = snd (update_stack i yaml tid db)"
  show ?thesis
  proof (cases "assert_owned db i tid")
    case (Inr x)
    then show ?thesis using k e owned_id [OF Inr k]
      by (intro kept_update [OF k, of "\<lambda>s. s\<lparr>sk_yaml := Some yaml\<rparr>" "is_compose i"])
        (auto simp: update_stack_def is_compose_def)
  qed (use k e in \<open>simp add: update_stack_def\<close>)
next
  fix i assume k: "kept F tid db" and e: "db' = snd (delete_stack D i tid db)"
  show ?thesis
  proof (cases "owned_stack db i tid")
    case (Inr s)
    then obtain x where o: "assert_owned db i tid = Inr x" using owned_stack_row by blast
    show ?thesis using k e Inr owned_id [OF o k]
      by (intro kept_delete [OF k, of "\<lambda>s. sk_id s = i"]) (auto simp: delete_stack_def Let_def)
  qed (use k e in \<open>simp add: delete_stack_def\<close>)
next
  fix i assume k: "kept F tid db" and e: "db' = snd (deploy_stack D i tid db)"
  show ?thesis
  proof (cases "owned_stack db i tid")
    case (Inr s)
    then obtain x where o: "assert_owned db i tid = Inr x" using owned_stack_row by blast
    have st: "kept F tid (set_status i st db1)" if "stacks db1 = stacks db" for st db1
      by (rule kept_status [OF k o that])
    have same: "kept F tid db1" if "stacks db1 = stacks db" for db1
      using k by (simp only: kept_stacks [OF that])
    show ?thesis
    proof (cases "sk_yaml s")
      case (Some yaml)
      then show ?thesis unfolding e deploy_stack_def Inr sum.case ask_docker_def
        by (cases "D (docker_log db) (DeployStack i (sk_name s) yaml)") (simp_all add: st same)
    qed (simp add: e deploy_stack_def Inr k)
  qed (use k e in \<open>simp add: deploy_stack_def\<close>)
next
  fix i assume k: "kept F tid db" and e: "db' = snd (down_stack D i tid db)"
  show ?thesis
  proof (cases "owned_stack db i tid")
    case (Inr s)
    then obtain x where o: "assert_owned db i tid = Inr x" using owned_stack_row by blast
    have st: "kept F tid (set_status i st db1)" if "stacks db1 = stacks db" for st db1
      by (rule kept_status [OF k o that])
    have same: "kept F tid db1" if "stacks db1 = stacks db" for db1
      using k by (simp only: kept_stacks [OF that])
    show ?thesis unfolding e down_stack_def Inr sum.case ask_docker_def
      by (cases "D (docker_log db) (DownStack (sk_name s))") (simp_all add: st same)
  qed (use k e in \<open>simp add: down_stack_def\<close>)
next
  fix i assume k: "kept F tid db" and e: "db' = snd (restart_stack D i tid db)"
  show ?thesis
  proof (cases "owned_stack db i tid")
    case (Inr s)
    then obtain x where o: "assert_owned db i tid = Inr x" using owned_stack_row by blast
    have st: "kept F tid (set_status i st db1)" if "stacks db1 = stacks db" for st db1
      by (rule kept_status [OF k o that])
    have same: "kept F tid db1" if "stacks db1 = stacks db" for db1
      using k by (simp only: kept_stacks [OF that])
    show ?thesis
    proof (cases "sk_yaml s")
      case (Some yaml)
      then show ?thesis unfolding e restart_stack_def Inr sum.case ask_docker_def
        by (cases "D (docker_log db @ [DownStack (sk_name s)]) (DeployStack i (sk_name s) yaml)") (simp_all add: st same)
    qed (simp add: e restart_stack_def Inr k)
  qed (use k e in \<open>simp add: restart_stack_def\<close>)
next
  fix i assume k: "kept F tid db" and e: "db' = snd (release_stack i tid db)"
  show ?thesis
  proof (cases "assert_owned db i tid")
    case (Inr x)
    then show ?thesis using k e owned_id [OF Inr k]
      by (intro kept_update [OF k, of "\<lambda>s. s\<lparr>sk_owner := None\<rparr>" "\<lambda>s. sk_id s = i"]) (auto simp: release_stack_def)
  qed (use k e in \<open>simp add: release_stack_def\<close>)
next
  fix sha :: "string \<Rightarrow> string" and bytes assume "kept F tid db" "db' = snd (fed_rotate sha bytes tid db)"
  then show ?thesis by (simp add: fed_rotate_def Let_def kept_def)
qed

interpretation fed_runs: invariant_system "fed_step D tid" "kept F tid" for D tid F
  by unfold_locales (rule kept_step)

section \<open>Properties\<close>

definition sample_stack :: "string \<Rightarrow> string \<Rightarrow> string option \<Rightarrow> string option \<Rightarrow> stack_row" where
  "sample_stack i n p ow = \<lparr>sk_id = i, sk_project = p, sk_name = n, sk_type = ''compose'', sk_yaml = Some ''services:'',
     sk_status = ''running'', sk_owner = ow\<rparr>"

definition sample_fed :: fed_db where
  "sample_fed = \<lparr>fed_tokens = [], stacks = [sample_stack ''L'' ''web'' (Some ''p'') None], docker_log = []\<rparr>"



text \<open>the answers tell a stack the peer manages itself from one that does not exist, although the ownership
  guard is documented not to leak the peer's own stack ids by way of differing error codes; and since Docker is
  addressed by stack name while names are unique only within a project, a token that creates and deletes a stack
  named like the peer's own one tears that one down and removes its directory.\<close>

theorem foreign_stacks_exposed:
  "get_stack ''L'' ''T'' sample_fed = Inl (Conflict (te ''errors.federation_agent.stack_locally_owned'')) \<and>
   get_stack ''X'' ''T'' sample_fed = Inl (NotFound (Te ''errors.federation_agent.stack_not_found'' [(''v'', ''X'')])) \<and>
   (let (r, db1) = create_stack ''N'' ''web'' ''services:'' ''T'' sample_fed;
        (r2, db2) = delete_stack (\<lambda>l c. Inr []) ''N'' ''T'' db1
    in r = Inr ''N'' \<and> r2 = Inr () \<and> stacks db2 = stacks sample_fed \<and>
       docker_log db2 = [DownStack ''web'', RemoveStack ''web''])"
  by code_simp

lemma fed_generate_trim: "trim (st_plaintext (fed_generate bs)) = st_plaintext (fed_generate bs)"
  "st_plaintext (fed_generate bs) \<noteq> []"
proof -
  let ?t = "st_plaintext (fed_generate bs)"
  have e: "?t = ''pier_fed_'' @ hex_encode bs" by (simp add: fed_generate_def Let_def)
  have "\<not> is_ws c" if "c \<in> set ?t" for c
    using that hex_encode_chars [of c bs] by (auto simp: e is_ws_def)
  then show "trim ?t = ?t" by (intro trim_id) (simp add: e)
  show "?t \<noteq> []" by (simp add: e)
qed

lemma presented_header: "trim t \<noteq> [] \<Longrightarrow> presented_token decode (Some t) q = Some (trim t)"
  by (simp add: presented_token_def non_empty_def)

lemma fed_rotate_authenticates:
  assumes u: "distinct (map ft_id (fed_tokens db))" and t: "t \<in> set (fed_tokens db)" "ft_active t"
    and r: "fed_rotate sha bytes (ft_id t) db = (Inr issued, db')"
  shows "fst (require_federation sha decode now (Some (st_plaintext issued)) q db') = Inr (ft_id t, ft_label t)"
proof -
  have i: "issued = fed_generate bytes" using r by (auto simp: fed_rotate_def Let_def split: if_splits)
  let ?h = "sha (st_plaintext (fed_generate bytes))"
  let ?f = "\<lambda>x. x\<lparr>ft_hash := ?h, ft_prefix := st_prefix (fed_generate bytes)\<rparr>"
  have rows: "fed_tokens db' = sql_update (\<lambda>x. ft_id x = ft_id t) ?f (fed_tokens db)"
    and no: "\<forall>x \<in> set (fed_tokens db). ft_hash x = ?h \<longrightarrow> ft_id x = ft_id t"
    using r by (auto simp: fed_rotate_def Let_def split: if_splits)
  have mem: "?f t \<in> set (fed_tokens db')" using t(1) by (auto simp: rows set_sql_update image_iff intro!: bexI [of _ t])
  then obtain x where x: "sql_first (\<lambda>x. ft_hash x = ?h \<and> ft_active x) (fed_tokens db') = Some x"
    using sql_first_ex [of "\<lambda>x. ft_hash x = ?h \<and> ft_active x" "fed_tokens db'"] t(2) by force
  have "ft_id x = ft_id t \<and> ft_label x = ft_label t"
  proof -
    obtain y where y: "y \<in> set (fed_tokens db)" "x = (if ft_id y = ft_id t then ?f y else y)"
      using sql_first_Some [OF x] unfolding rows set_sql_update by blast
    have id: "ft_id y = ft_id t" using y no sql_first_Some [OF x] by (auto split: if_splits)
    have "inj_on ft_id (set (fed_tokens db))" using u by (simp add: distinct_map)
    then have "y = t" using y(1) t(1) id by (metis inj_onD)
    then show ?thesis using y(2) by simp
  qed
  then show ?thesis using x fed_generate_trim [of bytes] by (simp add: require_federation_def i presented_header)
qed

text \<open>when a federation rotation goes through, the token the primary stores is one the peer accepts, as the same
  primary as before: the two sides stay paired.\<close>

theorem federation_stays_paired:
  assumes "lookup_write_peer db sid = Some p"
    and "require_federation sha decode now (Some (wr_token p)) None w = (Inr (tid, label), w1)"
    and "distinct (map ft_id (fed_tokens w))"
    and "rotate_federation_token_internal (post_peer sha decode now bytes Delivered) now sid db w = (Inr shown, db', w')"
  shows "\<exists>row t. row_of sid db' = Some row \<and> sv_fed row = Some t \<and> shown = take 16 t \<and>
    fst (require_federation sha decode now' (Some t) None w') = Inr (tid, label)"
proof -
  obtain tok where tok: "tok \<in> set (fed_tokens w)" "ft_active tok" "ft_id tok = tid" "ft_label tok = label"
    and w1: "fed_tokens w1 = sql_update (\<lambda>x. ft_id x = tid) (\<lambda>x. x\<lparr>ft_used := Some now\<rparr>) (fed_tokens w)"
    using assms(2) by (auto simp: require_federation_def dest!: sql_first_Some split: option.splits)
  have d: "distinct (map ft_id (fed_tokens w1))" using assms(3) by (simp add: w1 map_sql_update)
  have m: "tok\<lparr>ft_used := Some now\<rparr> \<in> set (fed_tokens w1)"
    using tok by (auto simp: w1 set_sql_update image_iff intro!: bexI [of _ tok])
  obtain issued where f: "fed_rotate sha bytes tid w1 = (Inr issued, w')" and s: "shown = take 16 (st_plaintext issued)"
    and db': "db' = update_server sid (\<lambda>r. r\<lparr>sv_fed := Some (st_plaintext issued), sv_fed_rotated := Some now, sv_updated := now\<rparr>) db"
    using assms(4) by (auto simp: rotate_federation_token_internal_def assms(1,2) post_peer_def Let_def
        split: sum.splits prod.splits)
  have "fst (require_federation sha decode now' (Some (st_plaintext issued)) None w') = Inr (tid, label)"
    using fed_rotate_authenticates [OF d m, of sha bytes issued w' decode now' None] f tok by simp
  moreover have "\<exists>r. row_of sid db = Some r"
    using assms(1) sql_first_ex [of "\<lambda>r. sr_id r = sid" "sd_servers db"]
    by (auto simp: lookup_write_peer_def dest!: sql_first_Some split: option.splits)
  ultimately show ?thesis by (auto simp: db' row_of_update s)
qed

definition sample_paired :: servers_db where
  "sample_paired = sample_servers [(default_server 0 ''s'' ''vps'' ''peer'')\<lparr>sv_url := Some ''https://vps'', sv_fed := Some ''F''\<rparr>]"

definition sample_peer_core :: fed_db where
  "sample_peer_core = \<lparr>fed_tokens = [\<lparr>ft_id = ''t'', ft_hash = ''F'', ft_prefix = [], ft_label = ''main'', ft_active = True,
     ft_created = 0, ft_used = None\<rparr>], stacks = [], docker_log = []\<rparr>"

lemma federation_stays_paired_witness:
  "\<exists>shown db w. rotate_federation_token_internal (post_peer (\<lambda>s. s) Some 5 [3] Delivered) 5 ''s'' sample_paired sample_peer_core =
      (Inr shown, db, w) \<and>
     (\<exists>row t. row_of ''s'' db = Some row \<and> sv_fed row = Some t \<and>
        fst (require_federation (\<lambda>s. s) Some 6 (Some t) None w) = Inr (''t'', ''main''))"
proof -
  have l: "lookup_write_peer sample_paired ''s'' =
      Some \<lparr>wr_server = ''s'', wr_name = ''vps'', wr_base = ''https://vps'', wr_token = ''F''\<rparr>"
    by (simp add: lookup_write_peer_def sample_paired_def sample_servers_def default_server_def sql_simps non_empty_def
        normalize_peer_url_def strip_prefix_def starts_with_def)
  have "trim ''F'' = ''F''" by code_simp
  then obtain w1 where q: "require_federation (\<lambda>s. s) Some 5 (Some ''F'') None sample_peer_core = (Inr (''t'', ''main''), w1)"
    by (simp add: require_federation_def presented_header sample_peer_core_def sql_simps)
  let ?r = "rotate_federation_token_internal (post_peer (\<lambda>s. s) Some 5 [3] Delivered) 5 ''s'' sample_paired sample_peer_core"
  obtain res db w where r: "?r = (res, db, w)" by (metis prod_cases3)
  have "fed_tokens w1 = [\<lparr>ft_id = ''t'', ft_hash = ''F'', ft_prefix = [], ft_label = ''main'', ft_active = True,
     ft_created = 0, ft_used = Some 5\<rparr>]"
    using q \<open>trim ''F'' = ''F''\<close> by (auto simp: require_federation_def presented_header sample_peer_core_def sql_simps)
  then have "\<exists>shown. res = Inr shown"
    using r by (auto simp: rotate_federation_token_internal_def l post_peer_def q fed_rotate_def Let_def)
  then obtain shown where s: "?r = (Inr shown, db, w)" using r by auto
  have "distinct (map ft_id (fed_tokens sample_peer_core))" by (simp add: sample_peer_core_def)
  from federation_stays_paired [OF l _ this s, of "''t''" "''main''" w1 6] q s show ?thesis by auto
qed

end
