(* ===== verification/Tasks.thy ===== *)
theory Tasks
  imports Servers Json
begin

text \<open>
  Ad-hoc tasks, on both sides. The core (tasks/models.rs, tasks/executor.rs, tasks/recover.rs,
  api/tasks.rs) inserts a run, starts it on the agent of a server, polls it until it ends, cancels it
  and resumes it after a restart; the agent (pier-agent shell.rs) runs the command, keeps its output in
  bounded buffers and answers with snapshots of it. The transport, the clock and the serialisation of
  JSON are arguments. The lemmas show that every run of the core is accounted for along every
  interleaving, that a poller ends, what the buffers hold, and how the two sides can disagree.
\<close>

section \<open>Rows\<close>

record task_template =
  tt_id :: string
  tt_name :: string
  tt_description :: "string option"
  tt_command :: string
  tt_timeout :: int
  tt_env :: string
  tt_by :: string
  tt_created :: time
  tt_updated :: time

record task_run =
  tr_id :: string
  tr_template :: "string option"
  tr_server :: string
  tr_batch :: "string option"
  tr_command :: string
  tr_env :: string
  tr_timeout :: int
  tr_status :: string
  tr_exit :: "int option"
  tr_stdout :: string
  tr_stderr :: string
  tr_agent :: "string option"
  tr_by :: string
  tr_error :: "string option"
  tr_started :: time
  tr_finished :: "time option"

record task_db =
  td_templates :: "task_template list"
  td_runs :: "task_run list"
  td_servers :: servers_db

definition is_terminal :: "string \<Rightarrow> bool" where
  "is_terminal s = (s \<in> {''success'', ''failed'', ''cancelled'', ''timeout'', ''unreachable''})"

definition update_run :: "string \<Rightarrow> (task_run \<Rightarrow> bool) \<Rightarrow> (task_run \<Rightarrow> task_run) \<Rightarrow> task_db \<Rightarrow> task_db" where
  "update_run i P f db = db\<lparr>td_runs := sql_update (\<lambda>r. tr_id r = i \<and> P r) f (td_runs db)\<rparr>"

definition template_get :: "task_db \<Rightarrow> string \<Rightarrow> task_template option" where
  "template_get db i = sql_first (\<lambda>t. tt_id t = i) (td_templates db)"

definition run_get :: "task_db \<Rightarrow> string \<Rightarrow> task_run option" where
  "run_get db i = sql_first (\<lambda>r. tr_id r = i) (td_runs db)"

definition clamp_int :: "int \<Rightarrow> int \<Rightarrow> int \<Rightarrow> int" where
  "clamp_int lo hi x = max lo (min hi x)"

text \<open>The filters are optional; the newest runs first.\<close>

definition run_list :: "task_db \<Rightarrow> string option \<Rightarrow> string option \<Rightarrow> string option \<Rightarrow> int \<Rightarrow> task_run list" where
  "run_list db server template state limit =
     take (nat (clamp_int 1 500 limit))
       (rev (sort_key tr_started
         (rev (filter (\<lambda>r. (server = None \<or> server = Some (tr_server r)) \<and>
                  (template = None \<or> (tr_template r \<noteq> None \<and> template = tr_template r)) \<and>
                  (state = None \<or> state = Some (tr_status r))) (td_runs db)))))"

definition run_insert_pending ::
  "time \<Rightarrow> string \<Rightarrow> string \<Rightarrow> string option \<Rightarrow> string option \<Rightarrow> string \<Rightarrow> string \<Rightarrow> int \<Rightarrow> string \<Rightarrow>
   task_db \<Rightarrow> string + task_db" where
  "run_insert_pending now uuid server template batch command env_json timeout_sec by db =
     (if \<exists>r \<in> set (td_runs db). tr_id r = uuid then Inl ''UNIQUE constraint failed''
      else if \<not> (\<exists>s \<in> set (sd_servers (td_servers db)). sr_id s = server) \<or>
              (case template of None \<Rightarrow> False | Some t \<Rightarrow> template_get db t = None)
        then Inl ''FOREIGN KEY constraint failed''
      else Inr (db\<lparr>td_runs := td_runs db @
        [\<lparr>tr_id = uuid, tr_template = template, tr_server = server, tr_batch = batch, tr_command = command,
          tr_env = env_json, tr_timeout = timeout_sec, tr_status = ''pending'', tr_exit = None, tr_stdout = [],
          tr_stderr = [], tr_agent = None, tr_by = by, tr_error = None, tr_started = now, tr_finished = None\<rparr>]\<rparr>))"

definition run_update_snapshot ::
  "time \<Rightarrow> string \<Rightarrow> string option \<Rightarrow> string \<Rightarrow> int option \<Rightarrow> string \<Rightarrow> string \<Rightarrow> bool \<Rightarrow> string option \<Rightarrow>
   task_db \<Rightarrow> task_db" where
  "run_update_snapshot now i agent_run new_status exit_code out err finished msg =
     update_run i (\<lambda>r. True)
       (if finished then
          (\<lambda>r. r\<lparr>tr_agent := keep agent_run (tr_agent r), tr_status := new_status, tr_exit := exit_code,
                  tr_stdout := out, tr_stderr := err, tr_error := msg,
                  tr_finished := keep (tr_finished r) (Some now)\<rparr>)
        else
          (\<lambda>r. r\<lparr>tr_agent := keep agent_run (tr_agent r),
                  tr_status := (if is_terminal (tr_status r) then tr_status r else new_status),
                  tr_stdout := out, tr_stderr := err\<rparr>))"

definition run_mark_unreachable :: "time \<Rightarrow> string \<Rightarrow> string \<Rightarrow> task_db \<Rightarrow> task_db" where
  "run_mark_unreachable now i msg =
     update_run i (\<lambda>r. \<not> is_terminal (tr_status r))
       (\<lambda>r. r\<lparr>tr_status := ''unreachable'', tr_error := Some msg,
               tr_finished := keep (tr_finished r) (Some now)\<rparr>)"

definition run_mark_cancelled :: "time \<Rightarrow> string \<Rightarrow> task_db \<Rightarrow> task_db" where
  "run_mark_cancelled now i =
     update_run i (\<lambda>r. tr_status r = ''pending'' \<or> tr_status r = ''running'')
       (\<lambda>r. r\<lparr>tr_status := ''cancelled'', tr_finished := keep (tr_finished r) (Some now)\<rparr>)"

definition list_active_runs :: "task_db \<Rightarrow> task_run list" where
  "list_active_runs db = filter (\<lambda>r. tr_status r = ''pending'' \<or> tr_status r = ''running'') (td_runs db)"

section \<open>Templates\<close>

record template_request =
  tq_name :: "string option"
  tq_description :: "string option"
  tq_command :: "string option"
  tq_timeout :: "int option"
  tq_env :: "json btree option"

text \<open>Creating needs a name and a command; \<open>ser\<close> is the serialisation of a JSON object.\<close>

definition templates_create ::
  "(json btree \<Rightarrow> string) \<Rightarrow> time \<Rightarrow> string \<Rightarrow> string \<Rightarrow> string \<Rightarrow> string \<Rightarrow> template_request \<Rightarrow> task_db \<Rightarrow>
   (app_error + string) \<times> task_db" where
  "templates_create ser now uuid by raw_name raw_command q db =
     (let name = trim raw_name; command = trim raw_command
      in if name = [] then (Inl (BadRequest (te ''errors.tasks.name_required'')), db)
         else if command = [] then (Inl (BadRequest (te ''errors.tasks.command_required'')), db)
         else if \<exists>t \<in> set (td_templates db). tt_name t = name then
           (Inl (Conflict (Te ''errors.tasks.template_name_exists'' [(''v'', name)])), db)
         else if \<exists>t \<in> set (td_templates db). tt_id t = uuid then
           (Inl (Internal ''insert template: UNIQUE constraint failed''), db)
         else (Inr uuid, db\<lparr>td_templates := td_templates db @
           [\<lparr>tt_id = uuid, tt_name = name, tt_description = tq_description q, tt_command = command,
             tt_timeout = clamp_int 1 86400 (coalesce (tq_timeout q) 1800),
             tt_env = ser (coalesce (tq_env q) []), tt_by = by, tt_created = now, tt_updated = now\<rparr>]\<rparr>))"

definition update_template :: "string \<Rightarrow> (task_template \<Rightarrow> task_template) \<Rightarrow> task_db \<Rightarrow> task_db" where
  "update_template i f db = db\<lparr>td_templates := sql_update (\<lambda>t. tt_id t = i) f (td_templates db)\<rparr>"

definition set_if ::
  "time \<Rightarrow> string \<Rightarrow> 'v option \<Rightarrow> ('v \<Rightarrow> task_template \<Rightarrow> task_template) \<Rightarrow> task_db \<Rightarrow> task_db" where
  "set_if now i x f db =
     (case x of None \<Rightarrow> db | Some v \<Rightarrow> update_template i (\<lambda>t. (f v t)\<lparr>tt_updated := now\<rparr>) db)"

text \<open>One statement for each field that is given; the first that fails ends the handler; only the
  name, which comes first, can fail.\<close>

definition templates_update ::
  "(json btree \<Rightarrow> string) \<Rightarrow> time \<Rightarrow> string \<Rightarrow> template_request \<Rightarrow> task_db \<Rightarrow> (app_error + unit) \<times> task_db" where
  "templates_update ser now i q db =
     (let clash = (case tq_name q of None \<Rightarrow> False | Some n \<Rightarrow>
            (\<exists>t \<in> set (td_templates db). tt_id t = i) \<and>
            (\<exists>t \<in> set (td_templates db). tt_id t \<noteq> i \<and> tt_name t = trim n))
      in if clash then (Inl (DatabaseError ''UNIQUE constraint failed''), db)
         else
           (let db1 = set_if now i (map_option trim (tq_name q)) (\<lambda>v t. t\<lparr>tt_name := v\<rparr>) db;
                db2 = set_if now i (tq_description q) (\<lambda>v t. t\<lparr>tt_description := Some v\<rparr>) db1;
                db3 = set_if now i (map_option trim (tq_command q)) (\<lambda>v t. t\<lparr>tt_command := v\<rparr>) db2;
                db4 = set_if now i (map_option (\<lambda>v. clamp_int 1 86400 v) (tq_timeout q))
                        (\<lambda>v t. t\<lparr>tt_timeout := v\<rparr>) db3;
                db5 = set_if now i (map_option ser (tq_env q)) (\<lambda>v t. t\<lparr>tt_env := v\<rparr>) db4
            in (Inr (), db5)))"

text \<open>Deleting clears the reference of its runs.\<close>

definition templates_delete :: "string \<Rightarrow> task_db \<Rightarrow> task_db" where
  "templates_delete i db =
     db\<lparr>td_templates := sql_delete (\<lambda>t. tt_id t = i) (td_templates db),
        td_runs := sql_update (\<lambda>r. tr_template r = Some i) (\<lambda>r. r\<lparr>tr_template := None\<rparr>) (td_runs db)\<rparr>"

section \<open>The executor\<close>

text \<open>The calls of the agent: starting gets the connection, the command, the timeout and the environment
  and answers with the id of the run or an error; the others get the connection and that id.\<close>

record agent_snapshot =
  as_run :: string
  as_status :: string
  as_exit :: "int option"
  as_stdout :: string
  as_stderr :: string
  as_finished :: "int option"
  as_error :: "string option"

record 'w agent_calls =
  ca_start :: "agent_conn \<Rightarrow> string \<Rightarrow> int \<Rightarrow> json btree \<Rightarrow> 'w \<Rightarrow> (string + string) \<times> 'w"
  ca_snapshot :: "agent_conn \<Rightarrow> string \<Rightarrow> 'w \<Rightarrow> (string + agent_snapshot) \<times> 'w"
  ca_cancel :: "agent_conn \<Rightarrow> string \<Rightarrow> 'w \<Rightarrow> (string + unit) \<times> 'w"

record start_spec =
  ss_server :: string
  ss_template :: "string option"
  ss_command :: string
  ss_env :: "json btree"
  ss_timeout :: int
  ss_by :: string

text \<open>A poller: the run, its server, the id on the agent and the failures so far.\<close>

record driver =
  dv_task :: string
  dv_server :: string
  dv_agent :: string
  dv_failures :: nat

definition MAX_POLL_FAILURES :: nat where
  "MAX_POLL_FAILURES = 6"

definition finalize_unreachable :: "time \<Rightarrow> string \<Rightarrow> string \<Rightarrow> task_db \<Rightarrow> task_db" where
  "finalize_unreachable now i msg db = run_mark_unreachable now i msg db"

text \<open>\<open>start_run\<close> takes the lock three times: it inserts the run, looks the server up and either marks
  the run unreachable or calls the agent, and then records the agent's id.\<close>

definition start_insert ::
  "(json btree \<Rightarrow> string) \<Rightarrow> time \<Rightarrow> string \<Rightarrow> start_spec \<Rightarrow> task_db \<Rightarrow> app_error + task_db" where
  "start_insert ser now uuid spec db =
     (case run_insert_pending now uuid (ss_server spec) (ss_template spec) None (ss_command spec)
             (ser (ss_env spec)) (ss_timeout spec) (ss_by spec) db of
        Inl e \<Rightarrow> Inl (Internal (''insert task_run: '' @ e))
      | Inr db' \<Rightarrow> Inr db')"

definition start_route :: "task_db \<Rightarrow> string \<Rightarrow> app_error + (string + agent_conn)" where
  "start_route db server =
     (case get_server_info (td_servers db) server of
        Inl e \<Rightarrow> Inl e
      | Inr c \<Rightarrow>
          if ac_kind c = ''peer'' then Inr (Inl ''tasks not supported on peer servers'')
          else if ac_local c \<or> ac_host c = [] then
            Inr (Inl ''tasks on the local server require a running pier-agent'')
          else Inr (Inr c))"

definition start_ack :: "string \<Rightarrow> string \<Rightarrow> task_db \<Rightarrow> task_db" where
  "start_ack i agent_run =
     update_run i (\<lambda>r. True) (\<lambda>r. r\<lparr>tr_agent := Some agent_run, tr_status := ''running''\<rparr>)"

definition start_run ::
  "(json btree \<Rightarrow> string) \<Rightarrow> 'w agent_calls \<Rightarrow> time \<Rightarrow> string \<Rightarrow> start_spec \<Rightarrow> task_db \<Rightarrow> 'w \<Rightarrow>
   (app_error + string \<times> driver option) \<times> task_db \<times> 'w" where
  "start_run ser calls now uuid spec db w =
     (case start_insert ser now uuid spec db of
        Inl e \<Rightarrow> (Inl e, db, w)
      | Inr db1 \<Rightarrow>
          (case start_route db1 (ss_server spec) of
             Inl e \<Rightarrow> (Inl e, db1, w)
           | Inr (Inl msg) \<Rightarrow> (Inr (uuid, None), finalize_unreachable now uuid msg db1, w)
           | Inr (Inr c) \<Rightarrow>
               (case ca_start calls c (ss_command spec) (ss_timeout spec) (ss_env spec) w of
                  (Inl e, w1) \<Rightarrow>
                    (Inr (uuid, None), finalize_unreachable now uuid (''agent unreachable: '' @ e) db1, w1)
                | (Inr agent_run, w1) \<Rightarrow>
                    (Inr (uuid, Some \<lparr>dv_task = uuid, dv_server = ss_server spec, dv_agent = agent_run,
                                    dv_failures = 0\<rparr>),
                     start_ack uuid agent_run db1, w1))))"

text \<open>One iteration of a poller; \<open>None\<close> when it ends.\<close>

definition poll_failed :: "time \<Rightarrow> driver \<Rightarrow> string \<Rightarrow> task_db \<Rightarrow> driver option \<times> task_db" where
  "poll_failed now d msg db =
     (if MAX_POLL_FAILURES \<le> Suc (dv_failures d)
      then (None, finalize_unreachable now (dv_task d) msg db)
      else (Some (d\<lparr>dv_failures := Suc (dv_failures d)\<rparr>), db))"

text \<open>What an iteration does with its answer, an error or a snapshot, under the second lock.\<close>

definition poll_apply :: "time \<Rightarrow> driver \<Rightarrow> string + agent_snapshot \<Rightarrow> task_db \<Rightarrow> driver option \<times> task_db" where
  "poll_apply now d reply db =
     (case reply of
        Inl msg \<Rightarrow> poll_failed now d msg db
      | Inr snap \<Rightarrow>
          (let finished = is_terminal (as_status snap) \<or> as_finished snap \<noteq> None;
               db' = run_update_snapshot now (dv_task d) (Some (as_run snap)) (as_status snap) (as_exit snap)
                       (as_stdout snap) (as_stderr snap) finished (as_error snap) db
           in (if finished then None else Some (d\<lparr>dv_failures := 0\<rparr>), db')))"

definition poll_once ::
  "'w agent_calls \<Rightarrow> time \<Rightarrow> driver \<Rightarrow> task_db \<Rightarrow> 'w \<Rightarrow> (driver option \<times> task_db) \<times> 'w" where
  "poll_once calls now d db w =
     (case get_server_info (td_servers db) (dv_server d) of
        Inl e \<Rightarrow> (poll_apply now d (Inl ''server lookup failed'') db, w)
      | Inr c \<Rightarrow>
          (case ca_snapshot calls c (dv_agent d) w of
             (Inl e, w1) \<Rightarrow> (poll_apply now d (Inl (''agent unreachable: '' @ e)) db, w1)
           | (Inr snap, w1) \<Rightarrow> (poll_apply now d (Inr snap) db, w1)))"

text \<open>The loop of a poller over the times of its iterations; the first result is the poller left over.\<close>

fun drive ::
  "'w agent_calls \<Rightarrow> time list \<Rightarrow> driver \<Rightarrow> task_db \<Rightarrow> 'w \<Rightarrow> driver option \<times> task_db \<times> 'w" where
  "drive calls [] d db w = (Some d, db, w)"
| "drive calls (now # nows) d db w =
     (case poll_once calls now d db w of
        ((None, db'), w') \<Rightarrow> (None, db', w')
      | ((Some d', db'), w') \<Rightarrow> drive calls nows d' db' w')"

definition cancel_mark :: "time \<Rightarrow> string \<Rightarrow> task_db \<Rightarrow> (app_error + string \<times> string option) \<times> task_db" where
  "cancel_mark now i db =
     (case run_get db i of
        None \<Rightarrow> (Inl (NotFound (te ''errors.executor.task_run_not_found'')), db)
      | Some r \<Rightarrow>
          if is_terminal (tr_status r) then
            (Inl (Conflict (Te ''errors.executor.task_already_status'' [(''v'', tr_status r)])), db)
          else (Inr (tr_server r, tr_agent r), run_mark_cancelled now i db))"

definition cancel_run ::
  "'w agent_calls \<Rightarrow> time \<Rightarrow> string \<Rightarrow> task_db \<Rightarrow> 'w \<Rightarrow> (app_error + unit) \<times> task_db \<times> 'w" where
  "cancel_run calls now i db w =
     (case cancel_mark now i db of
        (Inl e, db1) \<Rightarrow> (Inl e, db1, w)
      | (Inr (server, None), db1) \<Rightarrow> (Inr (), db1, w)
      | (Inr (server, Some agent_run), db1) \<Rightarrow>
          (case get_server_info (td_servers db1) server of
             Inl e \<Rightarrow> (Inl e, db1, w)
           | Inr c \<Rightarrow> (Inr (), db1, snd (ca_cancel calls c agent_run w))))"

section \<open>Starting from the API\<close>

record run_request =
  rq_server :: string
  rq_template :: "string option"
  rq_command :: "string option"
  rq_env :: "json btree option"
  rq_timeout :: "int option"

definition run_with ::
  "(json btree \<Rightarrow> string) \<Rightarrow> 'w agent_calls \<Rightarrow> time \<Rightarrow> string \<Rightarrow> start_spec \<Rightarrow> task_db \<Rightarrow> 'w \<Rightarrow>
   (app_error + string \<times> driver option) \<times> task_db \<times> 'w" where
  "run_with ser calls now uuid spec db w =
     start_run ser calls now uuid (spec\<lparr>ss_timeout := clamp_int 1 86400 (ss_timeout spec)\<rparr>) db w"

text \<open>An inline command wins over the template's; \<open>parse\<close> reads a stored JSON object, and one that
  cannot be read counts as empty.\<close>

definition runs_start ::
  "(json btree \<Rightarrow> string) \<Rightarrow> (string \<Rightarrow> json btree option) \<Rightarrow> 'w agent_calls \<Rightarrow> time \<Rightarrow> string \<Rightarrow> string \<Rightarrow>
   run_request \<Rightarrow> task_db \<Rightarrow> 'w \<Rightarrow> (app_error + string \<times> driver option) \<times> task_db \<times> 'w" where
  "runs_start ser parse calls now uuid by q db w =
     (let resolved =
        (case rq_template q of
           None \<Rightarrow> Some ([], [], 1800)
         | Some i \<Rightarrow> map_option (\<lambda>t. (tt_command t, coalesce (parse (tt_env t)) [], tt_timeout t)) (template_get db i))
      in case resolved of
           None \<Rightarrow> (Inl (NotFound (te ''errors.tasks.template_not_found'')), db, w)
         | Some (template_command, env, timeout) \<Rightarrow>
             (let inline = trim (coalesce (rq_command q) []);
                  command = (if inline \<noteq> [] then inline else template_command)
              in if command = [] then
                   (Inl (BadRequest (te ''errors.tasks.template_or_command_required'')), db, w)
                 else run_with ser calls now uuid
                        \<lparr>ss_server = rq_server q, ss_template = rq_template q, ss_command = command,
                         ss_env = coalesce (rq_env q) env, ss_timeout = coalesce (rq_timeout q) timeout, ss_by = by\<rparr>
                        db w))"

section \<open>Recovery\<close>

text \<open>\<open>run_on_boot\<close>: an active run with an agent id gets a new poller, one without is unreachable.\<close>

fun recover_runs :: "time \<Rightarrow> task_run list \<Rightarrow> task_db \<Rightarrow> driver list \<times> task_db" where
  "recover_runs now [] db = ([], db)"
| "recover_runs now (r # rs) db =
     (case tr_agent r of
        Some agent_run \<Rightarrow>
          (let (ds, db') = recover_runs now rs db
           in (\<lparr>dv_task = tr_id r, dv_server = tr_server r, dv_agent = agent_run, dv_failures = 0\<rparr> # ds, db'))
      | None \<Rightarrow>
          recover_runs now rs
            (run_mark_unreachable now (tr_id r) ''core restarted before agent acknowledged'' db))"

definition run_on_boot :: "time \<Rightarrow> task_db \<Rightarrow> driver list \<times> task_db" where
  "run_on_boot now db = recover_runs now (list_active_runs db) db"

section \<open>Every run is accounted for\<close>

text \<open>The core as a transition system: the tables, the runs being started and the pollers. A start, a
  poll and a cancellation interleave freely; a restart loses the starts and the pollers. A poll acts
  when its answer is there, whatever happened since it asked. What the agent answers is arbitrary but for the status, which is running or a final one, as every
  answer of \<open>get_run\<close> of the agent is (\<open>get_run_known\<close> of Shell). If \<open>torn\<close>, the agent may also read
  its fields across the end of the run and report a running run with a finish, as the agent of this
  repository can; otherwise its snapshots are consistent: one that has finished is terminal.\<close>

record exec_state =
  ex_db :: task_db
  ex_starting :: "(string \<times> string) list"
  ex_drivers :: "driver list"

definition sane :: "agent_snapshot \<Rightarrow> bool" where
  "sane snap \<longleftrightarrow> (if as_finished snap = None then as_status snap = ''running'' \<or> is_terminal (as_status snap)
                else is_terminal (as_status snap))"

definition known_status :: "agent_snapshot \<Rightarrow> bool" where
  "known_status snap \<longleftrightarrow> as_status snap = ''running'' \<or> is_terminal (as_status snap)"

definition answer_ok :: "bool \<Rightarrow> agent_snapshot \<Rightarrow> bool" where
  "answer_ok torn snap \<longleftrightarrow> known_status snap \<and> (torn \<or> sane snap)"

text \<open>A snapshot that ends a poller, and one that does not.\<close>

lemma answer_cases:
  assumes "answer_ok torn snap"
  shows "is_terminal (as_status snap) \<or> as_finished snap \<noteq> None \<Longrightarrow>
      is_terminal (as_status snap) \<or> torn \<and> as_status snap = ''running''"
    and "\<not> (is_terminal (as_status snap) \<or> as_finished snap \<noteq> None) \<Longrightarrow> as_status snap = ''running''"
  using assms by (auto simp: answer_ok_def known_status_def sane_def split: if_splits)

text \<open>Other handlers keep the servers that runs refer to, as the foreign key demands, and give every
  server a kind.\<close>

definition keeps_servers :: "task_db \<Rightarrow> servers_db \<Rightarrow> bool" where
  "keeps_servers db s \<longleftrightarrow> (\<forall>r \<in> set (td_runs db). tr_server r \<in> sr_id ` set (sd_servers s)) \<and>
     (\<forall>x \<in> set (sd_servers s). sr_kind x \<noteq> None)"

definition drop_server :: "string \<Rightarrow> task_db \<Rightarrow> task_db" where
  "drop_server sid db =
     (case remove_server sid (td_servers db) of
        (Inl e, s) \<Rightarrow> db
      | (Inr _, s) \<Rightarrow> db\<lparr>td_servers := s, td_runs := sql_delete (\<lambda>r. tr_server r = sid) (td_runs db)\<rparr>)"

inductive exec_step :: "bool \<Rightarrow> exec_state \<Rightarrow> exec_state \<Rightarrow> bool" for torn where
  begin_start: "start_insert ser now uuid spec (ex_db s) = Inr db \<Longrightarrow>
    exec_step torn s (s\<lparr>ex_db := db, ex_starting := (uuid, ss_server spec) # ex_starting s\<rparr>)"
| start_lost: "(i, server) \<in> set (ex_starting s) \<Longrightarrow> start_route (ex_db s) server = Inl e \<Longrightarrow>
    exec_step torn s (s\<lparr>ex_starting := remove1 (i, server) (ex_starting s)\<rparr>)"
| start_fails: "(i, server) \<in> set (ex_starting s) \<Longrightarrow>
    exec_step torn s (s\<lparr>ex_db := finalize_unreachable now i msg (ex_db s),
                   ex_starting := remove1 (i, server) (ex_starting s)\<rparr>)"
| start_acked: "(i, server) \<in> set (ex_starting s) \<Longrightarrow>
    exec_step torn s (s\<lparr>ex_db := start_ack i agent_run (ex_db s),
                   ex_starting := remove1 (i, server) (ex_starting s),
                   ex_drivers := \<lparr>dv_task = i, dv_server = server, dv_agent = agent_run, dv_failures = 0\<rparr> # ex_drivers s\<rparr>)"
| polls: "d \<in> set (ex_drivers s) \<Longrightarrow> pred_sum (\<lambda>_. True) (answer_ok torn) reply \<Longrightarrow>
    poll_apply now d reply (ex_db s) = (rest, db) \<Longrightarrow>
    exec_step torn s (s\<lparr>ex_db := db,
                   ex_drivers := (case rest of None \<Rightarrow> [] | Some d' \<Rightarrow> [d']) @ remove1 d (ex_drivers s)\<rparr>)"
| cancels: "exec_step torn s (s\<lparr>ex_db := snd (cancel_mark now i (ex_db s))\<rparr>)"
| restarts: "run_on_boot now (ex_db s) = (ds, db) \<Longrightarrow>
    exec_step torn s \<lparr>ex_db = db, ex_starting = [], ex_drivers = ds\<rparr>"
| creates_template: "exec_step torn s (s\<lparr>ex_db := snd (templates_create ser now uuid by name command q (ex_db s))\<rparr>)"
| updates_template: "exec_step torn s (s\<lparr>ex_db := snd (templates_update ser now i q (ex_db s))\<rparr>)"
| deletes_template: "exec_step torn s (s\<lparr>ex_db := templates_delete i (ex_db s)\<rparr>)"
| drops_server: "exec_step torn s (s\<lparr>ex_db := drop_server sid (ex_db s)\<rparr>)"
| other_handlers: "keeps_servers (ex_db s) srv \<Longrightarrow> exec_step torn s (s\<lparr>ex_db := (ex_db s)\<lparr>td_servers := srv\<rparr>\<rparr>)"

inductive_cases exec_stepE: "exec_step torn s t"

text \<open>A run has settled when it has ended or, where snapshots may be torn, it is left as running with a finish. A run is
  accounted for when it has settled, or is pending and being started, or has a poller.\<close>

definition settled_row :: "bool \<Rightarrow> task_run \<Rightarrow> bool" where
  "settled_row torn r \<longleftrightarrow> is_terminal (tr_status r) \<or> torn \<and> tr_status r = ''running'' \<and> tr_finished r \<noteq> None"

definition accounted :: "bool \<Rightarrow> (string \<times> string) list \<Rightarrow> driver list \<Rightarrow> task_run \<Rightarrow> bool" where
  "accounted torn starting ds r \<longleftrightarrow>
     settled_row torn r \<or>
     (tr_status r = ''pending'' \<and> (tr_id r, tr_server r) \<in> set starting) \<or>
     ((tr_status r = ''pending'' \<or> tr_status r = ''running'') \<and> tr_id r \<in> dv_task ` set ds)"

definition exec_inv :: "bool \<Rightarrow> exec_state \<Rightarrow> bool" where
  "exec_inv torn s \<longleftrightarrow> distinct (map tr_id (td_runs (ex_db s))) \<and>
     keeps_servers (ex_db s) (td_servers (ex_db s)) \<and>
     (\<forall>r \<in> set (td_runs (ex_db s)). accounted torn (ex_starting s) (ex_drivers s) r)"

lemma terminal_not_active: "is_terminal st \<Longrightarrow> st \<noteq> ''pending'' \<and> st \<noteq> ''running''"
  by (auto simp: is_terminal_def)

lemma keeps_servers_runs:
  "(\<And>r. r \<in> set (td_runs db') \<Longrightarrow> \<exists>q \<in> set (td_runs db). tr_server r = tr_server q) \<Longrightarrow>
   td_servers db' = td_servers db \<Longrightarrow> keeps_servers db s \<Longrightarrow> keeps_servers db' s"
  unfolding keeps_servers_def by (metis (no_types))

text \<open>An update of runs by a function that keeps their ids and servers.\<close>

definition keeps_ids :: "(task_run \<Rightarrow> task_run) \<Rightarrow> bool" where
  "keeps_ids f \<longleftrightarrow> (\<forall>r. tr_id (f r) = tr_id r \<and> tr_server (f r) = tr_server r)"

lemma exec_inv_update:
  assumes "exec_inv torn s" "keeps_ids f"
    and "\<And>r. r \<in> set (td_runs (ex_db s)) \<Longrightarrow> P r \<Longrightarrow> accounted torn starting ds (f r)"
    and "\<And>r. r \<in> set (td_runs (ex_db s)) \<Longrightarrow> \<not> P r \<Longrightarrow> accounted torn starting ds r"
  shows "exec_inv torn \<lparr>ex_db = (ex_db s)\<lparr>td_runs := sql_update P f (td_runs (ex_db s))\<rparr>,
     ex_starting = starting, ex_drivers = ds\<rparr>"
proof -
  have "map tr_id (sql_update P f (td_runs (ex_db s))) = map tr_id (td_runs (ex_db s))"
    using assms(2) by (intro map_sql_update) (simp add: keeps_ids_def)
  moreover have "keeps_servers ((ex_db s)\<lparr>td_runs := sql_update P f (td_runs (ex_db s))\<rparr>) (td_servers (ex_db s))"
  proof (rule keeps_servers_runs [of _ "ex_db s"])
    show "keeps_servers (ex_db s) (td_servers (ex_db s))" using assms(1) by (simp add: exec_inv_def)
    show "\<exists>q \<in> set (td_runs (ex_db s)). tr_server r = tr_server q"
      if "r \<in> set (td_runs ((ex_db s)\<lparr>td_runs := sql_update P f (td_runs (ex_db s))\<rparr>))" for r
      using in_sql_update [of r P f "td_runs (ex_db s)"] that assms(2) by (auto simp: keeps_ids_def)
  qed simp
  moreover have "accounted torn starting ds r" if "r \<in> set (sql_update P f (td_runs (ex_db s)))" for r
    using in_sql_update [OF that] assms(3,4) by blast
  ultimately show ?thesis using assms(1) by (simp add: exec_inv_def)
qed

lemma accounted_more:
  "accounted torn starting ds r \<Longrightarrow> set starting \<subseteq> set starting' \<Longrightarrow> dv_task ` set ds \<subseteq> dv_task ` set ds' \<Longrightarrow>
   accounted torn starting' ds' r"
  unfolding accounted_def by blast

lemma exec_inv_run:
  assumes "exec_inv torn s" "r \<in> set (td_runs (ex_db s))"
  shows "accounted torn (ex_starting s) (ex_drivers s) r"
  using assms by (simp add: exec_inv_def)

lemma accounted_terminal: "is_terminal (tr_status r) \<Longrightarrow> accounted torn starting ds r"
  by (simp add: accounted_def settled_row_def)

lemma accounted_settled: "settled_row torn r \<Longrightarrow> accounted torn starting ds r"
  by (simp add: accounted_def)

lemma start_insert_inv:
  assumes "exec_inv torn s" "start_insert ser now uuid spec (ex_db s) = Inr db"
  shows "exec_inv torn (s\<lparr>ex_db := db, ex_starting := (uuid, ss_server spec) # ex_starting s\<rparr>)"
proof -
  obtain row where row: "td_runs db = td_runs (ex_db s) @ [row]" "tr_id row = uuid" "tr_server row = ss_server spec"
      "tr_status row = ''pending''" "td_servers db = td_servers (ex_db s)"
    using assms(2) by (auto simp: start_insert_def run_insert_pending_def split: if_splits)
  have fresh: "uuid \<notin> tr_id ` set (td_runs (ex_db s))"
    and known: "ss_server spec \<in> sr_id ` set (sd_servers (td_servers (ex_db s)))"
    using assms(2)
    by (auto simp: start_insert_def run_insert_pending_def split: if_splits intro: rev_image_eqI)
  have "keeps_servers db (td_servers db)"
    using assms(1) row known by (auto simp: exec_inv_def keeps_servers_def)
  moreover have "accounted torn ((uuid, ss_server spec) # ex_starting s) (ex_drivers s) r" if "r \<in> set (td_runs db)" for r
  proof (cases "r = row")
    case True
    then show ?thesis using row by (simp add: accounted_def)
  next
    case False
    then show ?thesis
      using that row(1) by (intro accounted_more [OF exec_inv_run [OF assms(1)]]) auto
  qed
  ultimately show ?thesis using assms(1) fresh row by (simp add: exec_inv_def)
qed

lemma route_known:
  assumes "exec_inv torn s" "r \<in> set (td_runs (ex_db s))"
  shows "\<exists>x. start_route (ex_db s) (tr_server r) = Inr x"
proof -
  have k: "tr_server r \<in> sr_id ` set (sd_servers (td_servers (ex_db s)))"
    "\<forall>x \<in> set (sd_servers (td_servers (ex_db s))). sr_kind x \<noteq> None"
    using assms by (auto simp: exec_inv_def keeps_servers_def)
  then obtain x where x: "sql_first (\<lambda>x. sr_id x = tr_server r) (sd_servers (td_servers (ex_db s))) = Some x"
    by (fastforce simp: sql_first_None dest: option.exhaust [of "sql_first _ _"])
  then have "sr_kind x \<noteq> None" using k(2) sql_first_Some [OF x] by blast
  then show ?thesis using x by (auto simp: start_route_def get_server_info_def Let_def)
qed

lemma start_lost_inv:
  assumes "exec_inv torn s" "start_route (ex_db s) server = Inl e"
  shows "exec_inv torn (s\<lparr>ex_starting := remove1 (i, server) (ex_starting s)\<rparr>)"
proof -
  have "accounted torn (remove1 (i, server) (ex_starting s)) (ex_drivers s) r" if r: "r \<in> set (td_runs (ex_db s))" for r
  proof -
    have "tr_server r \<noteq> server" using route_known [OF assms(1) r] assms(2) by auto
    then show ?thesis using exec_inv_run [OF assms(1) r] by (auto simp: accounted_def)
  qed
  then show ?thesis using assms(1) by (simp add: exec_inv_def)
qed

lemma start_fails_inv:
  assumes "exec_inv torn s"
  shows "exec_inv torn (s\<lparr>ex_db := finalize_unreachable now i msg (ex_db s),
    ex_starting := remove1 (i, server) (ex_starting s)\<rparr>)"
proof -
  have "accounted torn (remove1 (i, server) (ex_starting s)) (ex_drivers s) r"
    if "r \<in> set (td_runs (ex_db s))" "\<not> (tr_id r = i \<and> \<not> is_terminal (tr_status r))" for r
    using exec_inv_run [OF assms that(1)] that(2) by (auto simp: accounted_def dest: terminal_not_active)
  from exec_inv_update [OF assms _ _ this, where P = "\<lambda>r. tr_id r = i \<and> \<not> is_terminal (tr_status r)" and f = "\<lambda>r. r\<lparr>tr_status := ''unreachable'', tr_error := Some msg,
      tr_finished := keep (tr_finished r) (Some now)\<rparr>"]
  show ?thesis
    by (cases s) (simp add: finalize_unreachable_def run_mark_unreachable_def update_run_def keeps_ids_def
        accounted_terminal is_terminal_def [of "''unreachable''"])
qed

lemma start_acked_inv:
  assumes "exec_inv torn s"
  shows "exec_inv torn (s\<lparr>ex_db := start_ack i agent_run (ex_db s), ex_starting := remove1 (i, server) (ex_starting s),
    ex_drivers := \<lparr>dv_task = i, dv_server = server, dv_agent = agent_run, dv_failures = 0\<rparr> # ex_drivers s\<rparr>)"
proof -
  let ?d = "\<lparr>dv_task = i, dv_server = server, dv_agent = agent_run, dv_failures = 0\<rparr>"
  have "accounted torn (remove1 (i, server) (ex_starting s)) (?d # ex_drivers s) r"
    if "r \<in> set (td_runs (ex_db s))" "\<not> (tr_id r = i \<and> True)" for r
    using exec_inv_run [OF assms that(1)] that(2) by (auto simp: accounted_def)
  from exec_inv_update [OF assms _ _ this, where P = "\<lambda>r. tr_id r = i \<and> True" and f = "\<lambda>r. r\<lparr>tr_agent := Some agent_run, tr_status := ''running''\<rparr>"]
  show ?thesis by (cases s) (simp add: start_ack_def update_run_def keeps_ids_def accounted_def [of _ _ _ "_\<lparr>tr_agent := _, tr_status := _\<rparr>"])
qed

text \<open>A poll that goes on leaves the row alone or updates it by a snapshot that is still running; one
  that ends leaves the row terminal.\<close>

lemma poll_apply_cases:
  assumes "poll_apply now d reply db = (rest, db')" "pred_sum (\<lambda>_. True) (answer_ok torn) reply"
  obtains (goes_on) d' where "rest = Some d'" "dv_task d' = dv_task d" "db' = db"
  | (gives_up) msg where "rest = None" "db' = run_mark_unreachable now (dv_task d) msg db"
  | (running) d' and snap :: agent_snapshot where "rest = Some d'" "dv_task d' = dv_task d"
      "db' = run_update_snapshot now (dv_task d) (Some (as_run snap)) ''running'' (as_exit snap)
               (as_stdout snap) (as_stderr snap) False (as_error snap) db"
  | (ended) snap :: agent_snapshot where "rest = None" "is_terminal (as_status snap) \<or> torn \<and> as_status snap = ''running''"
      "db' = run_update_snapshot now (dv_task d) (Some (as_run snap)) (as_status snap) (as_exit snap)
               (as_stdout snap) (as_stderr snap) True (as_error snap) db"
proof (cases reply)
  case (Inl msg)
  then show ?thesis
    using assms(1) goes_on gives_up
    by (auto simp: poll_apply_def poll_failed_def finalize_unreachable_def split: if_splits)
next
  case (Inr snap)
  then have sn: "answer_ok torn snap" using assms(2) by simp
  show ?thesis
  proof (cases "is_terminal (as_status snap) \<or> as_finished snap \<noteq> None")
    case True
    then have "is_terminal (as_status snap) \<or> torn \<and> as_status snap = ''running''" by (rule answer_cases(1) [OF sn])
    then show ?thesis
      using assms(1) Inr True by (intro ended [of snap]) (auto simp: poll_apply_def Let_def)
  next
    case False
    then have "as_status snap = ''running''" by (rule answer_cases(2) [OF sn])
    then show ?thesis
      using assms(1) Inr False by (intro running [of "d\<lparr>dv_failures := 0\<rparr>" snap]) (auto simp: poll_apply_def Let_def)
  qed
qed

lemma poll_inv:
  assumes "exec_inv torn s" "d \<in> set (ex_drivers s)"
    and "pred_sum (\<lambda>_. True) (answer_ok torn) reply" "poll_apply now d reply (ex_db s) = (rest, db)"
  shows "exec_inv torn (s\<lparr>ex_db := db,
    ex_drivers := (case rest of None \<Rightarrow> [] | Some d' \<Rightarrow> [d']) @ remove1 d (ex_drivers s)\<rparr>)"
proof -
  let ?ds = "(case rest of None \<Rightarrow> [] | Some d' \<Rightarrow> [d']) @ remove1 d (ex_drivers s)"
  have drv: "dv_task ` set (ex_drivers s) \<subseteq> insert (dv_task d) (dv_task ` set (remove1 d (ex_drivers s)))"
  proof
    fix i
    assume "i \<in> dv_task ` set (ex_drivers s)"
    then obtain x where "x \<in> set (ex_drivers s)" "i = dv_task x" by blast
    then show "i \<in> insert (dv_task d) (dv_task ` set (remove1 d (ex_drivers s)))"
      by (cases "x = d") auto
  qed
  have other: "accounted torn (ex_starting s) ?ds r" if "r \<in> set (td_runs (ex_db s))" "tr_id r \<noteq> dv_task d" for r
    using exec_inv_run [OF assms(1) that(1)] that(2) drv by (auto simp: accounted_def)
  have same: "accounted torn (ex_starting s) (d' # remove1 d (ex_drivers s)) r"
    if "r \<in> set (td_runs (ex_db s))" "dv_task d' = dv_task d" for r d'
    using exec_inv_run [OF assms(1) that(1)] that(2) drv by (auto simp: accounted_def)
  from assms(4) assms(3) show ?thesis
  proof (cases rule: poll_apply_cases)
    case (goes_on d')
    then show ?thesis using same assms(1) by (simp add: exec_inv_def)
  next
    case (gives_up msg)
    have "accounted torn (ex_starting s) ?ds r"
      if "r \<in> set (td_runs (ex_db s))" "\<not> (tr_id r = dv_task d \<and> \<not> is_terminal (tr_status r))" for r
      using that other accounted_terminal by blast
    from exec_inv_update [OF assms(1) _ _ this, where P = "\<lambda>r. tr_id r = dv_task d \<and> \<not> is_terminal (tr_status r)"
        and f = "\<lambda>r. r\<lparr>tr_status := ''unreachable'', tr_error := Some msg, tr_finished := keep (tr_finished r) (Some now)\<rparr>"]
    show ?thesis using gives_up
      by (cases s) (simp add: run_mark_unreachable_def update_run_def keeps_ids_def accounted_terminal
          is_terminal_def [of "''unreachable''"])
  next
    case (running d' snap)
    let ?f = "\<lambda>r. r\<lparr>tr_agent := keep (Some (as_run snap)) (tr_agent r),
      tr_status := (if is_terminal (tr_status r) then tr_status r else ''running''),
      tr_stdout := as_stdout snap, tr_stderr := as_stderr snap\<rparr>"
    have "accounted torn (ex_starting s) ?ds (?f r)" if "tr_id r = dv_task d" for r
      using that running(1,2) by (simp add: accounted_def settled_row_def)
    from exec_inv_update [OF assms(1) _ this other, where P = "\<lambda>r. tr_id r = dv_task d \<and> True"]
    show ?thesis using running
      by (cases s) (simp add: run_update_snapshot_def update_run_def keeps_ids_def)
  next
    case (ended snap)
    let ?f = "\<lambda>r. r\<lparr>tr_agent := keep (Some (as_run snap)) (tr_agent r), tr_status := as_status snap,
      tr_exit := as_exit snap, tr_stdout := as_stdout snap, tr_stderr := as_stderr snap,
      tr_error := as_error snap, tr_finished := keep (tr_finished r) (Some now)\<rparr>"
    have "accounted torn (ex_starting s) ?ds (?f r)" for r
      using ended(2) by (intro accounted_settled) (auto simp: settled_row_def keep_def split: option.split)
    from exec_inv_update [OF assms(1) _ this other, where P = "\<lambda>r. tr_id r = dv_task d \<and> True"]
    show ?thesis using ended by (cases s) (simp add: run_update_snapshot_def update_run_def keeps_ids_def)
  qed
qed

lemma cancel_inv: "exec_inv torn s \<Longrightarrow> exec_inv torn (s\<lparr>ex_db := snd (cancel_mark now i (ex_db s))\<rparr>)"
proof -
  assume inv: "exec_inv torn s"
  let ?P = "\<lambda>r. tr_id r = i \<and> (tr_status r = ''pending'' \<or> tr_status r = ''running'')"
  let ?f = "\<lambda>r. r\<lparr>tr_status := ''cancelled'', tr_finished := keep (tr_finished r) (Some now)\<rparr>"
  have "exec_inv torn (s\<lparr>ex_db := run_mark_cancelled now i (ex_db s)\<rparr>)"
    using exec_inv_update [OF inv, of ?f ?P "ex_starting s" "ex_drivers s"] exec_inv_run [OF inv]
    by (cases s) (simp add: run_mark_cancelled_def update_run_def keeps_ids_def accounted_terminal
        is_terminal_def [of "''cancelled''"])
  then show ?thesis using inv by (cases s) (auto simp: cancel_mark_def split: option.split)
qed

lemma recover_facts:
  "recover_runs now rs db = (ds, db') \<Longrightarrow>
   td_servers db' = td_servers db \<and> map tr_id (td_runs db') = map tr_id (td_runs db) \<and>
   map tr_server (td_runs db') = map tr_server (td_runs db) \<and>
   (\<forall>r \<in> set (td_runs db'). is_terminal (tr_status r) \<or>
      (r \<in> set (td_runs db) \<and> (\<forall>q \<in> set rs. tr_id q = tr_id r \<longrightarrow> tr_agent q \<noteq> None))) \<and>
   (\<forall>q \<in> set rs. tr_agent q \<noteq> None \<longrightarrow> tr_id q \<in> dv_task ` set ds)"
proof (induction rs arbitrary: db ds)
  case (Cons q rs)
  show ?case
  proof (cases "tr_agent q")
    case None
    let ?db = "run_mark_unreachable now (tr_id q) ''core restarted before agent acknowledged'' db"
    have "is_terminal (tr_status r) \<or> (r \<in> set (td_runs db) \<and> tr_id r \<noteq> tr_id q)" if "r \<in> set (td_runs ?db)" for r
      using that by (auto simp: run_mark_unreachable_def update_run_def set_sql_update
          is_terminal_def [of "''unreachable''"])
    moreover have "map tr_id (td_runs ?db) = map tr_id (td_runs db)"
      "map tr_server (td_runs ?db) = map tr_server (td_runs db)" "td_servers ?db = td_servers db"
      by (simp_all add: run_mark_unreachable_def update_run_def map_sql_update)
    ultimately show ?thesis
      using Cons.IH [of ?db ds] Cons.prems None by simp (metis None)
  next
    case (Some a)
    then obtain ds1 where "recover_runs now rs db = (ds1, db')"
      "ds = \<lparr>dv_task = tr_id q, dv_server = tr_server q, dv_agent = a, dv_failures = 0\<rparr> # ds1"
      using Cons.prems by (auto split: prod.splits)
    then show ?thesis using Cons.IH [of db ds1] Some by auto
  qed
qed simp

lemma boot_inv:
  assumes "exec_inv torn s" "run_on_boot now (ex_db s) = (ds, db)"
  shows "exec_inv torn \<lparr>ex_db = db, ex_starting = [], ex_drivers = ds\<rparr>"
proof -
  note facts = recover_facts [OF assms(2) [unfolded run_on_boot_def]]
  have "keeps_servers db (td_servers (ex_db s))"
  proof (rule keeps_servers_runs)
    show "keeps_servers (ex_db s) (td_servers (ex_db s))" using assms(1) by (simp add: exec_inv_def)
    show "\<exists>q \<in> set (td_runs (ex_db s)). tr_server r = tr_server q" if "r \<in> set (td_runs db)" for r
      using facts that by (metis imageE image_eqI list.set_map)
  qed (use facts in simp)
  moreover have "accounted torn [] ds r" if r: "r \<in> set (td_runs db)" for r
  proof (cases "is_terminal (tr_status r)")
    case False
    then have old: "r \<in> set (td_runs (ex_db s))"
      "\<forall>q \<in> set (list_active_runs (ex_db s)). tr_id q = tr_id r \<longrightarrow> tr_agent q \<noteq> None"
      using facts r by blast+
    have act: "tr_status r = ''pending'' \<or> tr_status r = ''running''"
      using exec_inv_run [OF assms(1) old(1)] False by (auto simp: accounted_def settled_row_def)
    from act have "r \<in> set (list_active_runs (ex_db s))" using old(1) by (simp add: list_active_runs_def)
    then have "tr_id r \<in> dv_task ` set ds" using old(2) facts by simp
    then show ?thesis using act by (simp add: accounted_def)
  qed (rule accounted_terminal)
  ultimately show ?thesis using assms(1) facts by (simp add: exec_inv_def)
qed

lemma exec_inv_servers:
  assumes "exec_inv torn s" "td_runs db = td_runs (ex_db s)" "keeps_servers db (td_servers db)"
  shows "exec_inv torn (s\<lparr>ex_db := db\<rparr>)"
  using assms by (simp add: exec_inv_def)

lemma update_template_runs [simp]:
  "td_runs (update_template i f db) = td_runs db" "td_servers (update_template i f db) = td_servers db"
  by (simp_all add: update_template_def)

lemma templates_runs [simp]:
  "td_runs (snd (templates_create ser now uuid by name command q db)) = td_runs db"
  "td_servers (snd (templates_create ser now uuid by name command q db)) = td_servers db"
  "td_runs (snd (templates_update ser now i q db)) = td_runs db"
  "td_servers (snd (templates_update ser now i q db)) = td_servers db"
  by (simp_all add: templates_create_def templates_update_def set_if_def Let_def split: option.split)

lemma keeps_servers_same: "td_runs db' = td_runs db \<Longrightarrow> keeps_servers db' s = keeps_servers db s"
  by (simp add: keeps_servers_def)

lemma template_delete_inv: "exec_inv torn s \<Longrightarrow> exec_inv torn (s\<lparr>ex_db := templates_delete i (ex_db s)\<rparr>)"
proof -
  assume inv: "exec_inv torn s"
  let ?P = "\<lambda>r. tr_template r = Some i" and ?f = "\<lambda>r. r\<lparr>tr_template := None\<rparr>"
  have "exec_inv torn (s\<lparr>ex_db := (ex_db s)\<lparr>td_runs := sql_update ?P ?f (td_runs (ex_db s))\<rparr>\<rparr>)"
    using exec_inv_update [OF inv, of ?f ?P "ex_starting s" "ex_drivers s"] exec_inv_run [OF inv]
    by (cases s) (simp add: keeps_ids_def accounted_def settled_row_def)
  then show ?thesis by (simp add: exec_inv_def templates_delete_def keeps_servers_def)
qed

lemma drop_server_inv: "exec_inv torn s \<Longrightarrow> exec_inv torn (s\<lparr>ex_db := drop_server sid (ex_db s)\<rparr>)"
  by (auto simp: exec_inv_def drop_server_def remove_server_def Let_def keeps_servers_def set_sql_delete
      distinct_map_sql_delete split: if_splits)

lemma exec_step_inv: "exec_step torn s t \<Longrightarrow> exec_inv torn s \<Longrightarrow> exec_inv torn t"
proof (induction rule: exec_step.induct)
  case (creates_template s)
  then show ?case
    by (intro exec_inv_servers) (simp_all add: exec_inv_def keeps_servers_same [OF templates_runs(1)])
next
  case (updates_template s)
  then show ?case
    by (intro exec_inv_servers) (simp_all add: exec_inv_def keeps_servers_same [OF templates_runs(3)])
next
  case (other_handlers s srv)
  then show ?case by (intro exec_inv_servers) (simp_all add: keeps_servers_def)
qed (simp_all add: start_insert_inv start_lost_inv start_fails_inv start_acked_inv poll_inv cancel_inv boot_inv
    template_delete_inv drop_server_inv)

interpretation exec_runs: invariant_system "exec_step torn" "exec_inv torn" for torn
  by unfold_locales (rule exec_step_inv)

section \<open>A poller ends\<close>

text \<open>A world that is the list of the answers to come.\<close>

definition scripted :: "(string + agent_snapshot) list agent_calls" where
  "scripted = \<lparr>ca_start = (\<lambda>c cmd t env w. (Inl [], w)), ca_snapshot = (\<lambda>c i w. (hd w, tl w)),
                ca_cancel = (\<lambda>c i w. (Inr (), w))\<rparr>"

definition ended :: "string + agent_snapshot \<Rightarrow> bool" where
  "ended reply = (case reply of Inl e \<Rightarrow> False
     | Inr snap \<Rightarrow> is_terminal (as_status snap) \<or> as_finished snap \<noteq> None)"

fun ends_after :: "nat \<Rightarrow> (string + agent_snapshot) list \<Rightarrow> bool" where
  "ends_after n [] = False"
| "ends_after n (Inl e # w) = (MAX_POLL_FAILURES \<le> Suc n \<or> ends_after (Suc n) w)"
| "ends_after n (Inr snap # w) = (ended (Inr snap) \<or> ends_after 0 w)"

definition settled_run :: "bool \<Rightarrow> string \<Rightarrow> task_db \<Rightarrow> bool" where
  "settled_run torn i db \<longleftrightarrow> list_all (\<lambda>r. tr_id r = i \<longrightarrow> settled_row torn r) (td_runs db)"

lemma ends_append: "ends_after n a \<Longrightarrow> ends_after n (a @ b)"
  by (induction n a rule: ends_after.induct) auto

lemma ends_failures: "MAX_POLL_FAILURES \<le> n + length b \<Longrightarrow> b \<noteq> [] \<Longrightarrow> list_all (\<lambda>x. \<exists>e. x = Inl e) b \<Longrightarrow> ends_after n b"
proof (induction b arbitrary: n)
  case (Cons x b)
  then show ?case by (cases b) auto
qed simp

lemma ends_prefix: "(\<And>m. ends_after m b) \<Longrightarrow> ends_after n (a @ b)"
  by (induction n a rule: ends_after.induct) auto

lemma settled_update:
  assumes "\<And>r. settled_row torn (f r)" "\<And>r. \<not> P r \<Longrightarrow> settled_row torn r"
  shows "settled_run torn i (update_run i P f db)"
  unfolding settled_run_def update_run_def list_all_iff
proof
  fix r
  assume "r \<in> set (td_runs (db\<lparr>td_runs := sql_update (\<lambda>r. tr_id r = i \<and> P r) f (td_runs db)\<rparr>))"
  then show "tr_id r = i \<longrightarrow> settled_row torn r"
    using in_sql_update [of r "\<lambda>r. tr_id r = i \<and> P r" f "td_runs db"] assms by auto
qed

lemma ended_settles:
  "settled_run torn i (run_mark_unreachable now i msg db)"
  "is_terminal st \<or> torn \<and> st = ''running'' \<Longrightarrow> settled_run torn i (run_update_snapshot now i a st ex out err True e db)"
  unfolding run_mark_unreachable_def run_update_snapshot_def if_True
  by (rule settled_update; auto simp: settled_row_def is_terminal_def [of "''unreachable''"] keep_def split: option.split)+

lemma drive_ends:
  "ends_after (dv_failures d) script \<Longrightarrow> length nows = length script \<Longrightarrow>
   get_server_info (td_servers db) (dv_server d) = Inr c \<Longrightarrow> list_all (pred_sum (\<lambda>_. True) (answer_ok torn)) script \<Longrightarrow>
   \<exists>db' w'. drive scripted nows d db script = (None, db', w') \<and> settled_run torn (dv_task d) db'"
proof (induction script arbitrary: nows d db)
  case (Cons x script)
  then obtain now nows' where n: "nows = now # nows'" "length nows' = length script" by (cases nows) auto
  have srv: "td_servers (run_update_snapshot now i a st ex out err fin e db) = td_servers db" for i a st ex out err fin e
    by (simp add: run_update_snapshot_def update_run_def)
  show ?case
  proof (cases x)
    case (Inl e)
    show ?thesis
    proof (cases "MAX_POLL_FAILURES \<le> Suc (dv_failures d)")
      case True
      then show ?thesis using Inl n Cons.prems(3) ended_settles(1)
        by (simp add: poll_once_def poll_apply_def poll_failed_def scripted_def finalize_unreachable_def)
    next
      case False
      then have "drive scripted nows d db (x # script) =
          drive scripted nows' (d\<lparr>dv_failures := Suc (dv_failures d)\<rparr>) db script"
        using Inl n Cons.prems(3) by (simp add: poll_once_def poll_apply_def poll_failed_def scripted_def)
      then show ?thesis
        using Cons.IH [of "d\<lparr>dv_failures := Suc (dv_failures d)\<rparr>" nows' db] Cons.prems Inl n False by simp
    qed
  next
    case (Inr snap)
    let ?db = "\<lambda>fin. run_update_snapshot now (dv_task d) (Some (as_run snap)) (as_status snap) (as_exit snap)
      (as_stdout snap) (as_stderr snap) fin (as_error snap) db"
    show ?thesis
    proof (cases "ended x")
      case True
      then have "is_terminal (as_status snap) \<or> torn \<and> as_status snap = ''running''"
        using Inr Cons.prems(4) answer_cases(1) [of torn snap] by (simp add: ended_def)
      moreover have "drive scripted nows d db (x # script) = (None, ?db True, script)"
        using True Inr n Cons.prems(3) by (auto simp: poll_once_def poll_apply_def scripted_def ended_def Let_def)
      ultimately show ?thesis using ended_settles(2) by simp
    next
      case False
      then have "drive scripted nows d db (x # script) = drive scripted nows' (d\<lparr>dv_failures := 0\<rparr>) (?db False) script"
        using Inr n Cons.prems(3) by (simp add: poll_once_def poll_apply_def scripted_def ended_def Let_def)
      then show ?thesis
        using Cons.IH [of "d\<lparr>dv_failures := 0\<rparr>" nows' "?db False"] Cons.prems Inr n False by (simp add: srv)
    qed
  qed
qed simp

section \<open>Properties\<close>



section \<open>A cancelled start\<close>

lemma started_row:
  assumes "start_insert ser now uuid spec db = Inr db1"
  obtains row where "td_runs db1 = td_runs db @ [row]" "tr_id row = uuid" "tr_server row = ss_server spec"
    "tr_status row = ''pending''" "tr_agent row = None" "\<forall>r \<in> set (td_runs db). tr_id r \<noteq> uuid"
  using assms by (auto simp: start_insert_def run_insert_pending_def split: if_splits)

lemma run_get_update:
  "(\<And>r. tr_id (f r) = tr_id r) \<Longrightarrow>
   run_get (update_run i P f db) i = map_option (\<lambda>r. if P r then f r else r) (run_get db i)"
proof -
  assume f: "\<And>r. tr_id (f r) = tr_id r"
  have "sql_update (\<lambda>r. tr_id r = i \<and> P r) f t = sql_update (\<lambda>r. tr_id r = i) (\<lambda>r. if P r then f r else r) t" for t
    by (simp add: sql_update_def)
  then show ?thesis
    using f by (simp add: run_get_def update_run_def sql_first_update_key)
qed

text \<open>a run that is cancelled while its start is still under way runs anyway: the cancellation finds
  no agent id, so it tells the agent nothing, and when the agent acknowledges the start the row becomes
  running again.\<close>

theorem cancelled_start_runs:
  assumes "start_insert ser now uuid spec db = Inr db1"
    and "cancel_run calls later uuid db1 w = (res, db2, w2)"
  shows "res = Inr () \<and> w2 = w \<and> map_option tr_status (run_get db2 uuid) = Some ''cancelled'' \<and>
    map_option tr_status (run_get (start_ack uuid agent_run db2) uuid) = Some ''running''"
proof -
  obtain row where row: "td_runs db1 = td_runs db @ [row]" "tr_id row = uuid" "tr_server row = ss_server spec"
    "tr_status row = ''pending''" "tr_agent row = None" "\<forall>r \<in> set (td_runs db). tr_id r \<noteq> uuid"
    using started_row [OF assms(1)] .
  have "sql_first (\<lambda>r. tr_id r = uuid) (td_runs db) = None" using row(6) by (simp add: sql_first_None)
  then have get: "run_get db1 uuid = Some row" using row by (simp add: run_get_def sql_first_append sql_simps)
  then have c: "(res, db2, w2) = (Inr (), run_mark_cancelled later uuid db1, w)"
    using assms(2) row by (simp add: cancel_run_def cancel_mark_def is_terminal_def)
  moreover have get2: "run_get db2 uuid = Some (row\<lparr>tr_status := ''cancelled'', tr_finished := keep (tr_finished row) (Some later)\<rparr>)"
    using calculation get row by (simp add: run_mark_cancelled_def run_get_update)
  moreover have "map_option tr_status (run_get (start_ack uuid agent_run db2) uuid) = Some ''running''"
    using get2 by (simp add: start_ack_def run_get_update)
  ultimately show ?thesis by simp
qed

section \<open>Witnesses\<close>

definition sample_agents :: servers_db where
  "sample_agents = \<lparr>sd_servers = [(default_server 0 ''a'' ''one'' ''agent'')\<lparr>sr_host := ''10.0.0.1'', sr_token := ''T''\<rparr>],
     sd_config = None, sd_peers = []\<rparr>"

definition sample_tasks :: task_db where
  "sample_tasks = \<lparr>td_templates = [], td_runs = [], td_servers = sample_agents\<rparr>"

definition sample_spec :: start_spec where
  "sample_spec = \<lparr>ss_server = ''a'', ss_template = None, ss_command = ''uptime'', ss_env = [], ss_timeout = 60, ss_by = ''ann''\<rparr>"

definition sample_run :: task_run where
  "sample_run = \<lparr>tr_id = ''u'', tr_template = None, tr_server = ''a'', tr_batch = None, tr_command = ''uptime'',
     tr_env = ''{}'', tr_timeout = 60, tr_status = ''pending'', tr_exit = None, tr_stdout = [], tr_stderr = [],
     tr_agent = None, tr_by = ''ann'', tr_error = None, tr_started = 5, tr_finished = None\<rparr>"

definition sample_driver :: driver where
  "sample_driver = \<lparr>dv_task = ''u'', dv_server = ''a'', dv_agent = ''r1'', dv_failures = 0\<rparr>"

lemma sample_insert:
  "start_insert (\<lambda>e. ''{}'') 5 ''u'' sample_spec sample_tasks = Inr (sample_tasks\<lparr>td_runs := [sample_run]\<rparr>)"
  by (simp add: start_insert_def run_insert_pending_def sample_spec_def sample_tasks_def sample_agents_def
      default_server_def sample_run_def)

lemma sample_agent_lookup: "\<exists>c. get_server_info sample_agents ''a'' = Inr c"
  by (simp add: get_server_info_def sample_agents_def default_server_def sql_simps Let_def)


definition sample_snapshot :: "string \<Rightarrow> int option \<Rightarrow> agent_snapshot" where
  "sample_snapshot st fin = \<lparr>as_run = ''r1'', as_status = st, as_exit = Some 0, as_stdout = ''up'', as_stderr = [],
     as_finished = fin, as_error = None\<rparr>"


theorem cancelled_start_runs_witness:
  "map_option tr_status (run_get (start_ack ''u'' ''r1''
     (run_mark_cancelled 6 ''u'' (sample_tasks\<lparr>td_runs := [sample_run]\<rparr>))) ''u'') = Some ''running''"
proof -
  have "cancel_run scripted 6 ''u'' (sample_tasks\<lparr>td_runs := [sample_run]\<rparr>) [] =
      (Inr (), run_mark_cancelled 6 ''u'' (sample_tasks\<lparr>td_runs := [sample_run]\<rparr>), [])"
    by (simp add: cancel_run_def cancel_mark_def run_get_def sql_simps sample_run_def is_terminal_def)
  from cancelled_start_runs [OF sample_insert this, of "''r1''"] show ?thesis by blast
qed

end
