(* ===== verification/Shell.thy ===== *)
theory Shell
  imports Tasks
begin

text \<open>
  The agent's side of a task (pier-agent shell.rs): the command and its environment, the bounded output
  buffers, the supervisor that records how the child ended, and the snapshots the core polls. The
  handle of a run keeps every field behind its own lock, so writes and reads interleave field by
  field; the lemmas show what the buffers hold, that a snapshot taken at one moment is consistent, and
  what a snapshot taken across the end of the run does to the core.
\<close>

section \<open>Output buffers\<close>

text \<open>The bytes kept of a stream, and whether the marker has been added. The lines are the bytes of
  their UTF-8 encoding.\<close>

record stream_buf =
  sb_buf :: "8 word list"
  sb_truncated :: bool

definition MAX_STREAM_BYTES :: nat where
  "MAX_STREAM_BYTES = 5 * 1024 * 1024"

definition truncation_marker :: "8 word list" where
  "truncation_marker =
     map (\<lambda>c. of_nat (of_char c)) ([NL] @ ''[output truncated -- exceeded 5 MiB cap]'' @ [NL])"

definition newline_byte :: "8 word" where
  "newline_byte = 10"

definition append_line :: "8 word list \<Rightarrow> stream_buf \<Rightarrow> stream_buf" where
  "append_line line b =
     (if sb_truncated b then b
      else
        (let remaining = MAX_STREAM_BYTES - length (sb_buf b)
         in if remaining = 0 then b\<lparr>sb_truncated := True, sb_buf := sb_buf b @ truncation_marker\<rparr>
            else if remaining < length line + 1 then
              b\<lparr>sb_buf := sb_buf b @ take (min remaining (length line)) line @ truncation_marker, sb_truncated := True\<rparr>
            else b\<lparr>sb_buf := sb_buf b @ line @ [newline_byte]\<rparr>))"

definition stream_default :: stream_buf where
  "stream_default = \<lparr>sb_buf = [], sb_truncated = False\<rparr>"

text \<open>What a stream should hold: all lines, cut after the cap, with the marker if anything was cut.\<close>

definition all_lines :: "8 word list list \<Rightarrow> 8 word list" where
  "all_lines ls = concat (map (\<lambda>l. l @ [newline_byte]) ls)"

definition capped :: "8 word list \<Rightarrow> stream_buf" where
  "capped out =
     (if length out \<le> MAX_STREAM_BYTES then \<lparr>sb_buf = out, sb_truncated = False\<rparr>
      else \<lparr>sb_buf = take MAX_STREAM_BYTES out @ truncation_marker, sb_truncated = True\<rparr>)"

lemma append_line_capped: "append_line line (capped out) = capped (out @ line @ [newline_byte])"
proof (cases "length out \<le> MAX_STREAM_BYTES")
  case True
  then show ?thesis
    by (auto simp: append_line_def capped_def Let_def min_def)
next
  case False
  then show ?thesis by (simp add: append_line_def capped_def)
qed

lemma fold_append_line: "fold append_line ls (capped out) = capped (out @ all_lines ls)"
  by (induction ls arbitrary: out) (simp_all add: append_line_capped all_lines_def)

section \<open>Starting a command\<close>

definition is_upper :: "char \<Rightarrow> bool" where
  "is_upper c = (let n = (of_char c :: nat) in 65 \<le> n \<and> n \<le> 90)"

definition is_safe_env_key :: "string \<Rightarrow> bool" where
  "is_safe_env_key key =
     (key \<noteq> [] \<and> (is_upper (hd key) \<or> hd key = CHR ''_'') \<and>
      list_all (\<lambda>c. is_upper c \<or> is_digit c \<or> c = CHR ''_'') key)"

text \<open>The environment of the child; for a key given twice the last value counts.\<close>

definition child_env :: "(string \<times> string) list \<Rightarrow> string \<Rightarrow> (string \<times> string) list" where
  "child_env env run_id = filter (\<lambda>(k, v). is_safe_env_key k) env @ [(''PIER_TASK_RUN_ID'', run_id)]"

record run_handle =
  rh_run :: string
  rh_command :: string
  rh_timeout :: nat
  rh_started :: int
  rh_status :: string
  rh_exit :: "int option"
  rh_finished :: "int option"
  rh_error :: "string option"

type_synonym shell_runs = "(string \<times> run_handle) list"

text \<open>\<open>start_run\<close>: the status and, when the child was spawned, its handle. \<open>spawn\<close> may fail.\<close>

definition shell_start ::
  "(string \<Rightarrow> (string \<times> string) list \<Rightarrow> string + unit) \<Rightarrow> int \<Rightarrow> 8 word list \<Rightarrow> string \<Rightarrow> nat option \<Rightarrow>
   (string \<times> string) list \<Rightarrow> string option \<Rightarrow> string \<Rightarrow> shell_runs \<Rightarrow> (nat \<times> string) \<times> shell_runs" where
  "shell_start spawn now rid_bytes raw timeout_sec env header token runs =
     (if \<not> token_matches header token then ((401, ''unauthorized''), runs)
      else
        (let command = trim raw; run_id = hex_encode rid_bytes;
             timeout = max 1 (min 86400 (coalesce timeout_sec 1800))
         in if command = [] then ((400, ''command cannot be empty''), runs)
            else (case spawn command (child_env env run_id) of
                    Inl e \<Rightarrow> ((500, ''spawn failed: '' @ e), runs)
                  | Inr _ \<Rightarrow>
                      ((202, run_id),
                       (run_id, \<lparr>rh_run = run_id, rh_command = command, rh_timeout = timeout, rh_started = now,
                          rh_status = ''running'', rh_exit = None, rh_finished = None, rh_error = None\<rparr>) # runs))))"

section \<open>The supervisor and the reader\<close>

text \<open>A handle keeps every field behind a lock of its own, so the supervisor and a cancellation change
  it by single writes, and a snapshot takes it by single reads.\<close>

datatype handle_write =
    SetExit "int option"
  | SettleStatus string
  | ForceStatus string
  | SetFinished int
  | SetError string

fun apply_write :: "handle_write \<Rightarrow> run_handle \<Rightarrow> run_handle" where
  "apply_write (SetExit c) h = h\<lparr>rh_exit := c\<rparr>"
| "apply_write (SettleStatus s) h = (if rh_status h = ''running'' then h\<lparr>rh_status := s\<rparr> else h)"
| "apply_write (ForceStatus s) h = h\<lparr>rh_status := s\<rparr>"
| "apply_write (SetFinished t) h = h\<lparr>rh_finished := Some t\<rparr>"
| "apply_write (SetError e) h = h\<lparr>rh_error := Some e\<rparr>"

datatype outcome = TimedOut | Exited "int option" | WaitFailed string

text \<open>The writes of the supervisor once the race of the child and the timeout is decided; a child that
  a signal killed has no code.\<close>

fun supervise :: "nat \<Rightarrow> int \<Rightarrow> outcome \<Rightarrow> handle_write list" where
  "supervise timeout now TimedOut =
     [SettleStatus ''timeout'', SetFinished now, SetError (''exceeded timeout of '' @ dec timeout @ ''s'')]"
| "supervise timeout now (Exited c) =
     [SetExit c, SettleStatus (if c = Some 0 then ''success'' else ''failed''), SetFinished now]"
| "supervise timeout now (WaitFailed e) =
     [ForceStatus ''failed'', SetError (''wait error: '' @ e), SetFinished now]"

definition cancel_write :: handle_write where
  "cancel_write = SettleStatus ''cancelled''"

text \<open>The writes so far: those of the supervisor in order, with cancellations anywhere in between.\<close>

definition history :: "nat \<Rightarrow> int \<Rightarrow> outcome \<Rightarrow> handle_write list \<Rightarrow> bool" where
  "history timeout now out ws \<longleftrightarrow>
     (\<exists>n. filter (\<lambda>w. w \<noteq> cancel_write) ws = take n (supervise timeout now out))"

definition after_writes :: "handle_write list \<Rightarrow> nat \<Rightarrow> run_handle \<Rightarrow> run_handle" where
  "after_writes ws n h = fold apply_write (take n ws) h"

text \<open>\<open>get_run\<close> reads the status, then the exit code, the buffers, the finish and the error; \<open>i \<le> j \<le>
  k \<le> l\<close> are the writes that have happened at each of the reads.\<close>

definition get_run ::
  "handle_write list \<Rightarrow> nat \<Rightarrow> nat \<Rightarrow> nat \<Rightarrow> nat \<Rightarrow> string \<Rightarrow> string \<Rightarrow> run_handle \<Rightarrow> agent_snapshot" where
  "get_run ws i j k l out err h =
     \<lparr>as_run = rh_run h, as_status = rh_status (after_writes ws i h), as_exit = rh_exit (after_writes ws j h),
      as_stdout = out, as_stderr = err, as_finished = rh_finished (after_writes ws k h),
      as_error = rh_error (after_writes ws l h)\<rparr>"

text \<open>\<open>start_gc_loop\<close>: runs that finished more than five minutes ago are dropped.\<close>

definition shell_gc :: "int \<Rightarrow> shell_runs \<Rightarrow> shell_runs" where
  "shell_gc now runs =
     (let cutoff = now - 5 * 60 * 1000
      in filter (\<lambda>(i, h). case rh_finished h of None \<Rightarrow> True | Some ts \<Rightarrow> \<not> ts < cutoff) runs)"

section \<open>Consistent snapshots\<close>

fun status_write :: "handle_write \<Rightarrow> string option" where
  "status_write (SettleStatus s) = Some s"
| "status_write (ForceStatus s) = Some s"
| "status_write _ = None"

lemma status_after:
  "list_all (\<lambda>w. case status_write w of None \<Rightarrow> True | Some s \<Rightarrow> is_terminal s) ws \<Longrightarrow> rh_status h = ''running'' \<Longrightarrow>
   (if list_all (\<lambda>w. status_write w = None) ws then rh_status (fold apply_write ws h) = ''running''
    else is_terminal (rh_status (fold apply_write ws h)))"
proof (induction ws rule: rev_induct)
  case (snoc w ws)
  then show ?case by (cases w) (auto split: if_splits)
qed simp

lemma finished_after:
  "rh_finished h = None \<Longrightarrow> rh_finished (fold apply_write ws h) \<noteq> None \<Longrightarrow> \<exists>t. SetFinished t \<in> set ws"
proof (induction ws rule: rev_induct)
  case (snoc w ws)
  then show ?case by (cases w) (auto split: if_splits)
qed simp

lemma history_take: "history timeout now out ws \<Longrightarrow> history timeout now out (take i ws)"
proof -
  assume "history timeout now out ws"
  then obtain n where n: "filter (\<lambda>w. w \<noteq> cancel_write) ws = take n (supervise timeout now out)"
    by (auto simp: history_def)
  have "filter (\<lambda>w. w \<noteq> cancel_write) ws =
      filter (\<lambda>w. w \<noteq> cancel_write) (take i ws) @ filter (\<lambda>w. w \<noteq> cancel_write) (drop i ws)"
    by (metis append_take_drop_id filter_append)
  then have "filter (\<lambda>w. w \<noteq> cancel_write) (take i ws) =
      take (length (filter (\<lambda>w. w \<noteq> cancel_write) (take i ws))) (take n (supervise timeout now out))"
    by (metis append_eq_conv_conj n)
  then show ?thesis by (auto simp: history_def take_take)
qed

lemma history_writes:
  assumes "history timeout now out ws"
  shows "list_all (\<lambda>w. case status_write w of None \<Rightarrow> True | Some s \<Rightarrow> is_terminal s) ws"
    and "SetFinished t \<in> set ws \<Longrightarrow> \<not> list_all (\<lambda>w. status_write w = None) ws"
proof -
  obtain n where n: "filter (\<lambda>w. w \<noteq> cancel_write) ws = take n (supervise timeout now out)"
    using assms by (auto simp: history_def)
  have sup: "list_all (\<lambda>w. case status_write w of None \<Rightarrow> True | Some s \<Rightarrow> is_terminal s) (supervise timeout now out)"
    by (cases out) (auto simp: is_terminal_def)
  have "w = cancel_write \<or> w \<in> set (supervise timeout now out)" if "w \<in> set ws" for w
  proof (cases "w = cancel_write")
    case False
    then have "w \<in> set (filter (\<lambda>w. w \<noteq> cancel_write) ws)" using that by simp
    then show ?thesis unfolding n by (auto dest: in_set_takeD)
  qed simp
  then show "list_all (\<lambda>w. case status_write w of None \<Rightarrow> True | Some s \<Rightarrow> is_terminal s) ws"
    using sup by (fastforce simp: list_all_iff cancel_write_def is_terminal_def)
  assume "SetFinished t \<in> set ws"
  then have "SetFinished t \<in> set (filter (\<lambda>w. w \<noteq> cancel_write) ws)" by (simp add: cancel_write_def)
  then have "\<exists>w \<in> set (take n (supervise timeout now out)). status_write w \<noteq> None"
    unfolding n by (cases out) (auto simp: take_Cons' split: if_splits)
  then show "\<not> list_all (\<lambda>w. status_write w = None) ws"
    unfolding n [symmetric] by (auto simp: list_all_iff)
qed

section \<open>Properties\<close>

text \<open>C32: the buffer of a stream holds exactly the output up to the cap of 5 MiB, followed by the marker
  if anything was cut, and so never more than the cap and the marker.\<close>

theorem stream_capped:
  "fold append_line ls stream_default = capped (all_lines ls) \<and>
   length (sb_buf (fold append_line ls stream_default)) \<le> MAX_STREAM_BYTES + length truncation_marker"
proof -
  have "stream_default = capped []" by (simp add: stream_default_def capped_def)
  then have "fold append_line ls stream_default = capped (all_lines ls)"
    using fold_append_line [of ls "[]"] by simp
  then show ?thesis by (simp add: capped_def)
qed

text \<open>C21: a snapshot whose status and finish are read at one moment is consistent: a finished run is
  reported with its final status, whatever ended it and however cancellations fall in between.\<close>

theorem snapshot_consistent:
  assumes "history timeout now outc ws" "rh_status h = ''running''" "rh_finished h = None"
  shows "sane (get_run ws i j i l out err h)"
proof -
  let ?ws = "take i ws"
  have h: "history timeout now outc ?ws" using assms(1) by (rule history_take)
  have "rh_finished (fold apply_write ?ws h) \<noteq> None \<Longrightarrow> \<not> list_all (\<lambda>w. status_write w = None) ?ws"
    using finished_after [OF assms(3)] history_writes(2) [OF h] by blast
  then show ?thesis
    using status_after [OF history_writes(1) [OF h] assms(2)]
    by (auto simp: sane_def get_run_def after_writes_def split: if_splits)
qed

text \<open>Whenever its fields are read, a snapshot has a status the core knows.\<close>

lemma get_run_known:
  assumes "history timeout now outc ws" "rh_status h = ''running''"
  shows "answer_ok True (get_run ws i j k l out err h)"
  using status_after [OF history_writes(1) [OF history_take [OF assms(1)]] assms(2), of i]
  by (auto simp: answer_ok_def known_status_def get_run_def after_writes_def split: if_splits)

definition sample_handle :: run_handle where
  "sample_handle = \<lparr>rh_run = ''r1'', rh_command = ''uptime'', rh_timeout = 60, rh_started = 0, rh_status = ''running'',
     rh_exit = None, rh_finished = None, rh_error = None\<rparr>"

definition sample_writes :: "handle_write list" where
  "sample_writes = [SetExit (Some 0), cancel_write, SettleStatus ''success'', SetFinished 9]"

theorem snapshot_consistent_witness:
  "sane (get_run sample_writes 4 1 4 4 [] [] sample_handle) \<and>
   as_status (get_run sample_writes 4 1 4 4 [] [] sample_handle) = ''cancelled''"
proof -
  have "history 60 9 (Exited (Some 0)) sample_writes"
    unfolding history_def by (rule exI [of _ 3]) (simp add: sample_writes_def cancel_write_def)
  then show ?thesis
    using snapshot_consistent [of 60 9 "Exited (Some 0)" sample_writes sample_handle 4 1 4 "[]" "[]"]
    by (simp add: sample_handle_def get_run_def after_writes_def sample_writes_def cancel_write_def)
qed

lemma torn_stored:
  assumes "as_status snap = ''running''" "as_finished snap \<noteq> None"
  shows "\<exists>db w. drive scripted [1] sample_driver (start_ack ''u'' ''r1'' (sample_tasks\<lparr>td_runs := [sample_run]\<rparr>)) [Inr snap] =
    (None, db, w) \<and> map tr_status (td_runs db) = [''running''] \<and> map tr_finished (td_runs db) = [Some 1]"
proof -
  define db where "db = start_ack ''u'' ''r1'' (sample_tasks\<lparr>td_runs := [sample_run]\<rparr>)"
  have runs: "td_runs db = [sample_run\<lparr>tr_agent := Some ''r1'', tr_status := ''running''\<rparr>]"
    by (simp add: db_def start_ack_def update_run_def sql_simps sample_run_def)
  obtain c where c: "get_server_info (td_servers db) (dv_server sample_driver) = Inr c"
    using sample_agent_lookup by (auto simp: db_def sample_tasks_def sample_driver_def start_ack_def update_run_def)
  show ?thesis
    unfolding db_def [symmetric] using assms c runs
    by (simp add: poll_once_def poll_apply_def scripted_def Let_def run_update_snapshot_def update_run_def sql_simps
        sample_driver_def sample_run_def keep_def)
qed

text \<open>the fields of a snapshot are read one after the other, so a run may end in between: then the
  status says running and the finish is set, the core takes the run for finished and stores running,
  and no poller is left to correct it although the command succeeded.\<close>

theorem torn_snapshot_sticks:
  "\<exists>ws snap. history 60 9 (Exited (Some 0)) ws \<and> snap = get_run ws 0 1 3 3 ''up'' [] sample_handle \<and>
     as_status snap = ''running'' \<and> as_exit snap = Some 0 \<and> as_finished snap = Some 9 \<and>
     rh_status (after_writes ws 3 sample_handle) = ''success'' \<and>
     (\<exists>db w. drive scripted [1] sample_driver (start_ack ''u'' ''r1'' (sample_tasks\<lparr>td_runs := [sample_run]\<rparr>)) [Inr snap] =
         (None, db, w) \<and> map tr_status (td_runs db) = [''running''] \<and> map tr_finished (td_runs db) = [Some 1])"
proof -
  let ?ws = "[SetExit (Some 0), SettleStatus ''success'', SetFinished 9]"
  have h: "history 60 9 (Exited (Some 0)) ?ws"
    unfolding history_def by (rule exI [of _ 3]) (simp add: cancel_write_def)
  let ?snap = "get_run ?ws 0 1 3 3 ''up'' [] sample_handle"
  have s: "as_status ?snap = ''running''" "as_exit ?snap = Some 0" "as_finished ?snap = Some 9"
    "rh_status (after_writes ?ws 3 sample_handle) = ''success''"
    by (simp_all add: get_run_def after_writes_def sample_handle_def eval_nat_numeral)
  have "as_finished ?snap \<noteq> None" using s(3) by simp
  from torn_stored [OF s(1) this] show ?thesis
    using h s by (intro exI [of _ ?ws] exI [of _ ?snap] conjI) simp_all
qed

end
