(* ===== verification/Schedules.thy ===== *)
theory Schedules
  imports Tasks
begin

text \<open>
  The unified scheduler (scheduler/runner.rs, scheduler/cron_utils.rs, scheduler/actions.rs) and its API
  (api/schedules.rs): a tick once a minute claims the due schedules, a set of ids guards against firing
  one twice, a fire records its run and advances the schedule. The cron crate is a parameter: whether
  it accepts an expression and the next fire after a time; so are backups and the Docker cleanup. The
  lemmas show that a schedule has one fire at a time, that a tick serves every due schedule, and
  which schedules fire when they should not.
\<close>

section \<open>Cron expressions\<close>

fun join_with :: "string \<Rightarrow> string list \<Rightarrow> string" where
  "join_with sep [] = []"
| "join_with sep [x] = x"
| "join_with sep (x # y # xs) = x @ sep @ join_with sep (y # xs)"

definition quoted :: "string \<Rightarrow> string" where
  "quoted s = [CHR 0x27] @ s @ [CHR 0x27]"

definition normalise :: "string \<Rightarrow> string" where
  "normalise expr =
     (let trimmed = trim expr
      in if trimmed = ''@yearly'' \<or> trimmed = ''@annually'' then ''0 0 0 1 1 * *''
         else if trimmed = ''@monthly'' then ''0 0 0 1 * * *''
         else if trimmed = ''@weekly'' then ''0 0 0 * * 0 *''
         else if trimmed = ''@daily'' \<or> trimmed = ''@midnight'' then ''0 0 0 * * * *''
         else if trimmed = ''@hourly'' then ''0 0 * * * * *''
         else
           (let fields = split_whitespace trimmed
            in if length fields = 5 then ''0 '' @ join_with '' '' fields @ '' *''
               else if length fields = 6 then ''0 '' @ join_with '' '' fields
               else if length fields = 7 then join_with '' '' fields
               else trimmed))"

text \<open>The crate: the error of an expression it rejects, and the first time after a time that an accepted
  one fires in a time zone, if there is one. An unknown zone counts as UTC, which is part of the
  second function.\<close>

record cron_crate =
  cc_error :: "string \<Rightarrow> string option"
  cc_next :: "string \<Rightarrow> string \<Rightarrow> time \<Rightarrow> time option"

definition cron_parse :: "cron_crate \<Rightarrow> string \<Rightarrow> string + unit" where
  "cron_parse C expr =
     (case cc_error C (normalise expr) of
        Some e \<Rightarrow> Inl (''invalid cron expression '' @ quoted expr @ '': '' @ e)
      | None \<Rightarrow> Inr ())"

definition next_fire_utc :: "cron_crate \<Rightarrow> string \<Rightarrow> string \<Rightarrow> time \<Rightarrow> string + time option" where
  "next_fire_utc C expr tz after =
     (case cron_parse C expr of Inl e \<Rightarrow> Inl e | Inr _ \<Rightarrow> Inr (cc_next C (normalise expr) tz after))"

text \<open>\<open>.ok().flatten()\<close>\<close>

definition next_or_none :: "cron_crate \<Rightarrow> string \<Rightarrow> string \<Rightarrow> time \<Rightarrow> time option" where
  "next_or_none C expr tz after = (case next_fire_utc C expr tz after of Inl e \<Rightarrow> None | Inr t \<Rightarrow> t)"

fun fire_times :: "cron_crate \<Rightarrow> string \<Rightarrow> string \<Rightarrow> time \<Rightarrow> nat \<Rightarrow> time list" where
  "fire_times C expr tz after 0 = []"
| "fire_times C expr tz after (Suc n) =
     (case cc_next C (normalise expr) tz after of
        None \<Rightarrow> [] | Some t \<Rightarrow> t # fire_times C expr tz t n)"

definition preview :: "cron_crate \<Rightarrow> string \<Rightarrow> string \<Rightarrow> time \<Rightarrow> nat \<Rightarrow> string + time list" where
  "preview C expr tz after n =
     (case cron_parse C expr of Inl e \<Rightarrow> Inl e | Inr _ \<Rightarrow> Inr (fire_times C expr tz after n))"

section \<open>Rows and handlers\<close>

record schedule_row =
  sh_id :: string
  sh_name :: string
  sh_description :: string
  sh_cron :: string
  sh_zone :: string
  sh_action :: string
  sh_config :: string
  sh_enabled :: bool
  sh_last_run :: "time option"
  sh_next_run :: "time option"
  sh_last_status :: "string option"
  sh_last_error :: "string option"
  sh_by :: "string option"
  sh_system :: bool
  sh_updated :: time

record schedule_run =
  su_id :: string
  su_schedule :: string
  su_started :: time
  su_finished :: "time option"
  su_status :: string
  su_by :: string
  su_output :: string
  su_error :: "string option"
  su_task :: "string option"

text \<open>\<open>sc_users\<close> are the accounts the author of a schedule may be.\<close>

record schedule_db =
  sc_rows :: "schedule_row list"
  sc_runs :: "schedule_run list"
  sc_users :: "string list"

definition update_schedule :: "string \<Rightarrow> (schedule_row \<Rightarrow> schedule_row) \<Rightarrow> schedule_db \<Rightarrow> schedule_db" where
  "update_schedule i f db = db\<lparr>sc_rows := sql_update (\<lambda>r. sh_id r = i) f (sc_rows db)\<rparr>"

definition schedule_get :: "schedule_db \<Rightarrow> string \<Rightarrow> schedule_row option" where
  "schedule_get db i = sql_first (\<lambda>r. sh_id r = i) (sc_rows db)"

definition check_action_type :: "string \<Rightarrow> app_error + unit" where
  "check_action_type t =
     (if t \<in> {''task'', ''backup'', ''cleanup''} then Inr ()
      else Inl (BadRequest (Te ''errors.schedules.unknown_action_type'' [(''v'', t)])))"

record schedule_request =
  hq_name :: string
  hq_description :: "string option"
  hq_cron :: string
  hq_zone :: string
  hq_action :: string
  hq_config :: string
  hq_enabled :: bool

definition schedule_create ::
  "cron_crate \<Rightarrow> time \<Rightarrow> string \<Rightarrow> string \<Rightarrow> schedule_request \<Rightarrow> schedule_db \<Rightarrow> (app_error + string) \<times> schedule_db" where
  "schedule_create C now uuid user q db =
     (if trim (hq_name q) = [] then (Inl (BadRequest (te ''errors.schedules.name_required'')), db)
      else
        (case check_action_type (hq_action q) of
           Inl e \<Rightarrow> (Inl e, db)
         | Inr _ \<Rightarrow>
             (case cron_parse C (hq_cron q) of
                Inl e \<Rightarrow> (Inl (BadRequest (Lit e)), db)
              | Inr _ \<Rightarrow>
                  if \<exists>r \<in> set (sc_rows db). sh_id r = uuid then (Inl (DatabaseError ''UNIQUE constraint failed''), db)
                  else if user \<notin> set (sc_users db) then (Inl (DatabaseError ''FOREIGN KEY constraint failed''), db)
                  else (Inr uuid, db\<lparr>sc_rows := sc_rows db @
                    [\<lparr>sh_id = uuid, sh_name = trim (hq_name q), sh_description = coalesce (hq_description q) [],
                      sh_cron = hq_cron q, sh_zone = hq_zone q, sh_action = hq_action q, sh_config = hq_config q,
                      sh_enabled = hq_enabled q, sh_last_run = None,
                      sh_next_run = next_or_none C (hq_cron q) (hq_zone q) now, sh_last_status = None,
                      sh_last_error = None, sh_by = Some user, sh_system = False, sh_updated = now\<rparr>]\<rparr>))))"

record schedule_patch =
  hp_name :: "string option"
  hp_description :: "string option"
  hp_cron :: "string option"
  hp_zone :: "string option"
  hp_config :: "string option"
  hp_enabled :: "bool option"

definition patch_if ::
  "time \<Rightarrow> string \<Rightarrow> 'v option \<Rightarrow> ('v \<Rightarrow> schedule_row \<Rightarrow> schedule_row) \<Rightarrow> schedule_db \<Rightarrow> schedule_db" where
  "patch_if now i x f db =
     (case x of None \<Rightarrow> db | Some v \<Rightarrow> update_schedule i (\<lambda>r. (f v r)\<lparr>sh_updated := now\<rparr>) db)"

text \<open>A new expression or zone recomputes the next run; both read the row first, which fails when there
  is none.\<close>

definition schedule_update ::
  "cron_crate \<Rightarrow> time \<Rightarrow> string \<Rightarrow> schedule_patch \<Rightarrow> schedule_db \<Rightarrow> (app_error + unit) \<times> schedule_db" where
  "schedule_update C now i p db =
     (case (case hp_cron p of None \<Rightarrow> Inr () | Some c \<Rightarrow> cron_parse C c) of
        Inl e \<Rightarrow> (Inl (BadRequest (Lit e)), db)
      | Inr _ \<Rightarrow>
          (let db1 = patch_if now i (hp_description p) (\<lambda>v r. r\<lparr>sh_description := v\<rparr>)
                       (patch_if now i (hp_name p) (\<lambda>v r. r\<lparr>sh_name := v\<rparr>) db)
           in if (hp_cron p \<noteq> None \<or> hp_zone p \<noteq> None) \<and> schedule_get db1 i = None then
                (Inl (DatabaseError ''Query returned no rows''), db1)
              else
                (let db2 = patch_if now i (hp_cron p)
                       (\<lambda>c r. r\<lparr>sh_cron := c, sh_next_run := next_or_none C c (sh_zone r) now\<rparr>) db1;
                     db3 = patch_if now i (hp_zone p)
                       (\<lambda>z r. r\<lparr>sh_zone := z, sh_next_run := next_or_none C (sh_cron r) z now\<rparr>) db2;
                     db4 = patch_if now i (hp_config p) (\<lambda>v r. r\<lparr>sh_config := v\<rparr>) db3;
                     db5 = patch_if now i (hp_enabled p) (\<lambda>v r. r\<lparr>sh_enabled := v\<rparr>) db4
                 in (Inr (), db5))))"

text \<open>\<open>DELETE\<close> takes the runs of the schedule with it.\<close>

definition delete_schedule :: "string \<Rightarrow> schedule_db \<Rightarrow> schedule_db" where
  "delete_schedule i db =
     db\<lparr>sc_rows := sql_delete (\<lambda>r. sh_id r = i) (sc_rows db),
        sc_runs := sql_delete (\<lambda>r. su_schedule r = i) (sc_runs db)\<rparr>"

definition schedule_remove :: "string \<Rightarrow> schedule_db \<Rightarrow> (app_error + unit) \<times> schedule_db" where
  "schedule_remove i db =
     (case schedule_get db i of
        None \<Rightarrow> (Inl (NotFound (te ''errors.schedules.not_found'')), db)
      | Some r \<Rightarrow>
          if sh_system r then (Inl (Conflict (te ''errors.schedules.system_no_delete'')), db)
          else (Inr (), delete_schedule i db))"

definition schedule_enable :: "time \<Rightarrow> string \<Rightarrow> schedule_db \<Rightarrow> schedule_db" where
  "schedule_enable now i = update_schedule i (\<lambda>r. r\<lparr>sh_enabled := True, sh_updated := now\<rparr>)"

definition schedule_disable :: "time \<Rightarrow> string \<Rightarrow> schedule_db \<Rightarrow> schedule_db" where
  "schedule_disable now i = update_schedule i (\<lambda>r. r\<lparr>sh_enabled := False, sh_updated := now\<rparr>)"

section \<open>Actions\<close>

record action_result =
  at_output :: string
  at_task :: "string option"

text \<open>\<open>dispatch\<close> over the handlers of the three kinds.\<close>

definition dispatch_action ::
  "(string \<Rightarrow> string \<Rightarrow> 'w \<Rightarrow> (string + action_result) \<times> 'w) \<Rightarrow> (string \<Rightarrow> 'w \<Rightarrow> (string + action_result) \<times> 'w) \<Rightarrow>
   (string \<Rightarrow> 'w \<Rightarrow> (string + action_result) \<times> 'w) \<Rightarrow> string \<Rightarrow> string \<Rightarrow> string \<Rightarrow> 'w \<Rightarrow>
   (string + action_result) \<times> 'w" where
  "dispatch_action tasks backups cleanups action cfg by w =
     (if action = ''task'' then tasks cfg by w
      else if action = ''backup'' then backups cfg w
      else if action = ''cleanup'' then cleanups cfg w
      else (Inl (''unknown action_type '' @ quoted action), w))"

text \<open>\<open>fire_task\<close>: \<open>read\<close> reads the two ids of the configuration, \<open>parse\<close> a stored environment. The new
  poller is left for the caller.\<close>

definition fire_task ::
  "(string \<Rightarrow> (string \<times> string) option) \<Rightarrow> (json btree \<Rightarrow> string) \<Rightarrow> (string \<Rightarrow> json btree option) \<Rightarrow> 'w agent_calls \<Rightarrow>
   time \<Rightarrow> string \<Rightarrow> string \<Rightarrow> string \<Rightarrow> task_db \<Rightarrow> 'w \<Rightarrow>
   (string + action_result \<times> driver option) \<times> task_db \<times> 'w" where
  "fire_task read ser parse calls now uuid cfg by db w =
     (case read cfg of
        None \<Rightarrow> (Inl ''invalid task action_config'', db, w)
      | Some (template, server) \<Rightarrow>
          (case template_get db template of
             None \<Rightarrow> (Inl (''task template '' @ quoted template @ '' not found''), db, w)
           | Some t \<Rightarrow>
               (case start_run ser calls now uuid
                       \<lparr>ss_server = server, ss_template = Some template, ss_command = tt_command t,
                        ss_env = coalesce (parse (tt_env t)) [], ss_timeout = tt_timeout t, ss_by = by\<rparr> db w of
                  (Inl e, db', w') \<Rightarrow> (Inl ''start task run'', db', w')
                | (Inr (i, d), db', w') \<Rightarrow>
                    (Inr (\<lparr>at_output = ''started task_run '' @ i, at_task = Some i\<rparr>, d), db', w'))))"

section \<open>The runner\<close>

record due_row =
  du_id :: string
  du_cron :: string
  du_zone :: string
  du_action :: string
  du_config :: string

definition due_of :: "schedule_row \<Rightarrow> due_row" where
  "due_of r = \<lparr>du_id = sh_id r, du_cron = sh_cron r, du_zone = sh_zone r, du_action = sh_action r,
     du_config = sh_config r\<rparr>"

definition is_due :: "time \<Rightarrow> schedule_row \<Rightarrow> bool" where
  "is_due now r = (sh_enabled r \<and> (case sh_next_run r of None \<Rightarrow> False | Some t \<Rightarrow> t \<le> now))"

definition find_due :: "time \<Rightarrow> schedule_db \<Rightarrow> due_row list" where
  "find_due now db = map due_of (filter (is_due now) (sc_rows db))"

definition seed_next_run_at :: "cron_crate \<Rightarrow> time \<Rightarrow> schedule_db \<Rightarrow> schedule_db" where
  "seed_next_run_at C now db =
     fold (\<lambda>r d. case next_or_none C (sh_cron r) (sh_zone r) now of
             None \<Rightarrow> d | Some t \<Rightarrow> update_schedule (sh_id r) (\<lambda>x. x\<lparr>sh_next_run := Some t\<rparr>) d)
       (filter (\<lambda>r. sh_enabled r \<and> sh_next_run r = None) (sc_rows db)) db"

definition advance_next_run_at :: "cron_crate \<Rightarrow> time \<Rightarrow> due_row \<Rightarrow> schedule_db \<Rightarrow> schedule_db" where
  "advance_next_run_at C now row db =
     (case next_fire_utc C (du_cron row) (du_zone row) now of
        Inr (Some n) \<Rightarrow> update_schedule (du_id row) (\<lambda>r. r\<lparr>sh_next_run := Some n\<rparr>) db
      | _ \<Rightarrow> db)"

text \<open>A new run of a schedule; the insert is refused, and its error ignored, for a known id or an unknown
  schedule.\<close>

definition insert_schedule_run :: "schedule_run \<Rightarrow> schedule_db \<Rightarrow> schedule_db" where
  "insert_schedule_run u db =
     (if (\<exists>x \<in> set (sc_runs db). su_id x = su_id u) \<or> schedule_get db (su_schedule u) = None then db
      else db\<lparr>sc_runs := sc_runs db @ [u]\<rparr>)"

definition new_run :: "time \<Rightarrow> string \<Rightarrow> string \<Rightarrow> string \<Rightarrow> schedule_run" where
  "new_run now uuid schedule by =
     \<lparr>su_id = uuid, su_schedule = schedule, su_started = now, su_finished = None, su_status = ''running'',
      su_by = by, su_output = [], su_error = None, su_task = None\<rparr>"

definition record_skipped :: "time \<Rightarrow> string \<Rightarrow> string \<Rightarrow> string \<Rightarrow> schedule_db \<Rightarrow> schedule_db" where
  "record_skipped now uuid schedule reason =
     insert_schedule_run ((new_run now uuid schedule ''cron'')
       \<lparr>su_finished := Some now, su_status := ''skipped'', su_output := reason\<rparr>)"

definition begin_run :: "time \<Rightarrow> string \<Rightarrow> due_row \<Rightarrow> schedule_db \<Rightarrow> schedule_db" where
  "begin_run now uuid row = insert_schedule_run (new_run now uuid (du_id row) ''cron'')"

fun run_outcome :: "string + action_result \<Rightarrow> string \<times> string \<times> string option \<times> string option" where
  "run_outcome (Inr ar) = (''success'', at_output ar, None, at_task ar)"
| "run_outcome (Inl e) = (''failed'', [], Some e, None)"

definition close_run :: "time \<Rightarrow> string \<Rightarrow> string + action_result \<Rightarrow> schedule_db \<Rightarrow> schedule_db" where
  "close_run now uuid result db =
     (let (st, out, err, task) = run_outcome result
      in db\<lparr>sc_runs := sql_update (\<lambda>u. su_id u = uuid)
           (\<lambda>u. u\<lparr>su_finished := Some now, su_status := st, su_output := out, su_error := err, su_task := task\<rparr>)
           (sc_runs db)\<rparr>)"

definition finish_run :: "time \<Rightarrow> string \<Rightarrow> due_row \<Rightarrow> string + action_result \<Rightarrow> schedule_db \<Rightarrow> schedule_db" where
  "finish_run now uuid row result db =
     (let (st, out, err, task) = run_outcome result
      in update_schedule (du_id row)
           (\<lambda>r. r\<lparr>sh_last_run := Some now, sh_last_status := Some st, sh_last_error := err\<rparr>)
           (close_run now uuid result db))"

text \<open>\<open>run_one\<close>: the run is inserted at \<open>t0\<close>, the action acts on the rest of the world, its result is
  recorded at \<open>t1\<close> and the schedule advanced at \<open>t2\<close>.\<close>

definition run_one ::
  "cron_crate \<Rightarrow> (due_row \<Rightarrow> 'w \<Rightarrow> (string + action_result) \<times> 'w) \<Rightarrow> time \<Rightarrow> time \<Rightarrow> time \<Rightarrow> string \<Rightarrow> due_row \<Rightarrow>
   schedule_db \<Rightarrow> 'w \<Rightarrow> schedule_db \<times> 'w" where
  "run_one C act t0 t1 t2 uuid row db w =
     (let db1 = begin_run t0 uuid row db;
          (result, w1) = act row w
      in (advance_next_run_at C t2 row (finish_run t1 uuid row result db1), w1))"

text \<open>\<open>run_tick\<close> over the due rows, with the ids drawn for the skipped records: the tables, the set in
  flight and the rows whose fires it starts.\<close>

fun tick_rows ::
  "cron_crate \<Rightarrow> time \<Rightarrow> (nat \<Rightarrow> string) \<Rightarrow> nat \<Rightarrow> due_row list \<Rightarrow> schedule_db \<Rightarrow> string list \<Rightarrow>
   schedule_db \<times> string list \<times> due_row list" where
  "tick_rows C now uuids n [] db flight = (db, flight, [])"
| "tick_rows C now uuids n (row # rows) db flight =
     (if du_id row \<in> set flight then
        tick_rows C now uuids (Suc n) rows
          (advance_next_run_at C now row
            (record_skipped now (uuids n) (du_id row) ''previous run still in flight'' db)) flight
      else (let (db', flight', fires) = tick_rows C now uuids (Suc n) rows db (du_id row # flight)
            in (db', flight', row # fires)))"

definition run_tick ::
  "cron_crate \<Rightarrow> time \<Rightarrow> (nat \<Rightarrow> string) \<Rightarrow> schedule_db \<Rightarrow> string list \<Rightarrow> schedule_db \<times> string list \<times> due_row list" where
  "run_tick C now uuids db flight = tick_rows C now uuids 0 (find_due now db) db flight"

text \<open>\<open>run_now\<close> of the API runs the action at once, whether or not the schedule is in flight.\<close>

definition run_now ::
  "(string \<Rightarrow> string \<Rightarrow> 'w \<Rightarrow> (string + action_result) \<times> 'w) \<Rightarrow> time \<Rightarrow> time \<Rightarrow> string \<Rightarrow> string \<Rightarrow> schedule_db \<Rightarrow> 'w \<Rightarrow>
   (app_error + string \<times> string) \<times> schedule_db \<times> 'w" where
  "run_now act t0 t1 uuid i db w =
     (case schedule_get db i of
        None \<Rightarrow> (Inl (NotFound (te ''errors.schedules.not_found'')), db, w)
      | Some r \<Rightarrow>
          if \<exists>x \<in> set (sc_runs db). su_id x = uuid then (Inl (DatabaseError ''UNIQUE constraint failed''), db, w)
          else
            (let db1 = insert_schedule_run (new_run t0 uuid i ''manual'') db;
                 (result, w1) = act (sh_action r) (sh_config r) w
             in (Inr (uuid, fst (run_outcome result)), close_run t1 uuid result db1, w1)))"

text \<open>\<open>cleanup_settings_update\<close>: the saved settings are written over the schedule of the Docker cleanup; \<open>render\<close>
  prints the five flags as a JSON object.\<close>

definition cleanup_cron :: "string \<Rightarrow> string" where
  "cleanup_cron hours =
     (if hours = ''1'' then ''0 * * * *''
      else if hours = ''6'' then ''0 */6 * * *''
      else if hours = ''12'' then ''0 */12 * * *''
      else if hours = ''48'' then ''0 0 */2 * *''
      else if hours = ''168'' then ''0 0 * * 0''
      else ''0 0 * * *'')"

definition cleanup_flags :: "(string \<Rightarrow> string option) \<Rightarrow> (string \<times> bool) list" where
  "cleanup_flags settings =
     [(''prune_images'', coalesce (settings ''cleanup.prune_images'') ''true'' \<noteq> ''false''),
      (''prune_build_cache'', coalesce (settings ''cleanup.prune_build_cache'') ''true'' \<noteq> ''false''),
      (''prune_containers'', coalesce (settings ''cleanup.prune_containers'') ''false'' = ''true''),
      (''prune_orphan_images'', coalesce (settings ''cleanup.prune_orphan_images'') ''false'' = ''true''),
      (''prune_railpack_buildkit'', coalesce (settings ''cleanup.prune_railpack_buildkit'') ''false'' = ''true'')]"

definition mirror_cleanup ::
  "cron_crate \<Rightarrow> ((string \<times> bool) list \<Rightarrow> string) \<Rightarrow> time \<Rightarrow> (string \<Rightarrow> string option) \<Rightarrow> schedule_db \<Rightarrow> schedule_db" where
  "mirror_cleanup C render now settings =
     (let cron = cleanup_cron (coalesce (settings ''cleanup.interval_hours'') ''24'')
      in update_schedule ''sched-cleanup-default''
           (\<lambda>r. r\<lparr>sh_cron := cron, sh_config := render (cleanup_flags settings),
                  sh_enabled := coalesce (settings ''cleanup.enabled'') ''true'' \<noteq> ''false'',
                  sh_next_run := next_or_none C cron ''UTC'' now, sh_updated := now\<rparr>))"

section \<open>One fire at a time\<close>

text \<open>The runner as a transition system: the tables, the ids in flight, the due rows of the tick under
  way that are still to be looked at, the row of a skipped fire that is to be advanced, the fires with
  their phase, and the manual runs under way. Every lock is a step of its own, and fires, manual runs
  and handlers interleave freely.\<close>

datatype phase = Claimed | Running string | Settled | Advanced

record runner =
  rn_db :: schedule_db
  rn_flight :: "string list"
  rn_due :: "due_row list"
  rn_skipped :: "due_row option"
  rn_fires :: "(due_row \<times> phase) list"

definition set_phase :: "due_row \<times> phase \<Rightarrow> phase \<Rightarrow> runner \<Rightarrow> runner" where
  "set_phase f p s = s\<lparr>rn_fires := (fst f, p) # remove1 f (rn_fires s)\<rparr>"

inductive runner_step :: "runner \<Rightarrow> runner \<Rightarrow> bool" where
  looks: "rn_due s = [] \<Longrightarrow> rn_skipped s = None \<Longrightarrow>
    runner_step s (s\<lparr>rn_due := find_due now (rn_db s)\<rparr>)"
| claims: "rn_due s = row # rows \<Longrightarrow> rn_skipped s = None \<Longrightarrow> du_id row \<notin> set (rn_flight s) \<Longrightarrow>
    runner_step s (s\<lparr>rn_due := rows, rn_flight := du_id row # rn_flight s, rn_fires := (row, Claimed) # rn_fires s\<rparr>)"
| skips: "rn_due s = row # rows \<Longrightarrow> rn_skipped s = None \<Longrightarrow> du_id row \<in> set (rn_flight s) \<Longrightarrow>
    runner_step s (s\<lparr>rn_due := rows, rn_skipped := Some row,
      rn_db := record_skipped now uuid (du_id row) ''previous run still in flight'' (rn_db s)\<rparr>)"
| skip_advances: "rn_skipped s = Some row \<Longrightarrow>
    runner_step s (s\<lparr>rn_skipped := None, rn_db := advance_next_run_at C now row (rn_db s)\<rparr>)"
| begins: "(row, Claimed) \<in> set (rn_fires s) \<Longrightarrow>
    runner_step s (set_phase (row, Claimed) (Running uuid) (s\<lparr>rn_db := begin_run now uuid row (rn_db s)\<rparr>))"
| finishes: "(row, Running uuid) \<in> set (rn_fires s) \<Longrightarrow>
    runner_step s (set_phase (row, Running uuid) Settled (s\<lparr>rn_db := finish_run now uuid row result (rn_db s)\<rparr>))"
| advances: "(row, Settled) \<in> set (rn_fires s) \<Longrightarrow>
    runner_step s (set_phase (row, Settled) Advanced (s\<lparr>rn_db := advance_next_run_at C now row (rn_db s)\<rparr>))"
| releases: "(row, Advanced) \<in> set (rn_fires s) \<Longrightarrow>
    runner_step s (s\<lparr>rn_fires := remove1 (row, Advanced) (rn_fires s),
                     rn_flight := removeAll (du_id row) (rn_flight s)\<rparr>)"
| manual_begins: "runner_step s (s\<lparr>rn_db := insert_schedule_run (new_run now uuid i ''manual'') (rn_db s)\<rparr>)"
| manual_ends: "runner_step s (s\<lparr>rn_db := close_run now uuid result (rn_db s)\<rparr>)"
| creates: "runner_step s (s\<lparr>rn_db := snd (schedule_create C now uuid user q (rn_db s))\<rparr>)"
| updates: "runner_step s (s\<lparr>rn_db := snd (schedule_update C now i p (rn_db s))\<rparr>)"
| removes: "runner_step s (s\<lparr>rn_db := snd (schedule_remove i (rn_db s))\<rparr>)"
| deletes: "runner_step s (s\<lparr>rn_db := delete_schedule i (rn_db s)\<rparr>)"
| enables: "runner_step s (s\<lparr>rn_db := schedule_enable now i (rn_db s)\<rparr>)"
| disables: "runner_step s (s\<lparr>rn_db := schedule_disable now i (rn_db s)\<rparr>)"
| mirrors: "runner_step s (s\<lparr>rn_db := mirror_cleanup C render now settings (rn_db s)\<rparr>)"

inductive_cases runner_stepE: "runner_step s t"

definition cron_open :: "schedule_run \<Rightarrow> bool" where
  "cron_open u \<longleftrightarrow> su_by u = ''cron'' \<and> su_status u = ''running''"

text \<open>Every run under way since \<open>old\<close> belongs to a fire, and the fires are the ids in flight, each once.\<close>

definition fires_inv :: "schedule_run set \<Rightarrow> runner \<Rightarrow> bool" where
  "fires_inv old s \<longleftrightarrow>
     distinct (map (\<lambda>f. du_id (fst f)) (rn_fires s)) \<and>
     set (rn_flight s) = (\<lambda>f. du_id (fst f)) ` set (rn_fires s) \<and>
     (\<forall>u \<in> set (sc_runs (rn_db s)). cron_open u \<longrightarrow> u \<in> old \<or>
        (\<exists>row. (row, Running (su_id u)) \<in> set (rn_fires s) \<and> du_id row = su_schedule u))"

text \<open>No operation on the tables opens a cron run but \<open>begin_run\<close>.\<close>

definition opens_none :: "schedule_db \<Rightarrow> schedule_db \<Rightarrow> bool" where
  "opens_none db db' \<longleftrightarrow> (\<forall>u \<in> set (sc_runs db'). cron_open u \<longrightarrow> u \<in> set (sc_runs db))"

named_theorems opens

lemma runs_update_schedule [simp]: "sc_runs (update_schedule i f db) = sc_runs db"
  by (simp add: update_schedule_def)

lemma opens_refl [opens]: "opens_none db db"
  by (simp add: opens_none_def)

lemma opens_same: "sc_runs db' = sc_runs db \<Longrightarrow> opens_none db db'"
  by (simp add: opens_none_def)

lemma runs_advance [simp]: "sc_runs (advance_next_run_at C now row db) = sc_runs db"
  by (simp add: advance_next_run_at_def split: sum.split option.split)

lemma opens_insert: "\<not> cron_open u \<Longrightarrow> opens_none db (insert_schedule_run u db)"
  by (simp add: opens_none_def insert_schedule_run_def)

lemma opens_skipped [opens]: "opens_none db (record_skipped now uuid i reason db)"
  by (simp add: record_skipped_def opens_insert cron_open_def)

lemma opens_manual [opens]: "opens_none db (insert_schedule_run (new_run now uuid i ''manual'') db)"
  by (simp add: opens_insert cron_open_def new_run_def)

lemma outcome_not_running: "fst (run_outcome r) \<noteq> ''running''"
  by (cases r) simp_all

lemma close_run_open:
  assumes "u \<in> set (sc_runs (close_run now uuid r db))" "cron_open u"
  shows "u \<in> set (sc_runs db) \<and> su_id u \<noteq> uuid"
  using assms outcome_not_running [of r]
  by (auto simp: close_run_def cron_open_def split: prod.splits dest!: in_sql_update)

lemma opens_close [opens]: "opens_none db (close_run now uuid r db)"
  using close_run_open by (auto simp: opens_none_def)

lemma runs_finish [simp]: "sc_runs (finish_run now uuid row r db) = sc_runs (close_run now uuid r db)"
  by (simp add: finish_run_def split: prod.split)

lemma runs_patch_if [simp]: "sc_runs (patch_if now i x f db) = sc_runs db"
  by (simp add: patch_if_def split: option.split)

lemma opens_delete [opens]: "opens_none db (delete_schedule i db)"
  by (simp add: opens_none_def delete_schedule_def set_sql_delete)

lemma opens_create [opens]: "opens_none db (snd (schedule_create C now uuid user q db))"
  by (rule opens_same) (simp add: schedule_create_def split: sum.split)

lemma opens_update [opens]: "opens_none db (snd (schedule_update C now i p db))"
  by (rule opens_same) (simp add: schedule_update_def Let_def split: sum.split)

lemma opens_remove [opens]: "opens_none db (snd (schedule_remove i db))"
  using opens_delete by (auto simp: schedule_remove_def opens_same split: option.split)

lemma opens_enable [opens]: "opens_none db (schedule_enable now i db)"
  by (simp add: schedule_enable_def opens_same)

lemma opens_disable [opens]: "opens_none db (schedule_disable now i db)"
  by (simp add: schedule_disable_def opens_same)

lemma opens_mirror [opens]: "opens_none db (mirror_cleanup C render now settings db)"
  by (simp add: mirror_cleanup_def Let_def opens_same)

lemma opens_advance [opens]: "opens_none db (advance_next_run_at C now row db)"
  by (simp add: opens_same)

lemma begin_run_open:
  "u \<in> set (sc_runs (begin_run now uuid row db)) \<Longrightarrow>
   u \<in> set (sc_runs db) \<or> (su_id u = uuid \<and> su_schedule u = du_id row)"
  by (auto simp: begin_run_def insert_schedule_run_def new_run_def split: if_splits)

lemma inv_same_fires:
  "fires_inv old s \<Longrightarrow> opens_none (rn_db s) (rn_db t) \<Longrightarrow> rn_fires t = rn_fires s \<Longrightarrow> rn_flight t = rn_flight s \<Longrightarrow>
   fires_inv old t"
  by (simp add: fires_inv_def opens_none_def)

lemma move_fire:
  assumes "f \<in> set fs" "distinct (map g fs)"
  shows "g f \<notin> g ` set (remove1 f fs) \<and> distinct (map g (remove1 f fs)) \<and>
    insert (g f) (g ` set (remove1 f fs)) = g ` set fs"
proof -
  have d: "distinct fs" "inj_on g (set fs)" using assms(2) by (simp_all add: distinct_map)
  then have s: "set (remove1 f fs) = set fs - {f}" by simp
  have "g f \<notin> g ` (set fs - {f})" using d(2) assms(1) by (auto dest: inj_onD)
  moreover have "distinct (map g (remove1 f fs))"
    using d by (auto simp: distinct_map intro: inj_on_subset)
  moreover have "insert (g f) (g ` (set fs - {f})) = g ` set fs"
    using assms(1) by (simp add: image_insert [symmetric] insert_absorb del: image_insert)
  ultimately show ?thesis unfolding s by simp
qed

lemma inv_moves:
  assumes "fires_inv old s" "f \<in> set (rn_fires s)"
    and "\<And>u. u \<in> set (sc_runs db) \<Longrightarrow> cron_open u \<Longrightarrow>
      (u \<in> set (sc_runs (rn_db s)) \<and> snd f \<noteq> Running (su_id u)) \<or> (p = Running (su_id u) \<and> du_id (fst f) = su_schedule u)"
  shows "fires_inv old (set_phase f p (s\<lparr>rn_db := db\<rparr>))"
proof -
  let ?g = "\<lambda>f :: due_row \<times> phase. du_id (fst f)"
  have m: "?g f \<notin> ?g ` set (remove1 f (rn_fires s))" "distinct (map ?g (remove1 f (rn_fires s)))"
    "insert (?g f) (?g ` set (remove1 f (rn_fires s))) = ?g ` set (rn_fires s)"
    using move_fire [of f "rn_fires s" ?g] assms(1,2) by (auto simp: fires_inv_def)
  have "u \<in> old \<or> (\<exists>row. (row, Running (su_id u)) \<in> set ((fst f, p) # remove1 f (rn_fires s)) \<and> du_id row = su_schedule u)"
    if u: "u \<in> set (sc_runs db)" "cron_open u" for u
    using assms(3) [OF u]
  proof
    assume a: "u \<in> set (sc_runs (rn_db s)) \<and> snd f \<noteq> Running (su_id u)"
    then consider "u \<in> old" | row where "(row, Running (su_id u)) \<in> set (rn_fires s)" "du_id row = su_schedule u"
      using assms(1) u(2) by (auto simp: fires_inv_def)
    then show ?thesis
    proof cases
      case (2 row)
      moreover have "(row, Running (su_id u)) \<noteq> f" using a by auto
      ultimately have "(row, Running (su_id u)) \<in> set (remove1 f (rn_fires s))" by simp
      then show ?thesis using 2(2) by auto
    qed simp
  qed auto
  then show ?thesis using m assms(1) by (auto simp: fires_inv_def set_phase_def)
qed

lemma inv_claims:
  assumes "fires_inv old s" "du_id row \<notin> set (rn_flight s)"
  shows "fires_inv old (s\<lparr>rn_due := rows, rn_flight := du_id row # rn_flight s, rn_fires := (row, Claimed) # rn_fires s\<rparr>)"
  using assms by (fastforce simp: fires_inv_def)

lemma inv_releases:
  assumes "fires_inv old s" "(row, Advanced) \<in> set (rn_fires s)"
  shows "fires_inv old (s\<lparr>rn_fires := remove1 (row, Advanced) (rn_fires s), rn_flight := removeAll (du_id row) (rn_flight s)\<rparr>)"
proof -
  let ?g = "\<lambda>f :: due_row \<times> phase. du_id (fst f)"
  have m: "du_id row \<notin> ?g ` set (remove1 (row, Advanced) (rn_fires s))" "distinct (map ?g (remove1 (row, Advanced) (rn_fires s)))"
    "insert (du_id row) (?g ` set (remove1 (row, Advanced) (rn_fires s))) = ?g ` set (rn_fires s)"
    using move_fire [of "(row, Advanced)" "rn_fires s" ?g] assms by (auto simp: fires_inv_def)
  have "set (removeAll (du_id row) (rn_flight s)) = ?g ` set (remove1 (row, Advanced) (rn_fires s))"
  proof -
    have "set (rn_flight s) = insert (du_id row) (?g ` set (remove1 (row, Advanced) (rn_fires s)))"
      using m(3) assms(1) by (simp add: fires_inv_def)
    then show ?thesis using m(1) by (simp add: Diff_insert_absorb)
  qed
  moreover have "(r, Running i) \<in> set (remove1 (row, Advanced) (rn_fires s)) \<longleftrightarrow> (r, Running i) \<in> set (rn_fires s)" for r i
    by (simp add: in_set_remove1)
  ultimately show ?thesis using m(2) assms(1) by (auto simp: fires_inv_def)
qed

lemma runner_step_inv:
  assumes "runner_step s t" "fires_inv old s"
  shows "fires_inv old t"
  using assms(1)
proof cases
  case (begins row uuid now)
  have "\<And>u. u \<in> set (sc_runs (begin_run now uuid row (rn_db s))) \<Longrightarrow>
      u \<in> set (sc_runs (rn_db s)) \<or> (uuid = su_id u \<and> du_id row = su_schedule u)"
    using begin_run_open by fastforce
  then show ?thesis unfolding begins(1) by (intro inv_moves [OF assms(2) begins(2)]) auto
next
  case (finishes row uuid now result)
  have "\<And>u. u \<in> set (sc_runs (close_run now uuid result (rn_db s))) \<Longrightarrow> cron_open u \<Longrightarrow>
      u \<in> set (sc_runs (rn_db s)) \<and> su_id u \<noteq> uuid"
    using close_run_open by blast
  then show ?thesis unfolding finishes(1) by (intro inv_moves [OF assms(2) finishes(2)]) auto
next
  case (advances row C now)
  then show ?thesis unfolding advances(1) by (intro inv_moves [OF assms(2) advances(2)]) simp
next
  case (claims row rows)
  then show ?thesis using inv_claims [OF assms(2)] by simp
next
  case (releases row)
  then show ?thesis using inv_releases [OF assms(2)] by simp
qed (rule inv_same_fires [OF assms(2)]; simp add: opens)+

interpretation runner_runs: invariant_system runner_step "fires_inv old"
  by unfold_locales (rule runner_step_inv)

lemma same_fire:
  "distinct (map g fs) \<Longrightarrow> x \<in> set fs \<Longrightarrow> y \<in> set fs \<Longrightarrow> g x = g y \<Longrightarrow> x = y"
  by (auto simp: distinct_map dest: inj_onD)

lemma open_run_fire:
  assumes "fires_inv old s" "u \<in> set (sc_runs (rn_db s))" "cron_open u" "u \<notin> old"
  obtains row where "(row, Running (su_id u)) \<in> set (rn_fires s)" "du_id row = su_schedule u"
  using assms by (auto simp: fires_inv_def)

text \<open>C19: from the start of the process on, whatever fires, manual runs and requests interleave, the
  fires under way are of distinct schedules, and of two scheduled runs of one schedule that were opened
  since at most one is open.\<close>

theorem one_fire_per_schedule:
  assumes "rn_fires s = []" "rn_flight s = []" "runner_step\<^sup>*\<^sup>* s t"
  shows "distinct (map (\<lambda>f. du_id (fst f)) (rn_fires t)) \<and>
    (\<forall>u u'. {u, u'} \<subseteq> {x \<in> set (sc_runs (rn_db t)) - set (sc_runs (rn_db s)). cron_open x} \<and>
       su_schedule u = su_schedule u' \<longrightarrow> su_id u = su_id u')"
proof -
  have "fires_inv (set (sc_runs (rn_db s))) s" using assms(1,2) by (simp add: fires_inv_def)
  then have inv: "fires_inv (set (sc_runs (rn_db s))) t" using runner_runs.run_inv [OF assms(3)] by blast
  have "su_id u = su_id u'"
    if u: "u \<in> set (sc_runs (rn_db t))" "u \<notin> set (sc_runs (rn_db s))" "cron_open u"
      and u': "u' \<in> set (sc_runs (rn_db t))" "u' \<notin> set (sc_runs (rn_db s))" "cron_open u'"
      and e: "su_schedule u = su_schedule u'" for u u'
  proof -
    obtain row where r: "(row, Running (su_id u)) \<in> set (rn_fires t)" "du_id row = su_schedule u"
      using open_run_fire [OF inv u(1,3,2)] .
    obtain row' where r': "(row', Running (su_id u')) \<in> set (rn_fires t)" "du_id row' = su_schedule u'"
      using open_run_fire [OF inv u'(1,3,2)] .
    have "distinct (map (\<lambda>f. du_id (fst f)) (rn_fires t))" using inv by (simp add: fires_inv_def)
    from same_fire [OF this r(1) r'(1)] have "(row, Running (su_id u)) = (row', Running (su_id u'))"
      using r(2) r'(2) e by simp
    then show ?thesis by simp
  qed
  moreover have "distinct (map (\<lambda>f. du_id (fst f)) (rn_fires t))" using inv by (simp add: fires_inv_def)
  ultimately show ?thesis by blast
qed

section \<open>Ticks and fires\<close>

lemma schedule_get_update_other:
  "i \<noteq> j \<Longrightarrow> (\<And>r. sh_id (f r) = sh_id r) \<Longrightarrow> schedule_get (update_schedule i f db) j = schedule_get db j"
proof -
  assume "i \<noteq> j" and f: "\<And>r. sh_id (f r) = sh_id r"
  have "sql_update (\<lambda>r. sh_id r = i) f t = sql_update (\<lambda>r. True) (\<lambda>r. if sh_id r = i then f r else r) t" for t
    by (simp add: sql_update_def)
  moreover have "sql_first (\<lambda>r. sh_id r = j) (map (\<lambda>r. if sh_id r = i then f r else r) t) = sql_first (\<lambda>r. sh_id r = j) t" for t
    using \<open>i \<noteq> j\<close> f by (induction t) (auto simp: sql_simps)
  ultimately show ?thesis by (simp add: schedule_get_def update_schedule_def sql_update_def)
qed

lemma schedule_get_update_same:
  assumes "\<And>r. sh_id (f r) = sh_id r"
  shows "schedule_get (update_schedule i f db) i = map_option f (schedule_get db i)"
proof -
  have "sql_update (\<lambda>r. sh_id r = i) f t = map (\<lambda>r. if sh_id r = i then f r else r) t" for t
    by (simp add: sql_update_def)
  moreover have "sql_first (\<lambda>r. sh_id r = i) (map (\<lambda>r. if sh_id r = i then f r else r) t) =
      map_option f (sql_first (\<lambda>r. sh_id r = i) t)" for t
    using assms by (induction t) (auto simp: sql_simps)
  ultimately show ?thesis by (simp add: schedule_get_def update_schedule_def)
qed

lemma rows_insert_run [simp]: "sc_rows (insert_schedule_run u db) = sc_rows db"
  by (simp add: insert_schedule_run_def)

lemma rows_begin [simp]: "sc_rows (begin_run now uuid row db) = sc_rows db"
  by (simp add: begin_run_def)

lemma rows_close [simp]: "sc_rows (close_run now uuid r db) = sc_rows db"
  by (simp add: close_run_def split: prod.split)

lemma rows_skipped [simp]: "sc_rows (record_skipped now uuid i reason db) = sc_rows db"
  by (simp add: record_skipped_def)

lemma get_rows_cong: "sc_rows db = sc_rows db' \<Longrightarrow> schedule_get db i = schedule_get db' i"
  by (simp add: schedule_get_def)

lemma get_advance:
  "schedule_get (advance_next_run_at C now row db) j =
     map_option (\<lambda>r. if sh_id r = du_id row then
         r\<lparr>sh_next_run := keep (next_or_none C (du_cron row) (du_zone row) now) (sh_next_run r)\<rparr> else r)
       (schedule_get db j)"
proof (cases "next_or_none C (du_cron row) (du_zone row) now")
  case None
  then have "advance_next_run_at C now row db = db"
    by (auto simp: advance_next_run_at_def next_or_none_def split: sum.splits option.splits)
  then show ?thesis using None by (cases "schedule_get db j") (auto simp: keep_def)
next
  case (Some n)
  then have a: "advance_next_run_at C now row db = update_schedule (du_id row) (\<lambda>r. r\<lparr>sh_next_run := Some n\<rparr>) db"
    by (auto simp: advance_next_run_at_def next_or_none_def split: sum.splits option.splits)
  have j: "sh_id r = j" if "schedule_get db j = Some r" for r
    using that by (auto simp: schedule_get_def dest: sql_first_Some)
  show ?thesis
  proof (cases "j = du_id row")
    case True
    then show ?thesis unfolding a using Some j
      by (auto simp: schedule_get_update_same keep_def intro!: option.map_cong)
  next
    case False
    then show ?thesis unfolding a using j
      by (cases "schedule_get db j") (auto simp: schedule_get_update_other)
  qed
qed

lemma tick_rows_flight:
  "tick_rows C now uuids n rows db flight = (db', flight', fires) \<Longrightarrow>
   set flight' = set flight \<union> du_id ` set rows \<and> du_id ` set fires = du_id ` set rows - set flight \<and>
   distinct (map du_id fires)"
proof (induction C now uuids n rows db flight arbitrary: db' flight' fires rule: tick_rows.induct)
  case (2 C now uuids n row rows db flight)
  show ?case
  proof (cases "du_id row \<in> set flight")
    case True
    then show ?thesis using 2(1) [OF True] 2(3) by auto
  next
    case False
    then obtain fs where fs: "tick_rows C now uuids (Suc n) rows db (du_id row # flight) = (db', flight', fs)"
      "fires = row # fs"
      using 2(3) by (auto split: prod.splits)
    then show ?thesis using 2(2) [OF False fs(1)] False by auto
  qed
qed simp

text \<open>The skipped records: for a schedule that exists, with ids never used before.\<close>

definition fresh_from :: "(nat \<Rightarrow> string) \<Rightarrow> nat \<Rightarrow> schedule_db \<Rightarrow> bool" where
  "fresh_from uuids n db \<longleftrightarrow> inj uuids \<and> (\<forall>m \<ge> n. uuids m \<notin> su_id ` set (sc_runs db))"

definition skip_of :: "string \<Rightarrow> time \<Rightarrow> schedule_run \<Rightarrow> bool" where
  "skip_of i now u \<longleftrightarrow> su_schedule u = i \<and> su_status u = ''skipped'' \<and> su_by u = ''cron'' \<and> su_started u = now"

lemma skipped_runs:
  assumes "fresh_from uuids n db" "schedule_get db i \<noteq> None"
  obtains u where "sc_runs (record_skipped now (uuids n) i reason db) = sc_runs db @ [u]" "skip_of i now u" "su_id u = uuids n"
proof -
  have "\<not> (\<exists>x \<in> set (sc_runs db). su_id x = uuids n)" using assms(1) by (force simp: fresh_from_def)
  then show ?thesis
    using assms(2) that by (auto simp: record_skipped_def insert_schedule_run_def new_run_def skip_of_def)
qed

lemma tick_rows_skipped:
  "tick_rows C now uuids n rows db flight = (db', flight', fires) \<Longrightarrow> fresh_from uuids n db \<Longrightarrow>
   \<forall>row \<in> set rows. schedule_get db (du_id row) \<noteq> None \<Longrightarrow>
   set (sc_runs db) \<subseteq> set (sc_runs db') \<and>
   (\<forall>row \<in> set rows. du_id row \<in> set flight \<longrightarrow> (\<exists>u \<in> set (sc_runs db'). u \<notin> set (sc_runs db) \<and> skip_of (du_id row) now u))"
proof (induction C now uuids n rows db flight arbitrary: db' flight' fires rule: tick_rows.induct)
  case (2 C now uuids n row rows db flight)
  show ?case
  proof (cases "du_id row \<in> set flight")
    case True
    let ?d = "record_skipped now (uuids n) (du_id row) ''previous run still in flight'' db"
    obtain u where u: "sc_runs ?d = sc_runs db @ [u]" "skip_of (du_id row) now u" "su_id u = uuids n"
      using skipped_runs [OF 2(4)] 2(5) by (metis list.set_intros(1))
    have fresh: "fresh_from uuids (Suc n) (advance_next_run_at C now row ?d)"
      using 2(4) u(1,3) by (auto simp: fresh_from_def dest: injD)
    have get: "\<forall>r \<in> set rows. schedule_get (advance_next_run_at C now row ?d) (du_id r) \<noteq> None"
      using 2(5) get_rows_cong [OF rows_skipped] by (auto simp: get_advance)
    have "u \<notin> set (sc_runs db)" using 2(4) u(3) by (force simp: fresh_from_def)
    then show ?thesis
      using 2(1) [OF True _ fresh get] 2(3) True u by fastforce
  next
    case False
    then obtain fs where fs: "tick_rows C now uuids (Suc n) rows db (du_id row # flight) = (db', flight', fs)"
      using 2(3) by (auto split: prod.splits)
    have fresh: "fresh_from uuids (Suc n) db" using 2(4) by (auto simp: fresh_from_def)
    show ?thesis using 2(2) [OF False fs fresh] 2(5) False by auto
  qed
qed simp

lemma sql_update_append: "sql_update P f (s @ t) = sql_update P f s @ sql_update P f t"
  by (simp add: sql_update_def)

lemma due_row_known: "row \<in> set (find_due now db) \<Longrightarrow> schedule_get db (du_id row) \<noteq> None"
  by (auto simp: find_due_def due_of_def schedule_get_def sql_first_None)

lemma not_due:
  assumes "\<And>r. r \<in> set (sc_rows db) \<Longrightarrow> sh_id r = i \<Longrightarrow> \<not> is_due t r"
  shows "i \<notin> du_id ` set (find_due t db)"
  using assms by (auto simp: find_due_def due_of_def)

lemma advanced_rows:
  assumes "next_or_none C (du_cron row) (du_zone row) now = Some n"
    and "r \<in> set (sc_rows (advance_next_run_at C now row db))" "sh_id r = du_id row"
  shows "sh_next_run r = Some n"
  using assms by (auto simp: advance_next_run_at_def next_or_none_def update_schedule_def split: sum.splits option.splits
      dest!: in_sql_update)

text \<open>C22: a tick leaves no due schedule unserved: the fires it starts are exactly the due schedules that were not
  in flight, each once, all of them are in flight afterwards, and one that was in flight before has a new
  record of a skipped run.\<close>

theorem tick_serves_due:
  assumes "run_tick C now uuids db flight = (db', flight', fires)" "fresh_from uuids 0 db"
  shows "set flight' = set flight \<union> du_id ` set (find_due now db) \<and> distinct (map du_id fires) \<and>
    du_id ` set fires = du_id ` set (find_due now db) - set flight \<and>
    (\<forall>i \<in> du_id ` set (find_due now db) \<inter> set flight.
       \<exists>u \<in> set (sc_runs db'). u \<notin> set (sc_runs db) \<and> skip_of i now u)"
proof -
  have t: "tick_rows C now uuids 0 (find_due now db) db flight = (db', flight', fires)"
    using assms(1) by (simp add: run_tick_def)
  have "\<forall>row \<in> set (find_due now db). schedule_get db (du_id row) \<noteq> None" using due_row_known by blast
  from tick_rows_skipped [OF t assms(2) this] tick_rows_flight [OF t] show ?thesis by blast
qed

text \<open>C31: a completed fire is recorded with the result of its action, in its run and in its schedule, and when the
  expression has a next time the schedule is not due before it.\<close>

theorem fire_settles:
  assumes "run_one C act t0 t1 t2 uuid row db w = (db', w')" "act row w = (result, w')"
    and "schedule_get db (du_id row) = Some r" "uuid \<notin> su_id ` set (sc_runs db)"
    and "next_or_none C (du_cron row) (du_zone row) t2 = Some n" "run_outcome result = (st, out, err, task)"
  shows "schedule_get db' (du_id row) = Some (r\<lparr>sh_last_run := Some t1, sh_last_status := Some st,
      sh_last_error := err, sh_next_run := Some n\<rparr>) \<and>
    sc_runs db' = sc_runs db @ [\<lparr>su_id = uuid, su_schedule = du_id row, su_started = t0, su_finished = Some t1,
      su_status = st, su_by = ''cron'', su_output = out, su_error = err, su_task = task\<rparr>] \<and>
    (\<forall>t < n. du_id row \<notin> du_id ` set (find_due t db'))"
proof -
  let ?d1 = "begin_run t0 uuid row db"
  let ?d2 = "finish_run t1 uuid row result ?d1"
  have db': "db' = advance_next_run_at C t2 row ?d2" using assms(1,2) by (simp add: run_one_def)
  have id: "sh_id r = du_id row" using assms(3) by (auto simp: schedule_get_def dest: sql_first_Some)
  have get1: "schedule_get (close_run t1 uuid result ?d1) (du_id row) = Some r"
    using assms(3) get_rows_cong [of "close_run t1 uuid result ?d1" db] by simp
  have get2: "schedule_get ?d2 (du_id row) = Some (r\<lparr>sh_last_run := Some t1, sh_last_status := Some st, sh_last_error := err\<rparr>)"
    using assms(6) get1 by (simp add: finish_run_def schedule_get_update_same)
  have get: "schedule_get db' (du_id row) = Some (r\<lparr>sh_last_run := Some t1, sh_last_status := Some st,
      sh_last_error := err, sh_next_run := Some n\<rparr>)"
    unfolding db' get_advance get2 using id assms(5) by (simp add: keep_def)
  have new: "sc_runs ?d1 = sc_runs db @ [new_run t0 uuid (du_id row) ''cron'']"
    using assms(3,4) by (auto simp: begin_run_def insert_schedule_run_def new_run_def)
  have old: "sql_update (\<lambda>u. su_id u = uuid) f (sc_runs db) = sc_runs db" for f
    using assms(4) by (auto simp: sql_update_def intro!: map_idI)
  have runs: "sc_runs db' = sc_runs db @ [\<lparr>su_id = uuid, su_schedule = du_id row, su_started = t0, su_finished = Some t1,
      su_status = st, su_by = ''cron'', su_output = out, su_error = err, su_task = task\<rparr>]"
    unfolding db' using assms(6) new old by (simp add: close_run_def sql_update_append sql_simps new_run_def)
  have "du_id row \<notin> du_id ` set (find_due t db')" if "t < n" for t
    using advanced_rows [OF assms(5)] that unfolding db'
    by (intro not_due) (auto simp: is_due_def)
  then show ?thesis using get runs by blast
qed

text \<open>a schedule whose expression has no time left, for instance one that names a year, is never advanced past
  its last fire: it stays due after each completed fire, so every tick fires it again.\<close>

theorem exhausted_schedule_refires:
  assumes "row \<in> set (find_due now db)" "next_or_none C (du_cron row) (du_zone row) t2 = None" "now \<le> later"
    and "run_one C act t0 t1 t2 uuid row db w = (db', w')"
  shows "row \<in> set (find_due later db') \<and> du_id row \<in> du_id ` set (snd (snd (run_tick C later uuids db' [])))"
proof -
  obtain result w1 where act: "act row w = (result, w1)" by (cases "act row w")
  obtain st out err task where o: "run_outcome result = (st, out, err, task)" by (cases "run_outcome result")
  obtain r where r: "r \<in> set (sc_rows db)" "is_due now r" "row = due_of r"
    using assms(1) by (auto simp: find_due_def)
  have "advance_next_run_at C t2 row d = d" for d
    using assms(2) by (auto simp: advance_next_run_at_def next_or_none_def split: sum.splits option.splits)
  then have db': "db' = finish_run t1 uuid row result (begin_run t0 uuid row db)"
    using assms(4) act by (simp add: run_one_def)
  let ?r = "r\<lparr>sh_last_run := Some t1, sh_last_status := Some st, sh_last_error := err\<rparr>"
  have "?r \<in> set (sc_rows db')"
    unfolding db' using o r(1,3) by (force simp: finish_run_def update_schedule_def set_sql_update due_of_def)
  moreover have "is_due later ?r" "due_of ?r = row"
    using r(2,3) assms(3) by (auto simp: is_due_def due_of_def split: option.splits)
  ultimately have due: "row \<in> set (find_due later db')" by (force simp: find_due_def)
  obtain d2 fl fires where t: "tick_rows C later uuids 0 (find_due later db') db' [] = (d2, fl, fires)"
    by (cases "tick_rows C later uuids 0 (find_due later db') db' []")
  have "du_id row \<in> du_id ` set fires" using tick_rows_flight [OF t] due by simp
  then show ?thesis using due t by (simp add: run_tick_def)
qed

lemma filter_same: "filter P xs = filter P ys \<Longrightarrow> x \<in> set xs \<Longrightarrow> P x \<Longrightarrow> x \<in> set ys"
proof -
  assume e: "filter P xs = filter P ys" and x: "x \<in> set xs" "P x"
  have "x \<in> set (filter P xs)" using x by simp
  then show "x \<in> set ys" unfolding e by simp
qed

text \<open>Seeding at boot leaves alone every schedule that has a next run or whose expression is rejected.\<close>

lemma seed_keeps:
  assumes "\<And>r. r \<in> set rs \<Longrightarrow> sh_id r = i \<Longrightarrow> next_or_none C (sh_cron r) (sh_zone r) now = None"
  shows "filter (\<lambda>r. sh_id r = i) (sc_rows (fold (\<lambda>r d. case next_or_none C (sh_cron r) (sh_zone r) now of
      None \<Rightarrow> d | Some t \<Rightarrow> update_schedule (sh_id r) (\<lambda>x. x\<lparr>sh_next_run := Some t\<rparr>) d) rs db)) =
    filter (\<lambda>r. sh_id r = i) (sc_rows db)"
  using assms
proof (induction rs arbitrary: db)
  case (Cons r rs)
  have other: "filter (\<lambda>x. sh_id x = i) (sc_rows (update_schedule j f d)) = filter (\<lambda>x. sh_id x = i) (sc_rows d)"
    if "j \<noteq> i" "\<And>x. sh_id (f x) = sh_id x" for j f d
  proof -
    have "filter (\<lambda>x. sh_id x = i) (map (\<lambda>x. if sh_id x = j then f x else x) t) = filter (\<lambda>x. sh_id x = i) t" for t
      using that by (induction t) auto
    then show ?thesis by (simp add: update_schedule_def sql_update_def)
  qed
  show ?case
  proof (cases "sh_id r = i")
    case True
    then show ?thesis using Cons by simp
  next
    case False
    then show ?thesis
      using Cons other by (cases "next_or_none C (sh_cron r) (sh_zone r) now") auto
  qed
qed simp

lemma seeded_rows:
  assumes "\<And>r. r \<in> set (sc_rows db) \<Longrightarrow> sh_id r = i \<Longrightarrow> sh_enabled r \<Longrightarrow> sh_next_run r = None \<Longrightarrow>
      next_or_none C (sh_cron r) (sh_zone r) now = None"
  shows "filter (\<lambda>r. sh_id r = i) (sc_rows (seed_next_run_at C now db)) = filter (\<lambda>r. sh_id r = i) (sc_rows db)"
  unfolding seed_next_run_at_def by (rule seed_keeps) (use assms in auto)

text \<open>a run that was missed is made up for: whatever time has passed, at boot the schedule keeps the
  time it missed and the first tick fires it.\<close>

theorem missed_run_fires_late:
  assumes "distinct (map sh_id (sc_rows db))" "r \<in> set (sc_rows db)" "sh_enabled r" "sh_next_run r = Some t" "t \<le> now"
  shows "due_of r \<in> set (find_due now (seed_next_run_at C boot db)) \<and>
    sh_id r \<in> du_id ` set (snd (snd (run_tick C now uuids (seed_next_run_at C boot db) [])))"
proof -
  let ?d = "seed_next_run_at C boot db"
  have "x = r" if "x \<in> set (sc_rows db)" "sh_id x = sh_id r" for x
    using assms(1,2) that by (auto simp: distinct_map dest: inj_onD)
  then have "filter (\<lambda>x. sh_id x = sh_id r) (sc_rows ?d) = filter (\<lambda>x. sh_id x = sh_id r) (sc_rows db)"
    using assms(4) by (intro seeded_rows) fastforce
  then have "r \<in> set (sc_rows ?d)"
    using filter_same [OF sym assms(2)] by blast
  then have due: "due_of r \<in> set (find_due now ?d)"
    using assms(3-5) by (auto simp: find_due_def is_due_def)
  obtain d2 fl fires where t: "tick_rows C now uuids 0 (find_due now ?d) ?d [] = (d2, fl, fires)"
    by (cases "tick_rows C now uuids 0 (find_due now ?d) ?d []")
  have "du_id (due_of r) \<in> du_id ` set fires" using tick_rows_flight [OF t] due by simp
  then show ?thesis using due t by (simp add: run_tick_def due_of_def)
qed

text \<open>the days of the week are 1 to 7 for the cron crate, so it rejects the expression that \<open>@weekly\<close> and
  the weekly cleanup stand for: a schedule with \<open>@weekly\<close> cannot be created, and saving a weekly cleanup
  silently leaves it without a next run, which nothing gives it, so that it never runs.\<close>

theorem weekly_never_runs:
  assumes "cc_error C ''0 0 0 * * 0 *'' = Some e" "trim (hq_name q) \<noteq> []" "hq_action q = ''cleanup''"
    and "hq_cron q = ''@weekly''" "settings ''cleanup.interval_hours'' = Some ''168''"
  shows "\<exists>msg. fst (schedule_create C now uuid user q db) = Inl (BadRequest (Lit msg)) \<and>
    ''sched-cleanup-default'' \<notin>
      du_id ` set (find_due t (seed_next_run_at C boot (mirror_cleanup C render now settings db)))"
proof -
  have w: "normalise ''@weekly'' = ''0 0 0 * * 0 *''" "normalise ''0 0 * * 0'' = ''0 0 0 * * 0 *''"
    by code_simp+
  let ?i = "''sched-cleanup-default''"
  let ?d = "mirror_cleanup C render now settings db"
  have bad: "next_or_none C ''0 0 * * 0'' z x = None" for z x
    using assms(1) w by (simp add: next_or_none_def next_fire_utc_def cron_parse_def)
  have rows: "sh_cron r = ''0 0 * * 0'' \<and> sh_next_run r = None" if "r \<in> set (sc_rows ?d)" "sh_id r = ?i" for r
    using that assms(5) bad
    by (auto simp: mirror_cleanup_def cleanup_cron_def coalesce_def update_schedule_def dest!: in_sql_update)
  then have "filter (\<lambda>r. sh_id r = ?i) (sc_rows (seed_next_run_at C boot ?d)) = filter (\<lambda>r. sh_id r = ?i) (sc_rows ?d)"
    using bad by (intro seeded_rows) simp
  then have "sh_next_run r = None" if "r \<in> set (sc_rows (seed_next_run_at C boot ?d))" "sh_id r = ?i" for r
    using rows filter_same [OF _ that(1)] that by blast
  then have "?i \<notin> du_id ` set (find_due t (seed_next_run_at C boot ?d))"
    by (intro not_due) (simp add: is_due_def)
  moreover have "\<exists>msg. fst (schedule_create C now uuid user q db) = Inl (BadRequest (Lit msg))"
    using assms(1-4) w by (simp add: schedule_create_def check_action_type_def cron_parse_def)
  ultimately show ?thesis by blast
qed

section \<open>Witnesses\<close>

definition sample_cron :: cron_crate where
  "sample_cron = \<lparr>cc_error = (\<lambda>e. if e = ''0 0 0 * * 0 *'' then Some ''Days of Week must be greater than or equal to 1'' else None),
     cc_next = (\<lambda>e z t. Some (t + 60))\<rparr>"

definition sample_schedule :: "string \<Rightarrow> schedule_row" where
  "sample_schedule i = \<lparr>sh_id = i, sh_name = i, sh_description = [], sh_cron = ''* * * * *'', sh_zone = ''UTC'',
     sh_action = ''cleanup'', sh_config = ''{}'', sh_enabled = True, sh_last_run = None, sh_next_run = Some 60,
     sh_last_status = None, sh_last_error = None, sh_by = None, sh_system = False, sh_updated = 0\<rparr>"

definition sample_schedules :: schedule_db where
  "sample_schedules = \<lparr>sc_rows = [sample_schedule ''a'', sample_schedule ''b''], sc_runs = [], sc_users = [''u'']\<rparr>"

definition sample_runner :: runner where
  "sample_runner = \<lparr>rn_db = sample_schedules\<lparr>sc_rows := [sample_schedule ''a'']\<rparr>, rn_flight = [], rn_due = [],
     rn_skipped = None, rn_fires = []\<rparr>"

lemma sample_due: "find_due 100 (sample_schedules\<lparr>sc_rows := [sample_schedule ''a'']\<rparr>) = [due_of (sample_schedule ''a'')]"
  by (simp add: find_due_def is_due_def sample_schedule_def)

theorem one_fire_per_schedule_witness:
  "\<exists>t u. runner_step\<^sup>*\<^sup>* sample_runner t \<and> rn_fires t = [(due_of (sample_schedule ''a''), Running u)] \<and>
     distinct (map (\<lambda>f. du_id (fst f)) (rn_fires t)) \<and> map su_status (sc_runs (rn_db t)) = [''running'']"
proof -
  let ?row = "due_of (sample_schedule ''a'')"
  let ?s1 = "sample_runner\<lparr>rn_due := [?row]\<rparr>"
  let ?s2 = "?s1\<lparr>rn_due := [], rn_flight := [''a''], rn_fires := [(?row, Claimed)]\<rparr>"
  let ?t = "set_phase (?row, Claimed) (Running ''x'') (?s2\<lparr>rn_db := begin_run 100 ''x'' ?row (rn_db ?s2)\<rparr>)"
  have s1: "runner_step sample_runner ?s1"
    using runner_step.looks [of sample_runner 100] by (simp add: sample_runner_def sample_due)
  have s2: "runner_step ?s1 ?s2"
    using runner_step.claims [of ?s1 ?row "[]"] by (simp add: sample_runner_def due_of_def sample_schedule_def)
  have s3: "runner_step ?s2 ?t"
    by (rule runner_step.begins) simp
  have run: "runner_step\<^sup>*\<^sup>* sample_runner ?t"
    using r_into_rtranclp [of runner_step, OF s3] by (blast intro: converse_rtranclp_into_rtranclp [of runner_step, OF s1]
        converse_rtranclp_into_rtranclp [of runner_step, OF s2])
  have "distinct (map (\<lambda>f. du_id (fst f)) (rn_fires ?t))"
    using one_fire_per_schedule [OF _ _ run] by (simp add: sample_runner_def)
  moreover have "map su_status (sc_runs (rn_db ?t)) = [''running'']"
  proof -
    let ?d = "sample_schedules\<lparr>sc_rows := [sample_schedule ''a'']\<rparr>"
    have d: "rn_db ?t = begin_run 100 ''x'' ?row ?d" by (simp add: set_phase_def sample_runner_def)
    have "schedule_get ?d (du_id ?row) \<noteq> None"
      by (simp add: schedule_get_def sql_simps due_of_def)
    moreover have "sc_runs ?d = []" by (simp add: sample_schedules_def)
    ultimately show ?thesis
      unfolding d by (simp add: begin_run_def insert_schedule_run_def new_run_def)
  qed
  moreover have "rn_fires ?t = [(?row, Running ''x'')]" by (simp add: set_phase_def)
  ultimately show ?thesis using run by (intro exI [of _ ?t] exI [of _ "''x''"] conjI)
qed

theorem tick_serves_due_witness:
  "\<exists>db' flight' fires. run_tick sample_cron 100 (\<lambda>n. replicate n CHR ''x'') sample_schedules [''a''] = (db', flight', fires) \<and>
     du_id ` set fires = {''b''} \<and> (\<exists>u \<in> set (sc_runs db'). skip_of ''a'' 100 u)"
proof -
  obtain db' flight' fires where t: "run_tick sample_cron 100 (\<lambda>n. replicate n CHR ''x'') sample_schedules [''a''] = (db', flight', fires)"
    by (cases "run_tick sample_cron 100 (\<lambda>n. replicate n CHR ''x'') sample_schedules [''a'']")
  have f: "fresh_from (\<lambda>n. replicate n CHR ''x'') 0 sample_schedules"
    by (auto simp: fresh_from_def sample_schedules_def inj_def)
  have d: "du_id ` set (find_due 100 sample_schedules) = {''a'', ''b''}"
    by (simp add: find_due_def is_due_def due_of_def sample_schedules_def sample_schedule_def)
  show ?thesis using tick_serves_due [OF t f] t unfolding d by auto
qed

theorem fire_settles_witness:
  "\<exists>db'. run_one sample_cron (\<lambda>row w. (Inl ''boom'', w)) 100 101 102 ''x'' (due_of (sample_schedule ''a'')) sample_schedules [] =
     (db', [] :: nat list) \<and> map_option sh_last_error (schedule_get db' ''a'') = Some (Some ''boom'') \<and>
     ''a'' \<notin> du_id ` set (find_due 161 db')"
proof -
  obtain db' where r: "run_one sample_cron (\<lambda>row w. (Inl ''boom'', w)) 100 101 102 ''x'' (due_of (sample_schedule ''a'')) sample_schedules [] =
     (db', [] :: nat list)"
    by (simp add: run_one_def)
  let ?row = "due_of (sample_schedule ''a'')"
  have g: "schedule_get sample_schedules (du_id ?row) = Some (sample_schedule ''a'')"
    by (simp add: schedule_get_def sample_schedules_def sample_schedule_def due_of_def sql_simps)
  have f: "''x'' \<notin> su_id ` set (sc_runs sample_schedules)" by (simp add: sample_schedules_def)
  have n: "next_or_none sample_cron (du_cron ?row) (du_zone ?row) 102 = Some 162"
  proof -
    have "normalise (du_cron ?row) \<noteq> ''0 0 0 * * 0 *''" by code_simp
    then show ?thesis by (simp add: next_or_none_def next_fire_utc_def cron_parse_def sample_cron_def)
  qed
  have "du_id ?row = ''a''" by (simp add: due_of_def sample_schedule_def)
  then show ?thesis
    using fire_settles [OF r _ g f n, of "Inl ''boom''" "''failed''" "[]" "Some ''boom''" None] r by auto
qed

theorem exhausted_schedule_refires_witness:
  "\<exists>db'. run_one (sample_cron\<lparr>cc_next := \<lambda>e z t. None\<rparr>) (\<lambda>row w. (Inr \<lparr>at_output = [], at_task = None\<rparr>, w)) 100 101 102 ''x''
      (due_of (sample_schedule ''a'')) sample_schedules [] = (db', [] :: nat list) \<and>
    due_of (sample_schedule ''a'') \<in> set (find_due 160 db')"
proof -
  let ?C = "sample_cron\<lparr>cc_next := \<lambda>e z t. None\<rparr>"
  let ?row = "due_of (sample_schedule ''a'')"
  obtain db' where r: "run_one ?C (\<lambda>row w. (Inr \<lparr>at_output = [], at_task = None\<rparr>, w)) 100 101 102 ''x'' ?row
      sample_schedules [] = (db', [] :: nat list)"
    by (simp add: run_one_def)
  have d: "?row \<in> set (find_due 100 sample_schedules)"
    by (simp add: find_due_def is_due_def sample_schedules_def sample_schedule_def)
  have n: "next_or_none ?C (du_cron ?row) (du_zone ?row) 102 = None"
    by (simp add: next_or_none_def next_fire_utc_def split: sum.split)
  have "(100 :: int) \<le> 160" by simp
  from exhausted_schedule_refires [OF d n this r] show ?thesis using r by blast
qed

theorem missed_run_fires_late_witness:
  "due_of (sample_schedule ''b'') \<in> set (find_due 900000 (seed_next_run_at sample_cron 899990 sample_schedules))"
  using missed_run_fires_late [of sample_schedules "sample_schedule ''b''" 60 900000 sample_cron 899990]
  by (simp add: sample_schedules_def sample_schedule_def)

theorem weekly_never_runs_witness:
  "\<exists>msg. fst (schedule_create sample_cron 5 ''x'' ''u'' \<lparr>hq_name = ''w'', hq_description = None, hq_cron = ''@weekly'',
      hq_zone = ''UTC'', hq_action = ''cleanup'', hq_config = ''{}'', hq_enabled = True\<rparr> sample_schedules) =
    Inl (BadRequest (Lit msg))"
proof -
  let ?q = "\<lparr>hq_name = ''w'', hq_description = None, hq_cron = ''@weekly'', hq_zone = ''UTC'', hq_action = ''cleanup'',
    hq_config = ''{}'', hq_enabled = True\<rparr>"
  have e: "cc_error sample_cron ''0 0 0 * * 0 *'' = Some ''Days of Week must be greater than or equal to 1''"
    by (simp add: sample_cron_def)
  have "trim (hq_name ?q) \<noteq> []" by code_simp
  from weekly_never_runs [OF e this, of "(\<lambda>_. Some ''168'')" 5 "''x''" "''u''" sample_schedules]
  show ?thesis by simp
qed

end
