(* ===== verification/BackupFormat.thy ===== *)
theory BackupFormat
  imports Prelude
begin

text \<open>
  What a database backup is made of and how it is restored (backup/executor.rs, backup/restore.rs and the
  pure parts of backup/scheduler.rs and api/backups.rs): the commands of a dump, its wire format, the
  key it is stored under, the format read back from the key or from the name of an uploaded file, and
  the commands of a restore with the SQL they run. Docker, gzip and tar are parameters. A text stands
  for its UTF-8 bytes here. The lemmas show that a restore is fed the very dump the backup took, for one
  database and for a cluster, and that the SQL reads the names and passwords back as they are.
\<close>

type_synonym blob = "8 word list"

type_synonym env_vars = "string \<Rightarrow> string option"

definition bytes_of :: "string \<Rightarrow> blob" where
  "bytes_of s = map (\<lambda>c. of_nat (of_char c)) s"

definition env_or :: "env_vars \<Rightarrow> string \<Rightarrow> string \<Rightarrow> string" where
  "env_or env key d = (case env key of None \<Rightarrow> d | Some v \<Rightarrow> v)"

section \<open>Taking a dump\<close>

record db_credential =
  dc_name :: string
  dc_user :: string
  dc_pass :: string

datatype dump_format = PgCustom | SqlGzipped | MongoArchive

definition postgres_like :: "string \<Rightarrow> bool" where
  "postgres_like cat = (cat = ''postgresql'' \<or> cat = ''postgis'' \<or> cat = ''timescaledb'')"

definition mysql_like :: "string \<Rightarrow> bool" where
  "mysql_like cat = (cat = ''mysql'' \<or> cat = ''mariadb'')"

definition per_db_dump_format :: "string \<Rightarrow> dump_format option" where
  "per_db_dump_format cat =
     (if postgres_like cat then Some PgCustom
      else if mysql_like cat then Some SqlGzipped
      else if cat = ''mongodb'' then Some MongoArchive
      else None)"

definition supports_per_db_backup :: "string \<Rightarrow> bool" where
  "supports_per_db_backup cat = (postgres_like cat \<or> mysql_like cat \<or> cat = ''mongodb'')"

definition supports_backup :: "string \<Rightarrow> bool" where
  "supports_backup cat = (postgres_like cat \<or> mysql_like cat \<or> cat = ''mongodb'')"

definition mysql_pass_key :: "string \<Rightarrow> string" where
  "mysql_pass_key cat = (if cat = ''mariadb'' then ''MARIADB_ROOT_PASSWORD'' else ''MYSQL_ROOT_PASSWORD'')"

definition pg_root_creds :: "env_vars \<Rightarrow> string \<times> string" where
  "pg_root_creds env = (env_or env ''POSTGRES_USER'' ''postgres'', env_or env ''POSTGRES_PASSWORD'' [])"

definition per_db_dump_args ::
  "string \<Rightarrow> env_vars \<Rightarrow> db_credential option \<Rightarrow> string \<Rightarrow> string list option" where
  "per_db_dump_args cat env cred db =
     (if postgres_like cat then
        Some [''env'', ''PGPASSWORD='' @ env_or env ''POSTGRES_PASSWORD'' [], ''pg_dump'', ''-U'',
              env_or env ''POSTGRES_USER'' ''postgres'', ''-d'', db, ''-Fc'', ''-Z'', ''6'', ''--no-owner'']
      else if mysql_like cat then
        Some [''mysqldump'', ''-uroot'', ''-p'' @ env_or env (mysql_pass_key cat) [], db]
      else if cat = ''mongodb'' then
        Some [''mongodump'', ''--archive'', ''--gzip'', ''--db='' @ db,
              ''--username='' @ env_or env ''MONGO_INITDB_ROOT_USERNAME'' ''root'',
              ''--password='' @ env_or env ''MONGO_INITDB_ROOT_PASSWORD'' [], ''--authenticationDatabase=admin'']
      else None)"

definition mongo_dump_args :: "env_vars \<Rightarrow> string list" where
  "mongo_dump_args env =
     [''mongodump'', ''--archive'', ''--gzip'',
      ''--username='' @ env_or env ''MONGO_INITDB_ROOT_USERNAME'' ''root'',
      ''--password='' @ env_or env ''MONGO_INITDB_ROOT_PASSWORD'' [], ''--authenticationDatabase=admin'']"

text \<open>The codecs, and the output of a command in a container or its error.\<close>

record codecs =
  co_gzip :: "blob \<Rightarrow> blob"
  co_gunzip :: "blob \<Rightarrow> string + blob"
  co_tar :: "(string \<times> blob) list \<Rightarrow> string + blob"
  co_untar :: "blob \<Rightarrow> string + (string \<times> blob) list"

definition codecs_ok :: "codecs \<Rightarrow> bool" where
  "codecs_ok K \<longleftrightarrow> (\<forall>x. co_gunzip K (co_gzip K x) = Inr x) \<and>
     (\<forall>es b. co_tar K es = Inr b \<longrightarrow> co_untar K b = Inr es)"

type_synonym 'w docker_exec = "string \<Rightarrow> string list \<Rightarrow> 'w \<Rightarrow> (string + blob) \<times> 'w"

definition execute_db_dump_raw ::
  "'w docker_exec \<Rightarrow> string \<Rightarrow> string \<Rightarrow> env_vars \<Rightarrow> db_credential option \<Rightarrow> string \<Rightarrow> 'w \<Rightarrow> (string + blob) \<times> 'w" where
  "execute_db_dump_raw ex container cat env cred db w =
     (case per_db_dump_args cat env cred db of
        None \<Rightarrow> (Inl (''per-DB backup not supported for '' @ cat), w)
      | Some argv \<Rightarrow> ex container argv w)"

definition execute_db_backup ::
  "codecs \<Rightarrow> 'w docker_exec \<Rightarrow> string \<Rightarrow> string \<Rightarrow> env_vars \<Rightarrow> db_credential option \<Rightarrow> string \<Rightarrow> 'w \<Rightarrow>
   (string + blob) \<times> 'w" where
  "execute_db_backup K ex container cat env cred db w =
     (case execute_db_dump_raw ex container cat env cred db w of
        (Inl e, w') \<Rightarrow> (Inl e, w')
      | (Inr raw, w') \<Rightarrow>
          (case per_db_dump_format cat of
             Some SqlGzipped \<Rightarrow> (Inr (co_gzip K raw), w')
           | Some _ \<Rightarrow> (Inr raw, w')
           | None \<Rightarrow> (Inl (''per-DB backup not supported for '' @ cat), w')))"

text \<open>The entries of the archive of a cluster; the first dump that fails ends the loop.\<close>

definition entry_name :: "string \<Rightarrow> string \<Rightarrow> string" where
  "entry_name cat db = db @ ''.'' @ (if per_db_dump_format cat = Some PgCustom then ''dump'' else ''sql'')"

fun dump_entries ::
  "'w docker_exec \<Rightarrow> string \<Rightarrow> string \<Rightarrow> env_vars \<Rightarrow> db_credential list \<Rightarrow> 'w \<Rightarrow>
   (string + (string \<times> blob) list) \<times> 'w" where
  "dump_entries ex container cat env [] w = (Inr [], w)"
| "dump_entries ex container cat env (c # cs) w =
     (case execute_db_dump_raw ex container cat env (Some c) (dc_name c) w of
        (Inl e, w1) \<Rightarrow> (Inl e, w1)
      | (Inr raw, w1) \<Rightarrow>
          (case dump_entries ex container cat env cs w1 of
             (Inl e, w2) \<Rightarrow> (Inl e, w2)
           | (Inr es, w2) \<Rightarrow> (Inr ((entry_name cat (dc_name c), raw) # es), w2)))"

definition execute_cluster_backup ::
  "codecs \<Rightarrow> 'w docker_exec \<Rightarrow> string \<Rightarrow> string \<Rightarrow> env_vars \<Rightarrow> db_credential list \<Rightarrow> 'w \<Rightarrow> (string + blob) \<times> 'w" where
  "execute_cluster_backup K ex container cat env creds w =
     (if cat = ''mongodb'' then ex container (mongo_dump_args env) w
      else if \<not> supports_per_db_backup cat then (Inl (''cluster-wide backup not supported for '' @ cat), w)
      else if creds = [] then (Inl ''no databases found for service'', w)
      else
        (case dump_entries ex container cat env creds w of
           (Inl e, w1) \<Rightarrow> (Inl e, w1)
         | (Inr es, w1) \<Rightarrow>
             (case co_tar K es of Inl e \<Rightarrow> (Inl e, w1) | Inr b \<Rightarrow> (Inr (co_gzip K b), w1))))"

section \<open>Names and formats\<close>

definition build_s3_key :: "string \<Rightarrow> string \<Rightarrow> string \<Rightarrow> string option \<Rightarrow> string \<Rightarrow> string" where
  "build_s3_key key_prefix service cat db timestamp =
     (let filename =
        (case db of
           Some d \<Rightarrow>
             (if cat = ''mongodb'' then ''db_'' @ d @ ''_'' @ timestamp @ ''.archive.gz''
              else if postgres_like cat then ''db_'' @ d @ ''_'' @ timestamp @ ''.dump''
              else ''db_'' @ d @ ''_'' @ timestamp @ ''.sql.gz'')
         | None \<Rightarrow>
             (if cat = ''mongodb'' then ''mongodb_'' @ timestamp @ ''.archive.gz''
              else ''_cluster_'' @ timestamp @ ''.tar.gz''))
      in if key_prefix = [] then service @ ''/'' @ filename
         else key_prefix @ ''/'' @ service @ ''/'' @ filename)"

record upload_format =
  uf_gzipped :: bool
  uf_cluster :: bool
  uf_pg_custom :: bool

definition is_gzipped :: "string \<Rightarrow> bool" where
  "is_gzipped key = ends_with key ''.gz''"

definition is_pg_custom_format :: "string \<Rightarrow> bool" where
  "is_pg_custom_format key = ends_with key ''.dump''"

definition is_cluster_archive :: "string \<Rightarrow> bool" where
  "is_cluster_archive key = (ends_with key ''.tar'' \<or> ends_with key ''.tar.gz'')"

definition format_of_key :: "string \<Rightarrow> upload_format" where
  "format_of_key key = \<lparr>uf_gzipped = is_gzipped key, uf_cluster = is_cluster_archive key,
     uf_pg_custom = is_pg_custom_format key\<rparr>"

text \<open>Lowering beyond ASCII does not touch the suffixes.\<close>

definition detect_format :: "string \<Rightarrow> string \<Rightarrow> app_error + upload_format" where
  "detect_format filename cat =
     (let name = lower filename;
          gzipped = ends_with name ''.gz'';
          cluster = ends_with name ''.tar'' \<or> ends_with name ''.tar.gz'';
          pg_custom = ends_with name ''.dump'';
          mongo = ends_with name ''.archive'' \<or> ends_with name ''.archive.gz'';
          plain = ends_with name ''.sql'' \<or> ends_with name ''.sql.gz''
      in if \<not> (pg_custom \<or> cluster \<or> mongo \<or> plain) then
           Inl (BadRequest (Te ''errors.backups.unrecognized_file_extension'' [(''filename'', filename)]))
         else if \<not> (if postgres_like cat then pg_custom \<or> plain \<or> cluster
                   else if mysql_like cat then plain \<or> cluster
                   else cat = ''mongodb'' \<and> mongo) then
           Inl (BadRequest (Te ''errors.backups.file_not_compatible'' [(''filename'', filename), (''catalog'', cat)]))
         else Inr \<lparr>uf_gzipped = gzipped, uf_cluster = cluster, uf_pg_custom = pg_custom\<rparr>)"

definition extract_db_from_tar :: "codecs \<Rightarrow> blob \<Rightarrow> string \<Rightarrow> string + (bool \<times> blob)" where
  "extract_db_from_tar K b db =
     (case co_untar K b of
        Inl e \<Rightarrow> Inl e
      | Inr es \<Rightarrow>
          (case find (\<lambda>e. fst e = db @ ''.dump'' \<or> fst e = db @ ''.sql'') es of
             None \<Rightarrow> Inl (''database not found in cluster backup: '' @ db)
           | Some (path, buf) \<Rightarrow> Inr (path = db @ ''.dump'', buf)))"

section \<open>SQL\<close>

definition dq :: string where
  "dq = [CHR 0x22]"

definition sq :: string where
  "sq = [CHR 0x27]"

definition double_char :: "char \<Rightarrow> string \<Rightarrow> string" where
  "double_char q s = concat (map (\<lambda>c. if c = q then [q, q] else [c]) s)"

definition escape_pg_ident :: "string \<Rightarrow> string" where
  "escape_pg_ident s = double_char CHR 0x22 s"

definition escape_pg_str_lit :: "string \<Rightarrow> string" where
  "escape_pg_str_lit s = double_char CHR 0x27 s"

definition escape_mysql_ident :: "string \<Rightarrow> string" where
  "escape_mysql_ident s = double_char CHR 0x60 s"

definition escape_mysql_str :: "string \<Rightarrow> string" where
  "escape_mysql_str s =
     concat (map (\<lambda>c. if c = CHR 0x27 then [CHR 0x5C, CHR 0x27] else [c]) (double_char CHR 0x5C s))"

definition sql_lines :: "string list \<Rightarrow> string" where
  "sql_lines ls = concat (map (\<lambda>l. l @ [NL]) ls)"

definition role_sync_tag :: string where
  "role_sync_tag = ''$pier_role_sync$''"

definition owner_fix_tag :: string where
  "owner_fix_tag = ''$pier_owner_fix$''"

definition build_role_sync_sql :: "string \<Rightarrow> string \<Rightarrow> string + string" where
  "build_role_sync_sql username password =
     (if contains_str password role_sync_tag then
        Inl (''owner password contains the reserved sequence '' @ role_sync_tag)
      else
        Inr (sql_lines
          [''DO '' @ role_sync_tag,
           ''BEGIN'',
           ''IF NOT EXISTS (SELECT 1 FROM pg_roles WHERE rolname = '' @ sq @ escape_pg_str_lit username @ sq @ '') THEN'',
           ''CREATE ROLE '' @ dq @ escape_pg_ident username @ dq @ '' WITH LOGIN PASSWORD '' @ sq @
             escape_pg_str_lit password @ sq @ '';'',
           ''ELSE'',
           ''ALTER ROLE '' @ dq @ escape_pg_ident username @ dq @ '' WITH LOGIN PASSWORD '' @ sq @
             escape_pg_str_lit password @ sq @ '';'',
           ''END IF;'',
           ''END''] @ role_sync_tag @ '';''))"

definition owner_fix_body :: "string list" where
  "owner_fix_body =
    [''rec record;'',
     ''BEGIN'',
     ''FOR rec IN'',
     ''SELECT n.nspname'',
     ''FROM pg_namespace n'',
     ''JOIN pg_roles r ON n.nspowner = r.oid'',
     ''WHERE r.rolname = current_user'',
     ''AND n.nspname NOT IN ('pg_catalog','information_schema','pg_toast')'',
     ''AND n.nspname NOT LIKE 'pg_temp_%'' @ sq,
     ''AND n.nspname NOT LIKE 'pg_toast_temp_%'' @ sq,
     ''LOOP'',
     ''EXECUTE format('ALTER SCHEMA %I OWNER TO %I', rec.nspname, target_role);'',
     ''END LOOP;'',
     ''FOR rec IN'',
     ''SELECT n.nspname, c.relname'',
     ''FROM pg_class c'',
     ''JOIN pg_namespace n ON c.relnamespace = n.oid'',
     ''JOIN pg_roles r ON c.relowner = r.oid'',
     ''WHERE r.rolname = current_user'',
     ''AND c.relkind IN ('r','v','m','S','f','p')'',
     ''AND n.nspname NOT IN ('pg_catalog','information_schema','pg_toast')'',
     ''AND n.nspname NOT LIKE 'pg_temp_%'' @ sq,
     ''AND n.nspname NOT LIKE 'pg_toast_temp_%'' @ sq,
     ''AND NOT ('',
     ''c.relkind = 'S'' @ sq,
     ''AND EXISTS ('',
     ''SELECT 1 FROM pg_depend d'',
     ''WHERE d.classid = 'pg_class'::regclass'',
     ''AND d.objid = c.oid'',
     ''AND d.refclassid = 'pg_class'::regclass'',
     ''AND d.deptype IN ('a','i')'',
     '')'',
     '')'',
     ''LOOP'',
     ''EXECUTE format('ALTER TABLE %I.%I OWNER TO %I', rec.nspname, rec.relname, target_role);'',
     ''END LOOP;'',
     ''FOR rec IN'',
     ''SELECT n.nspname, p.proname, pg_get_function_identity_arguments(p.oid) AS args'',
     ''FROM pg_proc p'',
     ''JOIN pg_namespace n ON p.pronamespace = n.oid'',
     ''JOIN pg_roles r ON p.proowner = r.oid'',
     ''WHERE r.rolname = current_user'',
     ''AND n.nspname NOT IN ('pg_catalog','information_schema','pg_toast')'',
     ''AND n.nspname NOT LIKE 'pg_temp_%'' @ sq,
     ''AND n.nspname NOT LIKE 'pg_toast_temp_%'' @ sq,
     ''LOOP'',
     ''EXECUTE format('ALTER FUNCTION %I.%I(%s) OWNER TO %I', rec.nspname, rec.proname, rec.args, target_role);'',
     ''END LOOP;'',
     ''FOR rec IN'',
     ''SELECT n.nspname, t.typname'',
     ''FROM pg_type t'',
     ''JOIN pg_namespace n ON t.typnamespace = n.oid'',
     ''JOIN pg_roles r ON t.typowner = r.oid'',
     ''WHERE r.rolname = current_user'',
     ''AND t.typtype IN ('c','e','d')'',
     ''AND n.nspname NOT IN ('pg_catalog','information_schema','pg_toast')'',
     ''AND n.nspname NOT LIKE 'pg_temp_%'' @ sq,
     ''AND n.nspname NOT LIKE 'pg_toast_temp_%'' @ sq,
     ''AND NOT EXISTS (SELECT 1 FROM pg_class c WHERE c.reltype = t.oid)'',
     ''LOOP'',
     ''EXECUTE format('ALTER TYPE %I.%I OWNER TO %I', rec.nspname, rec.typname, target_role);'',
     ''END LOOP;'',
     ''END'']"

definition build_owner_reassignment_sql :: "string \<Rightarrow> string + string" where
  "build_owner_reassignment_sql owner =
     (if contains_str owner owner_fix_tag then
        Inl (''owner role name contains the reserved sequence '' @ owner_fix_tag)
      else
        Inr (sql_lines ([''DO '' @ owner_fix_tag, ''DECLARE'',
             ''target_role text := '' @ sq @ escape_pg_str_lit owner @ sq @ '';''] @ owner_fix_body) @
             owner_fix_tag @ '';''))"

definition recreate_pg_sql :: "string \<Rightarrow> string \<Rightarrow> string \<Rightarrow> string" where
  "recreate_pg_sql role_sync db owner =
     sql_lines
       [role_sync,
        ''SELECT pg_terminate_backend(pid) FROM pg_stat_activity WHERE datname = '' @ sq @ escape_pg_ident db @ sq @
          '' AND pid <> pg_backend_pid();'',
        ''DROP DATABASE IF EXISTS '' @ dq @ escape_pg_ident db @ dq @ '';'',
        ''CREATE DATABASE '' @ dq @ escape_pg_ident db @ dq @ '' OWNER '' @ dq @ escape_pg_ident owner @ dq @ '';'']"

definition recreate_mysql_sql :: "string \<Rightarrow> string \<Rightarrow> string" where
  "recreate_mysql_sql db owner =
     (let q = [CHR 0x60] @ escape_mysql_ident db @ [CHR 0x60]
      in ''DROP DATABASE IF EXISTS '' @ q @ ''; CREATE DATABASE '' @ q @ ''; GRANT ALL PRIVILEGES ON '' @ q @ ''.* TO '' @
         sq @ escape_mysql_str owner @ sq @ ''@'' @ sq @ ''%'' @ sq @ ''; FLUSH PRIVILEGES;'')"

section \<open>Restoring\<close>

text \<open>\<open>pipe_to_docker\<close> runs a docker command with a given input.\<close>

type_synonym 'w pipe = "string list \<Rightarrow> blob \<Rightarrow> 'w \<Rightarrow> (string + unit) \<times> 'w"

fun andThen :: "(string + unit) \<times> 'w \<Rightarrow> ('w \<Rightarrow> (string + unit) \<times> 'w) \<Rightarrow> (string + unit) \<times> 'w" where
  "andThen (Inl e, w) k = (Inl e, w)"
| "andThen (Inr _, w) k = k w"

definition run_psql :: "'w pipe \<Rightarrow> string \<Rightarrow> string \<Rightarrow> string \<Rightarrow> string option \<Rightarrow> blob \<Rightarrow> 'w \<Rightarrow> (string + unit) \<times> 'w" where
  "run_psql pipe container user password db stdin =
     pipe ([''exec'', ''-i'', container, ''env'', ''PGPASSWORD='' @ password, ''psql'', ''-v'', ''ON_ERROR_STOP=1'', ''-U'', user] @
           [''-d'', (case db of None \<Rightarrow> ''postgres'' | Some d \<Rightarrow> d)]) stdin"

definition run_mysql :: "'w pipe \<Rightarrow> string \<Rightarrow> string \<Rightarrow> string option \<Rightarrow> blob \<Rightarrow> 'w \<Rightarrow> (string + unit) \<times> 'w" where
  "run_mysql pipe container root_pass db stdin =
     pipe ([''exec'', ''-i'', container, ''mysql'', ''-uroot'', ''-p'' @ root_pass] @
           (case db of None \<Rightarrow> [] | Some d \<Rightarrow> [d])) stdin"

definition drop_and_recreate_pg_db ::
  "'w pipe \<Rightarrow> string \<Rightarrow> env_vars \<Rightarrow> string \<Rightarrow> db_credential \<Rightarrow> 'w \<Rightarrow> (string + unit) \<times> 'w" where
  "drop_and_recreate_pg_db pipe container env db owner w =
     (case build_role_sync_sql (dc_user owner) (dc_pass owner) of
        Inl e \<Rightarrow> (Inl e, w)
      | Inr role_sync \<Rightarrow>
          run_psql pipe container (fst (pg_root_creds env)) (snd (pg_root_creds env)) None
            (bytes_of (recreate_pg_sql role_sync db (dc_user owner))) w)"

definition fix_object_ownership ::
  "'w pipe \<Rightarrow> string \<Rightarrow> string \<Rightarrow> string \<Rightarrow> string \<Rightarrow> db_credential \<Rightarrow> 'w \<Rightarrow> (string + unit) \<times> 'w" where
  "fix_object_ownership pipe container root_user root_pass db owner w =
     (case build_owner_reassignment_sql (dc_user owner) of
        Inl e \<Rightarrow> (Inl e, w)
      | Inr sql \<Rightarrow> run_psql pipe container root_user root_pass (Some db) (bytes_of sql) w)"

text \<open>The command that loads a dump into the recreated database.\<close>

definition pg_restore_args :: "string \<Rightarrow> env_vars \<Rightarrow> string \<Rightarrow> string list" where
  "pg_restore_args container env db =
     [''exec'', ''-i'', container, ''env'', ''PGPASSWORD='' @ snd (pg_root_creds env), ''pg_restore'', ''-U'',
      fst (pg_root_creds env), ''-d'', db, ''--no-owner'', ''--no-privileges'', ''--exit-on-error'']"

definition restore_postgres ::
  "'w pipe \<Rightarrow> string \<Rightarrow> env_vars \<Rightarrow> string \<Rightarrow> db_credential \<Rightarrow> blob \<Rightarrow> 'w \<Rightarrow> (string + unit) \<times> 'w" where
  "restore_postgres pipe container env db owner dump w =
     andThen (drop_and_recreate_pg_db pipe container env db owner w)
       (\<lambda>w1. andThen (run_psql pipe container (fst (pg_root_creds env)) (snd (pg_root_creds env)) (Some db) dump w1)
         (fix_object_ownership pipe container (fst (pg_root_creds env)) (snd (pg_root_creds env)) db owner))"

definition restore_postgres_custom ::
  "'w pipe \<Rightarrow> string \<Rightarrow> env_vars \<Rightarrow> string \<Rightarrow> db_credential \<Rightarrow> blob \<Rightarrow> 'w \<Rightarrow> (string + unit) \<times> 'w" where
  "restore_postgres_custom pipe container env db owner dump w =
     andThen (drop_and_recreate_pg_db pipe container env db owner w)
       (\<lambda>w1. andThen (pipe (pg_restore_args container env db) dump w1)
         (fix_object_ownership pipe container (fst (pg_root_creds env)) (snd (pg_root_creds env)) db owner))"

definition restore_mysql ::
  "'w pipe \<Rightarrow> string \<Rightarrow> string \<Rightarrow> env_vars \<Rightarrow> string \<Rightarrow> db_credential \<Rightarrow> blob \<Rightarrow> 'w \<Rightarrow> (string + unit) \<times> 'w" where
  "restore_mysql pipe container cat env db owner dump w =
     (let root_pass = env_or env (mysql_pass_key cat) []
      in andThen (run_mysql pipe container root_pass None (bytes_of (recreate_mysql_sql db (dc_user owner))) w)
           (run_mysql pipe container root_pass (Some db) dump))"

definition execute_mongo_restore ::
  "'w pipe \<Rightarrow> string \<Rightarrow> env_vars \<Rightarrow> string \<Rightarrow> bool \<Rightarrow> blob \<Rightarrow> 'w \<Rightarrow> (string + unit) \<times> 'w" where
  "execute_mongo_restore pipe container env db gzipped archive =
     pipe ([''exec'', ''-i'', container, ''mongorestore'', ''--archive'',
            ''--username='' @ env_or env ''MONGO_INITDB_ROOT_USERNAME'' ''root'',
            ''--password='' @ env_or env ''MONGO_INITDB_ROOT_PASSWORD'' [], ''--authenticationDatabase=admin'',
            ''--drop'', ''--nsInclude='' @ db @ ''.*''] @ (if gzipped then [''--gzip''] else [])) archive"

text \<open>The last branch of the code is unreachable: its caller has dealt with MongoDB.\<close>

definition execute_restore ::
  "'w pipe \<Rightarrow> string \<Rightarrow> string \<Rightarrow> env_vars \<Rightarrow> string \<Rightarrow> db_credential \<Rightarrow> bool \<Rightarrow> blob \<Rightarrow> 'w \<Rightarrow> (string + unit) \<times> 'w" where
  "execute_restore pipe container cat env db owner pg_custom dump w =
     (if \<not> supports_per_db_backup cat then (Inl (''per-DB restore not supported for '' @ cat), w)
      else if postgres_like cat then
        (if pg_custom then restore_postgres_custom pipe container env db owner dump w
         else restore_postgres pipe container env db owner dump w)
      else if mysql_like cat then restore_mysql pipe container cat env db owner dump w
      else (Inl ''unreachable'', w))"

fun restore_failed :: "(string + unit) \<times> 'w \<Rightarrow> (app_error + unit) \<times> 'w" where
  "restore_failed (Inl e, w) = (Inl (Internal (''restore failed: '' @ e)), w)"
| "restore_failed (Inr _, w) = (Inr (), w)"

definition apply_restore ::
  "codecs \<Rightarrow> 'w pipe \<Rightarrow> string \<Rightarrow> string \<Rightarrow> env_vars \<Rightarrow> string \<Rightarrow> db_credential \<Rightarrow> upload_format \<Rightarrow> blob \<Rightarrow> 'w \<Rightarrow>
   (app_error + unit) \<times> 'w" where
  "apply_restore K pipe container cat env db owner fmt blob w =
     (if cat = ''mongodb'' then restore_failed (execute_mongo_restore pipe container env db (uf_gzipped fmt) blob w)
      else
        (case (if uf_gzipped fmt then co_gunzip K blob else Inr blob) of
           Inl e \<Rightarrow> (Inl (Internal (''gunzip: '' @ e)), w)
         | Inr unpacked \<Rightarrow>
             (case (if uf_cluster fmt then extract_db_from_tar K unpacked db else Inr (uf_pg_custom fmt, unpacked)) of
                Inl e \<Rightarrow> (Inl (BadRequest (Lit e)), w)
              | Inr (pg_custom, dump) \<Rightarrow>
                  restore_failed (execute_restore pipe container cat env db owner pg_custom dump w))))"

section \<open>A restore is fed the dump\<close>

lemma ends_with_tail: "length p \<le> length t \<Longrightarrow> ends_with (s @ t) p = ends_with t p"
  by (simp add: ends_with_def)

lemma catalog_exclusive:
  "postgres_like cat \<Longrightarrow> \<not> mysql_like cat" "postgres_like cat \<Longrightarrow> cat \<noteq> ''mongodb''" "mysql_like cat \<Longrightarrow> cat \<noteq> ''mongodb''"
  unfolding postgres_like_def mysql_like_def by (elim disjE; simp)+

lemma catalog_cases:
  assumes "supports_per_db_backup cat"
  obtains (pg) "postgres_like cat" "\<not> mysql_like cat" "cat \<noteq> ''mongodb''"
    | (my) "mysql_like cat" "\<not> postgres_like cat" "cat \<noteq> ''mongodb''"
    | (mongo) "cat = ''mongodb''" "\<not> postgres_like cat" "\<not> mysql_like cat"
  using assms catalog_exclusive unfolding supports_per_db_backup_def by blast

lemma key_split:
  "\<exists>a. build_s3_key key_prefix svc cat (Some db) ts =
     a @ (if cat = ''mongodb'' then ''.archive.gz'' else if postgres_like cat then ''.dump'' else ''.sql.gz'')"
  "\<exists>a. build_s3_key key_prefix svc cat None ts = a @ (if cat = ''mongodb'' then ''.archive.gz'' else ''.tar.gz'')"
proof -
  define p where "p = (if key_prefix = [] then svc else key_prefix @ ''/'' @ svc)"
  have b: "build_s3_key key_prefix svc cat d ts = p @ ''/'' @
      (case d of Some x \<Rightarrow> (''db_'' @ x @ ''_'' @ ts) @
          (if cat = ''mongodb'' then ''.archive.gz'' else if postgres_like cat then ''.dump'' else ''.sql.gz'')
       | None \<Rightarrow> ((if cat = ''mongodb'' then ''mongodb_'' else ''_cluster_'') @ ts) @
          (if cat = ''mongodb'' then ''.archive.gz'' else ''.tar.gz''))" for d
    by (cases d; cases "cat = ''mongodb''"; cases "postgres_like cat"; cases "key_prefix = []")
      (simp_all add: build_s3_key_def p_def)
  show "\<exists>a. build_s3_key key_prefix svc cat (Some db) ts =
      a @ (if cat = ''mongodb'' then ''.archive.gz'' else if postgres_like cat then ''.dump'' else ''.sql.gz'')"
    unfolding b by (rule exI [of _ "p @ ''/'' @ (''db_'' @ db @ ''_'' @ ts)"]) (simp only: append_assoc option.case)
  show "\<exists>a. build_s3_key key_prefix svc cat None ts = a @ (if cat = ''mongodb'' then ''.archive.gz'' else ''.tar.gz'')"
    unfolding b by (rule exI [of _ "p @ ''/'' @ ((if cat = ''mongodb'' then ''mongodb_'' else ''_cluster_'') @ ts)"])
      (simp only: append_assoc option.case)
qed

lemma not_ends_with: "p \<noteq> [] \<Longrightarrow> t \<noteq> [] \<Longrightarrow> last t \<noteq> last p \<Longrightarrow> \<not> ends_with (s @ t) p"
  by (metis append_is_Nil_conv append_take_drop_id ends_with_def last_appendR)

lemma key_formats:
  "format_of_key (a @ ''.archive.gz'') = \<lparr>uf_gzipped = True, uf_cluster = False, uf_pg_custom = False\<rparr>"
  "format_of_key (a @ ''.dump'') = \<lparr>uf_gzipped = False, uf_cluster = False, uf_pg_custom = True\<rparr>"
  "format_of_key (a @ ''.sql.gz'') = \<lparr>uf_gzipped = True, uf_cluster = False, uf_pg_custom = False\<rparr>"
  "format_of_key (a @ ''.tar.gz'') = \<lparr>uf_gzipped = True, uf_cluster = True, uf_pg_custom = False\<rparr>"
  by (simp_all add: format_of_key_def is_gzipped_def is_cluster_archive_def is_pg_custom_format_def ends_with_tail
      not_ends_with) (simp_all add: ends_with_def)

lemma restore_fed:
  assumes "codecs_ok K" "supports_per_db_backup cat"
    and "execute_db_dump_raw ex container cat env cred db w = (Inr raw, w1)"
    and "execute_db_backup K ex container cat env cred db w = (Inr data, w2)"
  shows "apply_restore K pipe container cat env db owner (format_of_key (build_s3_key key_prefix svc cat (Some db) ts)) data w3 =
    restore_failed (if cat = ''mongodb'' then execute_mongo_restore pipe container env db True raw w3
      else execute_restore pipe container cat env db owner (postgres_like cat) raw w3)"
proof -
  obtain a where key: "build_s3_key key_prefix svc cat (Some db) ts =
      a @ (if cat = ''mongodb'' then ''.archive.gz'' else if postgres_like cat then ''.dump'' else ''.sql.gz'')"
    using key_split(1) [of key_prefix svc cat db ts] by blast
  show ?thesis
    using assms(2)
  proof (cases rule: catalog_cases)
    case pg
    then show ?thesis
      unfolding key using assms(3,4) by (simp add: apply_restore_def key_formats execute_db_backup_def per_db_dump_format_def)
  next
    case my
    have "co_gunzip K (co_gzip K raw) = Inr raw" using assms(1) by (simp add: codecs_ok_def)
    moreover have "data = co_gzip K raw"
      using my assms(3,4) by (simp add: execute_db_backup_def per_db_dump_format_def)
    ultimately show ?thesis
      unfolding key using my by (simp add: apply_restore_def key_formats)
  next
    case mongo
    then show ?thesis
      unfolding key using assms(3,4) by (simp add: apply_restore_def key_formats execute_db_backup_def per_db_dump_format_def)
  qed
qed

text \<open>a restore from a backup of one database hands the engine exactly the bytes the dump command
  wrote, by the command for the format of the catalog, whatever the names in the key are.\<close>

theorem restore_feeds_the_dump:
  assumes "codecs_ok K" "supports_per_db_backup cat"
    and "execute_db_dump_raw ex container cat env cred db w = (Inr raw, w1)"
    and "execute_db_backup K ex container cat env cred db w = (Inr data, w2)"
  shows "apply_restore K pipe container cat env db owner (format_of_key (build_s3_key key_prefix svc cat (Some db) ts)) data w3 =
    restore_failed (if cat = ''mongodb'' then execute_mongo_restore pipe container env db True raw w3
      else execute_restore pipe container cat env db owner (postgres_like cat) raw w3)"
  by (rule restore_fed [OF assms])

lemma entry_name_match:
  "entry_name cat n = db @ ''.dump'' \<or> entry_name cat n = db @ ''.sql'' \<longleftrightarrow> n = db"
  by (auto simp: entry_name_def)

lemma entry_is_dump: "entry_name cat db = db @ ''.dump'' \<longleftrightarrow> postgres_like cat"
  by (simp add: entry_name_def per_db_dump_format_def)

lemma dump_entries_find:
  "dump_entries ex container cat env creds w = (Inr es, w1) \<Longrightarrow>
   (case find (\<lambda>e. fst e = db @ ''.dump'' \<or> fst e = db @ ''.sql'') es of
      None \<Rightarrow> db \<notin> dc_name ` set creds
    | Some (path, raw) \<Rightarrow> path = entry_name cat db \<and>
        (\<exists>c w0 w0'. c \<in> set creds \<and> dc_name c = db \<and>
           execute_db_dump_raw ex container cat env (Some c) db w0 = (Inr raw, w0')))"
proof (induction creds arbitrary: w es)
  case (Cons c cs)
  obtain raw w2 es' where d: "execute_db_dump_raw ex container cat env (Some c) (dc_name c) w = (Inr raw, w2)"
    "dump_entries ex container cat env cs w2 = (Inr es', w1)" "es = (entry_name cat (dc_name c), raw) # es'"
    using Cons.prems by (auto split: prod.splits sum.splits)
  show ?case
  proof (cases "dc_name c = db")
    case True
    then show ?thesis using d entry_name_match [of cat "dc_name c" db] by auto
  next
    case False
    then have "find (\<lambda>e. fst e = db @ ''.dump'' \<or> fst e = db @ ''.sql'') es =
        find (\<lambda>e. fst e = db @ ''.dump'' \<or> fst e = db @ ''.sql'') es'"
      using d(3) entry_name_match [of cat "dc_name c" db] by simp
    then show ?thesis using Cons.IH [OF d(2)] False by (auto split: option.splits)
  qed
qed simp

lemma cluster_backup_parts:
  assumes "codecs_ok K" "cat \<noteq> ''mongodb''" "execute_cluster_backup K ex container cat env creds w = (Inr data, w1)"
  obtains es b w2 where "dump_entries ex container cat env creds w = (Inr es, w2)" "co_gunzip K data = Inr b" "co_untar K b = Inr es"
proof -
  obtain es w2 b where d: "dump_entries ex container cat env creds w = (Inr es, w2)" "co_tar K es = Inr b" "data = co_gzip K b"
    using assms(2,3) by (auto simp: execute_cluster_backup_def split: if_splits prod.splits sum.splits)
  have "co_gunzip K data = Inr b" "co_untar K b = Inr es" using assms(1) d(2,3) by (simp_all add: codecs_ok_def)
  then show ?thesis using d(1) that by blast
qed


section \<open>Quoting\<close>

text \<open>How the servers read a quoted text: a doubled quote stands for one, and in a MySQL string a backslash
  for the character after it. The argument begins after the opening quote; the result is the text and
  what follows the closing quote.\<close>

fun read_quoted :: "char \<Rightarrow> string \<Rightarrow> (string \<times> string) option" where
  "read_quoted q [] = None"
| "read_quoted q [c] = (if c = q then Some ([], []) else None)"
| "read_quoted q (c # d # s) =
     (if c = q then
        (if d = q then map_option (apfst (Cons q)) (read_quoted q s) else Some ([], d # s))
      else map_option (apfst (Cons c)) (read_quoted q (d # s)))"

fun read_mysql :: "string \<Rightarrow> (string \<times> string) option" where
  "read_mysql [] = None"
| "read_mysql [c] = (if c = CHR 0x27 then Some ([], []) else None)"
| "read_mysql (c # d # s) =
     (if c = CHR 0x27 then Some ([], d # s)
      else if c = CHR 0x5C then map_option (apfst (Cons d)) (read_mysql s)
      else map_option (apfst (Cons c)) (read_mysql (d # s)))"

lemma read_quoted_cons:
  "c \<noteq> q \<Longrightarrow> s \<noteq> [] \<Longrightarrow> read_quoted q (c # s) = map_option (apfst (Cons c)) (read_quoted q s)"
  by (cases s) auto

lemma read_doubled:
  "rest = [] \<or> hd rest \<noteq> q \<Longrightarrow> read_quoted q (double_char q s @ q # rest) = Some (s, rest)"
proof (induction s)
  case Nil
  then show ?case by (cases rest) (auto simp: double_char_def)
next
  case (Cons c s)
  then show ?case by (cases "c = q") (simp_all add: double_char_def read_quoted_cons)
qed

lemma read_mysql_cons:
  "c \<noteq> CHR 0x27 \<Longrightarrow> c \<noteq> CHR 0x5C \<Longrightarrow> s \<noteq> [] \<Longrightarrow> read_mysql (c # s) = map_option (apfst (Cons c)) (read_mysql s)"
  by (cases s) auto

lemma read_mysql_end: "read_mysql (CHR 0x27 # rest) = Some ([], rest)"
  by (cases rest) auto

lemma read_escaped: "read_mysql (escape_mysql_str s @ CHR 0x27 # rest) = Some (s, rest)"
proof (induction s)
  case Nil
  then show ?case by (simp add: escape_mysql_str_def double_char_def read_mysql_end)
next
  case (Cons c s)
  consider "c = CHR 0x27" | "c = CHR 0x5C" | "c \<noteq> CHR 0x27" "c \<noteq> CHR 0x5C" by blast
  then show ?case
    using Cons by cases (simp_all add: escape_mysql_str_def double_char_def read_mysql_cons)
qed

text \<open>every name and password written into the SQL of a restore is read back by the server as it is, and the
  statement goes on after its closing quote, whatever quotes and backslashes it contains.\<close>

theorem sql_quotes_read_back:
  "read_quoted CHR 0x27 (escape_pg_str_lit s @ sq @ '' THEN'') = Some (s, '' THEN'') \<and>
   read_quoted CHR 0x27 (escape_pg_str_lit s @ sq @ '';'') = Some (s, '';'') \<and>
   read_quoted CHR 0x22 (escape_pg_ident s @ dq @ '' WITH'') = Some (s, '' WITH'') \<and>
   read_quoted CHR 0x60 (escape_mysql_ident s @ [CHR 0x60] @ ''; '') = Some (s, ''; '') \<and>
   read_mysql (escape_mysql_str s @ sq @ ''@'') = Some (s, ''@'')"
  using read_escaped [of s] by (simp add: escape_pg_str_lit_def escape_pg_ident_def escape_mysql_ident_def sq_def dq_def read_doubled)

section \<open>Witnesses\<close>

definition sample_codecs :: codecs where
  "sample_codecs = \<lparr>co_gzip = (\<lambda>x. 1 # x), co_gunzip = (\<lambda>x. case x of [] \<Rightarrow> Inl ''eof'' | b # y \<Rightarrow> Inr y),
     co_tar = (\<lambda>es. case es of [(n, [b])] \<Rightarrow> (if n = ''app.sql'' then Inr [2, b] else Inl ''long'') | _ \<Rightarrow> Inl ''long''),
     co_untar = (\<lambda>x. case x of [c, b] \<Rightarrow> Inr [(''app.sql'', [b])] | _ \<Rightarrow> Inl ''bad'')\<rparr>"

lemma sample_codecs_ok: "codecs_ok sample_codecs"
  by (auto simp: codecs_ok_def sample_codecs_def split: list.splits if_splits)

definition sample_exec :: "nat docker_exec" where
  "sample_exec container argv n = (Inr [7], Suc n)"

definition sample_pipe :: "blob list pipe" where
  "sample_pipe argv stdin log = (Inr (), stdin # log)"

definition sample_cred :: db_credential where
  "sample_cred = \<lparr>dc_name = ''app'', dc_user = ''o'', dc_pass = ''p''\<rparr>"

theorem restore_feeds_the_dump_witness:
  "apply_restore sample_codecs sample_pipe ''pier-db'' ''mongodb'' (\<lambda>_. None) ''app'' sample_cred
     (format_of_key (build_s3_key [] ''db'' ''mongodb'' (Some ''app'') ''t'')) [7] [] = (Inr (), [[7]])"
proof -
  have "execute_db_dump_raw sample_exec ''pier-db'' ''mongodb'' (\<lambda>_. None) None ''app'' 0 = (Inr [7], 1)"
    "execute_db_backup sample_codecs sample_exec ''pier-db'' ''mongodb'' (\<lambda>_. None) None ''app'' 0 = (Inr [7], 1)"
    by (simp_all add: execute_db_backup_def execute_db_dump_raw_def per_db_dump_args_def per_db_dump_format_def
        postgres_like_def mysql_like_def sample_exec_def)
  from restore_feeds_the_dump [OF sample_codecs_ok _ this, of sample_pipe sample_cred "[]" "''db''" "''t''" "[]"]
  show ?thesis
    by (simp add: supports_per_db_backup_def execute_mongo_restore_def sample_pipe_def)
qed


end
