(* ===== verification/Backups.thy ===== *)
theory Backups
  imports Schedules BackupFormat Rbac
begin

text \<open>
  The backups of databases: their schedules with the mirror rows of the scheduler, running one on request
  or for a schedule, the retention, deleting and restoring (api/backups.rs, backup/scheduler.rs). The
  object storage, the commands in containers and the codecs are parameters acting on a world. The
  lemmas show what a backup leaves behind, which backups the retention keeps, that a backup restores to
  what was dumped, who may restore what, and how schedules and their mirrors come apart.
\<close>

section \<open>Tables\<close>

record backup_schedule =
  bk_id :: string
  bk_service :: string
  bk_storage :: string
  bk_cron :: string
  bk_retention :: int
  bk_active :: bool
  bk_last :: "time option"
  bk_next :: "time option"
  bk_db :: "string option"
  bk_updated :: time

record backup_row =
  br_id :: string
  br_schedule :: "string option"
  br_service :: string
  br_storage :: string
  br_key :: string
  br_db :: "string option"
  br_status :: string
  br_size :: nat
  br_error :: "string option"
  br_by :: string
  br_started :: time
  br_finished :: "time option"

record storage_row =
  so_id :: string
  so_type :: string
  so_endpoint :: string
  so_region :: string
  so_bucket :: string
  so_access :: string
  so_secret :: string
  so_prefix :: string

text \<open>The columns of a service that backups read; its project is in the tables of the guards.\<close>

record service_info =
  si_id :: string
  si_name :: string
  si_catalog :: "string option"
  si_env :: "string option"

record backup_db =
  bd_auth :: auth_db
  bd_services :: "service_info list"
  bd_storages :: "storage_row list"
  bd_creds :: "(string \<times> db_credential) list"
  bd_schedules :: "backup_schedule list"
  bd_backups :: "backup_row list"
  bd_sched :: schedule_db

definition service_by_id :: "backup_db \<Rightarrow> string \<Rightarrow> service_info option" where
  "service_by_id db i = sql_first (\<lambda>s. si_id s = i) (bd_services db)"

definition storage_by_id :: "backup_db \<Rightarrow> string \<Rightarrow> storage_row option" where
  "storage_by_id db i = sql_first (\<lambda>s. so_id s = i) (bd_storages db)"

definition backup_schedule_by_id :: "backup_db \<Rightarrow> string \<Rightarrow> backup_schedule option" where
  "backup_schedule_by_id db i = sql_first (\<lambda>s. bk_id s = i) (bd_schedules db)"

definition backup_by_id :: "backup_db \<Rightarrow> string \<Rightarrow> backup_row option" where
  "backup_by_id db i = sql_first (\<lambda>b. br_id b = i) (bd_backups db)"

definition update_backup :: "string \<Rightarrow> (backup_row \<Rightarrow> backup_row) \<Rightarrow> backup_db \<Rightarrow> backup_db" where
  "update_backup i f db = db\<lparr>bd_backups := sql_update (\<lambda>b. br_id b = i) f (bd_backups db)\<rparr>"

definition update_backup_schedule :: "string \<Rightarrow> (backup_schedule \<Rightarrow> backup_schedule) \<Rightarrow> backup_db \<Rightarrow> backup_db" where
  "update_backup_schedule i f db = db\<lparr>bd_schedules := sql_update (\<lambda>s. bk_id s = i) f (bd_schedules db)\<rparr>"

text \<open>Deleting schedules clears the reference of their backups.\<close>

definition drop_backup_schedules :: "(backup_schedule \<Rightarrow> bool) \<Rightarrow> backup_db \<Rightarrow> backup_db" where
  "drop_backup_schedules P db =
     (let gone = bk_id ` {s \<in> set (bd_schedules db). P s}
      in db\<lparr>bd_schedules := sql_delete P (bd_schedules db),
            bd_backups := sql_update (\<lambda>b. \<exists>i \<in> gone. br_schedule b = Some i) (\<lambda>b. b\<lparr>br_schedule := None\<rparr>) (bd_backups db)\<rparr>)"

section \<open>Schedules and their mirrors\<close>

text \<open>The modifier as seconds.\<close>

definition cron_to_next_run :: "string \<Rightarrow> int" where
  "cron_to_next_run cron =
     (if cron = ''0 2 * * *'' then 86400
      else if cron = ''0 2 * * 0'' then 604800
      else if cron = ''0 */6 * * *'' then 21600
      else if cron = ''0 * * * *'' then 3600
      else 86400)"

definition unified_id :: "string \<Rightarrow> string" where
  "unified_id i = ''sched-bk-'' @ i"

definition backup_label :: "backup_db \<Rightarrow> string \<Rightarrow> string \<Rightarrow> string" where
  "backup_label db i service =
     (let suff = (case backup_schedule_by_id db i of
                   None \<Rightarrow> '' (cluster)''
                 | Some s \<Rightarrow> (case bk_db s of
                     None \<Rightarrow> '' (cluster)''
                   | Some name \<Rightarrow> if name = [] then '' (cluster)'' else '' ('' @ name @ '')''))
      in ''Backup: '' @ (case service_by_id db service of None \<Rightarrow> service | Some s \<Rightarrow> si_name s) @ suff)"

definition backup_config :: "string \<Rightarrow> string" where
  "backup_config i = ''{'' @ dq @ ''backup_schedule_id'' @ dq @ '':'' @ dq @ i @ dq @ ''}''"

definition sync_unified_for_backup ::
  "cron_crate \<Rightarrow> time \<Rightarrow> string \<Rightarrow> string \<Rightarrow> string \<Rightarrow> bool \<Rightarrow> backup_db \<Rightarrow> backup_db" where
  "sync_unified_for_backup C now i service cron active db =
     (let uid = unified_id i; label = backup_label db i service; nxt = next_or_none C cron ''UTC'' now;
          s = bd_sched db
      in db\<lparr>bd_sched :=
           (if \<exists>r \<in> set (sc_rows s). sh_id r = uid then
              update_schedule uid (\<lambda>r. r\<lparr>sh_name := label, sh_cron := cron, sh_config := backup_config i,
                sh_enabled := active, sh_next_run := nxt, sh_updated := now\<rparr>) s
            else s\<lparr>sc_rows := sc_rows s @
              [\<lparr>sh_id = uid, sh_name = label, sh_description = [], sh_cron = cron, sh_zone = ''UTC'', sh_action = ''backup'',
                sh_config = backup_config i, sh_enabled = active, sh_last_run = None, sh_next_run = nxt,
                sh_last_status = None, sh_last_error = None, sh_by = None, sh_system = True, sh_updated = now\<rparr>]\<rparr>)\<rparr>)"

record backup_request =
  bq_storage :: string
  bq_cron :: string
  bq_retention :: int
  bq_db :: "string option"

text \<open>Creating replaces the schedule of the same service and database.\<close>

definition backup_create ::
  "cron_crate \<Rightarrow> time \<Rightarrow> string \<Rightarrow> auth_user \<Rightarrow> string \<Rightarrow> backup_request \<Rightarrow> backup_db \<Rightarrow>
   (app_error + string) \<times> backup_db" where
  "backup_create C now uuid user service q db =
     (case enforce_resource_role (bd_auth db) user service ProjectAdmin of
        Inl e \<Rightarrow> (Inl e, db)
      | Inr _ \<Rightarrow>
          if bq_storage q = [] then (Inl (BadRequest (te ''errors.backups.s3_storage_required'')), db)
          else
            (let db1 = drop_backup_schedules (\<lambda>s. bk_service s = service \<and> coalesce (bk_db s) [] = coalesce (bq_db q) []) db
             in if \<exists>s \<in> set (bd_schedules db1). bk_id s = uuid then (Inl (DatabaseError ''UNIQUE constraint failed''), db1)
                else if service_by_id db1 service = None \<or> storage_by_id db1 (bq_storage q) = None then
                  (Inl (DatabaseError ''FOREIGN KEY constraint failed''), db1)
                else
                  (let db2 = db1\<lparr>bd_schedules := bd_schedules db1 @
                         [\<lparr>bk_id = uuid, bk_service = service, bk_storage = bq_storage q, bk_cron = bq_cron q,
                           bk_retention = bq_retention q, bk_active = True, bk_last = None,
                           bk_next = Some (now + cron_to_next_run (bq_cron q)), bk_db = bq_db q, bk_updated = now\<rparr>]\<rparr>
                   in (Inr uuid, sync_unified_for_backup C now uuid service (bq_cron q) True db2))))"

record backup_patch =
  bp_storage :: "string option"
  bp_cron :: "string option"
  bp_retention :: "int option"
  bp_active :: "bool option"

definition backup_set_if ::
  "time \<Rightarrow> string \<Rightarrow> 'v option \<Rightarrow> ('v \<Rightarrow> backup_schedule \<Rightarrow> backup_schedule) \<Rightarrow> backup_db \<Rightarrow> backup_db" where
  "backup_set_if now i x f db =
     (case x of None \<Rightarrow> db | Some v \<Rightarrow> update_backup_schedule i (\<lambda>s. (f v s)\<lparr>bk_updated := now\<rparr>) db)"

definition backup_update ::
  "cron_crate \<Rightarrow> time \<Rightarrow> auth_user \<Rightarrow> string \<Rightarrow> string \<Rightarrow> backup_patch \<Rightarrow> backup_db \<Rightarrow> (app_error + unit) \<times> backup_db" where
  "backup_update C now user resource i p db =
     (case enforce_resource_role (bd_auth db) user resource ProjectAdmin of
        Inl e \<Rightarrow> (Inl e, db)
      | Inr _ \<Rightarrow>
          if (case bp_storage p of None \<Rightarrow> False
              | Some v \<Rightarrow> backup_schedule_by_id db i \<noteq> None \<and> storage_by_id db v = None)
          then (Inl (DatabaseError ''FOREIGN KEY constraint failed''), db)
          else
            (let db1 = backup_set_if now i (bp_storage p) (\<lambda>v s. s\<lparr>bk_storage := v\<rparr>) db;
                 db2 = backup_set_if now i (bp_cron p)
                         (\<lambda>v s. s\<lparr>bk_cron := v, bk_next := Some (now + cron_to_next_run v)\<rparr>) db1;
                 db3 = backup_set_if now i (bp_retention p) (\<lambda>v s. s\<lparr>bk_retention := v\<rparr>) db2;
                 db4 = backup_set_if now i (bp_active p) (\<lambda>v s. s\<lparr>bk_active := v\<rparr>) db3
             in (case backup_schedule_by_id db4 i of
                   None \<Rightarrow> (Inl (DatabaseError ''Query returned no rows''), db4)
                 | Some s \<Rightarrow> (Inr (), sync_unified_for_backup C now i (bk_service s) (bk_cron s) (bk_active s) db4))))"

definition backup_delete :: "auth_user \<Rightarrow> string \<Rightarrow> string \<Rightarrow> backup_db \<Rightarrow> (app_error + unit) \<times> backup_db" where
  "backup_delete user resource i db =
     (case enforce_resource_role (bd_auth db) user resource ProjectAdmin of
        Inl e \<Rightarrow> (Inl e, db)
      | Inr _ \<Rightarrow>
          (let db1 = drop_backup_schedules (\<lambda>s. bk_id s = i) db
           in (Inr (), db1\<lparr>bd_sched := delete_schedule (unified_id i) (bd_sched db1)\<rparr>)))"

text \<open>Deleting a database of a service (\<open>api/databases.rs\<close>): the ids of its backups are read before the database is
  dropped, if they are to go too; afterwards its credentials, its schedules and those backups are deleted.\<close>

definition database_backups :: "string \<Rightarrow> string \<Rightarrow> bool \<Rightarrow> backup_db \<Rightarrow> string list" where
  "database_backups service name too db =
     (if too then map br_id (filter (\<lambda>b. br_service b = service \<and> br_db b = Some name) (bd_backups db)) else [])"

definition delete_database_rows :: "string \<Rightarrow> string \<Rightarrow> string list \<Rightarrow> backup_db \<Rightarrow> backup_db" where
  "delete_database_rows service name ids db =
     (let db1 = db\<lparr>bd_creds := sql_delete (\<lambda>(s, c). s = service \<and> dc_name c = name) (bd_creds db)\<rparr>;
          db2 = drop_backup_schedules (\<lambda>s. bk_service s = service \<and> bk_db s = Some name) db1
      in db2\<lparr>bd_backups := sql_delete (\<lambda>b. br_id b \<in> set ids) (bd_backups db2)\<rparr>)"

section \<open>Running a backup\<close>

text \<open>The object storage: each call gets the row of the storage and the key.\<close>

record 'w blob_store =
  bs_put :: "storage_row \<Rightarrow> string \<Rightarrow> blob \<Rightarrow> 'w \<Rightarrow> (string + unit) \<times> 'w"
  bs_get :: "storage_row \<Rightarrow> string \<Rightarrow> 'w \<Rightarrow> (string + blob) \<times> 'w"
  bs_delete :: "storage_row \<Rightarrow> string \<Rightarrow> 'w \<Rightarrow> (string + unit) \<times> 'w"

definition load_db_credentials :: "backup_db \<Rightarrow> string \<Rightarrow> db_credential list" where
  "load_db_credentials db service = sort_key dc_name (map snd (filter (\<lambda>c. fst c = service) (bd_creds db)))"

text \<open>What a run has read and inserted before it dumps.\<close>

record backup_job =
  bj_id :: string
  bj_service :: string
  bj_name :: string
  bj_catalog :: string
  bj_env :: env_vars
  bj_storage :: storage_row
  bj_key :: string
  bj_db :: "string option"

definition insert_backup ::
  "time \<Rightarrow> string \<Rightarrow> string \<Rightarrow> string \<Rightarrow> backup_job \<Rightarrow> backup_db \<Rightarrow> string + backup_db" where
  "insert_backup now uuid schedule by job db =
     (if \<exists>b \<in> set (bd_backups db). br_id b = uuid then Inl ''UNIQUE constraint failed''
      else Inr (db\<lparr>bd_backups := bd_backups db @
        [\<lparr>br_id = uuid, br_schedule = Some schedule, br_service = bj_service job, br_storage = so_id (bj_storage job),
          br_key = bj_key job, br_db = bj_db job, br_status = ''running'', br_size = 0, br_error = None, br_by = by,
          br_started = now, br_finished = None\<rparr>]\<rparr>))"

definition mark_failed :: "time \<Rightarrow> string \<Rightarrow> string \<Rightarrow> backup_db \<Rightarrow> backup_db" where
  "mark_failed now i msg =
     update_backup i (\<lambda>b. b\<lparr>br_status := ''failed'', br_error := Some msg, br_finished := Some now\<rparr>)"

definition mark_completed :: "time \<Rightarrow> string \<Rightarrow> nat \<Rightarrow> backup_db \<Rightarrow> backup_db" where
  "mark_completed now i n =
     update_backup i (\<lambda>b. b\<lparr>br_status := ''completed'', br_size := n, br_finished := Some now\<rparr>)"

definition take_dump ::
  "codecs \<Rightarrow> 'w docker_exec \<Rightarrow> db_credential list \<Rightarrow> backup_job \<Rightarrow> 'w \<Rightarrow> (string + blob) \<times> 'w" where
  "take_dump K ex creds job w =
     (let container = ''pier-'' @ bj_name job
      in case bj_db job of
           Some d \<Rightarrow> execute_db_backup K ex container (bj_catalog job) (bj_env job)
                      (find (\<lambda>c. dc_name c = d) creds) d w
         | None \<Rightarrow> execute_cluster_backup K ex container (bj_catalog job) (bj_env job) creds w)"

text \<open>The dump and the upload of a run, and the row it leaves: the error, or the size.\<close>

definition dump_and_upload ::
  "codecs \<Rightarrow> 'w docker_exec \<Rightarrow> 'w blob_store \<Rightarrow> db_credential list \<Rightarrow> backup_job \<Rightarrow> 'w \<Rightarrow> (string + nat) \<times> 'w" where
  "dump_and_upload K ex B creds job w =
     (case take_dump K ex creds job w of
        (Inl e, w1) \<Rightarrow> (Inl e, w1)
      | (Inr data, w1) \<Rightarrow>
          (case bs_put B (bj_storage job) (bj_key job) data w1 of
             (Inl e, w2) \<Rightarrow> (Inl e, w2)
           | (Inr _, w2) \<Rightarrow> (Inr (length data), w2)))"

text \<open>\<open>trigger_backup\<close>: the handler picks the schedule of the database, or else one of the service, and inserts
  the backup; the task it spawns takes it. \<open>dec_env\<close> decrypts and reads an environment, \<open>stamp\<close> prints a time.\<close>

definition pick_schedule :: "backup_db \<Rightarrow> string \<Rightarrow> string option \<Rightarrow> backup_schedule option" where
  "pick_schedule db service d =
     (case sql_first (\<lambda>s. bk_service s = service \<and> coalesce (bk_db s) [] = coalesce d [] \<and> bk_active s) (bd_schedules db) of
        Some s \<Rightarrow> Some s
      | None \<Rightarrow>
          (case sql_first (\<lambda>s. bk_service s = service \<and> bk_active s \<and> bk_db s = None) (bd_schedules db) of
             Some s \<Rightarrow> Some s
           | None \<Rightarrow> sql_first (\<lambda>s. bk_service s = service \<and> bk_active s) (bd_schedules db)))"

definition trigger_backup ::
  "(string option \<Rightarrow> env_vars) \<Rightarrow> (time \<Rightarrow> string) \<Rightarrow> time \<Rightarrow> string \<Rightarrow> auth_user \<Rightarrow> string \<Rightarrow> string option \<Rightarrow> backup_db \<Rightarrow>
   (app_error + backup_job) \<times> backup_db" where
  "trigger_backup dec_env stamp now uuid user service d db =
     (case enforce_resource_role (bd_auth db) user service Editor of
        Inl e \<Rightarrow> (Inl e, db)
      | Inr _ \<Rightarrow>
          (case service_by_id db service of
             None \<Rightarrow> (Inl (NotFound (Te ''errors.backups.resource_not_found'' [(''id'', service)])), db)
           | Some s \<Rightarrow>
               (let cat = coalesce (si_catalog s) []
                in if \<not> supports_backup cat then
                     (Inl (BadRequest (Te ''errors.backups.backup_not_supported'' [(''catalog'', cat)])), db)
                   else if d \<noteq> None \<and> \<not> supports_per_db_backup cat then
                     (Inl (BadRequest (Te ''errors.backups.per_db_backup_not_supported'' [(''catalog'', cat)])), db)
                   else
                     (case pick_schedule db service d of
                        None \<Rightarrow> (Inl (BadRequest (te ''errors.backups.no_schedule_configured'')), db)
                      | Some sch \<Rightarrow>
                          (case storage_by_id db (bk_storage sch) of
                             None \<Rightarrow> (Inl (DatabaseError ''Query returned no rows''), db)
                           | Some so \<Rightarrow>
                               (let job = \<lparr>bj_id = uuid, bj_service = service, bj_name = si_name s, bj_catalog = cat,
                                      bj_env = dec_env (si_env s), bj_storage = so,
                                      bj_key = build_s3_key (so_prefix so) (si_name s) cat d (stamp now), bj_db = d\<rparr>
                                in (case insert_backup now uuid (bk_id sch) ''manual'' job db of
                                      Inl e \<Rightarrow> (Inl (DatabaseError e), db)
                                    | Inr db' \<Rightarrow> (Inr job, db'))))))))"

definition trigger_finish ::
  "codecs \<Rightarrow> 'w docker_exec \<Rightarrow> 'w blob_store \<Rightarrow> time \<Rightarrow> backup_job \<Rightarrow> backup_db \<Rightarrow> 'w \<Rightarrow> backup_db \<times> 'w" where
  "trigger_finish K ex B now job db w =
     (case dump_and_upload K ex B (load_db_credentials db (bj_service job)) job w of
        (Inl e, w') \<Rightarrow> (mark_failed now (bj_id job) e db, w')
      | (Inr n, w') \<Rightarrow> (mark_completed now (bj_id job) n db, w'))"

text \<open>The retention: of the completed backups of the schedule, newest first, those past the count go. \<open>OFFSET\<close>
  with a negative count skips none. A blob that cannot be deleted is left behind.\<close>

definition newest_first :: "backup_row list \<Rightarrow> backup_row list" where
  "newest_first bs = rev (sort_key br_started (rev bs))"

definition completed_of :: "string \<Rightarrow> backup_db \<Rightarrow> backup_row list" where
  "completed_of i db = filter (\<lambda>b. br_schedule b = Some i \<and> br_status b = ''completed'') (bd_backups db)"

definition old_backups :: "string \<Rightarrow> int \<Rightarrow> backup_db \<Rightarrow> backup_row list" where
  "old_backups i retention db = drop (nat retention) (newest_first (completed_of i db))"

definition delete_backup_row :: "string \<Rightarrow> backup_db \<Rightarrow> backup_db" where
  "delete_backup_row i db = db\<lparr>bd_backups := sql_delete (\<lambda>b. br_id b = i) (bd_backups db)\<rparr>"

definition delete_blob_by_storage_id ::
  "'w blob_store \<Rightarrow> backup_db \<Rightarrow> string \<Rightarrow> string \<Rightarrow> 'w \<Rightarrow> (string + unit) \<times> 'w" where
  "delete_blob_by_storage_id B db storage key w =
     (case storage_by_id db storage of
        None \<Rightarrow> (Inl ''Query returned no rows'', w)
      | Some so \<Rightarrow> bs_delete B so key w)"

fun sweep_backups :: "'w blob_store \<Rightarrow> backup_row list \<Rightarrow> backup_db \<Rightarrow> 'w \<Rightarrow> backup_db \<times> 'w" where
  "sweep_backups B [] db w = (db, w)"
| "sweep_backups B (b # bs) db w =
     (let w1 = snd (delete_blob_by_storage_id B db (br_storage b) (br_key b) w)
      in sweep_backups B bs (delete_backup_row (br_id b) db) w1)"

text \<open>\<open>run_single_backup\<close> reads and inserts at \<open>t0\<close>, dumps and uploads, and finishes at \<open>t1\<close>.\<close>

definition schedule_job ::
  "(string option \<Rightarrow> env_vars) \<Rightarrow> (time \<Rightarrow> string) \<Rightarrow> time \<Rightarrow> string \<Rightarrow> backup_schedule \<Rightarrow> backup_db \<Rightarrow>
   string + backup_job \<times> backup_db" where
  "schedule_job dec_env stamp now uuid sch db =
     (case service_by_id db (bk_service sch) of
        None \<Rightarrow> Inl ''Query returned no rows''
      | Some s \<Rightarrow>
          (case storage_by_id db (bk_storage sch) of
             None \<Rightarrow> Inl ''Query returned no rows''
           | Some so \<Rightarrow>
               (let cat = coalesce (si_catalog s) [];
                    job = \<lparr>bj_id = uuid, bj_service = bk_service sch, bj_name = si_name s, bj_catalog = cat,
                      bj_env = dec_env (si_env s), bj_storage = so,
                      bj_key = build_s3_key (so_prefix so) (si_name s) cat (bk_db sch) (stamp now), bj_db = bk_db sch\<rparr>
                in (case insert_backup now uuid (bk_id sch) ''schedule'' job db of
                      Inl e \<Rightarrow> Inl e
                    | Inr db' \<Rightarrow> Inr (job, db')))))"

text \<open>The end of a run, under one lock but for the deletions that follow.\<close>

definition complete_backup ::
  "'w blob_store \<Rightarrow> time \<Rightarrow> string \<Rightarrow> nat \<Rightarrow> backup_schedule \<Rightarrow> backup_db \<Rightarrow> 'w \<Rightarrow> backup_db \<times> 'w" where
  "complete_backup B t1 uuid n sch db w =
     (let db2 = update_backup_schedule (bk_id sch) (\<lambda>s. s\<lparr>bk_last := Some t1, bk_updated := t1\<rparr>)
            (mark_completed t1 uuid n db)
      in sweep_backups B (old_backups (bk_id sch) (bk_retention sch) db2) db2 w)"

text \<open>The database is not locked while a backup is taken: \<open>m0\<close> and \<open>m1\<close> are what other requests and
  runs do to it before the credentials are read and during the dump and the upload.\<close>

definition run_single_backup ::
  "(string option \<Rightarrow> env_vars) \<Rightarrow> (time \<Rightarrow> string) \<Rightarrow> codecs \<Rightarrow> 'w docker_exec \<Rightarrow> 'w blob_store \<Rightarrow>
   (backup_db \<Rightarrow> backup_db) \<Rightarrow> (backup_db \<Rightarrow> backup_db) \<Rightarrow> time \<Rightarrow> time \<Rightarrow> string \<Rightarrow>
   backup_schedule \<Rightarrow> backup_db \<Rightarrow> 'w \<Rightarrow> (string + unit) \<times> backup_db \<times> 'w" where
  "run_single_backup dec_env stamp K ex B m0 m1 t0 t1 uuid sch db w =
     (case schedule_job dec_env stamp t0 uuid sch db of
        Inl e \<Rightarrow> (Inl e, db, w)
      | Inr (job, db1) \<Rightarrow>
          (let db2 = m0 db1; db3 = m1 db2
           in case dump_and_upload K ex B (load_db_credentials db2 (bk_service sch)) job w of
                (Inl e, w1) \<Rightarrow> (Inl e, mark_failed t1 uuid e db3, w1)
              | (Inr n, w1) \<Rightarrow>
                  (let (db4, w2) = complete_backup B t1 uuid n sch db3 w1 in (Inr (), db4, w2))))"

definition run_for_schedule ::
  "(string option \<Rightarrow> env_vars) \<Rightarrow> (time \<Rightarrow> string) \<Rightarrow> codecs \<Rightarrow> 'w docker_exec \<Rightarrow> 'w blob_store \<Rightarrow>
   (backup_db \<Rightarrow> backup_db) \<Rightarrow> (backup_db \<Rightarrow> backup_db) \<Rightarrow> time \<Rightarrow> time \<Rightarrow> string \<Rightarrow>
   string \<Rightarrow> backup_db \<Rightarrow> 'w \<Rightarrow> (string + string) \<times> backup_db \<times> 'w" where
  "run_for_schedule dec_env stamp K ex B m0 m1 t0 t1 uuid i db w =
     (case sql_first (\<lambda>s. bk_id s = i \<and> bk_active s) (bd_schedules db) of
        None \<Rightarrow> (Inl (''backup_schedule '' @ quoted i @ '' not found or inactive''), db, w)
      | Some sch \<Rightarrow>
          (case run_single_backup dec_env stamp K ex B m0 m1 t0 t1 uuid sch db w of
             (Inl e, db', w') \<Rightarrow> (Inl e, db', w')
           | (Inr _, db', w') \<Rightarrow>
               (Inr (''backup for service '' @ bk_service sch @ '' ('' @ coalesce (bk_db sch) ''cluster-wide'' @ '') completed''),
                db', w')))"

section \<open>Deleting and restoring\<close>

definition delete_backup ::
  "'w blob_store \<Rightarrow> auth_user \<Rightarrow> string \<Rightarrow> backup_db \<Rightarrow> 'w \<Rightarrow> (app_error + unit) \<times> backup_db \<times> 'w" where
  "delete_backup B user i db w =
     (case backup_by_id db i of
        None \<Rightarrow> (Inl (NotFound (Te ''errors.backups.backup_not_found'' [(''id'', i)])), db, w)
      | Some b \<Rightarrow>
          (case enforce_resource_role (bd_auth db) user (br_service b) ProjectAdmin of
             Inl e \<Rightarrow> (Inl e, db, w)
           | Inr _ \<Rightarrow>
               (case storage_by_id db (br_storage b) of
                  None \<Rightarrow> (Inl (DatabaseError ''Query returned no rows''), db, w)
                | Some so \<Rightarrow>
                    (case bs_delete B so (br_key b) w of
                       (Inl e, w1) \<Rightarrow> (Inl (Internal (''storage delete: '' @ e)), db, w1)
                     | (Inr _, w1) \<Rightarrow> (Inr (), delete_backup_row i db, w1)))))"

text \<open>The answer of a download: a redirection for Bunny storage, the bytes and the name of the file otherwise.\<close>

datatype download = Redirect string | Attachment string blob

definition last_segment :: "string \<Rightarrow> string" where
  "last_segment key = rev (takeWhile (\<lambda>c. c \<noteq> CHR ''/'') (rev key))"

definition download_backup ::
  "'w blob_store \<Rightarrow> auth_user \<Rightarrow> string \<Rightarrow> backup_db \<Rightarrow> 'w \<Rightarrow> (app_error + download) \<times> 'w" where
  "download_backup B user i db w =
     (case backup_by_id db i of
        None \<Rightarrow> (Inl (NotFound (Te ''errors.backups.backup_not_found'' [(''id'', i)])), w)
      | Some b \<Rightarrow>
          (case enforce_resource_role (bd_auth db) user (br_service b) Viewer of
             Inl e \<Rightarrow> (Inl e, w)
           | Inr _ \<Rightarrow>
               if br_status b \<noteq> ''completed'' then (Inl (NotFound (te ''errors.backups.backup_not_completed'')), w)
               else
                 (case storage_by_id db (br_storage b) of
                    None \<Rightarrow> (Inl (DatabaseError ''Query returned no rows''), w)
                  | Some so \<Rightarrow>
                      if so_type so = ''bunny'' then
                        (Inr (Redirect (''https://'' @ so_endpoint so @ ''/'' @ so_bucket so @ ''/'' @ br_key b)), w)
                      else
                        (case bs_get B so (br_key b) w of
                           (Inl e, w1) \<Rightarrow> (Inl (Internal e), w1)
                         | (Inr data, w1) \<Rightarrow> (Inr (Attachment (last_segment (br_key b)) data), w1)))))"

definition resolve_owner :: "backup_db \<Rightarrow> string \<Rightarrow> string \<Rightarrow> app_error + db_credential" where
  "resolve_owner db service wanted =
     (case find (\<lambda>c. dc_name c = wanted) (load_db_credentials db service) of
        None \<Rightarrow> Inl (BadRequest (Te ''errors.backups.database_does_not_exist'' [(''name'', wanted)]))
      | Some c \<Rightarrow> Inr c)"

definition fetch_service_info :: "backup_db \<Rightarrow> string \<Rightarrow> app_error + service_info" where
  "fetch_service_info db service =
     (case service_by_id db service of
        None \<Rightarrow> Inl (NotFound (Te ''errors.backups.service_not_found'' [(''id'', service)]))
      | Some s \<Rightarrow> Inr s)"

text \<open>What a restore checks and reads before it fetches the blob.\<close>

definition restore_plan ::
  "auth_user \<Rightarrow> string \<Rightarrow> string \<Rightarrow> backup_db \<Rightarrow> app_error + backup_row \<times> service_info \<times> db_credential \<times> storage_row" where
  "restore_plan user i wanted db =
     (case backup_by_id db i of
        None \<Rightarrow> Inl (NotFound (Te ''errors.backups.backup_not_found'' [(''id'', i)]))
      | Some b \<Rightarrow>
          (case enforce_resource_role (bd_auth db) user (br_service b) ProjectAdmin of
             Inl e \<Rightarrow> Inl e
           | Inr _ \<Rightarrow>
               if wanted = [] then Inl (BadRequest (te ''errors.backups.target_database_name_required''))
               else if br_status b \<noteq> ''completed'' then Inl (NotFound (te ''errors.backups.backup_not_completed''))
               else
                 (case fetch_service_info db (br_service b) of
                    Inl e \<Rightarrow> Inl e
                  | Inr s \<Rightarrow>
                      if \<not> supports_per_db_backup (coalesce (si_catalog s) []) then
                        Inl (BadRequest (Te ''errors.backups.per_db_restore_not_supported'' [(''catalog'', coalesce (si_catalog s) [])]))
                      else
                        (case resolve_owner db (br_service b) wanted of
                           Inl e \<Rightarrow> Inl e
                         | Inr owner \<Rightarrow>
                             (case storage_by_id db (br_storage b) of
                                None \<Rightarrow> Inl (DatabaseError ''Query returned no rows'')
                              | Some so \<Rightarrow> Inr (b, s, owner, so))))))"

definition restore_backup ::
  "(string option \<Rightarrow> env_vars) \<Rightarrow> codecs \<Rightarrow> 'w pipe \<Rightarrow> 'w blob_store \<Rightarrow> auth_user \<Rightarrow> string \<Rightarrow> string \<Rightarrow> backup_db \<Rightarrow> 'w \<Rightarrow>
   (app_error + unit) \<times> 'w" where
  "restore_backup dec_env K pipe B user i wanted db w =
     (case restore_plan user i wanted db of
        Inl e \<Rightarrow> (Inl e, w)
      | Inr (b, s, owner, so) \<Rightarrow>
          (case bs_get B so (br_key b) w of
             (Inl e, w1) \<Rightarrow> (Inl (Internal e), w1)
           | (Inr data, w1) \<Rightarrow>
               if br_db b \<noteq> None \<and> br_db b \<noteq> Some wanted then
                 (Inl (BadRequest (Te ''errors.backups.backup_db_mismatch''
                    [(''backup_db'', coalesce (br_db b) []), (''target_db'', wanted)])), w1)
               else
                 apply_restore K pipe (''pier-'' @ si_name s) (coalesce (si_catalog s) []) (dec_env (si_env s)) wanted owner
                   (format_of_key (br_key b)) data w1))"

text \<open>Restoring an uploaded file; the upload is its name and bytes, if it has them.\<close>

definition restore_database_from_upload ::
  "(string option \<Rightarrow> env_vars) \<Rightarrow> codecs \<Rightarrow> 'w pipe \<Rightarrow> auth_user \<Rightarrow> string \<Rightarrow> string \<Rightarrow> string option \<Rightarrow> blob option \<Rightarrow>
   backup_db \<Rightarrow> 'w \<Rightarrow> (app_error + unit) \<times> 'w" where
  "restore_database_from_upload dec_env K pipe user service wanted file_name file_bytes db w =
     (case enforce_resource_role (bd_auth db) user service ProjectAdmin of
        Inl e \<Rightarrow> (Inl e, w)
      | Inr _ \<Rightarrow>
          if wanted = [] then (Inl (BadRequest (te ''errors.backups.database_name_required'')), w)
          else
            (case fetch_service_info db service of
               Inl e \<Rightarrow> (Inl e, w)
             | Inr s \<Rightarrow>
                 (let cat = coalesce (si_catalog s) []
                  in if \<not> supports_per_db_backup cat then
                       (Inl (BadRequest (Te ''errors.backups.per_db_restore_not_supported'' [(''catalog'', cat)])), w)
                     else
                       (case resolve_owner db service wanted of
                          Inl e \<Rightarrow> (Inl e, w)
                        | Inr owner \<Rightarrow>
                            (case (file_bytes, file_name) of
                               (None, _) \<Rightarrow> (Inl (BadRequest (te ''errors.backups.multipart_missing_file'')), w)
                             | (Some _, None) \<Rightarrow> (Inl (BadRequest (te ''errors.backups.uploaded_file_no_name'')), w)
                             | (Some data, Some filename) \<Rightarrow>
                                 (case detect_format filename cat of
                                    Inl e \<Rightarrow> (Inl e, w)
                                  | Inr fmt \<Rightarrow>
                                      apply_restore K pipe (''pier-'' @ si_name s) cat (dec_env (si_env s)) wanted owner fmt data w))))))"

section \<open>Retention\<close>

lemma newest_first_set [simp]: "set (newest_first bs) = set bs"
  by (simp add: newest_first_def)

lemma newest_first_length [simp]: "length (newest_first bs) = length bs"
  by (simp add: newest_first_def)

lemma newest_first_distinct: "distinct bs \<Longrightarrow> distinct (newest_first bs)"
  by (simp add: newest_first_def)

lemma newest_first_sorted: "sorted_wrt (\<lambda>a b. br_started b \<le> br_started a) (newest_first bs)"
proof -
  have "sorted (map br_started (sort_key br_started (rev bs)))" by (rule sorted_sort_key)
  then show ?thesis by (simp add: newest_first_def sorted_wrt_rev sorted_wrt_map)
qed

lemma take_or_drop: "distinct xs \<Longrightarrow> x \<in> set xs \<Longrightarrow> x \<in> set (take n xs) \<longleftrightarrow> x \<notin> set (drop n xs)"
  by (metis UnE append_take_drop_id disjoint_iff distinct_append set_append)

lemma kept_before_dropped: "sorted_wrt R xs \<Longrightarrow> a \<in> set (take n xs) \<Longrightarrow> b \<in> set (drop n xs) \<Longrightarrow> R a b"
  by (metis append_take_drop_id sorted_wrt_append)

lemma sweep_rows:
  "sweep_backups B bs db w = (db', w') \<Longrightarrow>
   db' = db\<lparr>bd_backups := filter (\<lambda>b. br_id b \<notin> br_id ` set bs) (bd_backups db)\<rparr>"
proof (induction bs arbitrary: db w)
  case (Cons b bs)
  have "db' = (delete_backup_row (br_id b) db)
      \<lparr>bd_backups := filter (\<lambda>x. br_id x \<notin> br_id ` set bs) (bd_backups (delete_backup_row (br_id b) db))\<rparr>"
    by (rule Cons.IH) (use Cons.prems in \<open>simp add: Let_def\<close>)
  then show ?case by (simp add: delete_backup_row_def sql_delete_def conj_commute)
qed simp

lemma row_by_id:
  "distinct (map br_id bs) \<Longrightarrow> b \<in> set bs \<Longrightarrow> set xs \<subseteq> set bs \<Longrightarrow> br_id b \<in> br_id ` set xs \<longleftrightarrow> b \<in> set xs"
  by (auto simp: distinct_map dest: inj_onD)

lemma retained_rows:
  assumes d: "distinct (map br_id (bd_backups db))"
    and s: "sweep_backups B (old_backups i k db) db w = (db', w')"
  shows "completed_of i db' = filter (\<lambda>b. b \<in> set (take (nat k) (newest_first (completed_of i db)))) (completed_of i db)"
    and "filter (\<lambda>b. br_schedule b = Some i \<longrightarrow> br_status b \<noteq> ''completed'') (bd_backups db') =
      filter (\<lambda>b. br_schedule b = Some i \<longrightarrow> br_status b \<noteq> ''completed'') (bd_backups db)"
proof -
  let ?C = "completed_of i db"
  let ?N = "newest_first ?C"
  have sub: "set (old_backups i k db) \<subseteq> set ?C"
    by (auto simp: old_backups_def dest: in_set_dropD)
  have C: "set ?C \<subseteq> set (bd_backups db)" "distinct ?C"
    using d by (auto simp: completed_of_def distinct_map)
  have rows: "bd_backups db' = filter (\<lambda>b. b \<notin> set (old_backups i k db)) (bd_backups db)"
    using sweep_rows [OF s] row_by_id [OF d _ order_trans [OF sub C(1)]] by (auto intro!: filter_cong)
  have split: "b \<in> set (take (nat k) ?N) \<longleftrightarrow> b \<notin> set (old_backups i k db)" if "b \<in> set ?C" for b
    using take_or_drop [OF newest_first_distinct [OF C(2)]] that by (simp add: old_backups_def)
  have "completed_of i db' = filter (\<lambda>b. b \<notin> set (old_backups i k db)) ?C"
    unfolding completed_of_def rows by (simp add: conj_commute conj_left_commute)
  also have "\<dots> = filter (\<lambda>b. b \<in> set (take (nat k) ?N)) ?C"
    using split by (intro filter_cong) auto
  finally show "completed_of i db' = filter (\<lambda>b. b \<in> set (take (nat k) ?N)) ?C" .
  have "b \<notin> set (old_backups i k db)" if "br_schedule b = Some i \<longrightarrow> br_status b \<noteq> ''completed''" for b
    using sub that by (auto simp: completed_of_def)
  then show "filter (\<lambda>b. br_schedule b = Some i \<longrightarrow> br_status b \<noteq> ''completed'') (bd_backups db') =
      filter (\<lambda>b. br_schedule b = Some i \<longrightarrow> br_status b \<noteq> ''completed'') (bd_backups db)"
    unfolding rows by (auto intro!: filter_cong)
qed

lemma retained_newest:
  assumes "distinct (map br_id (bd_backups db))" "sweep_backups B (old_backups i k db) db w = (db', w')"
  shows "set (completed_of i db') = set (take (nat k) (newest_first (completed_of i db)))"
    and "length (completed_of i db') = min (nat k) (length (completed_of i db))"
    and "kept \<in> set (completed_of i db') \<Longrightarrow> old \<in> set (completed_of i db) \<Longrightarrow> old \<notin> set (completed_of i db') \<Longrightarrow>
      br_started old \<le> br_started kept"
proof -
  let ?C = "completed_of i db"
  let ?N = "newest_first ?C"
  have C: "distinct ?C" using assms(1) by (auto simp: completed_of_def distinct_map)
  show set: "set (completed_of i db') = set (take (nat k) ?N)"
    unfolding retained_rows(1) [OF assms] by (auto dest: in_set_takeD)
  have "distinct (completed_of i db')" unfolding retained_rows(1) [OF assms] using C by simp
  then have "length (completed_of i db') = card (set (take (nat k) ?N))"
    using set distinct_card by metis
  also have "\<dots> = length (take (nat k) ?N)" using newest_first_distinct [OF C] by (intro distinct_card) simp
  finally show "length (completed_of i db') = min (nat k) (length ?C)" by (simp add: min.commute)
  have "old \<in> set (drop (nat k) ?N)" if "old \<in> set ?C" "old \<notin> set (take (nat k) ?N)"
    using take_or_drop [OF newest_first_distinct [OF C]] that by simp
  then show "br_started old \<le> br_started kept"
    if "kept \<in> set (completed_of i db')" "old \<in> set ?C" "old \<notin> set (completed_of i db')"
    using that kept_before_dropped [OF newest_first_sorted] unfolding set by blast
qed

section \<open>Mirrors\<close>

text \<open>A schedule and the row of the scheduler that fires it say the same: the row is due from the next time of the
  expression in UTC on, as long as the schedule is active, and never if the expression has none. A new row runs the
  backup action in UTC; one that was there keeps its action and its zone.\<close>

definition mirrored :: "cron_crate \<Rightarrow> time \<Rightarrow> string \<Rightarrow> backup_db \<Rightarrow> backup_db \<Rightarrow> bool" where
  "mirrored C now i before after \<longleftrightarrow>
     (\<exists>s r. backup_schedule_by_id after i = Some s \<and> schedule_get (bd_sched after) (unified_id i) = Some r \<and>
        sh_name r = backup_label after i (bk_service s) \<and> sh_cron r = bk_cron s \<and> sh_enabled r = bk_active s \<and>
        sh_config r = backup_config i \<and> sh_next_run r = next_or_none C (bk_cron s) ''UTC'' now \<and>
        (\<forall>t. is_due t r \<longleftrightarrow> bk_active s \<and> (\<exists>n. next_or_none C (bk_cron s) ''UTC'' now = Some n \<and> n \<le> t)) \<and>
        (\<forall>t. is_due t r \<longrightarrow> due_of r \<in> set (find_due t (bd_sched after))) \<and>
        (sh_action r, sh_zone r, sh_system r) =
          (case schedule_get (bd_sched before) (unified_id i) of
             None \<Rightarrow> (''backup'', ''UTC'', True)
           | Some old \<Rightarrow> (sh_action old, sh_zone old, sh_system old)))"

lemma sync_schedules [simp]:
  "bd_schedules (sync_unified_for_backup C now i service cron active db) = bd_schedules db"
  "bd_backups (sync_unified_for_backup C now i service cron active db) = bd_backups db"
  by (simp_all add: sync_unified_for_backup_def Let_def)

lemma by_id_cong: "bd_schedules db = bd_schedules db' \<Longrightarrow> backup_schedule_by_id db i = backup_schedule_by_id db' i"
  by (simp add: backup_schedule_by_id_def)

lemma sync_get:
  "\<exists>r. schedule_get (bd_sched (sync_unified_for_backup C now i service cron active db)) (unified_id i) = Some r \<and>
     sh_name r = backup_label db i service \<and> sh_cron r = cron \<and> sh_enabled r = active \<and> sh_config r = backup_config i \<and>
     sh_next_run r = next_or_none C cron ''UTC'' now \<and>
     (sh_action r, sh_zone r, sh_system r) =
       (case schedule_get (bd_sched db) (unified_id i) of
          None \<Rightarrow> (''backup'', ''UTC'', True)
        | Some old \<Rightarrow> (sh_action old, sh_zone old, sh_system old))"
proof (cases "schedule_get (bd_sched db) (unified_id i)")
  case None
  then have "\<not> (\<exists>r \<in> set (sc_rows (bd_sched db)). sh_id r = unified_id i)"
    by (simp add: schedule_get_def sql_first_None)
  then show ?thesis
    using None by (simp add: sync_unified_for_backup_def Let_def schedule_get_def sql_first_append sql_simps)
next
  case (Some r)
  then have "\<exists>r \<in> set (sc_rows (bd_sched db)). sh_id r = unified_id i"
    by (auto simp: schedule_get_def dest: sql_first_Some)
  then show ?thesis
    using Some by (simp add: sync_unified_for_backup_def Let_def schedule_get_update_same)
qed

lemma sync_label: "backup_label (sync_unified_for_backup C now i service cron active db) j x = backup_label db j x"
  by (simp add: backup_label_def backup_schedule_by_id_def service_by_id_def sync_unified_for_backup_def Let_def)

lemma row_due:
  assumes "schedule_get db i = Some r" "is_due t r"
  shows "due_of r \<in> set (find_due t db)"
  using assms by (auto simp: schedule_get_def find_due_def dest: sql_first_Some)

lemma sync_mirrored:
  assumes "backup_schedule_by_id db i = Some s" "bd_sched db = bd_sched before"
  shows "mirrored C now i before (sync_unified_for_backup C now i (bk_service s) (bk_cron s) (bk_active s) db)"
proof -
  let ?after = "sync_unified_for_backup C now i (bk_service s) (bk_cron s) (bk_active s) db"
  obtain r where r: "schedule_get (bd_sched ?after) (unified_id i) = Some r" "sh_name r = backup_label db i (bk_service s)"
    "sh_cron r = bk_cron s" "sh_enabled r = bk_active s" "sh_config r = backup_config i"
    "sh_next_run r = next_or_none C (bk_cron s) ''UTC'' now"
    "(sh_action r, sh_zone r, sh_system r) =
       (case schedule_get (bd_sched db) (unified_id i) of
          None \<Rightarrow> (''backup'', ''UTC'', True)
        | Some old \<Rightarrow> (sh_action old, sh_zone old, sh_system old))"
    using sync_get [of C now i "bk_service s" "bk_cron s" "bk_active s" db] by blast
  have s: "backup_schedule_by_id ?after i = Some s" using assms(1) by_id_cong [OF sync_schedules(1)] by simp
  have "is_due t r \<longleftrightarrow> bk_active s \<and> (\<exists>n. next_or_none C (bk_cron s) ''UTC'' now = Some n \<and> n \<le> t)" for t
    using r(4,6) by (simp add: is_due_def split: option.split)
  then have due: "\<forall>t. is_due t r \<longleftrightarrow> bk_active s \<and> (\<exists>n. next_or_none C (bk_cron s) ''UTC'' now = Some n \<and> n \<le> t)"
    by (rule allI)
  show ?thesis
    unfolding mirrored_def sync_label assms(2) [symmetric]
    by (rule exI [of _ s], rule exI [of _ r]) (intro conjI s r due allI impI row_due [OF r(1)])
qed

lemma created_row:
  assumes "\<not> (\<exists>s \<in> set (bd_schedules db). bk_id s = bk_id n)"
  shows "backup_schedule_by_id (db\<lparr>bd_schedules := bd_schedules db @ [n]\<rparr>) (bk_id n) = Some n"
proof -
  have "sql_first (\<lambda>s. bk_id s = bk_id n) (bd_schedules db) = None" using assms by (auto simp: sql_first_None)
  then show ?thesis by (simp add: backup_schedule_by_id_def sql_first_append sql_simps)
qed

lemma gone_after_delete:
  "schedule_get (delete_schedule i s) i = None"
  by (auto simp: schedule_get_def delete_schedule_def sql_first_None set_sql_delete)

lemma backup_set_sched [simp]: "bd_sched (backup_set_if now i x f db) = bd_sched db"
  by (simp add: backup_set_if_def update_backup_schedule_def split: option.split)


lemma orphaned_mirror:
  assumes "schedule_get (bd_sched db) (unified_id i) = Some r" "sh_system r" "\<forall>x \<in> set (bd_schedules db). bk_id x \<noteq> i"
  shows "schedule_remove (unified_id i) (bd_sched db) = (Inl (Conflict (te ''errors.schedules.system_no_delete'')), bd_sched db)"
    and "run_for_schedule dec_env stamp K ex B m0 m1 t0 t1 u i db w =
      (Inl (''backup_schedule '' @ quoted i @ '' not found or inactive''), db, w)"
proof -
  show "schedule_remove (unified_id i) (bd_sched db) = (Inl (Conflict (te ''errors.schedules.system_no_delete'')), bd_sched db)"
    using assms(1,2) by (simp add: schedule_remove_def)
  have "sql_first (\<lambda>s. bk_id s = i \<and> bk_active s) (bd_schedules db) = None"
    using assms(3) by (auto simp: sql_first_None)
  then show "run_for_schedule dec_env stamp K ex B m0 m1 t0 t1 u i db w =
      (Inl (''backup_schedule '' @ quoted i @ '' not found or inactive''), db, w)"
    by (simp add: run_for_schedule_def)
qed

text \<open>replacing a schedule leaves the row of the scheduler of the old one behind: it stays enabled, it cannot be
  deleted because it is a system schedule, and each time it fires it fails, since its schedule is gone.\<close>

theorem replaced_mirror_orphaned:
  assumes "backup_create C now uuid user service q db = (Inr j, db')"
    and "old \<in> set (bd_schedules db)" "bk_service old = service" "coalesce (bk_db old) [] = coalesce (bq_db q) []"
    and "schedule_get (bd_sched db) (unified_id (bk_id old)) = Some r" "sh_system r" "bk_id old \<noteq> uuid"
    and "distinct (map bk_id (bd_schedules db))"
  shows "schedule_get (bd_sched db') (unified_id (bk_id old)) = Some r \<and>
    schedule_remove (unified_id (bk_id old)) (bd_sched db') =
      (Inl (Conflict (te ''errors.schedules.system_no_delete'')), bd_sched db') \<and>
    (\<exists>e. run_for_schedule dec_env stamp K ex B m0 m1 t0 t1 u (bk_id old) db' w = (Inl e, db', w))"
proof -
  let ?P = "\<lambda>s. bk_service s = service \<and> coalesce (bk_db s) [] = coalesce (bq_db q) []"
  let ?db1 = "drop_backup_schedules ?P db"
  let ?n = "\<lparr>bk_id = uuid, bk_service = service, bk_storage = bq_storage q, bk_cron = bq_cron q,
    bk_retention = bq_retention q, bk_active = True, bk_last = None,
    bk_next = Some (now + cron_to_next_run (bq_cron q)), bk_db = bq_db q, bk_updated = now\<rparr>"
  let ?db2 = "?db1\<lparr>bd_schedules := bd_schedules ?db1 @ [?n]\<rparr>"
  have db': "db' = sync_unified_for_backup C now uuid service (bq_cron q) True ?db2"
    using assms(1) by (auto simp: backup_create_def Let_def split: sum.splits if_splits)
  have ne: "unified_id uuid \<noteq> unified_id (bk_id old)" using assms(7) by (simp add: unified_id_def)
  have s1: "bd_sched ?db2 = bd_sched db" by (simp add: drop_backup_schedules_def Let_def)
  have get: "schedule_get (bd_sched db') (unified_id (bk_id old)) = Some r"
  proof (cases "\<exists>x \<in> set (sc_rows (bd_sched db)). sh_id x = unified_id uuid")
    case True
    then show ?thesis
      unfolding db' sync_unified_for_backup_def using s1 ne assms(5) by (simp add: Let_def schedule_get_update_other)
  next
    case False
    then show ?thesis
      unfolding db' sync_unified_for_backup_def using s1 ne assms(5)
      by (simp add: Let_def schedule_get_def sql_first_append)
  qed
  have gone: "\<forall>x \<in> set (bd_schedules db'). bk_id x \<noteq> bk_id old"
    using assms(2-4,7,8) by (auto simp: db' drop_backup_schedules_def Let_def set_sql_delete distinct_map dest: inj_onD)
  show ?thesis using get by (simp add: orphaned_mirror [OF get assms(6) gone])
qed

text \<open>so does deleting a database with its schedules: each run of the row that is left fails.\<close>

theorem dropped_database_leaves_mirror:
  assumes "old \<in> set (bd_schedules db)" "bk_service old = service" "bk_db old = Some name"
    and "schedule_get (bd_sched db) (unified_id (bk_id old)) = Some r" "sh_system r"
    and "distinct (map bk_id (bd_schedules db))" "db' = delete_database_rows service name (database_backups service name too db) db"
  shows "backup_schedule_by_id db' (bk_id old) = None \<and> schedule_get (bd_sched db') (unified_id (bk_id old)) = Some r \<and>
    schedule_remove (unified_id (bk_id old)) (bd_sched db') =
      (Inl (Conflict (te ''errors.schedules.system_no_delete'')), bd_sched db') \<and>
    (\<exists>e. run_for_schedule dec_env stamp K ex B m0 m1 t0 t1 u (bk_id old) db' w = (Inl e, db', w))"
proof -
  have get: "schedule_get (bd_sched db') (unified_id (bk_id old)) = Some r"
    using assms(4,7) by (simp add: delete_database_rows_def drop_backup_schedules_def Let_def)
  have gone: "\<forall>x \<in> set (bd_schedules db'). bk_id x \<noteq> bk_id old"
    using assms(1-3,6,7)
    by (auto simp: delete_database_rows_def drop_backup_schedules_def Let_def set_sql_delete distinct_map dest: inj_onD)
  then have "backup_schedule_by_id db' (bk_id old) = None" by (auto simp: backup_schedule_by_id_def sql_first_None)
  then show ?thesis using get by (simp add: orphaned_mirror [OF get assms(5) gone])
qed

text \<open>C40: the handlers that change and delete a schedule check the rights on the resource of the path, but act on
  the schedule of the path, whatever service it belongs to: an administrator of one project deletes the schedule of
  another project, on which it has no rights.\<close>

theorem foreign_schedule_deleted:
  assumes "enforce_resource_role (bd_auth db) user resource ProjectAdmin = Inr m"
    and "backup_schedule_by_id db i = Some s" "enforce_resource_role (bd_auth db) user (bk_service s) Viewer = Inl e"
  shows "fst (backup_delete user resource i db) = Inr () \<and>
    backup_schedule_by_id (snd (backup_delete user resource i db)) i = None"
  using assms(1) by (auto simp: backup_delete_def Let_def backup_schedule_by_id_def drop_backup_schedules_def sql_first_None
      set_sql_delete)

text \<open>the old schedule is deleted before the new one is inserted, outside of a transaction: a request that names an
  unknown storage fails and the service is left without its schedule.\<close>

theorem failed_replace_loses_schedule:
  assumes "enforce_resource_role (bd_auth db) user service ProjectAdmin = Inr m"
    and "old \<in> set (bd_schedules db)" "bk_service old = service" "coalesce (bk_db old) [] = coalesce (bq_db q) []"
    and "bq_storage q \<noteq> []" "storage_by_id db (bq_storage q) = None"
  shows "(\<exists>e. fst (backup_create C now uuid user service q db) = Inl (DatabaseError e)) \<and>
    old \<notin> set (bd_schedules (snd (backup_create C now uuid user service q db)))"
  using assms by (auto simp: backup_create_def Let_def drop_backup_schedules_def set_sql_delete storage_by_id_def)

section \<open>Restores\<close>

lemma owner_listed: "resolve_owner db service i = Inr c \<Longrightarrow> (service, c) \<in> set (bd_creds db) \<and> dc_name c = i"
proof -
  assume "resolve_owner db service i = Inr c"
  then have "sql_first (\<lambda>c. dc_name c = i) (load_db_credentials db service) = Some c"
    by (simp add: resolve_owner_def sql_first_def split: option.splits)
  then show ?thesis by (auto simp: load_db_credentials_def dest!: sql_first_Some)
qed

lemma plan_checks:
  assumes "restore_plan user i wanted db = Inr (b, s, owner, so)"
  shows "backup_by_id db i = Some b" "br_status b = ''completed''" "service_by_id db (br_service b) = Some s"
    "\<exists>m. enforce_resource_role (bd_auth db) user (br_service b) ProjectAdmin = Inr m"
    "resolve_owner db (br_service b) wanted = Inr owner" "storage_by_id db (br_storage b) = Some so"
  using assms by (simp_all add: restore_plan_def fetch_service_info_def split: option.splits sum.splits if_splits)

text \<open>C33: a restore runs commands only for an administrator of the service of the backup, only for a completed backup, in
  the container of that service, and only on a database of that service which the backup was taken of; in every other
  case it is an error and at most the blob was fetched.\<close>

theorem restore_only_owned:
  "\<exists>r w'. restore_backup dec_env K pipe B user i wanted db w = (r, w') \<and>
    ((\<exists>e. r = Inl e \<and> w' = w) \<or>
     (\<exists>b so. backup_by_id db i = Some b \<and> storage_by_id db (br_storage b) = Some so \<and> (\<exists>e. r = Inl e) \<and>
        w' = snd (bs_get B so (br_key b) w)) \<or>
     (\<exists>b m s owner data w1. backup_by_id db i = Some b \<and> br_status b = ''completed'' \<and>
        enforce_resource_role (bd_auth db) user (br_service b) ProjectAdmin = Inr m \<and>
        service_by_id db (br_service b) = Some s \<and> (br_service b, owner) \<in> set (bd_creds db) \<and>
        dc_name owner = wanted \<and> (br_db b = None \<or> br_db b = Some wanted) \<and>
        (r, w') = apply_restore K pipe (''pier-'' @ si_name s) (coalesce (si_catalog s) []) (dec_env (si_env s)) wanted owner
          (format_of_key (br_key b)) data w1))"
proof (cases "restore_plan user i wanted db")
  case (Inl e)
  then show ?thesis by (simp add: restore_backup_def)
next
  case (Inr x)
  obtain b s owner so where x: "x = (b, s, owner, so)" by (cases x)
  note c = plan_checks [OF Inr [unfolded x]]
  obtain m where m: "enforce_resource_role (bd_auth db) user (br_service b) ProjectAdmin = Inr m" using c(4) by blast
  have o: "(br_service b, owner) \<in> set (bd_creds db)" "dc_name owner = wanted" using owner_listed [OF c(5)] by simp_all
  obtain got w1 where g: "bs_get B so (br_key b) w = (got, w1)" by (cases "bs_get B so (br_key b) w")
  show ?thesis
  proof (cases "\<exists>data. got = Inr data \<and> (br_db b = None \<or> br_db b = Some wanted)")
    case True
    then obtain data where d: "got = Inr data" "br_db b = None \<or> br_db b = Some wanted" by blast
    obtain r w' where a: "apply_restore K pipe (''pier-'' @ si_name s) (coalesce (si_catalog s) []) (dec_env (si_env s)) wanted
        owner (format_of_key (br_key b)) data w1 = (r, w')"
      by (cases "apply_restore K pipe (''pier-'' @ si_name s) (coalesce (si_catalog s) []) (dec_env (si_env s)) wanted
        owner (format_of_key (br_key b)) data w1")
    have "restore_backup dec_env K pipe B user i wanted db w = (r, w')"
      using Inr x g d a by (auto simp: restore_backup_def)
    then show ?thesis using c m o d(2) a [symmetric] by blast
  next
    case False
    then have "\<exists>e. restore_backup dec_env K pipe B user i wanted db w = (Inl e, w1)"
      using Inr x g by (cases got) (auto simp: restore_backup_def)
    then show ?thesis using c(1,6) g by (metis snd_conv)
  qed
qed

section \<open>A completed run\<close>

lemma run_parts:
  assumes "run_for_schedule dec_env stamp K ex B m0 m1 t0 t1 uuid i db w = (Inr msg, db', w')"
    and "sql_first (\<lambda>s. bk_id s = i \<and> bk_active s) (bd_schedules db) = Some sch"
  obtains job db1 n w1 where "schedule_job dec_env stamp t0 uuid sch db = Inr (job, db1)"
    "dump_and_upload K ex B (load_db_credentials (m0 db1) (bk_service sch)) job w = (Inr n, w1)"
    "complete_backup B t1 uuid n sch (m1 (m0 db1)) w1 = (db', w')"
  using assms that
  by (auto simp: run_for_schedule_def run_single_backup_def Let_def split: sum.splits prod.splits)

lemma job_parts:
  assumes "schedule_job dec_env stamp now uuid sch db = Inr (job, db1)"
  obtains s so row where "service_by_id db (bk_service sch) = Some s" "storage_by_id db (bk_storage sch) = Some so"
    "job = \<lparr>bj_id = uuid, bj_service = bk_service sch, bj_name = si_name s, bj_catalog = coalesce (si_catalog s) [],
       bj_env = dec_env (si_env s), bj_storage = so,
       bj_key = build_s3_key (so_prefix so) (si_name s) (coalesce (si_catalog s) []) (bk_db sch) (stamp now), bj_db = bk_db sch\<rparr>"
    "db1 = db\<lparr>bd_backups := bd_backups db @ [row]\<rparr>" "uuid \<notin> br_id ` set (bd_backups db)"
    "row = \<lparr>br_id = uuid, br_schedule = Some (bk_id sch), br_service = bk_service sch, br_storage = so_id so, br_key = bj_key job,
       br_db = bk_db sch, br_status = ''running'', br_size = 0, br_error = None, br_by = ''schedule'', br_started = now,
       br_finished = None\<rparr>"
proof -
  obtain s so where s: "service_by_id db (bk_service sch) = Some s" "storage_by_id db (bk_storage sch) = Some so"
    using assms by (auto simp: schedule_job_def split: option.splits)
  have f: "uuid \<notin> br_id ` set (bd_backups db)"
    using assms s by (auto simp: schedule_job_def Let_def insert_backup_def split: if_splits)
  have j: "job = \<lparr>bj_id = uuid, bj_service = bk_service sch, bj_name = si_name s, bj_catalog = coalesce (si_catalog s) [],
       bj_env = dec_env (si_env s), bj_storage = so,
       bj_key = build_s3_key (so_prefix so) (si_name s) (coalesce (si_catalog s) []) (bk_db sch) (stamp now), bj_db = bk_db sch\<rparr>"
    using assms s by (auto simp: schedule_job_def Let_def split: sum.splits)
  show ?thesis
    by (rule that [OF s j _ f refl]) (use assms s f j in \<open>auto simp: schedule_job_def Let_def insert_backup_def split: if_splits\<close>)
qed

text \<open>The rows after the run is marked, before the retention.\<close>

definition done_row :: "time \<Rightarrow> nat \<Rightarrow> backup_row \<Rightarrow> backup_row" where
  "done_row t1 n b = b\<lparr>br_status := ''completed'', br_size := n, br_finished := Some t1\<rparr>"

lemma done_row_fields [simp]:
  "br_id (done_row t1 n b) = br_id b" "br_started (done_row t1 n b) = br_started b"
  "br_schedule (done_row t1 n b) = br_schedule b" "br_status (done_row t1 n b) = ''completed''"
  "br_key (done_row t1 n b) = br_key b" "br_db (done_row t1 n b) = br_db b"
  "br_service (done_row t1 n b) = br_service b" "br_storage (done_row t1 n b) = br_storage b"
  by (simp_all add: done_row_def)

lemma marked_rows:
  "bd_backups (update_backup_schedule i f (mark_completed t1 uuid n db)) =
     map (\<lambda>b. if br_id b = uuid then done_row t1 n b else b) (bd_backups db)"
  "bd_services (update_backup_schedule i f (mark_completed t1 uuid n db)) = bd_services db"
  "bd_storages (update_backup_schedule i f (mark_completed t1 uuid n db)) = bd_storages db"
  by (simp_all add: update_backup_schedule_def mark_completed_def update_backup_def sql_update_def done_row_def)

lemma few_newer_kept:
  assumes "n \<in> set C" "distinct C"
    and "length (filter (\<lambda>b. b \<noteq> n \<and> br_started n \<le> br_started b) C) < k"
  shows "n \<in> set (take k (newest_first C))"
proof (rule ccontr)
  let ?T = "take k (newest_first C)"
  assume a: "n \<notin> set ?T"
  have d: "n \<in> set (drop k (newest_first C))"
    using a assms(1) take_or_drop [OF newest_first_distinct [OF assms(2)], of n k] by simp
  then have "k < length (newest_first C)" by (metis drop_all empty_iff list.set(1) not_le)
  then have "card (set ?T) = k"
    using distinct_card [of ?T] newest_first_distinct [OF assms(2)] by simp
  moreover have "set ?T \<subseteq> set (filter (\<lambda>b. b \<noteq> n \<and> br_started n \<le> br_started b) C)"
  proof
    fix x assume x: "x \<in> set ?T"
    have "br_started n \<le> br_started x" using kept_before_dropped [OF newest_first_sorted x d] .
    moreover have "x \<in> set C" "x \<noteq> n" using x a in_set_takeD [OF x] by auto
    ultimately show "x \<in> set (filter (\<lambda>b. b \<noteq> n \<and> br_started n \<le> br_started b) C)" by simp
  qed
  then have "card (set ?T) \<le> card (set (filter (\<lambda>b. b \<noteq> n \<and> br_started n \<le> br_started b) C))"
    by (intro card_mono) auto
  moreover have "\<dots> \<le> length (filter (\<lambda>b. b \<noteq> n \<and> br_started n \<le> br_started b) C)" by (rule card_length)
  ultimately show False using assms(3) by simp
qed

text \<open>What completing the row \<open>row\<close> of a run leaves, in whatever state the database is then.\<close>

lemma completed_rows:
  assumes c: "complete_backup B t1 uuid n sch db w = (db', w')"
    and d: "distinct (map br_id (bd_backups db))"
    and r: "row \<in> set (bd_backups db)" "br_id row = uuid" "br_schedule row = Some (bk_id sch)" "br_status row \<noteq> ''completed''"
  obtains db2 where "sweep_backups B (old_backups (bk_id sch) (bk_retention sch) db2) db2 w = (db', w')"
    "distinct (map br_id (bd_backups db2))" "done_row t1 n row \<in> set (bd_backups db2)"
    "set (completed_of (bk_id sch) db2) = insert (done_row t1 n row) (set (completed_of (bk_id sch) db))"
    "length (completed_of (bk_id sch) db2) = Suc (length (completed_of (bk_id sch) db))"
    "filter (\<lambda>b. br_schedule b = Some (bk_id sch) \<longrightarrow> br_status b \<noteq> ''completed'') (bd_backups db2) =
     filter (\<lambda>b. br_id b \<noteq> uuid \<and> (br_schedule b = Some (bk_id sch) \<longrightarrow> br_status b \<noteq> ''completed'')) (bd_backups db)"
    "\<And>b. b \<in> set (bd_backups db2) \<Longrightarrow> b = done_row t1 n row \<or> b \<in> set (bd_backups db) \<and> br_id b \<noteq> uuid"
    "bd_services db2 = bd_services db" "bd_storages db2 = bd_storages db"
proof -
  let ?i = "bk_id sch"
  let ?db2 = "update_backup_schedule ?i (\<lambda>s. s\<lparr>bk_last := Some t1, bk_updated := t1\<rparr>) (mark_completed t1 uuid n db)"
  let ?g = "\<lambda>b. if br_id b = uuid then done_row t1 n b else b"
  have only: "b = row" if "b \<in> set (bd_backups db)" "br_id b = uuid" for b
    using d r(1,2) that by (auto simp: distinct_map dest: inj_onD)
  have rows: "bd_backups ?db2 = map ?g (bd_backups db)" by (rule marked_rows)
  have g: "map br_id (map ?g bs) = map br_id bs" for bs by (induction bs) simp_all
  have dist2: "distinct (map br_id (bd_backups ?db2))" unfolding rows g by (rule d)
  have gr: "?g b = (if b = row then done_row t1 n row else b)" if "b \<in> set (bd_backups db)" for b
    using only [OF that] r(2) by (cases "b = row") auto
  have rows': "bd_backups ?db2 = map (\<lambda>b. if b = row then done_row t1 n row else b) (bd_backups db)"
    unfolding rows by (rule map_cong [OF refl gr])
  have set2: "set (completed_of ?i ?db2) = insert (done_row t1 n row) (set (completed_of ?i db))"
    using r(1,3,4) unfolding completed_of_def rows' by (auto split: if_splits)
  have new: "done_row t1 n row \<notin> set (completed_of ?i db)"
  proof
    assume "done_row t1 n row \<in> set (completed_of ?i db)"
    then have "done_row t1 n row \<in> set (bd_backups db)" by (simp add: completed_of_def)
    then have "done_row t1 n row = row" by (rule only) (simp add: r(2))
    then have "br_status row = ''completed''" using done_row_fields(4) [of t1 n row] by simp
    then show False using r(4) by simp
  qed
  have len: "length (completed_of ?i x) = card (set (completed_of ?i x))" if "distinct (map br_id (bd_backups x))" for x
  proof -
    have "distinct (completed_of ?i x)" using that by (auto simp: completed_of_def distinct_map)
    then show ?thesis by (simp add: distinct_card)
  qed
  have rest: "filter P (map ?g bs) = filter (\<lambda>b. br_id b \<noteq> uuid \<and> P b) bs"
    if "\<And>b. b \<in> set bs \<Longrightarrow> br_id b = uuid \<Longrightarrow> \<not> P (done_row t1 n b)" for P bs
    using that by (induction bs) auto
  show ?thesis
  proof (rule that [of ?db2])
    show "sweep_backups B (old_backups ?i (bk_retention sch) ?db2) ?db2 w = (db', w')"
      using c by (simp add: complete_backup_def Let_def)
    show "distinct (map br_id (bd_backups ?db2))" by (rule dist2)
    show "done_row t1 n row \<in> set (bd_backups ?db2)" unfolding rows' using r(1) by (auto simp: image_iff)
    show "set (completed_of ?i ?db2) = insert (done_row t1 n row) (set (completed_of ?i db))" by (rule set2)
    show "length (completed_of ?i ?db2) = Suc (length (completed_of ?i db))"
      using set2 new by (simp add: len [OF dist2] len [OF d])
    show "filter (\<lambda>b. br_schedule b = Some ?i \<longrightarrow> br_status b \<noteq> ''completed'') (bd_backups ?db2) =
        filter (\<lambda>b. br_id b \<noteq> uuid \<and> (br_schedule b = Some ?i \<longrightarrow> br_status b \<noteq> ''completed'')) (bd_backups db)"
      unfolding rows by (rule rest) (use r(3) in \<open>auto dest: only\<close>)
    show "b = done_row t1 n row \<or> b \<in> set (bd_backups db) \<and> br_id b \<noteq> uuid" if "b \<in> set (bd_backups ?db2)" for b
      using that r(2) unfolding rows' by (auto split: if_splits dest: only)
  qed (rule marked_rows)+
qed

lemma later_few:
  assumes d: "distinct (map br_id (bd_backups db2))"
    and s: "set (completed_of i db2) = insert (done_row t1 n row) (set (completed_of i db))"
    and d1: "distinct (map br_id (bd_backups db))"
    and l: "length (filter (\<lambda>b. br_started row \<le> br_started b) (completed_of i db)) < k"
  shows "done_row t1 n row \<in> set (take k (newest_first (completed_of i db2)))"
proof (rule few_newer_kept)
  show "done_row t1 n row \<in> set (completed_of i db2)" by (simp add: s)
  show dist: "distinct (completed_of i db2)" using d by (auto simp: completed_of_def distinct_map)
  have dist1: "distinct (completed_of i db)" using d1 by (auto simp: completed_of_def distinct_map)
  let ?L = "filter (\<lambda>b. b \<noteq> done_row t1 n row \<and> br_started (done_row t1 n row) \<le> br_started b) (completed_of i db2)"
  have "length ?L = card (set ?L)" using dist by (intro distinct_card [symmetric]) simp
  also have "\<dots> \<le> card (set (filter (\<lambda>b. br_started row \<le> br_started b) (completed_of i db)))"
    using s by (intro card_mono) auto
  also have "\<dots> \<le> length (filter (\<lambda>b. br_started row \<le> br_started b) (completed_of i db))" by (rule card_length)
  finally show "length ?L < k" using l by simp
qed


text \<open>the count of a schedule is not checked, and a schedule that retains none or a negative number deletes every
  completed backup it has at the end of each run, the one just reported as completed included.\<close>

theorem zero_retention_keeps_none:
  assumes "complete_backup B t1 uuid n sch db w = (db', w')" "distinct (map br_id (bd_backups db))"
    and "row \<in> set (bd_backups db)" "br_id row = uuid" "br_schedule row = Some (bk_id sch)" "br_status row \<noteq> ''completed''"
    and "bk_retention sch \<le> 0"
  shows "completed_of (bk_id sch) db' = []"
proof -
  obtain db2 where r: "sweep_backups B (old_backups (bk_id sch) (bk_retention sch) db2) db2 w = (db', w')"
    "distinct (map br_id (bd_backups db2))"
    by (rule completed_rows [OF assms(1-6)]) (rule that; assumption)
  show ?thesis using retained_newest(2) [OF r(2,1)] assms(7) by simp
qed

section \<open>What was dumped is restored\<close>

text \<open>What is relied on of the storage: \<open>held\<close> is what it holds under a key. A blob that was put is held, a blob that is
  got was held, and deleting one leaves the others.\<close>

definition store_ok :: "('w \<Rightarrow> storage_row \<times> string \<Rightarrow> blob option) \<Rightarrow> 'w blob_store \<Rightarrow> bool" where
  "store_ok held B \<longleftrightarrow>
     (\<forall>so k d w w'. bs_put B so k d w = (Inr (), w') \<longrightarrow> held w' (so, k) = Some d) \<and>
     (\<forall>so k d w w'. bs_get B so k w = (Inr d, w') \<longrightarrow> held w (so, k) = Some d) \<and>
     (\<forall>so k w x. x \<noteq> (so, k) \<longrightarrow> held (snd (bs_delete B so k w)) x = held w x)"

lemma store_laws:
  assumes "store_ok held B"
  shows "bs_put B so k d w = (Inr (), w') \<Longrightarrow> held w' (so, k) = Some d"
    and "bs_get B so k w = (Inr d, w') \<Longrightarrow> held w (so, k) = Some d"
    and "x \<noteq> (so, k) \<Longrightarrow> held (snd (bs_delete B so k w)) x = held w x"
  using assms unfolding store_ok_def by blast+

lemma sweep_held:
  "store_ok held B \<Longrightarrow> \<forall>b \<in> set bs. br_key b \<noteq> key \<Longrightarrow> sweep_backups B bs db w = (db', w') \<Longrightarrow>
   held w' (so, key) = held w (so, key)"
proof (induction bs arbitrary: db w)
  case (Cons b bs)
  have "held (snd (delete_blob_by_storage_id B db (br_storage b) (br_key b) w)) (so, key) = held w (so, key)"
    using Cons.prems(2) by (auto simp: delete_blob_by_storage_id_def store_laws(3) [OF Cons.prems(1)] split: option.split)
  then show ?case using Cons by (simp add: Let_def)
qed simp

lemma uploaded:
  assumes "dump_and_upload K ex B creds job w = (Inr n, w1)" "bj_db job = Some d"
  obtains data cred wa where "execute_db_backup K ex (''pier-'' @ bj_name job) (bj_catalog job) (bj_env job) cred d w = (Inr data, wa)"
    "bs_put B (bj_storage job) (bj_key job) data wa = (Inr (), w1)"
proof -
  let ?cred = "find (\<lambda>c. dc_name c = d) creds"
  obtain data wa where t: "take_dump K ex creds job w = (Inr data, wa)"
    using assms(1) by (cases "take_dump K ex creds job w") (auto simp: dump_and_upload_def split: sum.splits)
  obtain r w2 where p: "bs_put B (bj_storage job) (bj_key job) data wa = (r, w2)"
    by (cases "bs_put B (bj_storage job) (bj_key job) data wa")
  have "r = Inr () \<and> w2 = w1" using assms(1) t p by (cases r) (auto simp: dump_and_upload_def)
  then show ?thesis using that [of ?cred data wa] t p assms(2) by (simp add: take_dump_def)
qed

lemma dumped_raw:
  assumes "execute_db_backup K ex container cat env cred d w = (Inr data, wa)"
  obtains raw wb where "execute_db_dump_raw ex container cat env cred d w = (Inr raw, wb)" "supports_per_db_backup cat"
proof -
  obtain raw wb where r: "execute_db_dump_raw ex container cat env cred d w = (Inr raw, wb)"
    using assms by (cases "execute_db_dump_raw ex container cat env cred d w") (auto simp: execute_db_backup_def split: sum.splits)
  have "per_db_dump_args cat env cred d \<noteq> None" using r by (auto simp: execute_db_dump_raw_def split: option.splits)
  then have "supports_per_db_backup cat" by (auto simp: per_db_dump_args_def supports_per_db_backup_def split: if_splits)
  then show ?thesis using r that by blast
qed

text \<open>What a run relies on of the others that have the database while it dumps and uploads: its service and its
  storage are as they were, so is its own row, no other backup has its key, and fewer backups of the schedule
  than it retains have started since and are completed.\<close>

definition undisturbed :: "backup_schedule \<Rightarrow> string \<Rightarrow> time \<Rightarrow> string \<Rightarrow> backup_db \<Rightarrow> backup_db \<Rightarrow> bool" where
  "undisturbed sch uuid t0 key before after \<longleftrightarrow>
     service_by_id after (bk_service sch) = service_by_id before (bk_service sch) \<and>
     storage_by_id after (bk_storage sch) = storage_by_id before (bk_storage sch) \<and>
     backup_by_id after uuid = backup_by_id before uuid \<and> distinct (map br_id (bd_backups after)) \<and>
     (\<forall>b \<in> set (bd_backups after). br_id b \<noteq> uuid \<longrightarrow> br_key b \<noteq> key) \<and>
     length (filter (\<lambda>b. t0 \<le> br_started b) (completed_of (bk_id sch) after)) < nat (bk_retention sch)"

text \<open>A run that is alone is undisturbed if its key is new, all rows are older and any backup is retained.\<close>

lemma undisturbed_alone:
  assumes "schedule_job dec_env stamp t0 uuid sch db = Inr (job, db1)" "0 < bk_retention sch"
    and "distinct (map br_id (bd_backups db))" "\<forall>b \<in> set (bd_backups db). br_started b < t0 \<and> br_key b \<noteq> key"
  shows "undisturbed sch uuid t0 key db1 db1"
proof -
  obtain row where j: "db1 = db\<lparr>bd_backups := bd_backups db @ [row]\<rparr>" "uuid \<notin> br_id ` set (bd_backups db)"
    "br_id row = uuid" "br_status row = ''running''"
    using job_parts [OF assms(1)] by (metis backup_row.select_convs(1,7))
  have e: "filter (\<lambda>b. t0 \<le> br_started b) (completed_of (bk_id sch) db1) = []"
    using assms(4) j(1,4) by (auto simp: completed_of_def filter_empty_conv)
  have "distinct (map br_id (bd_backups db1))" using assms(3) j(1-3) by simp
  moreover have "br_key b \<noteq> key" if "b \<in> set (bd_backups db1)" "br_id b \<noteq> uuid" for b
    using that assms(4) j(1,3) by auto
  ultimately show ?thesis unfolding undisturbed_def e using assms(2) by simp
qed

lemma undisturbed_row:
  assumes "undisturbed sch uuid t0 key db1 db3" "db1 = db\<lparr>bd_backups := bd_backups db @ [row]\<rparr>"
    "uuid \<notin> br_id ` set (bd_backups db)" "br_id row = uuid"
  shows "row \<in> set (bd_backups db3)"
proof -
  have "sql_first (\<lambda>b. br_id b = uuid) (bd_backups db) = None" using assms(3) by (auto simp: sql_first_None)
  then have "backup_by_id db1 uuid = Some row"
    using assms(2,4) by (simp add: backup_by_id_def sql_first_append sql_simps)
  then show ?thesis using assms(1) by (auto simp: undisturbed_def backup_by_id_def dest: sql_first_Some)
qed

text \<open>What an undisturbed run leaves: its own row, and under its key what it uploaded.\<close>

lemma completed_held:
  assumes S: "store_ok held B" and c: "complete_backup B t1 uuid n sch db w = (db', w')"
    and u: "undisturbed sch uuid t0 key db1 db" and so: "storage_by_id db1 (bk_storage sch) = Some so"
    and r: "row \<in> set (bd_backups db)" "br_id row = uuid" "br_schedule row = Some (bk_id sch)" "br_status row \<noteq> ''completed''"
      "br_started row = t0" "br_key row = key"
  shows "done_row t1 n row \<in> set (bd_backups db')" "held w' (so, key) = held w (so, key)"
    "distinct (map br_id (bd_backups db'))" "bd_services db' = bd_services db" "bd_storages db' = bd_storages db"
proof -
  let ?i = "bk_id sch"
  have d: "distinct (map br_id (bd_backups db))" using u by (simp add: undisturbed_def)
  obtain db2 where p: "sweep_backups B (old_backups ?i (bk_retention sch) db2) db2 w = (db', w')"
    "distinct (map br_id (bd_backups db2))"
    "set (completed_of ?i db2) = insert (done_row t1 n row) (set (completed_of ?i db))"
    "bd_services db2 = bd_services db" "bd_storages db2 = bd_storages db"
    by (rule completed_rows [OF c d r(1-4)]) (rule that; assumption)
  have few: "length (filter (\<lambda>b. br_started row \<le> br_started b) (completed_of ?i db)) < nat (bk_retention sch)"
    using u r(5) by (simp add: undisturbed_def)
  have kept: "done_row t1 n row \<in> set (take (nat (bk_retention sch)) (newest_first (completed_of ?i db2)))"
    by (rule later_few [OF p(2,3) d few])
  have "done_row t1 n row \<in> set (completed_of ?i db')" using kept retained_newest(1) [OF p(2,1)] by simp
  then show "done_row t1 n row \<in> set (bd_backups db')" by (simp add: completed_of_def)
  have dist: "distinct (completed_of ?i db2)" using p(2) by (auto simp: completed_of_def distinct_map)
  have "done_row t1 n row \<notin> set (old_backups ?i (bk_retention sch) db2)"
    using kept take_or_drop [OF newest_first_distinct [OF dist], of "done_row t1 n row" "nat (bk_retention sch)"] p(3)
    by (simp add: old_backups_def)
  moreover have "set (old_backups ?i (bk_retention sch) db2) \<subseteq> set (completed_of ?i db2)"
    by (auto simp: old_backups_def dest: in_set_dropD)
  ultimately have old: "set (old_backups ?i (bk_retention sch) db2) \<subseteq> set (completed_of ?i db)" using p(3) by auto
  have "br_key b \<noteq> key" if "b \<in> set (old_backups ?i (bk_retention sch) db2)" for b
  proof -
    have b: "b \<in> set (bd_backups db)" "br_status b = ''completed''" using old that by (auto simp: completed_of_def)
    then have "br_id b \<noteq> uuid" using d r(1,2,4) by (auto simp: distinct_map dest: inj_onD)
    then show ?thesis using u b(1) by (simp add: undisturbed_def)
  qed
  then show "held w' (so, key) = held w (so, key)" using sweep_held [OF S _ p(1)] by blast
  show "distinct (map br_id (bd_backups db'))" "bd_services db' = bd_services db" "bd_storages db' = bd_storages db"
    using sweep_rows [OF p(1)] p(2,4,5) by (simp_all add: distinct_map_filter)
qed

text \<open>C16: what a scheduled backup of a database took is what a restore of that backup hands to the engine: when the run
  is successful and the requests and runs beside it did not disturb it (they left its service, storage and
  row alone, took no backup under its key, and completed fewer later backups of the schedule than it retains), and a
  restore passes its checks and fetches the blob, then the command that loads the database gets exactly the bytes the
  dump command wrote.\<close>

theorem backup_restores:
  assumes "codecs_ok K" "store_ok held B"
    and "run_for_schedule dec_env stamp K ex B m0 m1 t0 t1 uuid i db w = (Inr msg, db', w')"
    and "sql_first (\<lambda>s. bk_id s = i \<and> bk_active s) (bd_schedules db) = Some sch" "bk_db sch = Some d"
    and "service_by_id db (bk_service sch) = Some s" "storage_by_id db (bk_storage sch) = Some so"
    and "cat = coalesce (si_catalog s) []" "key = build_s3_key (so_prefix so) (si_name s) cat (Some d) (stamp t0)"
    and "schedule_job dec_env stamp t0 uuid sch db = Inr (job, db1)" "undisturbed sch uuid t0 key db1 (m1 (m0 db1))"
    and "restore_plan user uuid d db' = Inr (b, s', owner, so')" "bs_get B so key w' = (Inr data, w2)"
  shows "\<exists>cred raw wb. execute_db_dump_raw ex (''pier-'' @ si_name s) cat (dec_env (si_env s)) cred d w = (Inr raw, wb) \<and>
    restore_backup dec_env K pipe B user uuid d db' w' =
      restore_failed
        (if cat = ''mongodb'' then execute_mongo_restore pipe (''pier-'' @ si_name s) (dec_env (si_env s)) d True raw w2
         else execute_restore pipe (''pier-'' @ si_name s) cat (dec_env (si_env s)) d owner (postgres_like cat) raw w2)"
proof -
  obtain n w1 where r: "dump_and_upload K ex B (load_db_credentials (m0 db1) (bk_service sch)) job w = (Inr n, w1)"
    "complete_backup B t1 uuid n sch (m1 (m0 db1)) w1 = (db', w')"
    using run_parts [OF assms(3,4)] assms(10) by (metis Inr_inject Pair_inject)
  obtain s1 so1 row where j: "service_by_id db (bk_service sch) = Some s1" "storage_by_id db (bk_storage sch) = Some so1"
    "job = \<lparr>bj_id = uuid, bj_service = bk_service sch, bj_name = si_name s1, bj_catalog = coalesce (si_catalog s1) [],
       bj_env = dec_env (si_env s1), bj_storage = so1,
       bj_key = build_s3_key (so_prefix so1) (si_name s1) (coalesce (si_catalog s1) []) (bk_db sch) (stamp t0), bj_db = bk_db sch\<rparr>"
    "db1 = db\<lparr>bd_backups := bd_backups db @ [row]\<rparr>" "uuid \<notin> br_id ` set (bd_backups db)"
    "row = \<lparr>br_id = uuid, br_schedule = Some (bk_id sch), br_service = bk_service sch, br_storage = so_id so1, br_key = bj_key job,
       br_db = bk_db sch, br_status = ''running'', br_size = 0, br_error = None, br_by = ''schedule'', br_started = t0,
       br_finished = None\<rparr>"
    by (rule job_parts [OF assms(10)])
  have job: "job = \<lparr>bj_id = uuid, bj_service = bk_service sch, bj_name = si_name s, bj_catalog = cat,
      bj_env = dec_env (si_env s), bj_storage = so, bj_key = key, bj_db = Some d\<rparr>"
    using j(1-3) assms(5-9) by simp
  have row: "br_id row = uuid" "br_schedule row = Some (bk_id sch)" "br_status row \<noteq> ''completed''" "br_started row = t0"
    "br_key row = key" "br_service row = bk_service sch" "br_db row = Some d" "br_storage row = bk_storage sch"
    using j(2,6) job assms(5) by (auto simp: storage_by_id_def dest: sql_first_Some)
  have "bj_db job = Some d" by (simp add: job)
  from uploaded [OF r(1) this] obtain blob cred wa where v:
    "execute_db_backup K ex (''pier-'' @ bj_name job) (bj_catalog job) (bj_env job) cred d w = (Inr blob, wa)"
    "bs_put B (bj_storage job) (bj_key job) blob wa = (Inr (), w1)"
    by blast
  have u: "execute_db_backup K ex (''pier-'' @ si_name s) cat (dec_env (si_env s)) cred d w = (Inr blob, wa)"
    "bs_put B so key blob wa = (Inr (), w1)"
    using v by (simp_all add: job)
  obtain raw wb where raw: "execute_db_dump_raw ex (''pier-'' @ si_name s) cat (dec_env (si_env s)) cred d w = (Inr raw, wb)"
    "supports_per_db_backup cat"
    using dumped_raw [OF u(1)] .
  have same: "service_by_id db1 x = service_by_id db x" "storage_by_id db1 y = storage_by_id db y" for x y
    by (simp_all add: j(4) service_by_id_def storage_by_id_def)
  have "storage_by_id db1 (bk_storage sch) = Some so" by (simp add: same assms(7))
  note h = completed_held [OF assms(2) r(2) assms(11) this undisturbed_row [OF assms(11) j(4,5) row(1)] row(1-5)]
  have data: "data = blob" using store_laws(2) [OF assms(2,13)] store_laws(1) [OF assms(2) u(2)] h(2) by simp
  note c = plan_checks [OF assms(12)]
  have "b \<in> set (bd_backups db')" "br_id b = uuid" using c(1) by (auto simp: backup_by_id_def dest: sql_first_Some)
  moreover have "inj_on br_id (set (bd_backups db'))" using h(3) by (simp add: distinct_map)
  ultimately have b: "b = done_row t1 n row" using h(1) row(1) by (metis done_row_fields(1) inj_onD)
  have "service_by_id db' (bk_service sch) = Some s" "storage_by_id db' (bk_storage sch) = Some so"
    using assms(6,7,11) h(4,5) same unfolding undisturbed_def service_by_id_def storage_by_id_def by simp_all
  then have s': "s' = s" and so': "so' = so" using c(3,6) row(6,8) by (simp_all add: b)
  have "restore_backup dec_env K pipe B user uuid d db' w' =
      apply_restore K pipe (''pier-'' @ si_name s) cat (dec_env (si_env s)) d owner (format_of_key key) blob w2"
    using assms(8,12,13) row(5,7) data by (simp add: restore_backup_def b s' so')
  then show ?thesis
    using restore_fed [OF assms(1) raw(2) raw(1) u(1)] raw(1) unfolding assms(9) by metis
qed

section \<open>Witnesses\<close>

definition backup_auth :: auth_db where
  "backup_auth = member_db\<lparr>members := [sample_member ''p'' ''eve'' ''admin''],
     services := [\<lparr>sv_id = ''a'', sv_project = Some ''p''\<rparr>, \<lparr>sv_id = ''b'', sv_project = Some ''q''\<rparr>]\<rparr>"

definition backup_storage :: storage_row where
  "backup_storage = \<lparr>so_id = ''s'', so_type = ''s3'', so_endpoint = ''e'', so_region = [], so_bucket = ''x'', so_access = [],
     so_secret = [], so_prefix = []\<rparr>"

definition nightly :: "string \<Rightarrow> string \<Rightarrow> int \<Rightarrow> backup_schedule" where
  "nightly i service n = \<lparr>bk_id = i, bk_service = service, bk_storage = ''s'', bk_cron = ''0 2 * * *'', bk_retention = n,
     bk_active = True, bk_last = None, bk_next = None, bk_db = Some ''app'', bk_updated = 0\<rparr>"

definition backup_sample :: "int \<Rightarrow> backup_db" where
  "backup_sample n = \<lparr>bd_auth = backup_auth,
     bd_services = [\<lparr>si_id = ''a'', si_name = ''m'', si_catalog = Some ''mongodb'', si_env = None\<rparr>],
     bd_storages = [backup_storage], bd_creds = [(''a'', sample_cred)], bd_schedules = [nightly ''k'' ''a'' n, nightly ''l'' ''b'' n],
     bd_backups = [], bd_sched = sample_schedules\<lparr>sc_rows := [(sample_schedule ''sched-bk-k'')\<lparr>sh_system := True\<rparr>]\<rparr>\<rparr>"

type_synonym sample_world = "storage_row \<times> string \<Rightarrow> blob option"

definition map_store :: "sample_world blob_store" where
  "map_store = \<lparr>bs_put = (\<lambda>so k d w. (Inr (), w((so, k) \<mapsto> d))),
     bs_get = (\<lambda>so k w. case w (so, k) of None \<Rightarrow> (Inl ''404'', w) | Some d \<Rightarrow> (Inr d, w)),
     bs_delete = (\<lambda>so k w. (Inr (), w((so, k) := None)))\<rparr>"

definition dump_exec :: "sample_world docker_exec" where
  "dump_exec container argv w = (Inr [7], w)"

definition quiet_pipe :: "sample_world pipe" where
  "quiet_pipe argv stdin w = (Inr (), w)"

lemma map_store_ok: "store_ok (\<lambda>w. w) map_store"
  by (auto simp: store_ok_def map_store_def split: option.splits)

lemma eve_admin:
  "\<exists>m. enforce_resource_role backup_auth eve ''a'' ProjectAdmin = Inr m"
  "\<exists>e. enforce_resource_role backup_auth eve ''b'' Viewer = Inl e"
  by (simp_all add: enforce_resource_role_def enforce_project_role_def project_for_resource_def backup_auth_def eve_def sql_simps
      role_for_def membership_row_def sample_member_def member_db_def project_parse_def)

abbreviation sample_env :: "string option \<Rightarrow> env_vars" where
  "sample_env \<equiv> \<lambda>_ _. None"

definition sample_key :: string where
  "sample_key = build_s3_key [] ''m'' ''mongodb'' (Some ''app'') ''t''"

definition sample_backup :: backup_row where
  "sample_backup = \<lparr>br_id = ''u'', br_schedule = Some ''k'', br_service = ''a'', br_storage = ''s'', br_key = sample_key,
     br_db = Some ''app'', br_status = ''completed'', br_size = 1, br_error = None, br_by = ''schedule'', br_started = 5,
     br_finished = Some 6\<rparr>"

definition marked_sample :: "int \<Rightarrow> backup_db" where
  "marked_sample n = (backup_sample n)\<lparr>bd_backups := [sample_backup],
     bd_schedules := [(nightly ''k'' ''a'' n)\<lparr>bk_last := Some 6, bk_updated := 6\<rparr>, nightly ''l'' ''b'' n]\<rparr>"

lemma sample_sched: "sql_first (\<lambda>s. bk_id s = ''k'' \<and> bk_active s) (bd_schedules (backup_sample n)) = Some (nightly ''k'' ''a'' n)"
  by (simp add: backup_sample_def nightly_def sql_simps)

lemma sample_upload:
  assumes "bj_name job = ''m''" "bj_catalog job = ''mongodb''" "bj_db job = Some ''app''"
  shows "dump_and_upload sample_codecs dump_exec map_store creds job w =
    (Inr 1, w((bj_storage job, bj_key job) \<mapsto> [7]))"
  using assms by (simp add: dump_and_upload_def take_dump_def execute_db_backup_def execute_db_dump_raw_def per_db_dump_args_def
      per_db_dump_format_def postgres_like_def mysql_like_def dump_exec_def map_store_def)

lemma sample_job:
  "schedule_job sample_env (\<lambda>_. ''t'') 5 ''u'' (nightly ''k'' ''a'' n) (backup_sample n) =
    Inr (\<lparr>bj_id = ''u'', bj_service = ''a'', bj_name = ''m'', bj_catalog = ''mongodb'', bj_env = (\<lambda>_. None),
       bj_storage = backup_storage, bj_key = sample_key, bj_db = Some ''app''\<rparr>,
     (backup_sample n)\<lparr>bd_backups := [sample_backup\<lparr>br_status := ''running'', br_size := 0, br_finished := None\<rparr>]\<rparr>)"
  by (simp add: schedule_job_def backup_sample_def nightly_def service_by_id_def storage_by_id_def sql_simps backup_storage_def
      insert_backup_def sample_backup_def sample_key_def coalesce_def Let_def)

lemma sample_run:
  "run_for_schedule sample_env (\<lambda>_. ''t'') sample_codecs dump_exec map_store id id 5 6 ''u'' ''k'' (backup_sample n) Map.empty =
    (Inr ''backup for service a (app) completed'',
     sweep_backups map_store (old_backups ''k'' n (marked_sample n)) (marked_sample n) [(backup_storage, sample_key) \<mapsto> [7]])"
proof -
  let ?job = "\<lparr>bj_id = ''u'', bj_service = ''a'', bj_name = ''m'', bj_catalog = ''mongodb'', bj_env = (\<lambda>_. None),
       bj_storage = backup_storage, bj_key = sample_key, bj_db = Some ''app''\<rparr>"
  have "update_backup_schedule ''k'' (\<lambda>s. s\<lparr>bk_last := Some 6, bk_updated := 6\<rparr>) (mark_completed 6 ''u'' 1
      ((backup_sample n)\<lparr>bd_backups := [sample_backup\<lparr>br_status := ''running'', br_size := 0, br_finished := None\<rparr>]\<rparr>)) =
      marked_sample n"
    by (simp add: update_backup_schedule_def mark_completed_def update_backup_def marked_sample_def sample_backup_def
        backup_sample_def nightly_def sql_simps)
  moreover have "bk_id (nightly ''k'' ''a'' n) = ''k''" "bk_service (nightly ''k'' ''a'' n) = ''a''"
    "bk_retention (nightly ''k'' ''a'' n) = n" "bk_db (nightly ''k'' ''a'' n) = Some ''app''"
    by (simp_all add: nightly_def)
  ultimately show ?thesis
    unfolding run_for_schedule_def sample_sched run_single_backup_def complete_backup_def
    by (simp add: sample_job sample_upload Let_def coalesce_def split: prod.split)
qed

lemma sample_rows: "bd_backups (backup_sample n) = []"
  by (simp add: backup_sample_def)

definition running_sample :: "int \<Rightarrow> backup_db" where
  "running_sample n = (backup_sample n)\<lparr>bd_backups :=
     [sample_backup\<lparr>br_id := ''old'', br_started := 3\<rparr>, sample_backup\<lparr>br_id := ''asked'', br_by := ''manual'', br_started := 4\<rparr>,
      sample_backup\<lparr>br_status := ''running'', br_size := 0, br_finished := None\<rparr>]\<rparr>"

lemma running_rows:
  "distinct (map br_id (bd_backups (running_sample n)))"
  "sample_backup\<lparr>br_status := ''running'', br_size := 0, br_finished := None\<rparr> \<in> set (bd_backups (running_sample n))"
  "length (completed_of ''k'' (running_sample n)) = 2"
  "filter (\<lambda>b. 5 \<le> br_started b) (completed_of ''k'' (running_sample n)) = []"
  by (simp_all add: running_sample_def sample_backup_def completed_of_def)


theorem zero_retention_keeps_none_witness:
  "\<exists>db' w'. complete_backup map_store 6 ''u'' 1 (nightly ''k'' ''a'' 0) (running_sample 0) Map.empty = (db', w') \<and>
     completed_of ''k'' db' = []"
proof -
  obtain db' w' where r: "complete_backup map_store 6 ''u'' 1 (nightly ''k'' ''a'' 0) (running_sample 0) Map.empty = (db', w')"
    by (metis surj_pair)
  let ?row = "sample_backup\<lparr>br_status := ''running'', br_size := 0, br_finished := None\<rparr>"
  have m: "br_id ?row = ''u''" "br_schedule ?row = Some (bk_id (nightly ''k'' ''a'' 0))" "br_status ?row \<noteq> ''completed''"
    "bk_id (nightly ''k'' ''a'' 0) = ''k''" "bk_retention (nightly ''k'' ''a'' 0) \<le> 0"
    by (simp_all add: sample_backup_def nightly_def)
  show ?thesis
    using zero_retention_keeps_none [OF r running_rows(1,2) m(1-3,5)] r unfolding m(4) by simp
qed

theorem backup_restores_witness:
  "\<exists>msg db' w' w2. run_for_schedule sample_env (\<lambda>_. ''t'') sample_codecs dump_exec map_store id id 5 6 ''u'' ''k'' (backup_sample 7)
     Map.empty = (Inr msg, db', w') \<and>
   restore_backup sample_env sample_codecs quiet_pipe map_store eve ''u'' ''app'' db' w' =
     restore_failed (execute_mongo_restore quiet_pipe ''pier-m'' (\<lambda>_. None) ''app'' True [7] w2)"
proof -
  let ?w = "[(backup_storage, sample_key) \<mapsto> [7]] :: sample_world"
  have "old_backups ''k'' 7 (marked_sample 7) = []"
    by (simp add: old_backups_def completed_of_def marked_sample_def newest_first_def)
  then have r: "run_for_schedule sample_env (\<lambda>_. ''t'') sample_codecs dump_exec map_store id id 5 6 ''u'' ''k'' (backup_sample 7)
     Map.empty = (Inr ''backup for service a (app) completed'', marked_sample 7, ?w)"
    using sample_run [of 7] by simp
  let ?s = "\<lparr>si_id = ''a'', si_name = ''m'', si_catalog = Some ''mongodb'', si_env = None\<rparr>"
  have s: "service_by_id (backup_sample 7) (bk_service (nightly ''k'' ''a'' 7)) = Some ?s"
    "storage_by_id (backup_sample 7) (bk_storage (nightly ''k'' ''a'' 7)) = Some backup_storage"
    "bk_db (nightly ''k'' ''a'' 7) = Some ''app''" "0 < bk_retention (nightly ''k'' ''a'' 7)"
    by (simp_all add: service_by_id_def storage_by_id_def backup_sample_def nightly_def sql_simps backup_storage_def)
  have k: "sample_key = build_s3_key (so_prefix backup_storage) (si_name ?s) ''mongodb'' (Some ''app'') ((\<lambda>_. ''t'') (5 :: time))"
    by (simp add: sample_key_def backup_storage_def)
  obtain m where m: "enforce_resource_role backup_auth eve ''a'' ProjectAdmin = Inr m" using eve_admin(1) by blast
  have p: "restore_plan eve ''u'' ''app'' (marked_sample 7) = Inr (sample_backup, ?s, sample_cred, backup_storage)"
    using m by (simp add: restore_plan_def marked_sample_def backup_by_id_def sample_backup_def sql_simps fetch_service_info_def
        service_by_id_def backup_sample_def coalesce_def supports_per_db_backup_def resolve_owner_def load_db_credentials_def
        sample_cred_def storage_by_id_def backup_storage_def)
  have g: "bs_get map_store backup_storage sample_key ?w = (Inr [7], ?w)" by (simp add: map_store_def)
  note j = sample_job [of 7]
  have a: "undisturbed (nightly ''k'' ''a'' 7) ''u'' 5 sample_key x (id (id x))"
    if "schedule_job sample_env (\<lambda>_. ''t'') 5 ''u'' (nightly ''k'' ''a'' 7) (backup_sample 7) = Inr (y, x)" for x y
    using undisturbed_alone [OF that s(4)] by (simp add: sample_rows)
  from backup_restores [OF sample_codecs_ok map_store_ok r sample_sched s(3,1,2) _ k j a [OF j] p g, of quiet_pipe]
  obtain cred raw wb where o: "execute_db_dump_raw dump_exec ''pier-m'' ''mongodb'' (\<lambda>_. None) cred ''app'' Map.empty = (Inr raw, wb)"
    "restore_backup sample_env sample_codecs quiet_pipe map_store eve ''u'' ''app'' (marked_sample 7) ?w =
      restore_failed (execute_mongo_restore quiet_pipe ''pier-m'' (\<lambda>_. None) ''app'' True raw ?w)"
    by (auto simp: coalesce_def)
  have "raw = [7]"
    using o(1) by (simp add: execute_db_dump_raw_def per_db_dump_args_def postgres_like_def mysql_like_def dump_exec_def)
  then show ?thesis using r o(2) by blast
qed

definition nightly_request :: "string \<Rightarrow> backup_request" where
  "nightly_request so = \<lparr>bq_storage = so, bq_cron = ''0 3 * * *'', bq_retention = 7, bq_db = Some ''app''\<rparr>"

lemma sample_backup_create:
  "\<exists>db'. backup_create sample_cron 9 ''n'' eve ''a'' (nightly_request ''s'') (backup_sample 7) = (Inr ''n'', db')"
proof -
  obtain m where m: "enforce_resource_role backup_auth eve ''a'' ProjectAdmin = Inr m" using eve_admin(1) by blast
  then have a: "enforce_resource_role (bd_auth (backup_sample 7)) eve ''a'' ProjectAdmin = Inr m"
    by (simp add: backup_sample_def)
  show ?thesis
    unfolding backup_create_def a
    by (simp add: nightly_request_def Let_def drop_backup_schedules_def backup_sample_def nightly_def sql_simps coalesce_def
        service_by_id_def storage_by_id_def backup_storage_def)
qed


lemma sample_mirror:
  "schedule_get (bd_sched (backup_sample 7)) (unified_id (bk_id (nightly ''k'' ''a'' 7))) =
    Some ((sample_schedule ''sched-bk-k'')\<lparr>sh_system := True\<rparr>)"
  by (simp add: backup_sample_def schedule_get_def sql_simps sample_schedule_def unified_id_def nightly_def)

theorem replaced_mirror_orphaned_witness:
  "\<exists>db' e. backup_create sample_cron 9 ''n'' eve ''a'' (nightly_request ''s'') (backup_sample 7) = (Inr ''n'', db') \<and>
     run_for_schedule sample_env (\<lambda>_. ''t'') sample_codecs dump_exec map_store id id 5 6 ''u'' ''k'' db' Map.empty = (Inl e, db', Map.empty)"
proof -
  obtain db' where c: "backup_create sample_cron 9 ''n'' eve ''a'' (nightly_request ''s'') (backup_sample 7) = (Inr ''n'', db')"
    using sample_backup_create by blast
  have o: "nightly ''k'' ''a'' 7 \<in> set (bd_schedules (backup_sample 7))" by (simp add: backup_sample_def)
  have p: "bk_service (nightly ''k'' ''a'' 7) = ''a''"
    "coalesce (bk_db (nightly ''k'' ''a'' 7)) [] = coalesce (bq_db (nightly_request ''s'')) []"
    "bk_id (nightly ''k'' ''a'' 7) \<noteq> ''n''" "bk_id (nightly ''k'' ''a'' 7) = ''k''"
    by (simp_all add: nightly_def nightly_request_def)
  have d: "distinct (map bk_id (bd_schedules (backup_sample 7)))" by (simp add: backup_sample_def nightly_def)
  have s: "sh_system ((sample_schedule ''sched-bk-k'')\<lparr>sh_system := True\<rparr>)" by simp
  show ?thesis
    using replaced_mirror_orphaned [OF c o p(1,2) sample_mirror s p(3) d, of sample_env "\<lambda>_. ''t''" sample_codecs dump_exec
        map_store id id 5 6 "''u''" Map.empty] c unfolding p(4) by blast
qed

theorem foreign_schedule_deleted_witness:
  "(\<exists>e. enforce_resource_role (bd_auth (backup_sample 7)) eve ''b'' Viewer = Inl e) \<and>
   backup_schedule_by_id (snd (backup_delete eve ''a'' ''l'' (backup_sample 7))) ''l'' = None"
proof -
  have a: "bd_auth (backup_sample 7) = backup_auth" by (simp add: backup_sample_def)
  obtain m e where m: "enforce_resource_role (bd_auth (backup_sample 7)) eve ''a'' ProjectAdmin = Inr m"
    "enforce_resource_role (bd_auth (backup_sample 7)) eve ''b'' Viewer = Inl e"
    using eve_admin unfolding a by blast
  have s: "backup_schedule_by_id (backup_sample 7) ''l'' = Some (nightly ''l'' ''b'' 7)" "bk_service (nightly ''l'' ''b'' 7) = ''b''"
    by (simp_all add: backup_schedule_by_id_def backup_sample_def nightly_def sql_simps)
  show ?thesis using foreign_schedule_deleted [OF m(1) s(1)] m(2) s(2) by simp
qed

theorem failed_replace_loses_schedule_witness:
  "nightly ''k'' ''a'' 7 \<in> set (bd_schedules (backup_sample 7)) \<and>
   nightly ''k'' ''a'' 7 \<notin> set (bd_schedules (snd (backup_create sample_cron 9 ''n'' eve ''a'' (nightly_request ''gone'') (backup_sample 7))))"
proof -
  obtain m where m: "enforce_resource_role (bd_auth (backup_sample 7)) eve ''a'' ProjectAdmin = Inr m"
    using eve_admin(1) by (auto simp: backup_sample_def)
  have o: "nightly ''k'' ''a'' 7 \<in> set (bd_schedules (backup_sample 7))" by (simp add: backup_sample_def)
  have p: "bk_service (nightly ''k'' ''a'' 7) = ''a''"
    "coalesce (bk_db (nightly ''k'' ''a'' 7)) [] = coalesce (bq_db (nightly_request ''gone'')) []"
    "bq_storage (nightly_request ''gone'') \<noteq> []" "storage_by_id (backup_sample 7) (bq_storage (nightly_request ''gone'')) = None"
    by (simp_all add: nightly_def nightly_request_def storage_by_id_def backup_sample_def backup_storage_def sql_simps)
  show ?thesis using failed_replace_loses_schedule [OF m o p] o by blast
qed

end
