(* ===== verification/Spec2Isabelle.thy ===== *)
theory Spec2Isabelle
  imports Rbac Auth Users Members Helper Mesh MeshCall PortBindings Registry Npm Compose ComposePorts ComposeNet DeployPorts ServiceDns Servers Federation Shell Schedules BackupFormat Backups
begin

text \<open>
  A model of the core logic of Pier, a self-hosted deployment panel (crates pier-core, pier-agent and
  pier-net-helper), with the theorems that make it correct. pier-core is an HTTP server over one SQLite
  database that deploys containers, allocates their host ports, manages users, keeps an npm registry and
  plans a WireGuard mesh between the servers; pier-net-helper is the privileged process that writes the
  WireGuard configuration of a node; pier-agent relays the calls of a core to a remote node.

  Conventions. A table is a list of rows in rowid order, a statement a list function (Prelude). A handler
  is a function from the database to a result \<open>app_error + 'a\<close> and a new database; its SQL statements,
  checks and early returns are in the order of the code. Handlers run one at a time because the code
  holds the database mutex; where it releases the mutex in between, the parts are definitions of their
  own. Time, random values, hashes, password checks and the programs the helper runs are parameters.
  Machine integers keep their width where it matters (ports 16 bits, addresses 32, sizes of the helper's
  binaries are lists of bytes); texts are lists of characters of the Latin-1 range.

  Theories, bottom up:
  \<^item> Prelude: strings, decimal numbers, tables, errors (error.rs), and the locales \<open>invariant_system\<close>,
    \<open>quorum_table\<close>, \<open>first_fit\<close> and \<open>role_order\<close> the components interpret.
  \<^item> AuthDb: the tables of users, sessions, tokens, projects and members (db/schema.rs) and their
    foreign keys.
  \<^item> Rbac: auth/rbac (roles, membership, policy, guards). The guards agree with the policy.
  \<^item> Tokens, Auth: setup, partial, recovery and API tokens, and auth/middleware.rs and
    auth/handlers.rs. Every identity the middleware yields is backed by the database; session life times;
    single use of the second factor; first-admin setup.
  \<^item> Users, Members: api/users.rs, api/invitations.rs, api/project_members.rs as transition systems. An
    active owner and a project administrator remain along every run.
  \<^item> WgConfig, Helper: pier-net-helper (protocol.rs and main.rs). The validator is decided by a
    declarative predicate; the installed file passes the whitelist in every reachable state; the rollback
    timer; the self-update.
  \<^item> Subnet, Mesh: network/address.rs, network/wireguard.rs and api/network.rs. Addresses print and parse
    back; allocation terminates with the lowest free host (the loop is a partial function into option and
    is proved to return for every parsed subnet); the plan, its rendering and the two-phase
    configuration, with the invariant of the addresses.
  \<^item> MeshCall: network/mesh_call.rs and the relay of pier-agent. It composes the mesh with the helpers of all
    nodes: after a successful configuration every installed file says what the database holds.
  \<^item> Ports, PortBindings: db/ports.rs, docker/port_sync.rs and the pure part of docker/recreate.rs. Ports
    are handed out once and only when free; publishing and synchronising are inverse.
  \<^item> Json, Registry, Npm: ordered maps and JSON values, the tables of the npm registry (registry/db.rs), and
    its handlers with the tarball files and the upstream proxy (api/npm.rs, registry/storage.rs,
    registry/upstream.rs). What is published is what is served; tags name published versions along every
    run; who may change a package; the eviction of cached tarballs respects its cap.

  \<^item> Compose: the line-oriented rewriting of compose files (deploy/mod.rs): the scan for the services, the
    injectors of env_file, extra_hosts, init, labels and ports, and the removal of ports. Editing by index
    from the last service to the first is a map over the blocks of the file (locale \<open>block_editor\<close>).
  \<^item> ComposePorts: the parser of services and ports with its variable substitution; what is written from the
    database is what is parsed back, and injecting twice changes nothing.
  \<^item> ComposeNet: docker/compose.rs and the rewriting that puts the services on the networks of Pier.
  \<^item> DeployPorts: the port rows of a deploy: backfill, upsert, reload (deploy/mod.rs) and the injection from
    the database (docker/compose_service.rs). A deploy publishes exactly the rows and keeps their exposure.
  \<^item> ServiceDns: api/service_dns.rs and the host entries of deploy/mod.rs. The table stays sound together with
    the mesh and the servers, and what is injected are host names.
  \<^item> Servers: api/servers.rs, auth/server_token.rs, auth/rotation.rs and the rotation endpoint of pier-agent:
    bootstrap tokens, heartbeats, rotation. When the two sides keep one token, and when they do not.
  \<^item> Federation: the tokens, middleware and stack handlers of a peer (api/federation_tokens.rs,
    auth/federation.rs, api/federation_agent.rs) and the rotation by the primary
    (federation/write_client.rs). A token reaches only its own stacks.
  \<^item> Tasks, Shell: commands run on the servers, on both sides. Tasks is the core (tasks/, api/tasks.rs): every run has
    ended, is being started or has a poller along every interleaving, and a poller ends. Shell is the
    agent (shell.rs): the bounded output buffers, the writes of the supervisor and of a cancellation one
    lock at a time, and the snapshots taken in between.
  \<^item> Schedules: the scheduler (scheduler/) and api/schedules.rs over a parameter for the cron crate. One fire per
    schedule along every interleaving, what a tick serves and what a fire leaves behind.
  \<^item> BackupFormat: the dumps, keys, formats and restores of databases (backup/executor.rs, backup/restore.rs and parts
    of api/backups.rs). A restore is fed the dump the backup took, and its SQL reads names back as they are.
  \<^item> Backups: the tables and handlers of backups and their schedules with the rows of the scheduler that mirror them
    (api/backups.rs, backup/scheduler.rs). What a run dumps is what a restore loads; the retention keeps the
    newest; a restore only touches databases of the service its caller administers.

  Loops. Recursion is structural or carries a termination proof; the only loop whose end is a theorem of
  its own is the address allocation, a partial function into option, which is shown to return for every
  parsed subnet. There is no fuel elsewhere.

  Not modelled: the HTTP plumbing and the web interface, the calls of Docker, git and S3, audit logging,
  the catalog, the database browser, and the SQL text itself (a statement is modelled by its effect). Of the
  rest of pier-core the orchestration of a deployment (api/resources.rs, and deploy/mod.rs beyond the compose
  files), the reverse proxy and its domains, the alerts and the administration of registries have no model yet.
\<close>

end
